(* ===== verification/Prelude.thy ===== *)
theory Prelude
  imports Main "HOL-Library.Word"
begin

unbundle bit_operations_syntax

text \<open>
  What every component of the development shares: the C integer types as machine words, the
  alignment macros, counting loops, the interface of a register file (control and status
  registers, stream semantic register configuration, memory bytes), the interface of a
  transition system with an inductive invariant, and the interface of a bounded queue.
\<close>

section \<open>C integer types\<close>

type_synonym u8 = "8 word"
type_synonym u16 = "16 word"
type_synonym u32 = "32 word"
type_synonym u64 = "64 word"

text \<open>
  The cores are 32 bit: \<open>size_t\<close>, \<open>uintptr_t\<close>, \<open>unsigned\<close> and pointers are \<open>u32\<close>, and a signed
  \<open>int32_t\<close> is the same word read through \<open>sint\<close>.
\<close>

type_synonym i32 = "32 word"
type_synonym ptr32 = "32 word"

named_theorems frame_simps \<open>what an operation leaves unchanged\<close>
named_theorems inv_intros \<open>operations keep the invariants of their component\<close>

section \<open>Words as numbers\<close>

lemma unat_bound: "unat (x :: 'a::len word) < 2 ^ LENGTH('a)"
  by (rule unsigned_less)

lemma unat_u8_bound: "unat (x :: u8) < 256"
  using unat_bound [of x] by simp

lemma unat_u32_bound: "unat (x :: u32) < 4294967296"
  using unat_bound [of x] by simp

lemma unat_of_nat_small: "n < 2 ^ LENGTH('a) \<Longrightarrow> unat (word_of_nat n :: 'a::len word) = n"
  by (simp add: unat_of_nat take_bit_nat_eq_self)

lemma unat_add_small:
  "unat x + unat y < 2 ^ LENGTH('a) \<Longrightarrow> unat (x + y :: 'a::len word) = unat x + unat y"
  by (simp add: unat_word_ariths)

lemma unat_mult_small:
  "unat x * unat y < 2 ^ LENGTH('a) \<Longrightarrow> unat (x * y :: 'a::len word) = unat x * unat y"
  by (simp add: unat_word_ariths)

lemma unat_diff_le: "y \<le> x \<Longrightarrow> unat (x - y :: 'a::len word) = unat x - unat y"
  by (rule unat_sub)

lemma sint_small: "unat x < 2 ^ 31 \<Longrightarrow> sint (x :: u32) = int (unat x)"
proof -
  assume small: "unat x < 2 ^ 31"
  have u: "uint x = int (unat x)" by simp
  have "int (unat x) < int (2 ^ 31)" using small by (simp only: of_nat_less_iff)
  then have b: "uint x < 2 ^ 31" by (simp only: u of_nat_power of_nat_numeral)
  have "signed_take_bit 31 (uint x) = uint x"
    by (rule signed_take_bit_int_eq_self) (use b uint_ge_0 [of x] in linarith)+
  moreover have "sint x = signed_take_bit 31 (uint x)" using sint_uint [of x] by simp
  ultimately show ?thesis by (simp only: u)
qed

lemma sint_of_int_small: "- (2 ^ 31) \<le> k \<Longrightarrow> k < 2 ^ 31 \<Longrightarrow> sint (word_of_int k :: u32) = k"
  using signed_take_bit_int_eq_self [of 31 k] by (simp add: sint_sbintrunc')

text \<open>Addresses as offsets from a base.\<close>

lemma addr_eq_iff:
  assumes "k < 2 ^ LENGTH('a)"
  shows "x = p + word_of_nat k \<longleftrightarrow> unat (x - p :: 'a::len word) = k"
proof
  assume "x = p + word_of_nat k"
  with assms show "unat (x - p) = k" by (simp add: unat_of_nat_small)
next
  assume "unat (x - p) = k"
  then have "word_of_nat k = x - p" by auto
  then show "x = p + word_of_nat k" by (simp add: algebra_simps)
qed

lemma addr_shift:
  fixes x p :: "'a::len word"
  assumes "b + n \<le> 2 ^ LENGTH('a)" and "0 < n"
  shows "unat (x - (p + word_of_nat b)) < n \<longleftrightarrow> b \<le> unat (x - p) \<and> unat (x - p) < b + n"
    and "b \<le> unat (x - p) \<Longrightarrow> unat (x - (p + word_of_nat b)) = unat (x - p) - b"
proof -
  define k where "k = unat (x - p)"
  have k: "k < 2 ^ LENGTH('a)" unfolding k_def by (rule unat_bound)
  have b: "b < 2 ^ LENGTH('a)" using assms by linarith
  have x: "x = p + word_of_nat k" using addr_eq_iff [OF k] k_def by metis
  have ge: "unat (x - (p + word_of_nat b)) = k - b" if "b \<le> k"
  proof -
    have "x - (p + word_of_nat b) = word_of_nat (k - b)" using that by (simp add: x of_nat_diff)
    then show ?thesis using k by (simp add: unat_of_nat_small)
  qed
  have lt: "unat (x - (p + word_of_nat b)) = 2 ^ LENGTH('a) + k - b" if "k < b"
  proof -
    have "(word_of_nat (2 ^ LENGTH('a) + k - b) :: 'a word) = word_of_nat (2 ^ LENGTH('a) + k) - word_of_nat b"
      by (rule of_nat_diff) (use b in linarith)
    also have "\<dots> = x - (p + word_of_nat b)" by (simp add: x)
    finally have "unat (x - (p + word_of_nat b)) = unat (word_of_nat (2 ^ LENGTH('a) + k - b) :: 'a word)"
      by simp
    also have "\<dots> = 2 ^ LENGTH('a) + k - b"
      by (rule unat_of_nat_small) (use that b in linarith)
    finally show ?thesis .
  qed
  show "unat (x - (p + word_of_nat b)) < n \<longleftrightarrow> b \<le> unat (x - p) \<and> unat (x - p) < b + n"
  proof (cases "b \<le> k")
    case True
    then show ?thesis using ge by (simp add: k_def [symmetric] less_diff_conv2 add.commute)
  next
    case False
    then show ?thesis using lt assms(1) by (simp add: k_def [symmetric])
  qed
  show "b \<le> unat (x - p) \<Longrightarrow> unat (x - (p + word_of_nat b)) = unat (x - p) - b"
    using ge by (simp add: k_def)
qed

section \<open>Alignment\<close>

definition align_up :: "u32 \<Rightarrow> u32 \<Rightarrow> u32" where
  "align_up addr sz = (addr + sz - 1) AND (NOT (sz - 1))"

definition align_down :: "u32 \<Rightarrow> u32 \<Rightarrow> u32" where
  "align_down addr sz = addr AND (NOT (sz - 1))"

lemma and_not_mask_eq:
  fixes x :: "'a::len word"
  shows "x AND NOT (mask k) = push_bit k (drop_bit k x)"
  by (rule bit_word_eqI) (auto simp: bit_simps)

lemma unat_and_not_mask:
  fixes x :: "'a::len word"
  shows "unat (x AND NOT (mask k)) = unat x - unat x mod 2 ^ k"
proof -
  have "unat (x AND NOT (mask k)) = unat (push_bit k (drop_bit k x))"
    by (simp add: and_not_mask_eq)
  also have "\<dots> = take_bit LENGTH('a) (push_bit k (drop_bit k (unat x)))"
    by (simp add: unsigned_push_bit_eq unsigned_drop_bit_eq take_bit_nat_eq_self)
  also have "push_bit k (drop_bit k (unat x)) = unat x - unat x mod 2 ^ k"
    by (simp add: push_bit_eq_mult drop_bit_eq_div minus_mod_eq_div_mult)
  also have "take_bit LENGTH('a) (unat x - unat x mod 2 ^ k) = unat x - unat x mod 2 ^ k"
    by (rule take_bit_nat_eq_self) (rule le_less_trans [OF diff_le_self unsigned_less])
  finally show ?thesis .
qed

lemma unat_align_down: "unat (align_down a (2 ^ k)) = unat a - unat a mod 2 ^ k"
  using unat_and_not_mask [of a k] by (simp add: align_down_def mask_eq_exp_minus_1)

lemma unat_align_up:
  assumes "k < 32" and "unat a + (2 ^ k - 1) < 2 ^ 32"
  shows "unat (align_up a (2 ^ k)) = (unat a + (2 ^ k - 1)) div 2 ^ k * 2 ^ k"
proof -
  have p: "unat ((2::u32) ^ k - 1) = 2 ^ k - 1"
    using assms(1) uint_mask_eq [where 'a = 32 and n = k]
    by (simp add: mask_eq_exp_minus_1 min_def unat_eq_nat_uint nat_diff_distrib nat_power_eq)
  have "a + 2 ^ k - 1 = a + (2 ^ k - 1)" by simp
  then have u: "unat (a + 2 ^ k - 1) = unat a + (2 ^ k - 1)"
    using assms(2) p unat_word_ariths(1) [of a "2 ^ k - 1"] by (simp add: add_diff_eq)
  show ?thesis
    using unat_and_not_mask [of "a + 2 ^ k - 1" k] u
    by (simp add: align_up_def mask_eq_exp_minus_1 minus_mod_eq_div_mult)
qed

lemma unat_align_up_8:
  assumes "unat a + 7 < 2 ^ 32"
  shows "unat (align_up a 8) = (unat a + 7) div 8 * 8"
  using unat_align_up [of 3 a] assms by simp

section \<open>Counting loops\<close>

text \<open>\<open>for (i = lo; i < hi; i++) body\<close> over a state, for a counter that does not wrap.\<close>

definition for_up :: "nat \<Rightarrow> nat \<Rightarrow> (nat \<Rightarrow> 's \<Rightarrow> 's) \<Rightarrow> 's \<Rightarrow> 's" where
  "for_up lo hi body s = fold body [lo..<hi] s"

lemma for_up_done [simp]: "hi \<le> lo \<Longrightarrow> for_up lo hi body s = s"
  by (simp add: for_up_def)

lemma for_up_step: "lo < hi \<Longrightarrow> for_up lo hi body s = for_up (Suc lo) hi body (body lo s)"
  by (simp add: for_up_def upt_conv_Cons)

lemma for_up_Suc: "lo \<le> hi \<Longrightarrow> for_up lo (Suc hi) body s = body hi (for_up lo hi body s)"
  by (simp add: for_up_def)

text \<open>The rule of the loop: an invariant indexed by the counter.\<close>

lemma for_up_inv:
  assumes "I lo s" and "lo \<le> hi"
    and "\<And>i t. lo \<le> i \<Longrightarrow> i < hi \<Longrightarrow> I i t \<Longrightarrow> I (Suc i) (body i t)"
  shows "I hi (for_up lo hi body s)"
  using assms(2,3)
proof (induction hi rule: dec_induct)
  case base
  show ?case using assms(1) by simp
next
  case (step n)
  then have "I n (for_up lo n body s)" by simp
  with step show ?case by (simp add: for_up_Suc)
qed

text \<open>Two nested loops are one loop over the pairs.\<close>

lemma upt_append: "i \<le> j \<Longrightarrow> j \<le> k \<Longrightarrow> [i..<j] @ [j..<k] = [i..<k]"
  by (metis le_add_diff_inverse upt_add_eq_append)

lemma for_up_append:
  "lo \<le> mid \<Longrightarrow> mid \<le> hi \<Longrightarrow> for_up lo hi body s = for_up mid hi body (for_up lo mid body s)"
  by (simp add: for_up_def flip: upt_append [of lo mid hi])

lemma for_up_shift: "for_up (k + lo) (k + hi) body s = for_up lo hi (\<lambda>i. body (k + i)) s"
proof -
  have "[k + lo..<k + hi] = map (\<lambda>i. k + i) [lo..<hi]"
    by (rule nth_equalityI) simp_all
  then show ?thesis by (simp add: for_up_def fold_map comp_def)
qed

lemma for_up_nest:
  assumes "0 < m"
  shows "for_up 0 n (\<lambda>i. for_up 0 m (f i)) s = for_up 0 (n * m) (\<lambda>k. f (k div m) (k mod m)) s"
proof (induction n)
  case 0
  then show ?case by simp
next
  case (Suc n)
  have "for_up (n * m) (Suc n * m) (\<lambda>k. f (k div m) (k mod m)) t = for_up 0 m (f n) t" for t
  proof -
    have "for_up (n * m) (Suc n * m) (\<lambda>k. f (k div m) (k mod m)) t =
        for_up 0 m (\<lambda>i. f ((n * m + i) div m) ((n * m + i) mod m)) t"
      using for_up_shift [of "n * m" 0 m "\<lambda>k. f (k div m) (k mod m)" t]
      by (simp add: add.commute)
    also have "\<dots> = for_up 0 m (f n) t"
      unfolding for_up_def by (rule fold_cong) simp_all
    finally show ?thesis .
  qed
  then have "for_up 0 (Suc n * m) (\<lambda>k. f (k div m) (k mod m)) s =
      for_up 0 m (f n) (for_up 0 (n * m) (\<lambda>k. f (k div m) (k mod m)) s)"
    using for_up_append [of 0 "n * m" "Suc n * m" "\<lambda>k. f (k div m) (k mod m)" s] by simp
  with Suc show ?case by (simp add: for_up_Suc)
qed

text \<open>Counting in a 32-bit counter the indices at which a test fails.\<close>

definition count_fails :: "nat \<Rightarrow> (nat \<Rightarrow> bool) \<Rightarrow> u32" where
  "count_fails n ok = for_up 0 n (\<lambda>i err. if \<not> ok i then err + 1 else err) 0"

lemma card_less_Suc_filter:
  "card {j. j < Suc i \<and> P j} = card {j. j < i \<and> P j} + (if P i then 1 else 0)"
proof -
  have "{j. j < Suc i \<and> P j} = (if P i then insert i {j. j < i \<and> P j} else {j. j < i \<and> P j})"
    by (auto simp: less_Suc_eq)
  then show ?thesis by simp
qed

lemma card_filter_le: "card {j. j < i \<and> P j} \<le> (i :: nat)"
  using card_mono [of "{..<i}" "{j. j < i \<and> P j}"] by auto

lemma unat_count_fails:
  assumes "n < 2 ^ 32"
  shows "unat (count_fails n ok) = card {i. i < n \<and> \<not> ok i}"
  unfolding count_fails_def
proof (rule for_up_inv [where I = "\<lambda>i err. unat err = card {j. j < i \<and> \<not> ok j}"])
  fix i and err :: u32
  assume i: "i < n" and e: "unat err = card {j. j < i \<and> \<not> ok j}"
  have "unat err \<le> i" unfolding e by (rule card_filter_le)
  with i assms have "unat (err + 1) = unat err + 1"
    by (intro trans [OF unat_add_small]) simp_all
  with e show "unat (if \<not> ok i then err + 1 else err) = card {j. j < Suc i \<and> \<not> ok j}"
    unfolding card_less_Suc_filter by simp
qed simp_all

section \<open>Polling loops\<close>

text \<open>
  \<open>do s = f s; while (! P s)\<close>: the loop may run for ever, so it is a partial function, and
  \<open>None\<close> is not returning.
\<close>

partial_function (option) poll_until :: "('s \<Rightarrow> 's) \<Rightarrow> ('s \<Rightarrow> bool) \<Rightarrow> 's \<Rightarrow> 's option" where
  "poll_until f P s = (let s' = f s in if P s' then Some s' else poll_until f P s')"

lemma poll_until_now: "P (f s) \<Longrightarrow> poll_until f P s = Some (f s)"
  by (subst poll_until.simps) simp

lemma poll_until_later: "\<not> P (f s) \<Longrightarrow> poll_until f P s = poll_until f P (f s)"
  by (subst poll_until.simps) simp

lemma poll_until_first:
  assumes "P ((f ^^ Suc n) s)" and "\<And>k. k < n \<Longrightarrow> \<not> P ((f ^^ Suc k) s)"
  shows "poll_until f P s = Some ((f ^^ Suc n) s)"
  using assms
proof (induction n arbitrary: s)
  case 0
  then show ?case by (simp add: poll_until_now)
next
  case (Suc n)
  have "\<not> P (f s)" using Suc.prems(2) [of 0] by simp
  moreover have "\<not> P ((f ^^ Suc k) (f s))" if "k < n" for k
    using Suc.prems(2) [of "Suc k"] that by (simp add: funpow_swap1)
  ultimately show ?case
    using Suc.IH [of "f s"] Suc.prems(1) by (simp add: poll_until_later funpow_swap1)
qed

lemma poll_until_returns:
  assumes "P ((f ^^ Suc n) s)"
  shows "\<exists>m \<le> n. poll_until f P s = Some ((f ^^ Suc m) s) \<and> P ((f ^^ Suc m) s)"
proof -
  define m where "m = (LEAST k. P ((f ^^ Suc k) s))"
  have "P ((f ^^ Suc m) s)" "m \<le> n"
    unfolding m_def using assms by (auto intro: LeastI Least_le)
  moreover have "\<And>k. k < m \<Longrightarrow> \<not> P ((f ^^ Suc k) s)"
    unfolding m_def using not_less_Least by blast
  ultimately show ?thesis using poll_until_first [of P m f s] by blast
qed

lemma poll_until_Some:
  fixes s :: 's
  assumes "poll_until f P s = Some t"
  shows "P t \<and> (\<exists>n. t = (f ^^ Suc n) s)"
proof -
  let ?Q = "\<lambda>x t. case x of ((f, P), s) \<Rightarrow> P t \<and> (\<exists>n. t = (f ^^ Suc n) (s :: 's))"
  have "?Q ((f, P), s) t"
  proof (rule poll_until.raw_induct [where Pa = ?Q, OF _ assms])
    fix rec f P s t
    assume IH: "\<And>f P s t. rec f P s = Some t \<Longrightarrow> ?Q ((f, P), s) t"
      and eq: "(let s' = f s in if P s' then Some s' else rec f P s') = Some t"
    show "?Q ((f, P), s) t"
    proof (cases "P (f s)")
      case True
      with eq show ?thesis by (auto intro: exI [of _ 0])
    next
      case False
      with eq have "rec f P (f s) = Some t" by simp
      from IH [OF this] obtain n where "P t" "t = (f ^^ Suc n) (f s)" by auto
      then show ?thesis by (auto simp: funpow_swap1 intro!: exI [of _ "Suc n"])
    qed
  qed
  then show ?thesis by simp
qed

section \<open>Register files\<close>

text \<open>
  A register file: reading what was written, and a write to one register leaves the others
  alone. A write outside \<open>ok\<close> may be dropped. The lemmas about whole sequences of writes are
  proved once here, and used for the CSRs, the SSR configuration and the memory bytes.
\<close>

locale register_file =
  fixes rd :: "'s \<Rightarrow> 'a \<Rightarrow> 'v"
    and wr :: "'a \<Rightarrow> 'v \<Rightarrow> 's \<Rightarrow> 's"
    and ok :: "'a \<Rightarrow> bool"
  assumes rd_wr_same: "ok a \<Longrightarrow> rd (wr a v s) a = v"
    and rd_wr_other: "a \<noteq> b \<Longrightarrow> rd (wr a v s) b = rd s b"
begin

lemma rd_writes_other:
  "a \<notin> fst ` set ws \<Longrightarrow> rd (fold (\<lambda>(a, v). wr a v) ws s) a = rd s a"
  by (induction ws arbitrary: s) (auto simp: rd_wr_other)

lemma rd_writes_last:
  assumes "ok a" and "a \<notin> fst ` set zs"
  shows "rd (fold (\<lambda>(a, v). wr a v) (ys @ (a, v) # zs) s) a = v"
  using assms by (simp add: rd_writes_other rd_wr_same)

lemma rd_writes_distinct:
  assumes "distinct (map fst ws)" and "(a, v) \<in> set ws" and "ok a"
  shows "rd (fold (\<lambda>(a, v). wr a v) ws s) a = v"
proof -
  from assms(2) obtain ys zs where ws: "ws = ys @ (a, v) # zs"
    by (auto dest: split_list)
  with assms(1) have "a \<notin> fst ` set zs" by auto
  with assms(3) ws show ?thesis using rd_writes_last by simp
qed

lemma rd_writes_map_of:
  assumes "\<forall>p \<in> set ws. ok (fst p)"
  shows "rd (fold (\<lambda>(a, v). wr a v) ws s) a =
    (case map_of (rev ws) a of Some v \<Rightarrow> v | None \<Rightarrow> rd s a)"
  using assms
proof (induction ws rule: rev_induct)
  case Nil
  then show ?case by simp
next
  case (snoc w ws)
  obtain b v where w: "w = (b, v)" by (cases w)
  show ?case
    using snoc w by (cases "a = b") (auto simp: rd_wr_same rd_wr_other)
qed

end

section \<open>Transition systems\<close>

text \<open>
  A system of states with a step relation. A state property that the initial states have and
  every step keeps holds in every reachable state.
\<close>

locale transition_system =
  fixes init :: "'s \<Rightarrow> bool"
    and step :: "'s \<Rightarrow> 's \<Rightarrow> bool"
    and inv :: "'s \<Rightarrow> bool"
  assumes init_inv: "init s \<Longrightarrow> inv s"
    and step_inv: "inv s \<Longrightarrow> step s t \<Longrightarrow> inv t"
begin

lemma steps_inv: "step\<^sup>*\<^sup>* s t \<Longrightarrow> inv s \<Longrightarrow> inv t"
  by (induction rule: rtranclp_induct) (auto intro: step_inv)

lemma reachable_inv: "init s \<Longrightarrow> step\<^sup>*\<^sup>* s t \<Longrightarrow> inv t"
  by (blast intro: init_inv steps_inv)

end

section \<open>Bounded queues\<close>

text \<open>
  A queue of at most \<open>cap\<close> elements that stands for the list of its elements, oldest first;
  \<open>elem_ok\<close> are the elements it can hold.
\<close>

locale bounded_queue =
  fixes enq :: "'a \<Rightarrow> 'q \<Rightarrow> 'q"
    and front_of :: "'q \<Rightarrow> 'a"
    and deq :: "'q \<Rightarrow> 'q"
    and contents :: "'q \<Rightarrow> 'a list"
    and wf :: "'q \<Rightarrow> bool"
    and elem_ok :: "'a \<Rightarrow> bool"
    and cap :: nat
  assumes wf_bounded: "wf q \<Longrightarrow> length (contents q) \<le> cap"
    and wf_enq: "wf q \<Longrightarrow> length (contents q) < cap \<Longrightarrow> elem_ok x \<Longrightarrow> wf (enq x q)"
    and contents_enq: "wf q \<Longrightarrow> length (contents q) < cap \<Longrightarrow> elem_ok x \<Longrightarrow>
      contents (enq x q) = contents q @ [x]"
    and wf_deq: "wf q \<Longrightarrow> contents q \<noteq> [] \<Longrightarrow> wf (deq q)"
    and contents_deq: "wf q \<Longrightarrow> contents q \<noteq> [] \<Longrightarrow> contents (deq q) = tl (contents q)"
    and front_hd: "wf q \<Longrightarrow> contents q \<noteq> [] \<Longrightarrow> front_of q = hd (contents q)"
begin

lemma enq_list:
  assumes "wf q" and "length (contents q) + length xs \<le> cap" and "\<forall>x \<in> set xs. elem_ok x"
  shows "wf (fold enq xs q) \<and> contents (fold enq xs q) = contents q @ xs"
  using assms
proof (induction xs arbitrary: q)
  case Nil
  then show ?case by simp
next
  case (Cons x xs)
  then show ?case using wf_enq [of q x] contents_enq [of q x] by simp
qed

text \<open>Elements come out in the order they went in.\<close>

lemma fifo_order:
  assumes "wf q" and "n < length (contents q)"
  shows "wf ((deq ^^ n) q) \<and> front_of ((deq ^^ n) q) = contents q ! n"
proof -
  have "wf ((deq ^^ n) q) \<and> contents ((deq ^^ n) q) = drop n (contents q)"
    using assms
  proof (induction n)
    case 0
    then show ?case by simp
  next
    case (Suc n)
    then have IH: "wf ((deq ^^ n) q)" "contents ((deq ^^ n) q) = drop n (contents q)"
      by auto
    with Suc.prems have "contents ((deq ^^ n) q) \<noteq> []" by simp
    with IH show ?case by (simp add: wf_deq contents_deq drop_Suc tl_drop)
  qed
  with assms(2) show ?thesis by (simp add: front_hd hd_drop_conv_nth)
qed

end

end
