(* ===== verification/Csr.thy ===== *)
theory Csr
  imports Prelude
begin

unbundle bit_operations_syntax

text \<open>
  The control and status registers through which a core programs the accelerators
  (sw/snRuntime/src/csr.h). A CSR instruction names its register in the instruction word, so
  the runtime reaches a register whose number is only known at run time by a \<open>switch\<close> with
  one case per register: \<open>csrr_ss\<close> and \<open>csrw_ss\<close>.

  The state holds what the core last wrote to each register, the number of CSR accesses done
  and the writes in their order. What a register reads as is decided by the hardware behind it
  where it drives it (busy flags, task counters, performance counters): \<open>hw t a\<close> is the value
  driven onto register \<open>a\<close> at the \<open>t\<close>-th access, \<open>None\<close> for a plain read-write register. The
  hardware is a parameter of every definition that reads.
\<close>

section \<open>The register file\<close>

record csr_state =
  csr_file :: "u32 \<Rightarrow> u32"
  csr_now :: nat
  csr_trace :: "(u32 \<times> u32) list"

type_synonym hardware = "nat \<Rightarrow> u32 \<Rightarrow> u32 option"

definition csr_reset :: csr_state where
  "csr_reset = \<lparr>csr_file = (\<lambda>_. 0), csr_now = 0, csr_trace = []\<rparr>"

definition write_csr :: "u32 \<Rightarrow> u32 \<Rightarrow> csr_state \<Rightarrow> csr_state" where
  "write_csr a v s = s\<lparr>csr_file := (csr_file s)(a := v), csr_now := Suc (csr_now s),
     csr_trace := csr_trace s @ [(a, v)]\<rparr>"

definition csr_value :: "hardware \<Rightarrow> u32 \<Rightarrow> csr_state \<Rightarrow> u32" where
  "csr_value hw a s = (case hw (csr_now s) a of Some v \<Rightarrow> v | None \<Rightarrow> csr_file s a)"

definition csr_tick :: "csr_state \<Rightarrow> csr_state" where
  "csr_tick s = s\<lparr>csr_now := Suc (csr_now s)\<rparr>"

definition read_csr :: "hardware \<Rightarrow> u32 \<Rightarrow> csr_state \<Rightarrow> u32 \<times> csr_state" where
  "read_csr hw a s = (csr_value hw a s, csr_tick s)"

text \<open>The observation register and the register that selects the accelerator.\<close>

definition write_csr_obs :: "u32 \<Rightarrow> csr_state \<Rightarrow> csr_state" where
  "write_csr_obs v = write_csr 1989 v"

definition read_csr_obs :: "hardware \<Rightarrow> csr_state \<Rightarrow> u32 \<times> csr_state" where
  "read_csr_obs hw = read_csr hw 1989"

definition write_csr_multi_acc_mux :: "u32 \<Rightarrow> csr_state \<Rightarrow> csr_state" where
  "write_csr_multi_acc_mux v = write_csr 1990 v"

definition read_csr_multi_acc_mux :: "hardware \<Rightarrow> csr_state \<Rightarrow> u32 \<times> csr_state" where
  "read_csr_multi_acc_mux hw = read_csr hw 1990"

section \<open>The switches\<close>

text \<open>
  The cases of the two switches: 960 to 991 always, 992 to 1200 with \<open>CSR_LONG_ADDR_MODE\<close>
  (which the header defines). \<open>csrr_ss\<close> returns -1 for any other register; \<open>csrw_ss\<close> has no
  default case, and drops the write.
\<close>

definition csrr_switch_short :: "u32 list" where
  "csrr_switch_short = map word_of_nat [960..<992]"

definition csrr_switch_long :: "u32 list" where
  "csrr_switch_long = map word_of_nat [992..<1201]"

definition csrw_switch_short :: "u32 list" where
  "csrw_switch_short = map word_of_nat [960..<992]"

definition csrw_switch_long :: "u32 list" where
  "csrw_switch_long = map word_of_nat [992..<1201]"

definition csrr_ss_in :: "bool \<Rightarrow> hardware \<Rightarrow> u32 \<Rightarrow> csr_state \<Rightarrow> u32 \<times> csr_state" where
  "csrr_ss_in long_mode hw a s =
     (if a \<in> set csrr_switch_short then read_csr hw a s
      else if long_mode \<and> a \<in> set csrr_switch_long then read_csr hw a s
      else (-1, s))"

definition csrw_ss_in :: "bool \<Rightarrow> u32 \<Rightarrow> u32 \<Rightarrow> csr_state \<Rightarrow> csr_state" where
  "csrw_ss_in long_mode a v s =
     (if a \<in> set csrw_switch_short then write_csr a v s
      else if long_mode \<and> a \<in> set csrw_switch_long then write_csr a v s
      else s)"

text \<open>The header defines \<open>CSR_LONG_ADDR_MODE\<close>.\<close>

definition CSR_LONG_ADDR_MODE :: bool where
  "CSR_LONG_ADDR_MODE = True"

definition csrr_ss :: "hardware \<Rightarrow> u32 \<Rightarrow> csr_state \<Rightarrow> u32 \<times> csr_state" where
  "csrr_ss = csrr_ss_in CSR_LONG_ADDR_MODE"

definition csrw_ss :: "u32 \<Rightarrow> u32 \<Rightarrow> csr_state \<Rightarrow> csr_state" where
  "csrw_ss = csrw_ss_in CSR_LONG_ADDR_MODE"

text \<open>A run of writes, as the configuration functions issue them.\<close>

abbreviation write_csrs :: "(u32 \<times> u32) list \<Rightarrow> csr_state \<Rightarrow> csr_state" where
  "write_csrs ws \<equiv> fold (\<lambda>(a, v). write_csr a v) ws"

abbreviation csrw_sss :: "(u32 \<times> u32) list \<Rightarrow> csr_state \<Rightarrow> csr_state" where
  "csrw_sss ws \<equiv> fold (\<lambda>(a, v). csrw_ss a v) ws"

text \<open>
  The registers from \<open>base\<close> on that a loop over \<open>n\<close> indices writes, with their values: an array
  argument of the C code is the function from its indices to its elements.
\<close>

definition csr_block :: "u32 \<Rightarrow> nat \<Rightarrow> (nat \<Rightarrow> u32) \<Rightarrow> (u32 \<times> u32) list" where
  "csr_block base n vs = map (\<lambda>i. (base + word_of_nat i, vs i)) [0..<n]"

section \<open>Polling\<close>

text \<open>
  \<open>while (! P (read(a))) {}\<close>: read until the value satisfies \<open>P\<close>. The loop may run for ever:
  \<open>None\<close> is not returning.
\<close>

definition csr_poll :: "hardware \<Rightarrow> u32 \<Rightarrow> (u32 \<Rightarrow> bool) \<Rightarrow> csr_state \<Rightarrow> csr_state option" where
  "csr_poll hw a P s =
     map_option snd (poll_until (\<lambda>(_, s). read_csr hw a s) (\<lambda>(v, _). P v) (0, s))"

definition csrr_poll :: "hardware \<Rightarrow> u32 \<Rightarrow> (u32 \<Rightarrow> bool) \<Rightarrow> csr_state \<Rightarrow> csr_state option" where
  "csrr_poll hw a P s =
     map_option snd (poll_until (\<lambda>(_, s). csrr_ss hw a s) (\<lambda>(v, _). P v) (0, s))"

section \<open>Lemmas\<close>

lemma csr_file_write_csr [simp]: "csr_file (write_csr a v s) = (csr_file s)(a := v)"
  by (simp add: write_csr_def)

lemma csr_trace_write_csr [simp]: "csr_trace (write_csr a v s) = csr_trace s @ [(a, v)]"
  by (simp add: write_csr_def)

lemma csr_now_write_csr [simp]: "csr_now (write_csr a v s) = Suc (csr_now s)"
  by (simp add: write_csr_def)

lemma csr_tick_simps [simp]:
  "csr_file (csr_tick s) = csr_file s" "csr_trace (csr_tick s) = csr_trace s"
  "csr_now (csr_tick s) = Suc (csr_now s)"
  by (simp_all add: csr_tick_def)

lemma switch_interval:
  "a \<in> (word_of_nat :: nat \<Rightarrow> u32) ` {lo..<hi} \<longleftrightarrow> lo \<le> unat a \<and> unat a < hi"
  if "hi \<le> 2 ^ 32" for a :: u32
proof
  assume "a \<in> (word_of_nat :: nat \<Rightarrow> u32) ` {lo..<hi}"
  then obtain n where n: "lo \<le> n" "n < hi" "a = word_of_nat n" by auto
  with that have "unat a = n" by (simp add: unat_of_nat take_bit_nat_eq_self)
  with n show "lo \<le> unat a \<and> unat a < hi" by simp
next
  assume "lo \<le> unat a \<and> unat a < hi"
  moreover have "a = word_of_nat (unat a)" by simp
  ultimately show "a \<in> (word_of_nat :: nat \<Rightarrow> u32) ` {lo..<hi}"
    by (metis atLeastLessThan_iff imageI)
qed

lemma switch_short_iff:
  "a \<in> set csrr_switch_short \<longleftrightarrow> 960 \<le> unat a \<and> unat a < 992"
  "a \<in> set csrw_switch_short \<longleftrightarrow> 960 \<le> unat a \<and> unat a < 992"
  unfolding csrr_switch_short_def csrw_switch_short_def set_map set_upt
  by (rule switch_interval, simp)+

lemma switch_long_iff:
  "a \<in> set csrr_switch_long \<longleftrightarrow> 992 \<le> unat a \<and> unat a < 1201"
  "a \<in> set csrw_switch_long \<longleftrightarrow> 992 \<le> unat a \<and> unat a < 1201"
  unfolding csrr_switch_long_def csrw_switch_long_def set_map set_upt
  by (rule switch_interval, simp)+

lemmas switch_iffs = switch_short_iff switch_long_iff

text \<open>The registers that a switch knows.\<close>

abbreviation ss_reg :: "u32 \<Rightarrow> bool" where
  "ss_reg a \<equiv> 960 \<le> a \<and> a \<le> 1200"

lemma ss_reg_unat: "ss_reg a \<longleftrightarrow> 960 \<le> unat a \<and> unat a < 1201"
  by (auto simp: word_le_nat_alt)

lemma csrw_ss_eq: "csrw_ss a v s = (if ss_reg a then write_csr a v s else s)"
  unfolding csrw_ss_def csrw_ss_in_def CSR_LONG_ADDR_MODE_def switch_iffs ss_reg_unat by auto

lemma csrr_ss_eq: "csrr_ss hw a s = (if ss_reg a then read_csr hw a s else (-1, s))"
  unfolding csrr_ss_def csrr_ss_in_def CSR_LONG_ADDR_MODE_def switch_iffs ss_reg_unat by auto

interpretation csr: register_file csr_file write_csr "\<lambda>_. True"
  by unfold_locales simp_all

interpretation css: register_file csr_file csrw_ss ss_reg
  by unfold_locales (simp_all add: csrw_ss_eq)

lemma csr_trace_write_csrs [simp]: "csr_trace (write_csrs ws s) = csr_trace s @ ws"
  by (induction ws arbitrary: s) auto

lemma csr_now_write_csrs [simp]: "csr_now (write_csrs ws s) = csr_now s + length ws"
  by (induction ws arbitrary: s) auto

lemma csrw_sss_write_csrs:
  "\<forall>p \<in> set ws. ss_reg (fst p) \<Longrightarrow> csrw_sss ws s = write_csrs ws s"
  by (induction ws arbitrary: s) (auto simp: csrw_ss_eq)

lemma length_csr_block [simp]: "length (csr_block b n vs) = n"
  by (simp add: csr_block_def)

lemma csr_block_0 [simp]: "csr_block b 0 vs = []"
  by (simp add: csr_block_def)

lemma fst_csr_block: "map fst (csr_block b n vs) = map (\<lambda>i. b + word_of_nat i) [0..<n]"
  by (simp add: csr_block_def)

lemma word_of_nat_inj_on:
  "inj_on (\<lambda>i. b + word_of_nat i :: 'a::len word) {0..<n}" if "n \<le> 2 ^ LENGTH('a)"
  using that by (auto simp: inj_on_def word_of_nat_eq_iff take_bit_nat_eq_self)

lemma distinct_csr_block: "n \<le> 2 ^ 32 \<Longrightarrow> distinct (map fst (csr_block b n vs))"
  using word_of_nat_inj_on [of n b] by (simp add: fst_csr_block distinct_map)

lemma csr_block_mem: "i < n \<Longrightarrow> (b + word_of_nat i, vs i) \<in> set (csr_block b n vs)"
  by (auto simp: csr_block_def)

text \<open>A poll that returns has read a value it accepts, and changes nothing but the clock.\<close>

lemma csr_tick_pow [simp]:
  "csr_file ((csr_tick ^^ n) s) = csr_file s" "csr_trace ((csr_tick ^^ n) s) = csr_trace s"
  "csr_now ((csr_tick ^^ n) s) = csr_now s + n"
  by (induction n) auto

lemma csr_value_tick_pow:
  "csr_value hw a ((csr_tick ^^ n) s) =
     (case hw (csr_now s + n) a of Some v \<Rightarrow> v | None \<Rightarrow> csr_file s a)"
  by (simp add: csr_value_def split: option.split)

lemma poll_iterates:
  "((\<lambda>(_ :: u32, s). read_csr hw a s) ^^ Suc n) (v, s) =
     (csr_value hw a ((csr_tick ^^ n) s), (csr_tick ^^ Suc n) s)"
  by (induction n) (simp_all add: read_csr_def)

lemma csr_poll_returns:
  assumes "P (csr_value hw a ((csr_tick ^^ n) s))"
  shows "\<exists>m \<le> n. csr_poll hw a P s = Some ((csr_tick ^^ Suc m) s) \<and>
    P (csr_value hw a ((csr_tick ^^ m) s))"
proof -
  let ?f = "\<lambda>(_ :: u32, s). read_csr hw a s" and ?Q = "\<lambda>(v, _ :: csr_state). P v"
  have "?Q ((?f ^^ Suc n) (0, s))" unfolding poll_iterates using assms by simp
  from poll_until_returns [of ?Q, OF this]
  obtain m where m: "m \<le> n" "poll_until ?f ?Q (0, s) = Some ((?f ^^ Suc m) (0, s))"
    "?Q ((?f ^^ Suc m) (0, s))"
    by (elim exE conjE)
  show ?thesis
    using m unfolding csr_poll_def poll_iterates
    by (intro exI [of _ m]) (simp only: option.map prod.case snd_conv simp_thms)
qed

lemma csr_poll_eventually:
  assumes "\<And>k. hw k a = Some (b k)" and "\<forall>k \<ge> T. P (b k)"
  shows "\<exists>n. csr_poll hw a P s = Some ((csr_tick ^^ Suc n) s) \<and> P (b (csr_now s + n))"
proof -
  have val: "csr_value hw a ((csr_tick ^^ n) s) = b (csr_now s + n)" for n
    by (simp add: csr_value_def assms(1))
  have "P (csr_value hw a ((csr_tick ^^ T) s))" unfolding val using assms(2) by simp
  from csr_poll_returns [where P = P, OF this] show ?thesis unfolding val by blast
qed

text \<open>Two busy flags polled one after the other.\<close>

lemma csr_polls_idle:
  assumes "\<And>k. hw k a = Some (b k)" and "\<And>k. hw k a' = Some (b' k)"
    and "\<forall>k \<ge> T. b k = 0 \<and> b' k = 0"
  shows "\<exists>n n'. Option.bind (csr_poll hw a (\<lambda>v. v = 0) s) (csr_poll hw a' (\<lambda>v. v = 0)) =
      Some ((csr_tick ^^ (Suc n + Suc n')) s) \<and>
    b (csr_now s + n) = 0 \<and> b' (csr_now s + Suc n + n') = 0"
proof -
  obtain n where n: "csr_poll hw a (\<lambda>v. v = 0) s = Some ((csr_tick ^^ Suc n) s)" "b (csr_now s + n) = 0"
    using csr_poll_eventually [where P = "\<lambda>v. v = 0" and s = s and hw = hw and b = b, OF assms(1)]
      assms(3) by blast
  let ?s = "(csr_tick ^^ Suc n) s"
  obtain n' where n': "csr_poll hw a' (\<lambda>v. v = 0) ?s = Some ((csr_tick ^^ Suc n') ?s)"
    "b' (csr_now ?s + n') = 0"
    using csr_poll_eventually [where P = "\<lambda>v. v = 0" and s = ?s and hw = hw and b = b', OF assms(2)]
      assms(3) by blast
  have "(csr_tick ^^ Suc n') ?s = (csr_tick ^^ (Suc n + Suc n')) s"
    by (simp only: add.commute [of "Suc n"] funpow_add comp_apply)
  then show ?thesis
    using n n'
    by - (rule exI [of _ n], rule exI [of _ n'], simp only: bind.bind_lunit csr_tick_pow simp_thms)
qed

lemma csr_poll_Some:
  assumes "csr_poll hw a P s = Some t"
  shows "\<exists>n. t = (csr_tick ^^ Suc n) s \<and> P (csr_value hw a ((csr_tick ^^ n) s))"
proof -
  let ?f = "\<lambda>(_ :: u32, s). read_csr hw a s" and ?Q = "\<lambda>(v, _ :: csr_state). P v"
  from assms obtain x where x: "poll_until ?f ?Q (0, s) = Some x" "t = snd x"
    by (auto simp: csr_poll_def)
  from poll_until_Some [OF x(1)] obtain n where n: "?Q x" "x = (?f ^^ Suc n) (0, s)" by blast
  show ?thesis
    using n(1) x(2) unfolding n(2) poll_iterates
    by (intro exI [of _ n]) (simp only: prod.case snd_conv simp_thms)
qed

lemma csr_poll_frame [frame_simps]:
  assumes "csr_poll hw a P s = Some t"
  shows "csr_file t = csr_file s" "csr_trace t = csr_trace s"
  using csr_poll_Some [OF assms] by auto

lemma csrr_poll_eq: "ss_reg a \<Longrightarrow> csrr_poll hw a P s = csr_poll hw a P s"
  by (simp add: csrr_poll_def csr_poll_def csrr_ss_eq)

text \<open>A poll of a register the switch does not know reads -1 for ever.\<close>

lemma csrr_poll_stuck:
  assumes "\<not> ss_reg a" and "\<not> P (- 1)"
  shows "csrr_poll hw a P s = None"
proof (rule ccontr)
  let ?f = "\<lambda>(_ :: u32, s). csrr_ss hw a s" and ?Q = "\<lambda>(v, _ :: csr_state). P v"
  assume "csrr_poll hw a P s \<noteq> None"
  then obtain x where "poll_until ?f ?Q (0, s) = Some x" by (auto simp: csrr_poll_def)
  from poll_until_Some [OF this] obtain n where "?Q x" "x = (?f ^^ Suc n) (0, s)" by blast
  moreover have "(?f ^^ Suc n) (0, s) = (- 1, s)"
    by (induction n) (simp_all add: csrr_ss_eq if_not_P [OF assms(1)])
  ultimately show False using assms(2) by simp
qed

text \<open>Writes with distinct registers may be issued in any order.\<close>

lemma csr_file_write_csrs:
  assumes "distinct (map fst ws)"
  shows "csr_file (write_csrs ws s) a =
    (case map_of ws a of Some v \<Rightarrow> v | None \<Rightarrow> csr_file s a)"
proof -
  have "map_of (rev ws) = map_of ws"
    using assms by (metis map_of_inject_set distinct_rev rev_map set_rev)
  then show ?thesis using csr.rd_writes_map_of [of ws s a] by simp
qed

lemma csr_file_write_csrs_perm:
  assumes "distinct (map fst ws)" and "distinct (map fst ws')" and "set ws = set ws'"
  shows "csr_file (write_csrs ws s) = csr_file (write_csrs ws' s)"
  using assms map_of_inject_set [OF assms(1,2)]
  by (simp add: fun_eq_iff csr_file_write_csrs)

text \<open>
  C3: the accessors for a register whose number is only known at run time behave as the
  instructions with that register wired in exactly for the registers 960 to 1200: a value
  written by \<open>csrw_ss\<close> is the value \<open>csrr_ss\<close> then reads from a register that the hardware
  does not drive, no other register changes, and outside that range the write is lost and the
  read yields -1. Without \<open>CSR_LONG_ADDR_MODE\<close> the registers from 992 on are lost too.
\<close>

theorem csr_switch_register_file:
  "(ss_reg a \<and> hw (Suc (csr_now s)) a = None \<longrightarrow> fst (csrr_ss hw a (csrw_ss a v s)) = v) \<and>
   (b \<noteq> a \<longrightarrow> csr_file (csrw_ss a v s) b = csr_file s b) \<and>
   (\<not> ss_reg a \<longrightarrow> csrw_ss a v s = s \<and> csrr_ss hw a s = (- 1, s)) \<and>
   (992 \<le> a \<longrightarrow> csrw_ss_in False a v s = s \<and> csrr_ss_in False hw a s = (- 1, s))"
proof -
  have "992 \<le> a \<longrightarrow> csrw_ss_in False a v s = s \<and> csrr_ss_in False hw a s = (- 1, s)"
    unfolding csrw_ss_in_def csrr_ss_in_def switch_iffs by (simp add: word_le_nat_alt)
  then show ?thesis
    by (auto simp: csrw_ss_eq csrr_ss_eq read_csr_def csr_value_def)
qed

theorem csr_switch_register_file_witness:
  "fst (csrr_ss (\<lambda>_ _. None) 1000 (csrw_ss 1000 7 csr_reset)) = 7 \<and>
   csr_file (csrw_ss 1000 7 csr_reset) 1001 = 0 \<and>
   csrw_ss 1201 7 csr_reset = csr_reset \<and>
   csrw_ss_in False 1000 7 csr_reset = csr_reset"
proof -
  have "fst (csrr_ss (\<lambda>_ _. None) 1000 (csrw_ss 1000 7 csr_reset)) = 7"
    and "csr_file (csrw_ss 1000 7 csr_reset) 1001 = csr_file csr_reset 1001"
    and "csrw_ss_in False 1000 7 csr_reset = csr_reset"
    using csr_switch_register_file
      [where a = 1000 and b = 1001 and v = 7 and hw = "\<lambda>_ _. None" and s = csr_reset]
    by (simp_all add: word_le_nat_alt)
  moreover have "csrw_ss 1201 7 csr_reset = csr_reset"
    using csr_switch_register_file
      [where a = 1201 and b = 0 and v = 7 and hw = "\<lambda>_ _. None" and s = csr_reset]
    by (simp add: word_le_nat_alt)
  ultimately show ?thesis by (simp add: csr_reset_def)
qed

end
