(* ===== verification/Team.thy ===== *)
theory Team
  imports Prelude
begin

unbundle bit_operations_syntax

text \<open>
  Who a core is (sw/snRuntime/src/team.h): every core of every cluster learns its place in the
  system from four of its CSRs, and the runtime splits the cores of a cluster into compute cores
  and data-mover (DM) cores.
\<close>

section \<open>What a core knows\<close>

text \<open>The CSRs mhartid, 0xbc1, 0xbc2 and 0xbc3 of one core.\<close>

record hart =
  csr_mhartid :: u32
  csr_base_addr_l :: u32
  csr_base_addr_h :: u32
  csr_cluster_core_id :: u32

text \<open>
  The constants of the platform. \<open>snitch_cluster_defs.h\<close> defines the counts; the addresses come
  from the generated address map, and stay parameters.
\<close>

record platform =
  SNRT_BASE_HARTID :: u32
  SNRT_CLUSTER_NUM :: u32
  SNRT_CLUSTER_DM_CORE_NUM :: u32
  SNRT_CLUSTER_OFFSET :: u32
  CLUSTER_BASE_ADDR :: u32
  CLUSTER_ADDRWIDTH :: nat
  CLUSTER_TCDM_BASE_ADDR :: u32
  CLUSTER_PERIPH_BASE_ADDR :: u32
  SNRT_LOG2_STACK_SIZE :: nat

definition snitch_cluster_defs :: "u32 \<Rightarrow> nat \<Rightarrow> u32 \<Rightarrow> u32 \<Rightarrow> platform" where
  "snitch_cluster_defs base_addr addrwidth tcdm periph =
     \<lparr>SNRT_BASE_HARTID = 0, SNRT_CLUSTER_NUM = 1, SNRT_CLUSTER_DM_CORE_NUM = 1,
      SNRT_CLUSTER_OFFSET = 0, CLUSTER_BASE_ADDR = base_addr, CLUSTER_ADDRWIDTH = addrwidth,
      CLUSTER_TCDM_BASE_ADDR = tcdm, CLUSTER_PERIPH_BASE_ADDR = periph,
      SNRT_LOG2_STACK_SIZE = 12\<rparr>"

section \<open>The queries\<close>

definition snrt_hartid :: "hart \<Rightarrow> u32" where
  "snrt_hartid h = csr_mhartid h"

definition snrt_cluster_base_addr :: "hart \<Rightarrow> u64" where
  "snrt_cluster_base_addr h =
     push_bit 32 (ucast (csr_base_addr_h h)) OR ucast (csr_base_addr_l h)"

definition snrt_cluster_base_addrl :: "hart \<Rightarrow> u32" where
  "snrt_cluster_base_addrl h = csr_base_addr_l h"

definition snrt_cluster_base_addrh :: "hart \<Rightarrow> u32" where
  "snrt_cluster_base_addrh h = csr_base_addr_h h"

definition snrt_cluster_num :: "platform \<Rightarrow> u32" where
  "snrt_cluster_num p = SNRT_CLUSTER_NUM p"

definition snrt_cluster_core_num :: "hart \<Rightarrow> u32" where
  "snrt_cluster_core_num h = drop_bit 16 (csr_cluster_core_id h)"

definition snrt_global_core_base_hartid :: "platform \<Rightarrow> u32" where
  "snrt_global_core_base_hartid p = SNRT_BASE_HARTID p"

definition snrt_global_core_num :: "platform \<Rightarrow> hart \<Rightarrow> u32" where
  "snrt_global_core_num p h = snrt_cluster_num p * snrt_cluster_core_num h"

definition snrt_global_core_idx :: "platform \<Rightarrow> hart \<Rightarrow> u32" where
  "snrt_global_core_idx p h = snrt_hartid h - snrt_global_core_base_hartid p"

definition snrt_cluster_idx :: "platform \<Rightarrow> hart \<Rightarrow> u32" where
  "snrt_cluster_idx p h =
     drop_bit (CLUSTER_ADDRWIDTH p) (snrt_cluster_base_addrl h - CLUSTER_BASE_ADDR p)"

definition snrt_cluster_core_idx :: "hart \<Rightarrow> u32" where
  "snrt_cluster_core_idx h = csr_cluster_core_id h AND 0xffff"

definition snrt_cluster_dm_core_num :: "platform \<Rightarrow> u32" where
  "snrt_cluster_dm_core_num p = SNRT_CLUSTER_DM_CORE_NUM p"

definition snrt_cluster_compute_core_num :: "platform \<Rightarrow> hart \<Rightarrow> u32" where
  "snrt_cluster_compute_core_num p h = snrt_cluster_core_num h - snrt_cluster_dm_core_num p"

definition snrt_global_compute_core_idx :: "platform \<Rightarrow> hart \<Rightarrow> u32" where
  "snrt_global_compute_core_idx p h =
     snrt_cluster_idx p h * snrt_cluster_compute_core_num p h + snrt_cluster_core_idx h"

definition snrt_is_compute_core :: "platform \<Rightarrow> hart \<Rightarrow> bool" where
  "snrt_is_compute_core p h \<longleftrightarrow> snrt_cluster_core_idx h < snrt_cluster_compute_core_num p h"

definition snrt_is_dm_core :: "platform \<Rightarrow> hart \<Rightarrow> bool" where
  "snrt_is_dm_core p h \<longleftrightarrow> \<not> snrt_is_compute_core p h"

section \<open>Lemmas\<close>

text \<open>The core id CSR holds the number of cores in its upper half and the index in the lower.\<close>

definition core_id :: "u16 \<Rightarrow> u16 \<Rightarrow> u32" where
  "core_id num idx = push_bit 16 (ucast num) OR ucast idx"

lemma core_num_core_id [simp]: "drop_bit 16 (core_id num idx) = ucast num"
  unfolding core_id_def
  by (rule bit_word_eqI) (auto simp: bit_simps dest: bit_imp_le_length)

lemma core_idx_core_id [simp]: "core_id num idx AND 0xffff = ucast idx"
proof -
  have m: "(0xffff :: u32) = mask 16" by (simp add: mask_eq_exp_minus_1)
  show ?thesis unfolding core_id_def m
    by (rule bit_word_eqI) (auto simp: bit_simps dest: bit_imp_le_length)
qed

lemma unat_ucast_u16 [simp]: "unat (ucast (a :: u16) :: u32) = unat a"
proof -
  have "unat a < 2 ^ 32" by (rule less_trans [OF unat_bound]) simp
  then show ?thesis by (simp add: unsigned_ucast_eq take_bit_nat_eq_self)
qed

lemma unat_compute_core_num:
  assumes "csr_cluster_core_id h = core_id num idx"
    and "unat (SNRT_CLUSTER_DM_CORE_NUM p) \<le> unat num"
  shows "unat (snrt_cluster_compute_core_num p h) =
    unat num - unat (SNRT_CLUSTER_DM_CORE_NUM p)"
  using assms
  by (simp add: snrt_cluster_compute_core_num_def snrt_cluster_core_num_def
    snrt_cluster_dm_core_num_def unat_sub word_le_nat_alt)

lemma is_compute_core_iff:
  assumes "csr_cluster_core_id h = core_id num idx"
    and "unat (SNRT_CLUSTER_DM_CORE_NUM p) \<le> unat num"
  shows "snrt_is_compute_core p h \<longleftrightarrow>
    unat idx < unat num - unat (SNRT_CLUSTER_DM_CORE_NUM p)"
  using assms unat_compute_core_num [OF assms]
  by (simp add: snrt_is_compute_core_def word_less_nat_alt snrt_cluster_core_idx_def)

end
