(* ===== verification/Alloc.thy ===== *)
theory Alloc
  imports Team
begin

unbundle bit_operations_syntax

text \<open>
  The byte-addressed memory and the bump allocators (sw/snRuntime/src/alloc.h, the allocator type
  of api/alloc_decls.h and the address macros of runtime/common/snitch_cluster_memory.h).
\<close>

section \<open>Memory\<close>

type_synonym mem = "u32 \<Rightarrow> u8"

definition load8 :: "mem \<Rightarrow> u32 \<Rightarrow> u8" where
  "load8 m a = m a"

definition store8 :: "u32 \<Rightarrow> u8 \<Rightarrow> mem \<Rightarrow> mem" where
  "store8 a v m = m(a := v)"

text \<open>A 32 bit store, least significant byte first.\<close>

definition store32 :: "u32 \<Rightarrow> u32 \<Rightarrow> mem \<Rightarrow> mem" where
  "store32 a v m = store8 (a + 3) (ucast (drop_bit 24 v)) (store8 (a + 2) (ucast (drop_bit 16 v))
     (store8 (a + 1) (ucast (drop_bit 8 v)) (store8 a (ucast v) m)))"

interpretation mem: register_file load8 store8 "\<lambda>_. True"
  by unfold_locales (simp_all add: store8_def load8_def)

lemma store8_apply [simp]: "store8 a v m x = (if x = a then v else m x)"
  by (simp add: store8_def)

text \<open>\<open>snrt_memset(ptr, value, num)\<close>: the value is an \<open>int\<close> cut to a byte.\<close>

definition snrt_memset :: "u32 \<Rightarrow> i32 \<Rightarrow> u32 \<Rightarrow> mem \<Rightarrow> mem" where
  "snrt_memset ptr value num m =
     for_up 0 (unat num) (\<lambda>i. store8 (ptr + word_of_nat i) (ucast value)) m"

section \<open>The allocators\<close>

record snrt_allocator =
  alloc_base :: u32
  alloc_size :: u32
  alloc_next :: u32

text \<open>One allocator for the cluster's L1 (in the cluster-local storage), one for L3.\<close>

record allocators =
  l1_allocator :: snrt_allocator
  l3_allocator :: snrt_allocator

definition MIN_CHUNK_SIZE :: u32 where
  "MIN_CHUNK_SIZE = 8"

definition snrt_l1_start_addr :: "platform \<Rightarrow> u32" where
  "snrt_l1_start_addr p = CLUSTER_TCDM_BASE_ADDR p"

definition snrt_l1_end_addr :: "platform \<Rightarrow> u32" where
  "snrt_l1_end_addr p = CLUSTER_PERIPH_BASE_ADDR p"

definition snrt_l1_next :: "allocators \<Rightarrow> u32" where
  "snrt_l1_next s = alloc_next (l1_allocator s)"

definition snrt_l3_next :: "allocators \<Rightarrow> u32" where
  "snrt_l3_next s = alloc_next (l3_allocator s)"

definition snrt_l1alloc :: "u32 \<Rightarrow> allocators \<Rightarrow> u32 \<times> allocators" where
  "snrt_l1alloc size0 s =
     (let alloc = l1_allocator s;
          sz = align_up size0 MIN_CHUNK_SIZE;
          ret = alloc_next alloc
      in (ret, s\<lparr>l1_allocator := alloc\<lparr>alloc_next := alloc_next alloc + sz\<rparr>\<rparr>))"

definition snrt_l1_update_next :: "u32 \<Rightarrow> allocators \<Rightarrow> allocators" where
  "snrt_l1_update_next nxt s = s\<lparr>l1_allocator := (l1_allocator s)\<lparr>alloc_next := nxt\<rparr>\<rparr>"

definition snrt_l3alloc :: "u32 \<Rightarrow> allocators \<Rightarrow> u32 \<times> allocators" where
  "snrt_l3alloc sz s =
     (let alloc = l3_allocator s; ret = alloc_next alloc
      in (ret, s\<lparr>l3_allocator := alloc\<lparr>alloc_next := alloc_next alloc + sz\<rparr>\<rparr>))"

definition snrt_alloc_init :: "platform \<Rightarrow> hart \<Rightarrow> u32 \<Rightarrow> allocators \<Rightarrow> allocators" where
  "snrt_alloc_init p h edram s =
     (if snrt_is_dm_core p h
      then let b1 = align_up (snrt_l1_start_addr p) MIN_CHUNK_SIZE;
               b3 = align_up edram MIN_CHUNK_SIZE
           in \<lparr>l1_allocator = \<lparr>alloc_base = b1, alloc_size = snrt_l1_end_addr p - snrt_l1_start_addr p,
                 alloc_next = b1\<rparr>,
               l3_allocator = \<lparr>alloc_base = b3, alloc_size = 0, alloc_next = b3\<rparr>\<rparr>
      else s)"

text \<open>A sequence of requests to the L1 allocator: the blocks handed out, with their sizes.\<close>

fun l1alloc_seq :: "u32 list \<Rightarrow> allocators \<Rightarrow> (u32 \<times> u32) list \<times> allocators" where
  "l1alloc_seq [] s = ([], s)"
| "l1alloc_seq (n # ns) s =
     (let (p, s1) = snrt_l1alloc n s; (bs, s2) = l1alloc_seq ns s1 in ((p, n) # bs, s2))"

section \<open>Memory lemmas\<close>

lemma for_up_store8:
  assumes "n \<le> 2 ^ 32"
  shows "for_up 0 n (\<lambda>i. store8 (p + word_of_nat i) (f i)) m x =
    (if unat (x - p) < n then f (unat (x - p)) else m x)"
  using assms
proof (induction n)
  case 0
  then show ?case by simp
next
  case (Suc n)
  have "(x = p + word_of_nat n) \<longleftrightarrow> unat (x - p) = n"
    by (rule addr_eq_iff) (use Suc.prems in simp)
  with Suc show ?case by (auto simp: for_up_Suc less_Suc_eq)
qed

lemma snrt_memset_eq:
  "snrt_memset ptr value num m x =
    (if unat (x - ptr) < unat num then ucast value else m x)"
  unfolding snrt_memset_def using unat_bound [of num] by (subst for_up_store8) simp_all

section \<open>Allocator lemmas\<close>

lemma snrt_l1alloc_simps [simp]:
  "fst (snrt_l1alloc n s) = snrt_l1_next s"
  "l3_allocator (snd (snrt_l1alloc n s)) = l3_allocator s"
  "alloc_base (l1_allocator (snd (snrt_l1alloc n s))) = alloc_base (l1_allocator s)"
  "alloc_size (l1_allocator (snd (snrt_l1alloc n s))) = alloc_size (l1_allocator s)"
  by (simp_all add: snrt_l1alloc_def snrt_l1_next_def Let_def)

lemma l1_next_l1alloc_word:
  "snrt_l1_next (snd (snrt_l1alloc n s)) = snrt_l1_next s + align_up n 8"
  by (simp add: snrt_l1alloc_def snrt_l1_next_def Let_def MIN_CHUNK_SIZE_def)

text \<open>The bytes a request takes from the heap.\<close>

definition chunk_bytes :: "u32 \<Rightarrow> nat" where
  "chunk_bytes n = (unat n + 7) div 8 * 8"

lemma chunk_bytes_ge: "unat n \<le> chunk_bytes n"
  unfolding chunk_bytes_def by linarith

lemma chunk_bytes_dvd: "8 dvd chunk_bytes n"
  by (simp add: chunk_bytes_def)

lemma unat_align_up_chunk: "chunk_bytes n < 2 ^ 32 \<Longrightarrow> unat (align_up n 8) = chunk_bytes n"
  using unat_align_up_8 [of n] by (simp add: chunk_bytes_def)

lemma l1_next_l1alloc:
  assumes "unat (snrt_l1_next s) + chunk_bytes n < 2 ^ 32"
  shows "unat (snrt_l1_next (snd (snrt_l1alloc n s))) = unat (snrt_l1_next s) + chunk_bytes n"
  using assms by (simp add: l1_next_l1alloc_word unat_align_up_chunk unat_add_small)

lemma l1alloc_seq_next:
  assumes "unat (snrt_l1_next s) + sum_list (map chunk_bytes ns) < 2 ^ 32"
  shows "unat (snrt_l1_next (snd (l1alloc_seq ns s))) =
    unat (snrt_l1_next s) + sum_list (map chunk_bytes ns)"
  using assms
proof (induction ns arbitrary: s)
  case Nil
  then show ?case by simp
next
  case (Cons n ns)
  let ?s1 = "snd (snrt_l1alloc n s)"
  have n1: "unat (snrt_l1_next ?s1) = unat (snrt_l1_next s) + chunk_bytes n"
    by (rule l1_next_l1alloc) (use Cons.prems in simp)
  have "unat (snrt_l1_next (snd (l1alloc_seq ns ?s1))) =
      unat (snrt_l1_next ?s1) + sum_list (map chunk_bytes ns)"
    by (rule Cons.IH) (use Cons.prems n1 in simp)
  then show ?case by (simp add: n1 case_prod_beta)
qed

lemma l1alloc_seq_lower:
  assumes "unat (snrt_l1_next s) + sum_list (map chunk_bytes ns) < 2 ^ 32"
    and "(p, n) \<in> set (fst (l1alloc_seq ns s))" and "8 dvd unat (snrt_l1_next s)"
  shows "unat (snrt_l1_next s) \<le> unat p \<and> 8 dvd unat p \<and>
    unat p + unat n \<le> unat (snrt_l1_next s) + sum_list (map chunk_bytes ns)"
  using assms
proof (induction ns arbitrary: s)
  case Nil
  then show ?case by simp
next
  case (Cons k ns)
  let ?s1 = "snd (snrt_l1alloc k s)"
  have n1: "unat (snrt_l1_next ?s1) = unat (snrt_l1_next s) + chunk_bytes k"
    by (rule l1_next_l1alloc) (use Cons.prems in simp)
  have "(p, n) = (snrt_l1_next s, k) \<or> (p, n) \<in> set (fst (l1alloc_seq ns ?s1))"
    using Cons.prems(2) by (auto simp: case_prod_beta)
  then show ?case
  proof
    assume "(p, n) = (snrt_l1_next s, k)"
    then show ?thesis using Cons.prems(3) chunk_bytes_ge [of k] by auto
  next
    assume "(p, n) \<in> set (fst (l1alloc_seq ns ?s1))"
    then have "unat (snrt_l1_next ?s1) \<le> unat p \<and> 8 dvd unat p \<and>
        unat p + unat n \<le> unat (snrt_l1_next ?s1) + sum_list (map chunk_bytes ns)"
      using Cons.IH [of ?s1] Cons.prems n1 chunk_bytes_dvd [of k] by simp
    then show ?thesis using n1 by simp
  qed
qed

lemma l1alloc_seq_sorted:
  assumes "unat (snrt_l1_next s) + sum_list (map chunk_bytes ns) < 2 ^ 32"
    and "8 dvd unat (snrt_l1_next s)"
  shows "sorted_wrt (\<lambda>(p, n) (q, k). unat p + unat n \<le> unat q) (fst (l1alloc_seq ns s))"
  using assms
proof (induction ns arbitrary: s)
  case Nil
  then show ?case by simp
next
  case (Cons k ns)
  let ?s1 = "snd (snrt_l1alloc k s)"
  have n1: "unat (snrt_l1_next ?s1) = unat (snrt_l1_next s) + chunk_bytes k"
    by (rule l1_next_l1alloc) (use Cons.prems in simp)
  have small: "unat (snrt_l1_next ?s1) + sum_list (map chunk_bytes ns) < 2 ^ 32"
    and al: "8 dvd unat (snrt_l1_next ?s1)"
    using Cons.prems n1 chunk_bytes_dvd [of k] by simp_all
  have "unat (snrt_l1_next s) + unat k \<le> unat q"
    if "(q, j) \<in> set (fst (l1alloc_seq ns ?s1))" for q j
    using l1alloc_seq_lower [OF small that al] n1 chunk_bytes_ge [of k] by simp
  then show ?case
    using Cons.IH [OF small al] by (auto simp: case_prod_beta)
qed

end
