(* ===== verification/Start.thy ===== *)
theory Start
  imports Alloc "HOL-Library.Signed_Division"
begin

unbundle bit_operations_syntax

text \<open>
  The C part of the start-up code (sw/snRuntime/src/start.c): the DM core fills the thread-local
  storage of every core, the zero-initialised section and the cluster-local storage before
  \<open>main\<close> runs. Memory is the byte memory of the allocator theory; the section boundaries are the
  linker's symbols.
\<close>

record linker =
  tdata_start :: u32
  tdata_end :: u32
  tbss_start :: u32
  tbss_end :: u32
  bss_start :: u32
  bss_end :: u32
  cdata_start :: u32
  cdata_end :: u32
  cbss_start :: u32
  cbss_end :: u32

text \<open>\<open>for (i = 0; i < n; i++) dst[i] = src[i]\<close> and \<open>for (i = 0; i < n; i++) dst[i] = 0\<close>.\<close>

definition copy_bytes :: "u32 \<Rightarrow> u32 \<Rightarrow> nat \<Rightarrow> mem \<Rightarrow> mem" where
  "copy_bytes dst src n m =
     for_up 0 n (\<lambda>i m. store8 (dst + word_of_nat i) (load8 m (src + word_of_nat i)) m) m"

definition clear_bytes :: "u32 \<Rightarrow> nat \<Rightarrow> mem \<Rightarrow> mem" where
  "clear_bytes dst n m = for_up 0 n (\<lambda>i. store8 (dst + word_of_nat i) 0) m"

section \<open>Thread-local storage\<close>

text \<open>\<open>tp\<close> is the DM core's thread pointer; the storage of core \<open>i\<close> after it is
  \<open>i\<close> stacks further up.\<close>

definition tls_offset :: "platform \<Rightarrow> u32" where
  "tls_offset p = push_bit (SNRT_LOG2_STACK_SIZE p) 1 + 8"

definition snrt_init_tls :: "platform \<Rightarrow> hart \<Rightarrow> linker \<Rightarrow> u32 \<Rightarrow> mem \<Rightarrow> mem" where
  "snrt_init_tls p h l tp m =
     (if snrt_is_dm_core p h
      then let sz = tdata_end l - tdata_start l;
               m1 = copy_bytes tp (tdata_start l) (unat sz) m;
               m2 = for_up 1 (unat (snrt_cluster_core_num h))
                      (\<lambda>i. copy_bytes (tp + word_of_nat i * tls_offset p) tp (unat sz)) m1;
               tbss_size = tbss_end l - tbss_start l;
               tls_tbss_base = tp + sz
           in for_up 0 (unat (snrt_cluster_core_num h))
                (\<lambda>i. clear_bytes (tls_tbss_base + word_of_nat i * tls_offset p) (unat tbss_size)) m2
      else m)"

section \<open>The zero-initialised section\<close>

text \<open>\<open>for (p = from; p < to; p++) *p = 0\<close> over byte pointers.\<close>

function clear_upto :: "u32 \<Rightarrow> u32 \<Rightarrow> mem \<Rightarrow> mem" where
  "clear_upto p e m = (if p < e then clear_upto (p + 1) e (store8 p 0 m) else m)"
  by pat_completeness auto
termination
proof (relation "measure (\<lambda>(p, e, m). unat (e - p))", simp)
  fix p e :: u32 and m :: mem
  assume "p < e"
  then have "e - p \<noteq> 0" by auto
  moreover have "e - (p + 1) = (e - p) - 1" by simp
  ultimately have "unat (e - (p + 1)) < unat (e - p)"
    by (metis measure_unat)
  then show "((p + 1, e, store8 p 0 m), p, e, m) \<in> measure (\<lambda>(p, e, m). unat (e - p))"
    by simp
qed

declare clear_upto.simps [simp del]

definition snrt_init_bss :: "platform \<Rightarrow> hart \<Rightarrow> linker \<Rightarrow> mem \<Rightarrow> mem" where
  "snrt_init_bss p h l m =
     (if snrt_cluster_idx p h = 0 \<and> snrt_is_dm_core p h
      then let aligned_start = (bss_start l + 3) AND NOT 3;
               m1 = clear_upto (bss_start l) aligned_start m;
               total_words = (word_of_int (sint (bss_end l - aligned_start) sdiv 4) :: u32);
               m2 = for_up 0 (unat total_words)
                      (\<lambda>i. store32 (aligned_start + 4 * word_of_nat i) 0) m1;
               tail_start = aligned_start + 4 * total_words
           in clear_upto tail_start (bss_end l) m2
      else m)"

section \<open>The cluster-local storage\<close>

definition snrt_cls_base_addr :: "platform \<Rightarrow> hart \<Rightarrow> linker \<Rightarrow> u32" where
  "snrt_cls_base_addr p h l =
     (let cdata_size = cdata_end l - cdata_start l;
          cbss_size = cbss_end l - cbss_start l;
          l1_end_addr = snrt_cluster_base_addrl h +
            (CLUSTER_PERIPH_BASE_ADDR p - CLUSTER_TCDM_BASE_ADDR p)
      in l1_end_addr - cdata_size - cbss_size)"

text \<open>Every core sets its pointer; the DM core fills the storage.\<close>

definition snrt_init_cls :: "platform \<Rightarrow> hart \<Rightarrow> linker \<Rightarrow> mem \<Rightarrow> u32 \<times> mem" where
  "snrt_init_cls p h l m =
     (snrt_cls_base_addr p h l,
      if snrt_is_dm_core p h
      then let tcdm_base = snrt_cls_base_addr p h l;
               sz = cdata_end l - cdata_start l;
               m1 = copy_bytes tcdm_base (cdata_start l) (unat sz) m;
               cbss_size = cbss_end l - cbss_start l
           in clear_bytes (tcdm_base + sz) (unat cbss_size) m1
      else m)"

section \<open>Exit code\<close>

text \<open>
  The value the first core writes to the exit-code destination: the reduced exit code shifted
  left with the lowest bit set.
\<close>

definition snrt_exit_value :: "i32 \<Rightarrow> u32" where
  "snrt_exit_value exit_code = push_bit 1 exit_code OR 1"

section \<open>Lemmas\<close>

lemma clear_bytes_eq:
  "n \<le> 2 ^ 32 \<Longrightarrow> clear_bytes dst n m x = (if unat (x - dst) < n then 0 else m x)"
  unfolding clear_bytes_def by (simp add: for_up_store8)

text \<open>The bytes from \<open>p\<close> on, \<open>n\<close> of them.\<close>

definition region :: "u32 \<Rightarrow> nat \<Rightarrow> u32 set" where
  "region p n = {x. unat (x - p) < n}"

lemma region_mem: "i < n \<Longrightarrow> n \<le> 2 ^ 32 \<Longrightarrow> p + word_of_nat i \<in> region p n"
  by (simp add: region_def unat_of_nat_small)

lemma copy_bytes_eq:
  assumes "n \<le> 2 ^ 32" and "region dst n \<inter> region src n = {}"
  shows "copy_bytes dst src n m x =
    (if unat (x - dst) < n then m (src + (x - dst)) else m x)"
proof -
  let ?I = "\<lambda>i t. i \<le> n \<longrightarrow> (\<forall>x. t x = (if unat (x - dst) < i then m (src + (x - dst)) else m x))"
  have "?I n (copy_bytes dst src n m)"
    unfolding copy_bytes_def
  proof (rule for_up_inv [where I = ?I])
    show "?I 0 m" by simp
    show "0 \<le> n" by simp
  next
    fix i t
    assume i: "i < n" and I: "?I i t"
    have "src + word_of_nat i \<notin> region dst n"
      using region_mem [OF i assms(1), of src] assms(2) by auto
    then have src: "t (src + word_of_nat i) = m (src + word_of_nat i)"
      using I i by (auto simp: region_def)
    show "?I (Suc i) (store8 (dst + word_of_nat i) (load8 t (src + word_of_nat i)) t)"
    proof (intro impI allI)
      fix x
      have x: "x = dst + word_of_nat i \<longleftrightarrow> unat (x - dst) = i"
        by (rule addr_eq_iff) (use i assms(1) in simp)
      then show "store8 (dst + word_of_nat i) (load8 t (src + word_of_nat i)) t x =
          (if unat (x - dst) < Suc i then m (src + (x - dst)) else m x)"
        using I i src by (cases "x = dst + word_of_nat i") (auto simp: load8_def less_Suc_eq)
    qed
  qed
  then show ?thesis by simp
qed

lemma clear_upto_eq: "clear_upto p e m x = (if p \<le> x \<and> x < e then 0 else m x)"
proof (induction p e m rule: clear_upto.induct)
  case (1 p e m)
  show ?case
  proof (cases "p < e")
    case True
    have step: "clear_upto p e m x = clear_upto (p + 1) e (store8 p 0 m) x"
      using True by (subst clear_upto.simps) simp
    have IH: "clear_upto (p + 1) e (store8 p 0 m) x =
        (if p + 1 \<le> x \<and> x < e then 0 else store8 p 0 m x)"
      by (rule "1.IH" [OF True])
    have "p + 1 \<le> x \<longleftrightarrow> p < x"
      using True by (auto simp: inc_less_eq_iff)
    then show ?thesis
      using True by (simp add: step IH) auto
  next
    case False
    then show ?thesis by (subst clear_upto.simps) auto
  qed
qed

lemma tls_slot:
  fixes tp :: u32
  assumes "i < n" and "off * n \<le> 2 ^ 32" and "b + len \<le> off"
  shows "unat (x - (tp + word_of_nat (i * off + b))) < len \<longleftrightarrow>
    unat (x - tp) < off * n \<and> unat (x - tp) div off = i \<and>
    b \<le> unat (x - tp) mod off \<and> unat (x - tp) mod off < b + len"
proof (cases "len = 0")
  case True
  then show ?thesis by auto
next
  case False
  then have off: "0 < off" and len: "0 < len" using assms(3) by auto
  let ?k = "unat (x - tp)"
  have le: "i * off + off \<le> off * n"
    using mult_le_mono2 [of "Suc i" n off] assms(1) by (simp add: algebra_simps)
  have "unat (x - (tp + word_of_nat (i * off + b))) < len \<longleftrightarrow>
      i * off + b \<le> ?k \<and> ?k < i * off + b + len"
    by (rule addr_shift(1)) (use le assms len in simp_all)
  also have "\<dots> \<longleftrightarrow> ?k < off * n \<and> ?k div off = i \<and> b \<le> ?k mod off \<and> ?k mod off < b + len"
  proof
    assume k: "i * off + b \<le> ?k \<and> ?k < i * off + b + len"
    then have "?k div off = i"
      using assms(3) by (intro div_nat_eqI) (simp_all add: algebra_simps)
    moreover have "?k = ?k div off * off + ?k mod off" by simp
    ultimately show "?k < off * n \<and> ?k div off = i \<and> b \<le> ?k mod off \<and> ?k mod off < b + len"
      using k le assms(3) by auto
  next
    assume "?k < off * n \<and> ?k div off = i \<and> b \<le> ?k mod off \<and> ?k mod off < b + len"
    moreover have "?k = ?k div off * off + ?k mod off" by simp
    ultimately show "i * off + b \<le> ?k \<and> ?k < i * off + b + len" by auto
  qed
  finally show ?thesis .
qed

text \<open>Slot \<open>i\<close> of the thread-local storage as an address set, and the copies of its loops.\<close>

lemma tls_addr: "(tp :: u32) + word_of_nat i * w = tp + word_of_nat (i * unat w + 0)"
  by simp

lemma tls_copies:
  assumes n: "off * n \<le> 2 ^ 32" "1 \<le> n" and off: "off = unat w" and sz: "sz \<le> off"
    and src: "region tp (off * n) \<inter> region src sz = {}"
  shows "for_up 1 n (\<lambda>i. copy_bytes (tp + word_of_nat i * w) tp sz) (copy_bytes tp src sz m) x =
    (if unat (x - tp) < off * n \<and> unat (x - tp) mod off < sz
     then m (src + word_of_nat (unat (x - tp) mod off)) else m x)"
proof (cases "sz = 0")
  case True
  have "for_up 1 n (\<lambda>i t. t) m = m"
    using for_up_inv [where I = "\<lambda>_ t. t = m" and lo = 1 and hi = n] n(2) by simp
  moreover have "copy_bytes a b 0 = (\<lambda>t. t)" for a b
    by (simp add: copy_bytes_def fun_eq_iff)
  ultimately show ?thesis using True by simp
next
  case False
  then have pos: "0 < off" using sz by simp
  have le: "off \<le> off * n" using n(2) by simp
  have sz32: "sz \<le> 2 ^ 32" using sz le n(1) by linarith
  let ?k = "\<lambda>x. unat (x - tp)"
  let ?I = "\<lambda>i t. i \<le> n \<longrightarrow> (\<forall>x. t x = (if ?k x < off * n \<and> ?k x div off < i \<and> ?k x mod off < sz
      then m (src + word_of_nat (?k x mod off)) else m x))"
  have slot: "unat (x - (tp + word_of_nat i * w)) < sz \<longleftrightarrow>
      ?k x < off * n \<and> ?k x div off = i \<and> ?k x mod off < sz" if "i < n" for i x
    using tls_slot [of i n off 0 sz x tp] that n(1) sz by (simp add: off)
  have "?I n (for_up 1 n (\<lambda>i. copy_bytes (tp + word_of_nat i * w) tp sz) (copy_bytes tp src sz m))"
  proof (rule for_up_inv [where I = ?I])
    have d: "region tp sz \<inter> region src sz = {}"
      using src order_less_le_trans [OF _ order_trans [OF sz le]] by (auto simp: region_def)
    show "?I 1 (copy_bytes tp src sz m)"
    proof (intro impI allI)
      fix x
      have s: "?k x < sz \<longleftrightarrow> ?k x < off * n \<and> ?k x div off < 1 \<and> ?k x mod off < sz"
        using slot [of 0 x] n(2) by simp
      have "src + word_of_nat (?k x mod off) = src + (x - tp)" if "?k x < sz"
        using that sz by simp
      then show "copy_bytes tp src sz m x = (if ?k x < off * n \<and> ?k x div off < 1 \<and> ?k x mod off < sz
          then m (src + word_of_nat (?k x mod off)) else m x)"
        unfolding copy_bytes_eq [OF sz32 d] s [symmetric] by simp
    qed
    show "1 \<le> n" by (rule n(2))
  next
    fix i t
    assume i: "1 \<le> i" "i < n" and I: "?I i t"
    let ?p = "tp + word_of_nat i * w"
    have d: "region ?p sz \<inter> region tp sz = {}"
      using slot [OF i(2)] slot [of 0] i n(2) by (auto simp: region_def)
    show "?I (Suc i) (copy_bytes ?p tp sz t)"
    proof (intro impI allI)
      fix x
      have off_i: "?k x = i * off + unat (x - ?p)" if "unat (x - ?p) < sz"
      proof -
        have "?k x < off * n" "?k x div off = i" using slot [OF i(2)] that by blast+
        then have ge: "i * off \<le> ?k x"
          by (metis div_mult_mod_eq le_add1)
        have "unat (x - (tp + word_of_nat (i * off))) = ?k x - i * off"
          by (rule addr_shift(2) [of _ 1]) (use ge \<open>?k x < off * n\<close> n(1) in simp_all)
        with ge show ?thesis by (simp add: off)
      qed
      have g: "t (tp + d) = m (src + d)" if "unat d < sz" for d
      proof -
        have d1: "unat d < off" using that sz by simp
        have d2: "?k (tp + d) < off * n \<and> ?k (tp + d) div off < i \<and> ?k (tp + d) mod off < sz"
          using order_less_le_trans [OF d1 le] d1 that i by (simp add: div_eq_0_iff)
        have "t (tp + d) = m (src + word_of_nat (?k (tp + d) mod off))"
          using I i(2) d2 by simp
        then show ?thesis using d1 by simp
      qed
      show "copy_bytes ?p tp sz t x = (if ?k x < off * n \<and> ?k x div off < Suc i \<and> ?k x mod off < sz
          then m (src + word_of_nat (?k x mod off)) else m x)"
      proof (cases "unat (x - ?p) < sz")
        case True
        then have d1: "?k x mod off = unat (x - ?p)" using off_i [OF True] sz by simp
        have d2: "?k x < off * n \<and> ?k x div off < Suc i \<and> ?k x mod off < sz"
          using True slot [OF i(2), of x] by blast
        have "copy_bytes ?p tp sz t x = m (src + (x - ?p))"
          by (simp only: copy_bytes_eq [OF sz32 d] True if_True g [OF True])
        also have "\<dots> = m (src + word_of_nat (?k x mod off))"
          unfolding d1 by simp
        finally show ?thesis by (simp only: d2 simp_thms if_True)
      next
        case False
        have d1: "?k x < off * n \<and> ?k x div off < Suc i \<and> ?k x mod off < sz \<longleftrightarrow>
            ?k x < off * n \<and> ?k x div off < i \<and> ?k x mod off < sz"
          using False slot [OF i(2), of x] less_Suc_eq by blast
        have "copy_bytes ?p tp sz t x = t x"
          by (simp only: copy_bytes_eq [OF sz32 d] False if_False)
        then show ?thesis using I i(2) by (simp only: d1)
      qed
    qed
  qed
  moreover have "?k x div off < n" if "?k x < off * n"
    using that by (simp add: less_mult_imp_div_less mult.commute)
  ultimately show ?thesis by auto
qed

text \<open>The clearing loop over the slots.\<close>

lemma tls_clears:
  assumes n: "off * n \<le> 2 ^ 32" and off: "off = unat w" and b: "b + len \<le> off" "w' = word_of_nat b"
  shows "for_up 0 n (\<lambda>i. clear_bytes (tp + w' + word_of_nat i * w) len) m x =
    (if unat (x - tp) < off * n \<and> b \<le> unat (x - tp) mod off \<and> unat (x - tp) mod off < b + len
     then 0 else m x)"
proof -
  let ?k = "\<lambda>x. unat (x - tp)"
  let ?I = "\<lambda>i t. i \<le> n \<longrightarrow> (\<forall>x. t x = (if ?k x < off * n \<and> ?k x div off < i \<and>
      b \<le> ?k x mod off \<and> ?k x mod off < b + len then 0 else m x))"
  have "?I n (for_up 0 n (\<lambda>i. clear_bytes (tp + w' + word_of_nat i * w) len) m)"
  proof (rule for_up_inv [where I = ?I])
    show "?I 0 m" by simp
    show "0 \<le> n" by simp
  next
    fix i t
    assume i: "i < n" and I: "?I i t"
    have "off \<le> off * n" using i by (cases n) simp_all
    then have len: "len \<le> 2 ^ 32" using n b(1) by linarith
    have p: "tp + w' + word_of_nat i * w = tp + word_of_nat (i * off + b)"
      by (simp add: off b(2))
    show "?I (Suc i) (clear_bytes (tp + w' + word_of_nat i * w) len t)"
      using I i tls_slot [OF i n b(1)] unfolding p
      by (auto simp: clear_bytes_eq [OF len] less_Suc_eq)
  qed
  moreover have "?k x div off < n" if "?k x < off * n"
    using that by (simp add: less_mult_imp_div_less mult.commute)
  ultimately show ?thesis by auto
qed

text \<open>The word loop of the zero-initialised section.\<close>

lemma store32_zero: "store32 a 0 m x = (if unat (x - a) < 4 then 0 else m x)"
proof -
  have "unat (x - a) < 4 \<longleftrightarrow> x = a \<or> x = a + 1 \<or> x = a + 2 \<or> x = a + 3"
  proof -
    have "x = a + word_of_nat k \<longleftrightarrow> unat (x - a) = k" if "k < 4" for k
      by (rule addr_eq_iff) (use that in simp)
    from this [of 0] this [of 1] this [of 2] this [of 3] show ?thesis by auto
  qed
  then show ?thesis by (auto simp: store32_def)
qed

lemma clear_words_eq:
  assumes "4 * n \<le> 2 ^ 32"
  shows "for_up 0 n (\<lambda>i. store32 (a + 4 * word_of_nat i) 0) m x =
    (if unat (x - a) < 4 * n then 0 else m x)"
  using assms
proof (induction n)
  case 0
  then show ?case by simp
next
  case (Suc n)
  have "unat (x - (a + word_of_nat (4 * n))) < 4 \<longleftrightarrow> 4 * n \<le> unat (x - a) \<and> unat (x - a) < 4 * n + 4"
    by (rule addr_shift(1)) (use Suc.prems in simp_all)
  with Suc show ?case by (auto simp: for_up_Suc store32_zero)
qed

section \<open>What the start-up code establishes\<close>

text \<open>
  After the DM core ran \<open>snrt_init_tls\<close>, the thread-local storage of every core of the cluster
  (slot \<open>i\<close> starts \<open>i\<close> stack strides above the DM core's thread pointer) starts with the initial
  values of \<open>.tdata\<close> followed by a zeroed \<open>.tbss\<close>, and no other byte of memory changed; the
  copies the other cores get are made from the DM core's copy, not from \<open>.tdata\<close>.
\<close>

theorem snrt_init_tls_slots:
  assumes dm: "snrt_is_dm_core p h"
    and n: "n = unat (snrt_cluster_core_num h)" "0 < n"
    and off: "off = unat (tls_offset p)" "off * n \<le> 2 ^ 32"
    and sz: "sz = unat (tdata_end l - tdata_start l)"
    and bz: "bz = unat (tbss_end l - tbss_start l)" and fits: "sz + bz \<le> off"
    and src: "region tp (off * n) \<inter> region (tdata_start l) sz = {}"
  shows "snrt_init_tls p h l tp m x =
    (let k = unat (x - tp) in
     if k < off * n \<and> k mod off < sz then m (tdata_start l + word_of_nat (k mod off))
     else if k < off * n \<and> k mod off < sz + bz then 0
     else m x)"
proof -
  let ?m2 = "for_up 1 n (\<lambda>i. copy_bytes (tp + word_of_nat i * tls_offset p) tp sz)
    (copy_bytes tp (tdata_start l) sz m)"
  have w: "tdata_end l - tdata_start l = word_of_nat sz" by (simp add: sz)
  have "snrt_init_tls p h l tp m x = for_up 0 n
      (\<lambda>i. clear_bytes (tp + word_of_nat sz + word_of_nat i * tls_offset p) bz) ?m2 x"
    unfolding snrt_init_tls_def Let_def n(1) [symmetric] bz [symmetric] sz [symmetric]
    unfolding w using dm by simp
  also have "\<dots> = (if unat (x - tp) < off * n \<and> sz \<le> unat (x - tp) mod off \<and>
      unat (x - tp) mod off < sz + bz then 0 else ?m2 x)"
    by (rule tls_clears [OF off(2,1) fits refl])
  also have "?m2 x = (if unat (x - tp) < off * n \<and> unat (x - tp) mod off < sz
      then m (tdata_start l + word_of_nat (unat (x - tp) mod off)) else m x)"
    by (rule tls_copies [OF off(2) _ off(1) _ src]) (use n(2) fits in simp_all)
  finally show ?thesis by (auto simp: Let_def)
qed

text \<open>A cluster of two cores with 4 KiB stacks, four bytes of \<open>.tdata\<close> and two of \<open>.tbss\<close>.\<close>

definition demo_hart :: "u16 \<Rightarrow> hart" where
  "demo_hart idx = \<lparr>csr_mhartid = ucast idx, csr_base_addr_l = 0x10000000, csr_base_addr_h = 0,
     csr_cluster_core_id = core_id 2 idx\<rparr>"

definition demo_platform :: platform where
  "demo_platform = snitch_cluster_defs 0x10000000 24 0x10000000 0x10020000"

definition demo_linker :: linker where
  "demo_linker = \<lparr>tdata_start = 0x80001000, tdata_end = 0x80001004, tbss_start = 0x80001004,
     tbss_end = 0x80001006, bss_start = 0x80002001, bss_end = 0x8000200e,
     cdata_start = 0x80003000, cdata_end = 0x80003004, cbss_start = 0x80003004,
     cbss_end = 0x80003008\<rparr>"

lemma demo_core_num [simp]: "snrt_cluster_core_num (demo_hart i) = 2"
  by (simp add: snrt_cluster_core_num_def demo_hart_def)

lemma demo_core_idx [simp]: "snrt_cluster_core_idx (demo_hart i) = ucast i"
  by (simp add: snrt_cluster_core_idx_def demo_hart_def)

lemma demo_is_dm [simp]: "snrt_is_dm_core demo_platform (demo_hart 1)"
  by (simp add: snrt_is_dm_core_def snrt_is_compute_core_def snrt_cluster_compute_core_num_def
    snrt_cluster_dm_core_num_def demo_platform_def snitch_cluster_defs_def
    demo_core_idx)

lemma demo_cluster_idx [simp]: "snrt_cluster_idx demo_platform (demo_hart i) = 0"
  by (simp add: snrt_cluster_idx_def demo_platform_def snitch_cluster_defs_def
    snrt_cluster_base_addrl_def demo_hart_def)

theorem snrt_init_tls_slots_witness:
  "snrt_init_tls demo_platform (demo_hart 1) demo_linker 0x1001f000 (\<lambda>a. ucast a) 0x1002000a = 2"
proof -
  have off: "tls_offset demo_platform = 0x1008"
    by (simp add: tls_offset_def demo_platform_def snitch_cluster_defs_def)
  have "region 0x1001f000 (0x1008 * 2) \<inter> region 0x80001000 4 = {}"
  proof -
    have "\<not> unat (x - 0x1001f000 :: u32) < 8208" if "unat (x - 0x80001000) < 4" for x
    proof -
      have "x - 0x1001f000 = (x - 0x80001000) + 0x6ffe2000" by simp
      also have "unat \<dots> = unat (x - 0x80001000) + unat (0x6ffe2000 :: u32)"
        by (rule unat_add_small) (use that in simp)
      finally show ?thesis by simp
    qed
    then show ?thesis by (auto simp: region_def)
  qed
  then show ?thesis
    by (subst snrt_init_tls_slots [OF demo_is_dm refl _ refl _ refl refl])
      (simp_all add: off demo_linker_def)
qed

lemma sdiv_words:
  fixes e a :: u32
  assumes order: "a \<le> e" and small: "unat e - unat a < 2 ^ 31"
  shows "(word_of_int (sint (e - a) sdiv 4) :: u32) = word_of_nat (unat (e - a) div 4)"
proof -
  have ea: "unat (e - a) = unat e - unat a" by (rule unat_diff_le [OF order])
  have "sint (e - a) = int (unat (e - a))"
    by (rule sint_small) (simp only: ea small)
  moreover have "int k sdiv 4 = int (k div 4)" for k
    by (cases "k = 0") (simp_all add: signed_divide_int_def zdiv_int)
  ultimately have "sint (e - a) sdiv 4 = int (unat (e - a) div 4)"
    by (simp only:)
  then show ?thesis by (simp only: of_int_of_nat_eq)
qed

text \<open>
  \<open>snrt_init_bss\<close>, run by the DM core of the first cluster, zeroes exactly the bytes of the
  \<open>.bss\<close> section (bytewise up to the word boundary, by words, then the remaining bytes), when
  the section reaches its first word boundary and is smaller than 2 GiB.
\<close>

theorem snrt_init_bss_zeroes:
  assumes core: "snrt_cluster_idx p h = 0" "snrt_is_dm_core p h"
    and a: "a = (bss_start l + 3) AND NOT 3"
    and order: "bss_start l \<le> a" "a \<le> bss_end l"
    and small: "unat (bss_end l) - unat a < 2 ^ 31"
  shows "snrt_init_bss p h l m x = (if bss_start l \<le> x \<and> x < bss_end l then 0 else m x)"
proof -
  let ?e = "bss_end l" and ?s = "bss_start l"
  let ?n = "unat (?e - a) div 4"
  have ea: "unat (?e - a) = unat ?e - unat a" by (rule unat_diff_le [OF order(2)])
  have tw: "(word_of_int (sint (?e - a) sdiv 4) :: u32) = word_of_nat ?n"
    by (rule sdiv_words [OF order(2) small])
  have n: "4 * ?n \<le> unat ?e - unat a" unfolding ea by simp
  then have n32: "4 * ?n < 2 ^ 31" using small by simp
  then have un: "unat (word_of_nat ?n :: u32) = ?n"
    by (intro unat_of_nat_small) simp
  define T where "T = a + word_of_nat (4 * ?n)"
  have tail: "a + 4 * word_of_nat ?n = T" by (simp add: T_def)
  have ut: "unat T = unat a + 4 * ?n"
  proof -
    have u: "unat (word_of_nat (4 * ?n) :: u32) = 4 * ?n"
      by (rule unat_of_nat_small) (use n32 in simp)
    have "unat a + 4 * ?n < 2 ^ 32"
      using n order(2) unat_u32_bound [of ?e] by (simp add: word_le_nat_alt)
    then show ?thesis
      unfolding T_def by (subst unat_add_small) (simp_all only: u len_num1, simp_all)
  qed
  have mid: "unat (x - a) < 4 * ?n \<longleftrightarrow> a \<le> x \<and> x < T"
  proof (cases "a \<le> x")
    case True
    then show ?thesis
      by (simp add: unat_diff_le word_less_nat_alt [of x] ut word_le_nat_alt less_diff_conv2 add.commute)
  next
    case False
    then have "unat (x - a) = 2 ^ 32 + unat x - unat a"
      by (simp add: unat_sub_if' word_le_nat_alt)
    then show ?thesis
      using False n unat_u32_bound [of ?e] by simp
  qed
  have "snrt_init_bss p h l m x =
      clear_upto T ?e (for_up 0 ?n (\<lambda>i. store32 (a + 4 * word_of_nat i) 0)
        (clear_upto ?s a m)) x"
    using core unfolding snrt_init_bss_def Let_def a [symmetric] tw un tail by simp
  also have "\<dots> = (if (T \<le> x \<and> x < ?e) \<or> (a \<le> x \<and> x < T) \<or> (?s \<le> x \<and> x < a) then 0 else m x)"
    using n32 by (simp add: clear_upto_eq clear_words_eq mid)
  also have "(T \<le> x \<and> x < ?e) \<or> (a \<le> x \<and> x < T) \<or> (?s \<le> x \<and> x < a) \<longleftrightarrow> ?s \<le> x \<and> x < ?e"
    using order ut n unfolding word_le_nat_alt word_less_nat_alt by linarith
  finally show ?thesis .
qed

theorem snrt_init_bss_zeroes_witness:
  "snrt_init_bss demo_platform (demo_hart 1) demo_linker (\<lambda>_. 0xff) 0x8000200d = 0 \<and>
   snrt_init_bss demo_platform (demo_hart 1) demo_linker (\<lambda>_. 0xff) 0x8000200e = 0xff"
  using snrt_init_bss_zeroes [where p = demo_platform and h = "demo_hart 1" and l = demo_linker
    and a = "0x80002004" and m = "\<lambda>_. 0xff"] by (simp add: demo_linker_def)

text \<open>A negative pointer difference of less than a word rounds to zero words.\<close>

lemma sdiv_short:
  fixes e a :: u32
  assumes "unat (a - e) \<in> {1, 2, 3}"
  shows "(word_of_int (sint (e - a) sdiv 4) :: u32) = 0"
proof -
  have "e - a = - (a - e)" by simp
  moreover have "a - e = word_of_nat (unat (a - e))" by simp
  ultimately have "e - a = - word_of_nat (unat (a - e))" by metis
  with assms have "e - a \<in> {-1, -2, -3}" by (elim insertE emptyE) simp_all
  then show ?thesis by (elim insertE emptyE) (simp_all add: signed_divide_int_def)
qed

lemma low_bits_cleared: "y \<in> {0, 1, 2} \<Longrightarrow> y AND NOT 3 = (0 :: u32)"
  by (elim insertE emptyE) simp_all

text \<open>
  A \<open>.bss\<close> section that ends before its first word boundary is zeroed too, but so are the
  bytes behind it up to that boundary.
\<close>

theorem snrt_init_bss_short_section:
  assumes core: "snrt_cluster_idx p h = 0" "snrt_is_dm_core p h"
    and a: "a = (bss_start l + 3) AND NOT 3"
    and order: "bss_start l \<le> bss_end l" "bss_end l < a"
  shows "snrt_init_bss p h l m x = (if bss_start l \<le> x \<and> x < a then 0 else m x)"
proof -
  let ?e = "bss_end l" and ?s = "bss_start l"
  have a3: "a \<le> ?s + 3"
    unfolding a using and_less_eq by (simp add: word_le_nat_alt) (simp add: word_and_le2 flip: word_le_nat_alt)
  have nowrap: "?s \<le> ?s + 3"
  proof (rule ccontr)
    assume "\<not> ?thesis"
    then have "?s + 3 < 3" by unat_arith
    then have "?s + 3 \<in> {0, 1, 2}" by unat_arith
    then have "a = 0" unfolding a by (rule low_bits_cleared)
    with order show False by simp
  qed
  have "unat a - unat ?e \<in> {1, 2, 3}"
    using a3 nowrap order by unat_arith
  then have "unat (a - ?e) \<in> {1, 2, 3}"
    using order by (simp add: unat_diff_le)
  then have tw: "(word_of_int (sint (?e - a) sdiv 4) :: u32) = 0"
    by (rule sdiv_short)
  have "snrt_init_bss p h l m x = clear_upto a ?e (clear_upto ?s a m) x"
    using core unfolding snrt_init_bss_def Let_def a [symmetric] tw by simp
  then show ?thesis using order by (auto simp: clear_upto_eq)
qed

theorem snrt_init_bss_short_section_witness:
  "snrt_init_bss demo_platform (demo_hart 1) (demo_linker\<lparr>bss_end := 0x80002002\<rparr>) (\<lambda>a. 7) 0x80002003 = 0"
  using snrt_init_bss_short_section [where p = demo_platform and h = "demo_hart 1"
    and l = "demo_linker\<lparr>bss_end := 0x80002002\<rparr>" and a = "0x80002004" and m = "\<lambda>a. 7"
    and x = "0x80002003"] by (simp add: demo_linker_def)

text \<open>
  \<open>snrt_init_cls\<close> gives every core the same pointer, the start of a block of the size of
  \<open>.cdata\<close> and \<open>.cbss\<close> that ends where the cluster's L1 ends; the DM core's run leaves \<open>.cdata\<close>'s initial
  values there followed by zeros, and changes no other byte.
\<close>

theorem snrt_init_cls_block:
  assumes sz: "sz = unat (cdata_end l - cdata_start l)" "bz = unat (cbss_end l - cbss_start l)"
    and fits: "sz + bz < 2 ^ 32" and dm: "snrt_is_dm_core p h"
    and b: "b = fst (snrt_init_cls p h l m)"
    and src: "region b sz \<inter> region (cdata_start l) sz = {}"
  shows "b + word_of_nat (sz + bz) =
      snrt_cluster_base_addrl h + (CLUSTER_PERIPH_BASE_ADDR p - CLUSTER_TCDM_BASE_ADDR p) \<and>
    (\<forall>x. snd (snrt_init_cls p h l m) x =
      (if unat (x - b) < sz then m (cdata_start l + (x - b))
       else if unat (x - b) < sz + bz then 0 else m x))"
proof -
  have b': "b = snrt_cls_base_addr p h l" by (simp add: b snrt_init_cls_def)
  have ws: "cdata_end l - cdata_start l = word_of_nat sz"
    "cbss_end l - cbss_start l = word_of_nat bz" by (simp_all add: sz)
  have us: "unat (word_of_nat sz :: u32) = sz" "unat (word_of_nat bz :: u32) = bz"
    by (rule unat_of_nat_small, use fits in simp)+
  have "b + word_of_nat (sz + bz) =
      snrt_cluster_base_addrl h + (CLUSTER_PERIPH_BASE_ADDR p - CLUSTER_TCDM_BASE_ADDR p)"
    unfolding b' snrt_cls_base_addr_def Let_def ws by simp
  moreover have "snd (snrt_init_cls p h l m) x =
      (if unat (x - b) < sz then m (cdata_start l + (x - b))
       else if unat (x - b) < sz + bz then 0 else m x)" for x
  proof -
    have "snd (snrt_init_cls p h l m) x =
        clear_bytes (b + word_of_nat sz) bz (copy_bytes b (cdata_start l) sz m) x"
      unfolding snrt_init_cls_def Let_def ws us b' [symmetric] using dm by simp
    also have "\<dots> = (if unat (x - (b + word_of_nat sz)) < bz then 0
        else if unat (x - b) < sz then m (cdata_start l + (x - b)) else m x)"
      by (subst clear_bytes_eq, use fits in simp)
        (subst copy_bytes_eq [OF _ src], use fits in simp, rule refl)
    also have "unat (x - (b + word_of_nat sz)) < bz \<longleftrightarrow>
        sz \<le> unat (x - b) \<and> unat (x - b) < sz + bz"
    proof (cases "bz = 0")
      case False
      then show ?thesis by (intro addr_shift(1)) (use fits in simp_all)
    qed simp
    finally show ?thesis by auto
  qed
  ultimately show ?thesis by blast
qed

theorem snrt_init_cls_block_witness:
  "snd (snrt_init_cls demo_platform (demo_hart 1) demo_linker (\<lambda>a. ucast a)) 0x1001fffb = 3 \<and>
   snd (snrt_init_cls demo_platform (demo_hart 1) demo_linker (\<lambda>a. ucast a)) 0x1001fffc = 0"
proof -
  have b: "fst (snrt_init_cls demo_platform (demo_hart 1) demo_linker m) = 0x1001fff8" for m
    by (simp add: snrt_init_cls_def snrt_cls_base_addr_def demo_linker_def demo_platform_def
      snitch_cluster_defs_def snrt_cluster_base_addrl_def demo_hart_def)
  have "region 0x1001fff8 4 \<inter> region (cdata_start demo_linker) 4 = {}"
  proof -
    have "\<not> unat (x - 0x1001fff8 :: u32) < 4" if "unat (x - 0x80003000) < 4" for x
    proof -
      have "x - 0x1001fff8 = (x - 0x80003000) + 0x6ffe3008" by simp
      also have "unat \<dots> = unat (x - 0x80003000) + unat (0x6ffe3008 :: u32)"
        by (rule unat_add_small) (use that in simp)
      finally show ?thesis by simp
    qed
    then show ?thesis by (auto simp: region_def demo_linker_def)
  qed
  then show ?thesis
    using snrt_init_cls_block [where p = demo_platform and h = "demo_hart 1" and l = demo_linker
      and sz = 4 and bz = 4 and b = "0x1001fff8" and m = "\<lambda>a. ucast a"]
    by (simp add: b) (simp add: demo_linker_def)
qed

end
