(* ===== verification/Mutex.thy ===== *)
theory Mutex
  imports Prelude
begin

text \<open>
  The spin lock of the runtime (sw/snRuntime/src/sync.h): \<open>snrt_mutex_acquire\<close> (test and set),
  \<open>snrt_mutex_ttas_acquire\<close> (test and test and set) and \<open>snrt_mutex_release\<close>, instruction by
  instruction. Any number of harts execute the three routines on one lock word; a step is one
  instruction of one hart. The register \<open>t0\<close> is every hart's own.
\<close>

section \<open>The code as a transition system\<close>

text \<open>
  Where a hart is. \<open>Swap1\<close> and \<open>Retry1\<close> are the two instructions of the loop of the plain lock;
  \<open>Load\<close>, \<open>Test\<close>, \<open>Li\<close>, \<open>Swap2\<close> and \<open>Retry2\<close> the five of the other one. \<open>Critical\<close> is the code
  between acquire and release.
\<close>

datatype mutex_pc = Outside | Li1 | Swap1 | Retry1 | Load | Test | Li2 | Swap2 | Retry2 | Critical

record mutex_state =
  lock_word :: u32
  reg_t0 :: "nat \<Rightarrow> u32"
  at_pc :: "nat \<Rightarrow> mutex_pc"

definition goto :: "nat \<Rightarrow> mutex_pc \<Rightarrow> mutex_state \<Rightarrow> mutex_state" where
  "goto h l s = s\<lparr>at_pc := (at_pc s)(h := l)\<rparr>"

definition set_t0 :: "nat \<Rightarrow> u32 \<Rightarrow> mutex_state \<Rightarrow> mutex_state" where
  "set_t0 h v s = s\<lparr>reg_t0 := (reg_t0 s)(h := v)\<rparr>"

text \<open>\<open>amoswap.w t0, t0, (mtx)\<close>\<close>

definition amoswap :: "nat \<Rightarrow> mutex_state \<Rightarrow> mutex_state" where
  "amoswap h s = s\<lparr>lock_word := reg_t0 s h, reg_t0 := (reg_t0 s)(h := lock_word s)\<rparr>"

text \<open>The next instruction of hart \<open>h\<close> inside the two acquire routines and the release.\<close>

definition snrt_mutex_acquire :: "nat \<Rightarrow> mutex_state \<Rightarrow> mutex_state" where
  "snrt_mutex_acquire h s = (case at_pc s h of
     Li1 \<Rightarrow> goto h Swap1 (set_t0 h 1 s)
   | Swap1 \<Rightarrow> goto h Retry1 (amoswap h s)
   | Retry1 \<Rightarrow> goto h (if reg_t0 s h \<noteq> 0 then Swap1 else Critical) s
   | _ \<Rightarrow> s)"

definition snrt_mutex_ttas_acquire :: "nat \<Rightarrow> mutex_state \<Rightarrow> mutex_state" where
  "snrt_mutex_ttas_acquire h s = (case at_pc s h of
     Load \<Rightarrow> goto h Test (set_t0 h (lock_word s) s)
   | Test \<Rightarrow> goto h (if reg_t0 s h \<noteq> 0 then Load else Li2) s
   | Li2 \<Rightarrow> goto h Swap2 (set_t0 h 1 s)
   | Swap2 \<Rightarrow> goto h Retry2 (amoswap h s)
   | Retry2 \<Rightarrow> goto h (if reg_t0 s h \<noteq> 0 then Swap2 else Critical) s
   | _ \<Rightarrow> s)"

definition snrt_mutex_release :: "nat \<Rightarrow> mutex_state \<Rightarrow> mutex_state" where
  "snrt_mutex_release h s = goto h Outside (s\<lparr>lock_word := 0\<rparr>)"

definition in_tas :: "mutex_pc \<Rightarrow> bool" where
  "in_tas l \<longleftrightarrow> l \<in> {Li1, Swap1, Retry1}"

definition in_ttas :: "mutex_pc \<Rightarrow> bool" where
  "in_ttas l \<longleftrightarrow> l \<in> {Load, Test, Li2, Swap2, Retry2}"

inductive mutex_step :: "mutex_state \<Rightarrow> mutex_state \<Rightarrow> bool" where
  call_tas: "at_pc s h = Outside \<Longrightarrow> mutex_step s (goto h Li1 s)"
| call_ttas: "at_pc s h = Outside \<Longrightarrow> mutex_step s (goto h Load s)"
| run_tas: "in_tas (at_pc s h) \<Longrightarrow> mutex_step s (snrt_mutex_acquire h s)"
| run_ttas: "in_ttas (at_pc s h) \<Longrightarrow> mutex_step s (snrt_mutex_ttas_acquire h s)"
| run_release: "at_pc s h = Critical \<Longrightarrow> mutex_step s (snrt_mutex_release h s)"

definition mutex_start :: "mutex_state \<Rightarrow> bool" where
  "mutex_start s \<longleftrightarrow> lock_word s = 0 \<and> (\<forall>h. at_pc s h = Outside)"

section \<open>The invariant\<close>

text \<open>
  A hart owns the lock from the swap that returned zero on. The word is 1 exactly while the lock
  is owned, there is one owner at most, and a hart about to swap holds a 1.
\<close>

definition owns :: "mutex_state \<Rightarrow> nat \<Rightarrow> bool" where
  "owns s h \<longleftrightarrow> at_pc s h = Critical \<or> (at_pc s h \<in> {Retry1, Retry2} \<and> reg_t0 s h = 0)"

definition mutex_inv :: "mutex_state \<Rightarrow> bool" where
  "mutex_inv s \<longleftrightarrow> lock_word s \<in> {0, 1} \<and> (lock_word s = 1 \<longleftrightarrow> (\<exists>h. owns s h)) \<and>
     (\<forall>h k. owns s h \<longrightarrow> owns s k \<longrightarrow> h = k) \<and>
     (\<forall>h. at_pc s h \<in> {Swap1, Swap2} \<longrightarrow> reg_t0 s h = 1) \<and>
     (\<forall>h. at_pc s h \<in> {Retry1, Retry2} \<longrightarrow> reg_t0 s h \<in> {0, 1})"

lemmas mutex_defs = goto_def set_t0_def amoswap_def

text \<open>Steps that touch neither the lock word nor the ownership keep the invariant.\<close>

lemma mutex_inv_local:
  assumes "mutex_inv s" and "lock_word t = lock_word s"
    and "\<And>k. k \<noteq> h \<Longrightarrow> at_pc t k = at_pc s k \<and> reg_t0 t k = reg_t0 s k"
    and "owns t h \<longleftrightarrow> owns s h"
    and "at_pc t h \<in> {Swap1, Swap2} \<Longrightarrow> reg_t0 t h = 1"
    and "at_pc t h \<in> {Retry1, Retry2} \<Longrightarrow> reg_t0 t h \<in> {0, 1}"
  shows "mutex_inv t"
proof -
  have own: "owns t k \<longleftrightarrow> owns s k" for k
    using assms(3) [of k] assms(4) by (cases "k = h") (auto simp: owns_def)
  moreover have "at_pc t k \<in> {Swap1, Swap2} \<longrightarrow> reg_t0 t k = 1" for k
    using assms(1,5) assms(3) [of k] by (cases "k = h") (auto simp: mutex_inv_def)
  moreover have "at_pc t k \<in> {Retry1, Retry2} \<longrightarrow> reg_t0 t k \<in> {0, 1}" for k
    using assms(1,6) assms(3) [of k] by (cases "k = h") (auto simp: mutex_inv_def)
  ultimately show ?thesis
    using assms(1) unfolding mutex_inv_def own assms(2) by blast
qed

text \<open>The swap: it hands over the lock when it was free, and changes nothing otherwise.\<close>

lemma mutex_inv_swap:
  assumes inv: "mutex_inv s" and pc: "at_pc s h \<in> {Swap1, Swap2}" and l: "l \<in> {Retry1, Retry2}"
  shows "mutex_inv (goto h l (amoswap h s))"
proof -
  let ?t = "goto h l (amoswap h s)"
  have t0: "reg_t0 s h = 1" and not: "\<not> owns s h" and w: "lock_word s \<in> {0, 1}"
    using inv pc by (auto simp: mutex_inv_def owns_def)
  have own: "owns ?t k \<longleftrightarrow> (if k = h then lock_word s = 0 else owns s k)" for k
    using l by (auto simp: owns_def mutex_defs)
  have "lock_word ?t = 1" using t0 by (simp add: mutex_defs)
  moreover have "\<exists>k. owns ?t k"
  proof (cases "lock_word s = 0")
    case True
    then show ?thesis using own by auto
  next
    case False
    then obtain k where "owns s k" using inv w by (auto simp: mutex_inv_def)
    then show ?thesis using own not by metis
  qed
  moreover have "owns ?t j \<Longrightarrow> owns ?t k \<Longrightarrow> j = k" for j k
    using inv own [of j] own [of k] by (auto simp: mutex_inv_def split: if_splits)
  moreover have "at_pc ?t k \<in> {Swap1, Swap2} \<longrightarrow> reg_t0 ?t k = 1" for k
    using inv l by (auto simp: mutex_inv_def mutex_defs)
  moreover have "at_pc ?t k \<in> {Retry1, Retry2} \<longrightarrow> reg_t0 ?t k \<in> {0, 1}" for k
    using inv w by (auto simp: mutex_inv_def mutex_defs)
  ultimately show ?thesis by (simp add: mutex_inv_def)
qed

lemma mutex_inv_release:
  assumes inv: "mutex_inv s" and pc: "at_pc s h = Critical"
  shows "mutex_inv (snrt_mutex_release h s)"
proof -
  let ?t = "snrt_mutex_release h s"
  have only: "owns s k \<Longrightarrow> k = h" for k
    using inv pc by (auto simp: mutex_inv_def owns_def)
  have "owns ?t k \<longleftrightarrow> k \<noteq> h \<and> owns s k" for k
    by (auto simp: owns_def snrt_mutex_release_def mutex_defs)
  then have "\<not> owns ?t k" for k using only by auto
  then show ?thesis
    using inv by (auto simp: mutex_inv_def snrt_mutex_release_def mutex_defs)
qed

lemma mutex_inv_call:
  assumes "mutex_inv s" and "at_pc s h = Outside" and "l \<in> {Li1, Load}"
  shows "mutex_inv (goto h l s)"
  by (rule mutex_inv_local [OF assms(1), where h = h])
    (use assms in \<open>auto simp: mutex_defs owns_def\<close>)

lemma mutex_inv_tas:
  assumes "mutex_inv s" and "in_tas (at_pc s h)"
  shows "mutex_inv (snrt_mutex_acquire h s)"
proof -
  consider "at_pc s h = Li1" | "at_pc s h = Swap1" | "at_pc s h = Retry1"
    using assms(2) by (auto simp: in_tas_def)
  then show ?thesis
  proof cases
    case 2
    then show ?thesis using mutex_inv_swap [OF assms(1), of h Retry1]
      by (simp add: snrt_mutex_acquire_def)
  next
    case 1
    then show ?thesis
      by (intro mutex_inv_local [OF assms(1), where h = h])
        (auto simp: snrt_mutex_acquire_def mutex_defs owns_def)
  next
    case 3
    then have "reg_t0 s h \<in> {0, 1}" using assms(1) by (auto simp: mutex_inv_def)
    with 3 show ?thesis
      by (intro mutex_inv_local [OF assms(1), where h = h])
        (auto simp: snrt_mutex_acquire_def mutex_defs owns_def)
  qed
qed

lemma mutex_inv_ttas:
  assumes "mutex_inv s" and "in_ttas (at_pc s h)"
  shows "mutex_inv (snrt_mutex_ttas_acquire h s)"
proof -
  consider (other) "at_pc s h \<in> {Load, Test, Li2}" | (swap) "at_pc s h = Swap2"
    | (retry) "at_pc s h = Retry2"
    using assms(2) by (auto simp: in_ttas_def)
  then show ?thesis
  proof cases
    case swap
    then show ?thesis using mutex_inv_swap [OF assms(1), of h Retry2]
      by (simp add: snrt_mutex_ttas_acquire_def)
  next
    case other
    then show ?thesis
      by (intro mutex_inv_local [OF assms(1), where h = h])
        (auto simp: snrt_mutex_ttas_acquire_def mutex_defs owns_def)
  next
    case retry
    then have "reg_t0 s h \<in> {0, 1}" using assms(1) by (auto simp: mutex_inv_def)
    with retry show ?thesis
      by (intro mutex_inv_local [OF assms(1), where h = h])
        (auto simp: snrt_mutex_ttas_acquire_def mutex_defs owns_def)
  qed
qed

lemma mutex_inv_step: "mutex_step s t \<Longrightarrow> mutex_inv s \<Longrightarrow> mutex_inv t"
  by (induction rule: mutex_step.induct)
    (simp_all add: mutex_inv_call mutex_inv_tas mutex_inv_ttas mutex_inv_release)

interpretation lock: transition_system mutex_start mutex_step mutex_inv
proof
  show "mutex_start s \<Longrightarrow> mutex_inv s" for s
    by (auto simp: mutex_start_def mutex_inv_def owns_def)
  show "mutex_inv s \<Longrightarrow> mutex_step s t \<Longrightarrow> mutex_inv t" for s t
    by (rule mutex_inv_step)
qed

section \<open>Properties\<close>

text \<open>
  C4: mutual exclusion. Whatever mixture of the two acquire routines the harts use and however
  their instructions interleave, two harts are never between acquire and release at once.
\<close>

theorem mutex_exclusion:
  assumes "mutex_start s" and "mutex_step\<^sup>*\<^sup>* s t"
    and "at_pc t h = Critical" and "at_pc t k = Critical"
  shows "h = k"
proof -
  have "mutex_inv t" using lock.reachable_inv [OF assms(1,2)] .
  then show ?thesis using assms(3,4) by (auto simp: mutex_inv_def owns_def)
qed

definition mutex_idle :: mutex_state where
  "mutex_idle = \<lparr>lock_word = 0, reg_t0 = (\<lambda>_. 0), at_pc = (\<lambda>_. Outside)\<rparr>"

text \<open>Hart 0 takes the plain lock, hart 1 spins on the other.\<close>

definition mutex_contended :: mutex_state where
  "mutex_contended = \<lparr>lock_word = 1, reg_t0 = (\<lambda>_. 0)(0 := 0), at_pc = (\<lambda>_. Outside)(0 := Critical)\<rparr>"

lemma mutex_contended_reachable: "mutex_step\<^sup>*\<^sup>* mutex_idle mutex_contended"
proof -
  let ?s1 = "goto 0 Li1 mutex_idle"
  let ?s2 = "snrt_mutex_acquire 0 ?s1"
  let ?s3 = "snrt_mutex_acquire 0 ?s2"
  let ?s4 = "snrt_mutex_acquire 0 ?s3"
  have "mutex_step mutex_idle ?s1"
    by (rule call_tas) (simp add: mutex_idle_def)
  moreover have "mutex_step ?s1 ?s2"
    by (rule run_tas) (simp add: in_tas_def mutex_defs)
  moreover have "mutex_step ?s2 ?s3"
    by (rule run_tas) (simp add: in_tas_def snrt_mutex_acquire_def mutex_defs)
  moreover have "mutex_step ?s3 ?s4"
    by (rule run_tas) (simp add: in_tas_def snrt_mutex_acquire_def mutex_defs)
  moreover have "?s4 = mutex_contended"
    by (simp add: snrt_mutex_acquire_def mutex_defs mutex_idle_def mutex_contended_def)
  ultimately show ?thesis by (metis (no_types) converse_rtranclp_into_rtranclp rtranclp.rtrancl_refl)
qed

theorem mutex_exclusion_witness:
  "mutex_step\<^sup>*\<^sup>* mutex_idle mutex_contended \<and>
   {k. at_pc mutex_contended k = Critical} = {0}"
proof
  have start: "mutex_start mutex_idle" by (simp add: mutex_start_def mutex_idle_def)
  show "mutex_step\<^sup>*\<^sup>* mutex_idle mutex_contended" by (rule mutex_contended_reachable)
  have zero: "at_pc mutex_contended 0 = Critical" by (simp add: mutex_contended_def)
  have "k = 0" if "at_pc mutex_contended k = Critical" for k
    by (rule mutex_exclusion [OF start mutex_contended_reachable that zero])
  with zero show "{k. at_pc mutex_contended k = Critical} = {0}" by blast
qed

text \<open>A hart running alone.\<close>

fun run_hart :: "nat \<Rightarrow> nat \<Rightarrow> mutex_state \<Rightarrow> mutex_state" where
  "run_hart 0 h s = s"
| "run_hart (Suc n) h s = run_hart n h
     (if in_tas (at_pc s h) then snrt_mutex_acquire h s
      else if in_ttas (at_pc s h) then snrt_mutex_ttas_acquire h s else s)"

text \<open>
  C5: no hart is locked out of a free lock. In every reachable state in which no hart owns the
  lock, a hart that is acquiring it reaches the critical section within seven instructions of its
  own, when the others pause.
\<close>

theorem mutex_free_progress:
  assumes "mutex_start s" and "mutex_step\<^sup>*\<^sup>* s t" and "lock_word t = 0"
    and "in_tas (at_pc t h) \<or> in_ttas (at_pc t h)"
  shows "at_pc (run_hart 7 h t) h = Critical"
proof -
  have inv: "mutex_inv t" using lock.reachable_inv [OF assms(1,2)] .
  then have free: "\<not> owns t h" using assms(3) by (auto simp: mutex_inv_def)
  have sw: "at_pc t h \<in> {Swap1, Swap2} \<Longrightarrow> reg_t0 t h = 1"
    using inv by (auto simp: mutex_inv_def)
  have rt: "at_pc t h \<in> {Retry1, Retry2} \<Longrightarrow> reg_t0 t h = 1"
    using inv free by (auto simp: mutex_inv_def owns_def)
  show ?thesis
    using assms(3,4) sw rt
    by (cases "at_pc t h"; cases "reg_t0 t h = 0")
      (simp_all add: numeral_eq_Suc in_tas_def in_ttas_def snrt_mutex_acquire_def
        snrt_mutex_ttas_acquire_def mutex_defs)
qed

theorem mutex_free_progress_witness:
  "at_pc (run_hart 7 3 (goto 3 Load mutex_idle)) 3 = Critical"
proof (rule mutex_free_progress)
  show "mutex_start mutex_idle" by (simp add: mutex_start_def mutex_idle_def)
  show "mutex_step\<^sup>*\<^sup>* mutex_idle (goto 3 Load mutex_idle)"
    by (rule r_into_rtranclp, rule call_ttas) (simp add: mutex_idle_def)
qed (simp_all add: mutex_idle_def mutex_defs in_ttas_def)

end
