(* ===== verification/Barrier.thy ===== *)
theory Barrier
  imports Prelude
begin

text \<open>
  The software barriers (sw/snRuntime/src/sync.h): \<open>snrt_partial_barrier\<close>, statement by statement
  for \<open>n\<close> harts that interleave freely, and \<open>snrt_global_barrier\<close>, which runs the same code on
  one DM core per cluster between two hardware barriers of the cluster.
\<close>

section \<open>The partial barrier as a transition system\<close>

record snrt_barrier =
  bar_cnt :: u32
  bar_iteration :: u32

text \<open>
  Where a hart is: outside; past the read of the iteration (\<open>prev_it\<close>); past the fetch-and-add,
  with the count it got; the last one, after the reset of the count; or spinning.
\<close>

datatype barrier_pc = Away | Entered u32 | Counted u32 u32 | Released | Spinning u32

text \<open>\<open>passed\<close> counts the barriers a hart has left; no code reads it.\<close>

record barrier_state =
  barr :: snrt_barrier
  b_pc :: "nat \<Rightarrow> barrier_pc"
  passed :: "nat \<Rightarrow> nat"

definition b_goto :: "nat \<Rightarrow> barrier_pc \<Rightarrow> barrier_state \<Rightarrow> barrier_state" where
  "b_goto h l s = s\<lparr>b_pc := (b_pc s)(h := l)\<rparr>"

definition b_leave :: "nat \<Rightarrow> barrier_state \<Rightarrow> barrier_state" where
  "b_leave h s = b_goto h Away (s\<lparr>passed := (passed s)(h := Suc (passed s h))\<rparr>)"

definition snrt_partial_barrier :: "u32 \<Rightarrow> nat \<Rightarrow> barrier_state \<Rightarrow> barrier_state" where
  "snrt_partial_barrier n h s = (case b_pc s h of
     Away \<Rightarrow> b_goto h (Entered (bar_iteration (barr s))) s
   | Entered prev_it \<Rightarrow>
       let cnt = bar_cnt (barr s) + 1
       in b_goto h (Counted prev_it cnt) (s\<lparr>barr := (barr s)\<lparr>bar_cnt := cnt\<rparr>\<rparr>)
   | Counted prev_it cnt \<Rightarrow>
       if cnt = n then b_goto h Released (s\<lparr>barr := (barr s)\<lparr>bar_cnt := 0\<rparr>\<rparr>)
       else b_goto h (Spinning prev_it) s
   | Released \<Rightarrow>
       b_leave h (s\<lparr>barr := (barr s)\<lparr>bar_iteration := bar_iteration (barr s) + 1\<rparr>\<rparr>)
   | Spinning prev_it \<Rightarrow> if prev_it = bar_iteration (barr s) then s else b_leave h s)"

inductive barrier_step :: "u32 \<Rightarrow> barrier_state \<Rightarrow> barrier_state \<Rightarrow> bool" for n where
  b_step: "h < unat n \<Longrightarrow> barrier_step n s (snrt_partial_barrier n h s)"

definition barrier_start :: "barrier_state \<Rightarrow> bool" where
  "barrier_start s \<longleftrightarrow> barr s = \<lparr>bar_cnt = 0, bar_iteration = 0\<rparr> \<and>
     (\<forall>h. b_pc s h = Away \<and> passed s h = 0)"

text \<open>The barriers hart \<open>k\<close> has announced itself at.\<close>

definition arrived :: "barrier_state \<Rightarrow> nat \<Rightarrow> nat" where
  "arrived s k = passed s k + (case b_pc s k of Away \<Rightarrow> 0 | Entered _ \<Rightarrow> 0 | _ \<Rightarrow> 1)"

section \<open>The invariant\<close>

text \<open>
  With \<open>G\<close> rounds completed, a hart has passed \<open>G\<close> barriers, or is still spinning at the end of
  round \<open>G\<close>. The count is the number of harts waiting in the current round; all wait exactly
  when one of them, and only one, is the last.
\<close>

fun pc_ok :: "u32 \<Rightarrow> nat \<Rightarrow> nat \<Rightarrow> barrier_pc \<Rightarrow> bool" where
  "pc_ok n G d Away \<longleftrightarrow> d = G"
| "pc_ok n G d (Entered p) \<longleftrightarrow> d = G \<and> p = word_of_nat G"
| "pc_ok n G d (Counted p c) \<longleftrightarrow> d = G \<and> p = word_of_nat G \<or> Suc d = G \<and> p = word_of_nat d \<and> c \<noteq> n"
| "pc_ok n G d (Spinning p) \<longleftrightarrow> p = word_of_nat d \<and> (d = G \<or> Suc d = G)"
| "pc_ok n G d Released \<longleftrightarrow> d = G"

fun counted_in :: "barrier_pc \<Rightarrow> bool" where
  "counted_in Away \<longleftrightarrow> False"
| "counted_in (Entered p) \<longleftrightarrow> False"
| "counted_in (Counted p c) \<longleftrightarrow> True"
| "counted_in (Spinning p) \<longleftrightarrow> True"
| "counted_in Released \<longleftrightarrow> True"

fun is_last :: "u32 \<Rightarrow> barrier_pc \<Rightarrow> bool" where
  "is_last n Away \<longleftrightarrow> False"
| "is_last n (Entered p) \<longleftrightarrow> False"
| "is_last n (Counted p c) \<longleftrightarrow> c = n"
| "is_last n (Spinning p) \<longleftrightarrow> False"
| "is_last n Released \<longleftrightarrow> True"

definition waits :: "nat \<Rightarrow> barrier_state \<Rightarrow> nat \<Rightarrow> bool" where
  "waits G s h \<longleftrightarrow> passed s h = G \<and> counted_in (b_pc s h)"

definition waiting :: "u32 \<Rightarrow> nat \<Rightarrow> barrier_state \<Rightarrow> nat set" where
  "waiting n G s = {h. h < unat n \<and> waits G s h}"

definition released :: "u32 \<Rightarrow> barrier_state \<Rightarrow> bool" where
  "released n s \<longleftrightarrow> (\<exists>h < unat n. b_pc s h = Released)"

definition round_inv :: "u32 \<Rightarrow> nat \<Rightarrow> barrier_state \<Rightarrow> bool" where
  "round_inv n G s \<longleftrightarrow>
     bar_iteration (barr s) = word_of_nat G \<and>
     (\<forall>h < unat n. pc_ok n G (passed s h) (b_pc s h)) \<and>
     (\<forall>h < unat n. \<forall>k < unat n. is_last n (b_pc s h) \<longrightarrow> is_last n (b_pc s k) \<longrightarrow> h = k) \<and>
     ((\<exists>h < unat n. is_last n (b_pc s h)) \<longleftrightarrow> (\<forall>h < unat n. waits G s h)) \<and>
     bar_cnt (barr s) =
       (if released n s then 0 else word_of_nat (card (waiting n G s)))"

definition barrier_inv :: "u32 \<Rightarrow> barrier_state \<Rightarrow> bool" where
  "barrier_inv n s \<longleftrightarrow> (\<exists>G. round_inv n G s)"

lemma b_goto_simps [simp]:
  "b_pc (b_goto h l s) = (b_pc s)(h := l)" "passed (b_goto h l s) = passed s"
  "barr (b_goto h l s) = barr s"
  by (simp_all add: b_goto_def)

lemma b_leave_simps [simp]:
  "b_pc (b_leave h s) = (b_pc s)(h := Away)"
  "passed (b_leave h s) = (passed s)(h := Suc (passed s h))"
  "barr (b_leave h s) = barr s"
  by (simp_all add: b_leave_def)

lemma finite_waiting [simp]: "finite (waiting n G s)"
  by (rule finite_subset [of _ "{..<unat n}"]) (auto simp: waiting_def)

lemma word_of_nat_Suc_neq: "(word_of_nat d :: u32) \<noteq> word_of_nat (Suc d)"
proof
  assume "(word_of_nat d :: u32) = word_of_nat (Suc d)"
  then have "(word_of_nat d :: u32) = word_of_nat d + 1" by simp
  then show False by simp
qed

lemma round_inv_pc:
  "round_inv n G s \<Longrightarrow> h < unat n \<Longrightarrow> pc_ok n G (passed s h) (b_pc s h)"
  by (simp add: round_inv_def)

lemma round_inv_iteration: "round_inv n G s \<Longrightarrow> bar_iteration (barr s) = word_of_nat G"
  by (simp add: round_inv_def)

text \<open>A step that keeps the iteration, the count, and who waits and who is last.\<close>

lemma round_inv_local:
  assumes inv: "round_inv n G s" and bar: "barr t = barr s"
    and other: "\<And>k. k \<noteq> h \<Longrightarrow> b_pc t k = b_pc s k \<and> passed t k = passed s k"
    and ok: "pc_ok n G (passed t h) (b_pc t h)"
    and same: "waits G t h \<longleftrightarrow> waits G s h" "is_last n (b_pc t h) \<longleftrightarrow> is_last n (b_pc s h)"
      "b_pc t h = Released \<longleftrightarrow> b_pc s h = Released"
  shows "round_inv n G t"
proof -
  have w: "waits G t k \<longleftrightarrow> waits G s k" for k
    using other [of k] same(1) by (cases "k = h") (simp_all add: waits_def)
  have l: "is_last n (b_pc t k) \<longleftrightarrow> is_last n (b_pc s k)" for k
    using other [of k] same(2) by (cases "k = h") simp_all
  have r: "b_pc t k = Released \<longleftrightarrow> b_pc s k = Released" for k
    using other [of k] same(3) by (cases "k = h") simp_all
  have o: "pc_ok n G (passed t k) (b_pc t k)" if "k < unat n" for k
    using inv that other [of k] ok by (cases "k = h") (auto simp: round_inv_def)
  have "waiting n G t = waiting n G s" "released n t \<longleftrightarrow> released n s"
    by (simp_all add: waiting_def released_def w r)
  then show ?thesis using inv o unfolding round_inv_def bar w l by simp
qed

text \<open>Arriving: the count grows by the hart that arrives, and reaches \<open>n\<close> with the last one.\<close>

lemma round_inv_arrive:
  assumes inv: "round_inv n G s" and h: "h < unat n" and pc: "b_pc s h = Entered p"
  shows "round_inv n G (snrt_partial_barrier n h s)"
proof -
  let ?t = "snrt_partial_barrier n h s"
  let ?c = "bar_cnt (barr s) + 1"
  have t: "b_pc ?t = (b_pc s)(h := Counted p ?c)" "passed ?t = passed s"
    "bar_iteration (barr ?t) = bar_iteration (barr s)" "bar_cnt (barr ?t) = ?c"
    using pc by (simp_all add: snrt_partial_barrier_def Let_def)
  have d: "passed s h = G" "p = word_of_nat G"
    using round_inv_pc [OF inv h] pc by simp_all
  have nw: "\<not> waits G s h" using pc by (simp add: waits_def)
  then have nl: "\<not> is_last n (b_pc s k)" if "k < unat n" for k
    using inv h that by (auto simp: round_inv_def)
  then have "\<not> released n s" by (fastforce simp: released_def)
  then have cnt: "bar_cnt (barr s) = word_of_nat (card (waiting n G s))"
    using inv by (simp add: round_inv_def)
  have W: "waiting n G ?t = insert h (waiting n G s)"
    using h d by (auto simp: waiting_def waits_def t)
  have hW: "h \<notin> waiting n G s" using nw by (simp add: waiting_def)
  have sub: "insert h (waiting n G s) \<subseteq> {..<unat n}" using h by (auto simp: waiting_def)
  have card: "card (insert h (waiting n G s)) = Suc (card (waiting n G s))" using hW by simp
  have le: "Suc (card (waiting n G s)) \<le> unat n"
    using card_mono [OF _ sub] card by simp
  have c: "?c = word_of_nat (card (waiting n G ?t))" by (simp add: cnt W hW add.commute)
  have full: "?c = n \<longleftrightarrow> (\<forall>k < unat n. waits G ?t k)"
  proof
    assume "?c = n"
    then have "unat n = unat (word_of_nat (card (waiting n G ?t)) :: u32)"
      using c by simp
    also have "\<dots> = card (waiting n G ?t)"
      by (rule unat_of_nat_small) (use le W card unat_bound [of n] in simp)
    finally have "card (insert h (waiting n G s)) = card {..<unat n}"
      using W by simp
    then have "insert h (waiting n G s) = {..<unat n}"
      using card_subset_eq [OF _ sub] by simp
    then have "waiting n G ?t = {..<unat n}" using W by simp
    then show "\<forall>k < unat n. waits G ?t k" by (auto simp: waiting_def)
  next
    assume "\<forall>k < unat n. waits G ?t k"
    then have "waiting n G ?t = {..<unat n}" by (auto simp: waiting_def)
    then show "?c = n" using c by simp
  qed
  have last: "is_last n (b_pc ?t k) \<longleftrightarrow> k = h \<and> ?c = n" if "k < unat n" for k
    using nl [OF that] by (simp add: t)
  have no_rel: "\<not> released n ?t"
    using \<open>\<not> released n s\<close> by (auto simp: released_def t)
  have "pc_ok n G (passed ?t k) (b_pc ?t k)" if "k < unat n" for k
    using inv that d by (auto simp: round_inv_def t)
  moreover have "(\<exists>k < unat n. is_last n (b_pc ?t k)) \<longleftrightarrow> (\<forall>k < unat n. waits G ?t k)"
    using last h full by blast
  ultimately show ?thesis
    unfolding round_inv_def t(3,4) using inv last no_rel c by (auto simp: round_inv_def)
qed

text \<open>The last hart resets the count, then completes the round.\<close>

lemma round_inv_reset:
  assumes inv: "round_inv n G s" and h: "h < unat n" and pc: "b_pc s h = Counted p n"
  shows "round_inv n G (snrt_partial_barrier n h s)"
proof -
  let ?t = "snrt_partial_barrier n h s"
  have t: "b_pc ?t = (b_pc s)(h := Released)" "passed ?t = passed s"
    "bar_iteration (barr ?t) = bar_iteration (barr s)" "bar_cnt (barr ?t) = 0"
    using pc by (simp_all add: snrt_partial_barrier_def)
  have d: "passed s h = G" using round_inv_pc [OF inv h] pc by simp
  have "is_last n (b_pc ?t k) \<longleftrightarrow> is_last n (b_pc s k)" for k
    using pc by (simp add: t)
  moreover have "waits G ?t k \<longleftrightarrow> waits G s k" for k
    using pc by (simp add: waits_def t)
  moreover have "pc_ok n G (passed ?t k) (b_pc ?t k)" if "k < unat n" for k
    using inv that d by (auto simp: round_inv_def t)
  moreover have "released n ?t" using h by (auto simp: released_def t)
  ultimately show ?thesis
    using inv unfolding round_inv_def t(3,4) by simp
qed

lemma round_inv_complete:
  assumes inv: "round_inv n G s" and h: "h < unat n" and pc: "b_pc s h = Released"
  shows "round_inv n (Suc G) (snrt_partial_barrier n h s)"
proof -
  let ?t = "snrt_partial_barrier n h s"
  have t: "b_pc ?t = (b_pc s)(h := Away)" "passed ?t = (passed s)(h := Suc (passed s h))"
    "bar_iteration (barr ?t) = bar_iteration (barr s) + 1" "bar_cnt (barr ?t) = bar_cnt (barr s)"
    using pc by (simp_all add: snrt_partial_barrier_def)
  have d: "passed s h = G" using round_inv_pc [OF inv h] pc by simp
  have all: "waits G s k" if "k < unat n" for k
    using inv h pc that unfolding round_inv_def by (metis is_last.simps(5))
  have nl: "\<not> is_last n (b_pc s k)" if "k < unat n" "k \<noteq> h" for k
    using inv h pc that unfolding round_inv_def by (metis is_last.simps(5))
  have "released n s" using h pc by (auto simp: released_def)
  then have "bar_cnt (barr s) = 0" using inv by (simp add: round_inv_def)
  moreover have "pc_ok n (Suc G) (passed ?t k) (b_pc ?t k)" if "k < unat n" for k
  proof (cases "k = h")
    case False
    then have "pc_ok n G (passed s k) (b_pc s k)" "waits G s k" "\<not> is_last n (b_pc s k)"
      using inv that all nl by (auto simp: round_inv_def)
    then show ?thesis using False by (cases "b_pc s k") (auto simp: t waits_def)
  qed (simp add: t d)
  moreover have nw: "\<not> waits (Suc G) ?t k" if "k < unat n" for k
    using all [OF that] by (auto simp: waits_def t)
  moreover have nl': "\<not> is_last n (b_pc ?t k)" if "k < unat n" for k
    using nl [OF that] by (auto simp: t)
  moreover have "waiting n (Suc G) ?t = {}" using nw by (auto simp: waiting_def)
  moreover have "\<not> released n ?t" using nl' by (fastforce simp: released_def)
  ultimately show ?thesis
    using inv h unfolding round_inv_def t(3,4) by auto
qed

lemma barrier_inv_exec:
  assumes inv: "round_inv n G s" and h: "h < unat n"
  shows "barrier_inv n (snrt_partial_barrier n h s)"
proof (cases "b_pc s h")
  case Away
  then have "passed s h = G" using round_inv_pc [OF inv h] by simp
  then have "round_inv n G (snrt_partial_barrier n h s)"
    using Away round_inv_iteration [OF inv] by (intro round_inv_local [OF inv, where h = h])
      (simp_all add: snrt_partial_barrier_def waits_def)
  then show ?thesis by (auto simp: barrier_inv_def)
next
  case (Entered p)
  then show ?thesis using round_inv_arrive [OF inv h] by (auto simp: barrier_inv_def)
next
  case (Counted p c)
  then have ok: "pc_ok n G (passed s h) (Counted p c)"
    using round_inv_pc [OF inv h] by simp
  show ?thesis
  proof (cases "c = n")
    case True
    then show ?thesis using round_inv_reset [OF inv h] Counted by (auto simp: barrier_inv_def)
  next
    case False
    then have "round_inv n G (snrt_partial_barrier n h s)"
      using Counted ok by (intro round_inv_local [OF inv, where h = h])
        (auto simp: snrt_partial_barrier_def waits_def)
    then show ?thesis by (auto simp: barrier_inv_def)
  qed
next
  case Released
  then show ?thesis using round_inv_complete [OF inv h] by (auto simp: barrier_inv_def)
next
  case (Spinning p)
  show ?thesis
  proof (cases "p = bar_iteration (barr s)")
    case True
    then show ?thesis using inv Spinning by (auto simp: barrier_inv_def snrt_partial_barrier_def)
  next
    case False
    have "pc_ok n G (passed s h) (Spinning p)" "bar_iteration (barr s) = word_of_nat G"
      using round_inv_pc [OF inv h] Spinning round_inv_iteration [OF inv] by simp_all
    with False have d: "Suc (passed s h) = G" by auto
    have "round_inv n G (snrt_partial_barrier n h s)"
      using Spinning False d by (intro round_inv_local [OF inv, where h = h])
        (auto simp: snrt_partial_barrier_def waits_def)
    then show ?thesis by (auto simp: barrier_inv_def)
  qed
qed

lemma barrier_inv_step: "barrier_step n s t \<Longrightarrow> barrier_inv n s \<Longrightarrow> barrier_inv n t"
  by (auto simp: barrier_inv_def [of n s] elim!: barrier_step.cases intro: barrier_inv_exec)

lemma barrier_inv_start: "0 < n \<Longrightarrow> barrier_start s \<Longrightarrow> barrier_inv n s"
  unfolding barrier_inv_def
  by (rule exI [of _ 0])
    (auto simp: round_inv_def barrier_start_def waits_def waiting_def released_def word_less_nat_alt)

interpretation meet: transition_system "\<lambda>s. 0 < n \<and> barrier_start s" "barrier_step n" "barrier_inv n"
  for n
  by unfold_locales (auto intro: barrier_inv_start barrier_inv_step)

section \<open>Properties of the partial barrier\<close>

lemma round_inv_passed:
  assumes "round_inv n G s" and "h < unat n" and "k < unat n"
  shows "passed s h \<le> arrived s k"
proof -
  have h: "pc_ok n G (passed s h) (b_pc s h)" and k: "pc_ok n G (passed s k) (b_pc s k)"
    using assms by (auto simp: round_inv_def)
  from h have "passed s h \<le> G" by (cases "b_pc s h") auto
  moreover from k have "G \<le> arrived s k" by (cases "b_pc s k") (auto simp: arrived_def)
  ultimately show ?thesis by simp
qed

text \<open>
  C6: no hart leaves the barrier before every hart has arrived at it. In every reachable state a
  hart that has left \<open>r\<close> barriers finds that each of the others has arrived at \<open>r\<close> at least,
  over any number of rounds (the iteration counter may wrap) and any interleaving.
\<close>

theorem partial_barrier_safe:
  assumes "barrier_start s" and "(barrier_step n)\<^sup>*\<^sup>* s t"
    and "h < unat n" and "k < unat n"
  shows "passed t h \<le> arrived t k"
proof -
  have "0 < n" using assms(3) by (auto simp: word_less_nat_alt)
  then have "barrier_inv n t" using meet.reachable_inv [of n s t] assms(1,2) by blast
  then show ?thesis using round_inv_passed assms(3,4) by (auto simp: barrier_inv_def)
qed

fun run_barrier :: "u32 \<Rightarrow> nat list \<Rightarrow> barrier_state \<Rightarrow> barrier_state" where
  "run_barrier n [] s = s"
| "run_barrier n (h # hs) s = run_barrier n hs (snrt_partial_barrier n h s)"

lemma run_barrier_steps:
  "\<forall>h \<in> set hs. h < unat n \<Longrightarrow> (barrier_step n)\<^sup>*\<^sup>* s (run_barrier n hs s)"
  by (induction hs arbitrary: s) (auto intro: barrier_step.b_step converse_rtranclp_into_rtranclp)

definition barrier_reset :: barrier_state where
  "barrier_reset = \<lparr>barr = \<lparr>bar_cnt = 0, bar_iteration = 0\<rparr>, b_pc = (\<lambda>_. Away), passed = (\<lambda>_. 0)\<rparr>"

theorem partial_barrier_safe_witness:
  "passed (run_barrier 2 [0, 0, 1, 1, 0, 1, 1, 0] barrier_reset) 0 = 1 \<and>
   1 \<le> arrived (run_barrier 2 [0, 0, 1, 1, 0, 1, 1, 0] barrier_reset) 1"
proof -
  let ?t = "run_barrier 2 [0, 0, 1, 1, 0, 1, 1, 0] barrier_reset"
  have p: "passed ?t 0 = 1"
    by (simp add: snrt_partial_barrier_def barrier_reset_def)
  have "passed ?t 0 \<le> arrived ?t 1"
    by (rule partial_barrier_safe [of barrier_reset 2])
      (simp_all add: run_barrier_steps del: run_barrier.simps,
        simp add: barrier_start_def barrier_reset_def)
  with p show ?thesis by simp
qed

text \<open>
  C30: the barrier does not deadlock. In a reachable state in which every hart is inside the
  barrier, some hart is not caught in the spin loop, and its next statement changes the state;
  a hart that left its round behind can always leave.
\<close>

theorem partial_barrier_progress:
  assumes "barrier_start s" and "(barrier_step n)\<^sup>*\<^sup>* s t" and "0 < n"
    and "\<forall>h < unat n. b_pc t h \<noteq> Away"
  shows "\<exists>h < unat n. snrt_partial_barrier n h t \<noteq> t"
proof -
  obtain G where inv: "round_inv n G t"
    using meet.reachable_inv [of n s t] assms(1-3) by (auto simp: barrier_inv_def)
  have moves: "snrt_partial_barrier n h t \<noteq> t"
    if h: "h < unat n" and spin: "\<And>p. b_pc t h = Spinning p \<Longrightarrow> passed t h \<noteq> G" for h
  proof -
    have ok: "pc_ok n G (passed t h) (b_pc t h)" "bar_iteration (barr t) = word_of_nat G"
      using inv h by (auto simp: round_inv_def)
    have "b_pc (snrt_partial_barrier n h t) h \<noteq> b_pc t h"
    proof (cases "b_pc t h")
      case (Spinning p)
      then have "Suc (passed t h) = G" "p = word_of_nat (passed t h)"
        using ok spin by auto
      then have "p \<noteq> bar_iteration (barr t)"
        using ok(2) word_of_nat_Suc_neq [of "passed t h"] by auto
      then show ?thesis using Spinning by (simp add: snrt_partial_barrier_def)
    qed (auto simp: snrt_partial_barrier_def Let_def split: if_splits)
    then show ?thesis by metis
  qed
  show ?thesis
  proof (cases "\<forall>h < unat n. waits G t h")
    case True
    then obtain h where "h < unat n" "is_last n (b_pc t h)"
      using inv by (auto simp: round_inv_def)
    then show ?thesis using moves by (metis is_last.simps(4))
  next
    case False
    then obtain h where h: "h < unat n" "\<not> waits G t h" by auto
    then have "\<And>p. b_pc t h = Spinning p \<Longrightarrow> passed t h \<noteq> G" by (auto simp: waits_def)
    then show ?thesis using moves h(1) by blast
  qed
qed

theorem partial_barrier_progress_witness:
  "\<exists>h < unat (2 :: u32). snrt_partial_barrier 2 h (run_barrier 2 [0, 0, 0, 1] barrier_reset) \<noteq>
     run_barrier 2 [0, 0, 0, 1] barrier_reset"
proof (rule partial_barrier_progress)
  show "barrier_start barrier_reset" by (simp add: barrier_start_def barrier_reset_def)
  show "(barrier_step 2)\<^sup>*\<^sup>* barrier_reset (run_barrier 2 [0, 0, 0, 1] barrier_reset)"
    by (rule run_barrier_steps) simp
  show "\<forall>h < unat (2 :: u32). b_pc (run_barrier 2 [0, 0, 0, 1] barrier_reset) h \<noteq> Away"
    by (auto simp: snrt_partial_barrier_def barrier_reset_def less_2_cases_iff)
qed simp

end
