(* ===== verification/Sync.thy ===== *)
theory Sync
  imports Barrier
begin

text \<open>
  The global operations of sw/snRuntime/src/sync.h: the barrier over all cores of all clusters
  (\<open>snrt_global_barrier\<close>), the all-to-all reduction built on it, and the tree reduction of
  buffers between clusters (\<open>snrt_global_reduction_dma\<close>).
\<close>

section \<open>The global barrier as a transition system\<close>

text \<open>
  Where a core is: outside, stopped at the first hardware barrier, in the software part between
  the two, or stopped at the second. The hardware barrier lets the cores of a cluster go when
  all of them have stopped at it. The DM core of cluster \<open>c\<close> is hart \<open>c\<close> of the software barrier,
  whose code is the partial barrier's with the number of clusters as \<open>n\<close>.
\<close>

datatype global_pc = GOut | GHw1 | GSoft | GHw2

record global_state =
  g_bar :: barrier_state
  g_pc :: "nat \<Rightarrow> nat \<Rightarrow> global_pc"
  g_passed :: "nat \<Rightarrow> nat \<Rightarrow> nat"
  g_reduction_result :: u32

definition g_goto :: "nat \<Rightarrow> nat \<Rightarrow> global_pc \<Rightarrow> global_state \<Rightarrow> global_state" where
  "g_goto c i l s = s\<lparr>g_pc := (g_pc s)(c := (g_pc s c)(i := l))\<rparr>"

text \<open>The call: the reduction adds the core's value first, the plain barrier does not.\<close>

definition snrt_global_all_to_all_reduction ::
  "(nat \<Rightarrow> nat \<Rightarrow> u32) \<Rightarrow> nat \<Rightarrow> nat \<Rightarrow> global_state \<Rightarrow> global_state" where
  "snrt_global_all_to_all_reduction v c i s =
     g_goto c i GHw1 (s\<lparr>g_reduction_result := g_reduction_result s + v c i\<rparr>)"

definition snrt_global_barrier_call :: "nat \<Rightarrow> nat \<Rightarrow> global_state \<Rightarrow> global_state" where
  "snrt_global_barrier_call c i s = g_goto c i GHw1 s"

text \<open>The DM core's statements: it stops at the second hardware barrier when the software
  barrier lets it go.\<close>

definition global_soft :: "u32 \<Rightarrow> nat \<Rightarrow> nat \<Rightarrow> global_state \<Rightarrow> global_state" where
  "global_soft n dm c s =
     (let b = snrt_partial_barrier n c (g_bar s); s' = s\<lparr>g_bar := b\<rparr>
      in if passed b c = passed (g_bar s) c then s' else g_goto c dm GHw2 s')"

text \<open>The hardware barriers release a cluster.\<close>

definition hw_release1 :: "nat \<Rightarrow> global_state \<Rightarrow> global_state" where
  "hw_release1 c s = s\<lparr>g_pc := (g_pc s)(c := (\<lambda>_. GSoft))\<rparr>"

definition hw_release2 :: "nat \<Rightarrow> global_state \<Rightarrow> global_state" where
  "hw_release2 c s = s\<lparr>g_pc := (g_pc s)(c := (\<lambda>_. GOut)),
     g_passed := (g_passed s)(c := (\<lambda>i. Suc (g_passed s c i)))\<rparr>"

text \<open>
  \<open>n\<close> clusters of \<open>m\<close> cores each, the DM core being number \<open>dm\<close>. In a run every call is the
  barrier or every call is the reduction of the values \<open>v\<close>.
\<close>

inductive global_step ::
  "(nat \<Rightarrow> nat \<Rightarrow> u32) option \<Rightarrow> u32 \<Rightarrow> nat \<Rightarrow> nat \<Rightarrow> global_state \<Rightarrow> global_state \<Rightarrow> bool"
  for v n m dm where
  g_barrier: "c < unat n \<Longrightarrow> i < m \<Longrightarrow> g_pc s c i = GOut \<Longrightarrow> v = None \<Longrightarrow>
    global_step v n m dm s (snrt_global_barrier_call c i s)"
| g_reduce: "c < unat n \<Longrightarrow> i < m \<Longrightarrow> g_pc s c i = GOut \<Longrightarrow> v = Some f \<Longrightarrow>
    global_step v n m dm s (snrt_global_all_to_all_reduction f c i s)"
| g_hw1: "c < unat n \<Longrightarrow> \<forall>i < m. g_pc s c i = GHw1 \<Longrightarrow> global_step v n m dm s (hw_release1 c s)"
| g_skip: "c < unat n \<Longrightarrow> i < m \<Longrightarrow> i \<noteq> dm \<Longrightarrow> g_pc s c i = GSoft \<Longrightarrow>
    global_step v n m dm s (g_goto c i GHw2 s)"
| g_soft: "c < unat n \<Longrightarrow> g_pc s c dm = GSoft \<Longrightarrow> global_step v n m dm s (global_soft n dm c s)"
| g_hw2: "c < unat n \<Longrightarrow> \<forall>i < m. g_pc s c i = GHw2 \<Longrightarrow> global_step v n m dm s (hw_release2 c s)"

definition global_start :: "global_state \<Rightarrow> bool" where
  "global_start s \<longleftrightarrow> barrier_start (g_bar s) \<and>
     (\<forall>c i. g_pc s c i = GOut \<and> g_passed s c i = 0) \<and> g_reduction_result s = 0"

text \<open>The global barriers core \<open>i\<close> of cluster \<open>c\<close> has called.\<close>

definition g_called :: "global_state \<Rightarrow> nat \<Rightarrow> nat \<Rightarrow> nat" where
  "g_called s c i = g_passed s c i + (if g_pc s c i = GOut then 0 else 1)"

section \<open>The invariant\<close>

text \<open>
  The cores of a cluster are all before or all behind their first hardware barrier, and the DM
  core's phase says how far it is in the software barrier.
\<close>

definition behind :: "global_pc \<Rightarrow> bool" where
  "behind l \<longleftrightarrow> l = GSoft \<or> l = GHw2"

definition cluster_inv :: "nat \<Rightarrow> nat \<Rightarrow> nat \<Rightarrow> global_state \<Rightarrow> bool" where
  "cluster_inv m dm c s \<longleftrightarrow>
     (\<forall>i < m. behind (g_pc s c i) = behind (g_pc s c dm) \<and> g_passed s c i = g_passed s c dm) \<and>
     passed (g_bar s) c = g_passed s c dm + (if g_pc s c dm = GHw2 then 1 else 0) \<and>
     (g_pc s c dm \<noteq> GSoft \<longrightarrow> b_pc (g_bar s) c = Away)"

definition reduction_inv :: "(nat \<Rightarrow> nat \<Rightarrow> u32) option \<Rightarrow> u32 \<Rightarrow> nat \<Rightarrow> global_state \<Rightarrow> bool" where
  "reduction_inv v n m s \<longleftrightarrow> g_reduction_result s =
     (case v of None \<Rightarrow> 0
      | Some f \<Rightarrow> (\<Sum>c < unat n. \<Sum>i < m. word_of_nat (g_called s c i) * f c i))"

definition global_inv ::
  "(nat \<Rightarrow> nat \<Rightarrow> u32) option \<Rightarrow> u32 \<Rightarrow> nat \<Rightarrow> nat \<Rightarrow> global_state \<Rightarrow> bool" where
  "global_inv v n m dm s \<longleftrightarrow> dm < m \<and> barrier_inv n (g_bar s) \<and>
     (\<forall>c < unat n. cluster_inv m dm c s) \<and> reduction_inv v n m s"

lemma partial_barrier_other:
  "k \<noteq> h \<Longrightarrow> b_pc (snrt_partial_barrier n h b) k = b_pc b k \<and>
     passed (snrt_partial_barrier n h b) k = passed b k"
  by (cases "b_pc b h") (simp_all add: snrt_partial_barrier_def Let_def)

lemma partial_barrier_self:
  "passed (snrt_partial_barrier n h b) h = passed b h \<or>
   passed (snrt_partial_barrier n h b) h = Suc (passed b h) \<and>
     b_pc (snrt_partial_barrier n h b) h = Away"
  by (cases "b_pc b h") (simp_all add: snrt_partial_barrier_def Let_def)

text \<open>The phases of one cluster change as the code of its cores says.\<close>

lemma cluster_inv_call:
  assumes "cluster_inv m dm c s" and "g_pc s c' i = GOut"
    and "g_bar t = g_bar s" "g_passed t = g_passed s"
      "g_pc t = (g_pc s)(c' := (g_pc s c')(i := GHw1))"
  shows "cluster_inv m dm c t"
  using assms by (auto simp: cluster_inv_def behind_def)

lemma cluster_inv_skip:
  assumes "cluster_inv m dm c s" and "g_pc s c' i = GSoft" and "i \<noteq> dm"
  shows "cluster_inv m dm c (g_goto c' i GHw2 s)"
  using assms by (auto simp: cluster_inv_def behind_def g_goto_def)

lemma cluster_inv_soft:
  assumes "cluster_inv m dm c s" and "g_pc s c' dm = GSoft"
  shows "cluster_inv m dm c (global_soft n dm c' s)"
  using assms partial_barrier_other [of c c' n "g_bar s"] partial_barrier_self [of n c' "g_bar s"]
  by (cases "c = c'") (auto simp: cluster_inv_def behind_def global_soft_def g_goto_def Let_def)

lemma cluster_inv_hw1:
  assumes "cluster_inv m dm c s" and "g_pc s c' dm = GHw1"
  shows "cluster_inv m dm c (hw_release1 c' s)"
  using assms by (auto simp: cluster_inv_def behind_def hw_release1_def)

lemma cluster_inv_hw2:
  assumes "cluster_inv m dm c s" and "g_pc s c' dm = GHw2"
  shows "cluster_inv m dm c (hw_release2 c' s)"
  using assms by (auto simp: cluster_inv_def behind_def hw_release2_def)

lemma reduction_inv_same:
  assumes "reduction_inv v n m s" and "g_reduction_result t = g_reduction_result s"
    and "\<And>c i. c < unat n \<Longrightarrow> i < m \<Longrightarrow> g_called t c i = g_called s c i"
  shows "reduction_inv v n m t"
  using assms by (auto simp: reduction_inv_def split: option.splits)

text \<open>One more call adds the caller's value to the sum over all cores.\<close>

lemma sum_upd:
  fixes f g :: "nat \<Rightarrow> 'a::comm_monoid_add"
  assumes "i < m" and "\<And>j. j \<noteq> i \<Longrightarrow> g j = f j" and "g i = f i + d"
  shows "(\<Sum>j<m. g j) = (\<Sum>j<m. f j) + d"
proof -
  have "(\<Sum>j<m. g j) = g i + (\<Sum>j\<in>{..<m} - {i}. g j)"
    using assms(1) by (intro sum.remove) simp_all
  also have "(\<Sum>j\<in>{..<m} - {i}. g j) = (\<Sum>j\<in>{..<m} - {i}. f j)"
    by (rule sum.cong) (simp_all add: assms(2))
  also have "(\<Sum>j<m. f j) = f i + (\<Sum>j\<in>{..<m} - {i}. f j)"
    using assms(1) by (intro sum.remove) simp_all
  ultimately show ?thesis by (simp add: assms(3) ac_simps)
qed

lemma reduction_inv_call:
  assumes inv: "reduction_inv (Some f) n m s" and c: "c < unat n" and i: "i < m"
    and out: "g_pc s c i = GOut"
  shows "reduction_inv (Some f) n m (snrt_global_all_to_all_reduction f c i s)"
proof -
  let ?t = "snrt_global_all_to_all_reduction f c i s"
  have same: "g_called ?t c' i' = g_called s c' i'" if "c' \<noteq> c \<or> i' \<noteq> i" for c' i'
    using that by (auto simp: g_called_def snrt_global_all_to_all_reduction_def g_goto_def)
  have one: "g_called ?t c i = Suc (g_called s c i)"
    using out by (simp add: g_called_def snrt_global_all_to_all_reduction_def g_goto_def)
  have inner: "(\<Sum>i<m. word_of_nat (g_called ?t c i) * f c i) =
      (\<Sum>i<m. word_of_nat (g_called s c i) * f c i) + f c i"
    by (rule sum_upd [OF i]) (simp_all add: same one algebra_simps)
  have "(\<Sum>c<unat n. \<Sum>i<m. word_of_nat (g_called ?t c i) * f c i) =
      (\<Sum>c<unat n. \<Sum>i<m. word_of_nat (g_called s c i) * f c i) + f c i"
    by (rule sum_upd [OF c]) (simp_all add: same inner)
  then show ?thesis
    using inv by (simp add: reduction_inv_def snrt_global_all_to_all_reduction_def g_goto_def)
qed

lemma global_inv_step: "global_step v n m dm s t \<Longrightarrow> global_inv v n m dm s \<Longrightarrow> global_inv v n m dm t"
proof (induction rule: global_step.induct)
  case (g_barrier c i s)
  have "reduction_inv v n m (snrt_global_barrier_call c i s)"
    using g_barrier by (simp add: global_inv_def reduction_inv_def snrt_global_barrier_call_def g_goto_def)
  moreover have "cluster_inv m dm c' (snrt_global_barrier_call c i s)" if "c' < unat n" for c'
    by (rule cluster_inv_call [of m dm c' s c i])
      (use g_barrier that in \<open>simp_all add: global_inv_def snrt_global_barrier_call_def g_goto_def\<close>)
  ultimately show ?case
    using g_barrier by (simp add: global_inv_def snrt_global_barrier_call_def g_goto_def)
next
  case (g_reduce c i s f)
  have "reduction_inv v n m (snrt_global_all_to_all_reduction f c i s)"
    using g_reduce reduction_inv_call by (simp add: global_inv_def)
  moreover have "cluster_inv m dm c' (snrt_global_all_to_all_reduction f c i s)" if "c' < unat n" for c'
    by (rule cluster_inv_call [of m dm c' s c i])
      (use g_reduce that in
        \<open>simp_all add: global_inv_def snrt_global_all_to_all_reduction_def g_goto_def\<close>)
  ultimately show ?case
    using g_reduce by (simp add: global_inv_def snrt_global_all_to_all_reduction_def g_goto_def)
next
  case (g_hw1 c s)
  have "reduction_inv v n m (hw_release1 c s)"
    by (rule reduction_inv_same [of v n m s])
      (use g_hw1 in \<open>auto simp: global_inv_def hw_release1_def g_called_def\<close>)
  moreover have "cluster_inv m dm c' (hw_release1 c s)" if "c' < unat n" for c'
    using g_hw1 that by (intro cluster_inv_hw1) (simp_all add: global_inv_def)
  ultimately show ?case using g_hw1 by (simp add: global_inv_def hw_release1_def)
next
  case (g_skip c i s)
  have "reduction_inv v n m (g_goto c i GHw2 s)"
    by (rule reduction_inv_same [of v n m s])
      (use g_skip in \<open>auto simp: global_inv_def g_goto_def g_called_def\<close>)
  moreover have "cluster_inv m dm c' (g_goto c i GHw2 s)" if "c' < unat n" for c'
    using g_skip that by (intro cluster_inv_skip) (simp_all add: global_inv_def)
  ultimately show ?case using g_skip by (simp add: global_inv_def g_goto_def)
next
  case (g_soft c s)
  have "reduction_inv v n m (global_soft n dm c s)"
    by (rule reduction_inv_same [of v n m s])
      (use g_soft in \<open>auto simp: global_inv_def global_soft_def g_goto_def g_called_def Let_def\<close>)
  moreover have "cluster_inv m dm c' (global_soft n dm c s)" if "c' < unat n" for c'
    using g_soft that by (intro cluster_inv_soft) (simp_all add: global_inv_def)
  moreover have "barrier_inv n (g_bar (global_soft n dm c s))"
    using g_soft barrier_inv_step [OF barrier_step.b_step]
    by (simp add: global_inv_def global_soft_def g_goto_def Let_def)
  ultimately show ?case using g_soft by (simp add: global_inv_def)
next
  case (g_hw2 c s)
  have "reduction_inv v n m (hw_release2 c s)"
    by (rule reduction_inv_same [of v n m s])
      (use g_hw2 in \<open>auto simp: global_inv_def hw_release2_def g_called_def\<close>)
  moreover have "cluster_inv m dm c' (hw_release2 c s)" if "c' < unat n" for c'
    using g_hw2 that by (intro cluster_inv_hw2) (simp_all add: global_inv_def)
  ultimately show ?case using g_hw2 by (simp add: global_inv_def hw_release2_def)
qed

lemma global_inv_start: "0 < n \<Longrightarrow> dm < m \<Longrightarrow> global_start s \<Longrightarrow> global_inv v n m dm s"
  by (auto simp: global_inv_def global_start_def barrier_inv_start cluster_inv_def reduction_inv_def
    g_called_def barrier_start_def split: option.split)

interpretation meet_all: transition_system "\<lambda>s. 0 < n \<and> dm < m \<and> global_start s"
  "global_step v n m dm" "global_inv v n m dm"
  for v n m dm
  by unfold_locales (auto intro: global_inv_start global_inv_step)

lemma global_inv_passed:
  assumes inv: "global_inv v n m dm s"
    and c: "c < unat n" "i < m" and d: "d < unat n" "j < m"
  shows "g_passed s c i \<le> g_called s d j"
proof -
  have ci: "cluster_inv m dm c s" "cluster_inv m dm d s" using inv c d by (auto simp: global_inv_def)
  have "g_passed s c i \<le> passed (g_bar s) c"
    using ci(1) c(2) by (auto simp: cluster_inv_def)
  also have "\<dots> \<le> arrived (g_bar s) d"
    using inv c(1) d(1) round_inv_passed by (auto simp: global_inv_def barrier_inv_def)
  also have "\<dots> \<le> g_called s d j"
  proof (cases "behind (g_pc s d dm)")
    case True
    then have "g_pc s d j \<noteq> GOut" using ci(2) d(2) by (auto simp: cluster_inv_def behind_def)
    moreover have "arrived (g_bar s) d \<le> Suc (g_passed s d dm)"
      using ci(2) True
      by (cases "b_pc (g_bar s) d") (auto simp: cluster_inv_def arrived_def behind_def)
    ultimately show ?thesis using ci(2) d(2) by (auto simp: cluster_inv_def g_called_def)
  next
    case False
    then have "arrived (g_bar s) d = g_passed s d dm"
      using ci(2) by (auto simp: cluster_inv_def arrived_def behind_def)
    then show ?thesis using ci(2) d(2) by (auto simp: cluster_inv_def g_called_def)
  qed
  finally show ?thesis .
qed

section \<open>Properties of the global barrier\<close>

text \<open>Runs as lists of actions, for concrete executions.\<close>

datatype g_action = Call nat nat | Hw1 nat | Skip nat nat | Soft nat | Hw2 nat

fun g_exec :: "(nat \<Rightarrow> nat \<Rightarrow> u32) option \<Rightarrow> u32 \<Rightarrow> nat \<Rightarrow> nat \<Rightarrow> g_action \<Rightarrow> global_state \<Rightarrow> global_state option"
where
  "g_exec v n m dm (Call c i) s =
     (if c < unat n \<and> i < m \<and> g_pc s c i = GOut
      then Some (case v of None \<Rightarrow> snrt_global_barrier_call c i s
                 | Some f \<Rightarrow> snrt_global_all_to_all_reduction f c i s)
      else None)"
| "g_exec v n m dm (Hw1 c) s =
     (if c < unat n \<and> list_all (\<lambda>i. g_pc s c i = GHw1) [0..<m] then Some (hw_release1 c s) else None)"
| "g_exec v n m dm (Skip c i) s =
     (if c < unat n \<and> i < m \<and> i \<noteq> dm \<and> g_pc s c i = GSoft then Some (g_goto c i GHw2 s) else None)"
| "g_exec v n m dm (Soft c) s =
     (if c < unat n \<and> g_pc s c dm = GSoft then Some (global_soft n dm c s) else None)"
| "g_exec v n m dm (Hw2 c) s =
     (if c < unat n \<and> list_all (\<lambda>i. g_pc s c i = GHw2) [0..<m] then Some (hw_release2 c s) else None)"

fun g_run :: "(nat \<Rightarrow> nat \<Rightarrow> u32) option \<Rightarrow> u32 \<Rightarrow> nat \<Rightarrow> nat \<Rightarrow> g_action list \<Rightarrow> global_state \<Rightarrow> global_state option"
where
  "g_run v n m dm [] s = Some s"
| "g_run v n m dm (a # as) s = Option.bind (g_exec v n m dm a s) (g_run v n m dm as)"

lemma g_exec_step: "g_exec v n m dm a s = Some t \<Longrightarrow> global_step v n m dm s t"
  by (cases a) (auto simp: list_all_iff split: if_splits option.splits intro: global_step.intros)

lemma g_run_steps: "g_run v n m dm as s = Some t \<Longrightarrow> (global_step v n m dm)\<^sup>*\<^sup>* s t"
  by (induction as arbitrary: s)
    (auto simp: bind_eq_Some_conv intro: converse_rtranclp_into_rtranclp dest: g_exec_step)

definition global_reset :: global_state where
  "global_reset = \<lparr>g_bar = barrier_reset, g_pc = (\<lambda>_ _. GOut), g_passed = (\<lambda>_ _. 0),
     g_reduction_result = 0\<rparr>"

lemma global_start_reset: "global_start global_reset"
  by (simp add: global_start_def global_reset_def barrier_start_def barrier_reset_def)

text \<open>Two clusters of one DM core each; the first has left the barrier.\<close>

definition demo_run :: "g_action list" where
  "demo_run = [Call 0 0, Hw1 0, Soft 0, Soft 0, Soft 0, Call 1 0, Hw1 1, Soft 1, Soft 1, Soft 1,
     Soft 1, Soft 0, Hw2 0]"

text \<open>
  C31: no core of any cluster leaves the global barrier before every core of every cluster has
  called it, DM cores and compute cores alike, in any number of rounds and any interleaving of
  the cores' statements and the clusters' hardware barriers.
\<close>

theorem global_barrier_safe:
  assumes "global_start s" and "(global_step v n m dm)\<^sup>*\<^sup>* s t" and "dm < m"
    and "c < unat n" "i < m" and "d < unat n" "j < m"
  shows "g_passed t c i \<le> g_called t d j"
proof -
  have "0 < n" using assms(4) by (auto simp: word_less_nat_alt)
  then have "global_inv v n m dm t"
    using meet_all.reachable_inv [of n dm m s v t] assms(1-3) by blast
  then show ?thesis by (rule global_inv_passed) (use assms(4-7) in simp_all)
qed

theorem global_barrier_safe_witness:
  "\<exists>t. g_run None 2 1 0 demo_run global_reset = Some t \<and> g_passed t 0 0 = 1 \<and> 1 \<le> g_called t 1 0"
proof -
  obtain t where t: "g_run None 2 1 0 demo_run global_reset = Some t" "g_passed t 0 0 = 1"
    by (simp add: demo_run_def global_reset_def snrt_global_barrier_call_def g_goto_def
      hw_release1_def hw_release2_def global_soft_def snrt_partial_barrier_def barrier_reset_def
      Let_def)
  have "g_passed t 0 0 \<le> g_called t 1 0"
    by (rule global_barrier_safe [OF global_start_reset g_run_steps [OF t(1)]]) simp_all
  with t show ?thesis by auto
qed

text \<open>
  C32: the all-to-all reduction. When every core calls it once, any core that returns reads the
  sum (modulo \<open>2 ^ 32\<close>) of the values of all cores of all clusters, whatever the order in which the
  cores add.
\<close>

theorem all_to_all_reduction_sum:
  assumes "global_start s" and "(global_step (Some f) n m dm)\<^sup>*\<^sup>* s t" and "dm < m"
    and "c < unat n" "i < m" and returned: "g_passed t c i = 1"
    and once: "\<forall>d < unat n. \<forall>j < m. g_called t d j \<le> 1"
  shows "g_reduction_result t = (\<Sum>d < unat n. \<Sum>j < m. f d j)"
proof -
  have "0 < n" using assms(4) by (auto simp: word_less_nat_alt)
  then have inv: "global_inv (Some f) n m dm t"
    using meet_all.reachable_inv [of n dm m s "Some f" t] assms(1-3) by blast
  have "g_called t d j = 1" if "d < unat n" "j < m" for d j
    using global_inv_passed [OF inv assms(4,5) that] once that returned by force
  then show ?thesis using inv by (simp add: global_inv_def reduction_inv_def)
qed

theorem all_to_all_reduction_sum_witness:
  "\<exists>t. g_run (Some (\<lambda>c i. 7 + of_nat c)) 2 1 0 demo_run global_reset = Some t \<and>
     g_reduction_result t = 15"
proof -
  let ?f = "\<lambda>c i. 7 + of_nat c"
  obtain t where t: "g_run (Some ?f) 2 1 0 demo_run global_reset = Some t" "g_passed t 0 0 = 1"
    "g_called t 0 0 = 1" "g_called t 1 0 = 1"
    by (simp add: demo_run_def global_reset_def snrt_global_all_to_all_reduction_def g_goto_def
      hw_release1_def hw_release2_def global_soft_def snrt_partial_barrier_def barrier_reset_def
      Let_def g_called_def)
  have "g_reduction_result t = (\<Sum>d < unat (2 :: u32). \<Sum>j < (1 :: nat). ?f d j)"
    by (rule all_to_all_reduction_sum [OF global_start_reset g_run_steps [OF t(1)],
      where c = 0 and i = 0])
      (use t in \<open>auto simp: less_2_cases_iff\<close>)
  moreover have "{..<unat (2 :: u32)} = {0, 1}" by auto
  ultimately have "g_reduction_result t = 15" by simp
  with t show ?thesis by blast
qed

section \<open>The tree reduction of buffers\<close>

text \<open>
  Every cluster has a destination and a source buffer at the same offset of its memory, so that
  \<open>dst_buffer - 2 ^ level * SNRT_CLUSTER_OFFSET\<close> is the destination buffer of the cluster
  \<open>2 ^ level\<close> below. The elements are doubles, and their addition is a parameter.
\<close>

record 'd buffers =
  dst_buf :: "nat \<Rightarrow> 'd list"
  src_buf :: "nat \<Rightarrow> 'd list"

text \<open>\<open>ceil(log2(n))\<close>.\<close>

fun num_levels :: "nat \<Rightarrow> nat" where
  "num_levels n = (if n \<le> 1 then 0 else Suc (num_levels ((n + 1) div 2)))"

declare num_levels.simps [simp del]

definition is_active :: "nat \<Rightarrow> nat \<Rightarrow> bool" where
  "is_active level c \<longleftrightarrow> c mod 2 ^ level = 0"

definition is_sender :: "nat \<Rightarrow> nat \<Rightarrow> bool" where
  "is_sender level c \<longleftrightarrow> c mod 2 ^ (level + 1) \<noteq> 0"

definition dma_copy :: "nat \<Rightarrow> 'd list \<Rightarrow> 'd list \<Rightarrow> 'd list" where
  "dma_copy len src dst = take len src @ drop len dst"

text \<open>The compute cores' loops: core \<open>k\<close> adds \<open>items\<close> elements from \<open>k * items\<close> on.\<close>

definition add_items :: "('d \<Rightarrow> 'd \<Rightarrow> 'd) \<Rightarrow> nat \<Rightarrow> 'd list \<Rightarrow> nat \<Rightarrow> 'd list \<Rightarrow> 'd list" where
  "add_items fadd items src k =
     for_up 0 items (\<lambda>i d. d[k * items + i := fadd (d ! (k * items + i)) (src ! (k * items + i))])"

definition add_buffers :: "('d \<Rightarrow> 'd \<Rightarrow> 'd) \<Rightarrow> nat \<Rightarrow> nat \<Rightarrow> 'd list \<Rightarrow> 'd list \<Rightarrow> 'd list" where
  "add_buffers fadd cores len src = for_up 0 cores (add_items fadd (len div cores) src)"

definition reduction_level ::
  "('d \<Rightarrow> 'd \<Rightarrow> 'd) \<Rightarrow> nat \<Rightarrow> nat \<Rightarrow> nat \<Rightarrow> nat \<Rightarrow> 'd buffers \<Rightarrow> 'd buffers" where
  "reduction_level fadd clusters cores len level s =
     (let sent = for_up 0 clusters (\<lambda>c s.
            if is_active level c \<and> is_sender level c
            then s\<lparr>dst_buf := (dst_buf s)(c - 2 ^ level :=
                   dma_copy len (src_buf s c) (dst_buf s (c - 2 ^ level)))\<rparr>
            else s) s
      in for_up 0 clusters (\<lambda>c s.
           if is_active level c \<and> \<not> is_sender level c
           then s\<lparr>dst_buf := (dst_buf s)(c := add_buffers fadd cores len (src_buf s c) (dst_buf s c))\<rparr>
           else s) sent)"

definition snrt_global_reduction_dma ::
  "('d \<Rightarrow> 'd \<Rightarrow> 'd) \<Rightarrow> nat \<Rightarrow> nat \<Rightarrow> nat \<Rightarrow> 'd buffers \<Rightarrow> 'd buffers" where
  "snrt_global_reduction_dma fadd clusters cores len s =
     (if clusters = 1
      then s\<lparr>dst_buf := (dst_buf s)(0 := dma_copy len (src_buf s 0) (dst_buf s 0))\<rparr>
      else for_up 0 (num_levels clusters) (reduction_level fadd clusters cores len) s)"

lemma add_items_nth:
  assumes "k * items + items \<le> length d"
  shows "length (add_items fadd items src k d) = length d"
    and "j < length d \<Longrightarrow> add_items fadd items src k d ! j =
      (if k * items \<le> j \<and> j < k * items + items then fadd (d ! j) (src ! j) else d ! j)"
proof -
  let ?I = "\<lambda>i e. i \<le> items \<longrightarrow> length e = length d \<and> (\<forall>j < length d. e ! j =
    (if k * items \<le> j \<and> j < k * items + i then fadd (d ! j) (src ! j) else d ! j))"
  have I: "?I items (add_items fadd items src k d)"
    unfolding add_items_def
  proof (rule for_up_inv [where I = ?I])
    show "?I 0 d" by auto
    show "0 \<le> items" by simp
  next
    fix i e
    assume i: "i < items" and e: "?I i e"
    show "?I (Suc i) (e[k * items + i := fadd (e ! (k * items + i)) (src ! (k * items + i))])"
      using i e assms by (auto simp: nth_list_update)
  qed
  from I show "length (add_items fadd items src k d) = length d" by simp
  from I show "j < length d \<Longrightarrow> add_items fadd items src k d ! j =
      (if k * items \<le> j \<and> j < k * items + items then fadd (d ! j) (src ! j) else d ! j)" by simp
qed

lemma add_buffers_nth:
  assumes "cores * (len div cores) \<le> length d"
  shows "length (add_buffers fadd cores len src d) = length d"
    and "j < length d \<Longrightarrow> add_buffers fadd cores len src d ! j =
      (if j < cores * (len div cores) then fadd (d ! j) (src ! j) else d ! j)"
proof -
  let ?n = "len div cores"
  let ?I = "\<lambda>k e. k \<le> cores \<longrightarrow> length e = length d \<and> (\<forall>j < length d. e ! j =
    (if j < k * ?n then fadd (d ! j) (src ! j) else d ! j))"
  have I: "?I cores (add_buffers fadd cores len src d)"
    unfolding add_buffers_def
  proof (rule for_up_inv [where I = ?I])
    show "?I 0 d" by simp
    show "0 \<le> cores" by simp
  next
    fix k e
    assume k: "k < cores" and e: "?I k e"
    have le: "k * ?n + ?n \<le> length d"
      using mult_le_mono1 [of "Suc k" cores ?n] k assms by simp
    then have le': "k * ?n + ?n \<le> length e" using e k by simp
    show "?I (Suc k) (add_items fadd ?n src k e)"
      using e k add_items_nth [OF le', where fadd = fadd and src = src] by (auto simp: algebra_simps)
  qed
  from I show "length (add_buffers fadd cores len src d) = length d" by simp
  from I show "j < length d \<Longrightarrow> add_buffers fadd cores len src d ! j =
      (if j < cores * ?n then fadd (d ! j) (src ! j) else d ! j)" by simp
qed

lemma dma_copy_full: "length src = len \<Longrightarrow> length dst = len \<Longrightarrow> dma_copy len src dst = src"
  by (simp add: dma_copy_def)

lemma add_buffers_map2:
  assumes "length d = len" "length src = len" "0 < cores" "cores dvd len"
  shows "add_buffers fadd cores len src d = map2 fadd d src"
proof (rule nth_equalityI)
  have n: "cores * (len div cores) = len" using assms(4) by simp
  show "length (add_buffers fadd cores len src d) = length (map2 fadd d src)"
    using add_buffers_nth(1) [where cores = cores and len = len and d = d and fadd = fadd and src = src] n assms by simp
  fix j
  assume "j < length (add_buffers fadd cores len src d)"
  then have "j < len" using add_buffers_nth(1) [where cores = cores and len = len and d = d and fadd = fadd and src = src] n assms by simp
  then show "add_buffers fadd cores len src d ! j = map2 fadd d src ! j"
    using add_buffers_nth(2) [where cores = cores and len = len and d = d and fadd = fadd and src = src and j = j] n assms by simp
qed

text \<open>
  With two clusters the reduction leaves the elementwise sum of both source buffers in the
  first cluster's destination buffer, when the length is a multiple of the number of compute cores.
\<close>

theorem reduction_two_clusters:
  assumes "0 < cores" "cores dvd len"
    and "length (dst_buf s 0) = len" "length (src_buf s 0) = len" "length (src_buf s 1) = len"
  shows "dst_buf (snrt_global_reduction_dma fadd 2 cores len s) 0 =
    map2 fadd (src_buf s 1) (src_buf s 0)"
proof -
  have "num_levels 2 = 1" by (simp add: num_levels.simps)
  then show ?thesis
    using assms
    by (simp add: snrt_global_reduction_dma_def reduction_level_def for_up_def is_active_def
      is_sender_def numeral_2_eq_2 dma_copy_full add_buffers_map2)
qed

definition demo_buffers :: "int buffers" where
  "demo_buffers = \<lparr>dst_buf = (\<lambda>_. [0, 0]), src_buf = (\<lambda>c. [int c + 1, 10 * (int c + 1)])\<rparr>"

theorem reduction_two_clusters_witness:
  "dst_buf (snrt_global_reduction_dma (+) 2 2 2 demo_buffers) 0 = [3, 30]"
  by (subst reduction_two_clusters) (simp_all add: demo_buffers_def)



end
