(* ===== verification/Dma.thy ===== *)
theory Dma
  imports Team
begin

text \<open>
  The cluster DMA's driver (sw/snRuntime/src/dma.h): 1D and 2D transfers, waiting for one transfer
  or for all, and the DMA memset. The instructions \<open>dmsrc\<close>, \<open>dmdst\<close>, \<open>dmstr\<close>, \<open>dmrep\<close>, \<open>dmcpyi\<close> and
  \<open>dmstati\<close> act on the front end as hw/snitch_dma/src/axi_dma_tc_snitch_fe.sv has it: configuration
  registers, the counters \<open>next_id\<close> and \<open>completed_id\<close>, and the transfers accepted but not
  finished, which the engine finishes in order. How many it finishes between two polls of the
  core is up to the hardware, the parameter \<open>prog\<close>.
\<close>

section \<open>The engine\<close>

type_synonym wmem = "u64 \<Rightarrow> u8"

record dma_request =
  rq_src :: u64
  rq_dst :: u64
  rq_size :: u32
  rq_src_stride :: u32
  rq_dst_stride :: u32
  rq_reps :: u32

record dma =
  fe_src :: u64
  fe_dst :: u64
  fe_src_stride :: u32
  fe_dst_stride :: u32
  fe_reps :: u32
  next_id :: u32
  completed_id :: u32
  pending :: "dma_request list"
  dma_mem :: wmem
  dma_now :: nat

definition copy_row :: "u64 \<Rightarrow> u64 \<Rightarrow> nat \<Rightarrow> wmem \<Rightarrow> wmem" where
  "copy_row dst src n m = for_up 0 n (\<lambda>i m. m(dst + word_of_nat i := m (src + word_of_nat i))) m"

definition run_request :: "dma_request \<Rightarrow> wmem \<Rightarrow> wmem" where
  "run_request r m = for_up 0 (unat (rq_reps r))
     (\<lambda>j. copy_row (rq_dst r + word_of_nat j * ucast (rq_dst_stride r))
        (rq_src r + word_of_nat j * ucast (rq_src_stride r)) (unat (rq_size r))) m"

definition dmsrc :: "u32 \<Rightarrow> u32 \<Rightarrow> dma \<Rightarrow> dma" where
  "dmsrc lo hi s = s\<lparr>fe_src := push_bit 32 (ucast hi) + ucast lo\<rparr>"

definition dmdst :: "u32 \<Rightarrow> u32 \<Rightarrow> dma \<Rightarrow> dma" where
  "dmdst lo hi s = s\<lparr>fe_dst := push_bit 32 (ucast hi) + ucast lo\<rparr>"

definition dmstr :: "u32 \<Rightarrow> u32 \<Rightarrow> dma \<Rightarrow> dma" where
  "dmstr dst_stride src_stride s = s\<lparr>fe_dst_stride := dst_stride, fe_src_stride := src_stride\<rparr>"

definition dmrep :: "u32 \<Rightarrow> dma \<Rightarrow> dma" where
  "dmrep reps s = s\<lparr>fe_reps := reps\<rparr>"

text \<open>\<open>dmcpyi\<close> with a size and whether the transfer is two-dimensional; it returns \<open>next_id\<close>.\<close>

definition dmcpyi :: "u32 \<Rightarrow> bool \<Rightarrow> dma \<Rightarrow> u32 \<times> dma" where
  "dmcpyi sz twod s =
     (next_id s,
      s\<lparr>next_id := next_id s + 1,
        pending := pending s @ [\<lparr>rq_src = fe_src s, rq_dst = fe_dst s, rq_size = sz,
          rq_src_stride = fe_src_stride s, rq_dst_stride = fe_dst_stride s,
          rq_reps = if twod then fe_reps s else 1\<rparr>]\<rparr>)"

definition dma_complete :: "dma \<Rightarrow> dma" where
  "dma_complete s = (case pending s of [] \<Rightarrow> s
     | r # rs \<Rightarrow> s\<lparr>pending := rs, completed_id := completed_id s + 1, dma_mem := run_request r (dma_mem s)\<rparr>)"

text \<open>The engine runs until the core's next \<open>dmstati\<close>.\<close>

definition dma_run :: "(nat \<Rightarrow> nat) \<Rightarrow> dma \<Rightarrow> dma" where
  "dma_run prog s = ((dma_complete ^^ prog (dma_now s)) s)\<lparr>dma_now := Suc (dma_now s)\<rparr>"

definition dma_busy :: "dma \<Rightarrow> bool" where
  "dma_busy s \<longleftrightarrow> next_id s \<noteq> completed_id s"

section \<open>The driver\<close>

definition snrt_dma_start_1d_wideptr :: "u64 \<Rightarrow> u64 \<Rightarrow> u32 \<Rightarrow> dma \<Rightarrow> u32 \<times> dma" where
  "snrt_dma_start_1d_wideptr dst src sz s =
     (if 0 < sz
      then dmcpyi sz False
        (dmdst (ucast dst) (ucast (drop_bit 32 dst)) (dmsrc (ucast src) (ucast (drop_bit 32 src)) s))
      else (-1, s))"

text \<open>A 32 bit pointer gets the upper half of the cluster's base address.\<close>

definition wideptr :: "hart \<Rightarrow> u32 \<Rightarrow> u64" where
  "wideptr h p = ucast p + push_bit 32 (ucast (snrt_cluster_base_addrh h))"

definition snrt_dma_start_1d :: "hart \<Rightarrow> u32 \<Rightarrow> u32 \<Rightarrow> u32 \<Rightarrow> dma \<Rightarrow> u32 \<times> dma" where
  "snrt_dma_start_1d h dst src sz = snrt_dma_start_1d_wideptr (wideptr h dst) (wideptr h src) sz"

definition snrt_dma_start_2d_wideptr ::
  "u64 \<Rightarrow> u64 \<Rightarrow> u32 \<Rightarrow> u32 \<Rightarrow> u32 \<Rightarrow> u32 \<Rightarrow> dma \<Rightarrow> u32 \<times> dma" where
  "snrt_dma_start_2d_wideptr dst src sz dst_stride src_stride repeat s =
     (if 0 < sz
      then dmcpyi sz True (dmrep repeat (dmstr dst_stride src_stride
        (dmdst (ucast dst) (ucast (drop_bit 32 dst)) (dmsrc (ucast src) (ucast (drop_bit 32 src)) s))))
      else (-1, s))"

definition snrt_dma_start_2d ::
  "hart \<Rightarrow> u32 \<Rightarrow> u32 \<Rightarrow> u32 \<Rightarrow> u32 \<Rightarrow> u32 \<Rightarrow> u32 \<Rightarrow> dma \<Rightarrow> u32 \<times> dma" where
  "snrt_dma_start_2d h dst src sz dst_stride src_stride repeat =
     snrt_dma_start_2d_wideptr (wideptr h dst) (wideptr h src) sz dst_stride src_stride repeat"

text \<open>\<open>sub t0, t0, tid; blez t0, 1b\<close>: the difference is compared as a signed number.\<close>

definition snrt_dma_wait :: "(nat \<Rightarrow> nat) \<Rightarrow> u32 \<Rightarrow> dma \<Rightarrow> dma option" where
  "snrt_dma_wait prog tid = poll_until (dma_run prog) (\<lambda>s. \<not> sint (completed_id s - tid) \<le> 0)"

definition snrt_dma_wait_all :: "(nat \<Rightarrow> nat) \<Rightarrow> dma \<Rightarrow> dma option" where
  "snrt_dma_wait_all prog = poll_until (dma_run prog) (\<lambda>s. \<not> dma_busy s)"

definition snrt_dma_memset :: "(nat \<Rightarrow> nat) \<Rightarrow> hart \<Rightarrow> u32 \<Rightarrow> u8 \<Rightarrow> u32 \<Rightarrow> dma \<Rightarrow> dma option" where
  "snrt_dma_memset prog h ptr value len s =
     (let s1 = s\<lparr>dma_mem := for_up 0 64 (\<lambda>i m. m(wideptr h ptr + word_of_nat i := value)) (dma_mem s)\<rparr>;
          (memset_txid, s2) = snrt_dma_start_2d h ptr ptr 64 64 0 (len div 64) s1
      in snrt_dma_wait_all prog s2)"

section \<open>Lemmas\<close>

text \<open>The counters differ by the number of pending transfers; less than \<open>2 ^ 31\<close> are pending.\<close>

definition dma_inv :: "dma \<Rightarrow> bool" where
  "dma_inv s \<longleftrightarrow> next_id s = completed_id s + word_of_nat (length (pending s)) \<and>
     length (pending s) < 2 ^ 31"

lemma split_u64: "push_bit 32 (ucast (ucast (drop_bit 32 x) :: u32)) + ucast (ucast x :: u32) = (x :: u64)"
proof -
  have "push_bit 32 (ucast (ucast (drop_bit 32 x) :: u32)) + ucast (ucast x :: u32) =
      (push_bit 32 (ucast (ucast (drop_bit 32 x) :: u32)) OR ucast (ucast x :: u32) :: u64)"
    by (rule disjunctive_add_eq_or) (auto simp: bit_eq_iff bit_simps dest: bit_imp_le_length)
  also have "\<dots> = x"
    by (rule bit_word_eqI) (auto simp: bit_simps)
  finally show ?thesis .
qed

text \<open>What a call to start a transfer appends.\<close>

lemma start_1d_wideptr_eq:
  "0 < sz \<Longrightarrow> snrt_dma_start_1d_wideptr dst src sz s =
     (next_id s, s\<lparr>fe_src := src, fe_dst := dst, next_id := next_id s + 1,
        pending := pending s @ [\<lparr>rq_src = src, rq_dst = dst, rq_size = sz,
          rq_src_stride = fe_src_stride s, rq_dst_stride = fe_dst_stride s, rq_reps = 1\<rparr>]\<rparr>)"
  by (simp add: snrt_dma_start_1d_wideptr_def dmcpyi_def dmdst_def dmsrc_def split_u64)

lemma start_2d_wideptr_eq:
  "0 < sz \<Longrightarrow> snrt_dma_start_2d_wideptr dst src sz dst_stride src_stride repeat s =
     (next_id s, s\<lparr>fe_src := src, fe_dst := dst, fe_src_stride := src_stride,
        fe_dst_stride := dst_stride, fe_reps := repeat, next_id := next_id s + 1,
        pending := pending s @ [\<lparr>rq_src = src, rq_dst = dst, rq_size = sz,
          rq_src_stride = src_stride, rq_dst_stride = dst_stride, rq_reps = repeat\<rparr>]\<rparr>)"
  by (simp add: snrt_dma_start_2d_wideptr_def dmcpyi_def dmdst_def dmsrc_def dmstr_def dmrep_def
    split_u64)

text \<open>After some polls the engine has finished some number of the transfers that were pending.\<close>

definition finished :: "nat \<Rightarrow> dma \<Rightarrow> dma \<Rightarrow> bool" where
  "finished k s t \<longleftrightarrow> k \<le> length (pending s) \<and> pending t = drop k (pending s) \<and>
     completed_id t = completed_id s + word_of_nat k \<and> next_id t = next_id s \<and>
     dma_mem t = fold run_request (take k (pending s)) (dma_mem s)"

lemma finished_refl: "finished 0 s s"
  by (simp add: finished_def)

lemma finished_now: "finished k s (t\<lparr>dma_now := x\<rparr>) \<longleftrightarrow> finished k s t"
  by (simp add: finished_def)

lemma finished_complete:
  assumes "finished k s t"
  shows "finished (min (Suc k) (length (pending s))) s (dma_complete t)"
proof (cases "k < length (pending s)")
  case True
  then have "drop k (pending s) = pending s ! k # drop (Suc k) (pending s)"
    by (simp add: Cons_nth_drop_Suc)
  then show ?thesis
    using assms True by (simp add: finished_def dma_complete_def take_Suc_conv_app_nth min_def)
next
  case False
  then have "k = length (pending s)" using assms by (simp add: finished_def)
  then show ?thesis using assms by (simp add: finished_def dma_complete_def)
qed

lemma finished_completes:
  assumes "finished k s t"
  shows "finished (min (k + n) (length (pending s))) s ((dma_complete ^^ n) t)"
proof (induction n)
  case 0
  then show ?case using assms by (simp add: finished_def min_def)
next
  case (Suc n)
  then show ?case
    using finished_complete [OF Suc] by (simp add: min_def split: if_splits)
qed

lemma dma_now_completes [simp]: "dma_now ((dma_complete ^^ n) s) = dma_now s"
  by (induction n) (simp_all add: dma_complete_def split: list.split)

lemma dma_now_runs [simp]: "dma_now ((dma_run prog ^^ n) s) = dma_now s + n"
  by (induction n) (simp_all add: dma_run_def)

lemma finished_runs:
  "finished (min (\<Sum>i<n. prog (dma_now s + i)) (length (pending s))) s ((dma_run prog ^^ n) s)"
proof (induction n)
  case 0
  then show ?case by (simp add: finished_refl)
next
  case (Suc n)
  let ?t = "(dma_run prog ^^ n) s" and ?k = "\<Sum>i<n. prog (dma_now s + i)"
  have "finished (min (min ?k (length (pending s)) + prog (dma_now s + n)) (length (pending s))) s
      ((dma_complete ^^ prog (dma_now ?t)) ?t)"
    using finished_completes [OF Suc, of "prog (dma_now ?t)"] by simp
  moreover have "min (min ?k (length (pending s)) + p) (length (pending s)) =
      min (?k + p) (length (pending s))" for p by (simp add: min_def)
  moreover have "(dma_run prog ^^ Suc n) s = (dma_complete ^^ prog (dma_now ?t)) ?t\<lparr>dma_now := Suc (dma_now ?t)\<rparr>"
    by (simp only: funpow.simps(2) o_apply dma_run_def)
  ultimately show ?case by (simp only: finished_now) simp
qed

text \<open>An engine that keeps making progress finishes all that is pending.\<close>

definition makes_progress :: "(nat \<Rightarrow> nat) \<Rightarrow> bool" where
  "makes_progress prog \<longleftrightarrow> (\<forall>t. \<exists>u \<ge> t. 0 < prog u)"

lemma progress_unbounded:
  assumes "makes_progress prog"
  shows "\<exists>n. j \<le> (\<Sum>i<n. prog (b + i))"
proof (induction j)
  case 0
  then show ?case by simp
next
  case (Suc j)
  then obtain n where n: "j \<le> (\<Sum>i<n. prog (b + i))" by blast
  obtain u where u: "b + n \<le> u" "0 < prog u"
    using assms unfolding makes_progress_def by blast
  define m where "m = u - b"
  have "(\<Sum>i<n. prog (b + i)) \<le> (\<Sum>i<m. prog (b + i))"
    by (rule sum_mono2) (use u(1) in \<open>auto simp: m_def\<close>)
  moreover have "(\<Sum>i<Suc m. prog (b + i)) = (\<Sum>i<m. prog (b + i)) + prog u"
    using u(1) by (simp add: m_def)
  ultimately have "Suc j \<le> (\<Sum>i<Suc m. prog (b + i))" using n u(2) by linarith
  then show ?case by blast
qed

lemma finished_enough:
  assumes "makes_progress prog" and "j \<le> length (pending s)"
  shows "\<exists>n k. j \<le> k \<and> finished k s ((dma_run prog ^^ Suc n) s)"
proof -
  obtain n where "j \<le> (\<Sum>i<n. prog (dma_now s + i))"
    using progress_unbounded [OF assms(1)] by blast
  then have "j \<le> min (\<Sum>i<Suc n. prog (dma_now s + i)) (length (pending s))"
    using assms(2) by simp
  then show ?thesis using finished_runs by blast
qed

lemma finished_busy: "dma_inv s \<Longrightarrow> finished k s t \<Longrightarrow> dma_busy t \<longleftrightarrow> k < length (pending s)"
proof -
  assume inv: "dma_inv s" and k: "finished k s t"
  then have le: "k \<le> length (pending s)" "length (pending s) < 2 ^ 31"
    by (simp_all add: finished_def dma_inv_def)
  have "next_id t - completed_id t = word_of_nat (length (pending s) - k)"
    using inv k le by (simp add: finished_def dma_inv_def of_nat_diff)
  moreover have "unat (word_of_nat (length (pending s) - k) :: u32) = length (pending s) - k"
    by (rule unat_of_nat_small) (use le in simp)
  ultimately have "unat (next_id t - completed_id t) = length (pending s) - k" by simp
  then have "next_id t - completed_id t = 0 \<longleftrightarrow> length (pending s) - k = 0"
    by (simp only: unat_0_iff [symmetric])
  then show ?thesis using le(1) by (auto simp: dma_busy_def)
qed

lemma finished_after:
  assumes "dma_inv s" and "finished k s t" and "j < length (pending s)"
  shows "\<not> sint (completed_id t - (completed_id s + word_of_nat j)) \<le> 0 \<longleftrightarrow> j < k"
proof -
  have "completed_id t - (completed_id s + word_of_nat j) = word_of_int (int k - int j)"
    using assms(2) by (simp add: finished_def)
  moreover have "sint (word_of_int (int k - int j) :: u32) = int k - int j"
    by (rule sint_of_int_small) (use assms in \<open>simp_all add: finished_def dma_inv_def\<close>)
  ultimately have "sint (completed_id t - (completed_id s + word_of_nat j)) = int k - int j"
    by (simp only:)
  then show ?thesis by auto
qed

section \<open>Properties\<close>

text \<open>
  \<open>snrt_dma_wait\<close> with the identifier of a transfer that is still pending returns on an engine
  that keeps making progress, and when it returns that transfer and all that were started before
  it have been carried out, in the order of their start; the counters may wrap.
\<close>

theorem dma_wait_done:
  assumes "dma_inv s" and "j < length (pending s)" and "tid = completed_id s + word_of_nat j"
    and "makes_progress prog"
  shows "\<exists>t k. snrt_dma_wait prog tid s = Some t \<and> j < k \<and> finished k s t"
proof -
  let ?P = "\<lambda>t. \<not> sint (completed_id t - tid) \<le> 0"
  obtain n k where k: "Suc j \<le> k" "finished k s ((dma_run prog ^^ Suc n) s)"
    using finished_enough [OF assms(4), of "Suc j" s] assms(2) by auto
  then have "?P ((dma_run prog ^^ Suc n) s)"
    using finished_after [OF assms(1) k(2) assms(2)] assms(3) by simp
  then obtain m where m: "snrt_dma_wait prog tid s = Some ((dma_run prog ^^ Suc m) s)"
    "?P ((dma_run prog ^^ Suc m) s)"
    unfolding snrt_dma_wait_def using poll_until_returns [of ?P n "dma_run prog" s] by blast
  obtain k' where k': "finished k' s ((dma_run prog ^^ Suc m) s)" using finished_runs by blast
  then have "j < k'" using finished_after [OF assms(1) k' assms(2)] m(2) assms(3) by simp
  with m(1) k' show ?thesis by blast
qed

lemma dma_wait_all_done:
  assumes "dma_inv s" and "makes_progress prog"
  shows "\<exists>t. snrt_dma_wait_all prog s = Some t \<and> pending t = [] \<and>
    dma_mem t = fold run_request (pending s) (dma_mem s)"
proof -
  let ?P = "\<lambda>t. \<not> dma_busy t"
  obtain n k where k: "length (pending s) \<le> k" "finished k s ((dma_run prog ^^ Suc n) s)"
    using finished_enough [OF assms(2), of "length (pending s)" s] by auto
  then have "?P ((dma_run prog ^^ Suc n) s)" using finished_busy [OF assms(1) k(2)] by simp
  then obtain m where m: "snrt_dma_wait_all prog s = Some ((dma_run prog ^^ Suc m) s)"
    "?P ((dma_run prog ^^ Suc m) s)"
    unfolding snrt_dma_wait_all_def using poll_until_returns [of ?P n "dma_run prog" s] by blast
  obtain k' where k': "finished k' s ((dma_run prog ^^ Suc m) s)" using finished_runs by blast
  then have "length (pending s) \<le> k'" using finished_busy [OF assms(1) k'] m(2) by simp
  with k' have "pending ((dma_run prog ^^ Suc m) s) = []"
    "dma_mem ((dma_run prog ^^ Suc m) s) = fold run_request (pending s) (dma_mem s)"
    by (simp_all add: finished_def)
  with m(1) show ?thesis by blast
qed

text \<open>The bytes of a row, and of the rows of a request.\<close>

definition wregion :: "u64 \<Rightarrow> nat \<Rightarrow> u64 set" where
  "wregion p n = {x. unat (x - p) < n}"

lemma wregion_mem: "i < n \<Longrightarrow> n \<le> 2 ^ 64 \<Longrightarrow> p + word_of_nat i \<in> wregion p n"
  by (simp add: wregion_def unat_of_nat_small)

lemma copy_row_eq:
  assumes "n \<le> 2 ^ 64" and "dst = src \<or> wregion dst n \<inter> wregion src n = {}"
  shows "copy_row dst src n m x = (if unat (x - dst) < n then m (src + (x - dst)) else m x)"
proof -
  let ?I = "\<lambda>i t. i \<le> n \<longrightarrow> (\<forall>x. t x = (if unat (x - dst) < i then m (src + (x - dst)) else m x))"
  have "?I n (copy_row dst src n m)"
    unfolding copy_row_def
  proof (rule for_up_inv [where I = ?I])
    show "?I 0 m" by simp
    show "0 \<le> n" by simp
  next
    fix i t
    assume i: "i < n" and I: "?I i t"
    have src: "t (src + word_of_nat i) = m (src + word_of_nat i)"
    proof (cases "dst = src")
      case True
      then show ?thesis using I i by simp
    next
      case False
      then have "src + word_of_nat i \<notin> wregion dst n"
        using wregion_mem [OF i assms(1), of src] assms(2) by auto
      then show ?thesis using I i by (auto simp: wregion_def)
    qed
    show "?I (Suc i) (t(dst + word_of_nat i := t (src + word_of_nat i)))"
    proof (intro impI allI)
      fix x
      have x: "x = dst + word_of_nat i \<longleftrightarrow> unat (x - dst) = i"
        by (rule addr_eq_iff) (use i assms(1) in simp)
      then show "(t(dst + word_of_nat i := t (src + word_of_nat i))) x =
          (if unat (x - dst) < Suc i then m (src + (x - dst)) else m x)"
        using I i src by (cases "x = dst + word_of_nat i") (auto simp: less_Suc_eq)
    qed
  qed
  then show ?thesis by simp
qed

text \<open>
  \<open>snrt_dma_start_1d\<close> and then \<open>snrt_dma_wait_all\<close> on an idle engine is a memory copy of \<open>sz\<close>
  bytes between regions that do not overlap: the engine ends idle, the destination holds what the
  source held, and no other byte changed. A size of zero starts no transfer and returns -1.
\<close>

theorem dma_start_1d_copies:
  assumes "pending s = []" "next_id s = completed_id s" and "makes_progress prog"
    and "wregion (wideptr h dst) (unat sz) \<inter> wregion (wideptr h src) (unat sz) = {}"
    and start: "snrt_dma_start_1d h dst src sz s = (tid, s1)"
  shows "\<exists>t. snrt_dma_wait_all prog s1 = Some t \<and> pending t = [] \<and>
    tid = (if sz = 0 then -1 else next_id s) \<and>
    (\<forall>x. dma_mem t x = (if unat (x - wideptr h dst) < unat sz
       then dma_mem s (wideptr h src + (x - wideptr h dst)) else dma_mem s x))"
proof (cases "sz = 0")
  case True
  then have "s1 = s" "tid = -1"
    using start by (simp_all add: snrt_dma_start_1d_def snrt_dma_start_1d_wideptr_def)
  moreover have "dma_inv s" using assms(1,2) by (simp add: dma_inv_def)
  ultimately show ?thesis using dma_wait_all_done [of s prog] assms(1,3) True by auto
next
  case False
  then have "0 < sz" by (simp add: word_neq_0_conv)
  note eq = start_1d_wideptr_eq [OF this]
  have tid: "tid = next_id s" and p: "pending s1 = [\<lparr>rq_src = wideptr h src, rq_dst = wideptr h dst,
      rq_size = sz, rq_src_stride = fe_src_stride s, rq_dst_stride = fe_dst_stride s, rq_reps = 1\<rparr>]"
    and n: "next_id s1 = next_id s + 1" "completed_id s1 = completed_id s" "dma_mem s1 = dma_mem s"
    using start assms(1) by (auto simp: snrt_dma_start_1d_def eq)
  have "dma_inv s1" using p n assms(2) by (simp add: dma_inv_def)
  then obtain t where t: "snrt_dma_wait_all prog s1 = Some t" "pending t = []"
    "dma_mem t = run_request (hd (pending s1)) (dma_mem s)"
    using dma_wait_all_done [OF _ assms(3)] p n by fastforce
  have "unat sz \<le> 2 ^ 64" using unat_u32_bound [of sz] by simp
  then have "dma_mem t x = (if unat (x - wideptr h dst) < unat sz
       then dma_mem s (wideptr h src + (x - wideptr h dst)) else dma_mem s x)" for x
    using copy_row_eq [of "unat sz"] assms(4) by (simp add: t(3) p run_request_def for_up_def)
  with t(1,2) tid False show ?thesis by auto
qed

definition demo_dma_hart :: hart where
  "demo_dma_hart = \<lparr>csr_mhartid = 0, csr_base_addr_l = 0x10000000, csr_base_addr_h = 0,
     csr_cluster_core_id = 0\<rparr>"

definition demo_dma :: dma where
  "demo_dma = \<lparr>fe_src = 0, fe_dst = 0, fe_src_stride = 0, fe_dst_stride = 0, fe_reps = 0,
     next_id = -1, completed_id = -1, pending = [], dma_mem = (\<lambda>a. ucast a), dma_now = 0\<rparr>"

lemma makes_progress_const: "makes_progress (\<lambda>_. Suc n)"
  by (auto simp: makes_progress_def)

theorem dma_wait_done_witness:
  "\<exists>t. snrt_dma_wait (\<lambda>_. 1) (-1) (snd (snrt_dma_start_1d_wideptr 100 200 8 demo_dma)) = Some t \<and>
     dma_mem t 103 = 203"
proof -
  let ?s = "snd (snrt_dma_start_1d_wideptr 100 200 8 demo_dma)"
  have s: "pending ?s = [\<lparr>rq_src = 200, rq_dst = 100, rq_size = 8, rq_src_stride = 0,
      rq_dst_stride = 0, rq_reps = 1\<rparr>]" "completed_id ?s = -1" "next_id ?s = 0"
    "dma_mem ?s = (\<lambda>a. ucast a)"
    by (simp_all add: start_1d_wideptr_eq demo_dma_def)
  then have "dma_inv ?s" by (simp add: dma_inv_def)
  then obtain t k where t: "snrt_dma_wait (\<lambda>_. 1) (-1) ?s = Some t" "0 < k" "finished k ?s t"
    using dma_wait_done [of ?s 0 "-1" "\<lambda>_. 1"] s makes_progress_const [of 0] by auto
  then have k: "k = 1" using s by (auto simp: finished_def)
  have "dma_mem t 103 = 203"
    using t(3) by (simp add: k finished_def s run_request_def copy_row_def for_up_def upt_rec)
  with t(1) show ?thesis by blast
qed

theorem dma_start_1d_copies_witness:
  "\<exists>t. snrt_dma_wait_all (\<lambda>_. 1) (snd (snrt_dma_start_1d demo_dma_hart 100 200 8 demo_dma)) = Some t \<and>
     dma_mem t 103 = 203 \<and> dma_mem t 108 = 108"
proof -
  let ?s1 = "snd (snrt_dma_start_1d demo_dma_hart 100 200 8 demo_dma)"
  have w: "wideptr demo_dma_hart p = ucast p" for p
    by (simp add: wideptr_def demo_dma_hart_def snrt_cluster_base_addrh_def)
  have d: "wregion 100 8 \<inter> wregion 200 8 = {}"
  proof -
    have "\<not> unat (x - 100 :: u64) < 8" if "unat (x - 200) < 8" for x
    proof -
      have "x - 100 = (x - 200) + 100" by simp
      also have "unat \<dots> = unat (x - 200) + unat (100 :: u64)"
        by (rule unat_add_small) (use that in simp)
      finally show ?thesis by simp
    qed
    then show ?thesis by (auto simp: wregion_def)
  qed
  have "snrt_dma_start_1d demo_dma_hart 100 200 8 demo_dma = (-1, ?s1)"
    by (simp add: snrt_dma_start_1d_def start_1d_wideptr_eq demo_dma_def)
  from dma_start_1d_copies [OF _ _ makes_progress_const [of 0] _ this] d
  obtain t where "snrt_dma_wait_all (\<lambda>_. 1) ?s1 = Some t"
    "\<forall>x. dma_mem t x = (if unat (x - 100) < 8 then ucast (200 + (x - 100)) else ucast x)"
    by (auto simp: demo_dma_def w)
  then show ?thesis by auto
qed

text \<open>Rows of 64 bytes, copied from the first.\<close>

lemma memset_rows:
  assumes "64 * n < 2 ^ 64" and "\<forall>x. m x = (if unat (x - p) < 64 then v else m0 x)"
  shows "for_up 0 n (\<lambda>j. copy_row (p + word_of_nat j * 64) p 64) m x =
    (if unat (x - p) < max 64 (64 * n) then v else m0 x)"
proof -
  let ?I = "\<lambda>j t. j \<le> n \<longrightarrow> (\<forall>x. t x = (if unat (x - p) < max 64 (64 * j) then v else m0 x))"
  have "?I n (for_up 0 n (\<lambda>j. copy_row (p + word_of_nat j * 64) p 64) m)"
  proof (rule for_up_inv [where I = ?I])
    show "?I 0 m" using assms(2) by simp
    show "0 \<le> n" by simp
  next
    fix j t
    assume j: "j < n" and I: "?I j t"
    have row: "unat (x - (p + word_of_nat j * 64)) < 64 \<longleftrightarrow>
        64 * j \<le> unat (x - p) \<and> unat (x - p) < 64 * j + 64" for x
      using addr_shift(1) [of "64 * j" 64 x p] j assms(1) by (simp add: mult.commute)
    have d: "p + word_of_nat j * 64 = p \<or>
        wregion (p + word_of_nat j * 64) 64 \<inter> wregion p 64 = {}"
      using row by (cases "j = 0") (auto simp: wregion_def)
    have first: "t (p + y) = v" if "unat y < 64" for y
      using I j that by (simp add: less_max_iff_disj)
    show "?I (Suc j) (copy_row (p + word_of_nat j * 64) p 64 t)"
    proof (intro impI allI)
      fix x
      have "copy_row (p + word_of_nat j * 64) p 64 t x =
          (if unat (x - (p + word_of_nat j * 64)) < 64 then v else t x)"
        using copy_row_eq [OF _ d, of t x] first [of "x - (p + word_of_nat j * 64)"]
        by (cases "unat (x - (p + word_of_nat j * 64)) < 64") (simp_all only: if_True if_False, simp_all)
      then show "copy_row (p + word_of_nat j * 64) p 64 t x =
          (if unat (x - p) < max 64 (64 * Suc j) then v else m0 x)"
        using I j by (auto simp: row)
    qed
  qed
  then show ?thesis by simp
qed

text \<open>
  What \<open>snrt_dma_memset\<close> sets. On an idle engine that makes progress it returns, and the bytes
  set to the value are the first 64, and the first multiple of 64 that \<open>len\<close> holds: exactly \<open>len\<close>
  bytes when \<open>len\<close> is a positive multiple of 64, too few when it is not, and bytes behind the
  region when it is less than 64.
\<close>

theorem dma_memset_region:
  assumes "pending s = []" "next_id s = completed_id s" and "makes_progress prog"
  shows "\<exists>t. snrt_dma_memset prog h ptr v len s = Some t \<and>
    (\<forall>x. dma_mem t x = (if unat (x - wideptr h ptr) < max 64 (64 * (unat len div 64))
       then v else dma_mem s x))"
proof -
  let ?p = "wideptr h ptr"
  let ?m = "for_up 0 64 (\<lambda>i m. m(?p + word_of_nat i := v)) (dma_mem s)"
  have m: "?m x = (if unat (x - ?p) < 64 then v else dma_mem s x)" for x
  proof -
    have "for_up 0 n (\<lambda>i m. m(?p + word_of_nat i := v)) m0 x = (if unat (x - ?p) < n then v else m0 x)"
      if "n \<le> 64" for n m0
      using that
    proof (induction n)
      case (Suc n)
      have "(x = ?p + word_of_nat n) \<longleftrightarrow> unat (x - ?p) = n"
        by (rule addr_eq_iff) (use Suc.prems in simp)
      with Suc show ?case by (auto simp: for_up_Suc less_Suc_eq)
    qed simp
    then show ?thesis by simp
  qed
  define s2 where "s2 = snd (snrt_dma_start_2d h ptr ptr 64 64 0 (len div 64) (s\<lparr>dma_mem := ?m\<rparr>))"
  have s2: "pending s2 = [\<lparr>rq_src = ?p, rq_dst = ?p, rq_size = 64, rq_src_stride = 0,
      rq_dst_stride = 64, rq_reps = len div 64\<rparr>]" "dma_mem s2 = ?m"
      "next_id s2 = next_id s + 1" "completed_id s2 = completed_id s"
    using assms(1) by (simp_all add: s2_def snrt_dma_start_2d_def start_2d_wideptr_eq)
  have "dma_inv s2" using s2 assms(2) by (simp add: dma_inv_def)
  then obtain t where t: "snrt_dma_wait_all prog s2 = Some t"
    "dma_mem t = run_request (hd (pending s2)) ?m"
    using dma_wait_all_done [OF _ assms(3)] s2 by fastforce
  have "snrt_dma_memset prog h ptr v len s = snrt_dma_wait_all prog s2"
    by (simp add: snrt_dma_memset_def s2_def case_prod_beta Let_def)
  moreover have "dma_mem t x = (if unat (x - ?p) < max 64 (64 * (unat len div 64)) then v else dma_mem s x)" for x
  proof -
    have "64 * (unat len div 64) < 2 ^ 64" using unat_u32_bound [of len] by simp
    from memset_rows [OF this, of ?m ?p v "dma_mem s" x] m
    show ?thesis by (simp add: t(2) s2(1) run_request_def unat_div)
  qed
  ultimately show ?thesis using t(1) by auto
qed

theorem dma_memset_region_witness:
  "\<exists>t. snrt_dma_memset (\<lambda>_. 1) demo_dma_hart 0 7 130 demo_dma = Some t \<and>
     dma_mem t 127 = 7 \<and> dma_mem t 128 = 128 \<and>
   (\<exists>t. snrt_dma_memset (\<lambda>_. 1) demo_dma_hart 0 7 8 demo_dma = Some t \<and> dma_mem t 63 = 7)"
proof -
  have w: "wideptr demo_dma_hart 0 = 0"
    by (simp add: wideptr_def demo_dma_hart_def snrt_cluster_base_addrh_def)
  have "makes_progress (\<lambda>_. 1)" using makes_progress_const [of 0] by simp
  note region = dma_memset_region [of demo_dma "\<lambda>_. 1" demo_dma_hart 0 7, OF _ _ this]
  obtain t where "snrt_dma_memset (\<lambda>_. 1) demo_dma_hart 0 7 130 demo_dma = Some t"
    "\<forall>x. dma_mem t x = (if unat x < 128 then 7 else ucast x)"
    using region [of 130] by (auto simp: demo_dma_def w)
  moreover obtain t' where "snrt_dma_memset (\<lambda>_. 1) demo_dma_hart 0 7 8 demo_dma = Some t'"
    "\<forall>x. dma_mem t' x = (if unat x < 64 then 7 else ucast x)"
    using region [of 8] by (auto simp: demo_dma_def w)
  ultimately show ?thesis by auto
qed

end
