(* ===== verification/Dm.thy ===== *)
theory Dm
  imports Alloc
begin

text \<open>
  The data mover (sw/snRuntime/src/dm.h): the compute cores queue DMA commands in a ring of four
  tasks in the cluster's memory, and the DM core's main loop takes them out, starts the transfers
  and answers status requests. The DMA itself (the compiler's \<open>__builtin_sdma\<close> intrinsics) is
  modelled by the commands the loop gives it and by whether it reports busy.
\<close>

section \<open>State\<close>

definition DM_TASK_QUEUE_SIZE :: u32 where
  "DM_TASK_QUEUE_SIZE = 4"

record dm_task =
  t_src :: u64
  t_dst :: u64
  t_size :: u32
  t_sstrd :: u32
  t_dstrd :: u32
  t_nreps :: u32
  t_cfg :: u32
  t_twod :: u32

text \<open>The requests of a compute core; the value 0 of the C variable is no request.\<close>

datatype en_stat = STAT_NONE | STAT_WAIT_IDLE | STAT_EXIT | STAT_READY

record dm =
  queue :: "dm_task list"
  queue_back :: u32
  queue_front :: u32
  queue_fill :: u32
  stat_q :: en_stat
  stat_p :: u32
  stat_pvalid :: u32
  dm_wfi :: u32

text \<open>The two commands of the DMA.\<close>

datatype sdma_cmd =
    Oned u64 u64 u32 u32
  | Twod u64 u64 u32 u32 u32 u32 u32

definition zero_task :: dm_task where
  "zero_task = \<lparr>t_src = 0, t_dst = 0, t_size = 0, t_sstrd = 0, t_dstrd = 0, t_nreps = 0, t_cfg = 0,
     t_twod = 0\<rparr>"

text \<open>\<open>dm_init\<close> on the DM core: the structure is allocated in L1 and cleared.\<close>

definition sizeof_dm :: u32 where
  "sizeof_dm = 4 * 40 + 8 * 4"

definition cleared_dm :: dm where
  "cleared_dm = \<lparr>queue = replicate 4 zero_task, queue_back = 0, queue_front = 0, queue_fill = 0,
     stat_q = STAT_NONE, stat_p = 0, stat_pvalid = 0, dm_wfi = 0\<rparr>"

definition dm_init :: "allocators \<Rightarrow> u32 \<times> allocators \<times> dm" where
  "dm_init a = (let (dm_p, a') = snrt_l1alloc sizeof_dm a in (dm_p, a', cleared_dm))"

section \<open>The queue operations\<close>

text \<open>
  The critical sections of \<open>dm_memcpy_async\<close> and \<open>dm_memcpy2d_async\<close>, in their statements: the
  task is written, then the fill and the front are bumped. A 1D copy leaves the strides and the
  repetitions of the slot as they were.
\<close>

definition write_1d :: "u64 \<Rightarrow> u64 \<Rightarrow> u32 \<Rightarrow> dm \<Rightarrow> dm" where
  "write_1d dest src n d =
     (let i = unat (queue_front d)
      in d\<lparr>queue := (queue d)[i := (queue d ! i)\<lparr>t_src := src, t_dst := dest, t_size := n,
           t_twod := 0, t_cfg := 0\<rparr>]\<rparr>)"

definition write_2d :: "u64 \<Rightarrow> u64 \<Rightarrow> u32 \<Rightarrow> u32 \<Rightarrow> u32 \<Rightarrow> u32 \<Rightarrow> u32 \<Rightarrow> dm \<Rightarrow> dm" where
  "write_2d src dst sz sstrd dstrd nreps cfg d =
     (let i = unat (queue_front d)
      in d\<lparr>queue := (queue d)[i := (queue d ! i)\<lparr>t_src := src, t_dst := dst, t_size := sz,
           t_sstrd := sstrd, t_dstrd := dstrd, t_nreps := nreps, t_twod := 1, t_cfg := cfg\<rparr>]\<rparr>)"

definition bump_fill :: "dm \<Rightarrow> dm" where
  "bump_fill d = d\<lparr>queue_fill := queue_fill d + 1\<rparr>"

definition bump_front :: "dm \<Rightarrow> dm" where
  "bump_front d = d\<lparr>queue_front := (queue_front d + 1) mod DM_TASK_QUEUE_SIZE\<rparr>"

definition write_cmd :: "sdma_cmd \<Rightarrow> dm \<Rightarrow> dm" where
  "write_cmd c = (case c of
     Oned src dst n cfg \<Rightarrow> write_1d dst src n
   | Twod src dst n sstrd dstrd nreps cfg \<Rightarrow> write_2d src dst n sstrd dstrd nreps cfg)"

text \<open>A 1D command queued by a core has configuration 0.\<close>

fun queueable :: "sdma_cmd \<Rightarrow> bool" where
  "queueable (Oned src dst n cfg) \<longleftrightarrow> cfg = 0"
| "queueable (Twod src dst n sstrd dstrd nreps cfg) \<longleftrightarrow> True"

definition dm_enqueue :: "sdma_cmd \<Rightarrow> dm \<Rightarrow> dm" where
  "dm_enqueue c d = bump_front (bump_fill (write_cmd c d))"

definition dm_memcpy_async :: "u64 \<Rightarrow> u64 \<Rightarrow> u32 \<Rightarrow> dm \<Rightarrow> dm option" where
  "dm_memcpy_async dest src n d =
     (if queue_fill d \<ge> DM_TASK_QUEUE_SIZE then None else Some (dm_enqueue (Oned src dest n 0) d))"

definition dm_memcpy2d_async ::
  "u64 \<Rightarrow> u64 \<Rightarrow> u32 \<Rightarrow> u32 \<Rightarrow> u32 \<Rightarrow> u32 \<Rightarrow> u32 \<Rightarrow> dm \<Rightarrow> dm option" where
  "dm_memcpy2d_async src dst sz sstrd dstrd nreps cfg d =
     (if queue_fill d \<ge> DM_TASK_QUEUE_SIZE then None
      else Some (dm_enqueue (Twod src dst sz sstrd dstrd nreps cfg) d))"

text \<open>The DM core's side: the command in the oldest task, and the bump of the back.\<close>

definition cmd_of :: "dm_task \<Rightarrow> sdma_cmd" where
  "cmd_of t = (if t_twod t \<noteq> 0
     then Twod (t_src t) (t_dst t) (t_size t) (t_sstrd t) (t_dstrd t) (t_nreps t) (t_cfg t)
     else Oned (t_src t) (t_dst t) (t_size t) (t_cfg t))"

definition front_cmd :: "dm \<Rightarrow> sdma_cmd" where
  "front_cmd d = cmd_of (queue d ! unat (queue_back d))"

definition bump_back :: "dm \<Rightarrow> dm" where
  "bump_back d = d\<lparr>queue_back := (queue_back d + 1) mod DM_TASK_QUEUE_SIZE\<rparr>"

definition drop_fill :: "dm \<Rightarrow> dm" where
  "drop_fill d = d\<lparr>queue_fill := queue_fill d - 1\<rparr>"

definition dm_dequeue :: "dm \<Rightarrow> dm" where
  "dm_dequeue d = drop_fill (bump_back d)"

section \<open>The main loop\<close>

text \<open>
  One turn of \<open>dm_main\<close>'s loop, with what the DMA reports when asked whether it is busy: the new
  state, the command given to the DMA, whether the loop ends, and whether the core goes to sleep.
\<close>

definition answer_stat :: "bool \<Rightarrow> dm \<Rightarrow> dm \<times> bool" where
  "answer_stat busy d = (case stat_q d of
     STAT_NONE \<Rightarrow> (d, False)
   | STAT_WAIT_IDLE \<Rightarrow> (if busy then d else d\<lparr>stat_pvalid := 1, stat_q := STAT_NONE\<rparr>, False)
   | STAT_EXIT \<Rightarrow> (d, True)
   | STAT_READY \<Rightarrow> (d\<lparr>stat_pvalid := 1, stat_q := STAT_NONE\<rparr>, False))"

definition dm_main_turn :: "bool \<Rightarrow> dm \<Rightarrow> sdma_cmd list \<times> dm \<times> bool \<times> bool" where
  "dm_main_turn busy d =
     (let (cmds, d1) = (if queue_fill d \<noteq> 0 then ([front_cmd d], dm_dequeue d) else ([], d));
          (d2, do_exit) = answer_stat busy d1
      in (cmds, d2, do_exit, queue_fill d2 = 0 \<and> stat_q d2 = STAT_NONE))"

text \<open>
  The loop over the answers of the DMA: the commands given to it, the final state, and whether the
  loop has ended (it takes one answer per turn, and stops when they run out).
\<close>

fun dm_main :: "bool list \<Rightarrow> dm \<Rightarrow> sdma_cmd list \<times> dm \<times> bool" where
  "dm_main [] d = ([], d, False)"
| "dm_main (busy # bs) d =
     (let (cmds, d', do_exit, asleep) = dm_main_turn busy d
      in if do_exit then (cmds, d', True)
         else let (cmds', d'', ended) = dm_main bs d' in (cmds @ cmds', d'', ended))"

text \<open>The requests of the compute cores.\<close>

definition dm_exit :: "dm \<Rightarrow> dm" where
  "dm_exit d = d\<lparr>stat_q := STAT_EXIT\<rparr>"

definition request_idle :: "dm \<Rightarrow> dm" where
  "request_idle d = d\<lparr>stat_pvalid := 0, stat_q := STAT_WAIT_IDLE\<rparr>"

definition request_ready :: "dm \<Rightarrow> dm" where
  "request_ready d = d\<lparr>stat_pvalid := 0, stat_q := STAT_READY\<rparr>"

section \<open>The ring refines a bounded queue\<close>

definition slot :: "nat \<Rightarrow> dm \<Rightarrow> nat" where
  "slot i d = (unat (queue_back d) + i) mod 4"

definition contents :: "dm \<Rightarrow> sdma_cmd list" where
  "contents d = map (\<lambda>i. cmd_of (queue d ! slot i d)) [0..<unat (queue_fill d)]"

definition ring_wf :: "dm \<Rightarrow> bool" where
  "ring_wf d \<longleftrightarrow> length (queue d) = 4 \<and> unat (queue_back d) < 4 \<and> unat (queue_fill d) \<le> 4 \<and>
     unat (queue_front d) = slot (unat (queue_fill d)) d"

lemma mod_queue_size: "unat ((x + 1) mod DM_TASK_QUEUE_SIZE) = (unat x + 1) mod 4"
  if "unat x < 4" for x :: u32
  using that by (simp add: DM_TASK_QUEUE_SIZE_def unat_mod unat_add_small)

lemma length_contents [simp]: "length (contents d) = unat (queue_fill d)"
  by (simp add: contents_def)

lemma cmd_of_write:
  assumes "queueable c" and "unat (queue_front d) < length (queue d)"
  shows "cmd_of (queue (write_cmd c d) ! unat (queue_front d)) = c"
  using assms by (cases c) (simp_all add: write_cmd_def write_1d_def write_2d_def cmd_of_def Let_def)

lemma write_cmd_frame [simp]:
  "length (queue (write_cmd c d)) = length (queue d)"
  "queue_back (write_cmd c d) = queue_back d" "queue_front (write_cmd c d) = queue_front d"
  "queue_fill (write_cmd c d) = queue_fill d" "stat_q (write_cmd c d) = stat_q d"
  "stat_pvalid (write_cmd c d) = stat_pvalid d"
  by (cases c, simp_all add: write_cmd_def write_1d_def write_2d_def Let_def)+

lemma write_cmd_other:
  "j \<noteq> unat (queue_front d) \<Longrightarrow> queue (write_cmd c d) ! j = queue d ! j"
  by (cases c) (simp_all add: write_cmd_def write_1d_def write_2d_def Let_def)

lemma dm_enqueue_frame [simp]:
  "queue (dm_enqueue c d) = queue (write_cmd c d)" "queue_back (dm_enqueue c d) = queue_back d"
  "queue_fill (dm_enqueue c d) = queue_fill d + 1" "stat_q (dm_enqueue c d) = stat_q d"
  "queue_front (dm_enqueue c d) = (queue_front d + 1) mod DM_TASK_QUEUE_SIZE"
  by (simp_all add: dm_enqueue_def bump_front_def bump_fill_def)

lemma dm_dequeue_frame [simp]:
  "queue (dm_dequeue d) = queue d" "queue_back (dm_dequeue d) = (queue_back d + 1) mod DM_TASK_QUEUE_SIZE"
  "queue_fill (dm_dequeue d) = queue_fill d - 1" "queue_front (dm_dequeue d) = queue_front d"
  "stat_q (dm_dequeue d) = stat_q d" "stat_pvalid (dm_dequeue d) = stat_pvalid d"
  by (simp_all add: dm_dequeue_def bump_back_def drop_fill_def)

lemma mod4_cancel: "i < 4 \<Longrightarrow> j < 4 \<Longrightarrow> (b + i) mod 4 = (b + j) mod 4 \<longleftrightarrow> i = j" for b :: nat
proof (induction b)
  case (Suc b)
  have "(Suc b + i) mod 4 = (Suc b + j) mod 4 \<longleftrightarrow> (b + i) mod 4 = (b + j) mod 4"
    by (auto simp: mod_Suc split: if_splits)
  then show ?case using Suc by simp
qed simp

lemma slot_inj: "i < 4 \<Longrightarrow> j < 4 \<Longrightarrow> slot i d = slot j d \<longleftrightarrow> i = j"
  unfolding slot_def by (rule mod4_cancel)

lemma unat_Suc_fill: "unat (queue_fill d) < 4 \<Longrightarrow> unat (queue_fill d + 1) = Suc (unat (queue_fill d))"
  by (simp add: unat_add_small)

lemma ring_enqueue:
  assumes wf: "ring_wf d" and room: "unat (queue_fill d) < 4" and c: "queueable c"
  shows "ring_wf (dm_enqueue c d) \<and> contents (dm_enqueue c d) = contents d @ [c]"
proof -
  let ?k = "unat (queue_fill d)"
  have f: "unat (queue_front d) = slot ?k d" using wf by (simp add: ring_wf_def)
  have f4: "unat (queue_front d) < 4" by (simp add: f slot_def)
  have sl: "slot i (dm_enqueue c d) = slot i d" for i by (simp add: slot_def)
  have "ring_wf (dm_enqueue c d)"
    using wf room f4 mod_queue_size [OF f4] f
    by (simp add: ring_wf_def unat_Suc_fill sl) (simp add: slot_def mod_Suc_eq)
  moreover have "contents (dm_enqueue c d) = contents d @ [c]"
  proof -
    have "cmd_of (queue (write_cmd c d) ! slot i d) = cmd_of (queue d ! slot i d)" if "i < ?k" for i
      using slot_inj [of i ?k d] that room by (simp add: write_cmd_other f)
    moreover have "cmd_of (queue (write_cmd c d) ! slot ?k d) = c"
      using cmd_of_write [OF c, of d] wf f4 by (simp add: f [symmetric] ring_wf_def)
    ultimately show ?thesis by (simp add: contents_def unat_Suc_fill [OF room] sl)
  qed
  ultimately show ?thesis by blast
qed

lemma ring_dequeue:
  assumes wf: "ring_wf d" and ne: "queue_fill d \<noteq> 0"
  shows "ring_wf (dm_dequeue d) \<and> contents (dm_dequeue d) = tl (contents d) \<and>
    front_cmd d = hd (contents d)"
proof -
  have pos: "0 < unat (queue_fill d)" using ne by (simp add: unat_0_iff neq0_conv [symmetric])
  then obtain k where k: "unat (queue_fill d) = Suc k" by (cases "unat (queue_fill d)") auto
  have k': "unat (queue_fill d - 1) = k"
    using k ne by (simp add: unat_minus_one)
  have b: "unat (queue_back d) < 4" using wf by (simp add: ring_wf_def)
  have sl: "slot i (dm_dequeue d) = slot (Suc i) d" for i
    using mod_queue_size [OF b] by (simp add: slot_def mod_simps)
  have "ring_wf (dm_dequeue d)"
    using wf mod_queue_size [OF b] by (simp add: ring_wf_def k k' sl)
  moreover have "contents (dm_dequeue d) = tl (contents d)"
    by (simp add: contents_def k k' sl map_upt_Suc del: upt_Suc)
  moreover have "front_cmd d = hd (contents d)"
    using b by (simp add: front_cmd_def contents_def k slot_def upt_conv_Cons del: upt_Suc)
  ultimately show ?thesis by blast
qed

interpretation ring: bounded_queue dm_enqueue front_cmd dm_dequeue contents ring_wf queueable 4
proof
  fix d c
  have nz: "queue_fill d \<noteq> 0" if "contents d \<noteq> []"
    using that by (auto simp: contents_def)
  show "ring_wf d \<Longrightarrow> length (contents d) \<le> 4" by (simp add: ring_wf_def)
  show "ring_wf d \<Longrightarrow> length (contents d) < 4 \<Longrightarrow> queueable c \<Longrightarrow> ring_wf (dm_enqueue c d)"
    using ring_enqueue by simp
  show "ring_wf d \<Longrightarrow> length (contents d) < 4 \<Longrightarrow> queueable c \<Longrightarrow>
      contents (dm_enqueue c d) = contents d @ [c]"
    using ring_enqueue by simp
  show "ring_wf d \<Longrightarrow> contents d \<noteq> [] \<Longrightarrow> ring_wf (dm_dequeue d)"
    using ring_dequeue nz by simp
  show "ring_wf d \<Longrightarrow> contents d \<noteq> [] \<Longrightarrow> contents (dm_dequeue d) = tl (contents d)"
    using ring_dequeue nz by simp
  show "ring_wf d \<Longrightarrow> contents d \<noteq> [] \<Longrightarrow> front_cmd d = hd (contents d)"
    using ring_dequeue nz by simp
qed

lemma ring_wf_cleared: "ring_wf cleared_dm" "contents cleared_dm = []"
  by (simp_all add: ring_wf_def cleared_dm_def slot_def contents_def)

section \<open>Properties of the main loop\<close>

lemma dm_main_turn_queue:
  assumes "ring_wf d" and "contents d = c # cs" and "stat_q d = STAT_NONE"
  shows "\<exists>d'. dm_main_turn busy d = ([c], d', False, queue_fill d' = 0) \<and>
    ring_wf d' \<and> contents d' = cs \<and> stat_q d' = STAT_NONE"
proof -
  have "queue_fill d \<noteq> 0" using assms(2) by (auto simp: contents_def)
  then show ?thesis
    using assms ring.wf_deq [of d] ring.contents_deq [of d] ring.front_hd [of d]
    by (simp add: dm_main_turn_def answer_stat_def)
qed

lemma dm_main_empty:
  "contents d = [] \<Longrightarrow> stat_q d = STAT_NONE \<Longrightarrow> dm_main bs d = ([], d, False)"
proof (induction bs)
  case (Cons b bs)
  then have "queue_fill d = 0" by (metis length_contents list.size(3) unat_0_iff)
  with Cons show ?case by (simp add: dm_main_turn_def answer_stat_def)
qed simp

text \<open>
  C34: the queue is first in, first out. Commands queued while there is room are given to the DMA
  by the main loop exactly once, in the order in which they were queued, with all their
  parameters, as long as no status request is pending; the loop then has an empty queue.
\<close>

theorem dm_main_fifo:
  assumes "ring_wf d" and "stat_q d = STAT_NONE"
    and "length (contents d) + length cs \<le> 4" and "\<forall>c \<in> set cs. queueable c"
    and "length (contents d) + length cs \<le> length bs"
  shows "\<exists>d'. dm_main bs (fold dm_enqueue cs d) = (contents d @ cs, d', False) \<and>
    ring_wf d' \<and> contents d' = []"
proof -
  let ?e = "fold dm_enqueue cs d"
  have stat: "stat_q (fold dm_enqueue cs d) = stat_q d" for d
    by (induction cs arbitrary: d) simp_all
  have e: "ring_wf ?e" "contents ?e = contents d @ cs" "stat_q ?e = STAT_NONE"
    using ring.enq_list [OF assms(1,3,4)] stat assms(2) by simp_all
  have "\<exists>d'. dm_main bs e = (contents e, d', False) \<and> ring_wf d' \<and> contents d' = []"
    if "ring_wf e" "stat_q e = STAT_NONE" "length (contents e) \<le> length bs" for e
    using that
  proof (induction bs arbitrary: e)
    case Nil
    then have "contents e = []" by (simp del: length_contents)
    with Nil show ?case by simp
  next
    case (Cons b bs)
    show ?case
    proof (cases "contents e")
      case Nil
      then show ?thesis using Cons.prems dm_main_empty [of e "b # bs"] by simp
    next
      case (Cons c cs')
      then obtain e' where e': "dm_main_turn b e = ([c], e', False, queue_fill e' = 0)"
        "ring_wf e'" "contents e' = cs'" "stat_q e' = STAT_NONE"
        using dm_main_turn_queue Cons.prems by blast
      have "length (contents e') \<le> length bs" using e'(3) Cons Cons.prems(3) by (simp del: length_contents)
      then show ?thesis using Cons.IH [of e'] e' Cons by auto
    qed
  qed
  from this [OF e(1,3)] e(2) assms(5) show ?thesis by (simp del: length_contents)
qed

theorem dm_main_fifo_witness:
  "\<exists>d'. dm_main [True, False, True] (fold dm_enqueue [Oned 1 2 3 0, Twod 4 5 6 7 8 9 1] cleared_dm) =
     ([Oned 1 2 3 0, Twod 4 5 6 7 8 9 1], d', False)"
proof -
  have stat: "stat_q cleared_dm = STAT_NONE" by (simp add: cleared_dm_def)
  show ?thesis
    using dm_main_fifo [OF ring_wf_cleared(1) stat, of "[Oned 1 2 3 0, Twod 4 5 6 7 8 9 1]" "[True, False, True]"]
    by (simp add: ring_wf_cleared(2) del: fold.simps dm_main.simps length_contents) blast
qed

text \<open>
  \<open>dm_exit\<close> abandons queued work. With the exit request posted, the main loop starts only the
  oldest queued command and ends; the others stay in the queue and are never started.
\<close>

theorem dm_exit_abandons:
  assumes "ring_wf d" and "contents d = c # cs"
  shows "\<exists>d'. dm_main (busy # bs) (dm_exit d) = ([c], d', True) \<and> contents d' = cs"
proof -
  let ?e = "dm_exit d"
  have e: "ring_wf ?e" "contents ?e = c # cs" "stat_q ?e = STAT_EXIT"
    using assms by (simp_all add: dm_exit_def ring_wf_def contents_def slot_def)
  then have "queue_fill ?e \<noteq> 0" by (auto simp: contents_def)
  then show ?thesis
    using e ring.contents_deq [of ?e] ring.front_hd [of ?e]
    by (simp add: dm_main_turn_def answer_stat_def)
qed

theorem dm_exit_abandons_witness:
  "\<exists>d'. dm_main [False, False, False] (dm_exit (fold dm_enqueue [Oned 1 2 3 0, Oned 4 5 6 0] cleared_dm)) =
     ([Oned 1 2 3 0], d', True) \<and> contents d' = [Oned 4 5 6 0]"
  by (rule dm_exit_abandons)
    (use ring.enq_list [of cleared_dm "[Oned 1 2 3 0, Oned 4 5 6 0]"] ring_wf_cleared in auto)

section \<open>Producers and the DM core, interleaved\<close>

text \<open>
  A producer polls the fill, takes the mutex, writes the task, bumps the fill and the front and
  gives the mutex back; the DM core starts the oldest task and bumps the back, then lowers the
  fill. The mutex is the one of the lock theory, taken and given in one step. \<open>sent\<close> and \<open>started\<close>
  record the commands written and started; no code reads them.
\<close>

datatype prod_pc = PIdle | PWants sdma_cmd | PRoom sdma_cmd | PHolds sdma_cmd | PWrote | PCounted | PDone

record dm_sys =
  ring :: dm
  mutex_held :: bool
  prod :: "nat \<Rightarrow> prod_pc"
  bumped_back :: bool
  sent :: "sdma_cmd list"
  started :: "sdma_cmd list"

definition p_goto :: "nat \<Rightarrow> prod_pc \<Rightarrow> dm_sys \<Rightarrow> dm_sys" where
  "p_goto p l s = s\<lparr>prod := (prod s)(p := l)\<rparr>"

definition producer_step :: "nat \<Rightarrow> dm_sys \<Rightarrow> dm_sys option" where
  "producer_step p s = (case prod s p of
     PIdle \<Rightarrow> None
   | PWants c \<Rightarrow> if queue_fill (ring s) \<ge> DM_TASK_QUEUE_SIZE then None else Some (p_goto p (PRoom c) s)
   | PRoom c \<Rightarrow> if mutex_held s then None else Some (p_goto p (PHolds c) (s\<lparr>mutex_held := True\<rparr>))
   | PHolds c \<Rightarrow> Some (p_goto p PWrote (s\<lparr>ring := write_cmd c (ring s), sent := sent s @ [c]\<rparr>))
   | PWrote \<Rightarrow> Some (p_goto p PCounted (s\<lparr>ring := bump_fill (ring s)\<rparr>))
   | PCounted \<Rightarrow> Some (p_goto p PDone (s\<lparr>ring := bump_front (ring s)\<rparr>))
   | PDone \<Rightarrow> Some (p_goto p PIdle (s\<lparr>mutex_held := False\<rparr>)))"

definition consumer_step :: "dm_sys \<Rightarrow> dm_sys option" where
  "consumer_step s =
     (if bumped_back s then Some (s\<lparr>ring := drop_fill (ring s), bumped_back := False\<rparr>)
      else if queue_fill (ring s) \<noteq> 0
      then Some (s\<lparr>started := started s @ [front_cmd (ring s)], ring := bump_back (ring s),
                   bumped_back := True\<rparr>)
      else None)"

datatype dm_action = Submit nat sdma_cmd | Producer nat | DmCore

definition dm_act :: "dm_action \<Rightarrow> dm_sys \<Rightarrow> dm_sys option" where
  "dm_act a s = (case a of
     Submit p c \<Rightarrow> if prod s p = PIdle \<and> queueable c then Some (p_goto p (PWants c) s) else None
   | Producer p \<Rightarrow> producer_step p s
   | DmCore \<Rightarrow> consumer_step s)"

fun acts_in :: "nat set \<Rightarrow> dm_action \<Rightarrow> bool" where
  "acts_in P (Submit p c) \<longleftrightarrow> p \<in> P"
| "acts_in P (Producer p) \<longleftrightarrow> p \<in> P"
| "acts_in P DmCore \<longleftrightarrow> True"

inductive dm_step :: "nat set \<Rightarrow> dm_sys \<Rightarrow> dm_sys \<Rightarrow> bool" for P where
  dm_stepI: "acts_in P a \<Longrightarrow> dm_act a s = Some t \<Longrightarrow> dm_step P s t"

fun dm_run :: "dm_action list \<Rightarrow> dm_sys \<Rightarrow> dm_sys option" where
  "dm_run [] s = Some s"
| "dm_run (a # as) s = Option.bind (dm_act a s) (dm_run as)"

lemma dm_run_steps:
  "dm_run as s = Some t \<Longrightarrow> \<forall>a \<in> set as. acts_in P a \<Longrightarrow> (dm_step P)\<^sup>*\<^sup>* s t"
  by (induction as arbitrary: s)
    (auto simp: bind_eq_Some_conv intro: converse_rtranclp_into_rtranclp dm_stepI)

definition dm_sys_start :: "dm_sys \<Rightarrow> bool" where
  "dm_sys_start s \<longleftrightarrow> ring s = cleared_dm \<and> \<not> mutex_held s \<and> (\<forall>p. prod s p = PIdle) \<and>
     \<not> bumped_back s \<and> sent s = [] \<and> started s = []"

definition dm_sys_reset :: dm_sys where
  "dm_sys_reset = \<lparr>ring = cleared_dm, mutex_held = False, prod = (\<lambda>_. PIdle), bumped_back = False,
     sent = [], started = []\<rparr>"

subsection \<open>One producer\<close>

fun wrote :: "prod_pc \<Rightarrow> nat" where
  "wrote PWrote = 1" | "wrote PCounted = 0" | "wrote PDone = 0" | "wrote PIdle = 0"
| "wrote (PWants c) = 0" | "wrote (PRoom c) = 0" | "wrote (PHolds c) = 0"

fun front_lag :: "prod_pc \<Rightarrow> nat" where
  "front_lag PWrote = 1" | "front_lag PCounted = 1" | "front_lag PDone = 0" | "front_lag PIdle = 0"
| "front_lag (PWants c) = 0" | "front_lag (PRoom c) = 0" | "front_lag (PHolds c) = 0"

fun room_for :: "prod_pc \<Rightarrow> nat" where
  "room_for (PRoom c) = 1" | "room_for (PHolds c) = 1" | "room_for (PWants c) = 0"
| "room_for PWrote = 0" | "room_for PCounted = 0" | "room_for PDone = 0" | "room_for PIdle = 0"

fun pc_cmd_ok :: "prod_pc \<Rightarrow> bool" where
  "pc_cmd_ok (PWants c) \<longleftrightarrow> queueable c" | "pc_cmd_ok (PRoom c) \<longleftrightarrow> queueable c"
| "pc_cmd_ok (PHolds c) \<longleftrightarrow> queueable c"
| "pc_cmd_ok PWrote \<longleftrightarrow> True" | "pc_cmd_ok PCounted \<longleftrightarrow> True" | "pc_cmd_ok PDone \<longleftrightarrow> True"
| "pc_cmd_ok PIdle \<longleftrightarrow> True"

text \<open>
  \<open>n\<close> commands started, \<open>k\<close> sent: the commands from \<open>n\<close> on lie in their slots, the counters say
  how many there are, and a producer that has seen room still has it.
\<close>

definition counts_ok :: "dm_sys \<Rightarrow> bool" where
  "counts_ok s \<longleftrightarrow>
     (let n = length (started s); k = length (sent s); l = prod s 0; b = (if bumped_back s then 1 else 0)
      in length (queue (ring s)) = 4 \<and>
         unat (queue_back (ring s)) = n mod 4 \<and>
         unat (queue_front (ring s)) = (k - front_lag l) mod 4 \<and> front_lag l \<le> k \<and>
         unat (queue_fill (ring s)) + wrote l + n = k + b \<and>
         n + wrote l \<le> k \<and> k + b + room_for l \<le> n + 4)"

definition slots_ok :: "dm_sys \<Rightarrow> bool" where
  "slots_ok s \<longleftrightarrow>
     (\<forall>i. length (started s) \<le> i \<longrightarrow> i < length (sent s) \<longrightarrow>
        cmd_of (queue (ring s) ! (i mod 4)) = sent s ! i) \<and>
     started s = take (length (started s)) (sent s)"

definition single_inv :: "dm_sys \<Rightarrow> bool" where
  "single_inv s \<longleftrightarrow> counts_ok s \<and> slots_ok s \<and> pc_cmd_ok (prod s 0)"

lemma single_inv_start: "dm_sys_start s \<Longrightarrow> single_inv s"
  by (simp add: dm_sys_start_def single_inv_def counts_ok_def slots_ok_def cleared_dm_def Let_def)

text \<open>The slots are untouched by all steps but the write and the start.\<close>

lemma slots_ok_same:
  "slots_ok s \<Longrightarrow> queue (ring t) = queue (ring s) \<Longrightarrow> sent t = sent s \<Longrightarrow> started t = started s \<Longrightarrow> slots_ok t"
  by (simp add: slots_ok_def)

lemma single_inv_call:
  assumes "single_inv s" and "prod s 0 = PIdle" and "queueable c"
  shows "single_inv (p_goto 0 (PWants c) s)"
proof -
  have "slots_ok (p_goto 0 (PWants c) s)"
    by (rule slots_ok_same [of s]) (use assms in \<open>simp_all add: single_inv_def p_goto_def\<close>)
  then show ?thesis using assms by (simp add: single_inv_def counts_ok_def p_goto_def Let_def)
qed

lemma fill_less: "\<not> DM_TASK_QUEUE_SIZE \<le> queue_fill d \<longleftrightarrow> unat (queue_fill d) < 4"
  by (simp add: DM_TASK_QUEUE_SIZE_def word_le_nat_alt not_le)

lemma slots_ok_write:
  assumes counts: "counts_ok s" and slots: "slots_ok s" and pc: "prod s 0 = PHolds c" and c: "queueable c"
  shows "slots_ok (p_goto 0 PWrote (s\<lparr>ring := write_cmd c (ring s), sent := sent s @ [c]\<rparr>))"
proof -
  let ?r = "ring s" and ?k = "length (sent s)" and ?n = "length (started s)"
  have f: "unat (queue_front ?r) = ?k mod 4" and len: "length (queue ?r) = 4"
    and room: "?k < ?n + 4" and nk: "?n \<le> ?k"
    using counts pc by (auto simp: counts_ok_def Let_def split: if_splits)
  have slot_k: "cmd_of (queue (write_cmd c ?r) ! (?k mod 4)) = c"
    using cmd_of_write [OF c, of ?r] len by (simp add: f)
  have other: "cmd_of (queue (write_cmd c ?r) ! (i mod 4)) = sent s ! i"
    if "?n \<le> i" "i < ?k" for i
  proof -
    have "i mod 4 \<noteq> ?k mod 4"
      using mod4_cancel [of 0 "?k - i" i] that room by simp
    then have "queue (write_cmd c ?r) ! (i mod 4) = queue ?r ! (i mod 4)"
      by (intro write_cmd_other) (simp add: f)
    then show ?thesis using slots that by (simp add: slots_ok_def)
  qed
  have all: "cmd_of (queue (write_cmd c ?r) ! (i mod 4)) = (sent s @ [c]) ! i"
    if "?n \<le> i" "i < Suc ?k" for i
    using that slot_k other [of i] by (cases "i = ?k") (simp_all add: nth_append)
  have "started s = take ?n (sent s)" using slots by (simp add: slots_ok_def)
  then have "started s = take ?n (sent s @ [c])" using nk by simp
  with all show ?thesis by (simp add: slots_ok_def p_goto_def)
qed

lemma single_inv_producer:
  assumes inv: "single_inv s" and st: "producer_step 0 s = Some t"
  shows "single_inv t"
proof -
  have counts: "counts_ok s" and slots: "slots_ok s" and ok: "pc_cmd_ok (prod s 0)"
    using inv by (simp_all add: single_inv_def)
  have same: "slots_ok u" if "queue (ring u) = queue (ring s)" "sent u = sent s" "started u = started s" for u
    using slots_ok_same [OF slots that] .
  show ?thesis
  proof (cases "prod s 0")
    case (PWants c)
    then have "unat (queue_fill (ring s)) < 4" and t: "t = p_goto 0 (PRoom c) s"
      using st fill_less [of "ring s"] by (auto simp: producer_step_def split: if_splits)
    then have "counts_ok t" using counts PWants by (simp add: counts_ok_def p_goto_def Let_def)
    moreover have "slots_ok t" by (rule same) (simp_all add: t p_goto_def)
    ultimately show ?thesis using ok PWants by (simp add: single_inv_def t p_goto_def)
  next
    case (PRoom c)
    then have t: "t = p_goto 0 (PHolds c) (s\<lparr>mutex_held := True\<rparr>)"
      using st by (simp add: producer_step_def split: if_splits)
    then have "counts_ok t" using counts PRoom by (simp add: counts_ok_def p_goto_def Let_def)
    moreover have "slots_ok t" by (rule same) (simp_all add: t p_goto_def)
    ultimately show ?thesis using ok PRoom by (simp add: single_inv_def t p_goto_def)
  next
    case (PHolds c)
    then have t: "t = p_goto 0 PWrote (s\<lparr>ring := write_cmd c (ring s), sent := sent s @ [c]\<rparr>)"
      using st by (simp add: producer_step_def)
    then have "counts_ok t" using counts PHolds
      by (auto simp: counts_ok_def p_goto_def Let_def split: if_splits)
    moreover have "slots_ok t" unfolding t by (rule slots_ok_write) (use counts slots PHolds ok in simp_all)
    ultimately show ?thesis by (simp add: single_inv_def t p_goto_def)
  next
    case PWrote
    then have t: "t = p_goto 0 PCounted (s\<lparr>ring := bump_fill (ring s)\<rparr>)"
      using st by (simp add: producer_step_def)
    have "unat (queue_fill (ring s)) < 4"
      using counts PWrote by (simp add: counts_ok_def Let_def split: if_splits)
    then have "unat (queue_fill (ring s) + 1) = Suc (unat (queue_fill (ring s)))" by (rule unat_Suc_fill)
    then have "counts_ok t" using counts PWrote
      by (simp add: counts_ok_def p_goto_def Let_def bump_fill_def t)
    moreover have "slots_ok t" by (rule same) (simp_all add: t p_goto_def bump_fill_def)
    ultimately show ?thesis by (simp add: single_inv_def t p_goto_def)
  next
    case PCounted
    then have t: "t = p_goto 0 PDone (s\<lparr>ring := bump_front (ring s)\<rparr>)"
      using st by (simp add: producer_step_def)
    have f: "unat (queue_front (ring s)) = (length (sent s) - 1) mod 4" "1 \<le> length (sent s)"
      using counts PCounted by (simp_all add: counts_ok_def Let_def)
    have "unat ((queue_front (ring s) + 1) mod DM_TASK_QUEUE_SIZE) = (length (sent s) - 1 + 1) mod 4"
      using mod_queue_size [of "queue_front (ring s)"] by (simp add: f(1) mod_simps)
    then have "unat ((queue_front (ring s) + 1) mod DM_TASK_QUEUE_SIZE) = length (sent s) mod 4"
      using f(2) by (simp del: One_nat_def)
    then have "counts_ok t" using counts PCounted
      by (simp add: counts_ok_def p_goto_def Let_def bump_front_def t)
    moreover have "slots_ok t" by (rule same) (simp_all add: t p_goto_def bump_front_def)
    ultimately show ?thesis by (simp add: single_inv_def t p_goto_def)
  next
    case PDone
    then have t: "t = p_goto 0 PIdle (s\<lparr>mutex_held := False\<rparr>)"
      using st by (simp add: producer_step_def)
    then have "counts_ok t" using counts PDone by (simp add: counts_ok_def p_goto_def Let_def)
    moreover have "slots_ok t" by (rule same) (simp_all add: t p_goto_def)
    ultimately show ?thesis by (simp add: single_inv_def t p_goto_def)
  qed (use st in \<open>simp add: producer_step_def\<close>)
qed

lemma single_inv_consumer:
  assumes inv: "single_inv s" and st: "consumer_step s = Some t"
  shows "single_inv t"
proof (cases "bumped_back s")
  case True
  have counts: "counts_ok s" and slots: "slots_ok s" using inv by (simp_all add: single_inv_def)
  have t: "t = s\<lparr>ring := drop_fill (ring s), bumped_back := False\<rparr>"
    using st True by (simp add: consumer_step_def)
  have pos: "0 < unat (queue_fill (ring s))"
    using counts True by (auto simp: counts_ok_def Let_def)
  then have "queue_fill (ring s) \<noteq> 0" by (metis less_numeral_extra(3) unat_0)
  then have m: "unat (queue_fill (ring s) - 1) = unat (queue_fill (ring s)) - 1"
    by (simp add: unat_minus_one)
  have "counts_ok t" using counts True pos m by (auto simp: counts_ok_def Let_def drop_fill_def t)
  moreover have "slots_ok t" by (rule slots_ok_same [OF slots]) (simp_all add: t drop_fill_def)
  ultimately show ?thesis using inv by (simp add: single_inv_def t)
next
  case False
  have counts: "counts_ok s" and slots: "slots_ok s" using inv by (simp_all add: single_inv_def)
  have t: "t = s\<lparr>started := started s @ [front_cmd (ring s)], ring := bump_back (ring s), bumped_back := True\<rparr>"
    and nz: "queue_fill (ring s) \<noteq> 0"
    using st False by (auto simp: consumer_step_def split: if_splits)
  let ?n = "length (started s)" and ?k = "length (sent s)"
  have pos: "0 < unat (queue_fill (ring s))" using nz by (simp add: unat_0_iff neq0_conv [symmetric])
  have nk: "?n < ?k" "Suc ?n + wrote (prod s 0) \<le> ?k"
    using counts False pos by (simp_all add: counts_ok_def Let_def)
  have b: "unat (queue_back (ring s)) = ?n mod 4" using counts by (simp add: counts_ok_def Let_def)
  then have b': "unat ((queue_back (ring s) + 1) mod DM_TASK_QUEUE_SIZE) = Suc ?n mod 4"
    using mod_queue_size [of "queue_back (ring s)"] by (simp add: mod_simps)
  have front: "front_cmd (ring s) = sent s ! ?n"
    using slots nk(1) b by (simp add: slots_ok_def front_cmd_def)
  have "started s = take ?n (sent s)" using slots by (simp add: slots_ok_def)
  then have "started s @ [sent s ! ?n] = take (Suc ?n) (sent s)"
    using nk(1) by (metis take_Suc_conv_app_nth)
  then have "slots_ok t" using slots nk(1) by (simp add: slots_ok_def t front bump_back_def min_def)
  moreover have "counts_ok t"
    using counts False nk b' by (simp add: counts_ok_def Let_def bump_back_def t)
  ultimately show ?thesis using inv by (simp add: single_inv_def t)
qed

lemma single_inv_step: "dm_step {0} s t \<Longrightarrow> single_inv s \<Longrightarrow> single_inv t"
proof (induction rule: dm_step.induct)
  case (dm_stepI a s t)
  show ?case
  proof (cases a)
    case (Submit p c)
    with dm_stepI have "p = 0" "prod s 0 = PIdle" "queueable c" "t = p_goto 0 (PWants c) s"
      by (auto simp: dm_act_def split: if_splits)
    then show ?thesis using single_inv_call dm_stepI.prems by blast
  next
    case (Producer p)
    with dm_stepI have "producer_step 0 s = Some t" by (simp add: dm_act_def)
    then show ?thesis using single_inv_producer dm_stepI.prems by blast
  next
    case DmCore
    with dm_stepI have "consumer_step s = Some t" by (simp add: dm_act_def)
    then show ?thesis using single_inv_consumer dm_stepI.prems by blast
  qed
qed

interpretation single: transition_system dm_sys_start "dm_step {0}" single_inv
  by unfold_locales (auto intro: single_inv_start single_inv_step)

text \<open>
  With one producer the queue works under every interleaving: what the DM core has started is
  a prefix of what was sent, in order and with nothing lost or repeated, and the ring never holds
  more than its four tasks.
\<close>

theorem dm_single_producer:
  assumes "dm_sys_start s" and "(dm_step {0})\<^sup>*\<^sup>* s t"
  shows "started t = take (length (started t)) (sent t) \<and> unat (queue_fill (ring t)) \<le> 4 \<and>
    length (sent t) \<le> length (started t) + 4"
proof -
  have "single_inv t" by (rule single.reachable_inv [OF assms])
  then show ?thesis by (auto simp: single_inv_def counts_ok_def slots_ok_def Let_def split: if_splits)
qed

definition send :: "nat \<Rightarrow> sdma_cmd \<Rightarrow> dm_action list" where
  "send p c = Submit p c # replicate 6 (Producer p)"

lemma replicate_4: "replicate 4 x = [x, x, x, x]"
  by (simp add: numeral_eq_Suc)

lemma replicate_5: "replicate 5 x = [x, x, x, x, x]"
  by (simp add: numeral_eq_Suc)

lemma replicate_6: "replicate 6 x = [x, x, x, x, x, x]"
  by (simp add: numeral_eq_Suc)

theorem dm_single_producer_witness:
  "\<exists>t. dm_run (send 0 (Oned 1 2 3 0) @ [DmCore, Submit 0 (Twod 4 5 6 7 8 9 1), Producer 0, DmCore])
         dm_sys_reset = Some t \<and> started t = [Oned 1 2 3 0] \<and> unat (queue_fill (ring t)) \<le> 4"
proof -
  let ?as = "send 0 (Oned 1 2 3 0) @ [DmCore, Submit 0 (Twod 4 5 6 7 8 9 1), Producer 0, DmCore]"
  obtain t where t: "dm_run ?as dm_sys_reset = Some t" "started t = [Oned 1 2 3 0]"
    by (simp add: send_def replicate_6 dm_act_def producer_step_def consumer_step_def p_goto_def
      dm_sys_reset_def cleared_dm_def write_cmd_def write_1d_def write_2d_def bump_fill_def
      bump_front_def bump_back_def drop_fill_def front_cmd_def cmd_of_def DM_TASK_QUEUE_SIZE_def word_le_nat_alt)
  moreover have "(dm_step {0})\<^sup>*\<^sup>* dm_sys_reset t"
    by (rule dm_run_steps [OF t(1)]) (auto simp: send_def)
  moreover have "dm_sys_start dm_sys_reset" by (simp add: dm_sys_start_def dm_sys_reset_def)
  ultimately show ?thesis using dm_single_producer by blast
qed

subsection \<open>Two producers\<close>

definition cmd :: "nat \<Rightarrow> sdma_cmd" where
  "cmd i = Oned (word_of_nat i) 0 64 0"

definition overflow_run :: "dm_action list" where
  "overflow_run = send 0 (cmd 1) @ send 0 (cmd 2) @ send 0 (cmd 3) @
     [Submit 0 (cmd 4), Producer 0, Submit 1 (cmd 5), Producer 1] @
     replicate 5 (Producer 0) @ replicate 5 (Producer 1) @ [DmCore]"

text \<open>
  Two producers can overflow the ring. Both may see room for one more command before either
  takes the mutex, because the fill is polled before the mutex is taken and not again: five
  commands are then queued in four slots, and the oldest, never started, is overwritten.
\<close>

theorem dm_two_producers_overflow:
  "\<exists>t. (dm_step {0, 1})\<^sup>*\<^sup>* dm_sys_reset t \<and> queue_fill (ring t) = 5 \<and>
     sent t = [cmd 1, cmd 2, cmd 3, cmd 4, cmd 5] \<and> started t = [cmd 5] \<and>
     cmd 1 \<notin> set (map cmd_of (queue (ring t)))"
proof -
  obtain t where t: "dm_run overflow_run dm_sys_reset = Some t" "queue_fill (ring t) = 5"
    "sent t = [cmd 1, cmd 2, cmd 3, cmd 4, cmd 5]" "started t = [cmd 5]"
    "map cmd_of (queue (ring t)) = [cmd 5, cmd 2, cmd 3, cmd 4]"
    by (simp add: overflow_run_def send_def replicate_4 replicate_5 replicate_6 cmd_def dm_act_def
      producer_step_def consumer_step_def p_goto_def
      dm_sys_reset_def cleared_dm_def write_cmd_def write_1d_def bump_fill_def
      bump_front_def bump_back_def front_cmd_def cmd_of_def DM_TASK_QUEUE_SIZE_def word_le_nat_alt)
  have "(dm_step {0, 1})\<^sup>*\<^sup>* dm_sys_reset t"
    by (rule dm_run_steps [OF t(1)]) (auto simp: overflow_run_def send_def)
  moreover have "cmd 1 \<notin> set (map cmd_of (queue (ring t)))"
    unfolding t(5) by (simp add: cmd_def)
  ultimately show ?thesis using t by blast
qed

end
