(* ===== verification/Omp.thy ===== *)
theory Omp
  imports Alloc "HOL-Library.Signed_Division"
begin

unbundle bit_operations_syntax

text \<open>
  The OpenMP runtime entry points (sw/snRuntime/src/omp/kmp.c, omp.c, omp.h): the static loop
  schedule, the argument vector of a fork and its way to the outlined function. Signed 32 bit
  arithmetic wraps, as the code is compiled; \<open>char\<close> is unsigned on the target.
\<close>

section \<open>Static loop schedules\<close>

datatype sched_type = kmp_sch_static_chunked | kmp_sch_static | kmp_sch_other

definition sdiv32 :: "i32 \<Rightarrow> i32 \<Rightarrow> i32" where
  "sdiv32 a b = word_of_int (sint a sdiv sint b)"

definition smod32 :: "i32 \<Rightarrow> i32 \<Rightarrow> i32" where
  "smod32 a b = word_of_int (sint a smod sint b)"

text \<open>What the function leaves behind its pointers.\<close>

record loop_part =
  plastiter :: bool
  plower :: i32
  pupper :: i32
  pstride :: i32

definition loop_size :: "i32 \<Rightarrow> i32 \<Rightarrow> i32 \<Rightarrow> u32" where
  "loop_size lower upper incr = sdiv32 (upper - lower) incr + 1"

text \<open>The two schedules, and the function: a thread number, the team's number of threads, and the
  values the pointers hold at the call.\<close>

definition static_chunked :: "u32 \<Rightarrow> u8 \<Rightarrow> i32 \<Rightarrow> i32 \<Rightarrow> loop_part \<Rightarrow> loop_part" where
  "static_chunked threadNum nbThreads incr chunk p =
     (let globalUpper = pupper p;
          span = incr * chunk;
          stride = span * ucast nbThreads;
          lower = plower p + span * threadNum;
          upper = lower + span - incr;
          beginLastChunk = globalUpper - smod32 globalUpper span
      in \<lparr>plastiter = (smod32 (beginLastChunk - lower) stride = 0), plower = lower,
          pupper = upper, pstride = stride\<rparr>)"

definition static_even :: "u32 \<Rightarrow> u8 \<Rightarrow> i32 \<Rightarrow> loop_part \<Rightarrow> loop_part" where
  "static_even threadNum nbThreads incr p =
     (let globalUpper = pupper p;
          loopSize = loop_size (plower p) (pupper p) incr;
          chunk = loopSize div ucast nbThreads;
          leftOver = loopSize - chunk * ucast nbThreads;
          (chunk, lower) =
            (if sint threadNum < sint leftOver
             then (chunk + 1, plower p + threadNum * (chunk + 1) * incr)
             else (chunk, plower p + threadNum * chunk * incr + leftOver));
          upper = lower + chunk * incr - incr
      in \<lparr>plastiter = (upper = globalUpper \<and> sint lower \<le> sint globalUpper), plower = lower,
          pupper = upper, pstride = loopSize\<rparr>)"

definition kmpc_for_static_init_4 ::
  "u32 \<Rightarrow> u8 \<Rightarrow> sched_type \<Rightarrow> i32 \<Rightarrow> i32 \<Rightarrow> loop_part \<Rightarrow> loop_part" where
  "kmpc_for_static_init_4 threadNum nbThreads sched incr chunk p =
     (case sched of
        kmp_sch_static_chunked \<Rightarrow> static_chunked threadNum nbThreads incr chunk p
      | kmp_sch_static \<Rightarrow> static_even threadNum nbThreads incr p
      | kmp_sch_other \<Rightarrow> p)"

text \<open>The unsigned variant converts the bounds, calls the signed one and converts back.\<close>

definition kmpc_for_static_init_4u ::
  "u32 \<Rightarrow> u8 \<Rightarrow> sched_type \<Rightarrow> i32 \<Rightarrow> i32 \<Rightarrow> loop_part \<Rightarrow> loop_part" where
  "kmpc_for_static_init_4u threadNum nbThreads sched incr chunk p =
     kmpc_for_static_init_4 threadNum nbThreads sched incr chunk p"

section \<open>The microtask wrapper\<close>

datatype task_event = Call_fn "u32 list" | Exit_with i32

text \<open>
  The calls of \<open>__microtask_wrapper\<close>: each case calls the function with that many arguments and
  breaks, but cases 8 to 11, which run on into the next; any larger count exits and runs on into
  case 0.
\<close>

function case_calls :: "nat \<Rightarrow> u32 list \<Rightarrow> task_event list" where
  "case_calls argc argv =
     Call_fn (take argc argv) # (if 8 \<le> argc \<and> argc \<le> 11 then case_calls (Suc argc) argv else [])"

  by pat_completeness auto
termination
  by (relation "measure (\<lambda>(argc, argv). 12 - argc)") auto

declare case_calls.simps [simp del]

definition microtask_wrapper :: "u32 \<Rightarrow> u32 list \<Rightarrow> task_event list" where
  "microtask_wrapper argc argv =
     (if 12 < argc then Exit_with (-1) # case_calls 0 argv else case_calls (unat argc) argv)"

section \<open>Initialisation and fork\<close>

text \<open>
  \<open>kmpc_args\<close> has room for twelve words; the runtime's structure \<open>omp_t\<close> is allocated next. Its
  first byte is \<open>plainTeam.nbThreads\<close>, the team's structure takes 92 bytes, and \<open>numThreads\<close> and
  \<open>maxThreads\<close> follow.
\<close>

definition KMP_FORK_MAX_NARGS :: u32 where
  "KMP_FORK_MAX_NARGS = 12"

definition sizeof_omp_t :: u32 where
  "sizeof_omp_t = 108"

record omp_ptrs =
  kmpc_args :: u32
  omp_p :: u32
  kmpc_barrier :: u32

definition load32 :: "mem \<Rightarrow> u32 \<Rightarrow> u32" where
  "load32 m a = push_bit 24 (ucast (m (a + 3))) + push_bit 16 (ucast (m (a + 2))) +
     push_bit 8 (ucast (m (a + 1))) + ucast (m a)"

definition omp_init :: "u32 \<Rightarrow> allocators \<Rightarrow> mem \<Rightarrow> omp_ptrs \<times> allocators \<times> mem" where
  "omp_init nbCores a m =
     (let (args, a) = snrt_l1alloc (4 * KMP_FORK_MAX_NARGS) a;
          (omp, a) = snrt_l1alloc sizeof_omp_t a;
          m = store32 (omp + 92) nbCores m;
          m = store32 (omp + 96) nbCores m;
          m = store8 omp (ucast nbCores) m;
          m = store32 (omp + 4) 0 m;
          m = store32 (omp + 24) 0 m;
          m = for_up 0 16 (\<lambda>i. store32 (omp + 28 + 4 * word_of_nat i) 0) m;
          (barrier, a) = snrt_l1alloc 8 a;
          m = store32 (omp + 100) barrier m;
          m = snrt_memset barrier 0 8 m
      in (\<lparr>kmpc_args = args, omp_p = omp, kmpc_barrier = barrier\<rparr>, a, m))"

text \<open>\<open>kmpc_args[i]\<close>.\<close>

definition arg_addr :: "omp_ptrs \<Rightarrow> nat \<Rightarrow> u32" where
  "arg_addr o_p i = kmpc_args o_p + 4 * word_of_nat i"

definition fill_args :: "omp_ptrs \<Rightarrow> u32 \<Rightarrow> u32 list \<Rightarrow> mem \<Rightarrow> mem" where
  "fill_args o_p microtask args m =
     for_up 1 (Suc (length args)) (\<lambda>i. store32 (arg_addr o_p i) (args ! (i - 1)))
       (store32 (arg_addr o_p 0) microtask m)"

text \<open>
  The fork on the first core: the arguments are stored, the team size is set, and every thread's
  wrapper reads the arguments back. (A worker that forks exits with -1 instead.)
\<close>

definition parallelRegion :: "omp_ptrs \<Rightarrow> u32 \<Rightarrow> mem \<Rightarrow> mem" where
  "parallelRegion o_p num_threads m = store8 (omp_p o_p) (ucast num_threads) m"

definition read_args :: "omp_ptrs \<Rightarrow> mem \<Rightarrow> u32 list" where
  "read_args o_p m = map (\<lambda>i. load32 m (arg_addr o_p (Suc i))) [0..<12]"

definition kmpc_fork_call ::
  "u32 \<Rightarrow> omp_ptrs \<Rightarrow> u32 \<Rightarrow> u32 list \<Rightarrow> mem \<Rightarrow> task_event list \<times> mem" where
  "kmpc_fork_call core_idx o_p microtask args m =
     (let m1 = fill_args o_p microtask args m
      in if core_idx \<noteq> 0 then ([Exit_with (-1)], m1)
         else let m2 = parallelRegion o_p (load32 m1 (omp_p o_p + 92)) m1
              in (microtask_wrapper (word_of_nat (length args)) (read_args o_p m2), m2))"

section \<open>The even schedule partitions the loop\<close>

text \<open>The iterations a thread runs: from its lower bound by the increment to its upper bound.\<close>

definition iterations :: "int \<Rightarrow> loop_part \<Rightarrow> int set" where
  "iterations incr p = {i. sint (plower p) \<le> i \<and> i \<le> sint (pupper p) \<and> incr dvd i - sint (plower p)}"

text \<open>The iterations as numbers: thread \<open>t\<close> of \<open>n\<close> runs a block of them.\<close>

definition block_start :: "nat \<Rightarrow> nat \<Rightarrow> nat \<Rightarrow> nat" where
  "block_start sz n t = t * (sz div n) + min t (sz mod n)"

lemma block_start_Suc:
  "block_start sz n (Suc t) = block_start sz n t + sz div n + (if t < sz mod n then 1 else 0)"
  by (simp add: block_start_def min_def)

lemma block_start_mono: "s \<le> t \<Longrightarrow> block_start sz n s \<le> block_start sz n t"
  by (induction rule: dec_induct) (simp_all add: block_start_Suc)

lemma block_start_last: "0 < n \<Longrightarrow> block_start sz n n = sz"
proof -
  assume "0 < n"
  then have "min n (sz mod n) = sz mod n" by (simp add: min_absorb2 less_imp_le)
  then show ?thesis by (simp add: block_start_def)
qed

lemma block_unique:
  assumes "block_start sz n s \<le> k" "k < block_start sz n (Suc s)"
    and "block_start sz n t \<le> k" "k < block_start sz n (Suc t)"
  shows "s = t"
proof (rule ccontr)
  assume "s \<noteq> t"
  then have "Suc s \<le> t \<or> Suc t \<le> s" by linarith
  then show False
    using block_start_mono [of "Suc s" t sz n] block_start_mono [of "Suc t" s sz n] assms by linarith
qed

lemma block_exists:
  assumes "0 < n" and "k < sz"
  shows "\<exists>t < n. block_start sz n t \<le> k \<and> k < block_start sz n (Suc t)"
proof -
  have "\<exists>t < m. block_start sz n t \<le> k \<and> k < block_start sz n (Suc t)"
    if "k < block_start sz n m" for m
    using that
  proof (induction m)
    case 0
    then show ?case by (simp add: block_start_def)
  next
    case (Suc m)
    then show ?case by (cases "k < block_start sz n m") (auto intro: less_SucI)
  qed
  then show ?thesis using assms block_start_last [of n sz] by simp
qed

text \<open>The arithmetic of the even schedule, on integers.\<close>

lemma sdiv32_pos:
  assumes "0 \<le> sint a" "0 < sint b"
  shows "sdiv32 a b = word_of_int (sint a div sint b)"
  using assms by (cases "sint a = 0") (simp_all add: sdiv32_def signed_divide_int_def)

lemma loop_size_eq:
  assumes lo: "lower = word_of_int lo" and up: "upper = word_of_int up" and inc: "incr = word_of_int inc"
    and r: "- (2 ^ 31) \<le> inc" "0 < inc" "inc < 2 ^ 31" "lo \<le> up" "up - lo < 2 ^ 31"
  shows "loop_size lower upper incr = word_of_nat (nat ((up - lo) div inc + 1))"
proof -
  have d: "sint (upper - lower) = up - lo"
    unfolding lo up of_int_diff [symmetric] by (rule sint_of_int_small) (use r in linarith)+
  have i: "sint incr = inc" unfolding inc by (rule sint_of_int_small) (use r in linarith)+
  have "sdiv32 (upper - lower) incr = word_of_int ((up - lo) div inc)"
    using sdiv32_pos [of "upper - lower" incr] d i r by simp
  moreover have "0 \<le> (up - lo) div inc" using r by (simp add: pos_imp_zdiv_nonneg_iff)
  ultimately show ?thesis by (simp add: loop_size_def nat_add_distrib)
qed

lemma sint_nat_small: "k < 2 ^ 31 \<Longrightarrow> sint (word_of_nat k :: u32) = int k"
  using sint_of_int_small [of "int k"] by simp

lemma static_even_bounds:
  fixes lo up inc :: int and t :: nat
  assumes n: "n = unat nb" "0 < n" and t: "t < n"
    and p: "plower p = word_of_int lo" "pupper p = word_of_int up" and incr: "incr = word_of_int inc"
    and inc: "0 < inc" and range: "lo \<le> up" "up - lo < 2 ^ 31" "- (2 ^ 31) \<le> lo - inc" "up + inc < 2 ^ 31"
    and N: "N = nat ((up - lo) div inc + 1)"
    and even: "inc = 1 \<or> N mod n = 0"
  shows "sint (plower (static_even (word_of_nat t) nb incr p)) = lo + int (block_start N n t) * inc \<and>
    sint (pupper (static_even (word_of_nat t) nb incr p)) = lo + int (block_start N n (Suc t)) * inc - inc"
proof -
  let ?r = "static_even (word_of_nat t) nb incr p"
  have n256: "n < 256" using unat_u8_bound [of nb] by (simp add: n(1))
  have inc31: "inc < 2 ^ 31" using range by linarith
  have size: "loop_size (plower p) (pupper p) incr = word_of_nat N"
    unfolding N by (rule loop_size_eq [OF p incr]) (use inc inc31 range in linarith)+
  have quot: "0 \<le> (up - lo) div inc" using inc range(1) by (simp add: pos_imp_zdiv_nonneg_iff)
  have "(up - lo) div inc \<le> up - lo" using zdiv_mono2 [of "up - lo" 1 inc] inc range(1) by simp
  then have N31: "N \<le> 2 ^ 31" using range(2) by (simp add: N)
  have Ninc: "int N * inc \<le> up - lo + inc"
  proof -
    have "int N * inc = (up - lo) div inc * inc + inc" using quot by (simp add: N algebra_simps)
    also have "(up - lo) div inc * inc \<le> up - lo"
      using pos_mod_sign [OF inc, of "up - lo"] by (simp add: minus_mod_eq_div_mult [symmetric])
    finally show ?thesis by simp
  qed
  have unb: "unat (ucast nb :: u32) = n" by (simp add: n(1) unsigned_ucast_eq take_bit_nat_eq_self less_trans [OF unat_u8_bound])
  moreover have "(ucast nb :: u32) = word_of_nat (unat (ucast nb :: u32))" by simp
  ultimately have wnb: "(ucast nb :: u32) = word_of_nat n" by metis
  have chunk: "word_of_nat N div ucast nb = (word_of_nat (N div n) :: u32)"
  proof -
    have "unat (word_of_nat N div ucast nb :: u32) = N div n"
      using N31 by (simp add: unat_div unb unat_of_nat_small)
    moreover have "x = word_of_nat (unat x)" for x :: u32 by simp
    ultimately show ?thesis by metis
  qed
  have left: "word_of_nat N - word_of_nat (N div n) * ucast nb = (word_of_nat (N mod n) :: u32)"
  proof -
    have "(word_of_nat N :: u32) = word_of_nat (N div n * n + N mod n)" by simp
    then show ?thesis by (simp only: wnb of_nat_add of_nat_mult) simp
  qed
  have lt: "N mod n < n" using n(2) by simp
  have "256 \<le> (2 :: nat) ^ 31" by simp
  then have small: "t < 2 ^ 31" "N mod n < 2 ^ 31" using t lt n256 by linarith+
  note st = sint_nat_small [OF small(1)] sint_nat_small [OF small(2)]
  have r: "?r = (let (chunk, lower) =
      (if t < N mod n
       then (word_of_nat (N div n) + 1, plower p + word_of_nat t * (word_of_nat (N div n) + 1) * incr)
       else (word_of_nat (N div n), plower p + word_of_nat t * word_of_nat (N div n) * incr + word_of_nat (N mod n)));
      upper = lower + chunk * incr - incr
    in \<lparr>plastiter = (upper = pupper p \<and> sint lower \<le> sint (pupper p)), plower = lower,
        pupper = upper, pstride = word_of_nat N\<rparr>)"
    unfolding static_even_def Let_def size chunk left st by simp
  have lower: "plower ?r = word_of_int (lo + int (block_start N n t) * inc)"
  proof (cases "t < N mod n")
    case True
    then have "block_start N n t = t * (N div n + 1)" by (simp add: block_start_def)
    moreover have "plower ?r = plower p + word_of_nat t * (word_of_nat (N div n) + 1) * incr"
      using True by (simp add: r Let_def)
    ultimately show ?thesis by (simp add: p(1) incr algebra_simps)
  next
    case False
    then have b: "block_start N n t = t * (N div n) + N mod n" by (simp add: block_start_def)
    have "plower ?r = plower p + word_of_nat t * word_of_nat (N div n) * incr + word_of_nat (N mod n)"
      using False by (simp add: r Let_def)
    also have "word_of_nat (N mod n) = word_of_nat (N mod n) * incr" using even by (auto simp: incr)
    finally show ?thesis by (simp add: b p(1) incr algebra_simps)
  qed
  have upper: "pupper ?r = word_of_int (lo + int (block_start N n (Suc t)) * inc - inc)"
  proof -
    have "pupper ?r = plower ?r + word_of_nat (N div n + (if t < N mod n then 1 else 0)) * incr - incr"
      by (simp add: r Let_def)
    then show ?thesis unfolding lower block_start_Suc by (simp add: incr algebra_simps)
  qed
  have le: "block_start N n s \<le> N" if "s \<le> n" for s
    using block_start_mono [OF that, of N n] block_start_last [OF n(2)] by simp
  have b: "0 \<le> int (block_start N n s) * inc" "int (block_start N n s) * inc \<le> up - lo + inc"
    if "s \<le> n" for s
  proof -
    show "0 \<le> int (block_start N n s) * inc" using inc by simp
    have "int (block_start N n s) * inc \<le> int N * inc"
      by (rule mult_right_mono) (use le [OF that] inc in simp_all)
    with Ninc show "int (block_start N n s) * inc \<le> up - lo + inc" by linarith
  qed
  have "sint (plower ?r) = lo + int (block_start N n t) * inc"
    unfolding lower by (rule sint_of_int_small) (use b [of t] t range inc in linarith)+
  moreover have "sint (pupper ?r) = lo + int (block_start N n (Suc t)) * inc - inc"
    unfolding upper by (rule sint_of_int_small) (use b [of "Suc t"] t range inc in linarith)+
  ultimately show ?thesis by blast
qed

text \<open>Blocks of iteration numbers as sets of iterations.\<close>

lemma iterations_block:
  assumes "0 < inc" and "sint (plower r) = lo + int a * inc" and "sint (pupper r) = lo + int b * inc - inc"
  shows "iterations inc r = {lo + int k * inc | k. a \<le> k \<and> k < b}"
proof (rule set_eqI)
  fix i
  show "i \<in> iterations inc r \<longleftrightarrow> i \<in> {lo + int k * inc | k. a \<le> k \<and> k < b}"
  proof
    assume "i \<in> iterations inc r"
    then have i: "lo + int a * inc \<le> i" "i \<le> lo + int b * inc - inc" "inc dvd i - (lo + int a * inc)"
      using assms(2,3) by (simp_all add: iterations_def)
    then obtain j where j: "i = lo + (int a + j) * inc" by (auto simp: dvd_def algebra_simps)
    have "0 \<le> j * inc" using i(1) j by (simp add: algebra_simps)
    then have j0: "0 \<le> j" using assms(1) by (simp add: zero_le_mult_iff)
    have "(int a + j) * inc \<le> (int b - 1) * inc" using i(2) j by (simp add: algebra_simps)
    then have "int a + j \<le> int b - 1" using assms(1) by simp
    with j j0 have "i = lo + int (a + nat j) * inc \<and> a \<le> a + nat j \<and> a + nat j < b" by auto
    then show "i \<in> {lo + int k * inc | k. a \<le> k \<and> k < b}" by blast
  next
    assume "i \<in> {lo + int k * inc | k. a \<le> k \<and> k < b}"
    then obtain k where k: "i = lo + int k * inc" "a \<le> k" "k < b" by blast
    have "int a * inc \<le> int k * inc" "int k * inc \<le> (int b - 1) * inc"
      using k(2,3) assms(1) by (auto intro: mult_right_mono)
    moreover have "i - (lo + int a * inc) = (int k - int a) * inc" by (simp add: k(1) algebra_simps)
    ultimately show "i \<in> iterations inc r"
      using assms(2,3) k(1) by (simp add: iterations_def algebra_simps)
  qed
qed

lemma iteration_count:
  fixes lo up inc :: int
  assumes "0 < inc" "lo \<le> up"
  shows "k < nat ((up - lo) div inc + 1) \<longleftrightarrow> lo + int k * inc \<le> up"
proof -
  have "0 \<le> (up - lo) div inc" using assms by (simp add: pos_imp_zdiv_nonneg_iff)
  then have "k < nat ((up - lo) div inc + 1) \<longleftrightarrow> int k \<le> (up - lo) div inc" by linarith
  also have "\<dots> \<longleftrightarrow> int k * inc \<le> up - lo"
  proof
    assume "int k \<le> (up - lo) div inc"
    then have "int k * inc \<le> (up - lo) div inc * inc" using assms(1) by (intro mult_right_mono) simp_all
    also have "\<dots> \<le> up - lo"
      using pos_mod_sign [OF assms(1), of "up - lo"] by (simp add: minus_mod_eq_div_mult [symmetric])
    finally show "int k * inc \<le> up - lo" .
  next
    assume "int k * inc \<le> up - lo"
    from zdiv_mono1 [OF this assms(1)] show "int k \<le> (up - lo) div inc" using assms(1) by simp
  qed
  finally show ?thesis by linarith
qed

lemma loop_by_number:
  fixes lo up inc :: int
  assumes "0 < inc" "lo \<le> up"
  shows "{i. lo \<le> i \<and> i \<le> up \<and> inc dvd i - lo} = {lo + int k * inc | k. k < nat ((up - lo) div inc + 1)}"
proof (rule set_eqI, rule iffI)
  fix i
  assume i: "i \<in> {i. lo \<le> i \<and> i \<le> up \<and> inc dvd i - lo}"
  then obtain j where j: "i = lo + j * inc" by (auto simp: dvd_def algebra_simps)
  then have j0: "0 \<le> j" using i assms(1) by (auto simp: zero_le_mult_iff)
  then have "lo + int (nat j) * inc \<le> up" using i j by simp
  then have "i = lo + int (nat j) * inc \<and> nat j < nat ((up - lo) div inc + 1)"
    using j j0 unfolding iteration_count [OF assms] by simp
  then show "i \<in> {lo + int k * inc | k. k < nat ((up - lo) div inc + 1)}" by blast
next
  fix i
  assume "i \<in> {lo + int k * inc | k. k < nat ((up - lo) div inc + 1)}"
  then obtain k where k: "i = lo + int k * inc" "k < nat ((up - lo) div inc + 1)" by blast
  from k(2) have "lo + int k * inc \<le> up" unfolding iteration_count [OF assms] .
  then show "i \<in> {i. lo \<le> i \<and> i \<le> up \<and> inc dvd i - lo}" using k(1) assms(1) by simp
qed

lemma blocks_cover:
  fixes lo inc :: int
  assumes "0 < n" "\<And>t. t < n \<Longrightarrow> I t = {lo + int k * inc | k. block_start N n t \<le> k \<and> k < block_start N n (Suc t)}"
  shows "(\<Union>t<n. I t) = {lo + int k * inc | k. k < N}"
proof (rule set_eqI, rule iffI)
  fix i
  assume "i \<in> (\<Union>t<n. I t)"
  then obtain t k where k: "t < n" "i = lo + int k * inc" "k < block_start N n (Suc t)" using assms(2) by auto
  then have "k < N" using block_start_mono [of "Suc t" n N n] block_start_last [OF assms(1), of N] by simp
  with k(2) show "i \<in> {lo + int k * inc | k. k < N}" by blast
next
  fix i
  assume "i \<in> {lo + int k * inc | k. k < N}"
  then obtain k where k: "k < N" "i = lo + int k * inc" by blast
  then obtain t where "t < n" "block_start N n t \<le> k" "k < block_start N n (Suc t)"
    using block_exists [OF assms(1)] by blast
  then show "i \<in> (\<Union>t<n. I t)" using assms(2) k(2) by blast
qed

lemma blocks_disjoint:
  fixes lo inc :: int
  assumes "0 < inc" "s \<noteq> t" "A = {lo + int k * inc | k. block_start N n s \<le> k \<and> k < block_start N n (Suc s)}"
    and "B = {lo + int k * inc | k. block_start N n t \<le> k \<and> k < block_start N n (Suc t)}"
  shows "A \<inter> B = {}"
proof (rule ccontr)
  assume "A \<inter> B \<noteq> {}"
  then obtain x where "x \<in> A" "x \<in> B" by blast
  then obtain k j where k: "block_start N n s \<le> k" "k < block_start N n (Suc s)"
    and j: "block_start N n t \<le> j" "j < block_start N n (Suc t)" and eq: "int k * inc = int j * inc"
    unfolding assms(3,4) by auto
  then have "k = j" using assms(1) by simp
  with block_unique k j assms(2) show False by blast
qed


definition part :: "i32 \<Rightarrow> i32 \<Rightarrow> loop_part" where
  "part lower upper = \<lparr>plastiter = False, plower = lower, pupper = upper, pstride = 0\<rparr>"


text \<open>
  With an increment other than one and iterations left over, the even schedule is wrong: a
  thread without an extra iteration starts \<open>leftOver\<close> (and not \<open>leftOver\<close> times the increment)
  above its block. For the loop 0, 2, 4 on two threads the second runs 3, which is not in the
  loop, and nobody runs 4.
\<close>

theorem static_even_uneven_wrong:
  "let r = (\<lambda>t. kmpc_for_static_init_4 t 2 kmp_sch_static 2 0 (part 0 4))
   in (plower (r 0), pupper (r 0)) = (0, 2) \<and> (plower (r 1), pupper (r 1)) = (3, 3) \<and>
      iterations 2 (r 0) \<union> iterations 2 (r 1) = {0, 2, 3}"
proof -
  let ?r = "\<lambda>t. kmpc_for_static_init_4 t 2 kmp_sch_static 2 0 (part 0 4)"
  have b: "plower (?r 0) = 0 \<and> pupper (?r 0) = 2" "plower (?r 1) = 3 \<and> pupper (?r 1) = 3"
    by code_simp+
  have "iterations 2 (?r 0) = {0, 2}"
    by (auto simp: iterations_def b)
  moreover have "iterations 2 (?r 1) = {3}"
    by (auto simp: iterations_def b)
  ultimately show ?thesis using b by (simp add: Let_def) auto
qed

section \<open>The chunked schedule\<close>

text \<open>
  The code the compiler puts around a chunked loop: chunk \<open>j\<close> of a thread starts \<open>j\<close> strides above
  its lower bound.
\<close>

definition chunk_iterations :: "int \<Rightarrow> int \<Rightarrow> loop_part \<Rightarrow> int set" where
  "chunk_iterations incr up p = {i. \<exists>j :: nat. sint (plower p) + int j * sint (pstride p) \<le> i \<and>
     i \<le> sint (pupper p) + int j * sint (pstride p) \<and> i \<le> up \<and>
     incr dvd i - sint (plower p)}"

text \<open>
  The chunked schedule deals out chunks in turn. Iteration \<open>k\<close> of a loop with a positive
  increment is run by thread \<open>t\<close> of \<open>n\<close> exactly when its chunk number \<open>k div chunk\<close> is \<open>t\<close> modulo
  \<open>n\<close>, provided the first strides do not overflow.
\<close>

theorem static_chunked_round_robin:
  fixes lo up inc ch :: int
  assumes n: "n = unat nb" "0 < n" and t: "t < n"
    and p: "plower p = word_of_int lo" and incr: "incr = word_of_int inc" and chunk: "chunk = word_of_int ch"
    and pos: "0 < inc" "0 < ch" and range: "- (2 ^ 31) \<le> lo" "lo + ch * inc * int n < 2 ^ 31" "ch * inc * int n < 2 ^ 31"
    and k: "lo + int k * inc \<le> up"
  shows "lo + int k * inc \<in> chunk_iterations inc up
      (kmpc_for_static_init_4 (word_of_nat t) nb kmp_sch_static_chunked incr chunk p) \<longleftrightarrow>
    (k div nat ch) mod n = t"
proof -
  let ?r = "kmpc_for_static_init_4 (word_of_nat t) nb kmp_sch_static_chunked incr chunk p"
  let ?s = "ch * inc"
  have s: "0 < ?s" using pos by simp
  have unb: "unat (ucast nb :: u32) = n" by (simp add: n(1) unsigned_ucast_eq take_bit_nat_eq_self less_trans [OF unat_u8_bound])
  moreover have "(ucast nb :: u32) = word_of_nat (unat (ucast nb :: u32))" by simp
  ultimately have wnb: "(ucast nb :: u32) = word_of_nat n" by metis
  have tn: "?s * int t \<le> ?s * int n - ?s"
  proof -
    have "?s * int t \<le> ?s * (int n - 1)" using s t by (intro mult_left_mono) simp_all
    then show ?thesis by (simp add: algebra_simps)
  qed
  have st0: "0 \<le> ?s * int t" using s by simp
  have stride: "sint (pstride ?r) = ?s * int n"
  proof -
    have "pstride ?r = word_of_int (?s * int n)"
      by (simp add: kmpc_for_static_init_4_def static_chunked_def Let_def incr chunk wnb mult.commute)
    moreover have "0 \<le> ?s * int n" using s by simp
    then have "sint (word_of_int (?s * int n) :: u32) = ?s * int n"
      by (intro sint_of_int_small) (use range in linarith)+
    ultimately show ?thesis by simp
  qed
  have lower: "sint (plower ?r) = lo + ?s * int t"
  proof -
    have "plower ?r = word_of_int (lo + ?s * int t)"
      by (simp add: kmpc_for_static_init_4_def static_chunked_def Let_def incr chunk p mult.commute)
    moreover have "sint (word_of_int (lo + ?s * int t) :: u32) = lo + ?s * int t"
      by (rule sint_of_int_small) (use range st0 tn s in linarith)+
    ultimately show ?thesis by simp
  qed
  have upper: "sint (pupper ?r) = lo + ?s * int t + ?s - inc"
  proof -
    have "pupper ?r = word_of_int (lo + ?s * int t + ?s - inc)"
      by (simp add: kmpc_for_static_init_4_def static_chunked_def Let_def incr chunk p mult.commute)
    moreover have "inc \<le> ?s" using pos by simp
    then have "sint (word_of_int (lo + ?s * int t + ?s - inc) :: u32) = lo + ?s * int t + ?s - inc"
      by (intro sint_of_int_small) (use range st0 tn pos in linarith)+
    ultimately show ?thesis by simp
  qed
  have "lo + int k * inc \<in> chunk_iterations inc up ?r \<longleftrightarrow>
      (\<exists>j. ?s * (int t + int j * int n) \<le> int k * inc \<and> int k * inc \<le> ?s * (int t + int j * int n) + ?s - inc)"
    using k by (simp add: chunk_iterations_def stride lower upper algebra_simps)
  also have "\<dots> \<longleftrightarrow> (\<exists>j. k div nat ch = t + j * n)"
  proof -
    have "?s * q \<le> int k * inc \<and> int k * inc \<le> ?s * q + ?s - inc \<longleftrightarrow> int k div ch = q" for q
    proof -
      have "?s * q \<le> int k * inc \<longleftrightarrow> inc * (ch * q) \<le> inc * int k" by (simp add: ac_simps)
      also have "\<dots> \<longleftrightarrow> ch * q \<le> int k" using pos(1) by simp
      finally have 1: "?s * q \<le> int k * inc \<longleftrightarrow> ch * q \<le> int k" .
      have "int k * inc \<le> ?s * q + ?s - inc \<longleftrightarrow> inc * int k \<le> inc * (ch * q + ch - 1)"
        by (simp add: algebra_simps)
      also have "\<dots> \<longleftrightarrow> int k < ch * q + ch" using pos(1) by simp
      finally have 2: "int k * inc \<le> ?s * q + ?s - inc \<longleftrightarrow> int k < ch * q + ch" .
      have "ch * q \<le> int k \<and> int k < ch * q + ch \<longleftrightarrow> int k div ch = q"
      proof
        assume "ch * q \<le> int k \<and> int k < ch * q + ch"
        then show "int k div ch = q"
          by (intro int_div_pos_eq [of _ _ _ "int k - ch * q"]) simp_all
      next
        assume "int k div ch = q"
        then show "ch * q \<le> int k \<and> int k < ch * q + ch"
          using pos_mod_sign [OF pos(2), of "int k"] pos_mod_bound [OF pos(2), of "int k"]
            mult_div_mod_eq [of ch "int k"] by auto
      qed
      with 1 2 show ?thesis by simp
    qed
    moreover have "int k div ch = int (k div nat ch)" using pos(2) by (simp add: zdiv_int)
    ultimately have "?s * (int t + int j * int n) \<le> int k * inc \<and>
        int k * inc \<le> ?s * (int t + int j * int n) + ?s - inc \<longleftrightarrow> k div nat ch = t + j * n" for j
      by (metis of_nat_add of_nat_eq_iff of_nat_mult)
    then show ?thesis by simp
  qed
  also have "\<dots> \<longleftrightarrow> (k div nat ch) mod n = t"
  proof
    assume "\<exists>j. k div nat ch = t + j * n"
    then show "(k div nat ch) mod n = t" using t by auto
  next
    assume "(k div nat ch) mod n = t"
    then have "k div nat ch = t + (k div nat ch div n) * n" by (metis mod_mult_div_eq mult.commute)
    then show "\<exists>j. k div nat ch = t + j * n" by blast
  qed
  finally show ?thesis .
qed

theorem static_chunked_round_robin_witness:
  "7 \<in> chunk_iterations 1 9
     (kmpc_for_static_init_4 (word_of_nat 1) 2 kmp_sch_static_chunked 1 2 (part 0 9))"
  using static_chunked_round_robin [of 2 2 1 "part 0 9" 0 1 1 2 2 7 9] by (simp add: part_def)

text \<open>
  The last-iteration flag of the chunked schedule assumes a loop that starts at a multiple of
  the span. For the loop 1 to 8 in chunks of four on two threads, the second thread runs the last
  iteration, and neither is told so.
\<close>

theorem static_chunked_last_wrong:
  "let r = (\<lambda>t. kmpc_for_static_init_4 t 2 kmp_sch_static_chunked 1 4 (part 1 8))
   in (plower (r 1), pupper (r 1)) = (5, 8) \<and> \<not> plastiter (r 0) \<and> \<not> plastiter (r 1)"
  by code_simp

section \<open>The fork\<close>

lemma case_calls_low: "argc \<le> 7 \<or> 12 \<le> argc \<Longrightarrow> case_calls argc argv = [Call_fn (take argc argv)]"
  by (subst case_calls.simps) auto

lemma case_calls_high:
  "8 \<le> argc \<Longrightarrow> argc \<le> 12 \<Longrightarrow> case_calls argc argv = map (\<lambda>j. Call_fn (take j argv)) [argc..<13]"
proof (induction argc argv rule: case_calls.induct)
  case (1 argc argv)
  show ?case
  proof (cases "argc \<le> 11")
    case True
    then show ?thesis using 1 by (subst case_calls.simps) (simp add: upt_conv_Cons)
  next
    case False
    then have "argc = 12" using 1 by simp
    then show ?thesis by (subst case_calls.simps) (simp add: upt_conv_Cons)
  qed
qed

text \<open>Words in byte memory.\<close>

lemma store32_byte:
  "store32 a v m x = (if unat (x - a) < 4 then ucast (drop_bit (8 * unat (x - a)) v) else m x)"
proof -
  have e: "x = a + word_of_nat k \<longleftrightarrow> unat (x - a) = k" if "k < 4" for k
    by (rule addr_eq_iff) (use that in simp)
  show ?thesis
  proof (cases "unat (x - a) < 4")
    case True
    define k where "k = unat (x - a)"
    from True have "k = 0 \<or> k = 1 \<or> k = 2 \<or> k = 3" unfolding k_def by linarith
    moreover have "x = a + word_of_nat k" using e [of k] True by (simp add: k_def)
    ultimately show ?thesis
      unfolding k_def [symmetric] by (elim disjE) (simp_all add: store32_def)
  next
    case False
    then have "x \<noteq> a" "x \<noteq> a + 1" "x \<noteq> a + 2" "x \<noteq> a + 3"
      using e [of 0] e [of 1] e [of 2] e [of 3] by auto
    with False show ?thesis by (simp add: store32_def)
  qed
qed

lemma word_bytes:
  "push_bit 24 (ucast (ucast (drop_bit 24 v) :: u8)) + push_bit 16 (ucast (ucast (drop_bit 16 v) :: u8)) +
     push_bit 8 (ucast (ucast (drop_bit 8 v) :: u8)) + ucast (ucast v :: u8) = (v :: u32)"
proof -
  have 1: "push_bit 24 (ucast (ucast (drop_bit 24 v) :: u8)) + push_bit 16 (ucast (ucast (drop_bit 16 v) :: u8)) =
      (push_bit 24 (ucast (ucast (drop_bit 24 v) :: u8)) OR push_bit 16 (ucast (ucast (drop_bit 16 v) :: u8)) :: u32)"
    by (rule disjunctive_add_eq_or) (auto simp: bit_eq_iff bit_simps)
  have 2: "(push_bit 24 (ucast (ucast (drop_bit 24 v) :: u8)) OR push_bit 16 (ucast (ucast (drop_bit 16 v) :: u8))) +
      push_bit 8 (ucast (ucast (drop_bit 8 v) :: u8)) =
      (push_bit 24 (ucast (ucast (drop_bit 24 v) :: u8)) OR push_bit 16 (ucast (ucast (drop_bit 16 v) :: u8)) OR
       push_bit 8 (ucast (ucast (drop_bit 8 v) :: u8)) :: u32)"
    by (subst disjunctive_add_eq_or) (auto simp: bit_eq_iff bit_simps)
  have 3: "(push_bit 24 (ucast (ucast (drop_bit 24 v) :: u8)) OR push_bit 16 (ucast (ucast (drop_bit 16 v) :: u8)) OR
       push_bit 8 (ucast (ucast (drop_bit 8 v) :: u8))) + ucast (ucast v :: u8) =
      (push_bit 24 (ucast (ucast (drop_bit 24 v) :: u8)) OR push_bit 16 (ucast (ucast (drop_bit 16 v) :: u8)) OR
       push_bit 8 (ucast (ucast (drop_bit 8 v) :: u8)) OR ucast (ucast v :: u8) :: u32)"
    by (subst disjunctive_add_eq_or) (auto simp: bit_eq_iff bit_simps)
  show ?thesis unfolding 1 2 3
  proof (rule bit_word_eqI)
    fix n assume "n < LENGTH(32)"
    then have "n < 8 \<or> 8 \<le> n \<and> n < 16 \<or> 16 \<le> n \<and> n < 24 \<or> 24 \<le> n \<and> n < 32" by auto
    then show "bit (push_bit 24 (ucast (ucast (drop_bit 24 v) :: u8)) OR
        push_bit 16 (ucast (ucast (drop_bit 16 v) :: u8)) OR
        push_bit 8 (ucast (ucast (drop_bit 8 v) :: u8)) OR ucast (ucast v :: u8) :: u32) n = bit v n"
      by (auto simp: bit_simps)
  qed
qed

lemma load32_bytes:
  assumes "\<And>k. k < 4 \<Longrightarrow> m (a + word_of_nat k) = ucast (drop_bit (8 * k) v)"
  shows "load32 m a = v"
  using assms [of 0] assms [of 1] assms [of 2] assms [of 3] word_bytes [of v]
  by (simp add: load32_def)

text \<open>The argument vector: the microtask, then the arguments.\<close>

lemma fill_args_byte:
  assumes "4 * Suc (length args) \<le> 2 ^ 32"
  shows "fill_args o_p fn args m x =
    (let k = unat (x - kmpc_args o_p)
     in if k < 4 * Suc (length args) then ucast (drop_bit (8 * (k mod 4)) ((fn # args) ! (k div 4))) else m x)"
proof -
  let ?k = "\<lambda>x. unat (x - kmpc_args o_p)"
  let ?I = "\<lambda>i t. i \<le> Suc (length args) \<longrightarrow> (\<forall>x. t x = (if ?k x < 4 * i
      then ucast (drop_bit (8 * (?k x mod 4)) ((fn # args) ! (?k x div 4))) else m x))"
  have word: "unat (x - arg_addr o_p i) < 4 \<longleftrightarrow> 4 * i \<le> ?k x \<and> ?k x < 4 * i + 4"
    "4 * i \<le> ?k x \<Longrightarrow> unat (x - arg_addr o_p i) = ?k x - 4 * i" if "i < Suc (length args)" for i x
    using addr_shift [of "4 * i" 4 x "kmpc_args o_p"] that assms by (simp_all add: arg_addr_def)
  have step: "?I (Suc i) (store32 (arg_addr o_p i) ((fn # args) ! i) t)"
    if i: "i < Suc (length args)" and I: "?I i t" for i t
  proof (intro impI allI)
    fix x
    show "store32 (arg_addr o_p i) ((fn # args) ! i) t x = (if ?k x < 4 * Suc i
      then ucast (drop_bit (8 * (?k x mod 4)) ((fn # args) ! (?k x div 4))) else m x)"
    proof (cases "unat (x - arg_addr o_p i) < 4")
      case True
      then have k: "4 * i \<le> ?k x" "?k x < 4 * i + 4" using word(1) [OF i] by blast+
      then have "?k x div 4 = i" "?k x mod 4 = ?k x - 4 * i"
        by (simp_all add: div_nat_eqI modulo_nat_def)
      with True k show ?thesis by (simp add: store32_byte word(2) [OF i k(1)])
    next
      case False
      then have "\<not> (4 * i \<le> ?k x \<and> ?k x < 4 * i + 4)" using word(1) [OF i] by blast
      with False I i show ?thesis by (auto simp: store32_byte)
    qed
  qed
  have "?I (Suc (length args)) (fill_args o_p fn args m)"
    unfolding fill_args_def
  proof (rule for_up_inv [where I = ?I])
    show "?I 1 (store32 (arg_addr o_p 0) fn m)" using step [of 0 m] by simp
    show "1 \<le> Suc (length args)" by simp
  next
    fix i t
    assume "1 \<le> i" "i < Suc (length args)" "?I i t"
    then show "?I (Suc i) (store32 (arg_addr o_p i) (args ! (i - 1)) t)"
      using step [of i t] by (cases i) simp_all
  qed
  then show ?thesis by (simp add: Let_def)
qed

lemma fill_args_word:
  assumes "4 * Suc (length args) \<le> 2 ^ 32" and "i < length args"
  shows "load32 (fill_args o_p fn args m) (arg_addr o_p (Suc i)) = args ! i"
proof (rule load32_bytes)
  fix k :: nat
  assume k: "k < 4"
  let ?x = "arg_addr o_p (Suc i) + word_of_nat k"
  have "?x - kmpc_args o_p = word_of_nat (4 * Suc i + k)" by (simp add: arg_addr_def)
  moreover have "unat (word_of_nat (4 * Suc i + k) :: u32) = 4 * Suc i + k"
    by (rule unat_of_nat_small) (use assms k in simp)
  ultimately have "unat (?x - kmpc_args o_p) = 4 * Suc i + k" by (simp only:)
  then show "fill_args o_p fn args m ?x = ucast (drop_bit (8 * k) (args ! i))"
  proof -
    assume off: "unat (?x - kmpc_args o_p) = 4 * Suc i + k"
    have d: "(4 * Suc i + k) div 4 = Suc i" "(4 * Suc i + k) mod 4 = k" "4 * Suc i + k < 4 * Suc (length args)"
      using k assms(2) by (simp_all add: div_nat_eqI mod_nat_eqI)
    show ?thesis unfolding fill_args_byte [OF assms(1)] Let_def off d by (simp add: d(3) del: mult_Suc_right)
  qed
qed

text \<open>What the fork's threads read back: the arguments, and above them \<open>omp_t\<close>'s first byte.\<close>

lemma load32_cong:
  assumes "\<And>k. k < 4 \<Longrightarrow> m (a + word_of_nat k) = m' (a + word_of_nat k)"
  shows "load32 m a = load32 m' a"
  using assms [of 0] assms [of 1] assms [of 2] assms [of 3] by (simp add: load32_def)

lemma load32_store8_other:
  assumes "4 \<le> unat (b - a)"
  shows "load32 (store8 b v m) a = load32 m a"
proof (rule load32_cong)
  fix k :: nat
  assume "k < 4"
  then have "b \<noteq> a + word_of_nat k" using addr_eq_iff [of k b a] assms by simp
  then show "store8 b v m (a + word_of_nat k) = m (a + word_of_nat k)" by auto
qed

lemma load32_store8_low: "load32 (store8 a b m) a = (load32 m a AND NOT 255) OR ucast b"
proof -
  have m: "(255 :: u32) = mask 8" by (simp add: mask_eq_exp_minus_1)
  define h where "h = push_bit 24 (ucast (m (a + 3))) + push_bit 16 (ucast (m (a + 2))) +
    push_bit 8 (ucast (m (a + 1)) :: u32)"
  have h: "h = push_bit 8 (drop_bit 8 h)"
  proof -
    have "h = push_bit 8 (push_bit 16 (ucast (m (a + 3))) + push_bit 8 (ucast (m (a + 2))) + ucast (m (a + 1)))"
      by (simp add: h_def push_bit_add)
    then show ?thesis by (auto simp: bit_eq_iff bit_simps)
  qed
  have hb: "8 \<le> n" if "bit h n" for n
    using that h by (metis bit_push_bit_iff_nat bit_word_iff_drop_bit_and bit_push_bit_iff)
  have cb: "n < 8" if "bit c n" for n and c :: u8
    using bit_imp_le_length [OF that] by simp
  have l: "h + ucast c = h OR ucast c" for c :: u8
    by (rule disjunctive_add_eq_or) (auto simp: bit_eq_iff bit_simps dest!: hb cb)
  have "load32 m a = h + ucast (m a)" "load32 (store8 a b m) a = h + ucast b"
    by (simp_all add: load32_def h_def)
  moreover have "(h OR ucast (m a)) AND NOT (mask 8) = h"
    by (auto simp: bit_eq_iff bit_simps dest: hb cb)
  ultimately show ?thesis by (simp add: l m)
qed

text \<open>\<open>omp_t\<close> lies directly behind the twelve words of the argument vector.\<close>

lemma omp_init_layout:
  assumes "omp_init nb a m = (o_p, a', m')"
  shows "omp_p o_p = kmpc_args o_p + 48"
  using assms
  by (auto simp: omp_init_def Let_def case_prod_beta l1_next_l1alloc_word KMP_FORK_MAX_NARGS_def align_up_def)

definition threads_of :: "omp_ptrs \<Rightarrow> mem \<Rightarrow> u32" where
  "threads_of o_p m = load32 m (omp_p o_p + 92)"

lemma fork_threads:
  assumes "omp_p o_p = kmpc_args o_p + 48" and "length args \<le> 12"
  shows "load32 (fill_args o_p fn args m) (omp_p o_p + 92) = threads_of o_p m"
  unfolding threads_of_def
proof (rule load32_cong)
  fix k :: nat
  assume k: "k < 4"
  have "omp_p o_p + 92 + word_of_nat k - kmpc_args o_p = word_of_nat (140 + k)"
    by (simp add: assms(1))
  moreover have "unat (word_of_nat (140 + k) :: u32) = 140 + k"
    by (rule unat_of_nat_small) (use k in simp)
  ultimately have u: "unat (omp_p o_p + 92 + word_of_nat k - kmpc_args o_p) = 140 + k" by (simp only:)
  have s: "4 * Suc (length args) \<le> 2 ^ 32" "\<not> 140 + k < 4 * Suc (length args)" using assms(2) by simp_all
  show "fill_args o_p fn args m (omp_p o_p + 92 + word_of_nat k) = m (omp_p o_p + 92 + word_of_nat k)"
    unfolding fill_args_byte [OF s(1)] Let_def u using s(2) by simp
qed

lemma fork_reads:
  assumes lay: "omp_p o_p = kmpc_args o_p + 48" and len: "length args \<le> 12" and i: "i < length args"
  shows "load32 (parallelRegion o_p n (fill_args o_p fn args m)) (arg_addr o_p (Suc i)) =
    (if i < 11 then args ! i else (args ! i AND NOT 255) OR ucast (ucast n :: u8))"
proof -
  have s: "4 * Suc (length args) \<le> 2 ^ 32" using len by simp
  show ?thesis
  proof (cases "i < 11")
    case True
    have "omp_p o_p - arg_addr o_p (Suc i) = word_of_nat (48 - 4 * Suc i)"
      using True by (simp add: lay arg_addr_def of_nat_diff)
    moreover have "unat (word_of_nat (48 - 4 * Suc i) :: u32) = 48 - 4 * Suc i"
      by (rule unat_of_nat_small) simp
    ultimately have "unat (omp_p o_p - arg_addr o_p (Suc i)) = 48 - 4 * Suc i" by (simp only:)
    moreover have "4 \<le> 48 - 4 * Suc i" using True by simp
    ultimately have "4 \<le> unat (omp_p o_p - arg_addr o_p (Suc i))" by (simp only:)
    then show ?thesis
      using True fill_args_word [OF s i] by (simp add: parallelRegion_def load32_store8_other)
  next
    case False
    then have "i = 11" using len i by simp
    then have "arg_addr o_p (Suc i) = omp_p o_p" by (simp add: lay arg_addr_def)
    then show ?thesis
      using False fill_args_word [OF s i, of o_p fn m] by (simp add: parallelRegion_def load32_store8_low)
  qed
qed

lemma fork_args:
  assumes "omp_p o_p = kmpc_args o_p + 48" and "length args \<le> 12"
  shows "take (length args) (read_args o_p (parallelRegion o_p n (fill_args o_p fn args m))) =
    (if length args \<le> 11 then args
     else take 11 args @ [(args ! 11 AND NOT 255) OR ucast (ucast n :: u8)])"
proof (rule nth_equalityI)
  show "length (take (length args) (read_args o_p (parallelRegion o_p n (fill_args o_p fn args m)))) =
      length (if length args \<le> 11 then args else take 11 args @ [(args ! 11 AND NOT 255) OR ucast (ucast n :: u8)])"
    using assms(2) by (simp add: read_args_def)
  fix i
  assume "i < length (take (length args) (read_args o_p (parallelRegion o_p n (fill_args o_p fn args m))))"
  then have i: "i < length args" "i < 12" using assms(2) by simp_all
  then show "take (length args) (read_args o_p (parallelRegion o_p n (fill_args o_p fn args m))) ! i =
      (if length args \<le> 11 then args else take 11 args @ [(args ! 11 AND NOT 255) OR ucast (ucast n :: u8)]) ! i"
    using fork_reads [OF assms i(1), of n fn m] assms(2)
    by (cases "i < 11"; cases "i = 11") (simp_all add: read_args_def nth_append)
qed

lemma fork_calls:
  assumes "omp_p o_p = kmpc_args o_p + 48" and "length args \<le> 12"
  shows "fst (kmpc_fork_call 0 o_p fn args m) = case_calls (length args)
    (read_args o_p (parallelRegion o_p (threads_of o_p m) (fill_args o_p fn args m)))"
proof -
  have "unat (word_of_nat (length args) :: u32) = length args"
    by (rule unat_of_nat_small) (use assms(2) in simp)
  moreover from this have "\<not> (12 :: u32) < word_of_nat (length args)"
    using assms(2) by (simp only: word_less_nat_alt) simp
  ultimately show ?thesis
    by (simp add: kmpc_fork_call_def microtask_wrapper_def fork_threads [OF assms] Let_def)
qed

text \<open>
  A fork with up to seven shared variables calls the outlined function once on each thread
  of the team, with the arguments it was given, in their order.
\<close>

theorem fork_few_args:
  assumes "omp_init nb a m0 = (o_p, a', m)" and "length args \<le> 7"
  shows "fst (kmpc_fork_call 0 o_p fn args m) = [Call_fn args]"
proof -
  note lay = omp_init_layout [OF assms(1)]
  have "length args \<le> 12" using assms(2) by simp
  note c = fork_calls [OF lay this] fork_args [OF lay this]
  show ?thesis using assms(2) by (simp add: c case_calls_low)
qed

definition demo_allocators :: allocators where
  "demo_allocators = \<lparr>l1_allocator = \<lparr>alloc_base = 0x10000000, alloc_size = 0x20000, alloc_next = 0x10000000\<rparr>,
     l3_allocator = \<lparr>alloc_base = 0, alloc_size = 0, alloc_next = 0\<rparr>\<rparr>"

theorem fork_few_args_witness:
  "fst (kmpc_fork_call 0 (fst (omp_init 8 demo_allocators (\<lambda>_. 0))) 0x80000100 [11, 22, 33]
     (snd (snd (omp_init 8 demo_allocators (\<lambda>_. 0))))) = [Call_fn [11, 22, 33]]"
  using fork_few_args [of 8 demo_allocators "\<lambda>_. 0" "fst (omp_init 8 demo_allocators (\<lambda>_. 0))"
    "fst (snd (omp_init 8 demo_allocators (\<lambda>_. 0)))" "snd (snd (omp_init 8 demo_allocators (\<lambda>_. 0)))"
    "[11, 22, 33]"] by simp

text \<open>
  With eight to eleven shared variables the cases of the wrapper run into each other. The
  function is called with the right arguments, and then again with one argument more each time,
  up to twelve: five times for eight arguments.
\<close>

theorem fork_fall_through:
  assumes "omp_init nb a m0 = (o_p, a', m)" and "8 \<le> length args" and "length args \<le> 11"
  shows "length (fst (kmpc_fork_call 0 o_p fn args m)) = 13 - length args \<and>
    hd (fst (kmpc_fork_call 0 o_p fn args m)) = Call_fn args"
proof -
  note lay = omp_init_layout [OF assms(1)]
  have "length args \<le> 12" using assms(3) by simp
  note c = fork_calls [OF lay this] fork_args [OF lay this, of "threads_of o_p m" fn m]
  have "[length args..<13] = length args # [Suc (length args)..<13]"
    using assms(3) by (simp add: upt_conv_Cons)
  then show ?thesis using assms(2,3) c(2) by (simp add: c(1) case_calls_high del: upt_Suc)
qed

theorem fork_fall_through_witness:
  "length (fst (kmpc_fork_call 0 (fst (omp_init 8 demo_allocators (\<lambda>_. 0))) 0x80000100
     [1, 2, 3, 4, 5, 6, 7, 8] (snd (snd (omp_init 8 demo_allocators (\<lambda>_. 0)))))) = 5"
  using fork_fall_through [of 8 demo_allocators "\<lambda>_. 0" "fst (omp_init 8 demo_allocators (\<lambda>_. 0))"
    "fst (snd (omp_init 8 demo_allocators (\<lambda>_. 0)))" "snd (snd (omp_init 8 demo_allocators (\<lambda>_. 0)))"
    "[1, 2, 3, 4, 5, 6, 7, 8]"] by simp

text \<open>
  The twelfth shared variable is corrupted. The argument vector has twelve words, and the
  first of them holds the function: the twelfth argument is stored in the first word of \<open>omp_t\<close>,
  whose lowest byte, the team's number of threads, is written before the threads read it.
\<close>

theorem fork_twelfth_arg_corrupted:
  assumes "omp_init nb a m0 = (o_p, a', m)" and "length args = 12"
  shows "fst (kmpc_fork_call 0 o_p fn args m) =
    [Call_fn (take 11 args @ [(args ! 11 AND NOT 255) OR ucast (ucast (threads_of o_p m) :: u8)])]"
proof -
  note lay = omp_init_layout [OF assms(1)]
  have "length args \<le> 12" using assms(2) by simp
  note c = fork_calls [OF lay this] fork_args [OF lay this, of "threads_of o_p m" fn m]
  show ?thesis using assms(2) c(2) by (simp add: c(1) case_calls_low)
qed

theorem fork_twelfth_arg_corrupted_witness:
  "\<exists>x. fst (kmpc_fork_call 0 (fst (omp_init 8 demo_allocators (\<lambda>_. 0))) 0x80000100
     [1, 2, 3, 4, 5, 6, 7, 8, 9, 10, 11, 0x1234] (snd (snd (omp_init 8 demo_allocators (\<lambda>_. 0))))) =
     [Call_fn [1, 2, 3, 4, 5, 6, 7, 8, 9, 10, 11, 0x1200 OR ucast (x :: u8)]]"
  using fork_twelfth_arg_corrupted [of 8 demo_allocators "\<lambda>_. 0" "fst (omp_init 8 demo_allocators (\<lambda>_. 0))"
    "fst (snd (omp_init 8 demo_allocators (\<lambda>_. 0)))" "snd (snd (omp_init 8 demo_allocators (\<lambda>_. 0)))"
    "[1, 2, 3, 4, 5, 6, 7, 8, 9, 10, 11, 0x1234]"] by (simp add: numeral_eq_Suc) blast

end
