(* ===== verification/Eu.thy ===== *)
theory Eu
  imports Prelude
begin

text \<open>
  The event unit (sw/snRuntime/src/omp/eu.h): the workers of a cluster sleep in
  \<open>eu_event_loop\<close>, and the main core dispatches a task to some of them with \<open>eu_dispatch_push\<close> and
  \<open>eu_run_empty\<close>. The state is the shared \<open>eu_t\<close>, the cluster interrupt bits and where each core
  is; a step is one statement of one core.
\<close>

section \<open>State\<close>

text \<open>
  Where a worker is in its loop: at the exit check and the test of its index, calling the task,
  counting itself as finished, counting itself as sleeping, asleep, clearing its interrupt, and
  counting itself as awake.
\<close>

datatype worker_pc = WCheck | WRun | WFini | WSleep | WAsleep | WClear | WWake | WExit

text \<open>
  Where the main core is: outside; in \<open>eu_dispatch_push\<close> (waiting for the workers to sleep, filling
  the event); in \<open>eu_run_empty\<close> (resetting the count, waiting, waking, running its own part,
  joining, closing the event).
\<close>

datatype main_pc = MOut | MPush nat | MFill nat | MReset | MWait | MWakeUp | MOwn | MJoin | MClose

record eu =
  e_nthreads :: nat
  fini_count :: nat
  workers_in_loop :: nat
  workers_wfi :: nat
  exit_flag :: bool
  int_pending :: "nat \<Rightarrow> bool"
  worker :: "nat \<Rightarrow> worker_pc"
  main :: main_pc
  runs :: "nat \<Rightarrow> nat"

text \<open>\<open>runs\<close> counts how often each core has called the current task; no code reads it.\<close>

definition w_goto :: "nat \<Rightarrow> worker_pc \<Rightarrow> eu \<Rightarrow> eu" where
  "w_goto w l s = s\<lparr>worker := (worker s)(w := l)\<rparr>"

definition ran :: "nat \<Rightarrow> eu \<Rightarrow> eu" where
  "ran i s = s\<lparr>runs := (runs s)(i := Suc (runs s i))\<rparr>"

section \<open>Steps\<close>

text \<open>\<open>worker_wfi\<close> is the last four of these statements; a worker asleep needs an interrupt.\<close>

definition eu_event_loop :: "nat \<Rightarrow> eu \<Rightarrow> eu option" where
  "eu_event_loop w s = (case worker s w of
     WCheck \<Rightarrow> Some (w_goto w (if exit_flag s then WExit else if w < e_nthreads s then WRun else WFini) s)
   | WRun \<Rightarrow> Some (w_goto w WFini (ran w s))
   | WFini \<Rightarrow> Some (w_goto w WSleep (s\<lparr>fini_count := Suc (fini_count s)\<rparr>))
   | WSleep \<Rightarrow> Some (w_goto w WAsleep (s\<lparr>workers_wfi := Suc (workers_wfi s)\<rparr>))
   | WAsleep \<Rightarrow> if int_pending s w then Some (w_goto w WClear s) else None
   | WClear \<Rightarrow> Some (w_goto w WWake (s\<lparr>int_pending := (int_pending s)(w := False)\<rparr>))
   | WWake \<Rightarrow> Some (w_goto w WCheck (s\<lparr>workers_wfi := workers_wfi s - 1\<rparr>))
   | WExit \<Rightarrow> None)"

definition all_asleep :: "eu \<Rightarrow> bool" where
  "all_asleep s \<longleftrightarrow> workers_wfi s = workers_in_loop s"

definition eu_dispatch_push :: "eu \<Rightarrow> eu option" where
  "eu_dispatch_push s = (case main s of
     MPush n \<Rightarrow> if all_asleep s then Some (s\<lparr>main := MFill n\<rparr>) else None
   | MFill n \<Rightarrow> Some (s\<lparr>e_nthreads := n, runs := (\<lambda>_. 0), main := MReset\<rparr>)
   | _ \<Rightarrow> None)"

text \<open>\<open>wake_workers\<close> sets the interrupts of the compute cores but the first: \<open>m\<close> is their number.\<close>

definition wake_workers :: "nat \<Rightarrow> eu \<Rightarrow> eu" where
  "wake_workers m s = s\<lparr>int_pending := (\<lambda>w. int_pending s w \<or> 1 \<le> w \<and> w < m)\<rparr>"

definition eu_run_empty :: "nat \<Rightarrow> eu \<Rightarrow> eu option" where
  "eu_run_empty m s = (case main s of
     MReset \<Rightarrow> Some (if e_nthreads s = 0 then s\<lparr>main := MOut\<rparr>
                else s\<lparr>fini_count := 0, main := if 1 < e_nthreads s then MWait else MOwn\<rparr>)
   | MWait \<Rightarrow> if all_asleep s then Some (s\<lparr>main := MWakeUp\<rparr>) else None
   | MWakeUp \<Rightarrow> Some (wake_workers m s\<lparr>main := MOwn\<rparr>)
   | MOwn \<Rightarrow> Some (ran 0 s\<lparr>main := if 1 < e_nthreads s then MJoin else MClose\<rparr>)
   | MJoin \<Rightarrow> if fini_count s = workers_in_loop s then Some (s\<lparr>main := MClose\<rparr>) else None
   | MClose \<Rightarrow> Some (s\<lparr>e_nthreads := 0, main := MOut\<rparr>)
   | _ \<Rightarrow> None)"

text \<open>\<open>m\<close> compute cores: the main core 0 and the workers 1 to \<open>m - 1\<close>.\<close>

inductive eu_step :: "nat \<Rightarrow> eu \<Rightarrow> eu \<Rightarrow> bool" for m where
  eu_call: "main s = MOut \<Longrightarrow> n \<le> m \<Longrightarrow> eu_step m s (s\<lparr>main := MPush n\<rparr>)"
| eu_push: "eu_dispatch_push s = Some t \<Longrightarrow> eu_step m s t"
| eu_run: "eu_run_empty m s = Some t \<Longrightarrow> eu_step m s t"
| eu_work: "1 \<le> w \<Longrightarrow> w < m \<Longrightarrow> eu_event_loop w s = Some t \<Longrightarrow> eu_step m s t"

text \<open>After the bootstrap: every worker sleeps in the loop.\<close>

definition eu_start :: "nat \<Rightarrow> eu \<Rightarrow> bool" where
  "eu_start m s \<longleftrightarrow> 1 \<le> m \<and> e_nthreads s = 0 \<and> workers_in_loop s = m - 1 \<and> workers_wfi s = m - 1 \<and>
     \<not> exit_flag s \<and> main s = MOut \<and> (\<forall>w. \<not> int_pending s w) \<and> (\<forall>w. worker s w = WAsleep)"

section \<open>The invariant\<close>

definition workers :: "nat \<Rightarrow> nat set" where
  "workers m = {w. 1 \<le> w \<and> w < m}"

text \<open>The workers that count as sleeping, and those that have counted themselves as finished.\<close>

definition sleeping :: "eu \<Rightarrow> nat \<Rightarrow> bool" where
  "sleeping s w \<longleftrightarrow> worker s w \<in> {WAsleep, WClear, WWake}"

definition resting :: "eu \<Rightarrow> nat \<Rightarrow> bool" where
  "resting s w \<longleftrightarrow> worker s w = WSleep \<and> \<not> int_pending s w \<or> worker s w = WAsleep \<and> \<not> int_pending s w"

text \<open>What a worker has done of the current task once the main core has woken it.\<close>

definition share :: "eu \<Rightarrow> nat \<Rightarrow> nat" where
  "share s w = (if w < e_nthreads s then 1 else 0)"

definition awake_ok :: "eu \<Rightarrow> nat \<Rightarrow> bool" where
  "awake_ok s w \<longleftrightarrow> (case worker s w of
     WAsleep \<Rightarrow> if int_pending s w then runs s w = 0 else runs s w = share s w
   | WClear \<Rightarrow> runs s w = 0
   | WWake \<Rightarrow> runs s w = 0 \<and> \<not> int_pending s w
   | WCheck \<Rightarrow> runs s w = 0 \<and> \<not> int_pending s w
   | WRun \<Rightarrow> runs s w = 0 \<and> \<not> int_pending s w \<and> w < e_nthreads s
   | WFini \<Rightarrow> runs s w = share s w \<and> \<not> int_pending s w
   | WSleep \<Rightarrow> runs s w = share s w \<and> \<not> int_pending s w
   | WExit \<Rightarrow> False)"

definition main_ok :: "nat \<Rightarrow> eu \<Rightarrow> bool" where
  "main_ok m s \<longleftrightarrow> (case main s of
     MOut \<Rightarrow> e_nthreads s = 0 \<and> (\<forall>w \<in> workers m. resting s w)
   | MPush n \<Rightarrow> n \<le> m \<and> (\<forall>w \<in> workers m. resting s w)
   | MFill n \<Rightarrow> n \<le> m \<and> (\<forall>w \<in> workers m. resting s w \<and> sleeping s w)
   | MReset \<Rightarrow> e_nthreads s \<le> m \<and> (\<forall>w \<in> workers m. resting s w \<and> sleeping s w) \<and> (\<forall>i. runs s i = 0)
   | MWait \<Rightarrow> 1 < e_nthreads s \<and> e_nthreads s \<le> m \<and> fini_count s = 0 \<and>
       (\<forall>w \<in> workers m. resting s w \<and> sleeping s w) \<and> (\<forall>i. runs s i = 0)
   | MWakeUp \<Rightarrow> 1 < e_nthreads s \<and> e_nthreads s \<le> m \<and> fini_count s = 0 \<and>
       (\<forall>w \<in> workers m. resting s w \<and> sleeping s w) \<and> (\<forall>i. runs s i = 0)
   | MOwn \<Rightarrow> 0 < e_nthreads s \<and> e_nthreads s \<le> m \<and> runs s 0 = 0 \<and>
       (if 1 < e_nthreads s
        then (\<forall>w \<in> workers m. awake_ok s w) \<and> fini_count s = card {w \<in> workers m. resting s w}
        else (\<forall>w \<in> workers m. resting s w \<and> sleeping s w \<and> runs s w = 0))
   | MJoin \<Rightarrow> 1 < e_nthreads s \<and> e_nthreads s \<le> m \<and> runs s 0 = 1 \<and>
       (\<forall>w \<in> workers m. awake_ok s w) \<and> fini_count s = card {w \<in> workers m. resting s w}
   | MClose \<Rightarrow> 0 < e_nthreads s \<and> e_nthreads s \<le> m \<and> runs s 0 = 1 \<and>
       (\<forall>w \<in> workers m. resting s w \<and> runs s w = share s w))"

definition eu_inv :: "nat \<Rightarrow> eu \<Rightarrow> bool" where
  "eu_inv m s \<longleftrightarrow> 1 \<le> m \<and> workers_in_loop s = m - 1 \<and> \<not> exit_flag s \<and>
     workers_wfi s = card {w \<in> workers m. sleeping s w} \<and> main_ok m s"

lemma finite_workers [simp]: "finite (workers m)"
  by (rule finite_subset [of _ "{..<m}"]) (auto simp: workers_def)

lemma card_workers: "card (workers m) = m - 1"
proof -
  have "workers m = {1..<m}" by (auto simp: workers_def)
  then show ?thesis by simp
qed

text \<open>Counting is complete exactly when everybody is counted.\<close>

lemma count_all: "card {w \<in> workers m. P w} = m - 1 \<longleftrightarrow> (\<forall>w \<in> workers m. P w)"
proof
  assume "card {w \<in> workers m. P w} = m - 1"
  then have "{w \<in> workers m. P w} = workers m"
    using card_subset_eq [of "workers m" "{w \<in> workers m. P w}"] card_workers [of m] by auto
  then show "\<forall>w \<in> workers m. P w" by blast
next
  assume "\<forall>w \<in> workers m. P w"
  then have "{w \<in> workers m. P w} = workers m" by blast
  then show "card {w \<in> workers m. P w} = m - 1" by (simp add: card_workers)
qed

text \<open>One worker joins or leaves a counted set.\<close>

lemma count_join:
  assumes "w \<in> workers m" and "\<not> P w" and "Q w" and "\<And>v. v \<noteq> w \<Longrightarrow> Q v = P v"
  shows "card {v \<in> workers m. Q v} = Suc (card {v \<in> workers m. P v})"
proof -
  have "{v \<in> workers m. Q v} = insert w {v \<in> workers m. P v}"
    using assms by (auto, metis+)
  then show ?thesis using assms(2) by simp
qed

lemma count_same: "(\<And>v. v \<in> workers m \<Longrightarrow> Q v = P v) \<Longrightarrow> card {v \<in> workers m. Q v} = card {v \<in> workers m. P v}"
  by (metis (mono_tags, lifting) Collect_cong)

section \<open>Steps of a worker\<close>

lemma worker_frame:
  assumes "eu_event_loop w s = Some t"
  shows "v \<noteq> w \<Longrightarrow> worker t v = worker s v \<and> int_pending t v = int_pending s v \<and> runs t v = runs s v"
    and "main t = main s" and "e_nthreads t = e_nthreads s" and "workers_in_loop t = workers_in_loop s"
    and "exit_flag t = exit_flag s"
  using assms by (auto simp: eu_event_loop_def w_goto_def ran_def split: worker_pc.splits if_splits)

lemma worker_frame_preds:
  assumes "eu_event_loop w s = Some t" and "v \<noteq> w"
  shows "sleeping t v = sleeping s v" "resting t v = resting s v" "share t v = share s v"
    "awake_ok t v = awake_ok s v"
  using worker_frame [OF assms(1)] assms(2)
  by (simp_all add: sleeping_def resting_def share_def awake_ok_def cong: worker_pc.case_cong)

lemma resting_step:
  assumes "resting s w" and "eu_event_loop w s = Some t"
  shows "worker s w = WSleep" and "resting t w" and "sleeping t w" and "runs t w = runs s w"
    and "workers_wfi t = Suc (workers_wfi s)" and "fini_count t = fini_count s"
  using assms by (auto simp: resting_def sleeping_def eu_event_loop_def w_goto_def split: if_splits)

lemma awake_step:
  assumes ok: "awake_ok s w" and "\<not> exit_flag s" and st: "eu_event_loop w s = Some t"
  shows "awake_ok t w"
    and "sleeping t w = sleeping s w \<and> workers_wfi t = workers_wfi s \<or>
      \<not> sleeping s w \<and> sleeping t w \<and> workers_wfi t = Suc (workers_wfi s) \<or>
      sleeping s w \<and> \<not> sleeping t w \<and> workers_wfi t = workers_wfi s - 1"
    and "resting t w = resting s w \<and> fini_count t = fini_count s \<or>
      \<not> resting s w \<and> resting t w \<and> fini_count t = Suc (fini_count s)"
  using assms
  by (cases "worker s w"; auto simp: eu_event_loop_def w_goto_def ran_def awake_ok_def share_def
      sleeping_def resting_def split: if_splits)+

lemma card_sleeping_step:
  assumes w: "w \<in> workers m" and st: "eu_event_loop w s = Some t"
    and wfi: "workers_wfi s = card {v \<in> workers m. sleeping s v}"
    and ch: "sleeping t w = sleeping s w \<and> workers_wfi t = workers_wfi s \<or>
      \<not> sleeping s w \<and> sleeping t w \<and> workers_wfi t = Suc (workers_wfi s) \<or>
      sleeping s w \<and> \<not> sleeping t w \<and> workers_wfi t = workers_wfi s - 1"
  shows "workers_wfi t = card {v \<in> workers m. sleeping t v}"
proof -
  note other = worker_frame_preds(1) [OF st]
  consider "sleeping t w = sleeping s w" "workers_wfi t = workers_wfi s"
    | "\<not> sleeping s w" "sleeping t w" "workers_wfi t = Suc (workers_wfi s)"
    | "sleeping s w" "\<not> sleeping t w" "workers_wfi t = workers_wfi s - 1"
    using ch by blast
  then show ?thesis
  proof cases
    case 1
    then have "sleeping t v = sleeping s v" for v using other by (cases "v = w") simp_all
    then show ?thesis using wfi 1 by simp
  next
    case 2
    then show ?thesis using count_join [OF w, of "sleeping s" "sleeping t"] other wfi by simp
  next
    case 3
    then show ?thesis using count_join [OF w, of "sleeping t" "sleeping s"] other wfi by simp
  qed
qed

lemma card_resting_step:
  assumes w: "w \<in> workers m" and st: "eu_event_loop w s = Some t"
    and fini: "fini_count s = card {v \<in> workers m. resting s v}"
    and ch: "resting t w = resting s w \<and> fini_count t = fini_count s \<or>
      \<not> resting s w \<and> resting t w \<and> fini_count t = Suc (fini_count s)"
  shows "fini_count t = card {v \<in> workers m. resting t v}"
proof -
  note other = worker_frame_preds(2) [OF st]
  from ch show ?thesis
  proof
    assume 1: "resting t w = resting s w \<and> fini_count t = fini_count s"
    then have "resting t v = resting s v" for v using other by (cases "v = w") simp_all
    then show ?thesis using fini 1 by simp
  next
    assume 2: "\<not> resting s w \<and> resting t w \<and> fini_count t = Suc (fini_count s)"
    then show ?thesis using count_join [OF w, of "resting s" "resting t"] other fini by simp
  qed
qed

text \<open>A worker that the main core has not woken can only fall asleep.\<close>

lemma eu_inv_resting_step:
  assumes inv: "eu_inv m s" and w: "w \<in> workers m" and st: "eu_event_loop w s = Some t"
    and r: "resting s w" and main: "main s \<in> {MOut, MClose} \<or> (\<exists>n. main s = MPush n)"
  shows "eu_inv m t"
proof -
  note rs = resting_step [OF r st]
  have "\<not> sleeping s w" using rs(1) by (simp add: sleeping_def)
  then have "workers_wfi t = card {v \<in> workers m. sleeping t v}"
    using card_sleeping_step [OF w st] inv rs(3,5) by (simp add: eu_inv_def)
  moreover have "resting t v = resting s v" "share t v = share s v" "runs t v = runs s v" for v
    using worker_frame_preds [OF st, of v] worker_frame(1,3) [OF st] r rs
    by (cases "v = w"; simp add: share_def)+
  then have "main_ok m t"
    using inv main worker_frame(2,3) [OF st] by (auto simp: eu_inv_def main_ok_def)
  ultimately show ?thesis using inv worker_frame(4,5) [OF st] by (simp add: eu_inv_def)
qed

lemma eu_inv_awake_step:
  assumes inv: "eu_inv m s" and w: "w \<in> workers m" and st: "eu_event_loop w s = Some t"
    and main: "main s = MJoin \<or> main s = MOwn \<and> 1 < e_nthreads s"
  shows "eu_inv m t"
proof -
  have ok: "\<And>v. v \<in> workers m \<Longrightarrow> awake_ok s v"
    and fini: "fini_count s = card {v \<in> workers m. resting s v}"
    and ex: "\<not> exit_flag s" and wfi: "workers_wfi s = card {v \<in> workers m. sleeping s v}"
    using inv main by (auto simp: eu_inv_def main_ok_def)
  note aw = awake_step [OF ok [OF w] ex st]
  have "workers_wfi t = card {v \<in> workers m. sleeping t v}"
    by (rule card_sleeping_step [OF w st wfi aw(2)])
  moreover have "fini_count t = card {v \<in> workers m. resting t v}"
    by (rule card_resting_step [OF w st fini aw(3)])
  moreover have "awake_ok t v" if "v \<in> workers m" for v
    using worker_frame_preds(4) [OF st, of v] ok [OF that] aw(1) by (cases "v = w") simp_all
  moreover have "runs t 0 = runs s 0" using worker_frame(1) [OF st, of 0] w by (auto simp: workers_def)
  ultimately show ?thesis
    using inv main worker_frame(2-5) [OF st] by (auto simp: eu_inv_def main_ok_def)
qed

lemma eu_inv_work:
  assumes inv: "eu_inv m s" and w: "w \<in> workers m" and st: "eu_event_loop w s = Some t"
  shows "eu_inv m t"
proof -
  have asleep: False if "resting s w" "sleeping s w"
    using resting_step(1) [OF that(1) st] that(2) by (simp add: sleeping_def)
  have ok: "main_ok m s" using inv by (simp add: eu_inv_def)
  show ?thesis
  proof (cases "main s = MJoin \<or> main s = MOwn \<and> 1 < e_nthreads s")
    case True
    then show ?thesis by (rule eu_inv_awake_step [OF inv w st])
  next
    case False
    then have "resting s w \<and> (main s \<in> {MOut, MClose} \<or> (\<exists>n. main s = MPush n))"
      using ok w asleep by (cases "main s") (auto simp: main_ok_def)
    then show ?thesis using eu_inv_resting_step [OF inv w st] by blast
  qed
qed

section \<open>Steps of the main core\<close>

lemma preds_same:
  assumes "worker t = worker s" "int_pending t = int_pending s"
  shows "sleeping t = sleeping s" "resting t = resting s"
  using assms by (simp_all add: fun_eq_iff sleeping_def resting_def)

lemma eu_inv_push:
  assumes inv: "eu_inv m s" and st: "eu_dispatch_push s = Some t"
  shows "eu_inv m t"
proof (cases "main s")
  case (MPush n)
  then have t: "t = s\<lparr>main := MFill n\<rparr>" and "workers_wfi s = workers_in_loop s"
    using st by (simp_all add: eu_dispatch_push_def all_asleep_def split: if_splits)
  then have "\<forall>w \<in> workers m. sleeping s w"
    using inv count_all [of m "sleeping s"] by (simp add: eu_inv_def)
  then show ?thesis
    using inv MPush preds_same [of t s] by (simp add: t eu_inv_def main_ok_def)
next
  case (MFill n)
  then have t: "t = s\<lparr>e_nthreads := n, runs := (\<lambda>_. 0), main := MReset\<rparr>"
    using st by (simp add: eu_dispatch_push_def)
  then show ?thesis
    using inv MFill preds_same [of t s] by (simp add: eu_inv_def main_ok_def)
qed (use st in \<open>simp_all add: eu_dispatch_push_def\<close>)

lemma eu_inv_wake:
  assumes inv: "eu_inv m s" and main: "main s = MWakeUp"
  shows "eu_inv m (wake_workers m s\<lparr>main := MOwn\<rparr>)"
proof -
  let ?t = "wake_workers m s\<lparr>main := MOwn\<rparr>"
  have all: "\<And>w. w \<in> workers m \<Longrightarrow> resting s w \<and> sleeping s w" and z: "\<forall>i. runs s i = 0"
    and n: "1 < e_nthreads s" "e_nthreads s \<le> m" "fini_count s = 0"
    using inv main by (auto simp: eu_inv_def main_ok_def)
  have a: "worker s w = WAsleep" if "w \<in> workers m" for w
    using all [OF that] by (auto simp: resting_def sleeping_def)
  have "awake_ok ?t w \<and> \<not> resting ?t w" if "w \<in> workers m" for w
    using a [OF that] z that by (simp add: awake_ok_def resting_def wake_workers_def workers_def)
  then have "{w \<in> workers m. resting ?t w} = {}" "\<forall>w \<in> workers m. awake_ok ?t w" by auto
  moreover have "sleeping ?t = sleeping s" by (simp add: fun_eq_iff sleeping_def wake_workers_def)
  ultimately show ?thesis
    using inv n z by (simp add: eu_inv_def main_ok_def) (simp add: wake_workers_def)
qed

lemma eu_inv_run:
  assumes inv: "eu_inv m s" and st: "eu_run_empty m s = Some t"
  shows "eu_inv m t"
proof (cases "main s")
  case MReset
  then have t: "t = (if e_nthreads s = 0 then s\<lparr>main := MOut\<rparr>
      else s\<lparr>fini_count := 0, main := if 1 < e_nthreads s then MWait else MOwn\<rparr>)"
    using st by (simp add: eu_run_empty_def)
  then show ?thesis
    using inv MReset preds_same [of t s] by (auto simp: eu_inv_def main_ok_def)
next
  case MWait
  then have t: "t = s\<lparr>main := MWakeUp\<rparr>" using st by (simp add: eu_run_empty_def split: if_splits)
  then show ?thesis
    using inv MWait preds_same [of t s] by (simp add: eu_inv_def main_ok_def)
next
  case MWakeUp
  then show ?thesis using st eu_inv_wake [OF inv MWakeUp] by (simp add: eu_run_empty_def)
next
  case MOwn
  then have t: "t = ran 0 s\<lparr>main := if 1 < e_nthreads s then MJoin else MClose\<rparr>"
    using st by (simp add: eu_run_empty_def)
  have p: "sleeping t = sleeping s" "resting t = resting s"
    using preds_same [of t s] by (simp_all add: t ran_def)
  have "awake_ok t w = awake_ok s w \<and> runs t w = runs s w \<and> share t w = share s w" if "w \<in> workers m" for w
    using that by (simp add: t ran_def awake_ok_def share_def workers_def cong: worker_pc.case_cong)
  moreover have "share s w = 0" if "w \<in> workers m" "\<not> 1 < e_nthreads s" for w
    using that by (simp add: share_def workers_def)
  ultimately show ?thesis
    using inv MOwn p by (auto simp: eu_inv_def main_ok_def) (auto simp: t ran_def split: if_splits)
next
  case MJoin
  then have t: "t = s\<lparr>main := MClose\<rparr>" and f: "fini_count s = workers_in_loop s"
    using st by (simp_all add: eu_run_empty_def split: if_splits)
  have r: "\<forall>w \<in> workers m. resting s w"
    using inv MJoin f count_all [of m "resting s"] by (simp add: eu_inv_def main_ok_def)
  have "runs s w = share s w" if "w \<in> workers m" for w
  proof -
    have "awake_ok s w" "resting s w" using inv MJoin r that by (auto simp: eu_inv_def main_ok_def)
    then show ?thesis by (auto simp: awake_ok_def resting_def)
  qed
  then show ?thesis
    using inv MJoin r preds_same [of t s] by (simp add: t eu_inv_def main_ok_def share_def)
next
  case MClose
  then have t: "t = s\<lparr>e_nthreads := 0, main := MOut\<rparr>" using st by (simp add: eu_run_empty_def)
  then show ?thesis
    using inv MClose preds_same [of t s] by (simp add: eu_inv_def main_ok_def)
qed (use st in \<open>simp_all add: eu_run_empty_def\<close>)

lemma eu_inv_step: "eu_step m s t \<Longrightarrow> eu_inv m s \<Longrightarrow> eu_inv m t"
proof (induction rule: eu_step.induct)
  case (eu_call s n)
  then show ?case
    using preds_same [of "s\<lparr>main := MPush n\<rparr>" s] by (simp add: eu_inv_def main_ok_def)
next
  case (eu_push s t)
  then show ?case using eu_inv_push by blast
next
  case (eu_run s t)
  then show ?case using eu_inv_run by blast
next
  case (eu_work w s t)
  then show ?case using eu_inv_work by (simp add: workers_def)
qed

lemma eu_inv_start: "eu_start m s \<Longrightarrow> eu_inv m s"
proof -
  assume s: "eu_start m s"
  then have "{w \<in> workers m. sleeping s w} = workers m" by (auto simp: eu_start_def sleeping_def)
  then show ?thesis
    using s by (simp add: eu_inv_def eu_start_def main_ok_def resting_def card_workers)
qed

interpretation fork_join: transition_system "eu_start m" "eu_step m" "eu_inv m" for m
  by unfold_locales (auto intro: eu_inv_start eu_inv_step)

section \<open>Properties\<close>

text \<open>
  C33: the fork-join protocol. In every interleaving of the main core and the workers, when
  \<open>eu_run_empty\<close> is about to close the event, every core below the number of threads has called
  the task exactly once, no other core has, and no worker is still inside the task.
\<close>

theorem eu_fork_join:
  assumes "eu_start m s" and "(eu_step m)\<^sup>*\<^sup>* s t" and "main t = MClose"
  shows "(\<forall>i < m. runs t i = (if i < e_nthreads t then 1 else 0)) \<and>
    (\<forall>w \<in> workers m. worker t w \<noteq> WRun)"
proof -
  have "eu_inv m t" by (rule fork_join.reachable_inv [OF assms(1,2)])
  then have main: "0 < e_nthreads t" "runs t 0 = 1"
      "\<And>w. w \<in> workers m \<Longrightarrow> resting t w \<and> runs t w = share t w"
    using assms(3) by (auto simp: eu_inv_def main_ok_def)
  have "runs t i = (if i < e_nthreads t then 1 else 0)" if "i < m" for i
    using main that by (cases "i = 0") (auto simp: workers_def share_def)
  moreover have "worker t w \<noteq> WRun" if "w \<in> workers m" for w
    using main(3) [OF that] by (auto simp: resting_def)
  ultimately show ?thesis by blast
qed

definition eu_ready :: "nat \<Rightarrow> eu" where
  "eu_ready m = \<lparr>e_nthreads = 0, fini_count = m - 1, workers_in_loop = m - 1, workers_wfi = m - 1,
     exit_flag = False, int_pending = (\<lambda>_. False), worker = (\<lambda>_. WAsleep), main = MOut, runs = (\<lambda>_. 0)\<rparr>"

text \<open>A run of the statements of one core at a time; core 0 is the main core.\<close>

fun eu_run_list :: "nat \<Rightarrow> nat list \<Rightarrow> eu \<Rightarrow> eu option" where
  "eu_run_list m [] s = Some s"
| "eu_run_list m (c # cs) s =
     (let r = (if c = 0 then (case main s of MPush n \<Rightarrow> eu_dispatch_push s | MFill n \<Rightarrow> eu_dispatch_push s
                             | _ \<Rightarrow> eu_run_empty m s)
               else if c < m then eu_event_loop c s else None)
      in Option.bind r (eu_run_list m cs))"

lemma eu_run_list_steps: "eu_run_list m cs s = Some t \<Longrightarrow> (eu_step m)\<^sup>*\<^sup>* s t"
proof (induction cs arbitrary: s)
  case (Cons c cs)
  then obtain u where u: "eu_run_list m cs u = Some t"
    "(if c = 0 then (case main s of MPush n \<Rightarrow> eu_dispatch_push s | MFill n \<Rightarrow> eu_dispatch_push s
        | _ \<Rightarrow> eu_run_empty m s) else if c < m then eu_event_loop c s else None) = Some u"
    by (auto simp: bind_eq_Some_conv Let_def)
  have "eu_step m s u"
  proof (cases "c = 0")
    case True
    then show ?thesis using u(2) by (cases "main s") (auto intro: eu_push eu_run)
  next
    case False
    then have "1 \<le> c" "c < m" "eu_event_loop c s = Some u" using u(2) by (auto split: if_splits)
    then show ?thesis by (rule eu_work)
  qed
  then show ?case using Cons.IH [OF u(1)] by (rule converse_rtranclp_into_rtranclp)
qed simp

theorem eu_fork_join_witness:
  "\<exists>t. eu_run_list 2 ([0, 0, 0, 0, 0] @ replicate 6 1 @ [0, 0]) (eu_ready 2\<lparr>main := MPush 2\<rparr>) = Some t \<and>
     main t = MClose \<and> runs t 1 = 1"
proof -
  let ?cs = "[0, 0, 0, 0, 0] @ [1, 1, 1, 1, 1, 1] @ [0, 0]"
  obtain t where t: "eu_run_list 2 ?cs (eu_ready 2\<lparr>main := MPush 2\<rparr>) = Some t" "main t = MClose"
    "e_nthreads t = 2"
    by (simp add: eu_ready_def eu_dispatch_push_def eu_run_empty_def eu_event_loop_def all_asleep_def
      wake_workers_def ran_def w_goto_def Let_def)
  have "eu_step 2 (eu_ready 2) (eu_ready 2\<lparr>main := MPush 2\<rparr>)"
    by (rule eu_call) (simp_all add: eu_ready_def)
  then have "(eu_step 2)\<^sup>*\<^sup>* (eu_ready 2) t"
    using eu_run_list_steps [OF t(1)] by (rule converse_rtranclp_into_rtranclp)
  moreover have "eu_start 2 (eu_ready 2)" by (simp add: eu_start_def eu_ready_def)
  ultimately have "\<forall>i < 2. runs t i = (if i < e_nthreads t then 1 else 0)"
    using eu_fork_join t(2) by blast
  moreover have "replicate 6 (1 :: nat) = [1, 1, 1, 1, 1, 1]" by (simp add: numeral_eq_Suc)
  ultimately show ?thesis using t by auto
qed

end
