(* ===== verification/Streamer.thy ===== *)
theory Streamer
  imports Csr
begin

text \<open>
  The data streamers that feed the accelerators: every accelerator reads its operands and writes
  its results through a set of ports, each programmed through the registers that the generated
  header \<open>streamer_csr_addr_map.h\<close> names. The register numbers are a parameter of the model.

  What a port does with its registers is decided by its address generation unit
  (hw/chisel/src/main/scala/snax/readerWriter/AddressGenUnit.scala, Reader.scala): nested
  counters over the temporal bounds, a spatial offset per channel, and a start condition.
\<close>

section \<open>Ports and their registers\<close>

datatype port = Reader nat | Writer nat | Reader_Writer nat

text \<open>
  The registers of a port: \<open>BASE_PTR_*_LOW\<close> and \<open>_HIGH\<close>, the base and number of the spatial
  strides, temporal bounds and temporal strides, and, where the header defines them,
  \<open>ADDR_REMAP_INDEX_*\<close> and \<open>ENABLED_CHANNEL_*\<close> with its number of registers.
\<close>

record port_regs =
  base_ptr_low :: u32
  base_ptr_high :: u32
  s_stride_base :: u32
  s_stride_num :: nat
  t_bound_base :: u32
  t_bound_num :: nat
  t_stride_base :: u32
  t_stride_num :: nat
  addr_remap_index :: "u32 option"
  enabled_channel :: "(u32 \<times> nat) option"

record streamer_map =
  regs_of :: "port \<Rightarrow> port_regs"
  ext_csr_base :: "port \<Rightarrow> u32 option"
  DELAYED_START_READER :: "nat \<Rightarrow> u32"
  STREAMER_START_CSR :: u32
  STREAMER_BUSY_CSR :: u32
  STREAMER_PERFORMANCE_COUNTER_CSR :: u32

text \<open>The addresses of the stream registers of a port, and of all of some ports.\<close>

definition block_addrs :: "u32 \<Rightarrow> nat \<Rightarrow> u32 list" where
  "block_addrs b n = map (\<lambda>i. b + word_of_nat i) [0..<n]"

definition stream_addrs :: "port_regs \<Rightarrow> u32 list" where
  "stream_addrs r = base_ptr_low r # block_addrs (s_stride_base r) (s_stride_num r) @
     block_addrs (t_bound_base r) (t_bound_num r) @ block_addrs (t_stride_base r) (t_stride_num r)"

definition ports_addrs :: "streamer_map \<Rightarrow> port list \<Rightarrow> u32 list" where
  "ports_addrs m ps = concat (map (\<lambda>p. stream_addrs (regs_of m p)) ps)"

section \<open>What the hardware makes of them\<close>

record agu_cfg =
  agu_ptr :: u32
  agu_spatial :: "u32 list"
  agu_bounds :: "u32 list"
  agu_strides :: "u32 list"

text \<open>
  The temporal offsets in the order the counters produce them, the first dimension innermost;
  a counter adds its stride \<open>bound\<close> times and starts over.
\<close>

fun temporal_offsets :: "(u32 \<times> u32) list \<Rightarrow> u32 list" where
  "temporal_offsets [] = [0]"
| "temporal_offsets ((b, st) # ds) =
     concat (map (\<lambda>t. map (\<lambda>i. t + word_of_nat i * st) [0..<unat b]) (temporal_offsets ds))"

text \<open>The offset of a channel: its index is decomposed by the spatial bounds of the design.\<close>

fun spatial_offset :: "nat list \<Rightarrow> u32 list \<Rightarrow> nat \<Rightarrow> u32" where
  "spatial_offset (b # bs) (st # sts) c =
     word_of_nat (c mod b) * st + spatial_offset bs sts (c div b)"
| "spatial_offset _ _ _ = 0"

definition agu_addresses :: "nat list \<Rightarrow> agu_cfg \<Rightarrow> u32 list list" where
  "agu_addresses sb c =
     map (\<lambda>t. map (\<lambda>ch. agu_ptr c + (t + spatial_offset sb (agu_spatial c) ch))
                  [0..<prod_list sb])
         (temporal_offsets (zip (agu_bounds c) (agu_strides c)))"

text \<open>The unit becomes busy on a start pulse when no temporal bound is zero.\<close>

definition agu_starts :: "u32 list \<Rightarrow> bool" where
  "agu_starts bounds \<longleftrightarrow> list_all (\<lambda>b. b \<noteq> 0) bounds"

text \<open>A reader whose innermost stride is zero fetches once and repeats: it sets that bound to 1.\<close>

definition reader_bounds :: "agu_cfg \<Rightarrow> u32 list" where
  "reader_bounds c =
     (case (agu_strides c, agu_bounds c) of
        (st # _, b # bs) \<Rightarrow> (if st = 0 then 1 else b) # bs
      | _ \<Rightarrow> agu_bounds c)"

definition reader_starts :: "agu_cfg \<Rightarrow> bool" where
  "reader_starts c = agu_starts (reader_bounds c)"

definition writer_starts :: "agu_cfg \<Rightarrow> bool" where
  "writer_starts c = agu_starts (agu_bounds c)"

text \<open>The configuration a port finds in its registers.\<close>

definition block_values :: "(u32 \<Rightarrow> u32) \<Rightarrow> u32 \<Rightarrow> nat \<Rightarrow> u32 list" where
  "block_values f b n = map f (block_addrs b n)"

definition port_cfg :: "port_regs \<Rightarrow> (u32 \<Rightarrow> u32) \<Rightarrow> agu_cfg" where
  "port_cfg r f = \<lparr>agu_ptr = f (base_ptr_low r),
     agu_spatial = block_values f (s_stride_base r) (s_stride_num r),
     agu_bounds = block_values f (t_bound_base r) (t_bound_num r),
     agu_strides = block_values f (t_stride_base r) (t_stride_num r)\<rparr>"

section \<open>Programming a port\<close>

text \<open>The arguments of a port: a pointer and the arrays \<open>ss\<close>, \<open>tb\<close> and \<open>ts\<close>.\<close>

record stream_args =
  arg_ptr :: u32
  arg_ss :: "nat \<Rightarrow> u32"
  arg_tb :: "nat \<Rightarrow> u32"
  arg_ts :: "nat \<Rightarrow> u32"

text \<open>
  The writes every library issues for a port: the pointer, then the spatial strides, the
  temporal bounds and the temporal strides, by loops or unrolled.
\<close>

definition stream_writes ::
  "port_regs \<Rightarrow> nat \<Rightarrow> nat \<Rightarrow> nat \<Rightarrow> stream_args \<Rightarrow> (u32 \<times> u32) list" where
  "stream_writes r ns nb nt a =
     (base_ptr_low r, arg_ptr a) # csr_block (s_stride_base r) ns (arg_ss a) @
     csr_block (t_bound_base r) nb (arg_tb a) @ csr_block (t_stride_base r) nt (arg_ts a)"

definition args_cfg :: "port_regs \<Rightarrow> stream_args \<Rightarrow> agu_cfg" where
  "args_cfg r a = \<lparr>agu_ptr = arg_ptr a, agu_spatial = map (arg_ss a) [0..<s_stride_num r],
     agu_bounds = map (arg_tb a) [0..<t_bound_num r],
     agu_strides = map (arg_ts a) [0..<t_stride_num r]\<rparr>"

section \<open>Lemmas\<close>

lemma fst_csr_block_addrs [simp]: "map fst (csr_block b n vs) = block_addrs b n"
  by (simp add: fst_csr_block block_addrs_def)

lemma block_addrs_small:
  "block_addrs b 1 = [b]" "block_addrs b (Suc 0) = [b]" "block_addrs b 2 = [b, b + 1]"
  "block_addrs b 3 = [b, b + 1, b + 2]" "block_addrs b 4 = [b, b + 1, b + 2, b + 3]"
  by (simp_all add: block_addrs_def upt_rec)

lemma length_block_addrs [simp]: "length (block_addrs b n) = n"
  by (simp add: block_addrs_def)

lemma length_block_values [simp]: "length (block_values f b n) = n"
  by (simp add: block_values_def)

lemma map_fst_stream_writes [simp]:
  "map fst (stream_writes r (s_stride_num r) (t_bound_num r) (t_stride_num r) a) = stream_addrs r"
  by (simp add: stream_writes_def stream_addrs_def)

text \<open>A register file in which the writes of a port have landed holds its arguments.\<close>

lemma block_values_written:
  assumes "\<And>x v. (x, v) \<in> set (csr_block b n vs) \<Longrightarrow> f x = v"
  shows "block_values f b n = map vs [0..<n]"
  using assms by (auto simp: block_values_def block_addrs_def csr_block_def)

lemma port_cfg_written:
  assumes "\<And>x v. (x, v) \<in> set (stream_writes r (s_stride_num r) (t_bound_num r) (t_stride_num r) a)
    \<Longrightarrow> f x = v"
  shows "port_cfg r f = args_cfg r a"
proof -
  have "block_values f (s_stride_base r) (s_stride_num r) = map (arg_ss a) [0..<s_stride_num r]"
    and "block_values f (t_bound_base r) (t_bound_num r) = map (arg_tb a) [0..<t_bound_num r]"
    and "block_values f (t_stride_base r) (t_stride_num r) = map (arg_ts a) [0..<t_stride_num r]"
    using assms by (auto intro!: block_values_written simp: stream_writes_def)
  moreover have "f (base_ptr_low r) = arg_ptr a"
    using assms by (simp add: stream_writes_def)
  ultimately show ?thesis by (simp add: port_cfg_def args_cfg_def)
qed

lemma port_cfg_cong:
  assumes "\<And>x. x \<in> set (stream_addrs r) \<Longrightarrow> f x = g x"
  shows "port_cfg r f = port_cfg r g"
  using assms by (auto simp: port_cfg_def block_values_def stream_addrs_def)

text \<open>The registers of different ports do not overlap when all addresses are distinct.\<close>

lemma distinct_concat_disjoint:
  assumes "distinct (concat (map g ps))" and "p \<in> set ps" and "q \<in> set ps" and "p \<noteq> q"
  shows "set (g p) \<inter> set (g q) = {}"
  using assms by (induction ps) auto

lemma ports_addrs_disjoint:
  assumes "distinct (ports_addrs m ps)" and "p \<in> set ps" and "q \<in> set ps" and "p \<noteq> q"
  shows "set (stream_addrs (regs_of m p)) \<inter> set (stream_addrs (regs_of m q)) = {}"
  using assms unfolding ports_addrs_def by (rule distinct_concat_disjoint)

lemma distinct_port:
  assumes "distinct (ports_addrs m ps)" and "p \<in> set ps"
  shows "distinct (stream_addrs (regs_of m p))"
  using assms by (induction ps) (auto simp: ports_addrs_def)

text \<open>When a port starts.\<close>

lemma writer_stopped:
  "t_bound_num r > 0 \<Longrightarrow> f (t_bound_base r) = 0 \<Longrightarrow> \<not> writer_starts (port_cfg r f)"
  by (simp add: writer_starts_def agu_starts_def port_cfg_def block_values_def block_addrs_def
    upt_conv_Cons)

lemma reader_bounds_port_cfg:
  assumes "t_bound_num r > 0" and "t_stride_num r > 0"
  shows "reader_bounds (port_cfg r f) =
    (if f (t_stride_base r) = 0 then 1 else f (t_bound_base r)) #
    map (\<lambda>i. f (t_bound_base r + word_of_nat i)) [1..<t_bound_num r]"
  using assms
  by (simp add: reader_bounds_def port_cfg_def block_values_def block_addrs_def upt_conv_Cons)

lemma reader_stopped_iff:
  assumes "t_bound_num r > 0" and "t_stride_num r > 0" and "f (t_bound_base r) = 0"
  shows "reader_starts (port_cfg r f) \<longleftrightarrow>
    f (t_stride_base r) = 0 \<and> (\<forall>i \<in> {1..<t_bound_num r}. f (t_bound_base r + word_of_nat i) \<noteq> 0)"
  using assms
  by (auto simp: reader_starts_def agu_starts_def reader_bounds_port_cfg list_all_iff)

lemma length_temporal_offsets:
  "length (temporal_offsets ds) = prod_list (map (\<lambda>d. unat (fst d)) ds)"
proof (induction ds rule: temporal_offsets.induct)
  case 1
  then show ?case by simp
next
  case (2 b st ds)
  have "length (temporal_offsets ((b, st) # ds)) =
      sum_list (map (\<lambda>_. unat b) (temporal_offsets ds))"
    by (simp add: length_concat comp_def)
  with 2 show ?case by (simp add: sum_list_triv)
qed

text \<open>Dimensions of bound 1 and stride 0, as the padding of unused dimensions, change nothing.\<close>

lemma temporal_offsets_pad:
  "temporal_offsets (ds @ replicate n (1, 0)) = temporal_offsets ds"
proof (induction ds)
  case Nil
  show ?case by (induction n) (simp_all add: unat_1)
next
  case (Cons d ds)
  then show ?case by (cases d) simp
qed

section \<open>Programming several ports\<close>

lemma distinct_concat_map:
  assumes "distinct ps" and "\<And>p. p \<in> set ps \<Longrightarrow> distinct (g p)"
    and "\<And>p q. p \<in> set ps \<Longrightarrow> q \<in> set ps \<Longrightarrow> p \<noteq> q \<Longrightarrow> set (g p) \<inter> set (g q) = {}"
  shows "distinct (concat (map g ps))"
  using assms
proof (induction ps)
  case Nil
  then show ?case by simp
next
  case (Cons p ps)
  have "set (g p) \<inter> set (g q) = {}" if "q \<in> set ps" for q
    using that Cons.prems(1) by (intro Cons.prems(3)) auto
  with Cons show ?case by auto
qed

lemma ports_addrs_subset:
  assumes "distinct (ports_addrs m ps)" and "distinct qs" and "set qs \<subseteq> set ps"
  shows "distinct (ports_addrs m qs)"
  unfolding ports_addrs_def
proof (rule distinct_concat_map)
  show "distinct qs" by (rule assms(2))
next
  fix p
  assume "p \<in> set qs"
  with assms(3) show "distinct (stream_addrs (regs_of m p))"
    by (blast intro: distinct_port [OF assms(1)])
next
  fix p q
  assume "p \<in> set qs" "q \<in> set qs" "p \<noteq> q"
  then show "set (stream_addrs (regs_of m p)) \<inter> set (stream_addrs (regs_of m q)) = {}"
    using assms(3) by (intro ports_addrs_disjoint [OF assms(1)]) auto
qed

text \<open>
  Writes issued port by port, each port's within its own registers, land in the registers of
  their port only.
\<close>

lemma concat_writes_file:
  assumes "distinct (ports_addrs m ps)"
    and "\<And>q. q \<in> set ps \<Longrightarrow> distinct (map fst (h q)) \<and>
      set (map fst (h q)) \<subseteq> set (stream_addrs (regs_of m q))"
    and "p \<in> set ps" and "x \<in> set (stream_addrs (regs_of m p))"
  shows "csr_file (write_csrs (concat (map h ps)) s) x =
    (case map_of (h p) x of Some v \<Rightarrow> v | None \<Rightarrow> csr_file s x)"
  using assms
proof (induction ps arbitrary: s)
  case Nil
  then show ?case by simp
next
  case (Cons q ps)
  let ?s = "write_csrs (h q) s"
  have d: "distinct (ports_addrs m ps)" using Cons.prems(1) by (simp add: ports_addrs_def)
  have sub: "fst ` set (h r) \<subseteq> set (stream_addrs (regs_of m r))" if "r \<in> set (q # ps)" for r
    using Cons.prems(2) [OF that] by simp
  show ?case
  proof (cases "p \<in> set ps")
    case True
    have "p \<noteq> q"
    proof
      assume "p = q"
      with True have "set (stream_addrs (regs_of m q)) \<subseteq> set (ports_addrs m ps)"
        by (auto simp: ports_addrs_def)
      with Cons.prems(1,4) \<open>p = q\<close> show False by (auto simp: ports_addrs_def)
    qed
    then have "x \<notin> fst ` set (h q)"
      using ports_addrs_disjoint [OF Cons.prems(1), of q p] sub [of q] Cons.prems(3,4) by auto
    then have "csr_file ?s x = csr_file s x" by (rule csr.rd_writes_other)
    then show ?thesis
      using Cons.IH [OF d _ True, of ?s] Cons.prems(2,4) by (simp cong: option.case_cong)
  next
    case False
    with Cons.prems(3) have "p = q" by simp
    have "x \<notin> fst ` set (concat (map h ps))"
    proof
      assume "x \<in> fst ` set (concat (map h ps))"
      then obtain r where "r \<in> set ps" "x \<in> fst ` set (h r)" by auto
      then have "x \<in> set (stream_addrs (regs_of m r))" "r \<noteq> q"
        using sub [of r] False \<open>p = q\<close> by auto
      then show False
        using ports_addrs_disjoint [OF Cons.prems(1), of q r] \<open>r \<in> set ps\<close> Cons.prems(4) \<open>p = q\<close>
        by auto
    qed
    then have "csr_file (write_csrs (concat (map h ps)) ?s) x = csr_file ?s x"
      by (rule csr.rd_writes_other)
    then show ?thesis using \<open>p = q\<close> Cons.prems(2) [of q] by (simp add: csr_file_write_csrs)
  qed
qed

lemma concat_writes_outside:
  assumes "\<And>q. q \<in> set ps \<Longrightarrow> set (map fst (h q)) \<subseteq> set (stream_addrs (regs_of m q))"
    and "x \<notin> set (ports_addrs m ps)"
  shows "csr_file (write_csrs (concat (map h ps)) s) x = csr_file s x"
  using assms by (intro csr.rd_writes_other) (fastforce simp: ports_addrs_def)

lemma concat_writes_perm:
  assumes "distinct (ports_addrs m ps)" and "distinct qs" and "set qs = set ps"
    and h: "\<And>q. q \<in> set ps \<Longrightarrow> distinct (map fst (h q)) \<and>
      set (map fst (h q)) \<subseteq> set (stream_addrs (regs_of m q))"
  shows "csr_file (write_csrs (concat (map h ps)) s) = csr_file (write_csrs (concat (map h qs)) s)"
proof
  fix x
  have d: "distinct (ports_addrs m qs)"
    by (rule ports_addrs_subset [OF assms(1,2)]) (simp only: assms(3) subset_refl)
  show "csr_file (write_csrs (concat (map h ps)) s) x = csr_file (write_csrs (concat (map h qs)) s) x"
  proof (cases "x \<in> set (ports_addrs m ps)")
    case True
    then obtain p where "p \<in> set ps" "x \<in> set (stream_addrs (regs_of m p))"
      by (auto simp: ports_addrs_def)
    then show ?thesis
      using concat_writes_file [OF assms(1) h] concat_writes_file [OF d, of h] h assms(3) by simp
  next
    case False
    then have "x \<notin> set (ports_addrs m qs)" using assms(3) by (simp add: ports_addrs_def)
    with False show ?thesis
      using h assms(3) concat_writes_outside [of ps h m] concat_writes_outside [of qs h m] by simp
  qed
qed

lemma map_of_stream_writes:
  assumes "distinct (stream_addrs r)"
    and "f = (\<lambda>x. case map_of (stream_writes r (s_stride_num r) (t_bound_num r) (t_stride_num r) a) x
                 of Some v \<Rightarrow> v | None \<Rightarrow> g x)"
  shows "port_cfg r f = args_cfg r a"
proof (rule port_cfg_written)
  fix x v
  assume "(x, v) \<in> set (stream_writes r (s_stride_num r) (t_bound_num r) (t_stride_num r) a)"
  then have "map_of (stream_writes r (s_stride_num r) (t_bound_num r) (t_stride_num r) a) x = Some v"
    using assms(1) by (intro map_of_is_SomeI) simp_all
  then show "f x = v" by (simp add: assms(2))
qed

lemma agu_port_cfg:
  "agu_bounds (port_cfg r f) = map (\<lambda>i. f (t_bound_base r + word_of_nat i)) [0..<t_bound_num r]"
  "agu_strides (port_cfg r f) = map (\<lambda>i. f (t_stride_base r + word_of_nat i)) [0..<t_stride_num r]"
  by (simp_all add: port_cfg_def block_values_def block_addrs_def)

lemma agu_args_cfg:
  "agu_bounds (args_cfg r a) = map (arg_tb a) [0..<t_bound_num r]"
  "agu_strides (args_cfg r a) = map (arg_ts a) [0..<t_stride_num r]"
  by (simp_all add: args_cfg_def)

lemma port_cfg_args:
  assumes "port_cfg r f = args_cfg r a"
  shows "i < t_bound_num r \<Longrightarrow> f (t_bound_base r + word_of_nat i) = arg_tb a i"
    and "i < t_stride_num r \<Longrightarrow> f (t_stride_base r + word_of_nat i) = arg_ts a i"
proof -
  have b: "map (\<lambda>i. f (t_bound_base r + word_of_nat i)) [0..<t_bound_num r] =
      map (arg_tb a) [0..<t_bound_num r]"
    unfolding agu_port_cfg(1) [symmetric] agu_args_cfg(1) [symmetric] assms ..
  have s: "map (\<lambda>i. f (t_stride_base r + word_of_nat i)) [0..<t_stride_num r] =
      map (arg_ts a) [0..<t_stride_num r]"
    unfolding agu_port_cfg(2) [symmetric] agu_args_cfg(2) [symmetric] assms ..
  show "i < t_bound_num r \<Longrightarrow> f (t_bound_base r + word_of_nat i) = arg_tb a i"
    using arg_cong [OF b, of "\<lambda>xs. xs ! i"] by simp
  show "i < t_stride_num r \<Longrightarrow> f (t_stride_base r + word_of_nat i) = arg_ts a i"
    using arg_cong [OF s, of "\<lambda>xs. xs ! i"] by simp
qed

section \<open>Ports with an address remap index and channel enables\<close>

text \<open>
  Some libraries also write the remap index and the channel enables, where the generated header
  defines them.
\<close>

definition remap_writes :: "port_regs \<Rightarrow> u32 \<Rightarrow> (u32 \<times> u32) list" where
  "remap_writes r idx = (case addr_remap_index r of None \<Rightarrow> [] | Some x \<Rightarrow> [(x, idx)])"

definition channel_writes :: "port_regs \<Rightarrow> (nat \<Rightarrow> u32) \<Rightarrow> (u32 \<times> u32) list" where
  "channel_writes r en = (case enabled_channel r of None \<Rightarrow> [] | Some (x, n) \<Rightarrow> csr_block x n en)"

definition loop_writes :: "port_regs \<Rightarrow> stream_args \<Rightarrow> (u32 \<times> u32) list" where
  "loop_writes r a = stream_writes r (s_stride_num r) (t_bound_num r) (t_stride_num r) a"

definition remap_addrs :: "port_regs \<Rightarrow> u32 list" where
  "remap_addrs r = (case addr_remap_index r of None \<Rightarrow> [] | Some x \<Rightarrow> [x])"

definition channel_addrs :: "port_regs \<Rightarrow> u32 list" where
  "channel_addrs r = (case enabled_channel r of None \<Rightarrow> [] | Some (x, n) \<Rightarrow> block_addrs x n)"

definition port_addrs :: "port_regs \<Rightarrow> u32 list" where
  "port_addrs r = stream_addrs r @ remap_addrs r @ channel_addrs r"

lemma map_fst_loop_writes [simp]:
  "map fst (loop_writes r a) = stream_addrs r"
  "map fst (remap_writes r idx) = remap_addrs r"
  "map fst (channel_writes r en) = channel_addrs r"
  by (auto simp: loop_writes_def remap_writes_def remap_addrs_def channel_writes_def
    channel_addrs_def split: option.splits)

text \<open>Writes through the switch to distinct registers it knows all land.\<close>

lemma csrw_sss_value:
  assumes "distinct (map fst ws)" and "list_all ss_reg (map fst ws)" and "(x, v) \<in> set ws"
  shows "csr_file (csrw_sss ws s) x = v"
proof -
  have "ss_reg x" using assms(2,3) by (force simp: list_all_iff)
  with assms(1,3) show ?thesis by (rule css.rd_writes_distinct)
qed

lemma csrw_sss_port_cfg:
  assumes "distinct (map fst ws)" and "list_all ss_reg (map fst ws)"
    and "set (loop_writes r a) \<subseteq> set ws"
  shows "port_cfg r (csr_file (csrw_sss ws s)) = args_cfg r a"
  using assms(3) unfolding loop_writes_def
  by (intro port_cfg_written csrw_sss_value [OF assms(1,2)]) blast

section \<open>The generated address map\<close>

text \<open>
  The registers of a port as the hardware generator numbers them (\<open>genCSRMap\<close> of
  hw/chisel/src/main/scala/snax/streamer/Streamer.scala): consecutively from \<open>base\<close>, with \<open>ns\<close>
  spatial strides, \<open>nt\<close> temporal dimensions, a remap index if there is more than one mapping,
  and \<open>nc\<close> channel enable words. The register \<open>T_BOUND_p_i\<close> is \<open>T_BOUND_BASE_p + i\<close>, and the
  same holds for the strides.
\<close>

definition gen_csr_map :: "nat \<Rightarrow> nat \<Rightarrow> nat \<Rightarrow> bool \<Rightarrow> nat \<Rightarrow> port_regs" where
  "gen_csr_map base ns nt remap nc =
     \<lparr>base_ptr_low = word_of_nat base, base_ptr_high = word_of_nat (base + 1),
      s_stride_base = word_of_nat (base + 2), s_stride_num = ns,
      t_bound_base = word_of_nat (base + 2 + ns), t_bound_num = nt,
      t_stride_base = word_of_nat (base + 2 + ns + nt), t_stride_num = nt,
      addr_remap_index = (if remap then Some (word_of_nat (base + 2 + ns + 2 * nt)) else None),
      enabled_channel = (if nc = 0 then None
        else Some (word_of_nat (base + 2 + ns + 2 * nt + (if remap then 1 else 0)), nc))\<rparr>"

definition gen_csr_num :: "nat \<Rightarrow> nat \<Rightarrow> bool \<Rightarrow> nat \<Rightarrow> nat" where
  "gen_csr_num ns nt remap nc = 2 + ns + 2 * nt + (if remap then 1 else 0) + nc"

lemma block_addrs_of_nat:
  "block_addrs (word_of_nat b) n = map word_of_nat [b..<b + n]"
  by (rule nth_equalityI) (simp_all add: block_addrs_def)

text \<open>The generated registers of a port, but for the upper half of the pointer, are an interval.\<close>

lemma gen_port_addrs:
  "port_addrs (gen_csr_map base ns nt remap nc) =
     map word_of_nat (base # [base + 2..<base + gen_csr_num ns nt remap nc])"
proof -
  let ?a = "base + 2" and ?b = "base + 2 + ns" and ?c = "base + 2 + ns + nt"
  let ?d = "base + 2 + ns + 2 * nt" and ?k = "if remap then 1 else 0 :: nat"
  have chan: "channel_addrs (gen_csr_map base ns nt remap nc) =
      map word_of_nat [?d + ?k..<?d + ?k + nc]"
    by (simp add: channel_addrs_def gen_csr_map_def block_addrs_of_nat
      del: of_nat_add of_nat_Suc upt_Suc)
  have rem: "remap_addrs (gen_csr_map base ns nt remap nc) = map word_of_nat [?d..<?d + ?k]"
    by (simp add: remap_addrs_def gen_csr_map_def upt_conv_Cons del: of_nat_add of_nat_Suc)
  have "stream_addrs (gen_csr_map base ns nt remap nc) =
      word_of_nat base # map word_of_nat [?a..<?b] @ map word_of_nat [?b..<?c] @
        map word_of_nat [?c..<?c + nt]"
    by (simp add: stream_addrs_def gen_csr_map_def block_addrs_of_nat
      del: of_nat_add of_nat_Suc upt_Suc)
  moreover have "?c + nt = ?d" by simp
  ultimately have str: "stream_addrs (gen_csr_map base ns nt remap nc) =
      map word_of_nat (base # ([?a..<?b] @ [?b..<?c] @ [?c..<?d]))"
    by (simp only: map_append list.map)
  have "[?a..<?b] @ [?b..<?c] @ [?c..<?d] @ [?d..<?d + ?k] @ [?d + ?k..<?d + ?k + nc] =
      [?a..<?d + ?k + nc]"
    by (simp only: upt_append le_add1 add.assoc add_left_mono mult_2)
  then show ?thesis
    unfolding port_addrs_def chan rem str gen_csr_num_def
    by (simp only: flip: map_append) (simp only: append_Cons append_assoc add.assoc)
qed

text \<open>Register numbers given as natural numbers.\<close>

lemma distinct_word_of_nat:
  assumes "distinct ns" and "list_all (\<lambda>n. n < 2 ^ 32) ns"
  shows "distinct (map word_of_nat ns :: u32 list)"
proof -
  have "inj_on (word_of_nat :: nat \<Rightarrow> u32) (set ns)"
    using assms(2)
    by (auto simp: inj_on_def list_all_iff word_of_nat_eq_iff take_bit_nat_eq_self)
  with assms(1) show ?thesis by (simp add: distinct_map)
qed

lemma ss_regs_word_of_nat:
  assumes "list_all (\<lambda>n. 960 \<le> n \<and> n \<le> 1200) ns"
  shows "list_all ss_reg (map word_of_nat ns)"
  using assms
  by (auto simp: list_all_iff word_le_nat_alt unat_of_nat take_bit_nat_eq_self)

lemma gen_stream_addrs:
  "stream_addrs (gen_csr_map base ns nt remap 0) @ remap_addrs (gen_csr_map base ns nt remap 0) =
     map word_of_nat (base # [base + 2..<base + gen_csr_num ns nt remap 0])"
  using gen_port_addrs [of base ns nt remap 0]
  by (simp add: port_addrs_def channel_addrs_def gen_csr_map_def)

end
