(* ===== verification/Simbacore.thy ===== *)
theory Simbacore
  imports Streamer
begin

text \<open>
  The driver of the SimbaCore accelerator
  (target/snitch_cluster/sw/snax/simbacore/src/snax-simbacore-lib.c and its header): programming
  the fourteen readers and four writers of its streamer, starting the accelerator with its two
  delayed readers, waiting for it, and checking its results.

  A configuration function is the list of its register writes in program order, executed by
  \<open>write_csrs\<close>.
\<close>

section \<open>The streamers\<close>

definition simba_readers_low :: "port list" where
  "simba_readers_low = map Reader [0, 1, 2, 3, 4, 5, 6]"

definition simba_readers_high :: "port list" where
  "simba_readers_high = map Reader [7, 8, 9, 10, 11, 12, 13]"

definition simba_writers :: "port list" where
  "simba_writers = map Writer [0, 1, 2, 3]"

definition simba_ports :: "port list" where
  "simba_ports = simba_readers_low @ simba_readers_high @ simba_writers"

text \<open>The spatial strides the code writes for a port; it unrolls four bounds and strides.\<close>

definition spatial_num :: "port \<Rightarrow> nat" where
  "spatial_num p = (if p = Reader 7 \<or> p = Writer 3 then 2 else 1)"

text \<open>What the \<open>_Static_assert\<close>s check of the generated header.\<close>

definition static_asserts :: "streamer_map \<Rightarrow> bool" where
  "static_asserts m \<longleftrightarrow> list_all (\<lambda>p. s_stride_num (regs_of m p) = spatial_num p \<and>
     t_bound_num (regs_of m p) = 4 \<and> t_stride_num (regs_of m p) = 4) simba_ports"

definition set_port :: "streamer_map \<Rightarrow> port \<Rightarrow> stream_args \<Rightarrow> (u32 \<times> u32) list" where
  "set_port m p a = stream_writes (regs_of m p) (spatial_num p) 4 4 a"

definition disable_port :: "streamer_map \<Rightarrow> port \<Rightarrow> (u32 \<times> u32) list" where
  "disable_port m p = [(t_bound_base (regs_of m p), 0)]"

definition disable_ports :: "streamer_map \<Rightarrow> port list \<Rightarrow> (u32 \<times> u32) list" where
  "disable_ports m ps = concat (map (disable_port m) ps)"

definition set_osgemm_streamer_csr ::
  "streamer_map \<Rightarrow> stream_args \<Rightarrow> stream_args \<Rightarrow> stream_args \<Rightarrow> (u32 \<times> u32) list" where
  "set_osgemm_streamer_csr m A B D =
     set_port m (Reader 0) A @ set_port m (Reader 1) B @ set_port m (Writer 0) D @
     disable_ports m (map Reader [2, 3, 4, 5, 6, 7, 8, 9, 10, 11, 12, 13] @
                      map Writer [1, 2, 3])"

definition set_isgemm_streamer_csr ::
  "streamer_map \<Rightarrow> stream_args \<Rightarrow> stream_args \<Rightarrow> stream_args \<Rightarrow> (u32 \<times> u32) list" where
  "set_isgemm_streamer_csr m A B CD =
     set_port m (Reader 11) A @ set_port m (Reader 12) B @ set_port m (Reader 13) CD @
     set_port m (Writer 3) CD @
     disable_ports m (map Reader [0, 1, 2, 3, 4, 5, 6, 7, 8, 9, 10] @ map Writer [0, 1, 2])"

definition set_simd_streamer_csr ::
  "streamer_map \<Rightarrow> stream_args \<Rightarrow> stream_args \<Rightarrow> stream_args \<Rightarrow> (u32 \<times> u32) list" where
  "set_simd_streamer_csr m A B C =
     set_port m (Reader 7) A @ set_port m (Reader 13) B @ set_port m (Writer 3) C @
     disable_ports m (map Reader [0, 1, 2, 3, 4, 5, 6, 8, 9, 10, 11, 12] @ map Writer [0, 1, 2])"

text \<open>Without the second operand the reader R13 is fully initialised to a disabled state.\<close>

definition set_simd_streamer_no_b ::
  "streamer_map \<Rightarrow> stream_args \<Rightarrow> stream_args \<Rightarrow> (u32 \<times> u32) list" where
  "set_simd_streamer_no_b m A C =
     set_port m (Reader 7) A @ set_port m (Writer 3) C @
     disable_ports m (map Reader [0, 1, 2, 3, 4, 5, 6, 8, 9, 10, 11, 12] @ map Writer [0, 1, 2]) @
     [(s_stride_base (regs_of m (Reader 13)), 1)] @
     csr_block (t_bound_base (regs_of m (Reader 13))) 4 (\<lambda>_. 0) @
     csr_block (t_stride_base (regs_of m (Reader 13))) 4 (\<lambda>_. 1)"

text \<open>The general function takes the arguments and an enable flag of every port.\<close>

definition set_or_disable ::
  "streamer_map \<Rightarrow> (port \<Rightarrow> bool) \<Rightarrow> (port \<Rightarrow> stream_args) \<Rightarrow> port \<Rightarrow> (u32 \<times> u32) list" where
  "set_or_disable m en a p = (if en p then set_port m p (a p) else disable_port m p)"

definition set_streamer_readers_low ::
  "streamer_map \<Rightarrow> (port \<Rightarrow> bool) \<Rightarrow> (port \<Rightarrow> stream_args) \<Rightarrow> (u32 \<times> u32) list" where
  "set_streamer_readers_low m en a = concat (map (set_or_disable m en a) simba_readers_low)"

definition set_streamer_readers_high ::
  "streamer_map \<Rightarrow> (port \<Rightarrow> bool) \<Rightarrow> (port \<Rightarrow> stream_args) \<Rightarrow> (u32 \<times> u32) list" where
  "set_streamer_readers_high m en a = concat (map (set_or_disable m en a) simba_readers_high)"

definition set_streamer_writers ::
  "streamer_map \<Rightarrow> (port \<Rightarrow> bool) \<Rightarrow> (port \<Rightarrow> stream_args) \<Rightarrow> (u32 \<times> u32) list" where
  "set_streamer_writers m en a = concat (map (set_or_disable m en a) simba_writers)"

definition set_streamer_csr ::
  "streamer_map \<Rightarrow> (port \<Rightarrow> bool) \<Rightarrow> (port \<Rightarrow> stream_args) \<Rightarrow> (u32 \<times> u32) list" where
  "set_streamer_csr m en a = set_streamer_readers_low m en a @ set_streamer_readers_high m en a @
     set_streamer_writers m en a"

section \<open>The accelerator\<close>

definition SIMBACORE_CSR_ADDR_BASE :: "streamer_map \<Rightarrow> u32" where
  "SIMBACORE_CSR_ADDR_BASE m = STREAMER_PERFORMANCE_COUNTER_CSR m + 1"

datatype simbacore_reg = MODE | SEQ_LEN | D_MODEL | DT_RANK | D_INNER | D_FINAL
  | SIMBACORE_START | SIMBACORE_BUSY | SIMBACORE_PERFORMANCE_COUNTER
  | R10_DELAY_GAUGE | R11_DELAY_GAUGE | ISCORE_TILE_CNT

fun simbacore_offset :: "simbacore_reg \<Rightarrow> u32" where
  "simbacore_offset MODE = 0"
| "simbacore_offset SEQ_LEN = 1"
| "simbacore_offset D_MODEL = 2"
| "simbacore_offset DT_RANK = 3"
| "simbacore_offset D_INNER = 4"
| "simbacore_offset D_FINAL = 5"
| "simbacore_offset SIMBACORE_START = 6"
| "simbacore_offset SIMBACORE_BUSY = 7"
| "simbacore_offset SIMBACORE_PERFORMANCE_COUNTER = 8"
| "simbacore_offset R10_DELAY_GAUGE = 9"
| "simbacore_offset R11_DELAY_GAUGE = 10"
| "simbacore_offset ISCORE_TILE_CNT = 11"

definition simbacore_csr :: "streamer_map \<Rightarrow> simbacore_reg \<Rightarrow> u32" where
  "simbacore_csr m r = SIMBACORE_CSR_ADDR_BASE m + simbacore_offset r"

definition set_simbacore_simd_mode :: "streamer_map \<Rightarrow> u32 \<Rightarrow> csr_state \<Rightarrow> csr_state" where
  "set_simbacore_simd_mode m v = write_csr (simbacore_csr m MODE) v"

definition set_simbacore_simd_n_acc :: "streamer_map \<Rightarrow> u32 \<Rightarrow> csr_state \<Rightarrow> csr_state" where
  "set_simbacore_simd_n_acc m v = write_csr (simbacore_csr m D_MODEL) v"

definition set_simbacore_csr ::
  "streamer_map \<Rightarrow> u32 \<Rightarrow> u32 \<Rightarrow> u32 \<Rightarrow> u32 \<Rightarrow> u32 \<Rightarrow> u32 \<Rightarrow> (u32 \<times> u32) list" where
  "set_simbacore_csr m md seqLen dModel dInner dtRank dFinal =
     [(simbacore_csr m MODE, md), (simbacore_csr m SEQ_LEN, seqLen),
      (simbacore_csr m D_MODEL, dModel), (simbacore_csr m D_INNER, dInner),
      (simbacore_csr m DT_RANK, dtRank), (simbacore_csr m D_FINAL, dFinal)]"

definition set_simbacore_start :: "streamer_map \<Rightarrow> csr_state \<Rightarrow> csr_state" where
  "set_simbacore_start m = write_csr (simbacore_csr m SIMBACORE_START) 1"

definition set_streamer_start :: "streamer_map \<Rightarrow> csr_state \<Rightarrow> csr_state" where
  "set_streamer_start m = write_csr (STREAMER_START_CSR m) 1"

text \<open>A delayed reader starts once its gauge has reached the requested count.\<close>

definition start_delayed ::
  "hardware \<Rightarrow> streamer_map \<Rightarrow> simbacore_reg \<Rightarrow> nat \<Rightarrow> bool \<Rightarrow> u32 \<Rightarrow> csr_state \<Rightarrow> csr_state option" where
  "start_delayed hw m gauge r en cnt s =
     (if en then map_option (write_csr (DELAYED_START_READER m r) 1)
        (csr_poll hw (simbacore_csr m gauge) (\<lambda>v. \<not> v < cnt) s)
      else Some s)"

definition start_simbacore_and_streamers ::
  "hardware \<Rightarrow> streamer_map \<Rightarrow> bool \<Rightarrow> u32 \<Rightarrow> bool \<Rightarrow> u32 \<Rightarrow> csr_state \<Rightarrow> csr_state option" where
  "start_simbacore_and_streamers hw m R10_en R10_start_cnt R11_en R11_start_cnt s =
     Option.bind
       (start_delayed hw m R10_DELAY_GAUGE 10 R10_en R10_start_cnt
          (set_simbacore_start m (set_streamer_start m s)))
       (start_delayed hw m R11_DELAY_GAUGE 11 R11_en R11_start_cnt)"

definition wait_simbacore_and_streamer ::
  "hardware \<Rightarrow> streamer_map \<Rightarrow> csr_state \<Rightarrow> csr_state option" where
  "wait_simbacore_and_streamer hw m s =
     Option.bind
       (csr_poll hw (simbacore_csr m SIMBACORE_BUSY) (\<lambda>v. v = 0)
          (write_csrs [(STREAMER_START_CSR m, 0), (simbacore_csr m SIMBACORE_START, 0),
             (DELAYED_START_READER m 10, 0), (DELAYED_START_READER m 11, 0)] s))
       (csr_poll hw (STREAMER_BUSY_CSR m) (\<lambda>v. v = 0))"

definition read_streamer_perf_counter ::
  "hardware \<Rightarrow> streamer_map \<Rightarrow> csr_state \<Rightarrow> u32 \<times> csr_state" where
  "read_streamer_perf_counter hw m = read_csr hw (STREAMER_PERFORMANCE_COUNTER_CSR m)"

definition read_simbacore_perf_counter ::
  "hardware \<Rightarrow> streamer_map \<Rightarrow> csr_state \<Rightarrow> u32 \<times> csr_state" where
  "read_simbacore_perf_counter hw m = read_csr hw (simbacore_csr m SIMBACORE_PERFORMANCE_COUNTER)"

section \<open>Checking results\<close>

definition TOLERANCE :: int where
  "TOLERANCE = 1"

definition values_match_u8_lsb :: "u8 \<Rightarrow> u8 \<Rightarrow> bool" where
  "values_match_u8_lsb output_value golden_value \<longleftrightarrow>
     (if (output_value = 0 \<and> golden_value = 128) \<or> (output_value = 128 \<and> golden_value = 0)
      then True
      else let diff = (ucast output_value - ucast golden_value :: u16)
           in - TOLERANCE \<le> sint diff \<and> sint diff \<le> TOLERANCE)"

definition values_match_u16_lsb :: "u16 \<Rightarrow> u16 \<Rightarrow> bool" where
  "values_match_u16_lsb output_value golden_value \<longleftrightarrow>
     (if (output_value = 0 \<and> golden_value = 0x8000) \<or> (output_value = 0x8000 \<and> golden_value = 0)
      then True
      else let diff = (ucast output_value - ucast golden_value :: u32)
           in - TOLERANCE \<le> sint diff \<and> sint diff \<le> TOLERANCE)"

text \<open>
  The checkers count the mismatches in a 32-bit counter; a loop over a signed counter up to a
  signed bound runs \<open>nat (sint n)\<close> times. The buffers are functions from the index.
\<close>

definition count_errors :: "i32 \<Rightarrow> (nat \<Rightarrow> bool) \<Rightarrow> u32" where
  "count_errors n ok = count_fails (nat (sint n)) ok"

definition check_result_all :: "(nat \<Rightarrow> u8) \<Rightarrow> (nat \<Rightarrow> u8) \<Rightarrow> i32 \<Rightarrow> u32" where
  "check_result_all output golden data_length =
     count_errors (data_length div 1) (\<lambda>i. values_match_u8_lsb (output i) (golden i))"

text \<open>The division by \<open>sizeof(uint16_t)\<close> is unsigned.\<close>

definition check_result_all_u16 :: "(nat \<Rightarrow> u16) \<Rightarrow> (nat \<Rightarrow> u16) \<Rightarrow> i32 \<Rightarrow> u32" where
  "check_result_all_u16 output golden data_length =
     count_errors (data_length div 2) (\<lambda>i. values_match_u16_lsb (output i) (golden i))"

definition check_result_sample_verbose ::
  "(int \<Rightarrow> u8) \<Rightarrow> (int \<Rightarrow> u8) \<Rightarrow> (nat \<Rightarrow> i32) \<Rightarrow> i32 \<Rightarrow> u32" where
  "check_result_sample_verbose output golden sample_indices test_sample_count =
     count_errors test_sample_count
       (\<lambda>i. let k = sint (sample_indices i) in values_match_u8_lsb (output k) (golden k))"

definition check_result_sample ::
  "(int \<Rightarrow> u8) \<Rightarrow> (int \<Rightarrow> u8) \<Rightarrow> (nat \<Rightarrow> i32) \<Rightarrow> i32 \<Rightarrow> u32" where
  "check_result_sample = check_result_sample_verbose"

definition check_result_sample_u16_verbose ::
  "(int \<Rightarrow> u16) \<Rightarrow> (int \<Rightarrow> u16) \<Rightarrow> (nat \<Rightarrow> i32) \<Rightarrow> i32 \<Rightarrow> u32" where
  "check_result_sample_u16_verbose output golden sample_indices test_sample_count =
     count_errors test_sample_count
       (\<lambda>i. let k = sint (sample_indices i) in values_match_u16_lsb (output k) (golden k))"

definition check_result_sample_u16 ::
  "(int \<Rightarrow> u16) \<Rightarrow> (int \<Rightarrow> u16) \<Rightarrow> (nat \<Rightarrow> i32) \<Rightarrow> i32 \<Rightarrow> u32" where
  "check_result_sample_u16 = check_result_sample_u16_verbose"

definition check_result_sample_swz ::
  "(int \<Rightarrow> u8) \<Rightarrow> (int \<Rightarrow> u8) \<Rightarrow> (nat \<Rightarrow> i32) \<Rightarrow> (nat \<Rightarrow> i32) \<Rightarrow> i32 \<Rightarrow> u32" where
  "check_result_sample_swz output golden sample_indices sample_indices_swz test_sample_count =
     count_errors test_sample_count
       (\<lambda>i. values_match_u8_lsb (output (sint (sample_indices_swz i)))
              (golden (sint (sample_indices i))))"

section \<open>Lemmas\<close>

lemma simba_ports_simps [simp]:
  "p \<in> set simba_ports \<longleftrightarrow> (\<exists>r < 14. p = Reader r) \<or> (\<exists>w < 4. p = Writer w)"
proof -
  have r: "r < 14 \<longleftrightarrow> r \<in> {0, 1, 2, 3, 4, 5, 6, 7, 8, 9, 10, 11, 12, 13}" for r :: nat
    unfolding insert_iff empty_iff by presburger
  have w: "w < 4 \<longleftrightarrow> w \<in> {0, 1, 2, 3}" for w :: nat by auto
  show ?thesis
    unfolding simba_ports_def simba_readers_low_def simba_readers_high_def simba_writers_def r w
    by auto
qed

lemma distinct_simba_ports [simp]: "distinct simba_ports"
  by (simp add: simba_ports_def simba_readers_low_def simba_readers_high_def simba_writers_def)

lemma static_asserts_port:
  assumes "static_asserts m" and "p \<in> set simba_ports"
  shows "s_stride_num (regs_of m p) = spatial_num p" "t_bound_num (regs_of m p) = 4"
    "t_stride_num (regs_of m p) = 4"
  using assms by (auto simp: static_asserts_def list_all_iff simp del: simba_ports_simps)

lemma set_port_eq:
  assumes "static_asserts m" and "p \<in> set simba_ports"
  shows "set_port m p a = stream_writes (regs_of m p) (s_stride_num (regs_of m p))
    (t_bound_num (regs_of m p)) (t_stride_num (regs_of m p)) a"
  using static_asserts_port [OF assms] by (simp add: set_port_def)

lemma t_bound_base_mem: "0 < t_bound_num r \<Longrightarrow> t_bound_base r \<in> set (stream_addrs r)"
  by (auto simp: stream_addrs_def block_addrs_def image_iff intro: bexI [of _ 0])

lemma t_bound_mem: "i < t_bound_num r \<Longrightarrow> t_bound_base r + word_of_nat i \<in> set (stream_addrs r)"
  by (auto simp: stream_addrs_def block_addrs_def)

lemma t_stride_base_mem: "0 < t_stride_num r \<Longrightarrow> t_stride_base r \<in> set (stream_addrs r)"
  by (auto simp: stream_addrs_def block_addrs_def image_iff intro: bexI [of _ 0])

lemma set_or_disable_addrs:
  assumes "static_asserts m" and "distinct (ports_addrs m simba_ports)" and "p \<in> set simba_ports"
  shows "distinct (map fst (set_or_disable m en a p)) \<and>
    set (map fst (set_or_disable m en a p)) \<subseteq> set (stream_addrs (regs_of m p))"
proof (cases "en p")
  case True
  then have "map fst (set_or_disable m en a p) = stream_addrs (regs_of m p)"
    unfolding set_or_disable_def set_port_eq [OF assms(1,3)] by simp
  then show ?thesis using distinct_port [OF assms(2,3)] by simp
next
  case False
  then show ?thesis
    using static_asserts_port [OF assms(1,3)] t_bound_base_mem [of "regs_of m p"]
    by (simp add: set_or_disable_def disable_port_def)
qed

lemma set_streamer_csr_concat:
  "set_streamer_csr m en a = concat (map (set_or_disable m en a) simba_ports)"
  by (simp add: set_streamer_csr_def set_streamer_readers_low_def set_streamer_readers_high_def
    set_streamer_writers_def simba_ports_def)

text \<open>The registers of a port after the configuration of some ports.\<close>

lemma set_ports_file:
  assumes "static_asserts m" and "distinct (ports_addrs m simba_ports)"
    and "distinct qs" and "set qs \<subseteq> set simba_ports"
    and "p \<in> set qs" and "x \<in> set (stream_addrs (regs_of m p))"
  shows "csr_file (write_csrs (concat (map (set_or_disable m en a) qs)) s) x =
    (case map_of (set_or_disable m en a p) x of Some v \<Rightarrow> v | None \<Rightarrow> csr_file s x)"
  using ports_addrs_subset [OF assms(2,3,4)]
proof (rule concat_writes_file)
  fix q
  assume "q \<in> set qs"
  with assms(4) have "q \<in> set simba_ports" by blast
  then show "distinct (map fst (set_or_disable m en a q)) \<and>
      set (map fst (set_or_disable m en a q)) \<subseteq> set (stream_addrs (regs_of m q))"
    by (rule set_or_disable_addrs [OF assms(1,2)])
qed (rule assms(5,6))+

lemmas set_streamer_file =
  set_ports_file [OF _ _ distinct_simba_ports subset_refl, folded set_streamer_csr_concat]

lemma set_ports_enabled:
  assumes "static_asserts m" and "distinct (ports_addrs m simba_ports)"
    and "distinct qs" and "set qs \<subseteq> set simba_ports" and "p \<in> set qs" and "en p"
  shows "port_cfg (regs_of m p) (csr_file (write_csrs (concat (map (set_or_disable m en a) qs)) s)) =
    args_cfg (regs_of m p) (a p)"
proof -
  let ?r = "regs_of m p"
  let ?f = "\<lambda>x. case map_of (stream_writes ?r (s_stride_num ?r) (t_bound_num ?r) (t_stride_num ?r)
    (a p)) x of Some v \<Rightarrow> v | None \<Rightarrow> csr_file s x"
  have p: "p \<in> set simba_ports" using assms(4,5) by blast
  have "port_cfg ?r (csr_file (write_csrs (concat (map (set_or_disable m en a) qs)) s)) =
      port_cfg ?r ?f"
    by (rule port_cfg_cong)
      (simp add: set_ports_file [OF assms(1-5)] set_or_disable_def assms(6)
        set_port_eq [OF assms(1) p])
  also have "\<dots> = args_cfg ?r (a p)"
    by (rule map_of_stream_writes [OF distinct_port [OF assms(2) p] refl])
  finally show ?thesis .
qed

lemmas set_streamer_enabled =
  set_ports_enabled [OF _ _ distinct_simba_ports subset_refl, folded set_streamer_csr_concat]

lemma set_streamer_disabled:
  assumes "static_asserts m" and "distinct (ports_addrs m simba_ports)"
    and "p \<in> set simba_ports" and "\<not> en p" and "x \<in> set (stream_addrs (regs_of m p))"
  shows "csr_file (write_csrs (set_streamer_csr m en a) s) x =
    (if x = t_bound_base (regs_of m p) then 0 else csr_file s x)"
  using set_streamer_file [OF assms(1-3,5)] assms(4)
  by (simp add: set_or_disable_def disable_port_def)

text \<open>Within a port, the bounds and strides are different registers.\<close>

lemma stream_addrs_distinct_parts:
  assumes "distinct (stream_addrs r)" and "t_bound_num r = 4" and "t_stride_num r = 4"
  shows "t_stride_base r \<noteq> t_bound_base r"
    "i \<in> {1..<4} \<Longrightarrow> t_bound_base r + word_of_nat i \<noteq> t_bound_base r"
proof -
  have d: "distinct (block_addrs (t_bound_base r) 4 @ block_addrs (t_stride_base r) 4)"
    using assms by (simp add: stream_addrs_def)
  then show "t_stride_base r \<noteq> t_bound_base r"
    by (auto simp: block_addrs_def upt_conv_Cons)
  assume i: "i \<in> {1..<4}"
  have "block_addrs (t_bound_base r) 4 ! i \<noteq> block_addrs (t_bound_base r) 4 ! 0"
    using d i by (subst nth_eq_iff_index_eq) auto
  then show "t_bound_base r + word_of_nat i \<noteq> t_bound_base r"
    using i by (simp add: block_addrs_def)
qed

lemma disabled_reader_iff:
  assumes "static_asserts m" and "distinct (ports_addrs m simba_ports)"
    and "p \<in> set simba_ports" and "\<not> en p"
  shows "reader_starts (port_cfg (regs_of m p)
      (csr_file (write_csrs (set_streamer_csr m en a) s))) \<longleftrightarrow>
    csr_file s (t_stride_base (regs_of m p)) = 0 \<and>
    (\<forall>i \<in> {1..<4}. csr_file s (t_bound_base (regs_of m p) + word_of_nat i) \<noteq> 0)"
proof -
  let ?r = "regs_of m p" and ?f = "csr_file (write_csrs (set_streamer_csr m en a) s)"
  note n = static_asserts_port [OF assms(1,3)]
  note fl = set_streamer_disabled [where p = p and en = en and a = a and s = s, OF assms]
  note parts = stream_addrs_distinct_parts [OF distinct_port [OF assms(2,3)] n(2,3)]
  have "?f (t_bound_base ?r) = 0"
    using fl [OF t_bound_base_mem] n by simp
  then have "reader_starts (port_cfg ?r ?f) \<longleftrightarrow> ?f (t_stride_base ?r) = 0 \<and>
      (\<forall>i \<in> {1..<4}. ?f (t_bound_base ?r + word_of_nat i) \<noteq> 0)"
    using reader_stopped_iff [of ?r ?f] n by simp
  moreover have "?f (t_stride_base ?r) = csr_file s (t_stride_base ?r)"
    using fl [OF t_stride_base_mem] n parts(1) by simp
  moreover have "?f (t_bound_base ?r + word_of_nat i) = csr_file s (t_bound_base ?r + word_of_nat i)"
    if "i \<in> {1..<4}" for i
    using fl [OF t_bound_mem [of i]] n parts(2) [OF that] that by simp
  ultimately show ?thesis by simp
qed

lemma disabled_writer:
  assumes "static_asserts m" and "distinct (ports_addrs m simba_ports)"
    and "p \<in> set simba_ports" and "\<not> en p"
  shows "\<not> writer_starts (port_cfg (regs_of m p)
      (csr_file (write_csrs (set_streamer_csr m en a) s)))"
proof (rule writer_stopped)
  show "0 < t_bound_num (regs_of m p)" using static_asserts_port [OF assms(1,3)] by simp
  then show "csr_file (write_csrs (set_streamer_csr m en a) s) (t_bound_base (regs_of m p)) = 0"
    by (subst set_streamer_disabled [where p = p and en = en, OF assms]) (auto intro: t_bound_base_mem)
qed

text \<open>The short functions are the general one with the ports in another order.\<close>

lemma port_list_writes:
  "concat (map (set_or_disable m en a) ps) = disable_ports m ps" if "\<forall>p \<in> set ps. \<not> en p"
  using that by (induction ps) (simp_all add: set_or_disable_def disable_ports_def)

definition osgemm_ports :: "port list" where
  "osgemm_ports = [Reader 0, Reader 1, Writer 0] @
     map Reader [2, 3, 4, 5, 6, 7, 8, 9, 10, 11, 12, 13] @ map Writer [1, 2, 3]"

definition isgemm_ports :: "port list" where
  "isgemm_ports = [Reader 11, Reader 12, Reader 13, Writer 3] @
     map Reader [0, 1, 2, 3, 4, 5, 6, 7, 8, 9, 10] @ map Writer [0, 1, 2]"

definition simd_ports :: "port list" where
  "simd_ports = [Reader 7, Reader 13, Writer 3] @
     map Reader [0, 1, 2, 3, 4, 5, 6, 8, 9, 10, 11, 12] @ map Writer [0, 1, 2]"

lemma set_osgemm_concat:
  "set_osgemm_streamer_csr m A B D =
     concat (map (set_or_disable m (\<lambda>p. p \<in> {Reader 0, Reader 1, Writer 0})
       ((\<lambda>_. A)(Reader 1 := B, Writer 0 := D))) osgemm_ports)"
  by (simp add: set_osgemm_streamer_csr_def osgemm_ports_def set_or_disable_def disable_ports_def)

lemma set_isgemm_concat:
  "set_isgemm_streamer_csr m A B CD =
     concat (map (set_or_disable m (\<lambda>p. p \<in> {Reader 11, Reader 12, Reader 13, Writer 3})
       ((\<lambda>_. CD)(Reader 11 := A, Reader 12 := B))) isgemm_ports)"
  by (simp add: set_isgemm_streamer_csr_def isgemm_ports_def set_or_disable_def disable_ports_def)

lemma set_simd_concat:
  "set_simd_streamer_csr m A B C =
     concat (map (set_or_disable m (\<lambda>p. p \<in> {Reader 7, Reader 13, Writer 3})
       ((\<lambda>_. A)(Reader 13 := B, Writer 3 := C))) simd_ports)"
  by (simp add: set_simd_streamer_csr_def simd_ports_def set_or_disable_def disable_ports_def)

lemma short_ports:
  "distinct osgemm_ports" "set osgemm_ports = set simba_ports"
  "distinct isgemm_ports" "set isgemm_ports = set simba_ports"
  "distinct simd_ports" "set simd_ports = set simba_ports"
  unfolding osgemm_ports_def isgemm_ports_def simd_ports_def simba_ports_def
    simba_readers_low_def simba_readers_high_def simba_writers_def
  by (simp, simp, blast, simp, simp, blast, simp, simp, blast)

lemma short_form_file:
  assumes "static_asserts m" and "distinct (ports_addrs m simba_ports)"
    and "distinct qs" and "set qs = set simba_ports"
  shows "csr_file (write_csrs (concat (map (set_or_disable m en a) qs)) s) =
    csr_file (write_csrs (set_streamer_csr m en a) s)"
  unfolding set_streamer_csr_concat
  by (rule concat_writes_perm [symmetric, OF assms(2,3,4)])
    (rule set_or_disable_addrs [OF assms(1,2)])

lemmas osgemm_file = short_form_file [OF _ _ short_ports(1,2), folded set_osgemm_concat]
lemmas isgemm_file = short_form_file [OF _ _ short_ports(3,4), folded set_isgemm_concat]
lemmas simd_file = short_form_file [OF _ _ short_ports(5,6), folded set_simd_concat]

text \<open>An address map, for the witnesses: sixteen registers per port.\<close>

definition example_regs :: "port \<Rightarrow> port_regs" where
  "example_regs p =
     (let b = (case p of Reader r \<Rightarrow> 1024 + 16 * word_of_nat r
                       | Writer w \<Rightarrow> 1248 + 16 * word_of_nat w | Reader_Writer _ \<Rightarrow> 0)
      in \<lparr>base_ptr_low = b, base_ptr_high = b + 1, s_stride_base = b + 2,
          s_stride_num = spatial_num p, t_bound_base = b + 4, t_bound_num = 4,
          t_stride_base = b + 8, t_stride_num = 4, addr_remap_index = None,
          enabled_channel = None\<rparr>)"

definition example_map :: streamer_map where
  "example_map = \<lparr>regs_of = example_regs, ext_csr_base = (\<lambda>_. None),
     DELAYED_START_READER = (\<lambda>r. 1312 + word_of_nat r), STREAMER_START_CSR = 1340,
     STREAMER_BUSY_CSR = 1341, STREAMER_PERFORMANCE_COUNTER_CSR = 1342\<rparr>"

lemma example_static_asserts: "static_asserts example_map"
  by (simp add: static_asserts_def example_map_def example_regs_def Let_def list_all_iff)

definition example_key :: "port \<Rightarrow> nat" where
  "example_key p = (case p of Reader r \<Rightarrow> 64 + r | Writer w \<Rightarrow> 78 + w | Reader_Writer _ \<Rightarrow> 0)"

lemma example_port_addrs:
  "list_all (\<lambda>p. distinct (stream_addrs (example_regs p)) \<and>
     list_all (\<lambda>x. unat x div 16 = example_key p) (stream_addrs (example_regs p))) simba_ports"
  by (simp add: simba_ports_def simba_readers_low_def simba_readers_high_def simba_writers_def
    stream_addrs_def block_addrs_small example_regs_def example_key_def spatial_num_def Let_def)

lemma example_distinct: "distinct (ports_addrs example_map simba_ports)"
  unfolding ports_addrs_def
proof (rule distinct_concat_map)
  fix p q
  assume pq: "p \<in> set simba_ports" "q \<in> set simba_ports" "p \<noteq> q"
  then have "example_key p \<noteq> example_key q" by (auto simp: example_key_def)
  moreover have k: "unat x div 16 = example_key r"
    if "r \<in> set simba_ports" "x \<in> set (stream_addrs (regs_of example_map r))" for r x
    using that(2) bspec [OF example_port_addrs [unfolded list_all_iff] that(1)]
    by (simp add: example_map_def)
  ultimately show "set (stream_addrs (regs_of example_map p)) \<inter>
      set (stream_addrs (regs_of example_map q)) = {}"
    using k [OF pq(1)] k [OF pq(2)] unfolding disjoint_iff by metis
next
  fix p
  assume "p \<in> set simba_ports"
  then show "distinct (stream_addrs (regs_of example_map p))"
    using bspec [OF example_port_addrs [unfolded list_all_iff], of p]
    by (simp add: example_map_def del: simba_ports_simps)
qed simp

text \<open>Without the second SIMD operand.\<close>

definition no_b_ports :: "port list" where
  "no_b_ports = [Reader 7, Writer 3] @
     map Reader [0, 1, 2, 3, 4, 5, 6, 8, 9, 10, 11, 12] @ map Writer [0, 1, 2]"

definition r13_off :: "streamer_map \<Rightarrow> (u32 \<times> u32) list" where
  "r13_off m = [(s_stride_base (regs_of m (Reader 13)), 1)] @
     csr_block (t_bound_base (regs_of m (Reader 13))) 4 (\<lambda>_. 0) @
     csr_block (t_stride_base (regs_of m (Reader 13))) 4 (\<lambda>_. 1)"

lemma set_simd_no_b_concat:
  "set_simd_streamer_no_b m A C =
     concat (map (set_or_disable m (\<lambda>p. p \<in> {Reader 7, Writer 3}) ((\<lambda>_. A)(Writer 3 := C)))
       no_b_ports) @ r13_off m"
  by (simp add: set_simd_streamer_no_b_def no_b_ports_def r13_off_def set_or_disable_def
    disable_ports_def)

lemma no_b_ports: "distinct no_b_ports" "set no_b_ports \<subseteq> set simba_ports"
  "Reader 13 \<notin> set no_b_ports"
  by (auto simp: no_b_ports_def)

lemma r13_off_addrs:
  assumes "static_asserts m" and "distinct (ports_addrs m simba_ports)"
  shows "distinct (map fst (r13_off m))"
    and "set (map fst (r13_off m)) \<subseteq> set (stream_addrs (regs_of m (Reader 13)))"
proof -
  let ?r = "regs_of m (Reader 13)"
  have p: "Reader 13 \<in> set simba_ports" by simp
  have "stream_addrs ?r = base_ptr_low ?r # map fst (r13_off m)"
    using static_asserts_port [OF assms(1) p]
    by (simp add: stream_addrs_def r13_off_def block_addrs_small spatial_num_def)
  with distinct_port [OF assms(2) p] show "distinct (map fst (r13_off m))"
    and "set (map fst (r13_off m)) \<subseteq> set (stream_addrs ?r)"
    by auto
qed

lemma simd_no_b_r13:
  assumes "static_asserts m" and "distinct (ports_addrs m simba_ports)"
  shows "\<not> reader_starts (port_cfg (regs_of m (Reader 13))
    (csr_file (write_csrs (set_simd_streamer_no_b m A C) t)))"
proof -
  let ?r = "regs_of m (Reader 13)"
  let ?f = "csr_file (write_csrs (set_simd_streamer_no_b m A C) t)"
  have f: "?f x = v" if "(x, v) \<in> set (r13_off m)" for x v
    using csr.rd_writes_distinct [OF r13_off_addrs(1) [OF assms] that]
    by (simp add: set_simd_no_b_concat)
  have "?f (t_bound_base ?r) = 0" "?f (t_stride_base ?r) = 1"
    by (rule f, simp add: r13_off_def csr_block_def upt_rec)+
  then show ?thesis
    using reader_stopped_iff [of ?r ?f] static_asserts_port [OF assms(1), of "Reader 13"] by simp
qed

lemma simd_no_b_ports:
  assumes "static_asserts m" and "distinct (ports_addrs m simba_ports)"
  shows "port_cfg (regs_of m (Reader 7)) (csr_file (write_csrs (set_simd_streamer_no_b m A C) t)) =
      args_cfg (regs_of m (Reader 7)) A \<and>
    port_cfg (regs_of m (Writer 3)) (csr_file (write_csrs (set_simd_streamer_no_b m A C) t)) =
      args_cfg (regs_of m (Writer 3)) C"
proof -
  let ?g = "\<lambda>s. csr_file (write_csrs (r13_off m) s)"
  have keep: "port_cfg (regs_of m p) (?g s) = port_cfg (regs_of m p) (csr_file s)"
    if "p \<in> set no_b_ports" for p s
  proof (rule port_cfg_cong)
    fix x
    assume "x \<in> set (stream_addrs (regs_of m p))"
    moreover have "p \<noteq> Reader 13" "p \<in> set simba_ports" using that no_b_ports by blast+
    ultimately have "x \<notin> fst ` set (r13_off m)"
      using r13_off_addrs(2) [OF assms] ports_addrs_disjoint [OF assms(2), of p "Reader 13"]
      by auto
    then show "?g s x = csr_file s x" by (rule csr.rd_writes_other)
  qed
  note cfg = set_ports_enabled [OF assms no_b_ports(1,2),
    where en = "\<lambda>p. p \<in> {Reader 7, Writer 3}" and a = "(\<lambda>_. A)(Writer 3 := C)"]
  have "Reader 7 \<in> set no_b_ports" "Writer 3 \<in> set no_b_ports" by (simp_all add: no_b_ports_def)
  then show ?thesis
    using cfg [of "Reader 7"] cfg [of "Writer 3"] keep by (simp add: set_simd_no_b_concat)
qed

section \<open>Properties of the streamer configuration\<close>

text \<open>
  After \<open>set_streamer_csr\<close> every enabled port finds in its registers exactly the pointer,
  spatial strides, temporal bounds and temporal strides it was given, whatever the registers
  held before. A disabled writer does not start. A disabled reader starts nevertheless exactly
  when its innermost stride register still holds zero and its other three bounds are not zero:
  only the innermost bound is cleared, and the hardware replaces that one by 1 when the stride
  is zero.
\<close>

theorem streamer_ports_configured:
  assumes "static_asserts m" and "distinct (ports_addrs m simba_ports)"
    and "p \<in> set simba_ports"
  shows "(en p \<longrightarrow> port_cfg (regs_of m p) (csr_file (write_csrs (set_streamer_csr m en a) s)) =
           args_cfg (regs_of m p) (a p)) \<and>
    (\<not> en p \<longrightarrow>
       \<not> writer_starts (port_cfg (regs_of m p)
           (csr_file (write_csrs (set_streamer_csr m en a) s))) \<and>
       (reader_starts (port_cfg (regs_of m p)
           (csr_file (write_csrs (set_streamer_csr m en a) s))) \<longleftrightarrow>
        csr_file s (t_stride_base (regs_of m p)) = 0 \<and>
        (\<forall>i \<in> {1..<4}. csr_file s (t_bound_base (regs_of m p) + word_of_nat i) \<noteq> 0)))"
  using set_streamer_enabled [OF assms] disabled_writer [OF assms] disabled_reader_iff [OF assms]
  by blast

theorem streamer_ports_configured_witness:
  "port_cfg (example_regs (Reader 7)) (csr_file (write_csrs
     (set_streamer_csr example_map (\<lambda>p. p = Reader 7)
        (\<lambda>_. \<lparr>arg_ptr = 4096, arg_ss = (\<lambda>_. 8), arg_tb = (\<lambda>_. 3), arg_ts = (\<lambda>_. 64)\<rparr>)) csr_reset)) =
   \<lparr>agu_ptr = 4096, agu_spatial = [8, 8], agu_bounds = [3, 3, 3, 3],
     agu_strides = [64, 64, 64, 64]\<rparr>"
proof -
  have "Reader 7 \<in> set simba_ports" by simp
  from streamer_ports_configured [OF example_static_asserts example_distinct this,
    of "\<lambda>p. p = Reader 7"]
  show ?thesis
    by (simp add: example_map_def args_cfg_def example_regs_def Let_def spatial_num_def upt_rec)
qed

text \<open>
  The functions for one operating mode leave the registers exactly as the general function
  does with the ports of that mode enabled: R0, R1 and W0 for OSGeMM, R11, R12, R13 and W3 for
  ISGeMM, R7, R13 and W3 for SIMD.
\<close>

theorem mode_functions_refine:
  assumes "static_asserts m" and "distinct (ports_addrs m simba_ports)"
  shows "csr_file (write_csrs (set_osgemm_streamer_csr m A B D) s) =
      csr_file (write_csrs (set_streamer_csr m (\<lambda>p. p \<in> {Reader 0, Reader 1, Writer 0})
        ((\<lambda>_. A)(Reader 1 := B, Writer 0 := D))) s) \<and>
    csr_file (write_csrs (set_isgemm_streamer_csr m A B D) s) =
      csr_file (write_csrs (set_streamer_csr m
        (\<lambda>p. p \<in> {Reader 11, Reader 12, Reader 13, Writer 3})
        ((\<lambda>_. D)(Reader 11 := A, Reader 12 := B))) s) \<and>
    csr_file (write_csrs (set_simd_streamer_csr m A B D) s) =
      csr_file (write_csrs (set_streamer_csr m (\<lambda>p. p \<in> {Reader 7, Reader 13, Writer 3})
        ((\<lambda>_. A)(Reader 13 := B, Writer 3 := D))) s)"
  unfolding set_osgemm_concat set_isgemm_concat set_simd_concat
  using short_form_file [OF assms short_ports(1,2)] short_form_file [OF assms short_ports(3,4)]
    short_form_file [OF assms short_ports(5,6)]
  by blast

definition example_args :: "u32 \<Rightarrow> stream_args" where
  "example_args stride = \<lparr>arg_ptr = 4096, arg_ss = (\<lambda>_. 8), arg_tb = (\<lambda>_. 3), arg_ts = (\<lambda>_. stride)\<rparr>"

theorem mode_functions_refine_witness:
  "csr_file (write_csrs (set_osgemm_streamer_csr example_map (example_args 1) (example_args 2)
       (example_args 3)) csr_reset) =
   csr_file (write_csrs (set_streamer_csr example_map (\<lambda>p. p \<in> {Reader 0, Reader 1, Writer 0})
     ((\<lambda>_. example_args 1)(Reader 1 := example_args 2, Writer 0 := example_args 3))) csr_reset)"
  using mode_functions_refine [OF example_static_asserts example_distinct] by blast

text \<open>
  C36: a mode switch can leave a reader of the old mode running. After an ISGeMM configuration
  whose partial-sum stream has innermost stride zero and outer bounds different from zero, the
  OSGeMM configuration, which means to disable R13, leaves R13 starting; the function for SIMD
  without a second operand, which also writes R13's strides, disables R13 from every state, and
  gives R7 and W3 their arguments.
\<close>

theorem mode_switch_stale_reader:
  assumes "static_asserts m" and "distinct (ports_addrs m simba_ports)"
    and "arg_ts CD 0 = 0" and "\<forall>i \<in> {1..<4}. arg_tb CD i \<noteq> 0"
  shows "reader_starts (port_cfg (regs_of m (Reader 13)) (csr_file (write_csrs
      (set_osgemm_streamer_csr m A B D) (write_csrs (set_isgemm_streamer_csr m A' B' CD) s)))) \<and>
    (let f = csr_file (write_csrs (set_simd_streamer_no_b m A C) t) in
       \<not> reader_starts (port_cfg (regs_of m (Reader 13)) f) \<and>
       port_cfg (regs_of m (Reader 7)) f = args_cfg (regs_of m (Reader 7)) A \<and>
       port_cfg (regs_of m (Writer 3)) f = args_cfg (regs_of m (Writer 3)) C)"
proof
  let ?r = "regs_of m (Reader 13)"
  let ?s = "write_csrs (set_isgemm_streamer_csr m A' B' CD) s"
  have p: "Reader 13 \<in> set simba_ports" by simp
  note n = static_asserts_port [OF assms(1) p]
  have "port_cfg ?r (csr_file ?s) = args_cfg ?r CD"
    using set_streamer_enabled [OF assms(1,2) p,
        where en = "\<lambda>p. p \<in> {Reader 11, Reader 12, Reader 13, Writer 3}"
          and a = "(\<lambda>_. CD)(Reader 11 := A', Reader 12 := B')"]
      short_form_file [OF assms(1,2) short_ports(3,4)]
    by (simp add: set_isgemm_concat)
  note cd = port_cfg_args [OF this, unfolded n]
  have "csr_file ?s (t_stride_base ?r) = 0"
    using cd(2) [of 0] assms(3) by simp
  moreover have "\<forall>i \<in> {1..<4}. csr_file ?s (t_bound_base ?r + word_of_nat i) \<noteq> 0"
    using cd(1) assms(4) by simp
  ultimately show "reader_starts (port_cfg ?r (csr_file (write_csrs (set_osgemm_streamer_csr m A B D) ?s)))"
    unfolding set_osgemm_concat short_form_file [OF assms(1,2) short_ports(1,2)]
    by (subst disabled_reader_iff [OF assms(1,2) p]) simp_all
next
  let ?f = "csr_file (write_csrs (set_simd_streamer_no_b m A C) t)"
  show "let f = ?f in \<not> reader_starts (port_cfg (regs_of m (Reader 13)) f) \<and>
      port_cfg (regs_of m (Reader 7)) f = args_cfg (regs_of m (Reader 7)) A \<and>
      port_cfg (regs_of m (Writer 3)) f = args_cfg (regs_of m (Writer 3)) C"
    unfolding Let_def using simd_no_b_r13 [OF assms(1,2)] simd_no_b_ports [OF assms(1,2)] by blast
qed

theorem mode_switch_stale_reader_witness:
  "reader_starts (port_cfg (regs_of example_map (Reader 13)) (csr_file (write_csrs
     (set_osgemm_streamer_csr example_map (example_args 1) (example_args 1) (example_args 1))
     (write_csrs (set_isgemm_streamer_csr example_map (example_args 1) (example_args 1)
        (example_args 0)) csr_reset))))"
  using mode_switch_stale_reader [OF example_static_asserts example_distinct,
    of "example_args 0" "example_args 1" "example_args 1" "example_args 1"
       "example_args 1" "example_args 1" csr_reset]
  by (simp add: example_args_def)

section \<open>Starting and waiting\<close>

lemma start_delayed_run:
  assumes "\<And>k. hw k (simbacore_csr m gauge) = Some (g k)" and "en \<longrightarrow> (\<forall>k \<ge> T. cnt \<le> g k)"
  shows "\<exists>t n. start_delayed hw m gauge r en cnt s = Some t \<and>
    csr_trace t = csr_trace s @ (if en then [(DELAYED_START_READER m r, 1)] else []) \<and>
    csr_now t = csr_now s + (if en then n + 2 else 0) \<and> (en \<longrightarrow> cnt \<le> g (csr_now s + n))"
proof (cases en)
  case True
  let ?P = "\<lambda>v. \<not> v < cnt"
  have val: "csr_value hw (simbacore_csr m gauge) ((csr_tick ^^ n) s) = g (csr_now s + n)" for n
    by (simp add: csr_value_def assms(1))
  have "?P (csr_value hw (simbacore_csr m gauge) ((csr_tick ^^ T) s))"
    using assms(2) True by (simp add: val not_less)
  from csr_poll_returns [where P = ?P, OF this] obtain n
    where "csr_poll hw (simbacore_csr m gauge) ?P s = Some ((csr_tick ^^ Suc n) s)"
      "cnt \<le> g (csr_now s + n)"
    unfolding val by (auto simp: not_less)
  with True show ?thesis
    by (intro exI [of _ "write_csr (DELAYED_START_READER m r) 1 ((csr_tick ^^ Suc n) s)"]
      exI [of _ n]) (simp add: start_delayed_def)
qed (simp add: start_delayed_def)

text \<open>
  Starting raises the streamer's start bit, then the accelerator's, then the start bit of
  each enabled delayed reader, R10 before R11, and writes nothing else; the bit of a delayed
  reader is written right after a read that found its gauge at its count or above. The function
  returns whenever the gauges of the enabled readers eventually stay at their counts.
\<close>

theorem start_order:
  assumes "\<And>k. hw k (simbacore_csr m R10_DELAY_GAUGE) = Some (ga k)"
    and "\<And>k. hw k (simbacore_csr m R11_DELAY_GAUGE) = Some (gb k)"
    and "R10_en \<longrightarrow> (\<forall>k \<ge> T. ca \<le> ga k)" and "R11_en \<longrightarrow> (\<forall>k \<ge> T. cb \<le> gb k)"
  shows "\<exists>t n10 n11. start_simbacore_and_streamers hw m R10_en ca R11_en cb s = Some t \<and>
    csr_trace t = csr_trace s @
      [(STREAMER_START_CSR m, 1), (simbacore_csr m SIMBACORE_START, 1)] @
      (if R10_en then [(DELAYED_START_READER m 10, 1)] else []) @
      (if R11_en then [(DELAYED_START_READER m 11, 1)] else []) \<and>
    csr_now t = csr_now s + 2 + (if R10_en then n10 + 2 else 0) + (if R11_en then n11 + 2 else 0) \<and>
    (R10_en \<longrightarrow> ca \<le> ga (csr_now s + 2 + n10)) \<and>
    (R11_en \<longrightarrow> cb \<le> gb (csr_now s + 2 + (if R10_en then n10 + 2 else 0) + n11))"
proof -
  let ?s2 = "set_simbacore_start m (set_streamer_start m s)"
  have s2: "csr_now ?s2 = csr_now s + 2"
    "csr_trace ?s2 = csr_trace s @ [(STREAMER_START_CSR m, 1), (simbacore_csr m SIMBACORE_START, 1)]"
    by (simp_all add: set_simbacore_start_def set_streamer_start_def)
  from start_delayed_run [where hw = hw and m = m and en = R10_en and cnt = ca and T = T and
      g = ga and gauge = R10_DELAY_GAUGE and r = 10 and s = ?s2, OF assms(1,3)] obtain u n10
    where u: "start_delayed hw m R10_DELAY_GAUGE 10 R10_en ca ?s2 = Some u"
      "csr_trace u = csr_trace ?s2 @ (if R10_en then [(DELAYED_START_READER m 10, 1)] else [])"
      "csr_now u = csr_now ?s2 + (if R10_en then n10 + 2 else 0)"
      "R10_en \<longrightarrow> ca \<le> ga (csr_now ?s2 + n10)"
    by blast
  from start_delayed_run [where hw = hw and m = m and en = R11_en and cnt = cb and T = T and
      g = gb and gauge = R11_DELAY_GAUGE and r = 11 and s = u, OF assms(2,4)] obtain t n11
    where t: "start_delayed hw m R11_DELAY_GAUGE 11 R11_en cb u = Some t"
      "csr_trace t = csr_trace u @ (if R11_en then [(DELAYED_START_READER m 11, 1)] else [])"
      "csr_now t = csr_now u + (if R11_en then n11 + 2 else 0)"
      "R11_en \<longrightarrow> cb \<le> gb (csr_now u + n11)"
    by blast
  show ?thesis
    by (rule exI [of _ t], rule exI [of _ n10], rule exI [of _ n11])
      (use u(2-4) t(2-4) in \<open>simp add: start_simbacore_and_streamers_def u(1) t(1) s2\<close>)
qed

theorem start_order_witness:
  "\<exists>t n10 n11. start_simbacore_and_streamers (\<lambda>k _. Some (word_of_nat (min k 9))) example_map
      True 7 False 0 csr_reset = Some t \<and>
    csr_trace t = [(1340, 1), (1349, 1), (1322, 1)] \<and>
    csr_now t = 2 + (n10 + 2) \<and> 7 \<le> (word_of_nat (min (2 + n10) 9) :: u32) \<and> n11 = (0 :: nat)"
  using start_order [where hw = "\<lambda>k _. Some (word_of_nat (min k 9))" and m = example_map
    and ga = "\<lambda>k. word_of_nat (min k 9)" and gb = "\<lambda>k. word_of_nat (min k 9)" and T = 9
    and R10_en = True and R11_en = False and ca = 7 and cb = 0 and s = csr_reset]
  by (simp add: example_map_def simbacore_csr_def SIMBACORE_CSR_ADDR_BASE_def csr_reset_def
    word_le_nat_alt)

text \<open>
  Waiting lowers the four start bits, then returns exactly when the accelerator and after
  it the streamer have been read idle; it returns when both busy flags eventually stay low.
\<close>

theorem wait_finishes:
  assumes "\<And>k. hw k (simbacore_csr m SIMBACORE_BUSY) = Some (b k)"
    and "\<And>k. hw k (STREAMER_BUSY_CSR m) = Some (sb k)"
    and "\<forall>k \<ge> T. b k = 0 \<and> sb k = 0"
  shows "\<exists>t n1 n2. wait_simbacore_and_streamer hw m s = Some t \<and>
    csr_trace t = csr_trace s @ [(STREAMER_START_CSR m, 0), (simbacore_csr m SIMBACORE_START, 0),
      (DELAYED_START_READER m 10, 0), (DELAYED_START_READER m 11, 0)] \<and>
    csr_now t = csr_now s + 4 + Suc n1 + Suc n2 \<and>
    b (csr_now s + 4 + n1) = 0 \<and> sb (csr_now s + 4 + Suc n1 + n2) = 0"
proof -
  let ?s = "write_csrs [(STREAMER_START_CSR m, 0), (simbacore_csr m SIMBACORE_START, 0),
    (DELAYED_START_READER m 10, 0), (DELAYED_START_READER m 11, 0)] s"
  have now: "csr_now ?s = csr_now s + 4" by simp
  obtain n n' where n: "wait_simbacore_and_streamer hw m s = Some ((csr_tick ^^ (Suc n + Suc n')) ?s)"
    "b (csr_now ?s + n) = 0" "sb (csr_now ?s + Suc n + n') = 0"
    using csr_polls_idle [where s = ?s and hw = hw and b = b and b' = sb, OF assms]
    unfolding wait_simbacore_and_streamer_def by blast
  show ?thesis
    by (rule exI [of _ "(csr_tick ^^ (Suc n + Suc n')) ?s"], rule exI [of _ n], rule exI [of _ n'])
      (use n [unfolded now] in \<open>simp del: funpow.simps\<close>)
qed

theorem wait_finishes_witness:
  "\<exists>t. wait_simbacore_and_streamer (\<lambda>k _. Some (if k < 9 then 1 else 0)) example_map csr_reset =
      Some t \<and> csr_trace t = [(1340, 0), (1349, 0), (1322, 0), (1323, 0)]"
  using wait_finishes [where hw = "\<lambda>k _. Some (if k < 9 then 1 else 0)" and m = example_map
    and b = "\<lambda>k. if k < 9 then 1 else 0" and sb = "\<lambda>k. if k < 9 then 1 else 0" and T = 9
    and s = csr_reset]
  by (auto simp: example_map_def simbacore_csr_def SIMBACORE_CSR_ADDR_BASE_def csr_reset_def)

section \<open>Checking results\<close>

lemma sint_ucast_diff:
  "sint (ucast (x :: 'a::len word) - ucast (y :: 'a word) :: 'b::len word) = uint x - uint y"
  if "LENGTH('a) < LENGTH('b)"
proof -
  have le: "(2 :: int) ^ LENGTH('a) \<le> 2 ^ (LENGTH('b) - 1)"
    using that by (intro power_increasing) auto
  have x: "uint x < 2 ^ LENGTH('a)" "0 \<le> uint x" and y: "uint y < 2 ^ LENGTH('a)" "0 \<le> uint y"
    by (rule uint_lt2p, rule uint_ge_0)+
  have "signed_take_bit (LENGTH('b) - 1) (uint x - uint y) = uint x - uint y"
  proof (rule signed_take_bit_int_eq_self)
    show "- (2 ^ (LENGTH('b) - 1)) \<le> uint x - uint y" using x(2) y(1) le by linarith
    show "uint x - uint y < 2 ^ (LENGTH('b) - 1)" using x(1) y(2) le by linarith
  qed
  moreover have "ucast x - ucast y = (word_of_int (uint x - uint y) :: 'b word)"
    by (simp only: of_int_diff flip: ucast_eq)
  ultimately show ?thesis by (simp only: sint_sbintrunc')
qed

text \<open>Two results agree when they differ by at most one unit, or are the two zeros.\<close>

lemma values_match_u8_iff:
  "values_match_u8_lsb x y \<longleftrightarrow> \<bar>uint x - uint y\<bar> \<le> 1 \<or> (x = 0 \<and> y = 128) \<or> (x = 128 \<and> y = 0)"
  by (auto simp: values_match_u8_lsb_def TOLERANCE_def sint_ucast_diff Let_def)

lemma values_match_u16_iff:
  "values_match_u16_lsb x y \<longleftrightarrow>
     \<bar>uint x - uint y\<bar> \<le> 1 \<or> (x = 0 \<and> y = 0x8000) \<or> (x = 0x8000 \<and> y = 0)"
  by (auto simp: values_match_u16_lsb_def TOLERANCE_def sint_ucast_diff Let_def)

lemma unat_count_errors: "unat (count_errors n ok) = card {i. i < nat (sint n) \<and> \<not> ok i}"
proof -
  have "sint n < 2 ^ 31" using sint_lt [of n] by simp
  then show ?thesis by (simp add: count_errors_def unat_count_fails)
qed

text \<open>
  The checkers return the exact number of positions at which the result differs from the
  reference by more than one unit and the two are not the two zeros of the sign-magnitude
  format; the 32-bit counter cannot overflow. The 16-bit checker compares half as many
  elements as the length in bytes, by an unsigned division: a negative length is not rejected.
\<close>

theorem checkers_count_mismatches:
  "unat (check_result_all out golden len) =
     card {i. i < nat (sint len) \<and> \<not> (\<bar>uint (out i) - uint (golden i)\<bar> \<le> 1 \<or>
       (out i = 0 \<and> golden i = 128) \<or> (out i = 128 \<and> golden i = 0))} \<and>
   unat (check_result_all_u16 out16 golden16 len) =
     card {i. i < unat len div 2 \<and> \<not> (\<bar>uint (out16 i) - uint (golden16 i)\<bar> \<le> 1 \<or>
       (out16 i = 0 \<and> golden16 i = 0x8000) \<or> (out16 i = 0x8000 \<and> golden16 i = 0))}"
proof
  show "unat (check_result_all out golden len) =
     card {i. i < nat (sint len) \<and> \<not> (\<bar>uint (out i) - uint (golden i)\<bar> \<le> 1 \<or>
       (out i = 0 \<and> golden i = 128) \<or> (out i = 128 \<and> golden i = 0))}"
    by (simp add: check_result_all_def unat_count_errors values_match_u8_iff)
  have "unat (len div 2) = unat len div 2" by (simp add: unat_div)
  moreover from this have "unat (len div 2) < 2 ^ 31" using unat_u32_bound [of len] by simp
  ultimately have "nat (sint (len div 2)) = unat len div 2"
    using sint_small [of "len div 2"] by simp
  then show "unat (check_result_all_u16 out16 golden16 len) =
     card {i. i < unat len div 2 \<and> \<not> (\<bar>uint (out16 i) - uint (golden16 i)\<bar> \<le> 1 \<or>
       (out16 i = 0 \<and> golden16 i = 0x8000) \<or> (out16 i = 0x8000 \<and> golden16 i = 0))}"
    by (simp add: check_result_all_u16_def unat_count_errors values_match_u16_iff)
qed

end
