(* ===== verification/Ssr.thy ===== *)
theory Ssr
  imports Prelude
begin

unbundle bit_operations_syntax

text \<open>
  The stream semantic registers (sw/snRuntime/src/ssr.h): a data mover walks a nest of up to four
  loops over memory. The runtime is given the bound and the stride of every loop; the address
  generator (hw/snitch_ssr/src/snitch_ssr_addr_gen.sv) takes the last index of every loop and, for
  every loop, the distance from the last address of the loops inside it.
\<close>

section \<open>The configuration registers\<close>

definition SNRT_SSR_DM_ALL :: u32 where "SNRT_SSR_DM_ALL = 31"

definition REG_STATUS :: u32 where "REG_STATUS = 0"
definition REG_REPEAT :: u32 where "REG_REPEAT = 1"
definition REG_BOUNDS :: u32 where "REG_BOUNDS = 2"
definition REG_STRIDES :: u32 where "REG_STRIDES = 6"
definition REG_RPTR :: u32 where "REG_RPTR = 24"
definition REG_WPTR :: u32 where "REG_WPTR = 28"

text \<open>Registers by number and data mover; data mover 31 addresses all of them.\<close>

type_synonym ssr_regs = "u32 \<Rightarrow> u32 \<Rightarrow> u32"

definition read_ssr_cfg :: "u32 \<Rightarrow> u32 \<Rightarrow> ssr_regs \<Rightarrow> u32" where
  "read_ssr_cfg reg dm f = f reg dm"

definition write_ssr_cfg :: "u32 \<Rightarrow> u32 \<Rightarrow> u32 \<Rightarrow> ssr_regs \<Rightarrow> ssr_regs" where
  "write_ssr_cfg reg dm v f =
     (\<lambda>r d. if r = reg \<and> (d = dm \<or> dm = SNRT_SSR_DM_ALL) then v else f r d)"

text \<open>The enable bit of the register 0x7C0.\<close>

definition snrt_ssr_enable :: "u32 \<Rightarrow> u32" where
  "snrt_ssr_enable csr = csr OR 1"

definition snrt_ssr_disable :: "u32 \<Rightarrow> u32" where
  "snrt_ssr_disable csr = csr AND NOT 1"

section \<open>The loop nests\<close>

definition snrt_ssr_loop_1d :: "u32 \<Rightarrow> u32 \<Rightarrow> u32 \<Rightarrow> ssr_regs \<Rightarrow> ssr_regs" where
  "snrt_ssr_loop_1d dm b0 s0 f =
     (let b0 = b0 - 1;
          f = write_ssr_cfg (REG_BOUNDS + 0) dm b0 f;
          a = 0
      in write_ssr_cfg (REG_STRIDES + 0) dm (s0 - a) f)"

definition snrt_ssr_loop_2d :: "u32 \<Rightarrow> u32 \<Rightarrow> u32 \<Rightarrow> u32 \<Rightarrow> u32 \<Rightarrow> ssr_regs \<Rightarrow> ssr_regs" where
  "snrt_ssr_loop_2d dm b0 b1 s0 s1 f =
     (let b0 = b0 - 1; b1 = b1 - 1;
          f = write_ssr_cfg (REG_BOUNDS + 0) dm b0 f;
          f = write_ssr_cfg (REG_BOUNDS + 1) dm b1 f;
          a = 0;
          f = write_ssr_cfg (REG_STRIDES + 0) dm (s0 - a) f;
          a = a + s0 * b0
      in write_ssr_cfg (REG_STRIDES + 1) dm (s1 - a) f)"

definition snrt_ssr_loop_3d ::
  "u32 \<Rightarrow> u32 \<Rightarrow> u32 \<Rightarrow> u32 \<Rightarrow> u32 \<Rightarrow> u32 \<Rightarrow> u32 \<Rightarrow> ssr_regs \<Rightarrow> ssr_regs" where
  "snrt_ssr_loop_3d dm b0 b1 b2 s0 s1 s2 f =
     (let b0 = b0 - 1; b1 = b1 - 1; b2 = b2 - 1;
          f = write_ssr_cfg (REG_BOUNDS + 0) dm b0 f;
          f = write_ssr_cfg (REG_BOUNDS + 1) dm b1 f;
          f = write_ssr_cfg (REG_BOUNDS + 2) dm b2 f;
          a = 0;
          f = write_ssr_cfg (REG_STRIDES + 0) dm (s0 - a) f;
          a = a + s0 * b0;
          f = write_ssr_cfg (REG_STRIDES + 1) dm (s1 - a) f;
          a = a + s1 * b1
      in write_ssr_cfg (REG_STRIDES + 2) dm (s2 - a) f)"

definition snrt_ssr_loop_4d ::
  "u32 \<Rightarrow> u32 \<Rightarrow> u32 \<Rightarrow> u32 \<Rightarrow> u32 \<Rightarrow> u32 \<Rightarrow> u32 \<Rightarrow> u32 \<Rightarrow> u32 \<Rightarrow> ssr_regs \<Rightarrow> ssr_regs" where
  "snrt_ssr_loop_4d dm b0 b1 b2 b3 s0 s1 s2 s3 f =
     (let b0 = b0 - 1; b1 = b1 - 1; b2 = b2 - 1; b3 = b3 - 1;
          f = write_ssr_cfg (REG_BOUNDS + 0) dm b0 f;
          f = write_ssr_cfg (REG_BOUNDS + 1) dm b1 f;
          f = write_ssr_cfg (REG_BOUNDS + 2) dm b2 f;
          f = write_ssr_cfg (REG_BOUNDS + 3) dm b3 f;
          a = 0;
          f = write_ssr_cfg (REG_STRIDES + 0) dm (s0 - a) f;
          a = a + s0 * b0;
          f = write_ssr_cfg (REG_STRIDES + 1) dm (s1 - a) f;
          a = a + s1 * b1;
          f = write_ssr_cfg (REG_STRIDES + 2) dm (s2 - a) f;
          a = a + s2 * b2
      in write_ssr_cfg (REG_STRIDES + 3) dm (s3 - a) f)"

definition snrt_ssr_repeat :: "u32 \<Rightarrow> u32 \<Rightarrow> ssr_regs \<Rightarrow> ssr_regs" where
  "snrt_ssr_repeat dm count = write_ssr_cfg REG_REPEAT dm (count - 1)"

text \<open>Starting a stream writes the pointer to the register of its number of dimensions.\<close>

definition snrt_ssr_read :: "u32 \<Rightarrow> u32 \<Rightarrow> ptr32 \<Rightarrow> ssr_regs \<Rightarrow> ssr_regs" where
  "snrt_ssr_read dm dim p = write_ssr_cfg (REG_RPTR + dim) dm p"

definition snrt_ssr_write :: "u32 \<Rightarrow> u32 \<Rightarrow> ptr32 \<Rightarrow> ssr_regs \<Rightarrow> ssr_regs" where
  "snrt_ssr_write dm dim p = write_ssr_cfg (REG_WPTR + dim) dm p"

section \<open>The address generator\<close>

text \<open>
  The loops of a data mover, innermost first: the last index, and the stride with its low three
  bits cleared (the word address mask of a 64-bit data path).
\<close>

definition ssr_loops :: "ssr_regs \<Rightarrow> u32 \<Rightarrow> nat \<Rightarrow> (u32 \<times> u32) list" where
  "ssr_loops f dm dims =
     map (\<lambda>i. (f (REG_BOUNDS + word_of_nat i) dm,
                f (REG_STRIDES + word_of_nat i) dm AND NOT 7)) [0..<Suc dims]"

text \<open>
  One step: the innermost loop that is not at its last index advances, the ones inside it start
  over, and the pointer moves by the stride of that loop. \<open>None\<close> when every loop is at its end.
\<close>

fun advance :: "(u32 \<times> u32) list \<Rightarrow> u32 list \<Rightarrow> (u32 list \<times> u32) option" where
  "advance ((b, st) # ls) (i # is) =
     (if i = b then map_option (\<lambda>(js, st'). (0 # js, st')) (advance ls is)
      else Some ((i + 1) # is, st))"
| "advance _ _ = None"

definition ssr_step :: "(u32 \<times> u32) list \<Rightarrow> ptr32 \<times> u32 list \<Rightarrow> (ptr32 \<times> u32 list) option" where
  "ssr_step ls = (\<lambda>(p, is). map_option (\<lambda>(js, st). (p + st, js)) (advance ls is))"

text \<open>The generator after \<open>k\<close> steps.\<close>

primrec ssr_nth :: "(u32 \<times> u32) list \<Rightarrow> ptr32 \<Rightarrow> nat \<Rightarrow> (ptr32 \<times> u32 list) option" where
  "ssr_nth ls p 0 = Some (p, replicate (length ls) 0)"
| "ssr_nth ls p (Suc k) = Option.bind (ssr_nth ls p k) (ssr_step ls)"

section \<open>Loop nests as the runtime means them\<close>

text \<open>The indices of the \<open>k\<close>-th iteration, and the offset of an iteration.\<close>

fun loop_indices :: "nat list \<Rightarrow> nat \<Rightarrow> nat list" where
  "loop_indices [] k = []"
| "loop_indices (b # bs) k = (k mod b) # loop_indices bs (k div b)"

fun loop_offset :: "u32 list \<Rightarrow> u32 list \<Rightarrow> u32" where
  "loop_offset (s # ss) (i # is) = i * s + loop_offset ss is"
| "loop_offset _ _ = 0"

text \<open>What the runtime writes for a nest, from the accumulated distance \<open>a\<close> on.\<close>

fun nest_regs :: "u32 \<Rightarrow> (nat \<times> u32) list \<Rightarrow> (u32 \<times> u32) list" where
  "nest_regs a [] = []"
| "nest_regs a ((b, s) # ds) =
     (word_of_nat (b - 1), s - a) # nest_regs (a + s * word_of_nat (b - 1)) ds"

section \<open>Lemmas\<close>

interpretation ssr: register_file "\<lambda>f reg. f reg dm" "\<lambda>reg v f. write_ssr_cfg reg dm v f" "\<lambda>_. True"
  for dm
  by unfold_locales (auto simp: write_ssr_cfg_def)

lemma length_nest_regs [simp]: "length (nest_regs a ds) = length ds"
  by (induction ds arbitrary: a) auto

text \<open>A step moves the pointer from the offset of one iteration to that of the next.\<close>

lemma advance_offset:
  assumes "advance (nest_regs a ds) is = Some (js, st)" and "length is = length ds"
  shows "loop_offset (map snd ds) js = loop_offset (map snd ds) is + st + a \<and>
    length js = length ds"
  using assms
proof (induction ds arbitrary: a "is" js st)
  case Nil
  then show ?case by simp
next
  case (Cons d ds)
  obtain b s where d: "d = (b, s)" by (cases d)
  obtain i ks where i: "is = i # ks" using Cons.prems(2) by (cases "is") auto
  show ?case
  proof (cases "i = word_of_nat (b - 1)")
    case True
    with Cons.prems(1) obtain ls where ls: "js = 0 # ls"
      "advance (nest_regs (a + s * word_of_nat (b - 1)) ds) ks = Some (ls, st)"
      by (auto simp: d i)
    from Cons.IH [OF ls(2)] Cons.prems(2) show ?thesis
      by (simp add: d i ls(1) True algebra_simps)
  next
    case False
    with Cons.prems show ?thesis by (auto simp: d i algebra_simps)
  qed
qed

text \<open>The indices count.\<close>

lemma mod_Suc_eq:
  fixes b k :: nat
  assumes "0 < b"
  shows "k mod b = b - 1 \<Longrightarrow> Suc k mod b = 0 \<and> Suc k div b = Suc (k div b)"
    and "k mod b \<noteq> b - 1 \<Longrightarrow> Suc k mod b = Suc (k mod b) \<and> Suc k div b = k div b"
proof -
  assume "k mod b = b - 1"
  with assms have "Suc (k mod b) = b" by simp
  then show "Suc k mod b = 0 \<and> Suc k div b = Suc (k div b)"
    by (simp add: mod_Suc div_Suc)
next
  assume "k mod b \<noteq> b - 1"
  with assms have "Suc (k mod b) \<noteq> b" by auto
  then show "Suc k mod b = Suc (k mod b) \<and> Suc k div b = k div b"
    by (simp add: mod_Suc div_Suc)
qed

lemma advance_indices:
  assumes "\<forall>d \<in> set ds. 0 < fst d \<and> fst d < 2 ^ 32" and "k < prod_list (map fst ds)"
  shows "map_option fst (advance (nest_regs a ds) (map word_of_nat (loop_indices (map fst ds) k))) =
    (if Suc k < prod_list (map fst ds)
     then Some (map word_of_nat (loop_indices (map fst ds) (Suc k))) else None)"
  using assms
proof (induction ds arbitrary: a k)
  case Nil
  then show ?case by simp
next
  case (Cons d ds)
  obtain b s where d: "d = (b, s)" by (cases d)
  let ?P = "prod_list (map fst ds)"
  have b: "0 < b" "b < 2 ^ 32" using Cons.prems(1) by (simp_all add: d)
  have kP: "k div b < ?P"
    using Cons.prems(2) b(1) by (simp add: d less_mult_imp_div_less mult.commute)
  have eq: "(word_of_nat (k mod b) :: u32) = word_of_nat (b - 1) \<longleftrightarrow> k mod b = b - 1"
  proof -
    have "k mod b < 2 ^ 32" "b - 1 < 2 ^ 32" using b mod_less_divisor [OF b(1), of k] by linarith+
    then show ?thesis by (simp add: word_of_nat_eq_iff take_bit_nat_eq_self)
  qed
  show ?case
  proof (cases "k mod b = b - 1")
    case True
    note s = mod_Suc_eq(1) [OF b(1) True]
    have "Suc k < b * ?P \<longleftrightarrow> Suc (k div b) < ?P"
    proof -
      have "Suc k = b * Suc (k div b)" using s by (metis add_0_right mult_div_mod_eq)
      then show ?thesis using b(1) by (simp only: mult_less_cancel1 simp_thms)
    qed
    moreover have "map_option fst (advance (nest_regs (a + s * word_of_nat (b - 1)) ds)
        (map word_of_nat (loop_indices (map fst ds) (k div b)))) =
      (if Suc (k div b) < ?P
       then Some (map word_of_nat (loop_indices (map fst ds) (Suc (k div b)))) else None)"
      using Cons.IH [OF _ kP] Cons.prems(1) by simp
    ultimately show ?thesis
      using s True eq by (auto simp: d option.map_comp comp_def split_beta split: if_splits
        dest!: arg_cong [where f = "map_option ((#) 0)"])
  next
    case False
    note s = mod_Suc_eq(2) [OF b(1) False]
    have "Suc k < b * ?P"
    proof -
      have "Suc k div b < ?P" using s kP by simp
      then show ?thesis using b(1) by (metis div_less_iff_less_mult mult.commute)
    qed
    with s False eq show ?thesis by (simp add: d)
  qed
qed

text \<open>The \<open>k\<close>-th address of the generator is that of the \<open>k\<close>-th iteration of the nest.\<close>

lemma loop_offset_zero: "loop_offset ss (replicate n 0) = 0"
proof (induction n arbitrary: ss)
  case 0
  then show ?case by (cases ss) simp_all
next
  case (Suc n)
  then show ?case by (cases ss) simp_all
qed

lemma loop_indices_0: "loop_indices bs 0 = replicate (length bs) 0"
  by (induction bs) auto

lemma length_loop_indices [simp]: "length (loop_indices bs k) = length bs"
  by (induction bs arbitrary: k) auto

lemma ssr_nth_nest:
  assumes "\<forall>d \<in> set ds. 0 < fst d \<and> fst d < 2 ^ 32" and "k < prod_list (map fst ds)"
  shows "ssr_nth (nest_regs 0 ds) p k =
    Some (p + loop_offset (map snd ds) (map word_of_nat (loop_indices (map fst ds) k)),
          map word_of_nat (loop_indices (map fst ds) k))"
  using assms(2)
proof (induction k)
  case 0
  then show ?case by (simp add: loop_indices_0 loop_offset_zero)
next
  case (Suc k)
  let ?i = "map word_of_nat (loop_indices (map fst ds) k) :: u32 list"
  from advance_indices [OF assms(1), of k 0] Suc.prems obtain st
    where st: "advance (nest_regs 0 ds) ?i =
      Some (map word_of_nat (loop_indices (map fst ds) (Suc k)), st)"
    by (auto split: if_splits)
  from advance_offset [OF this] Suc st show ?case
    by (simp add: ssr_step_def add.assoc)
qed

lemma ssr_nth_end:
  assumes "\<forall>d \<in> set ds. 0 < fst d \<and> fst d < 2 ^ 32"
  shows "ssr_nth (nest_regs 0 ds) p (prod_list (map fst ds)) = None"
proof -
  have pos: "0 < prod_list (map fst ds)" using assms by (induction ds) auto
  then obtain k where k: "prod_list (map fst ds) = Suc k" by (cases "prod_list (map fst ds)") auto
  have "advance (nest_regs 0 ds) (map word_of_nat (loop_indices (map fst ds) k)) = None"
    using advance_indices [OF assms, of k 0] k by simp
  then show ?thesis using ssr_nth_nest [OF assms, of k p] k by (simp add: ssr_step_def)
qed

text \<open>Strides that are multiples of eight keep their low bits clear.\<close>

lemma mult8_AND [simp]: "(8 * x :: u32) AND NOT 7 = 8 * x"
proof -
  have "8 * x = push_bit 3 x" by (simp add: push_bit_eq_mult)
  moreover have "push_bit 3 x AND NOT (7 :: u32) = push_bit 3 x"
  proof -
    have "7 = (mask 3 :: u32)" by (simp add: mask_eq_exp_minus_1)
    show ?thesis unfolding \<open>7 = (mask 3 :: u32)\<close> by (auto intro!: bit_word_eqI simp: bit_simps)
  qed
  ultimately show ?thesis by simp
qed

lemma dvd8_mask: "8 dvd z \<Longrightarrow> z AND NOT 7 = (z :: u32)" "8 dvd z \<Longrightarrow> z AND - 8 = (z :: u32)"
  using mult8_AND by (auto elim!: dvdE)

lemmas dvd8_simps = dvd8_mask dvd_diff dvd_add dvd_mult2

lemmas ssr_reg_defs = REG_BOUNDS_def REG_STRIDES_def REG_REPEAT_def REG_RPTR_def REG_WPTR_def

lemmas ssr_loop_defs = snrt_ssr_loop_1d_def snrt_ssr_loop_2d_def snrt_ssr_loop_3d_def
  snrt_ssr_loop_4d_def

lemma word_of_nat_unat_minus_1: "b \<noteq> 0 \<Longrightarrow> word_of_nat (unat (b :: u32) - 1) = b - 1"
  "b \<noteq> 0 \<Longrightarrow> word_of_nat (unat (b :: u32) - Suc 0) = b - 1"
  by (simp_all add: of_nat_diff Suc_le_eq unat_gt_0)

lemma ssr_loops_4d:
  assumes "b0 \<noteq> 0" "b1 \<noteq> 0" "b2 \<noteq> 0" "b3 \<noteq> 0" and "d = dm \<or> dm = SNRT_SSR_DM_ALL"
  shows "ssr_loops (snrt_ssr_loop_4d dm b0 b1 b2 b3 (8 * t0) (8 * t1) (8 * t2) (8 * t3) g) d 3 =
    nest_regs 0 [(unat b0, 8 * t0), (unat b1, 8 * t1), (unat b2, 8 * t2), (unat b3, 8 * t3)]"
  using assms(5)
  by (auto simp: ssr_loops_def snrt_ssr_loop_4d_def Let_def write_ssr_cfg_def ssr_reg_defs
    upt_rec word_of_nat_unat_minus_1 assms(1-4) dvd8_simps)

text \<open>
  For bounds that are not zero and strides that are multiples of eight, the data mover
  configured by \<open>snrt_ssr_loop_4d\<close> visits exactly the addresses of the four nested loops, in
  their order: the \<open>k\<close>-th address is the pointer plus every loop's index in iteration \<open>k\<close> times
  its stride, and the stream ends after the product of the bounds.
\<close>

theorem ssr_loop_4d_addresses:
  assumes "b0 \<noteq> 0" "b1 \<noteq> 0" "b2 \<noteq> 0" "b3 \<noteq> 0" and "d = dm \<or> dm = SNRT_SSR_DM_ALL"
    and "s0 = 8 * t0" "s1 = 8 * t1" "s2 = 8 * t2" "s3 = 8 * t3"
    and "k \<le> unat b0 * (unat b1 * (unat b2 * unat b3))"
  shows "map_option fst (ssr_nth
      (ssr_loops (snrt_ssr_loop_4d dm b0 b1 b2 b3 s0 s1 s2 s3 f) d 3) p k) =
    (if k < unat b0 * (unat b1 * (unat b2 * unat b3))
     then Some (p + (word_of_nat (k mod unat b0) * s0 +
       (word_of_nat (k div unat b0 mod unat b1) * s1 +
       (word_of_nat (k div unat b0 div unat b1 mod unat b2) * s2 +
        word_of_nat (k div unat b0 div unat b1 div unat b2 mod unat b3) * s3))))
     else None)"
proof -
  let ?ds = "[(unat b0, s0), (unat b1, s1), (unat b2, s2), (unat b3, s3)]"
  have ok: "\<forall>d \<in> set ?ds. 0 < fst d \<and> fst d < 2 ^ 32"
    using assms(1-4) unat_u32_bound by (simp add: unat_gt_0)
  show ?thesis
    unfolding assms(6-9) ssr_loops_4d [OF assms(1-5)]
    using ssr_nth_nest [OF ok, of k p] ssr_nth_end [OF ok, of p] assms(10)
    unfolding assms(6-9) by (auto simp: le_less)
qed

theorem ssr_loop_4d_addresses_witness:
  "map_option fst (ssr_nth (ssr_loops (snrt_ssr_loop_4d 0 2 3 1 2 8 64 0 1024 (\<lambda>_ _. 0)) 0 3)
     4096 7) = Some 5128"
  using ssr_loop_4d_addresses [of 2 3 1 2 0 0 8 1 64 8 0 0 1024 128 7 "\<lambda>_ _. 0" 4096] by simp

end
