(* ===== verification/Lcg.thy ===== *)
theory Lcg
  imports Team
begin

text \<open>
  The parallel random numbers of the Monte Carlo applications (sw/apps/prng/lcg.h): one linear
  congruential sequence is dealt out to the compute cores by the leapfrog method, every core
  drawing two interleaved sub-sequences with jump constants of its own.
\<close>

section \<open>The generator\<close>

definition LCG_A :: u32 where "LCG_A = 1664525"
definition LCG_C :: u32 where "LCG_C = 1013904223"

definition lcg :: "u32 \<Rightarrow> u32 \<Rightarrow> u32 \<Rightarrow> u32" where
  "lcg a c previous = previous * a + c"

text \<open>The jump constants: the loop keeps the power and the sum of the powers of \<open>a\<close>.\<close>

definition leapfrog_constants :: "u32 \<Rightarrow> u32 \<Rightarrow> u32 \<Rightarrow> u32 \<times> u32" where
  "leapfrog_constants num_sequences a c =
     (let (Ap, Cp) = for_up 0 (unat num_sequences) (\<lambda>_ (Ap, Cp). (Ap * a, Cp + Ap)) (1, 0)
      in (Ap, Cp * c))"

text \<open>
  \<open>for (p = 1; p <= sequence_idx; p++)\<close> over an unsigned counter: it does not end for the
  largest index, so the function is partial.
\<close>

partial_function (option) right_seed_loop :: "u32 \<Rightarrow> u32 \<Rightarrow> u32 \<Rightarrow> u32 \<Rightarrow> u32 \<Rightarrow> u32 option" where
  "right_seed_loop a c idx p seed =
     (if p \<le> idx then right_seed_loop a c idx (p + 1) (seed * a + c) else Some seed)"

definition right_seed :: "u32 \<Rightarrow> u32 \<Rightarrow> u32 \<Rightarrow> u32 \<Rightarrow> u32 option" where
  "right_seed left_seed a c sequence_idx = right_seed_loop a c sequence_idx 1 left_seed"

definition init_2d_lcg_params ::
  "platform \<Rightarrow> hart \<Rightarrow> u32 \<Rightarrow> u32 \<Rightarrow> u32 \<Rightarrow> u32 \<Rightarrow> (u32 \<times> u32 \<times> u32 \<times> u32) option" where
  "init_2d_lcg_params pf h num_sequences seed a c =
     Option.bind (right_seed seed a c (2 * snrt_global_compute_core_idx pf h)) (\<lambda>seed0.
     Option.bind (right_seed seed a c (2 * snrt_global_compute_core_idx pf h + 1)) (\<lambda>seed1.
     let (Ap, Cp) = leapfrog_constants num_sequences a c in Some (seed0, seed1, Ap, Cp)))"

section \<open>Lemmas\<close>

text \<open>Jumping with the constants is the same as that many steps.\<close>

lemma leapfrog_loop:
  "for_up 0 n (\<lambda>_ (Ap, Cp). (Ap * a, Cp + Ap)) (1, 0) = (a ^ n, \<Sum>i<n. a ^ i :: u32)"
proof (induction n)
  case 0
  then show ?case by simp
next
  case (Suc n)
  then show ?case by (simp add: for_up_Suc mult.commute add.commute)
qed

lemma geometric_Suc: "1 + a * (\<Sum>i<n. a ^ i) = (\<Sum>i<Suc n. a ^ i :: u32)"
  by (induction n) (simp_all add: distrib_left add.assoc [symmetric])

lemma lcg_iterate: "(lcg a c ^^ n) x = x * a ^ n + (\<Sum>i<n. a ^ i) * c"
proof (induction n)
  case 0
  then show ?case by simp
next
  case (Suc n)
  have "(lcg a c ^^ Suc n) x = (lcg a c ^^ n) x * a + c"
    by (simp add: lcg_def [of a c "(lcg a c ^^ n) x"])
  also have "\<dots> = (x * a ^ n + (\<Sum>i<n. a ^ i) * c) * a + c" unfolding Suc ..
  also have "\<dots> = x * a ^ Suc n + (1 + a * (\<Sum>i<n. a ^ i)) * c"
    by (simp add: algebra_simps)
  finally show ?case unfolding geometric_Suc .
qed

lemma leapfrog_jump:
  "lcg (fst (leapfrog_constants k a c)) (snd (leapfrog_constants k a c)) x = (lcg a c ^^ unat k) x"
  by (simp add: leapfrog_constants_def leapfrog_loop lcg_iterate lcg_def Let_def)

lemma right_seed_loop_steps:
  assumes "unat p + n = unat idx + 1" and "unat idx + 1 < 2 ^ 32"
  shows "right_seed_loop a c idx p x = Some ((lcg a c ^^ n) x)"
  using assms(1)
proof (induction n arbitrary: p x)
  case 0
  then have "\<not> p \<le> idx" by (simp add: word_le_nat_alt)
  then show ?case by (subst right_seed_loop.simps) simp
next
  case (Suc n)
  then have "p \<le> idx" by (simp add: word_le_nat_alt)
  moreover have "unat (p + 1) = unat p + 1"
    using Suc.prems assms(2) by (intro trans [OF unat_add_small]) simp_all
  moreover have "right_seed_loop a c idx p x = right_seed_loop a c idx (p + 1) (lcg a c x)"
    using \<open>p \<le> idx\<close> by (subst right_seed_loop.simps) (simp add: lcg_def)
  ultimately show ?case
    using Suc.IH [of "p + 1" "lcg a c x"] Suc.prems by (simp add: funpow_swap1)
qed

lemma right_seed_steps:
  assumes "unat idx + 1 < 2 ^ 32"
  shows "right_seed x a c idx = Some ((lcg a c ^^ unat idx) x)"
  unfolding right_seed_def using assms by (intro right_seed_loop_steps) simp_all

text \<open>With the largest index the loop never ends.\<close>

lemma right_seed_loop_diverges: "right_seed_loop a c (- 1) p x = None"
proof (rule ccontr)
  assume "right_seed_loop a c (- 1) p x \<noteq> None"
  then obtain y where y: "right_seed_loop a c (- 1) p x = Some y" by auto
  let ?P = "\<lambda>(_ :: u32) (_ :: u32) (idx :: u32) (_ :: u32) (_ :: u32) (_ :: u32). idx \<noteq> - 1"
  have "?P a c (- 1) p x y"
  proof (rule right_seed_loop.raw_induct [where P = ?P, OF _ y])
    fix rec and a c idx p x y :: u32
    assume IH: "\<And>a c idx p x y. rec a c idx p x = Some y \<Longrightarrow> idx \<noteq> - 1"
      and eq: "(if p \<le> idx then rec a c idx (p + 1) (x * a + c) else Some x) = Some y"
    show "idx \<noteq> - 1"
      using eq IH by (cases "p \<le> idx") (auto simp: word_order.extremum)
  qed
  then show False by simp
qed

section \<open>Properties\<close>

text \<open>
  The sub-sequences of the cores together are the one sequence. With \<open>k\<close> sub-sequences,
  the \<open>j\<close>-th number that the core of index \<open>i\<close> draws from its first (second) sub-sequence is
  number \<open>2 i + j k\<close> (\<open>2 i + 1 + j k\<close>) of the sequence started from the common seed.
\<close>

theorem leapfrog_subsequences:
  assumes "i = snrt_global_compute_core_idx pf h" and "2 * unat i + 2 < 2 ^ 32"
  shows "\<exists>s0 s1 Ap Cp. init_2d_lcg_params pf h k seed a c = Some (s0, s1, Ap, Cp) \<and>
    (lcg Ap Cp ^^ j) s0 = (lcg a c ^^ (2 * unat i + j * unat k)) seed \<and>
    (lcg Ap Cp ^^ j) s1 = (lcg a c ^^ (2 * unat i + 1 + j * unat k)) seed"
proof -
  have u2: "unat (2 * i) = 2 * unat i"
    using assms(2) by (intro trans [OF unat_mult_small]) simp_all
  have u3: "unat (2 * i + 1) = 2 * unat i + 1"
    using assms(2) u2 by (intro trans [OF unat_add_small]) simp_all
  obtain Ap Cp where AC: "leapfrog_constants k a c = (Ap, Cp)" by (cases "leapfrog_constants k a c")
  have jump: "lcg Ap Cp = lcg a c ^^ unat k"
    using leapfrog_jump [of k a c] by (simp add: AC fun_eq_iff)
  have "(lcg Ap Cp ^^ j) ((lcg a c ^^ n) seed) = (lcg a c ^^ (n + j * unat k)) seed" for n
    unfolding jump funpow_mult by (metis add.commute comp_apply funpow_add mult.commute)
  moreover have "right_seed seed a c (2 * i) = Some ((lcg a c ^^ (2 * unat i)) seed)"
    "right_seed seed a c (2 * i + 1) = Some ((lcg a c ^^ (2 * unat i + 1)) seed)"
    using right_seed_steps [of "2 * i"] right_seed_steps [of "2 * i + 1"] assms(2) u2 u3 by simp_all
  ultimately show ?thesis
    by (simp add: init_2d_lcg_params_def AC assms(1) [symmetric] del: funpow.simps)
qed

theorem leapfrog_subsequences_witness:
  "\<exists>s0 s1 Ap Cp. init_2d_lcg_params (snitch_cluster_defs 0 20 0 0)
      \<lparr>csr_mhartid = 1, csr_base_addr_l = 0, csr_base_addr_h = 0, csr_cluster_core_id = 0x90001\<rparr>
      16 42 LCG_A LCG_C = Some (s0, s1, Ap, Cp) \<and>
    (lcg Ap Cp ^^ 3) s0 = (lcg LCG_A LCG_C ^^ 50) 42 \<and>
    (lcg Ap Cp ^^ 3) s1 = (lcg LCG_A LCG_C ^^ 51) 42"
  using leapfrog_subsequences [of 1 "snitch_cluster_defs 0 20 0 0"
    "\<lparr>csr_mhartid = 1, csr_base_addr_l = 0, csr_base_addr_h = 0, csr_cluster_core_id = 0x90001\<rparr>"
    16 42 LCG_A LCG_C 3]
  by (simp add: snrt_global_compute_core_idx_def snrt_cluster_idx_def snrt_cluster_core_idx_def
    snrt_cluster_base_addrl_def snitch_cluster_defs_def del: funpow.simps)

end
