(* ===== verification/Periph.thy ===== *)
theory Periph
  imports Csr Team
begin

unbundle bit_operations_syntax

text \<open>
  The cluster peripherals: the addresses of target/snitch_cluster/sw/runtime/common/
  snitch_cluster_memory.h, the performance counters (sw/snRuntime/src/perf_cnt.h), the software
  interrupts of a cluster and of the system (cluster_interrupts.h, global_interrupts.h) and the
  interrupt enables of a core (riscv.h).
\<close>

section \<open>Addresses\<close>

text \<open>The register offsets come from a generated header.\<close>

record periph_offsets =
  CL_CLINT_SET_REG_OFFSET :: u32
  CL_CLINT_CLEAR_REG_OFFSET :: u32
  HW_BARRIER_REG_OFFSET :: u32
  PERF_COUNTER_ENABLE_0_REG_OFFSET :: u32
  CLUSTER_ZERO_MEM_START_ADDR :: u32

definition snrt_cluster_clint_set_ptr :: "platform \<Rightarrow> periph_offsets \<Rightarrow> ptr32" where
  "snrt_cluster_clint_set_ptr p r = CLUSTER_PERIPH_BASE_ADDR p + CL_CLINT_SET_REG_OFFSET r"

definition snrt_cluster_clint_clr_ptr :: "platform \<Rightarrow> periph_offsets \<Rightarrow> ptr32" where
  "snrt_cluster_clint_clr_ptr p r = CLUSTER_PERIPH_BASE_ADDR p + CL_CLINT_CLEAR_REG_OFFSET r"

definition snrt_cluster_hw_barrier_addr :: "platform \<Rightarrow> periph_offsets \<Rightarrow> u32" where
  "snrt_cluster_hw_barrier_addr p r = CLUSTER_PERIPH_BASE_ADDR p + HW_BARRIER_REG_OFFSET r"

definition snrt_cluster_perf_counters_addr :: "platform \<Rightarrow> periph_offsets \<Rightarrow> u32" where
  "snrt_cluster_perf_counters_addr p r =
     CLUSTER_PERIPH_BASE_ADDR p + PERF_COUNTER_ENABLE_0_REG_OFFSET r"

definition snrt_zero_memory_ptr :: "periph_offsets \<Rightarrow> ptr32" where
  "snrt_zero_memory_ptr r = CLUSTER_ZERO_MEM_START_ADDR r"

section \<open>Performance counters\<close>

datatype perf_cnt_type =
    SNRT_PERF_CNT_CYCLES | SNRT_PERF_CNT_TCDM_ACCESSED | SNRT_PERF_CNT_TCDM_CONGESTED
  | SNRT_PERF_CNT_ISSUE_FPU | SNRT_PERF_CNT_ISSUE_FPU_SEQ | SNRT_PERF_CNT_ISSUE_CORE_TO_FPU
  | SNRT_PERF_CNT_RETIRED_INSTR | SNRT_PERF_CNT_RETIRED_LOAD | SNRT_PERF_CNT_RETIRED_I
  | SNRT_PERF_CNT_RETIRED_ACC | SNRT_PERF_CNT_DMA_AW_STALL | SNRT_PERF_CNT_DMA_AR_STALL
  | SNRT_PERF_CNT_DMA_R_STALL | SNRT_PERF_CNT_DMA_W_STALL | SNRT_PERF_CNT_DMA_BUF_W_STALL
  | SNRT_PERF_CNT_DMA_BUF_R_STALL | SNRT_PERF_CNT_DMA_AW_DONE | SNRT_PERF_CNT_DMA_AW_BW
  | SNRT_PERF_CNT_DMA_AR_DONE | SNRT_PERF_CNT_DMA_AR_BW | SNRT_PERF_CNT_DMA_R_DONE
  | SNRT_PERF_CNT_DMA_R_BW | SNRT_PERF_CNT_DMA_W_DONE | SNRT_PERF_CNT_DMA_W_BW
  | SNRT_PERF_CNT_DMA_B_DONE | SNRT_PERF_CNT_DMA_BUSY | SNRT_PERF_CNT_ICACHE_MISS
  | SNRT_PERF_CNT_ICACHE_HIT | SNRT_PERF_CNT_ICACHE_PREFETCH | SNRT_PERF_CNT_ICACHE_DOUBLE_HIT
  | SNRT_PERF_CNT_ICACHE_STALL

fun perf_event :: "perf_cnt_type \<Rightarrow> nat" where
  "perf_event SNRT_PERF_CNT_CYCLES = 0"
| "perf_event SNRT_PERF_CNT_TCDM_ACCESSED = 1"
| "perf_event SNRT_PERF_CNT_TCDM_CONGESTED = 2"
| "perf_event SNRT_PERF_CNT_ISSUE_FPU = 3"
| "perf_event SNRT_PERF_CNT_ISSUE_FPU_SEQ = 4"
| "perf_event SNRT_PERF_CNT_ISSUE_CORE_TO_FPU = 5"
| "perf_event SNRT_PERF_CNT_RETIRED_INSTR = 6"
| "perf_event SNRT_PERF_CNT_RETIRED_LOAD = 7"
| "perf_event SNRT_PERF_CNT_RETIRED_I = 8"
| "perf_event SNRT_PERF_CNT_RETIRED_ACC = 9"
| "perf_event SNRT_PERF_CNT_DMA_AW_STALL = 10"
| "perf_event SNRT_PERF_CNT_DMA_AR_STALL = 11"
| "perf_event SNRT_PERF_CNT_DMA_R_STALL = 12"
| "perf_event SNRT_PERF_CNT_DMA_W_STALL = 13"
| "perf_event SNRT_PERF_CNT_DMA_BUF_W_STALL = 14"
| "perf_event SNRT_PERF_CNT_DMA_BUF_R_STALL = 15"
| "perf_event SNRT_PERF_CNT_DMA_AW_DONE = 16"
| "perf_event SNRT_PERF_CNT_DMA_AW_BW = 17"
| "perf_event SNRT_PERF_CNT_DMA_AR_DONE = 18"
| "perf_event SNRT_PERF_CNT_DMA_AR_BW = 19"
| "perf_event SNRT_PERF_CNT_DMA_R_DONE = 20"
| "perf_event SNRT_PERF_CNT_DMA_R_BW = 21"
| "perf_event SNRT_PERF_CNT_DMA_W_DONE = 22"
| "perf_event SNRT_PERF_CNT_DMA_W_BW = 23"
| "perf_event SNRT_PERF_CNT_DMA_B_DONE = 24"
| "perf_event SNRT_PERF_CNT_DMA_BUSY = 25"
| "perf_event SNRT_PERF_CNT_ICACHE_MISS = 26"
| "perf_event SNRT_PERF_CNT_ICACHE_HIT = 27"
| "perf_event SNRT_PERF_CNT_ICACHE_PREFETCH = 28"
| "perf_event SNRT_PERF_CNT_ICACHE_DOUBLE_HIT = 29"
| "perf_event SNRT_PERF_CNT_ICACHE_STALL = 30"

text \<open>The three banks of sixteen registers.\<close>

record perf_regs =
  enable :: "nat \<Rightarrow> u32"
  hart_select :: "nat \<Rightarrow> u32"
  perf_counter :: "nat \<Rightarrow> u32"

definition snrt_start_perf_counter ::
  "nat \<Rightarrow> perf_cnt_type \<Rightarrow> u32 \<Rightarrow> perf_regs \<Rightarrow> perf_regs" where
  "snrt_start_perf_counter c t hart_id r =
     (let r = r\<lparr>hart_select := (hart_select r)(c := hart_select r c OR hart_id)\<rparr>
      in r\<lparr>enable := (enable r)(c := push_bit (perf_event t) 1)\<rparr>)"

definition snrt_stop_perf_counter :: "nat \<Rightarrow> perf_regs \<Rightarrow> perf_regs" where
  "snrt_stop_perf_counter c r = r\<lparr>enable := (enable r)(c := 0)\<rparr>"

definition snrt_reset_perf_counter :: "nat \<Rightarrow> perf_regs \<Rightarrow> perf_regs" where
  "snrt_reset_perf_counter c r =
     r\<lparr>enable := (enable r)(c := 0), hart_select := (hart_select r)(c := 0),
       perf_counter := (perf_counter r)(c := 0)\<rparr>"

definition snrt_get_perf_counter :: "nat \<Rightarrow> perf_regs \<Rightarrow> u32" where
  "snrt_get_perf_counter c r = perf_counter r c"

text \<open>
  Starting selects the requested hart only when the counter was reset before, or the hart
  selected so far has no bit that the new one lacks.
\<close>

lemma start_after_reset:
  "hart_select (snrt_start_perf_counter c t h (snrt_reset_perf_counter c r)) c = h"
  "enable (snrt_start_perf_counter c t h (snrt_reset_perf_counter c r)) c = push_bit (perf_event t) 1"
  "perf_counter (snrt_start_perf_counter c t h (snrt_reset_perf_counter c r)) c = 0"
  by (simp_all add: snrt_start_perf_counter_def snrt_reset_perf_counter_def Let_def)

lemma start_selects_iff:
  "hart_select (snrt_start_perf_counter c t h r) c = h \<longleftrightarrow> hart_select r c AND NOT h = 0"
proof -
  have "x OR h = h \<longleftrightarrow> x AND NOT h = 0" for x :: u32
    by (auto simp: bit_eq_iff bit_simps)
  then show ?thesis by (simp add: snrt_start_perf_counter_def Let_def)
qed

lemma perf_frame [frame_simps]:
  "d \<noteq> c \<Longrightarrow> enable (snrt_start_perf_counter c t h r) d = enable r d"
  "d \<noteq> c \<Longrightarrow> perf_counter (snrt_reset_perf_counter c r) d = perf_counter r d"
  "perf_counter (snrt_start_perf_counter c t h r) = perf_counter r"
  "perf_counter (snrt_stop_perf_counter c r) = perf_counter r"
  by (simp_all add: snrt_start_perf_counter_def snrt_reset_perf_counter_def
    snrt_stop_perf_counter_def Let_def)

section \<open>Interrupts of the cluster\<close>

text \<open>
  The pending bits of a cluster. A write to the set register sets the bits of its mask, a write
  to the clear register clears them (snitch_cluster_peripheral.sv).
\<close>

definition snrt_int_cluster_set :: "u32 \<Rightarrow> u32 \<Rightarrow> u32" where
  "snrt_int_cluster_set mask_bits clint = clint OR mask_bits"

definition snrt_int_cluster_clr :: "u32 \<Rightarrow> u32 \<Rightarrow> u32" where
  "snrt_int_cluster_clr mask_bits clint = clint AND NOT mask_bits"

definition snrt_int_set_mcip :: "hart \<Rightarrow> u32 \<Rightarrow> u32" where
  "snrt_int_set_mcip h = snrt_int_cluster_set (push_bit (unat (snrt_cluster_core_idx h)) 1)"

definition snrt_int_clr_mcip_unsafe :: "hart \<Rightarrow> u32 \<Rightarrow> u32" where
  "snrt_int_clr_mcip_unsafe h = snrt_int_cluster_clr (push_bit (unat (snrt_cluster_core_idx h)) 1)"

text \<open>The register mip (0x344) is read until its cluster bit is clear.\<close>

definition snrt_int_wait_mcip_clr :: "hardware \<Rightarrow> u32 \<Rightarrow> csr_state \<Rightarrow> csr_state option" where
  "snrt_int_wait_mcip_clr hw MIP_MCIP = csr_poll hw 0x344 (\<lambda>v. v AND MIP_MCIP = 0)"

definition snrt_int_clr_mcip ::
  "hardware \<Rightarrow> u32 \<Rightarrow> hart \<Rightarrow> u32 \<times> csr_state \<Rightarrow> (u32 \<times> csr_state) option" where
  "snrt_int_clr_mcip hw MIP_MCIP h =
     (\<lambda>(clint, s). map_option (Pair (snrt_int_clr_mcip_unsafe h clint))
                    (snrt_int_wait_mcip_clr hw MIP_MCIP s))"

lemma mcip_bits:
  "bit (snrt_int_set_mcip h clint) n \<longleftrightarrow>
     bit clint n \<or> n = unat (snrt_cluster_core_idx h) \<and> n < 32"
  "bit (snrt_int_clr_mcip_unsafe h clint) n \<longleftrightarrow>
     bit clint n \<and> n \<noteq> unat (snrt_cluster_core_idx h)"
  by (auto simp: snrt_int_set_mcip_def snrt_int_cluster_set_def snrt_int_clr_mcip_unsafe_def
    snrt_int_cluster_clr_def bit_simps dest: bit_imp_le_length)

section \<open>Interrupts of a core\<close>

definition snrt_interrupt_enable :: "nat \<Rightarrow> u32 \<Rightarrow> u32" where
  "snrt_interrupt_enable irq mie = mie OR push_bit irq 1"

definition snrt_interrupt_disable :: "nat \<Rightarrow> u32 \<Rightarrow> u32" where
  "snrt_interrupt_disable irq mie = mie AND NOT (push_bit irq 1)"

definition snrt_interrupt_global_enable :: "u32 \<Rightarrow> u32 \<Rightarrow> u32" where
  "snrt_interrupt_global_enable MSTATUS_MIE mstatus = mstatus OR MSTATUS_MIE"

definition snrt_interrupt_global_disable :: "u32 \<Rightarrow> u32 \<Rightarrow> u32" where
  "snrt_interrupt_global_disable MSTATUS_MIE mstatus = mstatus AND NOT MSTATUS_MIE"

section \<open>Interrupts of the system\<close>

text \<open>
  The pending words of the system interrupt controller, by address; the address of the word of a
  hart is the platform's. The functions run inside the lock of theory Mutex, whose exclusion
  makes them sequential.
\<close>

definition snrt_int_sw_clear :: "(u32 \<Rightarrow> ptr32) \<Rightarrow> u32 \<Rightarrow> (ptr32 \<Rightarrow> u32) \<Rightarrow> ptr32 \<Rightarrow> u32" where
  "snrt_int_sw_clear msip_ptr hartid m =
     m(msip_ptr hartid := m (msip_ptr hartid) AND NOT (push_bit (unat (hartid AND 0x1f)) 1))"

definition snrt_int_sw_set :: "(u32 \<Rightarrow> ptr32) \<Rightarrow> u32 \<Rightarrow> (ptr32 \<Rightarrow> u32) \<Rightarrow> ptr32 \<Rightarrow> u32" where
  "snrt_int_sw_set msip_ptr hartid m =
     m(msip_ptr hartid := m (msip_ptr hartid) OR push_bit (unat (hartid AND 0x1f)) 1)"

definition snrt_int_sw_get :: "(u32 \<Rightarrow> ptr32) \<Rightarrow> u32 \<Rightarrow> (ptr32 \<Rightarrow> u32) \<Rightarrow> u32" where
  "snrt_int_sw_get msip_ptr hartid m =
     drop_bit (unat (hartid AND 0x1f)) (m (msip_ptr hartid))"

lemma hart_bit_less: "unat (h AND 0x1f :: u32) < 32"
proof -
  have "h AND 0x1f \<le> 0x1f" by (rule word_and_le1)
  then show ?thesis by (simp add: word_le_nat_alt)
qed

text \<open>
  Setting makes exactly the bit of the hart pending in its word and clearing makes exactly
  that bit not pending; the lowest bit that reading returns tells whether the hart is pending.
  The value read is one, as documented, only when no hart with a larger bit number in the same
  word is pending: the word is shifted but not masked.
\<close>

theorem software_interrupt_bits:
  "(bit (snrt_int_sw_set ptr h m (ptr h)) n \<longleftrightarrow>
      bit (m (ptr h)) n \<or> n = unat (h AND 0x1f)) \<and>
   (bit (snrt_int_sw_clear ptr h m (ptr h)) n \<longleftrightarrow>
      bit (m (ptr h)) n \<and> n \<noteq> unat (h AND 0x1f)) \<and>
   bit (snrt_int_sw_get ptr h (snrt_int_sw_set ptr h m)) 0 \<and>
   \<not> bit (snrt_int_sw_get ptr h (snrt_int_sw_clear ptr h m)) 0 \<and>
   (snrt_int_sw_get ptr h m = 1 \<longleftrightarrow>
      bit (m (ptr h)) (unat (h AND 0x1f)) \<and> (\<forall>k > unat (h AND 0x1f). \<not> bit (m (ptr h)) k))"
proof -
  have one: "drop_bit j w = 1 \<longleftrightarrow> bit w j \<and> (\<forall>k > j. \<not> bit w k)" for w :: u32 and j
  proof
    assume "drop_bit j w = 1"
    then have b: "bit (drop_bit j w) i \<longleftrightarrow> bit (1 :: u32) i" for i by simp
    have "\<not> bit w k" if "k > j" for k
      using b [of "k - j"] that by (simp add: bit_simps)
    with b [of 0] show "bit w j \<and> (\<forall>k > j. \<not> bit w k)" by (simp add: bit_simps)
  next
    assume w: "bit w j \<and> (\<forall>k > j. \<not> bit w k)"
    show "drop_bit j w = 1"
    proof (rule bit_word_eqI)
      fix n
      show "bit (drop_bit j w) n \<longleftrightarrow> bit (1 :: u32) n"
        using w spec [OF conjunct2 [OF w], of "j + n"] by (cases "n = 0") (simp_all add: bit_simps)
    qed
  qed
  show ?thesis
    using hart_bit_less [of h]
    by (auto simp: snrt_int_sw_set_def snrt_int_sw_clear_def snrt_int_sw_get_def one bit_simps
      dest: bit_imp_le_length)
qed

theorem software_interrupt_bits_witness:
  "snrt_int_sw_get (\<lambda>_. 0) 3 (\<lambda>_. 0x18) = 3 \<and> snrt_int_sw_get (\<lambda>_. 0) 3 (\<lambda>_. 0x18) \<noteq> 1"
proof
  show "snrt_int_sw_get (\<lambda>_. 0) 3 (\<lambda>_. 0x18) = 3" by (simp add: snrt_int_sw_get_def)
  have "bit ((\<lambda>_. 0x18 :: u32) (0 :: u32)) 4" by simp
  then show "snrt_int_sw_get (\<lambda>_. 0) 3 (\<lambda>_. 0x18) \<noteq> 1"
    using software_interrupt_bits [of "\<lambda>_. 0" 3 "\<lambda>_. 0x18" 0] by auto
qed

end
