(* ===== verification/Xdma.thy ===== *)
theory Xdma
  imports Streamer Team
begin

unbundle bit_operations_syntax

text \<open>
  The driver of the XDMA engine (target/snitch_cluster/sw/snax/xdma: include/snax-xdma-addr.h,
  include/snax-xdma-lib.h and src/snax-xdma-lib.c): multi-dimensional copies from one source to
  one or, chained, up to sixteen destinations. The engine has a reader and a writer, each with an
  address generation unit of five temporal dimensions and eight channels of eight bytes.

  A configuration function is the list of its register writes in program order with its return
  value; \<open>run_xdma\<close> executes it. The messages it prints, and the comparison of the two loop sizes
  that only decides about a message, have no effect and are left out.
\<close>

section \<open>The registers\<close>

definition XDMA_WIDTH :: u32 where "XDMA_WIDTH = 64"
definition XDMA_SPATIAL_CHAN :: u32 where "XDMA_SPATIAL_CHAN = 8"
definition XDMA_MAX_DST_COUNT :: nat where "XDMA_MAX_DST_COUNT = 16"
definition XDMA_TEMP_DIM :: nat where "XDMA_TEMP_DIM = 5"

definition XDMA_SRC_ADDR_PTR_LSB :: u32 where "XDMA_SRC_ADDR_PTR_LSB = 0"
definition XDMA_SRC_ADDR_PTR_MSB :: u32 where "XDMA_SRC_ADDR_PTR_MSB = 1"
definition XDMA_DST_ADDR_PTR_LSB :: u32 where "XDMA_DST_ADDR_PTR_LSB = 2"
definition XDMA_DST_ADDR_PTR_MSB :: u32 where "XDMA_DST_ADDR_PTR_MSB = 3"
definition XDMA_SRC_SPATIAL_STRIDE_PTR :: u32 where "XDMA_SRC_SPATIAL_STRIDE_PTR = 34"
definition XDMA_SRC_TEMP_BOUND_PTR :: u32 where "XDMA_SRC_TEMP_BOUND_PTR = 35"
definition XDMA_SRC_TEMP_STRIDE_PTR :: u32 where "XDMA_SRC_TEMP_STRIDE_PTR = 40"
definition XDMA_SRC_ENABLED_CHAN_PTR :: u32 where "XDMA_SRC_ENABLED_CHAN_PTR = 45"
definition XDMA_SRC_ENABLE_PTR :: u32 where "XDMA_SRC_ENABLE_PTR = 46"
definition XDMA_SRC_EXT_CSR_PTR :: u32 where "XDMA_SRC_EXT_CSR_PTR = 46"
definition XDMA_DST_SPATIAL_STRIDE_PTR :: u32 where "XDMA_DST_SPATIAL_STRIDE_PTR = 46"
definition XDMA_DST_TEMP_BOUND_PTR :: u32 where "XDMA_DST_TEMP_BOUND_PTR = 47"
definition XDMA_DST_TEMP_STRIDE_PTR :: u32 where "XDMA_DST_TEMP_STRIDE_PTR = 52"
definition XDMA_DST_ENABLED_CHAN_PTR :: u32 where "XDMA_DST_ENABLED_CHAN_PTR = 57"
definition XDMA_DST_ENABLED_BYTE_PTR :: u32 where "XDMA_DST_ENABLED_BYTE_PTR = 58"
definition XDMA_DST_ENABLE_PTR :: u32 where "XDMA_DST_ENABLE_PTR = 59"
definition XDMA_DST_EXT_CSR_PTR :: u32 where "XDMA_DST_EXT_CSR_PTR = 59"
definition XDMA_START_PTR :: u32 where "XDMA_START_PTR = 59"
definition XDMA_COMMIT_LOCAL_TASK_PTR :: u32 where "XDMA_COMMIT_LOCAL_TASK_PTR = 60"
definition XDMA_COMMIT_REMOTE_TASK_PTR :: u32 where "XDMA_COMMIT_REMOTE_TASK_PTR = 61"
definition XDMA_FINISH_LOCAL_TASK_PTR :: u32 where "XDMA_FINISH_LOCAL_TASK_PTR = 62"
definition XDMA_FINISH_REMOTE_TASK_PTR :: u32 where "XDMA_FINISH_REMOTE_TASK_PTR = 63"
definition XDMA_PERF_CTR_TASK :: u32 where "XDMA_PERF_CTR_TASK = 64"
definition XDMA_PERF_CTR_READER :: u32 where "XDMA_PERF_CTR_READER = 65"
definition XDMA_PERF_CTR_WRITER :: u32 where "XDMA_PERF_CTR_WRITER = 66"

lemmas xdma_regs = XDMA_SRC_ADDR_PTR_LSB_def XDMA_SRC_ADDR_PTR_MSB_def XDMA_DST_ADDR_PTR_LSB_def
  XDMA_DST_ADDR_PTR_MSB_def XDMA_SRC_SPATIAL_STRIDE_PTR_def XDMA_SRC_TEMP_BOUND_PTR_def
  XDMA_SRC_TEMP_STRIDE_PTR_def XDMA_SRC_ENABLED_CHAN_PTR_def XDMA_DST_SPATIAL_STRIDE_PTR_def
  XDMA_DST_TEMP_BOUND_PTR_def XDMA_DST_TEMP_STRIDE_PTR_def XDMA_DST_ENABLED_CHAN_PTR_def
  XDMA_DST_ENABLED_BYTE_PTR_def XDMA_START_PTR_def

definition XDMA_CFG_ADDR :: u32 where "XDMA_CFG_ADDR = 960"

definition snax_read_xdma_cfg_reg :: "hardware \<Rightarrow> u32 \<Rightarrow> csr_state \<Rightarrow> u32 \<times> csr_state" where
  "snax_read_xdma_cfg_reg hw addr = csrr_ss hw (XDMA_CFG_ADDR + addr)"

definition snax_write_xdma_cfg_reg :: "u32 \<Rightarrow> u32 \<Rightarrow> csr_state \<Rightarrow> csr_state" where
  "snax_write_xdma_cfg_reg addr v = csrw_ss (XDMA_CFG_ADDR + addr) v"

abbreviation xdma_writes :: "(u32 \<times> u32) list \<Rightarrow> csr_state \<Rightarrow> csr_state" where
  "xdma_writes ws \<equiv> fold (\<lambda>(a, v). snax_write_xdma_cfg_reg a v) ws"

type_synonym xdma_prog = "(u32 \<times> u32) list \<times> i32"

definition run_xdma :: "xdma_prog \<Rightarrow> csr_state \<Rightarrow> i32 \<times> csr_state" where
  "run_xdma p s = (snd p, xdma_writes (fst p) s)"

section \<open>Copies\<close>

text \<open>The arguments that the copy and the multicast share.\<close>

record nd_args =
  spatial_stride_src :: u32
  spatial_stride_dst :: u32
  temp_dim_src :: u32
  temp_stride_src :: "nat \<Rightarrow> u32"
  temp_bound_src :: "nat \<Rightarrow> u32"
  temp_dim_dst :: u32
  temp_stride_dst :: "nat \<Rightarrow> u32"
  temp_bound_dst :: "nat \<Rightarrow> u32"
  enabled_chan_src :: u32
  enabled_chan_dst :: u32
  enabled_byte_dst :: u32

text \<open>
  The loop over the dimensions in use; at the first one beyond the hardware's it returns from the
  function (\<open>False\<close>).
\<close>

fun temp_loop ::
  "u32 \<Rightarrow> u32 \<Rightarrow> (nat \<Rightarrow> u32) \<Rightarrow> (nat \<Rightarrow> u32) \<Rightarrow> nat list \<Rightarrow> (u32 \<times> u32) list \<times> bool" where
  "temp_loop bp sp b st [] = ([], True)"
| "temp_loop bp sp b st (i # is) =
     (if i \<ge> XDMA_TEMP_DIM then ([], False)
      else let (ws, ok) = temp_loop bp sp b st is
           in ((bp + word_of_nat i, b i) # (sp + word_of_nat i, st i) # ws, ok))"

text \<open>The dimensions not in use get bound 1 and stride 0.\<close>

definition temp_rest :: "u32 \<Rightarrow> u32 \<Rightarrow> u32 \<Rightarrow> (u32 \<times> u32) list" where
  "temp_rest bp sp dim = concat (map (\<lambda>i. [(bp + word_of_nat i, 1), (sp + word_of_nat i, 0)])
     [unat dim..<XDMA_TEMP_DIM])"

text \<open>What follows the addresses, in the copy and in the multicast alike.\<close>

definition nd_tail :: "nd_args \<Rightarrow> xdma_prog" where
  "nd_tail a =
     (let w1 = [(XDMA_SRC_SPATIAL_STRIDE_PTR, spatial_stride_src a),
                (XDMA_DST_SPATIAL_STRIDE_PTR, spatial_stride_dst a)];
          (w2, ok_src) = temp_loop XDMA_SRC_TEMP_BOUND_PTR XDMA_SRC_TEMP_STRIDE_PTR
            (temp_bound_src a) (temp_stride_src a) [0..<unat (temp_dim_src a)]
      in if \<not> ok_src then (w1 @ w2, - 4)
         else
           let w3 = temp_rest XDMA_SRC_TEMP_BOUND_PTR XDMA_SRC_TEMP_STRIDE_PTR (temp_dim_src a);
               (w4, ok_dst) = temp_loop XDMA_DST_TEMP_BOUND_PTR XDMA_DST_TEMP_STRIDE_PTR
                 (temp_bound_dst a) (temp_stride_dst a) [0..<unat (temp_dim_dst a)]
           in if \<not> ok_dst then (w1 @ w2 @ w3 @ w4, - 4)
              else
                let w5 = temp_rest XDMA_DST_TEMP_BOUND_PTR XDMA_DST_TEMP_STRIDE_PTR (temp_dim_dst a)
                in (w1 @ w2 @ w3 @ w4 @ w5 @
                      [(XDMA_SRC_ENABLED_CHAN_PTR, enabled_chan_src a),
                       (XDMA_DST_ENABLED_CHAN_PTR, enabled_chan_dst a),
                       (XDMA_DST_ENABLED_BYTE_PTR, enabled_byte_dst a)], 0))"

definition src_ptr_writes :: "u64 \<Rightarrow> (u32 \<times> u32) list" where
  "src_ptr_writes src = [(XDMA_SRC_ADDR_PTR_LSB, ucast src),
     (XDMA_SRC_ADDR_PTR_MSB, ucast (drop_bit 32 src))]"

definition dst_ptr_writes :: "nat \<Rightarrow> u64 \<Rightarrow> (u32 \<times> u32) list" where
  "dst_ptr_writes i dst = [(XDMA_DST_ADDR_PTR_LSB + word_of_nat i * 2, ucast dst),
     (XDMA_DST_ADDR_PTR_MSB + word_of_nat i * 2, ucast (drop_bit 32 dst))]"

definition snax_xdma_memcpy_nd_full_addr :: "u64 \<Rightarrow> u64 \<Rightarrow> nd_args \<Rightarrow> xdma_prog" where
  "snax_xdma_memcpy_nd_full_addr src dst a =
     (let (ws, r) = nd_tail a
      in (src_ptr_writes src @ dst_ptr_writes 0 dst @
          concat (map (\<lambda>i. dst_ptr_writes i 0) [1..<XDMA_MAX_DST_COUNT]) @ ws, r))"

definition snax_xdma_memcpy_nd :: "hart \<Rightarrow> ptr32 \<Rightarrow> ptr32 \<Rightarrow> nd_args \<Rightarrow> xdma_prog" where
  "snax_xdma_memcpy_nd h src dst a =
     (let base = push_bit 32 (ucast (snrt_cluster_base_addrh h) :: u64)
      in snax_xdma_memcpy_nd_full_addr (ucast src + base) (ucast dst + base) a)"

definition args_1d :: "u32 \<Rightarrow> nd_args" where
  "args_1d len =
     \<lparr>spatial_stride_src = XDMA_WIDTH div XDMA_SPATIAL_CHAN,
      spatial_stride_dst = XDMA_WIDTH div XDMA_SPATIAL_CHAN,
      temp_dim_src = 1, temp_stride_src = (\<lambda>_. XDMA_WIDTH),
      temp_bound_src = (\<lambda>_. len div XDMA_WIDTH),
      temp_dim_dst = 1, temp_stride_dst = (\<lambda>_. XDMA_WIDTH),
      temp_bound_dst = (\<lambda>_. len div XDMA_WIDTH),
      enabled_chan_src = 0xFFFFFFFF, enabled_chan_dst = 0xFFFFFFFF,
      enabled_byte_dst = 0xFFFFFFFF\<rparr>"

definition snax_xdma_memcpy_1d_full_addr :: "u64 \<Rightarrow> u64 \<Rightarrow> u32 \<Rightarrow> xdma_prog" where
  "snax_xdma_memcpy_1d_full_addr src dst len =
     (if len mod XDMA_WIDTH \<noteq> 0 then ([], - 1)
      else snax_xdma_memcpy_nd_full_addr src dst (args_1d len))"

definition snax_xdma_memcpy_1d :: "hart \<Rightarrow> ptr32 \<Rightarrow> ptr32 \<Rightarrow> u32 \<Rightarrow> xdma_prog" where
  "snax_xdma_memcpy_1d h src dst len =
     (if len mod XDMA_WIDTH \<noteq> 0 then ([], - 1)
      else snax_xdma_memcpy_nd h src dst (args_1d len))"

section \<open>Multicasts\<close>

text \<open>Too many destinations only print a message.\<close>

definition snax_xdma_multicast_nd_full_address ::
  "u64 \<Rightarrow> (nat \<Rightarrow> u64) \<Rightarrow> u32 \<Rightarrow> nd_args \<Rightarrow> xdma_prog" where
  "snax_xdma_multicast_nd_full_address src dst dst_num a =
     (let (ws, r) = nd_tail a
      in (src_ptr_writes src @
          concat (map (\<lambda>i. dst_ptr_writes i (dst i)) [0..<unat dst_num]) @
          concat (map (\<lambda>i. dst_ptr_writes i 0) [unat dst_num..<XDMA_MAX_DST_COUNT]) @ ws, r))"

text \<open>
  The local array of full addresses has sixteen elements: \<open>None\<close> when the loop that fills it
  writes beyond its end.
\<close>

definition snax_xdma_multicast_nd ::
  "hart \<Rightarrow> ptr32 \<Rightarrow> (nat \<Rightarrow> ptr32) \<Rightarrow> u32 \<Rightarrow> nd_args \<Rightarrow> xdma_prog option" where
  "snax_xdma_multicast_nd h src dst dst_num a =
     (let base = push_bit 32 (ucast (snrt_cluster_base_addrh h) :: u64);
          dst_full_address = (\<lambda>i. if i < unat dst_num then ucast (dst i) + base else 0)
      in if unat dst_num > XDMA_MAX_DST_COUNT then None
         else Some (snax_xdma_multicast_nd_full_address (ucast src + base) dst_full_address
                      dst_num a))"

definition snax_xdma_multicast_1d_full_address ::
  "u64 \<Rightarrow> (nat \<Rightarrow> u64) \<Rightarrow> u32 \<Rightarrow> u32 \<Rightarrow> xdma_prog" where
  "snax_xdma_multicast_1d_full_address src dst dst_num len =
     (if len mod XDMA_WIDTH \<noteq> 0 then ([], - 1)
      else snax_xdma_multicast_nd_full_address src dst dst_num (args_1d len))"

definition snax_xdma_multicast_1d ::
  "hart \<Rightarrow> ptr32 \<Rightarrow> (nat \<Rightarrow> ptr32) \<Rightarrow> u32 \<Rightarrow> u32 \<Rightarrow> xdma_prog option" where
  "snax_xdma_multicast_1d h src dst dst_num len =
     (if len mod XDMA_WIDTH \<noteq> 0 then Some ([], - 1)
      else snax_xdma_multicast_nd h src dst dst_num (args_1d len))"

section \<open>Extensions\<close>

text \<open>
  The generated header gives the number of extensions of each side and the number of registers
  of each; both lists are empty in this configuration.
\<close>

definition enable_ext ::
  "hardware \<Rightarrow> nat list \<Rightarrow> u32 \<Rightarrow> u32 \<Rightarrow> u8 \<Rightarrow> (nat \<Rightarrow> u32) \<Rightarrow> csr_state \<Rightarrow> i32 \<times> csr_state" where
  "enable_ext hw custom_csr_list enable_ptr csr_ptr ext vals s =
     (if unat ext \<ge> length custom_csr_list then (- 1, s)
      else
        let csr_offset = csr_ptr + word_of_nat (sum_list (take (unat ext) custom_csr_list));
            (v, s) = snax_read_xdma_cfg_reg hw enable_ptr s;
            s = snax_write_xdma_cfg_reg enable_ptr (v OR push_bit (unat ext) 1) s
        in (0, xdma_writes (csr_block csr_offset (custom_csr_list ! unat ext) vals) s))"

definition disable_ext ::
  "hardware \<Rightarrow> nat list \<Rightarrow> u32 \<Rightarrow> u8 \<Rightarrow> csr_state \<Rightarrow> i32 \<times> csr_state" where
  "disable_ext hw custom_csr_list enable_ptr ext s =
     (if unat ext \<ge> length custom_csr_list then (0, s)
      else
        let (v, s) = snax_read_xdma_cfg_reg hw enable_ptr s
        in (0, snax_write_xdma_cfg_reg enable_ptr (v AND NOT (push_bit (unat ext) 1)) s))"

definition XDMA_SRC_EXT_CUSTOM_CSR_NUM :: "nat list" where "XDMA_SRC_EXT_CUSTOM_CSR_NUM = []"
definition XDMA_DST_EXT_CUSTOM_CSR_NUM :: "nat list" where "XDMA_DST_EXT_CUSTOM_CSR_NUM = []"

definition snax_xdma_enable_src_ext ::
  "hardware \<Rightarrow> u8 \<Rightarrow> (nat \<Rightarrow> u32) \<Rightarrow> csr_state \<Rightarrow> i32 \<times> csr_state" where
  "snax_xdma_enable_src_ext hw =
     enable_ext hw XDMA_SRC_EXT_CUSTOM_CSR_NUM XDMA_SRC_ENABLE_PTR XDMA_SRC_EXT_CSR_PTR"

definition snax_xdma_enable_dst_ext ::
  "hardware \<Rightarrow> u8 \<Rightarrow> (nat \<Rightarrow> u32) \<Rightarrow> csr_state \<Rightarrow> i32 \<times> csr_state" where
  "snax_xdma_enable_dst_ext hw =
     enable_ext hw XDMA_DST_EXT_CUSTOM_CSR_NUM XDMA_DST_ENABLE_PTR XDMA_DST_EXT_CSR_PTR"

definition snax_xdma_disable_src_ext :: "hardware \<Rightarrow> u8 \<Rightarrow> csr_state \<Rightarrow> i32 \<times> csr_state" where
  "snax_xdma_disable_src_ext hw = disable_ext hw XDMA_SRC_EXT_CUSTOM_CSR_NUM XDMA_SRC_ENABLE_PTR"

definition snax_xdma_disable_dst_ext :: "hardware \<Rightarrow> u8 \<Rightarrow> csr_state \<Rightarrow> i32 \<times> csr_state" where
  "snax_xdma_disable_dst_ext hw = disable_ext hw XDMA_DST_EXT_CUSTOM_CSR_NUM XDMA_DST_ENABLE_PTR"

section \<open>Starting and waiting\<close>

text \<open>The loop reads the two task counters in turn until one has moved, and reads it again.\<close>

partial_function (option) xdma_start_loop ::
  "hardware \<Rightarrow> u32 \<Rightarrow> u32 \<Rightarrow> csr_state \<Rightarrow> (u32 \<times> csr_state) option" where
  "xdma_start_loop hw local_task_id remote_task_id s =
     (let (v, s) = snax_read_xdma_cfg_reg hw XDMA_COMMIT_LOCAL_TASK_PTR s
      in if v \<noteq> local_task_id then Some (snax_read_xdma_cfg_reg hw XDMA_COMMIT_LOCAL_TASK_PTR s)
         else
           let (w, s) = snax_read_xdma_cfg_reg hw XDMA_COMMIT_REMOTE_TASK_PTR s
           in if w \<noteq> remote_task_id
              then Some (snax_read_xdma_cfg_reg hw XDMA_COMMIT_REMOTE_TASK_PTR s)
              else xdma_start_loop hw local_task_id remote_task_id s)"

definition snax_xdma_start :: "hardware \<Rightarrow> csr_state \<Rightarrow> (u32 \<times> csr_state) option" where
  "snax_xdma_start hw s =
     (let (local_task_id, s) = snax_read_xdma_cfg_reg hw XDMA_COMMIT_LOCAL_TASK_PTR s;
          (remote_task_id, s) = snax_read_xdma_cfg_reg hw XDMA_COMMIT_REMOTE_TASK_PTR s;
          s = snax_write_xdma_cfg_reg XDMA_START_PTR 1 s
      in xdma_start_loop hw local_task_id remote_task_id s)"

definition snax_xdma_local_wait :: "hardware \<Rightarrow> u32 \<Rightarrow> csr_state \<Rightarrow> csr_state option" where
  "snax_xdma_local_wait hw task_id =
     csrr_poll hw (XDMA_CFG_ADDR + XDMA_FINISH_LOCAL_TASK_PTR) (\<lambda>v. \<not> v < task_id)"

definition snax_xdma_remote_wait :: "hardware \<Rightarrow> u32 \<Rightarrow> csr_state \<Rightarrow> csr_state option" where
  "snax_xdma_remote_wait hw task_id =
     csrr_poll hw (XDMA_CFG_ADDR + XDMA_FINISH_REMOTE_TASK_PTR) (\<lambda>v. \<not> v < task_id)"

definition snax_xdma_last_task_cycle :: "hardware \<Rightarrow> csr_state \<Rightarrow> u32 \<times> csr_state" where
  "snax_xdma_last_task_cycle hw = snax_read_xdma_cfg_reg hw XDMA_PERF_CTR_TASK"

definition snax_xdma_last_read_cycle :: "hardware \<Rightarrow> csr_state \<Rightarrow> u32 \<times> csr_state" where
  "snax_xdma_last_read_cycle hw = snax_read_xdma_cfg_reg hw XDMA_PERF_CTR_READER"

definition snax_xdma_last_write_cycle :: "hardware \<Rightarrow> csr_state \<Rightarrow> u32 \<times> csr_state" where
  "snax_xdma_last_write_cycle hw = snax_read_xdma_cfg_reg hw XDMA_PERF_CTR_WRITER"

section \<open>The two ports of the engine\<close>

text \<open>Absolute register numbers of the reader and of the writer.\<close>

definition xdma_port :: "u32 \<Rightarrow> u32 \<Rightarrow> u32 \<Rightarrow> u32 \<Rightarrow> port_regs" where
  "xdma_port lsb ss tb ts =
     \<lparr>base_ptr_low = XDMA_CFG_ADDR + lsb, base_ptr_high = XDMA_CFG_ADDR + lsb + 1,
      s_stride_base = XDMA_CFG_ADDR + ss, s_stride_num = 1,
      t_bound_base = XDMA_CFG_ADDR + tb, t_bound_num = XDMA_TEMP_DIM,
      t_stride_base = XDMA_CFG_ADDR + ts, t_stride_num = XDMA_TEMP_DIM,
      addr_remap_index = None, enabled_channel = None\<rparr>"

definition xdma_reader :: port_regs where
  "xdma_reader = xdma_port XDMA_SRC_ADDR_PTR_LSB XDMA_SRC_SPATIAL_STRIDE_PTR
     XDMA_SRC_TEMP_BOUND_PTR XDMA_SRC_TEMP_STRIDE_PTR"

definition xdma_writer :: port_regs where
  "xdma_writer = xdma_port XDMA_DST_ADDR_PTR_LSB XDMA_DST_SPATIAL_STRIDE_PTR
     XDMA_DST_TEMP_BOUND_PTR XDMA_DST_TEMP_STRIDE_PTR"

section \<open>Lemmas\<close>

lemma temp_loop_eq:
  "temp_loop bp sp b st [j..<n] =
     (concat (map (\<lambda>i. [(bp + word_of_nat i, b i), (sp + word_of_nat i, st i)])
        [j..<min n XDMA_TEMP_DIM]), n \<le> XDMA_TEMP_DIM \<or> n \<le> j)"
proof (induction "n - j" arbitrary: j)
  case 0
  then show ?case by (simp add: min_def)
next
  case (Suc k)
  then have "[j..<n] = j # [Suc j..<n]" by (simp add: upt_conv_Cons)
  moreover have "temp_loop bp sp b st [Suc j..<n] =
      (concat (map (\<lambda>i. [(bp + word_of_nat i, b i), (sp + word_of_nat i, st i)])
        [Suc j..<min n XDMA_TEMP_DIM]), n \<le> XDMA_TEMP_DIM \<or> n \<le> Suc j)"
    using Suc by (intro Suc.hyps) simp
  moreover have "[j..<min n XDMA_TEMP_DIM] = j # [Suc j..<min n XDMA_TEMP_DIM]"
    if "j < XDMA_TEMP_DIM"
    using that Suc.hyps(2) by (simp add: upt_conv_Cons)
  ultimately show ?case using Suc.hyps(2) by auto
qed

text \<open>All five dimensions, those in use with their values and the others padded.\<close>

definition temp_pairs ::
  "u32 \<Rightarrow> u32 \<Rightarrow> (nat \<Rightarrow> u32) \<Rightarrow> (nat \<Rightarrow> u32) \<Rightarrow> (u32 \<times> u32) list" where
  "temp_pairs bp sp f g =
     concat (map (\<lambda>i. [(bp + word_of_nat i, f i), (sp + word_of_nat i, g i)]) [0..<XDMA_TEMP_DIM])"

lemma temp_loop_rest:
  assumes "unat d \<le> XDMA_TEMP_DIM"
  shows "fst (temp_loop bp sp b st [0..<unat d]) @ temp_rest bp sp d =
    temp_pairs bp sp (\<lambda>i. if i < unat d then b i else 1) (\<lambda>i. if i < unat d then st i else 0)"
proof -
  let ?g = "\<lambda>i. [(bp + word_of_nat i, if i < unat d then b i else 1),
    (sp + word_of_nat i, if i < unat d then st i else 0)]"
  have "[0..<XDMA_TEMP_DIM] = [0..<unat d] @ [unat d..<XDMA_TEMP_DIM]"
    using assms upt_add_eq_append [of 0 "unat d" "XDMA_TEMP_DIM - unat d"] by simp
  moreover have "concat (map ?g [0..<unat d]) =
      concat (map (\<lambda>i. [(bp + word_of_nat i, b i), (sp + word_of_nat i, st i)]) [0..<unat d])"
    by (intro arg_cong [where f = concat] map_cong) simp_all
  moreover have "concat (map ?g [unat d..<XDMA_TEMP_DIM]) = temp_rest bp sp d"
    unfolding temp_rest_def by (intro arg_cong [where f = concat] map_cong) simp_all
  ultimately show ?thesis
    unfolding temp_pairs_def using assms by (simp add: temp_loop_eq min_def)
qed

text \<open>The values of the padded dimensions.\<close>

definition pad :: "u32 \<Rightarrow> u32 \<Rightarrow> (nat \<Rightarrow> u32) \<Rightarrow> nat \<Rightarrow> u32" where
  "pad d x f i = (if i < unat d then f i else x)"

lemma nd_tail_ok:
  assumes "unat (temp_dim_src a) \<le> XDMA_TEMP_DIM" and "unat (temp_dim_dst a) \<le> XDMA_TEMP_DIM"
  shows "nd_tail a =
    ([(XDMA_SRC_SPATIAL_STRIDE_PTR, spatial_stride_src a),
      (XDMA_DST_SPATIAL_STRIDE_PTR, spatial_stride_dst a)] @
     temp_pairs XDMA_SRC_TEMP_BOUND_PTR XDMA_SRC_TEMP_STRIDE_PTR
       (pad (temp_dim_src a) 1 (temp_bound_src a)) (pad (temp_dim_src a) 0 (temp_stride_src a)) @
     temp_pairs XDMA_DST_TEMP_BOUND_PTR XDMA_DST_TEMP_STRIDE_PTR
       (pad (temp_dim_dst a) 1 (temp_bound_dst a)) (pad (temp_dim_dst a) 0 (temp_stride_dst a)) @
     [(XDMA_SRC_ENABLED_CHAN_PTR, enabled_chan_src a),
      (XDMA_DST_ENABLED_CHAN_PTR, enabled_chan_dst a),
      (XDMA_DST_ENABLED_BYTE_PTR, enabled_byte_dst a)], 0)"
  using assms unfolding nd_tail_def pad_def [abs_def] temp_loop_rest [symmetric, OF assms(1)]
    temp_loop_rest [symmetric, OF assms(2)]
  by (simp add: Let_def temp_loop_eq)

lemma nd_tail_too_many:
  assumes "\<not> (unat (temp_dim_src a) \<le> XDMA_TEMP_DIM \<and> unat (temp_dim_dst a) \<le> XDMA_TEMP_DIM)"
  shows "snd (nd_tail a) = - 4"
  using assms by (auto simp: nd_tail_def Let_def temp_loop_eq XDMA_TEMP_DIM_def split: prod.splits)

text \<open>The engine's registers are all known to the switches.\<close>

lemma xdma_writes_eq:
  "xdma_writes ws = csrw_sss (map (\<lambda>(a, v). (XDMA_CFG_ADDR + a, v)) ws)"
  by (rule ext, rename_tac s, induction ws) (auto simp: snax_write_xdma_cfg_reg_def)

text \<open>The registers a copy writes, in order.\<close>

definition nd_addrs :: "u32 list" where
  "nd_addrs = map word_of_nat ([0..<34] @
     [34, 46, 35, 40, 36, 41, 37, 42, 38, 43, 39, 44, 47, 52, 48, 53, 49, 54, 50, 55, 51, 56,
      45, 57, 58])"

lemma temp_pairs_concrete:
  "temp_pairs bp sp f g = [(bp, f 0), (sp, g 0), (bp + 1, f 1), (sp + 1, g 1), (bp + 2, f 2),
     (sp + 2, g 2), (bp + 3, f 3), (sp + 3, g 3), (bp + 4, f 4), (sp + 4, g 4)]"
  by (simp add: temp_pairs_def XDMA_TEMP_DIM_def upt_rec eval_nat_numeral)

lemma other_dsts:
  "map fst (concat (map (\<lambda>i. dst_ptr_writes i (d i)) [1..<XDMA_MAX_DST_COUNT])) =
     map word_of_nat [4..<34]"
  by (simp add: dst_ptr_writes_def XDMA_MAX_DST_COUNT_def xdma_regs upt_rec)

lemma memcpy_nd_addrs:
  assumes "unat (temp_dim_src a) \<le> XDMA_TEMP_DIM" and "unat (temp_dim_dst a) \<le> XDMA_TEMP_DIM"
  shows "map fst (fst (snax_xdma_memcpy_nd_full_addr src dst a)) = nd_addrs"
proof -
  have "[0..<34] = [0, 1, 2, 3] @ [4..<34 :: nat]" by (simp add: upt_rec)
  then show ?thesis
    unfolding snax_xdma_memcpy_nd_full_addr_def nd_tail_ok [OF assms] Let_def prod.case
    by (simp only: fst_conv map_append other_dsts nd_addrs_def)
      (simp add: src_ptr_writes_def dst_ptr_writes_def temp_pairs_concrete xdma_regs)
qed

lemma nd_addrs_distinct: "distinct nd_addrs" "\<forall>a \<in> set nd_addrs. ss_reg (XDMA_CFG_ADDR + a)"
proof -
  let ?ns = "[0..<34] @ [34, 46, 35, 40, 36, 41, 37, 42, 38, 43, 39, 44, 47, 52, 48, 53, 49, 54,
    50, 55, 51, 56, 45, 57, 58 :: nat]"
  have small: "\<forall>n \<in> set ?ns. n < 59" by simp
  have "inj_on (word_of_nat :: nat \<Rightarrow> u32) (set ?ns)"
  proof (rule inj_on_subset)
    show "inj_on (word_of_nat :: nat \<Rightarrow> u32) {0..<59}" using word_of_nat_inj_on [of 59 "0 :: u32"] by simp
    show "set ?ns \<subseteq> {0..<59}" using small by (simp only: subset_iff atLeastLessThan_iff) simp
  qed
  then show "distinct nd_addrs" unfolding nd_addrs_def distinct_map by simp
  have "ss_reg (XDMA_CFG_ADDR + word_of_nat n)" if "n < 59" for n
  proof -
    have "unat (XDMA_CFG_ADDR + word_of_nat n :: u32) = 960 + n"
      using that by (simp add: XDMA_CFG_ADDR_def unat_word_ariths unat_of_nat take_bit_nat_eq_self)
    with that show ?thesis by (simp add: word_le_nat_alt)
  qed
  with small show "\<forall>a \<in> set nd_addrs. ss_reg (XDMA_CFG_ADDR + a)"
    unfolding nd_addrs_def set_map by blast
qed

text \<open>Every register of a copy holds what the copy wrote.\<close>

lemma memcpy_nd_value:
  assumes "unat (temp_dim_src a) \<le> XDMA_TEMP_DIM" and "unat (temp_dim_dst a) \<le> XDMA_TEMP_DIM"
    and "(x, v) \<in> set (fst (snax_xdma_memcpy_nd_full_addr src dst a))"
  shows "csr_file (xdma_writes (fst (snax_xdma_memcpy_nd_full_addr src dst a)) s)
    (XDMA_CFG_ADDR + x) = v"
proof -
  let ?ws = "fst (snax_xdma_memcpy_nd_full_addr src dst a)"
  let ?abs = "map (\<lambda>(a, v). (XDMA_CFG_ADDR + a, v)) ?ws"
  note addrs = memcpy_nd_addrs [OF assms(1,2), of src dst]
  have fst_abs: "map fst ?abs = map ((+) XDMA_CFG_ADDR) nd_addrs"
    unfolding addrs [symmetric] by (simp add: comp_def split_beta)
  have "distinct (map fst ?abs)"
    unfolding fst_abs using nd_addrs_distinct(1) by (simp add: distinct_map)
  moreover have "(XDMA_CFG_ADDR + x, v) \<in> set ?abs" using assms(3) by force
  moreover have "ss_reg (XDMA_CFG_ADDR + x)"
  proof -
    have "x \<in> set (map fst ?ws)" using assms(3) by force
    then show ?thesis unfolding addrs using nd_addrs_distinct(2) by blast
  qed
  ultimately show ?thesis unfolding xdma_writes_eq by (rule css.rd_writes_distinct)
qed

lemma xdma_port_cfg:
  "port_cfg (xdma_port lsb ss tb ts) f =
     \<lparr>agu_ptr = f (XDMA_CFG_ADDR + lsb), agu_spatial = [f (XDMA_CFG_ADDR + ss)],
      agu_bounds = map (\<lambda>i. f (XDMA_CFG_ADDR + (tb + word_of_nat i))) [0..<XDMA_TEMP_DIM],
      agu_strides = map (\<lambda>i. f (XDMA_CFG_ADDR + (ts + word_of_nat i))) [0..<XDMA_TEMP_DIM]\<rparr>"
  by (simp add: port_cfg_def xdma_port_def block_values_def block_addrs_small block_addrs_def
    comp_def add.assoc)

lemma pad_list:
  "unat d \<le> n \<Longrightarrow> map (pad d x f) [0..<n] = map f [0..<unat d] @ replicate (n - unat d) x"
  by (rule nth_equalityI) (auto simp: pad_def nth_append)

definition nest_cfg :: "u64 \<Rightarrow> u32 \<Rightarrow> u32 \<Rightarrow> (nat \<Rightarrow> u32) \<Rightarrow> (nat \<Rightarrow> u32) \<Rightarrow> agu_cfg" where
  "nest_cfg p ss dim b st =
     \<lparr>agu_ptr = ucast p, agu_spatial = [ss],
      agu_bounds = map b [0..<unat dim] @ replicate (XDMA_TEMP_DIM - unat dim) 1,
      agu_strides = map st [0..<unat dim] @ replicate (XDMA_TEMP_DIM - unat dim) 0\<rparr>"

lemma memcpy_nd_ports:
  fixes s :: csr_state and src dst :: u64
  assumes "unat (temp_dim_src a) \<le> XDMA_TEMP_DIM" and "unat (temp_dim_dst a) \<le> XDMA_TEMP_DIM"
  defines "f \<equiv> csr_file (xdma_writes (fst (snax_xdma_memcpy_nd_full_addr src dst a)) s)"
  shows "port_cfg xdma_reader f =
      nest_cfg src (spatial_stride_src a) (temp_dim_src a) (temp_bound_src a) (temp_stride_src a)"
    and "port_cfg xdma_writer f =
      nest_cfg dst (spatial_stride_dst a) (temp_dim_dst a) (temp_bound_dst a) (temp_stride_dst a)"
proof -
  note v = memcpy_nd_value [OF assms(1,2), where src = src and dst = dst and s = s, folded f_def]
  note ws = snax_xdma_memcpy_nd_full_addr_def nd_tail_ok [OF assms(1,2)] Let_def
  have mem: "i < XDMA_TEMP_DIM \<Longrightarrow> (bp + word_of_nat i, F i) \<in> set (temp_pairs bp sp F G)"
    "i < XDMA_TEMP_DIM \<Longrightarrow> (sp + word_of_nat i, G i) \<in> set (temp_pairs bp sp F G)"
    for i bp sp F G
    by (auto simp: temp_pairs_def)
  have src: "f (XDMA_CFG_ADDR + XDMA_SRC_ADDR_PTR_LSB) = ucast src"
    "f (XDMA_CFG_ADDR + XDMA_SRC_SPATIAL_STRIDE_PTR) = spatial_stride_src a"
    "i < XDMA_TEMP_DIM \<Longrightarrow> f (XDMA_CFG_ADDR + (XDMA_SRC_TEMP_BOUND_PTR + word_of_nat i)) =
      pad (temp_dim_src a) 1 (temp_bound_src a) i"
    "i < XDMA_TEMP_DIM \<Longrightarrow> f (XDMA_CFG_ADDR + (XDMA_SRC_TEMP_STRIDE_PTR + word_of_nat i)) =
      pad (temp_dim_src a) 0 (temp_stride_src a) i" for i
    by (rule v, simp add: ws src_ptr_writes_def mem)+
  show "port_cfg xdma_reader f =
      nest_cfg src (spatial_stride_src a) (temp_dim_src a) (temp_bound_src a) (temp_stride_src a)"
    unfolding xdma_reader_def xdma_port_cfg nest_cfg_def
    by (simp add: src pad_list [OF assms(1), symmetric])
  have dst: "f (XDMA_CFG_ADDR + XDMA_DST_ADDR_PTR_LSB) = ucast dst"
    "f (XDMA_CFG_ADDR + XDMA_DST_SPATIAL_STRIDE_PTR) = spatial_stride_dst a"
    "i < XDMA_TEMP_DIM \<Longrightarrow> f (XDMA_CFG_ADDR + (XDMA_DST_TEMP_BOUND_PTR + word_of_nat i)) =
      pad (temp_dim_dst a) 1 (temp_bound_dst a) i"
    "i < XDMA_TEMP_DIM \<Longrightarrow> f (XDMA_CFG_ADDR + (XDMA_DST_TEMP_STRIDE_PTR + word_of_nat i)) =
      pad (temp_dim_dst a) 0 (temp_stride_dst a) i" for i
    by (rule v, simp add: ws dst_ptr_writes_def mem)+
  show "port_cfg xdma_writer f =
      nest_cfg dst (spatial_stride_dst a) (temp_dim_dst a) (temp_bound_dst a) (temp_stride_dst a)"
    unfolding xdma_writer_def xdma_port_cfg nest_cfg_def
    by (simp add: dst pad_list [OF assms(2), symmetric])
qed

text \<open>The addresses of a one-dimensional copy.\<close>

lemma spatial_offset_8: "c < 8 \<Longrightarrow> spatial_offset [8] [8] c = word_of_nat c * 8"
  by simp

lemma concat_blocks:
  "concat (map (\<lambda>t. map (\<lambda>c. g (8 * t + c)) [0..<8]) [0..<n]) = map g [0..<8 * n]"
proof (induction n)
  case 0
  then show ?case by simp
next
  case (Suc n)
  have "[0..<8 * Suc n] = [0..<8 * n] @ map (\<lambda>c. 8 * n + c) [0..<8]"
    using upt_add_eq_append [of 0 "8 * n" 8] map_add_upt [of "8 * n" 8] by (simp add: add.commute)
  with Suc show ?case by (simp add: comp_def)
qed

lemma nest_1d_addresses:
  "concat (agu_addresses [8] (nest_cfg p 8 1 (\<lambda>_. b) (\<lambda>_. 64))) =
     map (\<lambda>k. ucast p + word_of_nat k * 8) [0..<8 * unat b]"
proof -
  let ?c = "nest_cfg p 8 1 (\<lambda>_. b) (\<lambda>_. 64)"
  have z: "zip (agu_bounds ?c) (agu_strides ?c) = [(b, 64)] @ replicate 4 (1, 0)"
    by (simp add: nest_cfg_def XDMA_TEMP_DIM_def)
  have t: "temporal_offsets ([(b, 64)] @ replicate 4 (1, 0)) =
      map (\<lambda>i. word_of_nat i * 64) [0..<unat b]"
    unfolding temporal_offsets_pad by simp
  have "agu_addresses [8] ?c =
      map (\<lambda>t. map (\<lambda>c. ucast p + word_of_nat (8 * t + c) * 8) [0..<8]) [0..<unat b]"
    unfolding agu_addresses_def z t map_map
  proof (rule map_cong [OF refl])
    fix n
    have "ucast p + (word_of_nat n * 64 + spatial_offset [8] [8] c) =
        ucast p + word_of_nat (8 * n + c) * 8" if "c < 8" for c
      unfolding spatial_offset_8 [OF that] by (simp add: algebra_simps)
    then show "((\<lambda>t. map (\<lambda>ch. agu_ptr ?c + (t + spatial_offset [8] (agu_spatial ?c) ch))
        [0..<prod_list [8]]) \<circ> (\<lambda>i. word_of_nat i * 64)) n =
      map (\<lambda>c. ucast p + word_of_nat (8 * n + c) * 8) [0..<8]"
      by (simp add: nest_cfg_def del: upt_Suc)
  qed
  then show ?thesis
    using concat_blocks [of "\<lambda>k. ucast p + word_of_nat k * 8"] by simp
qed

lemma temp_loop_addrs:
  assumes "x \<in> fst ` set (fst (temp_loop bp sp b st [0..<n]))"
  shows "\<exists>i < XDMA_TEMP_DIM. x = bp + word_of_nat i \<or> x = sp + word_of_nat i"
  using assms unfolding temp_loop_eq by fastforce

lemma temp_rest_addrs:
  assumes "x \<in> fst ` set (temp_rest bp sp d)"
  shows "\<exists>i < XDMA_TEMP_DIM. x = bp + word_of_nat i \<or> x = sp + word_of_nat i"
  using assms unfolding temp_rest_def by fastforce

text \<open>The common tail stays below the start register.\<close>

lemma nd_tail_addrs:
  assumes "x \<in> fst ` set (fst (nd_tail a))"
  shows "x < XDMA_START_PTR"
proof -
  have small: "bp + word_of_nat i < XDMA_START_PTR"
    if "i < XDMA_TEMP_DIM" "bp \<in> {35, 40, 47, 52}" for i and bp :: u32
  proof -
    have "i \<in> {0, 1, 2, 3, 4}" using that(1) by (auto simp: XDMA_TEMP_DIM_def)
    then show ?thesis using that(2) by (auto simp: XDMA_START_PTR_def word_less_nat_alt)
  qed
  note regs = XDMA_SRC_TEMP_BOUND_PTR_def XDMA_SRC_TEMP_STRIDE_PTR_def
    XDMA_DST_TEMP_BOUND_PTR_def XDMA_DST_TEMP_STRIDE_PTR_def
  have t: "x < XDMA_START_PTR"
    if "\<exists>i < XDMA_TEMP_DIM. x = bp + word_of_nat i \<or> x = sp + word_of_nat i"
      "(bp, sp) \<in> {(35, 40), (47, 52)}" for bp sp :: u32
    using that small by auto
  let ?l1 = "temp_loop XDMA_SRC_TEMP_BOUND_PTR XDMA_SRC_TEMP_STRIDE_PTR
    (temp_bound_src a) (temp_stride_src a) [0..<unat (temp_dim_src a)]"
  let ?l2 = "temp_loop XDMA_DST_TEMP_BOUND_PTR XDMA_DST_TEMP_STRIDE_PTR
    (temp_bound_dst a) (temp_stride_dst a) [0..<unat (temp_dim_dst a)]"
  let ?r1 = "temp_rest XDMA_SRC_TEMP_BOUND_PTR XDMA_SRC_TEMP_STRIDE_PTR (temp_dim_src a)"
  let ?r2 = "temp_rest XDMA_DST_TEMP_BOUND_PTR XDMA_DST_TEMP_STRIDE_PTR (temp_dim_dst a)"
  let ?w = "[(XDMA_SRC_SPATIAL_STRIDE_PTR, spatial_stride_src a),
    (XDMA_DST_SPATIAL_STRIDE_PTR, spatial_stride_dst a),
    (XDMA_SRC_ENABLED_CHAN_PTR, enabled_chan_src a),
    (XDMA_DST_ENABLED_CHAN_PTR, enabled_chan_dst a),
    (XDMA_DST_ENABLED_BYTE_PTR, enabled_byte_dst a)]"
  obtain w2 ok1 where l1: "?l1 = (w2, ok1)" by (cases ?l1)
  obtain w4 ok2 where l2: "?l2 = (w4, ok2)" by (cases ?l2)
  have "set (fst (nd_tail a)) \<subseteq> set ?w \<union> set w2 \<union> set ?r1 \<union> set w4 \<union> set ?r2"
    unfolding nd_tail_def Let_def l1 l2 prod.case
    by (cases ok1; cases ok2; simp only: simp_thms if_True if_False fst_conv set_append list.set; blast)
  then have "fst ` set (fst (nd_tail a)) \<subseteq>
      fst ` set ?w \<union> fst ` set w2 \<union> fst ` set ?r1 \<union> fst ` set w4 \<union> fst ` set ?r2"
    unfolding image_Un [symmetric] by (rule image_mono)
  moreover have "fst ` set ?w = {34, 46, 45, 57, 58}" by (simp add: xdma_regs)
  ultimately consider "x \<in> {34, 46, 45, 57, 58}" | "x \<in> fst ` set (fst ?l1)" | "x \<in> fst ` set ?r1"
    | "x \<in> fst ` set (fst ?l2)" | "x \<in> fst ` set ?r2"
    using assms unfolding l1 l2 fst_conv by blast
  then show ?thesis
  proof cases
    case 1
    then show ?thesis by (auto simp: XDMA_START_PTR_def word_less_nat_alt)
  next
    case 2
    from t [OF temp_loop_addrs [OF this]] show ?thesis by (simp add: regs)
  next
    case 3
    from t [OF temp_rest_addrs [OF this]] show ?thesis by (simp add: regs)
  next
    case 4
    from t [OF temp_loop_addrs [OF this]] show ?thesis by (simp add: regs)
  next
    case 5
    from t [OF temp_rest_addrs [OF this]] show ?thesis by (simp add: regs)
  qed
qed

lemma dst_ptr_writes_start:
  assumes "i < 28"
  shows "XDMA_START_PTR \<notin> fst ` set (dst_ptr_writes i d)"
proof -
  have "unat (2 + word_of_nat i * 2 :: u32) = 2 + i * 2" "unat (3 + word_of_nat i * 2 :: u32) = 3 + i * 2"
    using assms by (simp_all add: unat_word_ariths unat_of_nat take_bit_nat_eq_self)
  then have "unat (2 + word_of_nat i * 2 :: u32) \<noteq> 59" "unat (3 + word_of_nat i * 2 :: u32) \<noteq> 59"
    using assms by presburger+
  then have "2 + word_of_nat i * 2 \<noteq> (59 :: u32)" "3 + word_of_nat i * 2 \<noteq> (59 :: u32)"
    by force+
  then show ?thesis by (auto simp: dst_ptr_writes_def xdma_regs)
qed

section \<open>Properties\<close>

text \<open>
  C37: a copy of at most five dimensions on each side returns 0 and programs the reader with the
  source pointer, stride and nest and the writer with the destination's, whatever the registers
  held before; the padding of the unused dimensions does not change the address streams. With
  more dimensions it returns -4.
\<close>

theorem xdma_memcpy_nd_configures:
  "(unat (temp_dim_src a) \<le> XDMA_TEMP_DIM \<and> unat (temp_dim_dst a) \<le> XDMA_TEMP_DIM \<longrightarrow>
     (let (r, t) = run_xdma (snax_xdma_memcpy_nd_full_addr src dst a) s;
          rd = port_cfg xdma_reader (csr_file t); wr = port_cfg xdma_writer (csr_file t)
      in r = 0 \<and> agu_ptr rd = ucast src \<and> agu_ptr wr = ucast dst \<and>
         agu_spatial rd = [spatial_stride_src a] \<and> agu_spatial wr = [spatial_stride_dst a] \<and>
         temporal_offsets (zip (agu_bounds rd) (agu_strides rd)) =
           temporal_offsets (map (\<lambda>i. (temp_bound_src a i, temp_stride_src a i))
             [0..<unat (temp_dim_src a)]) \<and>
         temporal_offsets (zip (agu_bounds wr) (agu_strides wr)) =
           temporal_offsets (map (\<lambda>i. (temp_bound_dst a i, temp_stride_dst a i))
             [0..<unat (temp_dim_dst a)]))) \<and>
   (\<not> (unat (temp_dim_src a) \<le> XDMA_TEMP_DIM \<and> unat (temp_dim_dst a) \<le> XDMA_TEMP_DIM) \<longrightarrow>
     fst (run_xdma (snax_xdma_memcpy_nd_full_addr src dst a) s) = - 4)"
proof -
  have zz: "zip (map b xs) (map st xs) = map (\<lambda>i. (b i, st i)) xs" for b st and xs :: "nat list"
    by (induction xs) simp_all
  have z: "temporal_offsets (zip (map b [0..<n]) (map st [0..<n]) @ replicate k (1, 0)) =
      temporal_offsets (map (\<lambda>i. (b i, st i)) [0..<n])" for b st n k
    by (simp only: zz temporal_offsets_pad)
  have "snd (snax_xdma_memcpy_nd_full_addr src dst a) = snd (nd_tail a)"
    by (simp add: snax_xdma_memcpy_nd_full_addr_def split_beta Let_def)
  then show ?thesis
    using memcpy_nd_ports [of a src dst s] nd_tail_too_many [of a] nd_tail_ok [of a]
    by (simp add: run_xdma_def nest_cfg_def z Let_def)
qed

theorem xdma_memcpy_nd_configures_witness:
  "fst (run_xdma (snax_xdma_memcpy_nd_full_addr 4096 8192 (args_1d 128)) csr_reset) = 0 \<and>
   agu_ptr (port_cfg xdma_writer (csr_file (snd (run_xdma
     (snax_xdma_memcpy_nd_full_addr 4096 8192 (args_1d 128)) csr_reset)))) = 8192"
  using xdma_memcpy_nd_configures [of "args_1d 128" 4096 8192 csr_reset]
  by (simp add: args_1d_def XDMA_TEMP_DIM_def split_beta Let_def)

text \<open>
  A one-dimensional copy of a length that is no multiple of 64 bytes returns -1 and writes no
  register; otherwise it returns 0, and the addresses the reader and the writer visit, eight
  bytes each, are those of the source and of the destination range from the first to the last in
  order, each exactly once.
\<close>

theorem xdma_memcpy_1d_covers:
  "(len mod 64 \<noteq> 0 \<longrightarrow> run_xdma (snax_xdma_memcpy_1d_full_addr src dst len) s = (- 1, s)) \<and>
   (len mod 64 = 0 \<longrightarrow>
     (let (r, t) = run_xdma (snax_xdma_memcpy_1d_full_addr src dst len) s
      in r = 0 \<and>
         concat (agu_addresses [8] (port_cfg xdma_reader (csr_file t))) =
           map (\<lambda>k. ucast src + word_of_nat k * 8) [0..<unat len div 8] \<and>
         concat (agu_addresses [8] (port_cfg xdma_writer (csr_file t))) =
           map (\<lambda>k. ucast dst + word_of_nat k * 8) [0..<unat len div 8]))"
proof -
  let ?a = "args_1d len"
  have dims: "unat (temp_dim_src ?a) \<le> XDMA_TEMP_DIM" "unat (temp_dim_dst ?a) \<le> XDMA_TEMP_DIM"
    by (simp_all add: args_1d_def XDMA_TEMP_DIM_def)
  have "8 * unat (len div 64) = unat len div 8" if "len mod 64 = 0"
  proof -
    have "unat len mod 64 = 0" using arg_cong [OF that, of unat] by (simp add: unat_mod)
    then show ?thesis by (auto simp: unat_div)
  qed
  then show ?thesis
    using memcpy_nd_ports [OF dims, of src dst s] nd_tail_ok [OF dims]
      nest_1d_addresses [of src "len div 64"] nest_1d_addresses [of dst "len div 64"]
    by (simp add: run_xdma_def snax_xdma_memcpy_1d_full_addr_def XDMA_WIDTH_def
      snax_xdma_memcpy_nd_full_addr_def args_1d_def XDMA_SPATIAL_CHAN_def split_beta Let_def)
qed

theorem xdma_memcpy_1d_covers_witness:
  "run_xdma (snax_xdma_memcpy_1d_full_addr 4096 8192 100) csr_reset = (- 1, csr_reset) \<and>
   concat (agu_addresses [8] (port_cfg xdma_reader (csr_file (snd (run_xdma
     (snax_xdma_memcpy_1d_full_addr 4096 8192 64) csr_reset))))) =
   [4096, 4104, 4112, 4120, 4128, 4136, 4144, 4152]"
  using xdma_memcpy_1d_covers [of 100 4096 8192 csr_reset]
    xdma_memcpy_1d_covers [of 64 4096 8192 csr_reset]
  by (simp add: split_beta Let_def upt_rec)

text \<open>
  A multicast does not check its number of destinations. Up to 28 it never touches the start
  register of the engine; from 29 on, the upper half of the address of destination 28 is written
  to the start register before the engine is configured. The variant for local addresses
  overruns its array of sixteen addresses from 17 on.
\<close>

theorem xdma_multicast_unchecked:
  "(unat n \<le> 28 \<longrightarrow>
     XDMA_START_PTR \<notin> fst ` set (fst (snax_xdma_multicast_nd_full_address src dst n a))) \<and>
   (28 < unat n \<longrightarrow> (XDMA_START_PTR, ucast (drop_bit 32 (dst 28))) \<in>
     set (fst (snax_xdma_multicast_nd_full_address src dst n a))) \<and>
   (snax_xdma_multicast_nd h p ds n a = None \<longleftrightarrow> 16 < unat n)"
proof (intro conjI impI)
  assume n: "unat n \<le> 28"
  have c: "XDMA_START_PTR \<notin> fst ` set (concat (map (\<lambda>i. dst_ptr_writes i (d i)) [j..<k]))"
    if "k \<le> unat n \<or> k \<le> 28" for d j k
  proof
    assume "XDMA_START_PTR \<in> fst ` set (concat (map (\<lambda>i. dst_ptr_writes i (d i)) [j..<k]))"
    then obtain i v where "i < k" "(XDMA_START_PTR, v) \<in> set (dst_ptr_writes i (d i))"
      by auto
    then have "i < k" "XDMA_START_PTR \<in> fst ` set (dst_ptr_writes i (d i))"
      by (blast, force)
    moreover from this have "i < 28" using that n by linarith
    ultimately show False using dst_ptr_writes_start [of i "d i"] by blast
  qed
  have "XDMA_START_PTR \<notin> fst ` set (concat (map (\<lambda>i. dst_ptr_writes i (dst i)) [0..<unat n]))"
    by (rule c) simp
  moreover have "XDMA_START_PTR \<notin>
      fst ` set (concat (map (\<lambda>i. dst_ptr_writes i 0) [unat n..<XDMA_MAX_DST_COUNT]))"
    by (rule c) (simp add: XDMA_MAX_DST_COUNT_def)
  moreover have "XDMA_START_PTR \<notin> fst ` set (src_ptr_writes src)"
    by (simp add: src_ptr_writes_def xdma_regs)
  moreover have "XDMA_START_PTR \<notin> fst ` set (fst (nd_tail a))"
    using nd_tail_addrs [of XDMA_START_PTR a] by blast
  ultimately show "XDMA_START_PTR \<notin> fst ` set (fst (snax_xdma_multicast_nd_full_address src dst n a))"
    by (simp add: snax_xdma_multicast_nd_full_address_def split_beta Let_def image_Un
      del: set_concat)
next
  assume "28 < unat n"
  moreover have "(XDMA_START_PTR, ucast (drop_bit 32 (dst 28))) \<in> set (dst_ptr_writes 28 (dst 28))"
    by (simp add: dst_ptr_writes_def xdma_regs)
  ultimately show "(XDMA_START_PTR, ucast (drop_bit 32 (dst 28))) \<in>
      set (fst (snax_xdma_multicast_nd_full_address src dst n a))"
    by (auto simp: snax_xdma_multicast_nd_full_address_def split_beta Let_def)
next
  show "snax_xdma_multicast_nd h p ds n a = None \<longleftrightarrow> 16 < unat n"
    by (simp add: snax_xdma_multicast_nd_def Let_def XDMA_MAX_DST_COUNT_def not_le)
qed

theorem xdma_multicast_unchecked_witness:
  "(XDMA_START_PTR, 1) \<in>
     set (fst (snax_xdma_multicast_nd_full_address 0 (\<lambda>_. 0x100000000) 29 (args_1d 64)))"
  using xdma_multicast_unchecked [of 29 0 "\<lambda>_. 0x100000000" "args_1d 64" undefined 0 "\<lambda>_. 0"] by simp

end
