(* ===== verification/Gemm.thy ===== *)
theory Gemm
  imports Streamer Alloc
begin

unbundle bit_operations_syntax

text \<open>
  The driver of the GEMMX accelerator (target/snitch_cluster/sw/snax/gemmx): a matrix
  multiplication unit followed by a SIMD unit that rescales its 32-bit results to eight bits and
  that can be bypassed. Five streams: the inputs A and B, the initial values C, and the outputs
  D8 of the SIMD unit and D32 of the multiplier, of which the driver stops the one not in use.

  A configuration function is the list of its writes, in program order, through the switch
  \<open>csrw_ss\<close>. Register numbers are parameters; those of the SIMD unit are in \<open>gemmx_map\<close>.
\<close>

section \<open>Packing\<close>

definition gen_size_config :: "u8 \<Rightarrow> u8 \<Rightarrow> u8 \<Rightarrow> u8 \<Rightarrow> i32" where
  "gen_size_config Batch M K N =
     push_bit 24 (ucast Batch) OR push_bit 16 (ucast M) OR push_bit 8 (ucast K) OR ucast N"

definition gen_subtraction_config :: "u8 \<Rightarrow> u8 \<Rightarrow> i32" where
  "gen_subtraction_config subtraction_a subtraction_b =
     push_bit 8 (ucast subtraction_b) OR ucast subtraction_a"

definition gen_csr0_config :: "u8 \<Rightarrow> u8 \<Rightarrow> u8 \<Rightarrow> u8 \<Rightarrow> i32" where
  "gen_csr0_config input_zp_i output_zp_i max_int_i min_int_i =
     push_bit 24 (ucast min_int_i) OR push_bit 16 (ucast max_int_i) OR
     push_bit 8 (ucast output_zp_i) OR ucast input_zp_i"

definition gen_csr1_config :: "bool \<Rightarrow> i32" where
  "gen_csr1_config double_round_i = (if double_round_i then 1 else 0)"

section \<open>The streams\<close>

text \<open>
  What the caller passes for one operand: its offset in the memory behind the allocator, the
  arrays of strides and bounds, the remap index and the channel enables.
\<close>

record operand =
  delta_local :: u32
  slstride :: "nat \<Rightarrow> u32"
  tlbound :: "nat \<Rightarrow> u32"
  tlstride :: "nat \<Rightarrow> u32"
  set_addr_remap_index :: u32
  channel_en :: "nat \<Rightarrow> u32"

definition operand_args :: "allocators \<Rightarrow> operand \<Rightarrow> stream_args" where
  "operand_args al x = \<lparr>arg_ptr = delta_local x + snrt_l1_next al, arg_ss = slstride x,
     arg_tb = tlbound x, arg_ts = tlstride x\<rparr>"

definition operand_writes ::
  "streamer_map \<Rightarrow> allocators \<Rightarrow> port \<Rightarrow> operand \<Rightarrow> (u32 \<times> u32) list" where
  "operand_writes m al p x = loop_writes (regs_of m p) (operand_args al x) @
     remap_writes (regs_of m p) (set_addr_remap_index x)"

definition channel_operand_writes ::
  "streamer_map \<Rightarrow> allocators \<Rightarrow> port \<Rightarrow> operand \<Rightarrow> (u32 \<times> u32) list" where
  "channel_operand_writes m al p x = operand_writes m al p x @
     channel_writes (regs_of m p) (channel_en x)"

text \<open>The loops that write 0 to every temporal bound.\<close>

definition stopped :: "operand \<Rightarrow> operand" where
  "stopped x = x\<lparr>tlbound := (\<lambda>_. 0)\<rparr>"

text \<open>The registers of a datapath extension, where the header defines them.\<close>

definition ext_writes :: "streamer_map \<Rightarrow> port \<Rightarrow> u32 list \<Rightarrow> (u32 \<times> u32) list" where
  "ext_writes m p vs = (case ext_csr_base m p of None \<Rightarrow> []
     | Some x \<Rightarrow> csr_block x (length vs) (nth vs))"

definition set_gemmx_operands ::
  "streamer_map \<Rightarrow> allocators \<Rightarrow> operand \<Rightarrow> operand \<Rightarrow> operand \<Rightarrow> operand \<Rightarrow> operand \<Rightarrow> i32 \<Rightarrow>
   (u32 \<times> u32) list" where
  "set_gemmx_operands m al A B D8 C D32 bypassSIMD =
     operand_writes m al (Reader 0) A @
     operand_writes m al (Reader 1) B @
     operand_writes m al (Writer 0) (if bypassSIMD = 1 then stopped D8 else D8) @
     channel_operand_writes m al (Reader_Writer 0) C @
     operand_writes m al (Reader_Writer 1) (if bypassSIMD = 0 then stopped D32 else D32)"

definition set_gemmx_extensions ::
  "streamer_map \<Rightarrow> i32 \<Rightarrow> i32 \<Rightarrow> i32 \<Rightarrow> (u32 \<times> u32) list" where
  "set_gemmx_extensions m transpose_A transpose_B broadcast_C =
     ext_writes m (Reader 0) [transpose_A] @ ext_writes m (Reader 1) [transpose_B] @
     ext_writes m (Reader_Writer 0) [broadcast_C]"

definition set_gemmx_streamer_csr ::
  "streamer_map \<Rightarrow> allocators \<Rightarrow> operand \<Rightarrow> operand \<Rightarrow> operand \<Rightarrow> operand \<Rightarrow> operand \<Rightarrow> i32 \<Rightarrow>
   i32 \<Rightarrow> i32 \<Rightarrow> i32 \<Rightarrow> (u32 \<times> u32) list" where
  "set_gemmx_streamer_csr m al A B D8 C D32 bypassSIMD transpose_A transpose_B broadcast_C =
     set_gemmx_operands m al A B D8 C D32 bypassSIMD @
     set_gemmx_extensions m transpose_A transpose_B broadcast_C"

section \<open>The accelerator\<close>

record gemmx_map =
  streamer :: streamer_map
  SIMD_CSR0 :: u32
  SIMD_CSR1 :: u32
  SIMD_SHARED_BITPACKED_SHIFT :: u32
  SIMD_SHARED_BITPACKED_SHIFT_NUM :: nat
  SIMD_SHARED_MULTIPLIER :: u32
  SIMD_SHARED_MULTIPLIER_NUM :: nat
  TEMPORAL_LOOP_BOUND :: u32

definition GEMMX_CSR_ADDR_BASE :: "gemmx_map \<Rightarrow> u32" where
  "GEMMX_CSR_ADDR_BASE g = STREAMER_PERFORMANCE_COUNTER_CSR (streamer g) + 1"

definition T_BOUND_K :: "gemmx_map \<Rightarrow> u32" where "T_BOUND_K g = GEMMX_CSR_ADDR_BASE g"
definition T_BOUND_N :: "gemmx_map \<Rightarrow> u32" where "T_BOUND_N g = T_BOUND_K g + 1"
definition T_BOUND_M :: "gemmx_map \<Rightarrow> u32" where "T_BOUND_M g = T_BOUND_N g + 1"
definition SUBTRACTIONS :: "gemmx_map \<Rightarrow> u32" where "SUBTRACTIONS g = T_BOUND_M g + 1"
definition BYPASS_SIMD :: "gemmx_map \<Rightarrow> u32" where "BYPASS_SIMD g = TEMPORAL_LOOP_BOUND g + 1"
definition GEMMX_START :: "gemmx_map \<Rightarrow> u32" where "GEMMX_START g = BYPASS_SIMD g + 1"
definition GEMMX_BUSY :: "gemmx_map \<Rightarrow> u32" where "GEMMX_BUSY g = GEMMX_START g + 1"

definition GEMMX_PERFORMANCE_COUNTER :: "gemmx_map \<Rightarrow> u32" where
  "GEMMX_PERFORMANCE_COUNTER g = GEMMX_BUSY g + 1"

definition set_gemmx_csr ::
  "gemmx_map \<Rightarrow> u32 \<Rightarrow> u32 \<Rightarrow> u32 \<Rightarrow> u32 \<Rightarrow> u32 \<Rightarrow> u32 \<Rightarrow> (nat \<Rightarrow> u32) \<Rightarrow> (nat \<Rightarrow> u32) \<Rightarrow> u32 \<Rightarrow>
   u32 \<Rightarrow> (u32 \<times> u32) list" where
  "set_gemmx_csr g tempLoop0 tempLoop1 tempLoop2 subtractions csr0 csr1
     shared_bitpacked_shift shared_multiplier temporal_loop_bound bypassSIMD =
     [(T_BOUND_K g, tempLoop0), (T_BOUND_N g, tempLoop1), (T_BOUND_M g, tempLoop2),
      (SUBTRACTIONS g, subtractions), (SIMD_CSR0 g, csr0), (SIMD_CSR1 g, csr1)] @
     csr_block (SIMD_SHARED_BITPACKED_SHIFT g) (SIMD_SHARED_BITPACKED_SHIFT_NUM g)
       shared_bitpacked_shift @
     csr_block (SIMD_SHARED_MULTIPLIER g) (SIMD_SHARED_MULTIPLIER_NUM g) shared_multiplier @
     [(TEMPORAL_LOOP_BOUND g, temporal_loop_bound), (BYPASS_SIMD g, bypassSIMD)]"

definition set_gemmx_streamer_start :: "gemmx_map \<Rightarrow> csr_state \<Rightarrow> csr_state" where
  "set_gemmx_streamer_start g = csrw_ss (STREAMER_START_CSR (streamer g)) 1"

definition set_gemmx_start :: "gemmx_map \<Rightarrow> csr_state \<Rightarrow> csr_state" where
  "set_gemmx_start g = csrw_ss (GEMMX_START g) 1"

definition wait_gemmx_and_streamer :: "hardware \<Rightarrow> gemmx_map \<Rightarrow> csr_state \<Rightarrow> csr_state option" where
  "wait_gemmx_and_streamer hw g s =
     map_option (csrw_ss (GEMMX_START g) 0)
       (Option.bind
         (csrr_poll hw (GEMMX_BUSY g) (\<lambda>v. v = 0)
            (csrw_sss [(STREAMER_START_CSR (streamer g), 0), (STREAMER_START_CSR (streamer g), 0)] s))
         (csrr_poll hw (STREAMER_BUSY_CSR (streamer g)) (\<lambda>v. v = 0)))"

definition read_gemmx_streamer_perf_counter ::
  "hardware \<Rightarrow> gemmx_map \<Rightarrow> csr_state \<Rightarrow> u32 \<times> csr_state" where
  "read_gemmx_streamer_perf_counter hw g =
     csrr_ss hw (STREAMER_PERFORMANCE_COUNTER_CSR (streamer g))"

definition read_gemmx_perf_counter ::
  "hardware \<Rightarrow> gemmx_map \<Rightarrow> csr_state \<Rightarrow> u32 \<times> csr_state" where
  "read_gemmx_perf_counter hw g = csrr_ss hw (GEMMX_PERFORMANCE_COUNTER g)"

section \<open>Checking results\<close>

text \<open>
  The sizes of the multiplier array, \<open>meshRow\<close> and \<open>meshCol\<close>, are generated. Array indices are
  computed in \<open>int\<close>, and the buffers are functions from the index. In the banked layout a row of
  256 bytes holds 64 bytes of the result; \<open>per\<close> elements of a row are compared, \<open>row\<close> apart.
\<close>

definition int_index :: "nat \<Rightarrow> int" where
  "int_index n = sint (word_of_nat n :: i32)"

definition count_banked :: "nat \<Rightarrow> nat \<Rightarrow> nat \<Rightarrow> (int \<Rightarrow> 'a) \<Rightarrow> (int \<Rightarrow> 'a) \<Rightarrow> u32" where
  "count_banked row per rows output golden =
     for_up 0 rows (\<lambda>i. for_up 0 per (\<lambda>j err.
       if output (int_index (i * row) + int j) \<noteq> golden (int_index (i * per + j))
       then err + 1 else err)) 0"

definition count_linear :: "nat \<Rightarrow> (int \<Rightarrow> 'a) \<Rightarrow> (int \<Rightarrow> 'a) \<Rightarrow> u32" where
  "count_linear n output golden =
     count_fails n (\<lambda>i. output (int_index i) = golden (int_index i))"

definition check_gemmx_result_D8 ::
  "u32 \<Rightarrow> u32 \<Rightarrow> (int \<Rightarrow> u8) \<Rightarrow> (int \<Rightarrow> u8) \<Rightarrow> u32 \<Rightarrow> u32 \<Rightarrow> u32 \<Rightarrow> bool \<Rightarrow> u32" where
  "check_gemmx_result_D8 meshRow meshCol output golden Batch M N banked =
     (let sz = Batch * M * N * meshRow * meshCol
      in if banked then count_banked 256 64 (unat (sz div 64)) output golden
         else count_linear (unat sz) output golden)"

definition check_gemmx_result_D32 ::
  "u32 \<Rightarrow> u32 \<Rightarrow> (int \<Rightarrow> u32) \<Rightarrow> (int \<Rightarrow> u32) \<Rightarrow> u32 \<Rightarrow> u32 \<Rightarrow> u32 \<Rightarrow> bool \<Rightarrow> u32" where
  "check_gemmx_result_D32 meshRow meshCol output golden Batch M N banked =
     (let sz = Batch * M * N * meshRow * meshCol
      in if banked then count_banked 64 16 (unat (sz div 16)) output golden
         else count_linear (unat sz) output golden)"

section \<open>Lemmas\<close>

lemma map_fst_operand_writes [simp]:
  "map fst (operand_writes m al p x) = stream_addrs (regs_of m p) @ remap_addrs (regs_of m p)"
  "map fst (channel_operand_writes m al p x) = port_addrs (regs_of m p)"
  by (simp_all add: operand_writes_def channel_operand_writes_def port_addrs_def)

lemma loop_writes_subset:
  "set (loop_writes (regs_of m p) (operand_args al x)) \<subseteq> set (operand_writes m al p x)"
  "set (operand_writes m al p x) \<subseteq> set (channel_operand_writes m al p x)"
  by (auto simp: operand_writes_def channel_operand_writes_def)

definition ext_addrs :: "streamer_map \<Rightarrow> port \<Rightarrow> nat \<Rightarrow> u32 list" where
  "ext_addrs m p n = (case ext_csr_base m p of None \<Rightarrow> [] | Some x \<Rightarrow> block_addrs x n)"

lemma map_fst_ext_writes [simp]: "map fst (ext_writes m p vs) = ext_addrs m p (length vs)"
  by (simp add: ext_writes_def ext_addrs_def split: option.split)

text \<open>All registers that the stream configuration writes.\<close>

definition gemmx_addrs :: "streamer_map \<Rightarrow> u32 list" where
  "gemmx_addrs m =
     concat (map (\<lambda>p. stream_addrs (regs_of m p) @ remap_addrs (regs_of m p))
       [Reader 0, Reader 1, Writer 0]) @
     port_addrs (regs_of m (Reader_Writer 0)) @
     stream_addrs (regs_of m (Reader_Writer 1)) @ remap_addrs (regs_of m (Reader_Writer 1)) @
     ext_addrs m (Reader 0) 1 @ ext_addrs m (Reader 1) 1 @ ext_addrs m (Reader_Writer 0) 1"

lemma map_fst_gemmx [simp]:
  "map fst (set_gemmx_streamer_csr m al A B D8 C D32 byp tA tB bC) = gemmx_addrs m"
  by (simp add: set_gemmx_streamer_csr_def set_gemmx_operands_def set_gemmx_extensions_def
    gemmx_addrs_def)

lemma operand_configured:
  assumes "distinct (map fst ws)" and "list_all ss_reg (map fst ws)"
    and "set (operand_writes m al p x) \<subseteq> set ws"
  shows "port_cfg (regs_of m p) (csr_file (csrw_sss ws s)) = args_cfg (regs_of m p) (operand_args al x)"
proof -
  have "set (loop_writes (regs_of m p) (operand_args al x)) \<subseteq> set ws"
    using assms(3) loop_writes_subset(1) by blast
  with assms(1,2) show ?thesis by (rule csrw_sss_port_cfg)
qed

lemma stopped_args:
  "0 < t_bound_num r \<Longrightarrow> \<not> writer_starts (args_cfg r (operand_args al (stopped x)))"
  by (simp add: writer_starts_def agu_starts_def args_cfg_def operand_args_def stopped_def
    upt_conv_Cons)

text \<open>The checkers count.\<close>

lemma int_index_small: "n < 2 ^ 31 \<Longrightarrow> int_index n = int n"
  by (simp add: int_index_def sint_small unat_of_nat take_bit_nat_eq_self)

lemma count_banked_eq:
  assumes "0 < per"
  shows "count_banked row per rows output golden =
    count_fails (rows * per)
      (\<lambda>k. output (int_index (k div per * row) + int (k mod per)) = golden (int_index k))"
  unfolding count_banked_def count_fails_def for_up_nest [OF assms] by simp

lemma unat_count_banked:
  assumes "0 < per" "per \<le> row" "rows * row < 2 ^ 31"
  shows "unat (count_banked row per rows output golden) =
    card {k. k < rows * per \<and> output (int (k div per * row + k mod per)) \<noteq> golden (int k)}"
proof -
  have le: "rows * per \<le> rows * row" using assms(2) by simp
  have "count_banked row per rows output golden =
      count_fails (rows * per) (\<lambda>k. output (int (k div per * row + k mod per)) = golden (int k))"
    unfolding count_banked_eq [OF assms(1)] count_fails_def for_up_def
  proof (rule fold_cong)
    fix k
    assume "k \<in> set [0..<rows * per]"
    then have k: "k < rows * per" by simp
    then have "k div per < rows" by (simp add: less_mult_imp_div_less)
    then have "k div per * row < 2 ^ 31"
      using assms(3) by (meson le_less_trans mult_le_mono1 less_imp_le)
    moreover have "k < 2 ^ 31" using k le assms(3) by linarith
    ultimately show "(\<lambda>err. if \<not> output (int_index (k div per * row) + int (k mod per)) =
        golden (int_index k) then err + 1 else err) =
      (\<lambda>err :: u32. if \<not> output (int (k div per * row + k mod per)) = golden (int k)
        then err + 1 else err)"
      by (simp only: int_index_small of_nat_add)
  qed simp_all
  moreover have "rows * per < 2 ^ 32" by (rule less_trans [OF le_less_trans [OF le assms(3)]]) simp
  ultimately show ?thesis by (simp only: unat_count_fails)
qed

lemma unat_count_linear:
  assumes "n < 2 ^ 31"
  shows "unat (count_linear n output golden) = card {k. k < n \<and> output (int k) \<noteq> golden (int k)}"
proof -
  have "{k. k < n \<and> \<not> output (int_index k) = golden (int_index k)} =
      {k. k < n \<and> output (int k) \<noteq> golden (int k)}"
    using assms by (auto simp: int_index_small)
  with assms show ?thesis by (simp add: count_linear_def unat_count_fails)
qed

text \<open>The bytes of a word packed from bytes.\<close>

lemma packed_bytes:
  fixes w :: i32 and w0 w1 w2 w3 :: u8
  assumes "w = push_bit 24 (ucast w3) OR push_bit 16 (ucast w2) OR push_bit 8 (ucast w1) OR ucast w0"
  shows "ucast (drop_bit 24 w) = w3" "ucast (drop_bit 16 w) = w2" "ucast (drop_bit 8 w) = w1"
    "ucast w = w0"
  unfolding assms
  by (rule bit_word_eqI, simp add: bit_simps bit_imp_le_length; fastforce dest: bit_imp_le_length)+

section \<open>Properties\<close>

text \<open>
  The packed configuration words lose nothing: each field that \<open>gen_size_config\<close>,
  \<open>gen_csr0_config\<close> and \<open>gen_subtraction_config\<close> pack is read back from its byte of the word, and
  the unused half of the subtraction word is zero.
\<close>

theorem gemmx_packs_roundtrip:
  "[ucast (drop_bit 24 (gen_size_config b m k n)), ucast (drop_bit 16 (gen_size_config b m k n)),
    ucast (drop_bit 8 (gen_size_config b m k n)), ucast (gen_size_config b m k n)] = [b, m, k, n] \<and>
   [ucast (gen_csr0_config zi zo ma mi), ucast (drop_bit 8 (gen_csr0_config zi zo ma mi)),
    ucast (drop_bit 16 (gen_csr0_config zi zo ma mi)),
    ucast (drop_bit 24 (gen_csr0_config zi zo ma mi))] = [zi, zo, ma, mi] \<and>
   [ucast (gen_subtraction_config sa sb), ucast (drop_bit 8 (gen_subtraction_config sa sb)),
    ucast (drop_bit 16 (gen_subtraction_config sa sb)),
    ucast (drop_bit 24 (gen_subtraction_config sa sb))] = [sa, sb, 0, 0]"
proof -
  have "gen_subtraction_config sa sb =
      push_bit 24 (ucast (0 :: u8)) OR push_bit 16 (ucast (0 :: u8)) OR push_bit 8 (ucast sb) OR ucast sa"
    by (simp add: gen_subtraction_config_def)
  from packed_bytes [OF this] show ?thesis
    using packed_bytes [OF gen_size_config_def] packed_bytes [OF gen_csr0_config_def] by simp
qed

text \<open>
  The stream configuration programs every stream from its operand and leaves exactly one of
  the two outputs stopped. If no two of its registers coincide and the switch knows them all, then
  the ports of A, B and C hold their pointer (behind the allocator's next free address), strides
  and bounds; with \<open>bypassSIMD\<close> 1 the port of D8 does not start and D32 is configured, with 0 the
  port of D32 does not start and D8 is configured.
\<close>

theorem gemmx_streams_configured:
  assumes "distinct (gemmx_addrs m)" and "list_all ss_reg (gemmx_addrs m)"
    and "0 < t_bound_num (regs_of m (Writer 0))" and "0 < t_bound_num (regs_of m (Reader_Writer 1))"
    and "f = csr_file (csrw_sss
      (set_gemmx_streamer_csr m al A B D8 C D32 byp tA tB bC) s)"
  shows "port_cfg (regs_of m (Reader 0)) f = args_cfg (regs_of m (Reader 0)) (operand_args al A) \<and>
    port_cfg (regs_of m (Reader 1)) f = args_cfg (regs_of m (Reader 1)) (operand_args al B) \<and>
    port_cfg (regs_of m (Reader_Writer 0)) f =
      args_cfg (regs_of m (Reader_Writer 0)) (operand_args al C) \<and>
    (if byp = 1 then \<not> writer_starts (port_cfg (regs_of m (Writer 0)) f)
     else port_cfg (regs_of m (Writer 0)) f = args_cfg (regs_of m (Writer 0)) (operand_args al D8)) \<and>
    (if byp = 0 then \<not> writer_starts (port_cfg (regs_of m (Reader_Writer 1)) f)
     else port_cfg (regs_of m (Reader_Writer 1)) f =
       args_cfg (regs_of m (Reader_Writer 1)) (operand_args al D32))"
proof -
  let ?ws = "set_gemmx_streamer_csr m al A B D8 C D32 byp tA tB bC"
  have cfg: "port_cfg (regs_of m p) f = args_cfg (regs_of m p) (operand_args al x)"
    if "set (operand_writes m al p x) \<subseteq> set ?ws" for p x
    unfolding assms(5) using assms(1,2) that by (intro operand_configured) simp_all
  have sub: "set (operand_writes m al (Reader 0) A) \<subseteq> set ?ws"
    "set (operand_writes m al (Reader 1) B) \<subseteq> set ?ws"
    "set (operand_writes m al (Reader_Writer 0) C) \<subseteq> set ?ws"
    "set (operand_writes m al (Writer 0) (if byp = 1 then stopped D8 else D8)) \<subseteq> set ?ws"
    "set (operand_writes m al (Reader_Writer 1) (if byp = 0 then stopped D32 else D32)) \<subseteq> set ?ws"
    using loop_writes_subset(2) [of m al "Reader_Writer 0" C]
    by (auto simp: set_gemmx_streamer_csr_def set_gemmx_operands_def)
  note in_out = cfg [OF sub(1)] cfg [OF sub(2)] cfg [OF sub(3)] cfg [OF sub(4)] cfg [OF sub(5)]
  show ?thesis
    by (intro conjI in_out(1) in_out(2) in_out(3))
      (use in_out(4,5) stopped_args [OF assms(3)] stopped_args [OF assms(4)] in
        \<open>simp_all split: if_splits\<close>)
qed

text \<open>An address map as the generator lays it out.\<close>

definition gemmx_example_regs :: "port \<Rightarrow> port_regs" where
  "gemmx_example_regs p = (case p of
     Reader i \<Rightarrow> gen_csr_map (if i = 0 then 960 else 975) 1 6 False 0
   | Writer i \<Rightarrow> gen_csr_map 990 1 3 True 0
   | Reader_Writer i \<Rightarrow> (if i = 0 then gen_csr_map 1000 2 3 False 1 else gen_csr_map 1011 2 3 False 0))"

definition gemmx_example_map :: streamer_map where
  "gemmx_example_map = \<lparr>regs_of = gemmx_example_regs,
     ext_csr_base = (\<lambda>p. case p of Reader i \<Rightarrow> Some (if i = 0 then 1021 else 1023) | _ \<Rightarrow> None),
     DELAYED_START_READER = (\<lambda>_. 0), STREAMER_START_CSR = 1025, STREAMER_BUSY_CSR = 1026,
     STREAMER_PERFORMANCE_COUNTER_CSR = 1027\<rparr>"

lemma gemmx_example_addrs:
  "gemmx_addrs gemmx_example_map = map word_of_nat
     ((960 # [962..<975]) @ (975 # [977..<990]) @ (990 # [992..<1000]) @ (1000 # [1002..<1011]) @
      (1011 # [1013..<1021]) @ [1021, 1023])"
  by (simp add: gemmx_addrs_def gemmx_example_map_def gemmx_example_regs_def ext_addrs_def
    block_addrs_small gen_stream_addrs gen_port_addrs gen_csr_num_def del: upt_rec_numeral append_assoc)

lemma gemmx_example_ok:
  "distinct (gemmx_addrs gemmx_example_map)" "list_all ss_reg (gemmx_addrs gemmx_example_map)"
  unfolding gemmx_example_addrs
  by (rule distinct_word_of_nat, simp, simp, rule ss_regs_word_of_nat, simp)

definition example_operand :: "u32 \<Rightarrow> operand" where
  "example_operand d = \<lparr>delta_local = d, slstride = (\<lambda>_. 8), tlbound = (\<lambda>i. word_of_nat i + 2),
     tlstride = (\<lambda>i. 64 * word_of_nat i), set_addr_remap_index = 0, channel_en = (\<lambda>_. 0xff)\<rparr>"

definition example_allocators :: allocators where
  "example_allocators = \<lparr>
     l1_allocator = \<lparr>alloc_base = 0x10000000, alloc_size = 0x20000, alloc_next = 0x10000100\<rparr>,
     l3_allocator = \<lparr>alloc_base = 0x80000000, alloc_size = 0, alloc_next = 0x80000000\<rparr>\<rparr>"

theorem gemmx_streams_configured_witness:
  "let m = gemmx_example_map; x = example_operand; f = csr_file (csrw_sss (set_gemmx_streamer_csr m
     example_allocators (x 0) (x 64) (x 128) (x 192) (x 256) 1 0 0 0) csr_reset)
   in agu_ptr (port_cfg (regs_of m (Reader 1)) f) = 0x10000140 \<and>
      agu_bounds (port_cfg (regs_of m (Reader_Writer 1)) f) = [2, 3, 4] \<and>
      \<not> writer_starts (port_cfg (regs_of m (Writer 0)) f)"
proof -
  have n: "0 < t_bound_num (regs_of gemmx_example_map (Writer 0))"
    "0 < t_bound_num (regs_of gemmx_example_map (Reader_Writer 1))"
    "t_bound_num (regs_of gemmx_example_map (Reader_Writer 1)) = 3"
    by (simp_all add: gemmx_example_map_def gemmx_example_regs_def gen_csr_map_def)
  note c = gemmx_streams_configured [where al = example_allocators and A = "example_operand 0" and
    B = "example_operand 64" and ?D8.0 = "example_operand 128" and C = "example_operand 192" and
    ?D32.0 = "example_operand 256" and byp = 1 and tA = 0 and tB = 0 and bC = 0 and s = csr_reset,
    OF gemmx_example_ok n(1,2) refl]
  have "agu_ptr (args_cfg r (operand_args example_allocators (example_operand 64))) = 0x10000140" for r
    by (simp add: args_cfg_def operand_args_def example_operand_def example_allocators_def
      snrt_l1_next_def)
  moreover have "agu_bounds (args_cfg (regs_of gemmx_example_map (Reader_Writer 1))
      (operand_args example_allocators (example_operand 256))) = [2, 3, 4]"
    by (simp only: agu_args_cfg n(3)) (simp add: operand_args_def example_operand_def upt_rec)
  ultimately show ?thesis
    using c unfolding Let_def by (simp only: if_True zero_neq_one [symmetric] one_neq_zero if_False simp_thms)
qed

text \<open>
  \<open>wait_gemmx_and_streamer\<close> lowers the streamer's start bit, returns once the accelerator and
  after it the streamer have been read idle, and lowers the accelerator's start bit only then. It
  returns when both busy flags eventually stay low; if the switch does not know the number of the
  accelerator's busy register it never returns, whatever the hardware does.
\<close>

theorem gemmx_wait_returns:
  assumes "\<And>k. hw k (GEMMX_BUSY g) = Some (b k)"
    and "\<And>k. hw k (STREAMER_BUSY_CSR (streamer g)) = Some (sb k)"
    and "\<forall>k \<ge> T. b k = 0 \<and> sb k = 0"
    and "ss_reg (STREAMER_START_CSR (streamer g))" "ss_reg (STREAMER_BUSY_CSR (streamer g))"
  shows "if \<not> ss_reg (GEMMX_BUSY g) then wait_gemmx_and_streamer hw g s = None
    else ss_reg (GEMMX_START g) \<longrightarrow>
      (\<exists>t n1 n2. wait_gemmx_and_streamer hw g s = Some t \<and>
        csr_trace t = csr_trace s @ [(STREAMER_START_CSR (streamer g), 0),
          (STREAMER_START_CSR (streamer g), 0), (GEMMX_START g, 0)] \<and>
        csr_now t = csr_now s + 2 + Suc n1 + Suc n2 + 1 \<and>
        b (csr_now s + 2 + n1) = 0 \<and> sb (csr_now s + 2 + Suc n1 + n2) = 0)"
proof (cases "ss_reg (GEMMX_BUSY g)")
  case False
  have "csrr_poll hw (GEMMX_BUSY g) (\<lambda>v. v = 0) u = None" for u
    by (rule csrr_poll_stuck [OF False]) simp
  then have "wait_gemmx_and_streamer hw g s = None" by (simp add: wait_gemmx_and_streamer_def)
  with False show ?thesis by simp
next
  case True
  let ?ws = "[(STREAMER_START_CSR (streamer g), 0), (STREAMER_START_CSR (streamer g), 0)]"
  let ?s = "write_csrs ?ws s"
  have ws: "csrw_sss ?ws s = ?s" using assms(4) by (simp add: csrw_ss_eq)
  have now: "csr_now ?s = csr_now s + 2" by simp
  obtain n n' where n: "wait_gemmx_and_streamer hw g s =
      Some (csrw_ss (GEMMX_START g) 0 ((csr_tick ^^ (Suc n + Suc n')) ?s))"
    "b (csr_now ?s + n) = 0" "sb (csr_now ?s + Suc n + n') = 0"
    using csr_polls_idle [where s = ?s and hw = hw and b = b and b' = sb, OF assms(1-3)]
    unfolding wait_gemmx_and_streamer_def ws csrr_poll_eq [OF True] csrr_poll_eq [OF assms(5)]
    by (metis (no_types, lifting) option.map(2))
  have "\<exists>t n1 n2. wait_gemmx_and_streamer hw g s = Some t \<and>
      csr_trace t = csr_trace s @ ?ws @ [(GEMMX_START g, 0)] \<and>
      csr_now t = csr_now s + 2 + Suc n1 + Suc n2 + 1 \<and>
      b (csr_now s + 2 + n1) = 0 \<and> sb (csr_now s + 2 + Suc n1 + n2) = 0"
    if "ss_reg (GEMMX_START g)"
    by (rule exI [of _ "csrw_ss (GEMMX_START g) 0 ((csr_tick ^^ (Suc n + Suc n')) ?s)"],
        rule exI [of _ n], rule exI [of _ n'])
      (use n [unfolded now] that in \<open>simp add: csrw_ss_eq del: funpow.simps\<close>)
  with True show ?thesis by simp
qed

definition gemmx_example :: gemmx_map where
  "gemmx_example = \<lparr>streamer = gemmx_example_map, SIMD_CSR0 = 1032, SIMD_CSR1 = 1033,
     SIMD_SHARED_BITPACKED_SHIFT = 1034, SIMD_SHARED_BITPACKED_SHIFT_NUM = 2,
     SIMD_SHARED_MULTIPLIER = 1036, SIMD_SHARED_MULTIPLIER_NUM = 8, TEMPORAL_LOOP_BOUND = 1044\<rparr>"

theorem gemmx_wait_returns_witness:
  "\<exists>t. wait_gemmx_and_streamer (\<lambda>k _. Some (if k < 9 then 1 else 0)) gemmx_example csr_reset = Some t \<and>
     csr_trace t = [(1025, 0), (1025, 0), (1046, 0)]"
  using gemmx_wait_returns [where hw = "\<lambda>k _. Some (if k < 9 then 1 else 0)" and g = gemmx_example
    and b = "\<lambda>k. if k < 9 then 1 else 0" and sb = "\<lambda>k. if k < 9 then 1 else 0" and T = 9
    and s = csr_reset]
  by (auto simp: gemmx_example_def gemmx_example_map_def GEMMX_BUSY_def GEMMX_START_def
    BYPASS_SIMD_def csr_reset_def)

text \<open>
  The checkers count mismatches. A linear buffer of \<open>sz\<close> elements, \<open>sz = Batch * M * N *
  meshRow * meshCol\<close>, is compared completely. In the banked layout the checkers compare the first
  64 bytes of each row of 256 bytes with the next 64 bytes of the reference, but only for the
  complete rows: up to 63 last bytes are never looked at.
\<close>

theorem gemmx_checkers_count:
  assumes "sz = unat (Batch * M * N * mr * mc)" and "sz < 2 ^ 29"
  shows "unat (check_gemmx_result_D8 mr mc out golden Batch M N False) =
      card {k. k < sz \<and> out (int k) \<noteq> golden (int k)} \<and>
    unat (check_gemmx_result_D8 mr mc out golden Batch M N True) =
      card {k. k < sz div 64 * 64 \<and> out (int (k div 64 * 256 + k mod 64)) \<noteq> golden (int k)} \<and>
    unat (check_gemmx_result_D32 mr mc out32 golden32 Batch M N False) =
      card {k. k < sz \<and> out32 (int k) \<noteq> golden32 (int k)} \<and>
    unat (check_gemmx_result_D32 mr mc out32 golden32 Batch M N True) =
      card {k. k < sz div 16 * 16 \<and> out32 (int (k div 16 * 64 + k mod 16)) \<noteq> golden32 (int k)}"
proof -
  have u: "unat (Batch * M * N * mr * mc) = sz" using assms(1) by simp
  have d: "unat (Batch * M * N * mr * mc div 64) = sz div 64"
    "unat (Batch * M * N * mr * mc div 16) = sz div 16"
    by (simp_all only: unat_div u) simp_all
  have "sz div 64 * 256 \<le> 4 * sz" "sz div 16 * 64 \<le> 4 * sz" by simp_all
  with assms(2) have b: "sz < 2 ^ 31" "sz div 64 * 256 < 2 ^ 31" "sz div 16 * 64 < 2 ^ 31" by simp_all
  show ?thesis
    unfolding check_gemmx_result_D8_def check_gemmx_result_D32_def Let_def if_True if_False u d
    by (intro conjI unat_count_linear [OF b(1)] unat_count_banked [OF _ _ b(2)]
      unat_count_banked [OF _ _ b(3)]) simp_all
qed

theorem gemmx_checkers_count_witness:
  "unat (check_gemmx_result_D8 8 8 (\<lambda>i. if i = 256 then 1 else 0) (\<lambda>_. 0) 1 2 1 True) = 1"
proof -
  have "k = 64" if "k div 64 * 256 + k mod 64 = (256 :: nat)" for k
  proof -
    have "q = 1 \<and> r = 0" if "q * 256 + r = 256" "r < 64" for q r :: nat
      using that by presburger
    from this [OF that] have "k div 64 = 1" "k mod 64 = 0" by simp_all
    then show ?thesis using div_mult_mod_eq [of k 64] by simp
  qed
  then have "{k. k < 128 \<and> k div 64 * 256 + k mod 64 = (256 :: nat)} = {64}"
    by (intro equalityI subsetI) (blast, simp)
  moreover have "(if int x = 256 then 1 else 0 :: u8) \<noteq> 0 \<longleftrightarrow> x = 256" for x by simp
  note c = gemmx_checkers_count [where Batch = 1 and M = 2 and N = 1 and mr = 8 and mc = 8 and
    sz = 128 and out = "\<lambda>i. if i = 256 then 1 else 0" and golden = "\<lambda>_. 0", unfolded this]
  have "unat (check_gemmx_result_D8 8 8 (\<lambda>i. if i = 256 then 1 else 0) (\<lambda>_. 0) 1 2 1 True) =
      card {k. k < 128 div 64 * 64 \<and> k div 64 * 256 + k mod 64 = (256 :: nat)}"
    by (rule c [THEN conjunct2, THEN conjunct1]) simp_all
  ultimately show ?thesis by simp
qed

end
