(* ===== verification/Versacore.thy ===== *)
theory Versacore
  imports Gemm
begin

unbundle bit_operations_syntax

text \<open>
  The drivers of the VersaCore accelerator (target/snitch_cluster/sw/snax/versacore-to and
  versacore-dse), a matrix multiplication array of configurable shape. The two libraries share
  the stream configuration and the accelerator's registers; they differ in the datapath
  extensions, and the second has a variant with another set of ports.
\<close>

section \<open>Streams\<close>

text \<open>
  The ports of A, B, C and D: as configured with \<open>SNAX_VERSACORE_OUTPUT_STATIONARY_ONLY\<close> (and in
  versacore-to), and without it.
\<close>

definition os_ports :: "port list" where
  "os_ports = [Reader 0, Reader 1, Reader_Writer 0, Reader_Writer 1]"

definition reader_ports :: "port list" where
  "reader_ports = [Reader 0, Reader 1, Reader 2, Writer 0]"

definition set_streams ::
  "streamer_map \<Rightarrow> allocators \<Rightarrow> port list \<Rightarrow> operand list \<Rightarrow> (u32 \<times> u32) list" where
  "set_streams m al ps xs = concat (map2 (channel_operand_writes m al) ps xs)"

definition set_versacore_os_streams ::
  "streamer_map \<Rightarrow> allocators \<Rightarrow> operand \<Rightarrow> operand \<Rightarrow> operand \<Rightarrow> operand \<Rightarrow> (u32 \<times> u32) list" where
  "set_versacore_os_streams m al A B C D = set_streams m al os_ports [A, B, C, D]"

definition set_versacore_reader_streams ::
  "streamer_map \<Rightarrow> allocators \<Rightarrow> operand \<Rightarrow> operand \<Rightarrow> operand \<Rightarrow> operand \<Rightarrow> (u32 \<times> u32) list" where
  "set_versacore_reader_streams m al A B C D = set_streams m al reader_ports [A, B, C, D]"

text \<open>The datapath extensions of versacore-to: transposers, type conversions and rescaling.\<close>

record rescale_args =
  array_shape :: u32
  quantization_enable :: u32
  shift_i :: u32
  multiplier_i :: u32
  input_zp_i :: u32
  output_zp_i :: u32
  int32tofp16_enable :: u32

definition reader_ext_cfg :: "u32 \<Rightarrow> u32 \<Rightarrow> u32" where
  "reader_ext_cfg transposed int4_enable = push_bit 1 (transposed AND 1) OR (int4_enable AND 1)"

definition set_versacore_extensions ::
  "streamer_map \<Rightarrow> u32 \<Rightarrow> u32 \<Rightarrow> u32 \<Rightarrow> u32 \<Rightarrow> rescale_args \<Rightarrow> (u32 \<times> u32) list" where
  "set_versacore_extensions m transpose_A transpose_B int4_a_enable int4_b_enable q =
     ext_writes m (Reader 0) [reader_ext_cfg transpose_A int4_a_enable, array_shape q] @
     ext_writes m (Reader 1) [reader_ext_cfg transpose_B int4_b_enable, array_shape q] @
     ext_writes m (Reader_Writer 1)
       [push_bit 1 (int32tofp16_enable q) OR quantization_enable q, input_zp_i q, multiplier_i q,
        output_zp_i q, shift_i q,
        if array_shape q = 4 then 1 else 0, if array_shape q = 4 then 1 else 0]"

definition set_versacore_streamer_csr ::
  "streamer_map \<Rightarrow> allocators \<Rightarrow> operand \<Rightarrow> operand \<Rightarrow> operand \<Rightarrow> operand \<Rightarrow> u32 \<Rightarrow> u32 \<Rightarrow> u32 \<Rightarrow> u32 \<Rightarrow>
   rescale_args \<Rightarrow> (u32 \<times> u32) list" where
  "set_versacore_streamer_csr m al A B C D transpose_A transpose_B int4_a_enable int4_b_enable q =
     set_versacore_os_streams m al A B C D @
     set_versacore_extensions m transpose_A transpose_B int4_a_enable int4_b_enable q"

text \<open>In versacore-dse the transposers have one register, which a transposition clears.\<close>

definition set_dse_extensions :: "streamer_map \<Rightarrow> u32 \<Rightarrow> u32 \<Rightarrow> (u32 \<times> u32) list" where
  "set_dse_extensions m transpose_A transpose_B =
     ext_writes m (Reader 0) [if transpose_A = 1 then 0 else 1] @
     ext_writes m (Reader 1) [if transpose_B = 1 then 0 else 1]"

definition SNAX_VERSACORE_OUTPUT_STATIONARY_ONLY :: bool where
  "SNAX_VERSACORE_OUTPUT_STATIONARY_ONLY = True"

definition set_dse_streamer_csr ::
  "bool \<Rightarrow> streamer_map \<Rightarrow> allocators \<Rightarrow> operand \<Rightarrow> operand \<Rightarrow> operand \<Rightarrow> operand \<Rightarrow> u32 \<Rightarrow> u32 \<Rightarrow>
   (u32 \<times> u32) list" where
  "set_dse_streamer_csr output_stationary_only m al A B C D transpose_A transpose_B =
     (if output_stationary_only
      then set_versacore_os_streams m al A B C D
      else set_versacore_reader_streams m al A B C D) @
     set_dse_extensions m transpose_A transpose_B"

section \<open>The accelerator\<close>

definition OVERWRITE_ACCUM :: "streamer_map \<Rightarrow> u32" where
  "OVERWRITE_ACCUM m = STREAMER_PERFORMANCE_COUNTER_CSR m + 1"

definition ACCUM_BOUND :: "streamer_map \<Rightarrow> u32" where "ACCUM_BOUND m = OVERWRITE_ACCUM m + 1"
definition OUTPUT_BOUND :: "streamer_map \<Rightarrow> u32" where "OUTPUT_BOUND m = ACCUM_BOUND m + 1"
definition VC_SUBTRACTIONS :: "streamer_map \<Rightarrow> u32" where "VC_SUBTRACTIONS m = OUTPUT_BOUND m + 1"
definition ARRAY_SHAPE_CFG :: "streamer_map \<Rightarrow> u32" where "ARRAY_SHAPE_CFG m = VC_SUBTRACTIONS m + 1"
definition DATA_TYPE_CFG :: "streamer_map \<Rightarrow> u32" where "DATA_TYPE_CFG m = ARRAY_SHAPE_CFG m + 1"
definition VC_START :: "streamer_map \<Rightarrow> u32" where "VC_START m = DATA_TYPE_CFG m + 1"
definition VC_BUSY :: "streamer_map \<Rightarrow> u32" where "VC_BUSY m = VC_START m + 1"

definition VC_PERFORMANCE_COUNTER :: "streamer_map \<Rightarrow> u32" where
  "VC_PERFORMANCE_COUNTER m = VC_BUSY m + 1"

definition set_versacore_csr ::
  "streamer_map \<Rightarrow> u32 \<Rightarrow> u32 \<Rightarrow> u32 \<Rightarrow> u32 \<Rightarrow> u32 \<Rightarrow> u32 \<Rightarrow> (u32 \<times> u32) list" where
  "set_versacore_csr m take_in_new_c a_b_input_times_one_output output_times subtractions shape
     data_type =
     [(OVERWRITE_ACCUM m, take_in_new_c), (ACCUM_BOUND m, a_b_input_times_one_output),
      (OUTPUT_BOUND m, output_times), (VC_SUBTRACTIONS m, subtractions),
      (ARRAY_SHAPE_CFG m, shape), (DATA_TYPE_CFG m, data_type)]"

definition set_versacore_streamer_start :: "streamer_map \<Rightarrow> csr_state \<Rightarrow> csr_state" where
  "set_versacore_streamer_start m = csrw_ss (STREAMER_START_CSR m) 1"

definition set_versacore_start :: "streamer_map \<Rightarrow> csr_state \<Rightarrow> csr_state" where
  "set_versacore_start m = csrw_ss (VC_START m) 1"

definition wait_versacore_and_streamer ::
  "hardware \<Rightarrow> streamer_map \<Rightarrow> csr_state \<Rightarrow> csr_state option" where
  "wait_versacore_and_streamer hw m s =
     Option.bind
       (csrr_poll hw (VC_BUSY m) (\<lambda>v. v = 0)
          (csrw_sss [(STREAMER_START_CSR m, 0), (STREAMER_START_CSR m, 0), (VC_START m, 0)] s))
       (csrr_poll hw (STREAMER_BUSY_CSR m) (\<lambda>v. v = 0))"

definition wait_versacore :: "hardware \<Rightarrow> streamer_map \<Rightarrow> csr_state \<Rightarrow> csr_state option" where
  "wait_versacore hw m s =
     csrr_poll hw (VC_BUSY m) (\<lambda>v. v = 0) (csrw_sss [(VC_START m, 0), (VC_START m, 0)] s)"

definition read_versacore_streamer_perf_counter ::
  "hardware \<Rightarrow> streamer_map \<Rightarrow> csr_state \<Rightarrow> u32 \<times> csr_state" where
  "read_versacore_streamer_perf_counter hw m = csrr_ss hw (STREAMER_PERFORMANCE_COUNTER_CSR m)"

definition read_versacore_perf_counter ::
  "hardware \<Rightarrow> streamer_map \<Rightarrow> csr_state \<Rightarrow> u32 \<times> csr_state" where
  "read_versacore_perf_counter hw m = csrr_ss hw (VC_PERFORMANCE_COUNTER m)"

text \<open>The checker's loops run to a signed bound.\<close>

definition check_versacore_result_D32 ::
  "(int \<Rightarrow> u8) \<Rightarrow> (int \<Rightarrow> u8) \<Rightarrow> i32 \<Rightarrow> bool \<Rightarrow> u32" where
  "check_versacore_result_D32 output golden data_length banked =
     (if banked then count_banked 64 16 (nat (sint data_length) div 16) output golden
      else count_linear (nat (sint data_length)) output golden)"

section \<open>Lemmas\<close>

lemma map_fst_set_streams:
  "length ps = length xs \<Longrightarrow>
    map fst (set_streams m al ps xs) = concat (map (\<lambda>p. port_addrs (regs_of m p)) ps)"
  unfolding set_streams_def
  by (induction ps xs rule: list_induct2) simp_all

lemma set_streams_subset:
  "i < length ps \<Longrightarrow> length ps = length xs \<Longrightarrow>
    set (channel_operand_writes m al (ps ! i) (xs ! i)) \<subseteq> set (set_streams m al ps xs)"
  unfolding set_streams_def by (auto simp: set_zip intro!: exI [of _ i] bexI [of _ "(ps ! i, xs ! i)"])

text \<open>A port that has all its registers written.\<close>

definition port_holds :: "streamer_map \<Rightarrow> allocators \<Rightarrow> port \<Rightarrow> operand \<Rightarrow> (u32 \<Rightarrow> u32) \<Rightarrow> bool" where
  "port_holds m al p x f \<longleftrightarrow>
     port_cfg (regs_of m p) f = args_cfg (regs_of m p) (operand_args al x) \<and>
     (case addr_remap_index (regs_of m p) of None \<Rightarrow> True | Some a \<Rightarrow> f a = set_addr_remap_index x) \<and>
     (case enabled_channel (regs_of m p) of None \<Rightarrow> True
      | Some (a, n) \<Rightarrow> block_values f a n = map (channel_en x) [0..<n])"

lemma port_holds_written:
  assumes "distinct (map fst ws)" and "list_all ss_reg (map fst ws)"
    and "set (channel_operand_writes m al p x) \<subseteq> set ws"
  shows "port_holds m al p x (csr_file (csrw_sss ws s))"
proof -
  have op: "set (operand_writes m al p x) \<subseteq> set ws"
    using assms(3) loop_writes_subset(2) by blast
  note val = csrw_sss_value [OF assms(1,2)]
  have "csr_file (csrw_sss ws s) a = set_addr_remap_index x"
    if "addr_remap_index (regs_of m p) = Some a" for a
    using op that by (intro val) (auto simp: operand_writes_def remap_writes_def)
  moreover have "block_values (csr_file (csrw_sss ws s)) a n = map (channel_en x) [0..<n]"
    if "enabled_channel (regs_of m p) = Some (a, n)" for a n
    using assms(3) that
    by (intro block_values_written val) (auto simp: channel_operand_writes_def channel_writes_def)
  ultimately show ?thesis
    using operand_configured [OF assms(1,2) op]
    by (simp add: port_holds_def split: option.split)
qed

lemma streams_hold:
  assumes "distinct (map fst ws)" and "list_all ss_reg (map fst ws)"
    and "set (set_streams m al ps xs) \<subseteq> set ws" and "length ps = length xs"
  shows "list_all2 (\<lambda>p x. port_holds m al p x (csr_file (csrw_sss ws s))) ps xs"
  unfolding list_all2_conv_all_nth
proof (intro conjI allI impI)
  fix i
  assume "i < length ps"
  then have "set (channel_operand_writes m al (ps ! i) (xs ! i)) \<subseteq> set ws"
    using set_streams_subset [of i ps xs m al] assms(3,4) by blast
  then show "port_holds m al (ps ! i) (xs ! i) (csr_file (csrw_sss ws s))"
    by (rule port_holds_written [OF assms(1,2)])
qed (rule assms(4))

lemma ext_written:
  assumes "distinct (map fst ws)" and "list_all ss_reg (map fst ws)"
    and "set (ext_writes m p vs) \<subseteq> set ws" and "ext_csr_base m p = Some a"
  shows "block_values (csr_file (csrw_sss ws s)) a (length vs) = vs"
proof -
  have "block_values (csr_file (csrw_sss ws s)) a (length vs) = map (nth vs) [0..<length vs]"
    using assms(3,4) by (intro block_values_written csrw_sss_value [OF assms(1,2)])
      (auto simp: ext_writes_def)
  then show ?thesis by (simp add: map_nth)
qed

text \<open>The two flags of a reader's extension are separate bits.\<close>

lemma reader_ext_cfg_bits:
  "bit (reader_ext_cfg t i) n \<longleftrightarrow> (n = 0 \<and> bit i 0) \<or> (n = 1 \<and> bit t 0)"
proof -
  have one: "bit (x AND 1) k \<longleftrightarrow> k = 0 \<and> bit x 0" for x :: u32 and k
    by (auto simp: bit_simps)
  have "bit (reader_ext_cfg t i) n \<longleftrightarrow> 1 \<le> n \<and> n < 32 \<and> n - 1 = 0 \<and> bit t 0 \<or> n = 0 \<and> bit i 0"
    by (simp only: reader_ext_cfg_def bit_or_iff bit_push_bit_iff one possible_bit_word word_size) auto
  then show ?thesis by (cases n) auto
qed

text \<open>The registers each library's stream configuration writes.\<close>

definition streams_addrs :: "streamer_map \<Rightarrow> port list \<Rightarrow> u32 list" where
  "streams_addrs m ps = concat (map (\<lambda>p. port_addrs (regs_of m p)) ps)"

definition versacore_addrs :: "streamer_map \<Rightarrow> u32 list" where
  "versacore_addrs m = streams_addrs m os_ports @
     ext_addrs m (Reader 0) 2 @ ext_addrs m (Reader 1) 2 @ ext_addrs m (Reader_Writer 1) 7"

definition dse_addrs :: "bool \<Rightarrow> streamer_map \<Rightarrow> u32 list" where
  "dse_addrs os m = streams_addrs m (if os then os_ports else reader_ports) @
     ext_addrs m (Reader 0) 1 @ ext_addrs m (Reader 1) 1"

lemma map_fst_versacore [simp]:
  "map fst (set_versacore_streamer_csr m al A B C D tA tB iA iB q) = versacore_addrs m"
  "map fst (set_dse_streamer_csr os m al A B C D tA tB) = dse_addrs os m"
  by (simp_all add: set_versacore_streamer_csr_def set_dse_streamer_csr_def
    set_versacore_os_streams_def set_versacore_reader_streams_def set_versacore_extensions_def
    set_dse_extensions_def versacore_addrs_def dse_addrs_def streams_addrs_def
    map_fst_set_streams os_ports_def reader_ports_def eval_nat_numeral)

text \<open>The streams of versacore-dse, in both variants.\<close>

lemma dse_streams_configured:
  assumes "distinct (dse_addrs os m)" and "list_all ss_reg (dse_addrs os m)"
  shows "list_all2 (\<lambda>p x. port_holds m al p x
      (csr_file (csrw_sss (set_dse_streamer_csr os m al A B C D tA tB) s)))
    (if os then os_ports else reader_ports) [A, B, C, D]"
proof (rule streams_hold)
  show "distinct (map fst (set_dse_streamer_csr os m al A B C D tA tB))"
    "list_all ss_reg (map fst (set_dse_streamer_csr os m al A B C D tA tB))"
    using assms by simp_all
qed (auto simp: set_dse_streamer_csr_def set_versacore_os_streams_def
      set_versacore_reader_streams_def os_ports_def reader_ports_def)

text \<open>Waiting for the array alone.\<close>

lemma wait_versacore_returns:
  assumes "\<And>k. hw k (VC_BUSY m) = Some (b k)" and "\<forall>k \<ge> T. b k = 0"
    and "ss_reg (VC_START m)" "ss_reg (VC_BUSY m)"
  shows "\<exists>n. wait_versacore hw m s =
      Some ((csr_tick ^^ Suc n) (write_csrs [(VC_START m, 0), (VC_START m, 0)] s)) \<and>
    b (csr_now s + 2 + n) = 0"
proof -
  let ?s = "write_csrs [(VC_START m, 0), (VC_START m, 0)] s"
  have ws: "csrw_sss [(VC_START m, 0), (VC_START m, 0)] s = ?s" using assms(3) by (simp add: csrw_ss_eq)
  have "csr_now ?s = csr_now s + 2" by simp
  then show ?thesis
    using csr_poll_eventually [where P = "\<lambda>v. v = 0" and s = ?s and hw = hw and b = b, OF assms(1,2)]
    unfolding wait_versacore_def ws csrr_poll_eq [OF assms(4)] by metis
qed

section \<open>Properties\<close>

text \<open>
  After the stream configuration of versacore-to every one of the four ports holds its
  pointer, strides, bounds, remap index and channel enables, and the extensions hold their
  settings: transposition and 4-bit mode in separate bits beside the array shape, and the seven
  settings of the output conversion, the last two of which are 1 for array shape 4 only. The
  registers must be distinct and known to the switch.
\<close>

theorem versacore_streams_configured:
  assumes "distinct (versacore_addrs m)" and "list_all ss_reg (versacore_addrs m)"
    and "ext_csr_base m (Reader 0) = Some a" and "ext_csr_base m (Reader_Writer 1) = Some c"
    and "f = csr_file (csrw_sss (set_versacore_streamer_csr m al A B C D tA tB iA iB q) s)"
  shows "list_all2 (\<lambda>p x. port_holds m al p x f) os_ports [A, B, C, D] \<and>
    (bit (f a) n \<longleftrightarrow> (n = 0 \<and> bit iA 0) \<or> (n = 1 \<and> bit tA 0)) \<and> f (a + 1) = array_shape q \<and>
    block_values f c 7 = [push_bit 1 (int32tofp16_enable q) OR quantization_enable q, input_zp_i q,
      multiplier_i q, output_zp_i q, shift_i q, of_bool (array_shape q = 4), of_bool (array_shape q = 4)]"
proof -
  let ?ws = "set_versacore_streamer_csr m al A B C D tA tB iA iB q"
  have d: "distinct (map fst ?ws)" "list_all ss_reg (map fst ?ws)" using assms(1,2) by simp_all
  have "list_all2 (\<lambda>p x. port_holds m al p x f) os_ports [A, B, C, D]"
    unfolding assms(5)
    by (rule streams_hold [OF d])
      (auto simp: set_versacore_streamer_csr_def set_versacore_os_streams_def os_ports_def)
  moreover have "block_values f a (length [reader_ext_cfg tA iA, array_shape q]) =
      [reader_ext_cfg tA iA, array_shape q]"
    unfolding assms(5)
    by (rule ext_written [OF d _ assms(3)])
      (auto simp: set_versacore_streamer_csr_def set_versacore_extensions_def)
  then have "f a = reader_ext_cfg tA iA" "f (a + 1) = array_shape q"
    by (simp_all add: block_values_def block_addrs_def)
  moreover
  let ?vs = "[push_bit 1 (int32tofp16_enable q) OR quantization_enable q, input_zp_i q,
    multiplier_i q, output_zp_i q, shift_i q, if array_shape q = 4 then 1 else 0,
    if array_shape q = 4 then 1 else 0]"
  have "block_values f c (length ?vs) = ?vs"
    unfolding assms(5)
    by (rule ext_written [OF d _ assms(4)])
      (auto simp: set_versacore_streamer_csr_def set_versacore_extensions_def)
  then have "block_values f c 7 = ?vs" by (simp add: eval_nat_numeral)
  ultimately show ?thesis by (simp add: reader_ext_cfg_bits)
qed

text \<open>An address map as the generator lays it out.\<close>

definition versacore_example_regs :: "port \<Rightarrow> port_regs" where
  "versacore_example_regs p = (case p of
     Reader i \<Rightarrow> gen_csr_map (if i = 0 then 960 else 977) 1 6 True 1
   | Writer i \<Rightarrow> gen_csr_map 0 0 0 False 0
   | Reader_Writer i \<Rightarrow> gen_csr_map (if i = 0 then 994 else 1007) 2 4 False 1)"

definition versacore_example_map :: streamer_map where
  "versacore_example_map = \<lparr>regs_of = versacore_example_regs,
     ext_csr_base = (\<lambda>p. case p of Reader i \<Rightarrow> Some (if i = 0 then 1020 else 1022)
       | Reader_Writer i \<Rightarrow> if i = 1 then Some 1024 else None | Writer i \<Rightarrow> None),
     DELAYED_START_READER = (\<lambda>_. 0), STREAMER_START_CSR = 1031, STREAMER_BUSY_CSR = 1032,
     STREAMER_PERFORMANCE_COUNTER_CSR = 1033\<rparr>"

lemma versacore_example_addrs:
  "versacore_addrs versacore_example_map = map word_of_nat
     ((960 # [962..<977]) @ (977 # [979..<994]) @ (994 # [996..<1007]) @ (1007 # [1009..<1020]) @
      [1020, 1021, 1022, 1023] @ [1024..<1031])"
proof -
  have "block_addrs 1024 7 = map word_of_nat [1024..<1031]"
    using block_addrs_of_nat [of 1024 7] by simp
  then show ?thesis
    by (simp add: versacore_addrs_def streams_addrs_def os_ports_def versacore_example_map_def
      versacore_example_regs_def ext_addrs_def block_addrs_small gen_port_addrs gen_csr_num_def
      del: upt_rec_numeral append_assoc)
qed

lemma versacore_example_ok:
  "distinct (versacore_addrs versacore_example_map)"
  "list_all ss_reg (versacore_addrs versacore_example_map)"
  unfolding versacore_example_addrs
  by (rule distinct_word_of_nat, simp, simp, rule ss_regs_word_of_nat, simp)

definition example_rescale :: rescale_args where
  "example_rescale = \<lparr>array_shape = 4, quantization_enable = 1, shift_i = 9, multiplier_i = 77,
     input_zp_i = 3, output_zp_i = 5, int32tofp16_enable = 1\<rparr>"

theorem versacore_streams_configured_witness:
  "let m = versacore_example_map; x = example_operand; f = csr_file (csrw_sss
     (set_versacore_streamer_csr m example_allocators (x 0) (x 64) (x 128) (x 192) 1 0 0 0
        example_rescale) csr_reset)
   in port_holds m example_allocators (Reader_Writer 1) (x 192) f \<and> f 1021 = 4 \<and>
      block_values f 1024 7 = [3, 3, 77, 5, 9, 1, 1]"
  using versacore_streams_configured [where m = versacore_example_map and al = example_allocators
    and A = "example_operand 0" and B = "example_operand 64" and C = "example_operand 128"
    and D = "example_operand 192" and tA = 1 and tB = 0 and iA = 0 and iB = 0
    and q = example_rescale and s = csr_reset and a = 1020 and c = 1024,
    OF versacore_example_ok _ _ refl]
  by (simp add: Let_def versacore_example_map_def os_ports_def example_rescale_def)

text \<open>
  The checker compares bytes one by one, but in the banked layout with the strides of words:
  of every 64 bytes of the result it looks at the first 16 only, whatever the other bytes hold, and
  it counts the mismatches with consecutive bytes of the reference. The linear comparison is exact.
\<close>

theorem versacore_banked_check_skips:
  assumes "n = nat (sint len)" and "n < 2 ^ 29"
  shows "unat (check_versacore_result_D32 out golden len False) =
      card {k. k < n \<and> out (int k) \<noteq> golden (int k)} \<and>
    unat (check_versacore_result_D32 out golden len True) =
      card {k. k < n div 16 * 16 \<and> out (int (k div 16 * 64 + k mod 16)) \<noteq> golden (int k)} \<and>
    ((\<forall>k. k mod 64 < 16 \<longrightarrow> out' k = out k) \<longrightarrow>
      check_versacore_result_D32 out' golden len True = check_versacore_result_D32 out golden len True)"
proof -
  have "n div 16 * 64 \<le> 4 * n" by simp
  with assms(2) have b: "n < 2 ^ 31" "n div 16 * 64 < 2 ^ 31" by simp_all
  have lin: "unat (check_versacore_result_D32 out golden len False) =
      card {k. k < n \<and> out (int k) \<noteq> golden (int k)}"
    by (simp only: check_versacore_result_D32_def if_False assms(1) [symmetric]
      unat_count_linear [OF b(1)])
  have ban: "unat (check_versacore_result_D32 o2 golden len True) =
      card {k. k < n div 16 * 16 \<and> o2 (int (k div 16 * 64 + k mod 16)) \<noteq> golden (int k)}" for o2
    unfolding check_versacore_result_D32_def if_True assms(1) [symmetric]
    by (rule unat_count_banked [OF _ _ b(2)]) simp_all
  have "check_versacore_result_D32 out' golden len True = check_versacore_result_D32 out golden len True"
    if same: "\<forall>k. k mod 64 < 16 \<longrightarrow> out' k = out k"
  proof -
    have "int (k div 16 * 64 + k mod 16) mod 64 < 16" for k
    proof -
      have "int (k div 16 * 64 + k mod 16) mod 64 = int ((k div 16 * 64 + k mod 16) mod 64)"
        by (simp only: of_nat_mod of_nat_numeral)
      also have "(k div 16 * 64 + k mod 16) mod 64 = k mod 16"
        by (simp only: mod_mult_self3) simp
      finally show ?thesis by simp
    qed
    with same have "out' (int (k div 16 * 64 + k mod 16)) = out (int (k div 16 * 64 + k mod 16))" for k
      by blast
    then show ?thesis
      by (intro word_unat_eq_iff [THEN iffD2]) (simp only: ban)
  qed
  with lin ban show ?thesis by blast
qed

theorem versacore_banked_check_skips_witness:
  "check_versacore_result_D32 (\<lambda>k. if k = 16 then 7 else 0) (\<lambda>_. 0) 64 True =
     check_versacore_result_D32 (\<lambda>_. 0) (\<lambda>_. 0) 64 True"
  using versacore_banked_check_skips [where n = 64 and len = 64 and golden = "\<lambda>_. 0"
    and out = "\<lambda>_. 0" and out' = "\<lambda>k. if k = 16 then 7 else 0"]
  by simp

end
