(* ===== verification/Hypercorex.thy ===== *)
theory Hypercorex
  imports Gemm
begin

unbundle bit_operations_syntax

text \<open>
  The driver of the HyperCoreX accelerator (target/snitch_cluster/sw/snax/hypercorex), a
  processor for hyperdimensional computing with its own instruction memory, hardware loops and
  seven streams: five readers and two writers.
\<close>

section \<open>Streams\<close>

text \<open>The eleven arguments of the stream functions.\<close>

record hypercorex_stream =
  hc_ptr_low :: u32
  hc_ptr_high :: u32
  spat_stride :: u32
  loop_bound_0 :: u32
  loop_bound_1 :: u32
  loop_bound_2 :: u32
  loop_bound_3 :: u32
  temp_stride_0 :: u32
  temp_stride_1 :: u32
  temp_stride_2 :: u32
  temp_stride_3 :: u32

text \<open>\<open>T_BOUND_READER_0_1\<close> is the register after \<open>T_BOUND_READER_0_0\<close>, and so on.\<close>

definition hypercorex_stream_writes :: "port_regs \<Rightarrow> hypercorex_stream \<Rightarrow> (u32 \<times> u32) list" where
  "hypercorex_stream_writes r x =
     [(base_ptr_low r, hc_ptr_low x), (base_ptr_high r, hc_ptr_high x),
      (s_stride_base r, spat_stride x),
      (t_bound_base r, loop_bound_0 x), (t_bound_base r + 1, loop_bound_1 x),
      (t_bound_base r + 2, loop_bound_2 x), (t_bound_base r + 3, loop_bound_3 x),
      (t_stride_base r, temp_stride_0 x), (t_stride_base r + 1, temp_stride_1 x),
      (t_stride_base r + 2, temp_stride_2 x), (t_stride_base r + 3, temp_stride_3 x)]"

type_synonym stream_setter = "streamer_map \<Rightarrow> hypercorex_stream \<Rightarrow> csr_state \<Rightarrow> csr_state"

definition hypercorex_set_streamer_lowdim_a :: stream_setter where
  "hypercorex_set_streamer_lowdim_a m x =
     csrw_sss (hypercorex_stream_writes (regs_of m (Reader 0)) x)"

definition hypercorex_set_streamer_lowdim_b :: stream_setter where
  "hypercorex_set_streamer_lowdim_b m x =
     csrw_sss (hypercorex_stream_writes (regs_of m (Reader 1)) x)"

definition hypercorex_set_streamer_highdim_a :: stream_setter where
  "hypercorex_set_streamer_highdim_a m x =
     csrw_sss (hypercorex_stream_writes (regs_of m (Reader 2)) x)"

definition hypercorex_set_streamer_highdim_b :: stream_setter where
  "hypercorex_set_streamer_highdim_b m x =
     csrw_sss (hypercorex_stream_writes (regs_of m (Reader 3)) x)"

definition hypercorex_set_streamer_highdim_am :: stream_setter where
  "hypercorex_set_streamer_highdim_am m x =
     csrw_sss (hypercorex_stream_writes (regs_of m (Reader 4)) x)"

definition hypercorex_set_streamer_lowdim_predict :: stream_setter where
  "hypercorex_set_streamer_lowdim_predict m x =
     csrw_sss (hypercorex_stream_writes (regs_of m (Writer 0)) x)"

definition hypercorex_set_streamer_highdim_qhv :: stream_setter where
  "hypercorex_set_streamer_highdim_qhv m x =
     csrw_sss (hypercorex_stream_writes (regs_of m (Writer 1)) x)"

definition hypercorex_start_streamer :: "streamer_map \<Rightarrow> csr_state \<Rightarrow> csr_state" where
  "hypercorex_start_streamer m = csrw_ss (STREAMER_START_CSR m) 1"

definition hypercorex_is_streamer_busy ::
  "hardware \<Rightarrow> streamer_map \<Rightarrow> csr_state \<Rightarrow> u32 \<times> csr_state" where
  "hypercorex_is_streamer_busy hw m = csrr_ss hw (STREAMER_BUSY_CSR m)"

definition hypercorex_read_perf_counter ::
  "hardware \<Rightarrow> streamer_map \<Rightarrow> csr_state \<Rightarrow> u32 \<times> csr_state" where
  "hypercorex_read_perf_counter hw m = csrr_ss hw (STREAMER_PERFORMANCE_COUNTER_CSR m)"

section \<open>The accelerator\<close>

datatype hypercorex_reg = CORE_SET | AM_NUM_PREDICT | AM_PREDICT | INST_CTRL | INST_WRITE_ADDR
  | INST_WRITE_DATA | INST_RDDBG_ADDR | INST_PC_ADDR | INST_INST_AT_ADDR_ADDR | INST_LOOP_CTRL
  | INST_LOOP_JUMP_ADDR | INST_LOOP_END_ADDR | INST_LOOP_COUNT1 | INST_LOOP_COUNT2
  | DATA_SLICE_CTRL | DATA_SLICE_NUM_ELEM_A | DATA_SLICE_NUM_ELEM_B | AUTO_COUNTER_START_A
  | AUTO_COUNTER_START_B | AUTO_COUNTER_NUM_A | AUTO_COUNTER_NUM_B | OBSERVABLE_REG_DATA

fun hypercorex_offset :: "hypercorex_reg \<Rightarrow> u32" where
  "hypercorex_offset CORE_SET = 0"
| "hypercorex_offset AM_NUM_PREDICT = 1"
| "hypercorex_offset AM_PREDICT = 2"
| "hypercorex_offset INST_CTRL = 3"
| "hypercorex_offset INST_WRITE_ADDR = 4"
| "hypercorex_offset INST_WRITE_DATA = 5"
| "hypercorex_offset INST_RDDBG_ADDR = 6"
| "hypercorex_offset INST_PC_ADDR = 7"
| "hypercorex_offset INST_INST_AT_ADDR_ADDR = 8"
| "hypercorex_offset INST_LOOP_CTRL = 9"
| "hypercorex_offset INST_LOOP_JUMP_ADDR = 10"
| "hypercorex_offset INST_LOOP_END_ADDR = 11"
| "hypercorex_offset INST_LOOP_COUNT1 = 12"
| "hypercorex_offset INST_LOOP_COUNT2 = 13"
| "hypercorex_offset DATA_SLICE_CTRL = 14"
| "hypercorex_offset DATA_SLICE_NUM_ELEM_A = 15"
| "hypercorex_offset DATA_SLICE_NUM_ELEM_B = 16"
| "hypercorex_offset AUTO_COUNTER_START_A = 17"
| "hypercorex_offset AUTO_COUNTER_START_B = 18"
| "hypercorex_offset AUTO_COUNTER_NUM_A = 19"
| "hypercorex_offset AUTO_COUNTER_NUM_B = 20"
| "hypercorex_offset OBSERVABLE_REG_DATA = 21"

definition HYPERCOREX_CSR_OFFSET :: "streamer_map \<Rightarrow> u32" where
  "HYPERCOREX_CSR_OFFSET m = STREAMER_PERFORMANCE_COUNTER_CSR m + 1"

definition hypercorex_csr :: "streamer_map \<Rightarrow> hypercorex_reg \<Rightarrow> u32" where
  "hypercorex_csr m r = HYPERCOREX_CSR_OFFSET m + hypercorex_offset r"

definition hypercorex_load_inst ::
  "streamer_map \<Rightarrow> u32 \<Rightarrow> u32 \<Rightarrow> (nat \<Rightarrow> u32) \<Rightarrow> csr_state \<Rightarrow> csr_state" where
  "hypercorex_load_inst m inst_size start_addr inst_list s =
     csrw_ss (hypercorex_csr m INST_CTRL) 4
       (for_up 0 (unat inst_size) (\<lambda>i. csrw_ss (hypercorex_csr m INST_WRITE_DATA) (inst_list i))
         (csrw_ss (hypercorex_csr m INST_WRITE_ADDR) start_addr
           (csrw_ss (hypercorex_csr m INST_CTRL) 1 s)))"

text \<open>Four bytes, or two halves, in one word.\<close>

definition pack_bytes :: "u8 \<Rightarrow> u8 \<Rightarrow> u8 \<Rightarrow> u8 \<Rightarrow> u32" where
  "pack_bytes config1 config2 config3 config4 =
     push_bit 24 (ucast config4 AND 0xff) OR push_bit 16 (ucast config3 AND 0xff) OR
     push_bit 8 (ucast config2 AND 0xff) OR (ucast config1 AND 0xff)"

definition pack_halves :: "u16 \<Rightarrow> u16 \<Rightarrow> u32" where
  "pack_halves lo hi = push_bit 16 (ucast hi AND 0xffff) OR (ucast lo AND 0xffff)"

definition hypercorex_set_inst_loop_jump_addr ::
  "streamer_map \<Rightarrow> u8 \<Rightarrow> u8 \<Rightarrow> u8 \<Rightarrow> u8 \<Rightarrow> csr_state \<Rightarrow> csr_state" where
  "hypercorex_set_inst_loop_jump_addr m c1 c2 c3 c4 =
     csrw_ss (hypercorex_csr m INST_LOOP_JUMP_ADDR) (pack_bytes c1 c2 c3 c4)"

definition hypercorex_set_inst_loop_end_addr ::
  "streamer_map \<Rightarrow> u8 \<Rightarrow> u8 \<Rightarrow> u8 \<Rightarrow> u8 \<Rightarrow> csr_state \<Rightarrow> csr_state" where
  "hypercorex_set_inst_loop_end_addr m c1 c2 c3 c4 =
     csrw_ss (hypercorex_csr m INST_LOOP_END_ADDR) (pack_bytes c1 c2 c3 c4)"

definition hypercorex_set_inst_loop_count ::
  "streamer_map \<Rightarrow> u16 \<Rightarrow> u16 \<Rightarrow> u16 \<Rightarrow> u16 \<Rightarrow> csr_state \<Rightarrow> csr_state" where
  "hypercorex_set_inst_loop_count m c1 c2 c3 c4 =
     csrw_sss [(hypercorex_csr m INST_LOOP_COUNT1, pack_halves c1 c2),
       (hypercorex_csr m INST_LOOP_COUNT2, pack_halves c3 c4)]"

definition hypercorex_start_core :: "streamer_map \<Rightarrow> csr_state \<Rightarrow> csr_state" where
  "hypercorex_start_core m = csrw_ss (hypercorex_csr m CORE_SET) 1"

definition hypercorex_is_core_busy ::
  "hardware \<Rightarrow> streamer_map \<Rightarrow> csr_state \<Rightarrow> u32 \<times> csr_state" where
  "hypercorex_is_core_busy hw m = csrr_ss hw (hypercorex_csr m CORE_SET)"

definition slice_config :: "u8 \<Rightarrow> u8 \<Rightarrow> u8 \<Rightarrow> u8 \<Rightarrow> u32" where
  "slice_config slice_ctrl_a slice_ctrl_b slice_src_a slice_src_b =
     push_bit 5 (ucast slice_src_b AND 1) OR push_bit 4 (ucast slice_src_a AND 1) OR
     push_bit 2 (ucast slice_ctrl_b AND 3) OR (ucast slice_ctrl_a AND 3)"

definition hypercorex_set_data_slice_ctrl ::
  "streamer_map \<Rightarrow> u8 \<Rightarrow> u8 \<Rightarrow> u8 \<Rightarrow> u8 \<Rightarrow> csr_state \<Rightarrow> csr_state" where
  "hypercorex_set_data_slice_ctrl m ctrl_a ctrl_b src_a src_b =
     csrw_ss (hypercorex_csr m DATA_SLICE_CTRL) (slice_config ctrl_a ctrl_b src_a src_b)"

definition hypercorex_set_data_slice_num_elem_a :: "streamer_map \<Rightarrow> u32 \<Rightarrow> csr_state \<Rightarrow> csr_state" where
  "hypercorex_set_data_slice_num_elem_a m v = csrw_ss (hypercorex_csr m DATA_SLICE_NUM_ELEM_A) v"

definition hypercorex_set_data_slice_num_elem_b :: "streamer_map \<Rightarrow> u32 \<Rightarrow> csr_state \<Rightarrow> csr_state" where
  "hypercorex_set_data_slice_num_elem_b m v = csrw_ss (hypercorex_csr m DATA_SLICE_NUM_ELEM_B) v"

definition hypercorex_set_auto_counter_start_a :: "streamer_map \<Rightarrow> u32 \<Rightarrow> csr_state \<Rightarrow> csr_state" where
  "hypercorex_set_auto_counter_start_a m v = csrw_ss (hypercorex_csr m AUTO_COUNTER_START_A) v"

definition hypercorex_set_auto_counter_start_b :: "streamer_map \<Rightarrow> u32 \<Rightarrow> csr_state \<Rightarrow> csr_state" where
  "hypercorex_set_auto_counter_start_b m v = csrw_ss (hypercorex_csr m AUTO_COUNTER_START_B) v"

definition hypercorex_set_auto_counter_num_a :: "streamer_map \<Rightarrow> u32 \<Rightarrow> csr_state \<Rightarrow> csr_state" where
  "hypercorex_set_auto_counter_num_a m v = csrw_ss (hypercorex_csr m AUTO_COUNTER_NUM_A) v"

definition hypercorex_set_auto_counter_num_b :: "streamer_map \<Rightarrow> u32 \<Rightarrow> csr_state \<Rightarrow> csr_state" where
  "hypercorex_set_auto_counter_num_b m v = csrw_ss (hypercorex_csr m AUTO_COUNTER_NUM_B) v"

section \<open>Lemmas\<close>

text \<open>The arguments in the form the address generation reads.\<close>

definition hypercorex_args :: "hypercorex_stream \<Rightarrow> stream_args" where
  "hypercorex_args x = \<lparr>arg_ptr = hc_ptr_low x, arg_ss = (\<lambda>_. spat_stride x),
     arg_tb = nth [loop_bound_0 x, loop_bound_1 x, loop_bound_2 x, loop_bound_3 x],
     arg_ts = nth [temp_stride_0 x, temp_stride_1 x, temp_stride_2 x, temp_stride_3 x]\<rparr>"

definition hypercorex_dims :: "port_regs \<Rightarrow> bool" where
  "hypercorex_dims r \<longleftrightarrow> s_stride_num r = 1 \<and> t_bound_num r = 4 \<and> t_stride_num r = 4"

definition hypercorex_addrs :: "port_regs \<Rightarrow> u32 list" where
  "hypercorex_addrs r = base_ptr_high r # stream_addrs r"

lemma upt_4: "[0..<4] = [0, 1, 2, 3]"
  by (simp add: upt_rec)

lemma hypercorex_writes_perm:
  assumes "hypercorex_dims r"
  shows "set (hypercorex_stream_writes r x) =
    set ((base_ptr_high r, hc_ptr_high x) # loop_writes r (hypercorex_args x))"
  using assms
  by (auto simp: hypercorex_dims_def loop_writes_def stream_writes_def hypercorex_args_def
    hypercorex_stream_writes_def csr_block_def upt_4 numeral_2_eq_2 numeral_3_eq_3)

lemma hypercorex_writes_distinct:
  assumes "hypercorex_dims r" and "distinct (hypercorex_addrs r)"
  shows "distinct (map fst (hypercorex_stream_writes r x))"
  using assms
  by (auto simp: hypercorex_dims_def hypercorex_addrs_def stream_addrs_def block_addrs_small
    hypercorex_stream_writes_def)

lemma hypercorex_writes_known:
  assumes "hypercorex_dims r" and "list_all ss_reg (hypercorex_addrs r)"
  shows "list_all ss_reg (map fst (hypercorex_stream_writes r x))"
  using assms
  by (auto simp: hypercorex_dims_def hypercorex_addrs_def stream_addrs_def block_addrs_small
    hypercorex_stream_writes_def)

definition hypercorex_ports :: "port list" where
  "hypercorex_ports = map Reader [0, 1, 2, 3, 4] @ map Writer [0, 1]"

definition hypercorex_setters ::
  "streamer_map \<Rightarrow> (port \<times> (hypercorex_stream \<Rightarrow> csr_state \<Rightarrow> csr_state)) list" where
  "hypercorex_setters m =
     [(Reader 0, hypercorex_set_streamer_lowdim_a m), (Reader 1, hypercorex_set_streamer_lowdim_b m),
      (Reader 2, hypercorex_set_streamer_highdim_a m), (Reader 3, hypercorex_set_streamer_highdim_b m),
      (Reader 4, hypercorex_set_streamer_highdim_am m),
      (Writer 0, hypercorex_set_streamer_lowdim_predict m),
      (Writer 1, hypercorex_set_streamer_highdim_qhv m)]"

lemma hypercorex_setters_writes:
  assumes "(p, setter) \<in> set (hypercorex_setters m)"
  shows "setter x s = csrw_sss (hypercorex_stream_writes (regs_of m p) x) s" and "p \<in> set hypercorex_ports"
  using assms
  by (auto simp: hypercorex_setters_def hypercorex_ports_def hypercorex_set_streamer_lowdim_a_def
    hypercorex_set_streamer_lowdim_b_def hypercorex_set_streamer_highdim_a_def
    hypercorex_set_streamer_highdim_b_def hypercorex_set_streamer_highdim_am_def
    hypercorex_set_streamer_lowdim_predict_def hypercorex_set_streamer_highdim_qhv_def)

text \<open>The fields of the packed words.\<close>

lemma pack_bytes_eq:
  "pack_bytes c1 c2 c3 c4 = push_bit 24 (ucast c4) OR push_bit 16 (ucast c3) OR push_bit 8 (ucast c2) OR
     ucast c1"
proof -
  have "(ucast c AND 0xff :: u32) = ucast c" for c :: u8
  proof (rule bit_word_eqI)
    fix n
    have "bit (0xff :: u32) n" if "n < 8"
      using that bit_mask_iff [of 8 n, where ?'a = "32 word"] by (simp add: mask_eq_exp_minus_1)
    then show "bit (ucast c AND 0xff :: u32) n = bit (ucast c :: u32) n"
      by (auto simp: bit_and_iff bit_ucast_iff dest: bit_imp_le_length)
  qed
  then show ?thesis by (simp only: pack_bytes_def)
qed

lemma pack_halves_fields:
  "ucast (pack_halves lo hi) = lo" "ucast (drop_bit 16 (pack_halves lo hi)) = hi"
proof -
  have m: "(ucast c AND 0xffff :: u32) = ucast c" for c :: u16
  proof (rule bit_word_eqI)
    fix n
    have "bit (0xffff :: u32) n" if "n < 16"
      using that bit_mask_iff [of 16 n, where ?'a = "32 word"] by (simp add: mask_eq_exp_minus_1)
    then show "bit (ucast c AND 0xffff :: u32) n = bit (ucast c :: u32) n"
      by (auto simp: bit_and_iff bit_ucast_iff dest: bit_imp_le_length)
  qed
  show "ucast (pack_halves lo hi) = lo" "ucast (drop_bit 16 (pack_halves lo hi)) = hi"
    unfolding pack_halves_def m
    by (rule bit_word_eqI, simp add: bit_simps bit_imp_le_length; fastforce dest: bit_imp_le_length)+
qed

lemma slice_config_fields:
  "slice_config ca cb sa sb AND 3 = ucast ca AND 3"
  "drop_bit 2 (slice_config ca cb sa sb) AND 3 = ucast cb AND 3"
  "drop_bit 4 (slice_config ca cb sa sb) AND 1 = ucast sa AND 1"
  "drop_bit 5 (slice_config ca cb sa sb) AND 1 = ucast sb AND 1"
proof -
  have three: "bit (3 :: u32) n \<longleftrightarrow> n < 2" and one: "bit (1 :: u32) n \<longleftrightarrow> n = 0" for n
    using bit_mask_iff [of 2 n, where ?'a = "32 word"] by (auto simp: mask_eq_exp_minus_1 bit_1_iff)
  show "slice_config ca cb sa sb AND 3 = ucast ca AND 3"
    "drop_bit 2 (slice_config ca cb sa sb) AND 3 = ucast cb AND 3"
    "drop_bit 4 (slice_config ca cb sa sb) AND 1 = ucast sa AND 1"
    "drop_bit 5 (slice_config ca cb sa sb) AND 1 = ucast sb AND 1"
    unfolding slice_config_def
    by (rule bit_word_eqI, (simp only: bit_and_iff bit_or_iff bit_push_bit_iff bit_drop_bit_eq comp_def
      three one possible_bit_word), fastforce)+
qed


text \<open>The registers of different ports.\<close>

definition hypercorex_all_addrs :: "streamer_map \<Rightarrow> u32 list" where
  "hypercorex_all_addrs m = concat (map (\<lambda>p. hypercorex_addrs (regs_of m p)) hypercorex_ports)"

lemma map_fst_hypercorex_writes:
  assumes "hypercorex_dims r"
  shows "set (map fst (hypercorex_stream_writes r x)) = set (hypercorex_addrs r)"
  using assms
  by (auto simp: hypercorex_dims_def hypercorex_addrs_def stream_addrs_def block_addrs_small
    hypercorex_stream_writes_def)

lemma distinct_concat_mem:
  "distinct (concat (map g ps)) \<Longrightarrow> p \<in> set ps \<Longrightarrow> distinct (g p)"
  by (induction ps) auto

lemma hypercorex_ports_known:
  assumes "list_all ss_reg (hypercorex_all_addrs m)" and "p \<in> set hypercorex_ports"
  shows "list_all ss_reg (hypercorex_addrs (regs_of m p))"
  using assms by (auto simp: hypercorex_all_addrs_def list_all_iff)

text \<open>An instruction memory that auto-increments its address takes the words one by one.\<close>

lemma for_up_writes:
  "ss_reg a \<Longrightarrow> for_up 0 n (\<lambda>i. csrw_ss a (vs i)) s = write_csrs (map (\<lambda>i. (a, vs i)) [0..<n]) s"
  by (induction n) (simp_all add: for_up_def csrw_ss_eq)

section \<open>Properties\<close>

text \<open>
  Each of the seven stream functions configures its own port and no other: afterwards the port
  holds pointer, stride, bounds and strides as given, the upper half of the pointer is in its
  register, and the configuration of the other six ports is what it was. The ports must have the
  dimensions the library assumes, and registers that are distinct and known to the switch.
\<close>

theorem hypercorex_setters_configure:
  assumes "(p, setter) \<in> set (hypercorex_setters m)"
    and "\<And>q. hypercorex_dims (regs_of m q)"
    and "distinct (hypercorex_all_addrs m)" and "list_all ss_reg (hypercorex_all_addrs m)"
  shows "port_cfg (regs_of m p) (csr_file (setter x s)) = args_cfg (regs_of m p) (hypercorex_args x) \<and>
    csr_file (setter x s) (base_ptr_high (regs_of m p)) = hc_ptr_high x \<and>
    map (\<lambda>q. port_cfg (regs_of m q) (csr_file (setter x s))) (remove1 p hypercorex_ports) =
      map (\<lambda>q. port_cfg (regs_of m q) (csr_file s)) (remove1 p hypercorex_ports)"
proof -
  let ?r = "regs_of m p"
  let ?ws = "hypercorex_stream_writes ?r x"
  have e: "setter x s = csrw_sss ?ws s" and p: "p \<in> set hypercorex_ports"
    using hypercorex_setters_writes [OF assms(1)] by blast+
  have d: "distinct (map fst ?ws)"
    using hypercorex_writes_distinct [OF assms(2)] p
      distinct_concat_mem [OF assms(3) [unfolded hypercorex_all_addrs_def]] by simp
  note k = hypercorex_writes_known [OF assms(2) hypercorex_ports_known [OF assms(4) p]]
  note perm = hypercorex_writes_perm [OF assms(2) [of p]]
  have "set (loop_writes ?r (hypercorex_args x)) \<subseteq> set ?ws" unfolding perm by auto
  then have "port_cfg ?r (csr_file (setter x s)) = args_cfg ?r (hypercorex_args x)"
    unfolding e by (rule csrw_sss_port_cfg [OF d k])
  moreover have "csr_file (setter x s) (base_ptr_high ?r) = hc_ptr_high x"
    unfolding e by (rule csrw_sss_value [OF d k]) (simp only: perm list.set_intros)
  moreover have "port_cfg (regs_of m q) (csr_file (setter x s)) = port_cfg (regs_of m q) (csr_file s)"
    if "q \<in> set (remove1 p hypercorex_ports)" for q
  proof (rule port_cfg_cong)
    fix y
    assume "y \<in> set (stream_addrs (regs_of m q))"
    moreover have "q \<in> set hypercorex_ports" "q \<noteq> p"
      using that by (auto simp: hypercorex_ports_def split: if_splits)
    ultimately have "y \<notin> set (hypercorex_addrs ?r)"
      using distinct_concat_disjoint [OF assms(3) [unfolded hypercorex_all_addrs_def] p, of q]
      by (auto simp: hypercorex_addrs_def)
    then have "y \<notin> fst ` set ?ws" using map_fst_hypercorex_writes [OF assms(2)] by simp
    then show "csr_file (setter x s) y = csr_file s y" unfolding e by (rule css.rd_writes_other)
  qed
  ultimately show ?thesis by simp
qed

text \<open>An address map as the generator lays it out, with its eleven registers per port.\<close>

definition hypercorex_example_map :: streamer_map where
  "hypercorex_example_map = \<lparr>regs_of = (\<lambda>p. case p of
       Reader i \<Rightarrow> gen_csr_map (960 + i * 11) 1 4 False 0
     | Writer i \<Rightarrow> gen_csr_map (1015 + i * 11) 1 4 False 0
     | Reader_Writer i \<Rightarrow> gen_csr_map 0 1 4 False 0),
     ext_csr_base = (\<lambda>_. None), DELAYED_START_READER = (\<lambda>_. 0), STREAMER_START_CSR = 1037,
     STREAMER_BUSY_CSR = 1038, STREAMER_PERFORMANCE_COUNTER_CSR = 1039\<rparr>"

lemma hypercorex_example_dims: "hypercorex_dims (regs_of hypercorex_example_map q)"
  by (simp add: hypercorex_dims_def hypercorex_example_map_def gen_csr_map_def split: port.split)

lemma hypercorex_gen_addrs:
  "hypercorex_addrs (gen_csr_map b 1 4 False 0) = map word_of_nat ((b + 1) # b # [b + 2..<b + 11])"
  using gen_stream_addrs [of b 1 4 False]
  by (simp add: hypercorex_addrs_def remap_addrs_def gen_csr_num_def)
    (simp add: gen_csr_map_def)

lemma hypercorex_example_addrs:
  "hypercorex_all_addrs hypercorex_example_map = map word_of_nat (concat (map
     (\<lambda>b. (b + 1) # b # [b + 2..<b + 11]) [960, 971, 982, 993, 1004, 1015, 1026]))"
  by (simp add: hypercorex_all_addrs_def hypercorex_ports_def hypercorex_example_map_def
    hypercorex_gen_addrs del: upt_rec_numeral One_nat_def)

lemma hypercorex_example_ok:
  "distinct (hypercorex_all_addrs hypercorex_example_map)"
  "list_all ss_reg (hypercorex_all_addrs hypercorex_example_map)"
  unfolding hypercorex_example_addrs
  by (rule distinct_word_of_nat, simp, simp, rule ss_regs_word_of_nat, simp)

definition example_stream :: hypercorex_stream where
  "example_stream = \<lparr>hc_ptr_low = 0x1000, hc_ptr_high = 0, spat_stride = 8, loop_bound_0 = 2,
     loop_bound_1 = 3, loop_bound_2 = 4, loop_bound_3 = 5, temp_stride_0 = 64, temp_stride_1 = 128,
     temp_stride_2 = 256, temp_stride_3 = 512\<rparr>"

theorem hypercorex_setters_configure_witness:
  "port_cfg (regs_of hypercorex_example_map (Writer 1)) (csr_file
     (hypercorex_set_streamer_highdim_qhv hypercorex_example_map example_stream csr_reset)) =
   \<lparr>agu_ptr = 0x1000, agu_spatial = [8], agu_bounds = [2, 3, 4, 5], agu_strides = [64, 128, 256, 512]\<rparr>"
proof -
  have "(Writer 1, hypercorex_set_streamer_highdim_qhv hypercorex_example_map)
      \<in> set (hypercorex_setters hypercorex_example_map)"
    by (simp add: hypercorex_setters_def)
  from hypercorex_setters_configure [OF this hypercorex_example_dims hypercorex_example_ok]
  have "port_cfg (regs_of hypercorex_example_map (Writer 1)) (csr_file
     (hypercorex_set_streamer_highdim_qhv hypercorex_example_map example_stream csr_reset)) =
     args_cfg (regs_of hypercorex_example_map (Writer 1)) (hypercorex_args example_stream)" by blast
  then show ?thesis
    using hypercorex_example_dims [of "Writer 1"]
    by (simp add: args_cfg_def hypercorex_args_def example_stream_def hypercorex_dims_def upt_4)
qed

text \<open>
  The hardware loops and the slice control keep every field: the registers hold the four jump
  addresses, the four end addresses, the four iteration counts and the four slice settings given,
  each in its own field. Addresses are kept with all 8 bits (the comment in the code speaks of
  7); the slice controls are reduced to two bits and the sources to one.
\<close>

theorem hypercorex_loop_fields:
  assumes "list_all ss_reg (map (hypercorex_csr m)
      [INST_LOOP_JUMP_ADDR, INST_LOOP_END_ADDR, INST_LOOP_COUNT1, INST_LOOP_COUNT2, DATA_SLICE_CTRL])"
    and "t = hypercorex_set_data_slice_ctrl m ca cb sa sb
      (hypercorex_set_inst_loop_count m n1 n2 n3 n4
        (hypercorex_set_inst_loop_end_addr m e1 e2 e3 e4
          (hypercorex_set_inst_loop_jump_addr m j1 j2 j3 j4 s)))"
    and "f = csr_file t"
  shows "map (\<lambda>n. ucast (drop_bit n (f (hypercorex_csr m INST_LOOP_JUMP_ADDR)))) [0, 8, 16, 24] =
      [j1, j2, j3, j4] \<and>
    map (\<lambda>n. ucast (drop_bit n (f (hypercorex_csr m INST_LOOP_END_ADDR)))) [0, 8, 16, 24] =
      [e1, e2, e3, e4] \<and>
    map (\<lambda>(r, n). ucast (drop_bit n (f (hypercorex_csr m r))))
      [(INST_LOOP_COUNT1, 0), (INST_LOOP_COUNT1, 16), (INST_LOOP_COUNT2, 0), (INST_LOOP_COUNT2, 16)] =
      [n1, n2, n3, n4] \<and>
    map (\<lambda>(n, k). drop_bit n (f (hypercorex_csr m DATA_SLICE_CTRL)) AND k)
      [(0, 3), (2, 3), (4, 1), (5, 1)] = [ucast ca AND 3, ucast cb AND 3, ucast sa AND 1, ucast sb AND 1]"
proof -
  have ne: "hypercorex_csr m r \<noteq> hypercorex_csr m r'" if "hypercorex_offset r \<noteq> hypercorex_offset r'" for r r'
    using that by (simp add: hypercorex_csr_def)
  have regs: "f (hypercorex_csr m INST_LOOP_JUMP_ADDR) = pack_bytes j1 j2 j3 j4"
    "f (hypercorex_csr m INST_LOOP_END_ADDR) = pack_bytes e1 e2 e3 e4"
    "f (hypercorex_csr m INST_LOOP_COUNT1) = pack_halves n1 n2"
    "f (hypercorex_csr m INST_LOOP_COUNT2) = pack_halves n3 n4"
    "f (hypercorex_csr m DATA_SLICE_CTRL) = slice_config ca cb sa sb"
    unfolding assms(2,3) using assms(1)
    by (simp_all add: hypercorex_set_data_slice_ctrl_def hypercorex_set_inst_loop_count_def
      hypercorex_set_inst_loop_end_addr_def hypercorex_set_inst_loop_jump_addr_def csrw_ss_eq ne)
  show ?thesis
    by (simp add: regs packed_bytes [OF pack_bytes_eq] pack_halves_fields slice_config_fields)
qed

theorem hypercorex_loop_fields_witness:
  "ucast (drop_bit 16 (csr_file (hypercorex_set_data_slice_ctrl hypercorex_example_map 1 2 0 1
      (hypercorex_set_inst_loop_count hypercorex_example_map 10 20 30 40
        (hypercorex_set_inst_loop_end_addr hypercorex_example_map 5 6 7 8
          (hypercorex_set_inst_loop_jump_addr hypercorex_example_map 1 2 3 4 csr_reset))))
      (hypercorex_csr hypercorex_example_map INST_LOOP_COUNT2))) = (40 :: u16)"
proof -
  have "list_all ss_reg (map (hypercorex_csr hypercorex_example_map)
      [INST_LOOP_JUMP_ADDR, INST_LOOP_END_ADDR, INST_LOOP_COUNT1, INST_LOOP_COUNT2, DATA_SLICE_CTRL])"
    by (simp add: hypercorex_csr_def HYPERCOREX_CSR_OFFSET_def hypercorex_example_map_def)
  from hypercorex_loop_fields [OF this refl refl, where ?n4.0 = 40]
  show ?thesis by simp
qed

text \<open>
  Loading a program switches the instruction memory to write mode, sets the start address once,
  writes the instructions in order to the data register, and leaves write mode: exactly these
  writes happen.
\<close>

theorem hypercorex_load_inst_trace:
  assumes "list_all ss_reg (map (hypercorex_csr m) [INST_CTRL, INST_WRITE_ADDR, INST_WRITE_DATA])"
  shows "csr_trace (hypercorex_load_inst m len start insts s) = csr_trace s @
     [(hypercorex_csr m INST_CTRL, 1), (hypercorex_csr m INST_WRITE_ADDR, start)] @
     map (\<lambda>i. (hypercorex_csr m INST_WRITE_DATA, insts i)) [0..<unat len] @
     [(hypercorex_csr m INST_CTRL, 4)]"
  using assms by (simp add: hypercorex_load_inst_def csrw_ss_eq for_up_writes)

theorem hypercorex_load_inst_trace_witness:
  "csr_trace (hypercorex_load_inst hypercorex_example_map 2 0 (nth [7, 8]) csr_reset) =
     [(1043, 1), (1044, 0), (1045, 7), (1045, 8), (1043, 4)]"
  by (subst hypercorex_load_inst_trace)
    (simp_all add: hypercorex_csr_def HYPERCOREX_CSR_OFFSET_def hypercorex_example_map_def csr_reset_def
      upt_rec)

end
