(* ===== verification/Accel.thy ===== *)
theory Accel
  imports Gemm
begin

unbundle bit_operations_syntax

text \<open>
  The small accelerators: the ALU (snax/snax-alu) with two readers and one writer, the data
  reshuffler (snax/data-reshuffler) with one reader and one writer, and the MAC engine (snax/mac),
  whose registers have fixed numbers. A memory buffer that the MAC code takes a pointer to is a
  function from the index.
\<close>

section \<open>The ALU\<close>

definition ALU_RW_MODE :: u32 where "ALU_RW_MODE = 978"
definition ALU_RW_DATALEN :: u32 where "ALU_RW_DATALEN = 979"
definition ALU_RW_START :: u32 where "ALU_RW_START = 980"
definition ALU_RO_BUSY :: u32 where "ALU_RO_BUSY = 981"
definition ALU_RO_PERF_COUNT :: u32 where "ALU_RO_PERF_COUNT = 982"

definition configure_streamer_a ::
  "streamer_map \<Rightarrow> u32 \<Rightarrow> u32 \<Rightarrow> u32 \<Rightarrow> u32 \<Rightarrow> u32 \<Rightarrow> (u32 \<times> u32) list" where
  "configure_streamer_a m base_low base_high spatial_stride temporal_bound temporal_stride =
     (let r = regs_of m (Reader 0) in
      [(base_ptr_low r, base_low), (base_ptr_high r, base_high), (s_stride_base r, spatial_stride),
       (t_bound_base r, temporal_bound), (t_stride_base r, temporal_stride)])"

definition configure_streamer_b ::
  "streamer_map \<Rightarrow> u32 \<Rightarrow> u32 \<Rightarrow> u32 \<Rightarrow> u32 \<Rightarrow> u32 \<Rightarrow> (u32 \<times> u32) list" where
  "configure_streamer_b m base_low base_high spatial_stride temporal_bound temporal_stride =
     (let r = regs_of m (Reader 1) in
      [(base_ptr_low r, base_low), (base_ptr_high r, base_high), (s_stride_base r, spatial_stride),
       (t_bound_base r, temporal_bound), (t_stride_base r, temporal_stride)])"

definition configure_streamer_o ::
  "streamer_map \<Rightarrow> u32 \<Rightarrow> u32 \<Rightarrow> u32 \<Rightarrow> u32 \<Rightarrow> u32 \<Rightarrow> (u32 \<times> u32) list" where
  "configure_streamer_o m base_low base_high spatial_stride temporal_bound temporal_stride =
     (let r = regs_of m (Writer 0) in
      [(base_ptr_low r, base_low), (base_ptr_high r, base_high), (s_stride_base r, spatial_stride),
       (t_bound_base r, temporal_bound), (t_stride_base r, temporal_stride)])"

definition alu_start_streamer :: "streamer_map \<Rightarrow> csr_state \<Rightarrow> csr_state" where
  "alu_start_streamer m = csrw_ss (STREAMER_START_CSR m) 1"

definition read_busy_streamer :: "hardware \<Rightarrow> streamer_map \<Rightarrow> csr_state \<Rightarrow> u32 \<times> csr_state" where
  "read_busy_streamer hw m = csrr_ss hw (STREAMER_BUSY_CSR m)"

definition configure_alu :: "u32 \<Rightarrow> u32 \<Rightarrow> csr_state \<Rightarrow> csr_state" where
  "configure_alu md data_len = csrw_sss [(ALU_RW_MODE, md), (ALU_RW_DATALEN, data_len)]"

definition start_alu :: "csr_state \<Rightarrow> csr_state" where
  "start_alu = csrw_ss ALU_RW_START 1"

definition read_busy_alu :: "hardware \<Rightarrow> csr_state \<Rightarrow> u32 \<times> csr_state" where
  "read_busy_alu hw = csrr_ss hw ALU_RO_BUSY"

section \<open>The data reshuffler\<close>

text \<open>The pointers are offsets from the next free L1 address; five input and three output loops.\<close>

definition set_data_reshuffler_csr ::
  "streamer_map \<Rightarrow> allocators \<Rightarrow> u32 list \<Rightarrow> u32 list \<Rightarrow> u32 \<Rightarrow> u32 list \<Rightarrow> u32 list \<Rightarrow> u32 \<Rightarrow>
    u32 \<Rightarrow> u32 \<Rightarrow> (u32 \<times> u32) list" where
  "set_data_reshuffler_csr m al tempLoop_in tempStride_in spatialStride1_in tempLoop_out
     tempStride_out spatialStride1_out delta_local_in delta_local_out =
     (let i = regs_of m (Reader 0); out = regs_of m (Writer 0) in
      [(base_ptr_low i, delta_local_in + snrt_l1_next al), (s_stride_base i, spatialStride1_in)] @
      csr_block (t_bound_base i) 5 (nth tempLoop_in) @
      csr_block (t_stride_base i) 5 (nth tempStride_in) @
      [(base_ptr_low out, delta_local_out + snrt_l1_next al), (s_stride_base out, spatialStride1_out)] @
      csr_block (t_bound_base out) 3 (nth tempLoop_out) @
      csr_block (t_stride_base out) 3 (nth tempStride_out))"

definition reshuffler_start_streamer :: "streamer_map \<Rightarrow> csr_state \<Rightarrow> csr_state" where
  "reshuffler_start_streamer m = csrw_ss (STREAMER_START_CSR m) 1"

definition reshuffler_wait_streamer :: "streamer_map \<Rightarrow> csr_state \<Rightarrow> csr_state" where
  "reshuffler_wait_streamer m = csrw_ss (STREAMER_START_CSR m) 0"

datatype reshuffler_reg = RESHUFFLER_SETTING | RESHUFFLER_START | RESHUFFLER_BUSY
  | RESHUFFLER_PERFORMANCE_COUNTER

fun reshuffler_offset :: "reshuffler_reg \<Rightarrow> u32" where
  "reshuffler_offset RESHUFFLER_SETTING = 0"
| "reshuffler_offset RESHUFFLER_START = 1"
| "reshuffler_offset RESHUFFLER_BUSY = 2"
| "reshuffler_offset RESHUFFLER_PERFORMANCE_COUNTER = 3"

definition reshuffler_csr :: "streamer_map \<Rightarrow> reshuffler_reg \<Rightarrow> u32" where
  "reshuffler_csr m r = STREAMER_PERFORMANCE_COUNTER_CSR m + 1 + reshuffler_offset r"

definition set_data_reshuffler :: "streamer_map \<Rightarrow> i32 \<Rightarrow> i32 \<Rightarrow> i32 \<Rightarrow> csr_state \<Rightarrow> csr_state" where
  "set_data_reshuffler m T2Len reduceLen opcode =
     csrw_ss (reshuffler_csr m RESHUFFLER_SETTING)
       (push_bit 8 T2Len OR push_bit 2 reduceLen OR opcode)"

definition start_data_reshuffler :: "streamer_map \<Rightarrow> csr_state \<Rightarrow> csr_state" where
  "start_data_reshuffler m = csrw_ss (reshuffler_csr m RESHUFFLER_START) 1"

definition wait_data_reshuffler :: "streamer_map \<Rightarrow> csr_state \<Rightarrow> csr_state" where
  "wait_data_reshuffler m = csrw_ss (reshuffler_csr m RESHUFFLER_START) 0"

definition read_data_reshuffler_perf_counter ::
  "hardware \<Rightarrow> streamer_map \<Rightarrow> csr_state \<Rightarrow> u32 \<times> csr_state" where
  "read_data_reshuffler_perf_counter hw m = csrr_ss hw (reshuffler_csr m RESHUFFLER_PERFORMANCE_COUNTER)"

definition test_a_chrunk_of_data :: "(nat \<Rightarrow> u8) \<Rightarrow> (nat \<Rightarrow> u8) \<Rightarrow> i32 \<Rightarrow> u32" where
  "test_a_chrunk_of_data base_local base_l2 len =
     count_fails (nat (sint len)) (\<lambda>i. base_local i = base_l2 i)"

section \<open>The MAC engine\<close>

definition simple_mult_mode :: u32 where "simple_mult_mode = 1"

definition snax_mac_launch :: "csr_state \<Rightarrow> csr_state" where
  "snax_mac_launch = write_csr 0x3c0 0"

definition snax_mac_sw_clear :: "csr_state \<Rightarrow> csr_state" where
  "snax_mac_sw_clear = write_csr 0x3c5 0"

definition snax_mac_sw_barrier :: "hardware \<Rightarrow> csr_state \<Rightarrow> csr_state option" where
  "snax_mac_sw_barrier hw s = map_option snax_mac_sw_clear (csr_poll hw 0x3c3 (\<lambda>v. v = 0) s)"

definition snax_mac_setup_simple_mult ::
  "u32 \<Rightarrow> u32 \<Rightarrow> u32 \<Rightarrow> u32 \<Rightarrow> (u32 \<times> u32) list" where
  "snax_mac_setup_simple_mult a b out vector_length =
     [(0x3d0, a), (0x3d1, b), (0x3d3, out), (0x3d4, 1), (0x3d5, vector_length),
      (0x3d6, simple_mult_mode)]"

definition cpu_simple_mult ::
  "(nat \<Rightarrow> u32) \<Rightarrow> (nat \<Rightarrow> u32) \<Rightarrow> u32 \<Rightarrow> (nat \<Rightarrow> u32) \<Rightarrow> nat \<Rightarrow> u32" where
  "cpu_simple_mult a b vector_length out = for_up 0 (unat vector_length) (\<lambda>i t. t(i := a i * b i)) out"

definition check_simple_mult :: "(nat \<Rightarrow> u32) \<Rightarrow> (nat \<Rightarrow> u32) \<Rightarrow> u32 \<Rightarrow> i32" where
  "check_simple_mult output output_golden vector_length =
     count_fails (unat vector_length) (\<lambda>i. output i = output_golden i)"

section \<open>Lemmas\<close>

definition alu_dims :: "port_regs \<Rightarrow> bool" where
  "alu_dims r \<longleftrightarrow> s_stride_num r = 1 \<and> t_bound_num r = 1 \<and> t_stride_num r = 1"

definition alu_args :: "u32 \<Rightarrow> u32 \<Rightarrow> u32 \<Rightarrow> u32 \<Rightarrow> stream_args" where
  "alu_args low ss tb ts = \<lparr>arg_ptr = low, arg_ss = (\<lambda>_. ss), arg_tb = (\<lambda>_. tb), arg_ts = (\<lambda>_. ts)\<rparr>"

lemma configure_streamer_port:
  assumes "alu_dims (regs_of m p)" and "distinct (base_ptr_high (regs_of m p) # stream_addrs (regs_of m p))"
    and "list_all ss_reg (base_ptr_high (regs_of m p) # stream_addrs (regs_of m p))"
    and "(p, ws) \<in> {(Reader 0, configure_streamer_a m low high ss tb ts),
      (Reader 1, configure_streamer_b m low high ss tb ts),
      (Writer 0, configure_streamer_o m low high ss tb ts)}"
  shows "port_cfg (regs_of m p) (csr_file (csrw_sss ws s)) = args_cfg (regs_of m p) (alu_args low ss tb ts)"
proof -
  have ws: "ws = [(base_ptr_low (regs_of m p), low), (base_ptr_high (regs_of m p), high),
      (s_stride_base (regs_of m p), ss), (t_bound_base (regs_of m p), tb), (t_stride_base (regs_of m p), ts)]"
    using assms(4) by (auto simp: configure_streamer_a_def configure_streamer_b_def
      configure_streamer_o_def Let_def)
  show ?thesis
    using assms(1-3) unfolding ws
    by (intro csrw_sss_port_cfg)
      (auto simp: alu_dims_def stream_addrs_def block_addrs_small loop_writes_def stream_writes_def
        alu_args_def csr_block_def)
qed

text \<open>The product and its check.\<close>

lemma cpu_simple_mult_apply:
  "cpu_simple_mult a b n out i = (if i < unat n then a i * b i else out i)"
proof -
  have "for_up 0 k (\<lambda>i t. t(i := a i * b i)) out i = (if i < k then a i * b i else out i)" for k
    by (induction k) (auto simp: for_up_Suc less_Suc_eq)
  then show ?thesis by (simp add: cpu_simple_mult_def)
qed

lemma check_simple_mult_0_iff:
  "check_simple_mult output golden n = 0 \<longleftrightarrow> (\<forall>i < unat n. output i = golden i)"
proof -
  have "unat (check_simple_mult output golden n) = card {i. i < unat n \<and> output i \<noteq> golden i}"
    unfolding check_simple_mult_def by (rule unat_count_fails) (use unat_u32_bound [of n] in simp)
  moreover have "finite {i. i < unat n \<and> output i \<noteq> golden i}" by simp
  ultimately show ?thesis
    by (simp only: unat_0_iff [symmetric] card_0_eq) blast
qed

text \<open>The barrier returns once the engine has been read idle, and clears it only then.\<close>

lemma mac_barrier_returns:
  assumes "\<And>k. hw k 0x3c3 = Some (b k)" and "\<forall>k \<ge> T. b k = 0"
  shows "\<exists>n t. snax_mac_sw_barrier hw s = Some t \<and> csr_trace t = csr_trace s @ [(0x3c5, 0)] \<and>
    csr_now t = csr_now s + Suc n + 1 \<and> b (csr_now s + n) = 0"
proof -
  obtain n where n: "csr_poll hw 0x3c3 (\<lambda>v. v = 0) s = Some ((csr_tick ^^ Suc n) s)"
    "b (csr_now s + n) = 0"
    using csr_poll_eventually [where P = "\<lambda>v. v = 0" and s = s and hw = hw and b = b, OF assms]
    by blast
  have "snax_mac_sw_barrier hw s = Some (snax_mac_sw_clear ((csr_tick ^^ Suc n) s))"
    unfolding snax_mac_sw_barrier_def n(1) by simp
  moreover have "csr_trace (snax_mac_sw_clear ((csr_tick ^^ Suc n) s)) = csr_trace s @ [(0x3c5, 0)]"
    "csr_now (snax_mac_sw_clear ((csr_tick ^^ Suc n) s)) = csr_now s + Suc n + 1"
    by (simp_all add: snax_mac_sw_clear_def del: funpow.simps)
  ultimately show ?thesis using n(2) by blast
qed

text \<open>
  The MAC test accepts exactly the right product. Whatever the output buffer held, the check
  against the product computed by the core counts no error if and only if the engine has written
  the product, modulo \<open>2 ^ 32\<close>, in each of the \<open>n\<close> elements; other elements do not matter.
\<close>

lemma mac_check_exact:
  "(check_simple_mult output (cpu_simple_mult a b n out) n = 0) =
     (map output [0..<unat n] = map (\<lambda>i. a i * b i) [0..<unat n])"
  by (auto simp: check_simple_mult_0_iff cpu_simple_mult_apply)

end
