(* ===== verification/Tiling.thy ===== *)
theory Tiling
  imports Dma Simbacore
begin

text \<open>
  The double-buffered tile pipeline that the tiled applications (sw/apps/osgemm-tiled,
  sw/apps/vmamba-tiled and others) run on two cores. Iteration \<open>i\<close> loads the inputs of tile \<open>i\<close>,
  computes tile \<open>i - 1\<close> on the accelerator and stores the results of tile \<open>i - 2\<close>: the DM core
  issues the transfers and waits for the DMA engine, core 0 starts the accelerator and waits for
  it, and the hardware barrier ends the iteration. The cores, the engine and the accelerator run
  interleaved. What an application puts into the stages is a record \<open>tiled_app\<close>; what a run of the
  accelerator does to the memory, given the CSRs it is started with, is the parameter \<open>accel\<close>: a
  list of updates, each of which happens at some time before the accelerator becomes idle.
\<close>

section \<open>Memory operations and their footprints\<close>

type_synonym mem_op = "wmem \<Rightarrow> wmem"

abbreviation run_ops :: "mem_op list \<Rightarrow> mem_op" where
  "run_ops \<equiv> fold (\<lambda>f. f)"

text \<open>An operation that changes only \<open>W\<close>, to values that depend only on \<open>R\<close>.\<close>

definition footprint :: "u64 set \<Rightarrow> u64 set \<Rightarrow> mem_op \<Rightarrow> bool" where
  "footprint R W f \<longleftrightarrow> (\<forall>m x. x \<notin> W \<longrightarrow> f m x = m x) \<and>
     (\<forall>m m' x. x \<in> W \<longrightarrow> (\<forall>y \<in> R. m y = m' y) \<longrightarrow> f m x = f m' x)"

definition commute :: "mem_op \<Rightarrow> mem_op \<Rightarrow> bool" where
  "commute f g \<longleftrightarrow> (\<forall>m. f (g m) = g (f m))"

lemma commute_sym: "commute f g \<Longrightarrow> commute g f"
  by (simp add: commute_def)

lemma footprint_outside: "footprint R W f \<Longrightarrow> x \<notin> W \<Longrightarrow> f m x = m x"
  by (simp add: footprint_def)

lemma footprint_inside:
  "footprint R W f \<Longrightarrow> x \<in> W \<Longrightarrow> (\<And>y. y \<in> R \<Longrightarrow> m y = m' y) \<Longrightarrow> f m x = f m' x"
  by (simp add: footprint_def)

text \<open>Operations that do not write what the other reads or writes commute.\<close>

lemma footprint_commute:
  assumes f: "footprint R W f" and g: "footprint R' W' g"
    and "W \<inter> W' = {}" "W \<inter> R' = {}" "W' \<inter> R = {}"
  shows "commute f g"
  unfolding commute_def
proof (intro allI ext)
  fix m x
  have fr: "f (g m) x = f m x" if "x \<in> W"
    using that assms(5) by (intro footprint_inside [OF f]) (auto intro!: footprint_outside [OF g])
  have gr: "g (f m) x = g m x" if "x \<in> W'"
    using that assms(4) by (intro footprint_inside [OF g]) (auto intro!: footprint_outside [OF f])
  consider "x \<in> W" "x \<notin> W'" | "x \<in> W'" "x \<notin> W" | "x \<notin> W" "x \<notin> W'" using assms(3) by blast
  then show "f (g m) x = g (f m) x"
    by cases (simp_all add: fr gr footprint_outside [OF f] footprint_outside [OF g])
qed

lemma commute_run_ops:
  assumes "\<And>g. g \<in> set gs \<Longrightarrow> commute f g"
  shows "f (run_ops gs m) = run_ops gs (f m)"
  using assms
proof (induction gs arbitrary: m)
  case (Cons g gs)
  then have "f (g m) = g (f m)" by (simp add: commute_def)
  with Cons show ?case by simp
qed simp

lemma commute_lists:
  assumes "\<And>f g. f \<in> set fs \<Longrightarrow> g \<in> set gs \<Longrightarrow> commute f g"
  shows "commute (run_ops fs) (run_ops gs)"
  unfolding commute_def
proof
  fix m
  show "run_ops fs (run_ops gs m) = run_ops gs (run_ops fs m)"
    using assms
  proof (induction fs arbitrary: m)
    case (Cons f fs)
    have "f (run_ops gs m) = run_ops gs (f m)" using Cons.prems by (intro commute_run_ops) simp
    with Cons show ?case by simp
  qed simp
qed

lemma run_ops_outside:
  assumes "\<And>f. f \<in> set fs \<Longrightarrow> footprint (R f) (W f) f" and "\<And>f. f \<in> set fs \<Longrightarrow> x \<notin> W f"
  shows "run_ops fs m x = m x"
  using assms
proof (induction fs arbitrary: m)
  case (Cons f fs)
  have "f m x = m x" using Cons.prems by (intro footprint_outside) auto
  with Cons show ?case by simp
qed simp

section \<open>Transfers\<close>

text \<open>Destination, source and size of a call of \<open>snrt_dma_start_1d\<close>.\<close>

type_synonym transfer = "u32 \<times> u32 \<times> u32"

fun start_transfer :: "hart \<Rightarrow> transfer \<Rightarrow> dma \<Rightarrow> dma" where
  "start_transfer h (dst, src, sz) e = snd (snrt_dma_start_1d h dst src sz e)"

fun copy_op :: "hart \<Rightarrow> transfer \<Rightarrow> mem_op" where
  "copy_op h (dst, src, sz) = copy_row (wideptr h dst) (wideptr h src) (unat sz)"

fun transfer_ok :: "hart \<Rightarrow> transfer \<Rightarrow> bool" where
  "transfer_ok h (dst, src, sz) \<longleftrightarrow> 0 < sz \<and>
     wregion (wideptr h dst) (unat sz) \<inter> wregion (wideptr h src) (unat sz) = {}"

fun transfer_reads :: "hart \<Rightarrow> transfer \<Rightarrow> u64 set" where
  "transfer_reads h (dst, src, sz) = wregion (wideptr h src) (unat sz)"

fun transfer_writes :: "hart \<Rightarrow> transfer \<Rightarrow> u64 set" where
  "transfer_writes h (dst, src, sz) = wregion (wideptr h dst) (unat sz)"

lemma unat_u32_le_64: "unat (x :: u32) \<le> 2 ^ 64"
  using unat_u32_bound [of x] by simp

lemma copy_op_apply:
  assumes "transfer_ok h (dst, src, sz)"
  shows "copy_op h (dst, src, sz) m x = (if unat (x - wideptr h dst) < unat sz
    then m (wideptr h src + (x - wideptr h dst)) else m x)"
  using assms copy_row_eq [OF unat_u32_le_64, of "wideptr h dst" "wideptr h src" sz m x] by simp

lemma copy_footprint:
  assumes "transfer_ok h t"
  shows "footprint (transfer_reads h t) (transfer_writes h t) (copy_op h t)"
proof -
  obtain dst src sz where t: "t = (dst, src, sz)" by (cases t)
  note e = copy_op_apply [OF assms [unfolded t]]
  show ?thesis
    unfolding t footprint_def transfer_reads.simps transfer_writes.simps e
    by (auto simp: wregion_def)
qed

declare transfer_ok.simps [simp del] copy_op.simps [simp del]

text \<open>What the engine does for the transfer.\<close>

lemma start_transfer_eq:
  assumes "transfer_ok h t"
  shows "\<exists>r. start_transfer h t e = e\<lparr>fe_src := rq_src r, fe_dst := rq_dst r,
      next_id := next_id e + 1, pending := pending e @ [r]\<rparr> \<and> run_request r = copy_op h t"
proof -
  obtain dst src sz where t: "t = (dst, src, sz)" by (cases t)
  then have "0 < sz" using assms by (simp add: transfer_ok.simps)
  note eq = start_1d_wideptr_eq [OF this]
  let ?r = "\<lparr>rq_src = wideptr h src, rq_dst = wideptr h dst, rq_size = sz,
    rq_src_stride = fe_src_stride e, rq_dst_stride = fe_dst_stride e, rq_reps = 1\<rparr>"
  have "run_request ?r = copy_op h t" by (rule ext) (simp add: t copy_op.simps run_request_def for_up_def)
  moreover have "start_transfer h t e = e\<lparr>fe_src := rq_src ?r, fe_dst := rq_dst ?r,
      next_id := next_id e + 1, pending := pending e @ [?r]\<rparr>"
    by (simp add: t snrt_dma_start_1d_def eq)
  ultimately show ?thesis by blast
qed


section \<open>The pipeline\<close>

text \<open>
  The stages of an application: the number of tiles, the transfers that load a tile and those that
  store it, the statements of core 0 up to the start of the accelerator, the statements between
  start and wait, and the wait. Statements that poll may not return.
\<close>

record tiled_app =
  app_tiles :: nat
  app_load :: "nat \<Rightarrow> transfer list"
  app_store :: "nat \<Rightarrow> transfer list"
  app_launch :: "nat \<Rightarrow> csr_state \<Rightarrow> csr_state option"
  app_running :: "nat \<Rightarrow> csr_state \<Rightarrow> csr_state"
  app_wait :: "nat \<Rightarrow> csr_state \<Rightarrow> csr_state option"

definition app_iterations :: "tiled_app \<Rightarrow> nat" where
  "app_iterations A = app_tiles A + 2"

definition dm_transfers :: "tiled_app \<Rightarrow> nat \<Rightarrow> transfer list" where
  "dm_transfers A i = (if i < app_tiles A then app_load A i else []) @
     (if 2 \<le> i then app_store A (i - 2) else [])"

definition computes :: "tiled_app \<Rightarrow> nat \<Rightarrow> bool" where
  "computes A i \<longleftrightarrow> 1 \<le> i \<and> i \<le> app_tiles A"

datatype core0_pc = Compute | Await | Core0_barrier | Core0_done
datatype dm_pc = Issue "transfer list" | Dm_barrier | Dm_done

record tiled_state =
  it0 :: nat
  pc0 :: core0_pc
  it_dm :: nat
  pc_dm :: dm_pc
  engine :: dma
  csrs :: csr_state
  busy_ops :: "mem_op list"

definition loop0 :: "tiled_app \<Rightarrow> nat \<Rightarrow> core0_pc" where
  "loop0 A i = (if i < app_iterations A then Compute else Core0_done)"

definition loop_dm :: "tiled_app \<Rightarrow> nat \<Rightarrow> dm_pc" where
  "loop_dm A i = (if i < app_iterations A then Issue (dm_transfers A i) else Dm_done)"

text \<open>
  A poll of the DMA engine (\<open>snrt_dma_wait_all\<close>) or of the accelerator's busy flags that reads busy
  changes nothing, so only the poll that reads idle is a step.
\<close>

inductive tiled_step ::
  "hart \<Rightarrow> tiled_app \<Rightarrow> ((u32 \<Rightarrow> u32) \<Rightarrow> mem_op list) \<Rightarrow> tiled_state \<Rightarrow> tiled_state \<Rightarrow> bool"
  for h A accel where
  issue: "pc_dm s = Issue (t # ts) \<Longrightarrow>
    tiled_step h A accel s (s\<lparr>engine := start_transfer h t (engine s), pc_dm := Issue ts\<rparr>)"
| transferred: "pc_dm s = Issue [] \<Longrightarrow> \<not> dma_busy (engine s) \<Longrightarrow>
    tiled_step h A accel s (s\<lparr>pc_dm := Dm_barrier\<rparr>)"
| engine_step: "pending (engine s) \<noteq> [] \<Longrightarrow>
    tiled_step h A accel s (s\<lparr>engine := dma_complete (engine s)\<rparr>)"
| launch: "pc0 s = Compute \<Longrightarrow> computes A (it0 s) \<Longrightarrow> app_launch A (it0 s - 1) (csrs s) = Some c \<Longrightarrow>
    tiled_step h A accel s (s\<lparr>pc0 := Await, csrs := app_running A (it0 s - 1) c,
      busy_ops := accel (csr_file c)\<rparr>)"
| no_tile: "pc0 s = Compute \<Longrightarrow> \<not> computes A (it0 s) \<Longrightarrow>
    tiled_step h A accel s (s\<lparr>pc0 := Core0_barrier\<rparr>)"
| accel_step: "busy_ops s = f # fs \<Longrightarrow>
    tiled_step h A accel s (s\<lparr>engine := (engine s)\<lparr>dma_mem := f (dma_mem (engine s))\<rparr>, busy_ops := fs\<rparr>)"
| awaited: "pc0 s = Await \<Longrightarrow> busy_ops s = [] \<Longrightarrow> app_wait A (it0 s - 1) (csrs s) = Some c \<Longrightarrow>
    tiled_step h A accel s (s\<lparr>pc0 := Core0_barrier, csrs := c\<rparr>)"
| barrier: "pc0 s = Core0_barrier \<Longrightarrow> pc_dm s = Dm_barrier \<Longrightarrow>
    tiled_step h A accel s (s\<lparr>it0 := Suc (it0 s), pc0 := loop0 A (Suc (it0 s)),
      it_dm := Suc (it_dm s), pc_dm := loop_dm A (Suc (it_dm s))\<rparr>)"

definition tiled_start :: "tiled_app \<Rightarrow> dma \<Rightarrow> csr_state \<Rightarrow> tiled_state" where
  "tiled_start A e c = \<lparr>it0 = 0, pc0 = loop0 A 0, it_dm = 0, pc_dm = loop_dm A 0, engine = e,
     csrs = c, busy_ops = []\<rparr>"

definition tiled_finished :: "tiled_state \<Rightarrow> bool" where
  "tiled_finished s \<longleftrightarrow> pc0 s = Core0_done \<and> pc_dm s = Dm_done"

section \<open>What an application must keep\<close>

text \<open>
  The memory update of the accelerator for tile \<open>t\<close> is \<open>ops t\<close>; \<open>ready t\<close> is what the registers
  satisfy before tile \<open>t\<close> is launched. In one iteration no transfer conflicts with the accelerator,
  and a tile's load does not conflict with the stores of the two tiles before it.
\<close>

definition load_op :: "hart \<Rightarrow> tiled_app \<Rightarrow> nat \<Rightarrow> mem_op" where
  "load_op h A t = run_ops (map (copy_op h) (app_load A t))"

definition store_op :: "hart \<Rightarrow> tiled_app \<Rightarrow> nat \<Rightarrow> mem_op" where
  "store_op h A t = run_ops (map (copy_op h) (app_store A t))"

definition tile_ops :: "tiled_app \<Rightarrow> (nat \<Rightarrow> mem_op list) \<Rightarrow> nat \<Rightarrow> mem_op list" where
  "tile_ops A ops i = (if computes A i then ops (i - 1) else [])"

definition launches ::
  "tiled_app \<Rightarrow> ((u32 \<Rightarrow> u32) \<Rightarrow> mem_op list) \<Rightarrow> (nat \<Rightarrow> mem_op list) \<Rightarrow> (nat \<Rightarrow> csr_state \<Rightarrow> bool) \<Rightarrow> bool" where
  "launches A accel ops ready \<longleftrightarrow> (\<forall>t c c'. t < app_tiles A \<longrightarrow> ready t c \<longrightarrow> app_launch A t c = Some c' \<longrightarrow>
     accel (csr_file c') = ops t \<and>
     (\<forall>c''. app_wait A t (app_running A t c') = Some c'' \<longrightarrow> ready (Suc t) c''))"

definition transfers_ok :: "hart \<Rightarrow> tiled_app \<Rightarrow> bool" where
  "transfers_ok h A \<longleftrightarrow> (\<forall>i < app_iterations A. list_all (transfer_ok h) (dm_transfers A i) \<and>
     length (dm_transfers A i) < 2 ^ 31)"

definition conflict_free :: "hart \<Rightarrow> tiled_app \<Rightarrow> (nat \<Rightarrow> mem_op list) \<Rightarrow> bool" where
  "conflict_free h A ops \<longleftrightarrow> (\<forall>i < app_iterations A. \<forall>f \<in> set (tile_ops A ops i). \<forall>t \<in> set (dm_transfers A i).
     commute f (copy_op h t))"

text \<open>The memory after whole iterations, with the transfers of an iteration before the accelerator.\<close>

definition iteration :: "hart \<Rightarrow> tiled_app \<Rightarrow> (nat \<Rightarrow> mem_op list) \<Rightarrow> nat \<Rightarrow> mem_op" where
  "iteration h A ops i m = run_ops (tile_ops A ops i) (run_ops (map (copy_op h) (dm_transfers A i)) m)"

definition iterations :: "hart \<Rightarrow> tiled_app \<Rightarrow> (nat \<Rightarrow> mem_op list) \<Rightarrow> nat \<Rightarrow> mem_op" where
  "iterations h A ops n = for_up 0 n (iteration h A ops)"

text \<open>The invariant of a running iteration: some transfers and some accelerator updates are done.\<close>

definition dm_part :: "hart \<Rightarrow> tiled_app \<Rightarrow> tiled_state \<Rightarrow> transfer list \<Rightarrow> bool" where
  "dm_part h A s copied \<longleftrightarrow>
     (\<exists>open_ts rest. dm_transfers A (it_dm s) = copied @ open_ts @ rest \<and>
       map run_request (pending (engine s)) = map (copy_op h) open_ts \<and>
       next_id (engine s) = completed_id (engine s) + word_of_nat (length open_ts) \<and>
       (pc_dm s = Issue rest \<or> pc_dm s = Dm_barrier \<and> open_ts = [] \<and> rest = []))"

definition core0_part ::
  "tiled_app \<Rightarrow> (nat \<Rightarrow> mem_op list) \<Rightarrow> (nat \<Rightarrow> csr_state \<Rightarrow> bool) \<Rightarrow> tiled_state \<Rightarrow> mem_op list \<Rightarrow> bool" where
  "core0_part A ops ready s performed \<longleftrightarrow>
     (pc0 s = Compute \<and> performed = [] \<and> busy_ops s = [] \<and> ready (it0 s - 1) (csrs s)) \<or>
     (pc0 s = Await \<and> computes A (it0 s) \<and> tile_ops A ops (it0 s) = performed @ busy_ops s \<and>
       (\<forall>c. app_wait A (it0 s - 1) (csrs s) = Some c \<longrightarrow> ready (it0 s) c)) \<or>
     (pc0 s = Core0_barrier \<and> performed = tile_ops A ops (it0 s) \<and> busy_ops s = [] \<and>
       (it0 s \<le> app_tiles A \<longrightarrow> ready (it0 s) (csrs s)))"

definition tiled_inv ::
  "hart \<Rightarrow> tiled_app \<Rightarrow> (nat \<Rightarrow> mem_op list) \<Rightarrow> (nat \<Rightarrow> csr_state \<Rightarrow> bool) \<Rightarrow> wmem \<Rightarrow> tiled_state \<Rightarrow> bool" where
  "tiled_inv h A ops ready m s \<longleftrightarrow> it_dm s = it0 s \<and> it0 s \<le> app_iterations A \<and>
     (if it0 s < app_iterations A
      then (\<exists>copied performed. dm_part h A s copied \<and> core0_part A ops ready s performed \<and>
        dma_mem (engine s) = run_ops performed (run_ops (map (copy_op h) copied)
          (iterations h A ops (it0 s) m)))
      else tiled_finished s \<and> dma_mem (engine s) = iterations h A ops (it0 s) m \<and>
        pending (engine s) = [] \<and> busy_ops s = [])"


section \<open>The invariant is kept\<close>

lemma dm_transfers_ok:
  "transfers_ok h A \<Longrightarrow> i < app_iterations A \<Longrightarrow> t \<in> set (dm_transfers A i) \<Longrightarrow> transfer_ok h t"
  by (auto simp: transfers_ok_def list_all_iff)

lemma dm_part_issue:
  assumes "transfers_ok h A" and "dm_part h A s copied" and "pc_dm s = Issue (t # ts)"
    and "it_dm s < app_iterations A"
  shows "dm_part h A (s\<lparr>engine := start_transfer h t (engine s), pc_dm := Issue ts\<rparr>) copied"
    and "dma_mem (start_transfer h t (engine s)) = dma_mem (engine s)"
proof -
  obtain open_ts where p: "dm_transfers A (it_dm s) = copied @ open_ts @ t # ts"
    "map run_request (pending (engine s)) = map (copy_op h) open_ts"
    "next_id (engine s) = completed_id (engine s) + word_of_nat (length open_ts)"
    using assms(2,3) by (auto simp: dm_part_def)
  have "transfer_ok h t" using dm_transfers_ok [OF assms(1,4), of t] p(1) by simp
  then obtain r where r: "start_transfer h t (engine s) = engine s\<lparr>fe_src := rq_src r,
      fe_dst := rq_dst r, next_id := next_id (engine s) + 1, pending := pending (engine s) @ [r]\<rparr>"
    "run_request r = copy_op h t"
    using start_transfer_eq by blast
  show "dm_part h A (s\<lparr>engine := start_transfer h t (engine s), pc_dm := Issue ts\<rparr>) copied"
    unfolding dm_part_def using p r
    by (intro exI [of _ "open_ts @ [t]"] exI [of _ ts]) simp
  show "dma_mem (start_transfer h t (engine s)) = dma_mem (engine s)" by (simp add: r(1))
qed

lemma dm_part_complete:
  assumes "dm_part h A s copied" and "pending (engine s) \<noteq> []"
  shows "\<exists>t \<in> set (dm_transfers A (it_dm s)).
    dm_part h A (s\<lparr>engine := dma_complete (engine s)\<rparr>) (copied @ [t]) \<and>
    dma_mem (dma_complete (engine s)) = copy_op h t (dma_mem (engine s))"
proof -
  obtain open_ts rest where p: "dm_transfers A (it_dm s) = copied @ open_ts @ rest"
    "map run_request (pending (engine s)) = map (copy_op h) open_ts"
    "next_id (engine s) = completed_id (engine s) + word_of_nat (length open_ts)"
    "pc_dm s = Issue rest \<or> pc_dm s = Dm_barrier \<and> open_ts = [] \<and> rest = []"
    using assms(1) by (auto simp: dm_part_def)
  obtain r rs where rs: "pending (engine s) = r # rs" using assms(2) by (cases "pending (engine s)") auto
  with p(2) obtain t ts where ts: "open_ts = t # ts" "run_request r = copy_op h t"
    "map run_request rs = map (copy_op h) ts"
    by (cases open_ts) auto
  have "dm_part h A (s\<lparr>engine := dma_complete (engine s)\<rparr>) (copied @ [t])"
    unfolding dm_part_def using p rs ts
    by (intro exI [of _ ts] exI [of _ rest]) (auto simp: dma_complete_def)
  moreover have "t \<in> set (dm_transfers A (it_dm s))" using p(1) ts(1) by simp
  moreover have "dma_mem (dma_complete (engine s)) = copy_op h t (dma_mem (engine s))"
    using rs ts(2) by (simp add: dma_complete_def)
  ultimately show ?thesis by blast
qed

lemma dm_part_waited:
  assumes "transfers_ok h A" and "dm_part h A s copied" and "pc_dm s = Issue []"
    and "\<not> dma_busy (engine s)" and "it_dm s < app_iterations A"
  shows "dm_part h A (s\<lparr>pc_dm := Dm_barrier\<rparr>) copied"
proof -
  obtain open_ts where p: "dm_transfers A (it_dm s) = copied @ open_ts"
    "map run_request (pending (engine s)) = map (copy_op h) open_ts"
    "next_id (engine s) = completed_id (engine s) + word_of_nat (length open_ts)"
    using assms(2,3) by (auto simp: dm_part_def)
  have "length (dm_transfers A (it_dm s)) < 2 ^ 31" using assms(1,5) by (simp add: transfers_ok_def)
  then have "length open_ts < 2 ^ 32" using p(1) by simp
  then have "unat (word_of_nat (length open_ts) :: u32) = length open_ts"
    by (intro unat_of_nat_small) simp
  moreover have "(word_of_nat (length open_ts) :: u32) = 0" using p(3) assms(4) by (simp add: dma_busy_def)
  ultimately have "open_ts = []" by simp
  with p show ?thesis by (simp add: dm_part_def)
qed

lemma dm_part_all:
  assumes "dm_part h A s copied" and "pc_dm s = Dm_barrier"
  shows "copied = dm_transfers A (it_dm s)" and "pending (engine s) = []"
    and "next_id (engine s) = completed_id (engine s)"
  using assms by (auto simp: dm_part_def)

text \<open>The parts look only at some fields.\<close>

lemma dm_part_cong:
  assumes "it_dm t = it_dm s" "pending (engine t) = pending (engine s)"
    "next_id (engine t) = next_id (engine s)" "completed_id (engine t) = completed_id (engine s)"
    "pc_dm t = pc_dm s"
  shows "dm_part h A t copied = dm_part h A s copied"
  using assms by (simp add: dm_part_def)

lemma core0_part_cong:
  assumes "pc0 t = pc0 s" "busy_ops t = busy_ops s" "it0 t = it0 s" "csrs t = csrs s"
  shows "core0_part A ops ready t performed = core0_part A ops ready s performed"
  using assms by (simp add: core0_part_def)

lemma dm_part_start:
  assumes "it_dm s = i" "i < app_iterations A" "pc_dm s = loop_dm A i" "pending (engine s) = []"
    "next_id (engine s) = completed_id (engine s)"
  shows "dm_part h A s []"
proof -
  have "pc_dm s = Issue (dm_transfers A i)" using assms(2,3) by (simp add: loop_dm_def)
  then show ?thesis
    unfolding dm_part_def using assms(1,4,5)
    by - (rule exI [of _ "[]"], rule exI [of _ "dm_transfers A i"], simp)
qed

text \<open>A copy can be moved in front of the updates the accelerator has done.\<close>

lemma copy_before_performed:
  assumes "conflict_free h A ops" and "set performed \<subseteq> set (tile_ops A ops i)"
    and "t \<in> set (dm_transfers A i)" and "i < app_iterations A"
  shows "copy_op h t (run_ops performed m) = run_ops performed (copy_op h t m)"
proof (rule commute_run_ops)
  fix g
  assume "g \<in> set performed"
  with assms have "commute g (copy_op h t)" by (auto simp: conflict_free_def)
  then show "commute (copy_op h t) g" by (rule commute_sym)
qed

lemma core0_part_subset:
  "core0_part A ops ready s performed \<Longrightarrow> set performed \<subseteq> set (tile_ops A ops (it0 s))"
  by (auto simp: core0_part_def)

lemma iterations_Suc: "iterations h A ops (Suc i) m = iteration h A ops i (iterations h A ops i m)"
  by (simp add: iterations_def for_up_Suc)


lemma tiled_inv_running:
  assumes "it_dm s = it0 s" "it0 s < app_iterations A" "dm_part h A s copied"
    "core0_part A ops ready s performed"
    "dma_mem (engine s) = run_ops performed (run_ops (map (copy_op h) copied) (iterations h A ops (it0 s) m))"
  shows "tiled_inv h A ops ready m s"
  using assms by (auto simp: tiled_inv_def)

lemma tiled_inv_parts:
  assumes "tiled_inv h A ops ready m s" and "\<not> tiled_finished s"
  obtains copied performed where "it_dm s = it0 s" "it0 s < app_iterations A" "dm_part h A s copied"
    "core0_part A ops ready s performed"
    "dma_mem (engine s) = run_ops performed (run_ops (map (copy_op h) copied) (iterations h A ops (it0 s) m))"
  using assms by (auto simp: tiled_inv_def split: if_splits)

lemma tiled_inv_finished:
  assumes "tiled_inv h A ops ready m s" and "tiled_finished s"
  shows "dma_mem (engine s) = iterations h A ops (app_iterations A) m"
    and "pending (engine s) = []" "busy_ops s = []" "it0 s = app_iterations A"
  using assms by (auto simp: tiled_inv_def core0_part_def tiled_finished_def split: if_splits)

lemma tiled_inv_barrier:
  assumes "tiled_inv h A ops ready m s" and "pc0 s = Core0_barrier" and "pc_dm s = Dm_barrier"
  shows "tiled_inv h A ops ready m (s\<lparr>it0 := Suc (it0 s), pc0 := loop0 A (Suc (it0 s)),
    it_dm := Suc (it_dm s), pc_dm := loop_dm A (Suc (it_dm s))\<rparr>)" (is "tiled_inv h A ops ready m ?t")
proof -
  have "\<not> tiled_finished s" using assms(2) by (simp add: tiled_finished_def)
  then obtain copied performed where p: "it_dm s = it0 s" "it0 s < app_iterations A"
    "dm_part h A s copied" "core0_part A ops ready s performed"
    "dma_mem (engine s) = run_ops performed (run_ops (map (copy_op h) copied) (iterations h A ops (it0 s) m))"
    using tiled_inv_parts [OF assms(1)] by blast
  note d = dm_part_all [OF p(3) assms(3)]
  have c: "performed = tile_ops A ops (it0 s)" "busy_ops s = []"
    "it0 s \<le> app_tiles A \<Longrightarrow> ready (it0 s) (csrs s)"
    using p(4) assms(2) by (auto simp: core0_part_def)
  have mem: "dma_mem (engine s) = iterations h A ops (Suc (it0 s)) m"
    using p(1,5) by (simp add: iterations_Suc iteration_def c(1) d(1))
  show ?thesis
  proof (cases "Suc (it0 s) < app_iterations A")
    case True
    then have "it0 s \<le> app_tiles A" by (simp add: app_iterations_def)
    then have "core0_part A ops ready ?t []"
      using c True by (simp add: core0_part_def loop0_def)
    moreover have "dm_part h A ?t []"
      using d True p(1) by (intro dm_part_start [where i = "Suc (it0 s)"]) simp_all
    ultimately show ?thesis
      using True p(1) mem
      by (intro tiled_inv_running [where copied = "[]" and performed = "[]"]) simp_all
  next
    case False
    with p(1,2) mem d(2) c(2) show ?thesis
      by (simp add: tiled_inv_def tiled_finished_def loop0_def loop_dm_def)
  qed
qed

lemma core0_part_launch:
  assumes "launches A accel ops ready" and "core0_part A ops ready s performed"
    and "pc0 s = Compute" and "computes A (it0 s)" and "app_launch A (it0 s - 1) (csrs s) = Some c"
  shows "performed = []" and "core0_part A ops ready (s\<lparr>pc0 := Await,
    csrs := app_running A (it0 s - 1) c, busy_ops := accel (csr_file c)\<rparr>) []"
proof -
  have p: "performed = []" "ready (it0 s - 1) (csrs s)"
    using assms(2,3) by (auto simp: core0_part_def)
  then show "performed = []" by simp
  have "it0 s - 1 < app_tiles A" "Suc (it0 s - 1) = it0 s"
    using assms(4) by (auto simp: computes_def)
  then have "accel (csr_file c) = ops (it0 s - 1)"
    "\<forall>c''. app_wait A (it0 s - 1) (app_running A (it0 s - 1) c) = Some c'' \<longrightarrow> ready (it0 s) c''"
    using assms(1,5) p(2) unfolding launches_def by metis+
  then show "core0_part A ops ready (s\<lparr>pc0 := Await, csrs := app_running A (it0 s - 1) c,
      busy_ops := accel (csr_file c)\<rparr>) []"
    using assms(4) by (simp add: core0_part_def tile_ops_def)
qed

lemma core0_part_awaited:
  assumes "core0_part A ops ready s performed" and "pc0 s = Await" and "busy_ops s = []"
    and "app_wait A (it0 s - 1) (csrs s) = Some c"
  shows "core0_part A ops ready (s\<lparr>pc0 := Core0_barrier, csrs := c\<rparr>) performed"
  using assms by (auto simp: core0_part_def)

lemma core0_part_no_tile:
  assumes "core0_part A ops ready s performed" and "pc0 s = Compute" and "\<not> computes A (it0 s)"
  shows "core0_part A ops ready (s\<lparr>pc0 := Core0_barrier\<rparr>) performed"
proof -
  have "it0 s = 0 \<or> app_tiles A < it0 s" using assms(3) by (auto simp: computes_def)
  with assms show ?thesis by (auto simp: core0_part_def tile_ops_def)
qed

lemma core0_part_accel:
  assumes "core0_part A ops ready s performed" and "busy_ops s = f # fs"
  shows "core0_part A ops ready (s\<lparr>engine := e, busy_ops := fs\<rparr>) (performed @ [f])"
  using assms by (auto simp: core0_part_def)

lemma not_finished_pc:
  "tiled_finished s \<Longrightarrow> pc0 s = Core0_done" "tiled_finished s \<Longrightarrow> pc_dm s = Dm_done"
  by (simp_all add: tiled_finished_def)

lemma tiled_inv_step:
  assumes app: "transfers_ok h A" "launches A accel ops ready" "conflict_free h A ops"
    and inv: "tiled_inv h A ops ready m s" and step: "tiled_step h A accel s t"
  shows "tiled_inv h A ops ready m t"
proof (cases "tiled_finished s")
  case True
  then have "pc0 s = Core0_done" "pc_dm s = Dm_done" "pending (engine s) = []" "busy_ops s = []"
    using tiled_inv_finished [OF inv] by (auto dest: not_finished_pc)
  with step show ?thesis by (auto elim: tiled_step.cases)
next
  case False
  with inv obtain copied performed where p: "it_dm s = it0 s" "it0 s < app_iterations A"
    "dm_part h A s copied" "core0_part A ops ready s performed"
    "dma_mem (engine s) = run_ops performed (run_ops (map (copy_op h) copied) (iterations h A ops (it0 s) m))"
    by (rule tiled_inv_parts)
  have keep: "tiled_inv h A ops ready m u" if "it_dm u = it_dm s" "it0 u = it0 s" "dm_part h A u copied"
    "core0_part A ops ready u performed'" "dma_mem (engine u) = dma_mem (engine s)" "performed' = performed" for u performed'
    using that p by (intro tiled_inv_running [where copied = copied and performed = performed]) simp_all
  show ?thesis
    using step
  proof (cases rule: tiled_step.cases)
    case (issue tr ts)
    have "core0_part A ops ready t performed"
      unfolding issue(1) using p(4) by (subst core0_part_cong [of _ s]) simp_all
    then show ?thesis
      using dm_part_issue [OF app(1) p(3) issue(2)] p(1,2) by (intro keep) (simp_all add: issue(1))
  next
    case transferred
    have "core0_part A ops ready t performed"
      unfolding transferred(1) using p(4) by (subst core0_part_cong [of _ s]) simp_all
    then show ?thesis
      using dm_part_waited [OF app(1) p(3) transferred(2,3)] p(1,2)
      by (intro keep) (simp_all add: transferred(1))
  next
    case engine_step
    obtain tr where tr: "tr \<in> set (dm_transfers A (it_dm s))" "dm_part h A t (copied @ [tr])"
      "dma_mem (engine t) = copy_op h tr (dma_mem (engine s))"
      using dm_part_complete [OF p(3) engine_step(2)] by (auto simp: engine_step(1))
    have "core0_part A ops ready t performed"
      unfolding engine_step(1) using p(4) by (subst core0_part_cong [of _ s]) simp_all
    moreover have "dma_mem (engine t) = run_ops performed (run_ops (map (copy_op h) (copied @ [tr]))
        (iterations h A ops (it0 t) m))"
      using copy_before_performed [OF app(3) core0_part_subset [OF p(4)], of tr] tr(1) p(1,2)
      by (simp add: tr(3) p(5)) (simp add: engine_step(1))
    ultimately show ?thesis
      using tr(2) p(1,2)
      by (intro tiled_inv_running [where copied = "copied @ [tr]" and performed = performed])
        (simp_all add: engine_step(1))
  next
    case (launch c)
    have "dm_part h A t copied" unfolding launch(1) using p(3) by (subst dm_part_cong [of _ s]) simp_all
    then show ?thesis
      using core0_part_launch [OF app(2) p(4) launch(2,3,4)]
      by (intro keep [where performed' = "[]"]) (simp_all add: launch(1))
  next
    case no_tile
    have "dm_part h A t copied" unfolding no_tile(1) using p(3) by (subst dm_part_cong [of _ s]) simp_all
    then show ?thesis
      using core0_part_no_tile [OF p(4) no_tile(2,3)] by (intro keep) (simp_all add: no_tile(1))
  next
    case (accel_step f fs)
    have "dm_part h A t copied" unfolding accel_step(1) using p(3) by (subst dm_part_cong [of _ s]) simp_all
    then show ?thesis
      using core0_part_accel [OF p(4) accel_step(2)] p(1,2,5)
      by (intro tiled_inv_running [where copied = copied and performed = "performed @ [f]"])
        (simp_all add: accel_step(1))
  next
    case (awaited c)
    have "dm_part h A t copied" unfolding awaited(1) using p(3) by (subst dm_part_cong [of _ s]) simp_all
    then show ?thesis
      using core0_part_awaited [OF p(4) awaited(2,3,4)] by (intro keep) (simp_all add: awaited(1))
  next
    case barrier
    then show ?thesis using tiled_inv_barrier [OF inv] by simp
  qed
qed


section \<open>All runs end, and in one memory\<close>

definition app_ok ::
  "hart \<Rightarrow> tiled_app \<Rightarrow> ((u32 \<Rightarrow> u32) \<Rightarrow> mem_op list) \<Rightarrow> (nat \<Rightarrow> mem_op list) \<Rightarrow> (nat \<Rightarrow> csr_state \<Rightarrow> bool) \<Rightarrow> bool" where
  "app_ok h A accel ops ready \<longleftrightarrow> transfers_ok h A \<and> launches A accel ops ready \<and> conflict_free h A ops"

definition idle_start ::
  "tiled_app \<Rightarrow> (nat \<Rightarrow> csr_state \<Rightarrow> bool) \<Rightarrow> wmem \<Rightarrow> tiled_state \<Rightarrow> bool" where
  "idle_start A ready m s \<longleftrightarrow> (\<exists>e c. s = tiled_start A e c \<and> pending e = [] \<and> next_id e = completed_id e \<and>
     dma_mem e = m \<and> ready 0 c)"

lemma tiled_inv_init:
  assumes "idle_start A ready m s"
  shows "tiled_inv h A ops ready m s"
proof -
  obtain e c where s: "s = tiled_start A e c" "pending e = []" "next_id e = completed_id e"
    "dma_mem e = m" "ready 0 c"
    using assms by (auto simp: idle_start_def)
  have lt: "0 < app_iterations A" by (simp add: app_iterations_def)
  have "dm_part h A s []"
    using s lt by (intro dm_part_start [where i = 0]) (simp_all add: tiled_start_def)
  moreover have "core0_part A ops ready s []"
    using s lt by (simp add: core0_part_def tiled_start_def loop0_def)
  ultimately show ?thesis
    using s lt by (intro tiled_inv_running [where copied = "[]" and performed = "[]"])
      (simp_all add: tiled_start_def iterations_def)
qed

interpretation tiles: transition_system "\<lambda>s. app_ok h A accel ops ready \<and> idle_start A ready m s"
    "tiled_step h A accel" "\<lambda>s. app_ok h A accel ops ready \<and> tiled_inv h A ops ready m s"
  for h A accel ops ready m
  by unfold_locales (auto simp: app_ok_def intro: tiled_inv_init tiled_inv_step)

text \<open>Every step brings the end nearer.\<close>

definition pc0_rank :: "core0_pc \<Rightarrow> nat" where
  "pc0_rank p = (case p of Compute \<Rightarrow> 2 | Await \<Rightarrow> 1 | _ \<Rightarrow> 0)"

definition dm_rank :: "dm_pc \<Rightarrow> nat" where
  "dm_rank p = (case p of Issue ts \<Rightarrow> Suc (2 * length ts) | _ \<Rightarrow> 0)"

definition tiled_measure :: "tiled_app \<Rightarrow> (tiled_state \<times> tiled_state) set" where
  "tiled_measure A = measures [\<lambda>s. app_iterations A - it0 s, \<lambda>s. pc0_rank (pc0 s),
     \<lambda>s. length (busy_ops s) + dm_rank (pc_dm s) + length (pending (engine s))]"

lemma wf_tiled_measure: "wf (tiled_measure A)"
  by (simp add: tiled_measure_def)

lemma start_transfer_pending:
  "length (pending (start_transfer h t e)) \<le> Suc (length (pending e))"
proof -
  obtain dst src sz where t: "t = (dst, src, sz)" by (cases t)
  show ?thesis
    by (simp add: t snrt_dma_start_1d_def snrt_dma_start_1d_wideptr_def dmcpyi_def dmdst_def dmsrc_def)
qed

lemma tiled_step_decreases:
  assumes "it0 s < app_iterations A" and "tiled_step h A accel s t"
  shows "(t, s) \<in> tiled_measure A"
  using assms(2)
proof (cases rule: tiled_step.cases)
  case (issue tr ts)
  then show ?thesis
    using start_transfer_pending [of h tr "engine s"] by (simp add: tiled_measure_def dm_rank_def)
next
  case engine_step
  then show ?thesis by (cases "pending (engine s)") (simp_all add: tiled_measure_def dma_complete_def)
qed (use assms(1) in \<open>simp_all add: tiled_measure_def pc0_rank_def dm_rank_def\<close>)

text \<open>In every state that is not the end something can move, if launching and waiting return.\<close>

definition returns :: "tiled_app \<Rightarrow> bool" where
  "returns A \<longleftrightarrow> (\<forall>t c. t < app_tiles A \<longrightarrow> app_launch A t c \<noteq> None \<and> app_wait A t c \<noteq> None)"

lemma tiled_progress:
  assumes app: "app_ok h A accel ops ready" "returns A"
    and inv: "tiled_inv h A ops ready m s" and "\<not> tiled_finished s"
  shows "\<exists>t. tiled_step h A accel s t"
proof -
  obtain copied performed where p: "it0 s < app_iterations A" "dm_part h A s copied"
    "core0_part A ops ready s performed"
    using inv assms(4) by (rule tiled_inv_parts)
  have dm: "\<exists>t. tiled_step h A accel s t" if b: "pc_dm s \<noteq> Dm_barrier"
  proof -
    obtain open_ts rest where d: "map run_request (pending (engine s)) = map (copy_op h) open_ts"
      "next_id (engine s) = completed_id (engine s) + word_of_nat (length open_ts)" "pc_dm s = Issue rest"
      using p(2) b by (auto simp: dm_part_def)
    show ?thesis
    proof (cases rest)
      case (Cons t ts)
      with d(3) show ?thesis using tiled_step.issue by blast
    next
      case Nil
      show ?thesis
      proof (cases "pending (engine s) = []")
        case True
        with d(1,2) have "\<not> dma_busy (engine s)" by (simp add: dma_busy_def)
        with d(3) Nil show ?thesis using tiled_step.transferred by blast
      next
        case False
        then show ?thesis using tiled_step.engine_step by blast
      qed
    qed
  qed
  have core0: "\<exists>t. tiled_step h A accel s t" if "pc0 s \<noteq> Core0_barrier"
  proof (cases "pc0 s = Compute")
    case True
    show ?thesis
    proof (cases "computes A (it0 s)")
      case c: True
      then have "it0 s - 1 < app_tiles A" by (auto simp: computes_def)
      then obtain c' where "app_launch A (it0 s - 1) (csrs s) = Some c'"
        using app(2) by (auto simp: returns_def)
      with True c show ?thesis using tiled_step.launch by blast
    next
      case False
      with True show ?thesis using tiled_step.no_tile by blast
    qed
  next
    case False
    with p(3) that have a: "pc0 s = Await" "computes A (it0 s)" by (auto simp: core0_part_def)
    then have "it0 s - 1 < app_tiles A" by (auto simp: computes_def)
    then obtain c' where "app_wait A (it0 s - 1) (csrs s) = Some c'"
      using app(2) by (auto simp: returns_def)
    with a show ?thesis
      using tiled_step.awaited tiled_step.accel_step by (cases "busy_ops s") blast+
  qed
  show ?thesis using dm core0 tiled_step.barrier by blast
qed

lemma tiled_reaches_end:
  assumes app: "app_ok h A accel ops ready" "returns A" and inv: "tiled_inv h A ops ready m s"
  shows "\<exists>t. (tiled_step h A accel)\<^sup>*\<^sup>* s t \<and> tiled_finished t"
  using inv
proof (induction s rule: wf_induct_rule [OF wf_tiled_measure [of A]])
  case (1 s)
  note IH = 1(1) and inv = 1(2)
  show "\<exists>t. (tiled_step h A accel)\<^sup>*\<^sup>* s t \<and> tiled_finished t"
  proof (cases "tiled_finished s")
    case False
    then obtain t where t: "tiled_step h A accel s t" using tiled_progress [OF app inv] by blast
    have "it0 s < app_iterations A" using inv False by (rule tiled_inv_parts)
    then have "(t, s) \<in> tiled_measure A" using t by (rule tiled_step_decreases)
    moreover have "tiled_inv h A ops ready m t"
      using app(1) inv t by (auto simp: app_ok_def intro: tiled_inv_step)
    ultimately obtain u where "(tiled_step h A accel)\<^sup>*\<^sup>* t u" "tiled_finished u" using IH by blast
    with t show ?thesis by (blast intro: converse_rtranclp_into_rtranclp)
  qed blast
qed

section \<open>The sequential program\<close>

text \<open>
  One tile after the other: load, compute, store. A tile's load must not conflict with the stores
  of the two tiles before it.
\<close>

definition tile_seq :: "hart \<Rightarrow> tiled_app \<Rightarrow> (nat \<Rightarrow> mem_op list) \<Rightarrow> nat \<Rightarrow> mem_op" where
  "tile_seq h A ops t m = store_op h A t (run_ops (ops t) (load_op h A t m))"

definition sequential :: "hart \<Rightarrow> tiled_app \<Rightarrow> (nat \<Rightarrow> mem_op list) \<Rightarrow> nat \<Rightarrow> mem_op" where
  "sequential h A ops n = for_up 0 n (tile_seq h A ops)"

definition loads_independent :: "hart \<Rightarrow> tiled_app \<Rightarrow> bool" where
  "loads_independent h A \<longleftrightarrow> (\<forall>i. \<forall>j \<in> {1, 2}. j \<le> i \<and> i < app_tiles A \<longrightarrow>
     commute (load_op h A i) (store_op h A (i - j)))"

lemma commute_apply: "commute f g \<Longrightarrow> f (g m) = g (f m)"
  by (simp add: commute_def)

lemma iteration_eq:
  "iteration h A ops i m = run_ops (tile_ops A ops i)
     ((if 2 \<le> i then store_op h A (i - 2) else id) ((if i < app_tiles A then load_op h A i else id) m))"
  by (simp add: iteration_def dm_transfers_def load_op_def store_op_def)

lemma load_commutes_compute:
  assumes "conflict_free h A ops" and "i < app_tiles A" and "1 \<le> i"
  shows "commute (load_op h A i) (run_ops (ops (i - 1)))"
  unfolding load_op_def
proof (rule commute_lists)
  fix f g
  assume f: "f \<in> set (map (copy_op h) (app_load A i))" and g: "g \<in> set (ops (i - 1))"
  from f obtain t where t: "f = copy_op h t" "t \<in> set (dm_transfers A i)"
    using assms(2) by (auto simp: dm_transfers_def)
  have "g \<in> set (tile_ops A ops i)" using g assms(2,3) by (simp add: tile_ops_def computes_def)
  moreover have "i < app_iterations A" using assms(2) by (simp add: app_iterations_def)
  ultimately show "commute f g" using assms(1) t unfolding conflict_free_def by (blast intro: commute_sym)
qed

lemma iterations_ahead:
  assumes "conflict_free h A ops" and "loads_independent h A" and "Suc i < app_tiles A"
  shows "iterations h A ops (Suc (Suc i)) m =
    load_op h A (Suc i) (run_ops (ops i) (load_op h A i (sequential h A ops i m)))"
  using assms(3)
proof (induction i)
  case 0
  then show ?case
    using commute_apply [OF load_commutes_compute [OF assms(1), of 1]]
    by (simp add: iterations_Suc iteration_eq tile_ops_def computes_def sequential_def)
      (simp add: iterations_def)
next
  case (Suc i)
  let ?m = "sequential h A ops i m"
  have step: "iteration h A ops (Suc (Suc i)) x =
      run_ops (ops (Suc i)) (store_op h A i (load_op h A (Suc (Suc i)) x))" for x
    using Suc.prems by (simp add: iteration_eq tile_ops_def computes_def)
  have c1: "commute (load_op h A (Suc (Suc i))) (run_ops (ops (Suc i)))"
    using load_commutes_compute [OF assms(1) Suc.prems] by simp
  have c2: "commute (load_op h A (Suc (Suc i))) (store_op h A i)"
    and c3: "commute (load_op h A (Suc i)) (store_op h A i)"
    using assms(2) Suc.prems unfolding loads_independent_def
    by (auto dest: spec [of _ "Suc (Suc i)"] spec [of _ "Suc i"])
  have "iterations h A ops (Suc (Suc (Suc i))) m = run_ops (ops (Suc i)) (store_op h A i
      (load_op h A (Suc (Suc i)) (load_op h A (Suc i) (run_ops (ops i) (load_op h A i ?m)))))"
    using Suc by (simp add: iterations_Suc [of h A ops "Suc (Suc i)"] step)
  also have "\<dots> = load_op h A (Suc (Suc i)) (run_ops (ops (Suc i)) (load_op h A (Suc i)
      (store_op h A i (run_ops (ops i) (load_op h A i ?m)))))"
    by (simp only: commute_apply [OF c1] commute_apply [OF c2] commute_apply [OF c3])
  finally show ?case by (simp add: sequential_def for_up_Suc tile_seq_def)
qed

text \<open>The whole pipeline computes what the sequential program computes.\<close>

lemma iterations_sequential:
  assumes "conflict_free h A ops" and "loads_independent h A"
  shows "iterations h A ops (app_iterations A) m = sequential h A ops (app_tiles A) m"
proof (cases "app_tiles A")
  case 0
  then show ?thesis
    by (simp add: app_iterations_def numeral_2_eq_2 iterations_Suc iteration_eq tile_ops_def computes_def
      sequential_def) (simp add: iterations_def)
next
  case n: (Suc n)
  show ?thesis
  proof (cases n)
    case 0
    then show ?thesis
      using n by (simp add: app_iterations_def numeral_2_eq_2 eval_nat_numeral iterations_Suc iteration_eq
        tile_ops_def computes_def sequential_def for_up_Suc tile_seq_def)
        (simp add: iterations_def)
  next
    case (Suc k)
    let ?m = "sequential h A ops k m"
    have last: "iteration h A ops (Suc (Suc k)) x = run_ops (ops (Suc k)) (store_op h A k x)"
      "iteration h A ops (Suc (Suc (Suc k))) x = store_op h A (Suc k) x" for x
      using n Suc by (simp_all add: iteration_eq tile_ops_def computes_def)
    have c: "commute (load_op h A (Suc k)) (store_op h A k)"
      using assms(2) n Suc unfolding loads_independent_def by (auto dest: spec [of _ "Suc k"])
    have "iterations h A ops (app_iterations A) m = store_op h A (Suc k) (run_ops (ops (Suc k))
        (store_op h A k (load_op h A (Suc k) (run_ops (ops k) (load_op h A k ?m)))))"
      using iterations_ahead [OF assms, of k m] n Suc
      by (simp add: app_iterations_def iterations_Suc [of h A ops "Suc (Suc k)"]
        iterations_Suc [of h A ops "Suc (Suc (Suc k))"] last)
    also have "\<dots> = tile_seq h A ops (Suc k) (tile_seq h A ops k ?m)"
      by (simp only: tile_seq_def commute_apply [OF c])
    finally show ?thesis using n Suc by (simp add: sequential_def for_up_Suc)
  qed
qed

text \<open>From the start: the memory that every finished run leaves, and that all runs can finish.\<close>

lemma tiled_run_inv:
  assumes "app_ok h A accel ops ready" and "idle_start A ready m s" and "(tiled_step h A accel)\<^sup>*\<^sup>* s t"
  shows "tiled_inv h A ops ready m t"
  using tiles.reachable_inv [of h A accel ops ready m s t] assms by simp

lemma finished_memory:
  assumes "app_ok h A accel ops ready" and "loads_independent h A" and "idle_start A ready m s"
    and "(tiled_step h A accel)\<^sup>*\<^sup>* s t" and "tiled_finished t"
  shows "dma_mem (engine t) = sequential h A ops (app_tiles A) m"
  using tiled_inv_finished(1) [OF tiled_run_inv [OF assms(1,3,4)] assms(5)]
    iterations_sequential [OF _ assms(2)] assms(1)
  by (simp add: app_ok_def)

lemma runs_finish:
  assumes "app_ok h A accel ops ready" and "returns A" and "idle_start A ready m s"
    and "(tiled_step h A accel)\<^sup>*\<^sup>* s t"
  shows "\<exists>u. (tiled_step h A accel)\<^sup>*\<^sup>* t u \<and> tiled_finished u"
  by (rule tiled_reaches_end [OF assms(1,2) tiled_run_inv [OF assms(1,3,4)]])

end
