(* ===== verification/Simba_tiles.thy ===== *)
theory Simba_tiles
  imports Tiling
begin

text \<open>
  What the tiled SimbaCore applications share: the configuration that the accelerator finds in its
  registers when it is started, how it changes when a pointer is rewritten between tiles, the
  register effects of starting and waiting, and the buffers of a layout in memory.
\<close>

section \<open>The configuration of an accelerator run\<close>

definition port_starts :: "port \<Rightarrow> agu_cfg \<Rightarrow> bool" where
  "port_starts p c = (case p of Reader _ \<Rightarrow> reader_starts c | _ \<Rightarrow> writer_starts c)"

definition simba_dim_regs :: "simbacore_reg list" where
  "simba_dim_regs = [MODE, SEQ_LEN, D_MODEL, D_INNER, DT_RANK, D_FINAL]"

text \<open>The enabled ports hold their arguments, the others do not start, the sizes are set.\<close>

definition port_set ::
  "streamer_map \<Rightarrow> (port \<Rightarrow> bool) \<Rightarrow> (port \<Rightarrow> stream_args) \<Rightarrow> (u32 \<Rightarrow> u32) \<Rightarrow> port \<Rightarrow> bool" where
  "port_set m en a f p \<longleftrightarrow>
     (if en p then port_cfg (regs_of m p) f = args_cfg (regs_of m p) (a p)
      else \<not> port_starts p (port_cfg (regs_of m p) f))"

definition simba_configured ::
  "streamer_map \<Rightarrow> (port \<Rightarrow> bool) \<Rightarrow> (port \<Rightarrow> stream_args) \<Rightarrow> u32 list \<Rightarrow> (u32 \<Rightarrow> u32) \<Rightarrow> bool" where
  "simba_configured m en a dims f \<longleftrightarrow>
     (\<forall>p \<in> set simba_ports. port_set m en a f p) \<and>
     map (\<lambda>r. f (simbacore_csr m r)) simba_dim_regs = dims"

text \<open>The registers of the ports, of the sizes and of the start bits are all different.\<close>

definition control_regs :: "streamer_map \<Rightarrow> u32 list" where
  "control_regs m = [STREAMER_START_CSR m, simbacore_csr m SIMBACORE_START,
     DELAYED_START_READER m 10, DELAYED_START_READER m 11]"

definition simba_layout :: "streamer_map \<Rightarrow> bool" where
  "simba_layout m \<longleftrightarrow> static_asserts m \<and>
     distinct (ports_addrs m simba_ports @ control_regs m @ map (simbacore_csr m) simba_dim_regs)"

text \<open>
  A disabled reader stays stopped unless its innermost stride is 0 and its other bounds are not
  (see \<open>streamer_ports_configured\<close>): the registers before the configuration must not be so.
\<close>

definition no_stale_reader :: "streamer_map \<Rightarrow> (port \<Rightarrow> bool) \<Rightarrow> (u32 \<Rightarrow> u32) \<Rightarrow> bool" where
  "no_stale_reader m en f \<longleftrightarrow> (\<forall>p \<in> set simba_ports. \<not> en p \<longrightarrow>
     \<not> (f (t_stride_base (regs_of m p)) = 0 \<and>
        (\<forall>i \<in> {1..<4}. f (t_bound_base (regs_of m p) + word_of_nat i) \<noteq> 0)))"

lemma simba_layout_ports:
  assumes "simba_layout m"
  shows "static_asserts m" "distinct (ports_addrs m simba_ports)"
  using assms by (simp_all add: simba_layout_def)

lemma layout_port_other:
  assumes "simba_layout m" and "p \<in> set simba_ports"
    and "x \<in> set (control_regs m) \<union> simbacore_csr m ` set simba_dim_regs"
  shows "x \<notin> set (stream_addrs (regs_of m p))"
  using assms unfolding simba_layout_def ports_addrs_def
  by (auto simp del: simba_ports_simps)

lemma dims_update:
  assumes "x \<notin> simbacore_csr m ` set rs"
  shows "map (\<lambda>r. (f(x := v)) (simbacore_csr m r)) rs = map (\<lambda>r. f (simbacore_csr m r)) rs"
  using assms by auto

lemma configured_update:
  assumes "simba_configured m en a dims f"
    and "\<And>p. p \<in> set simba_ports \<Longrightarrow> x \<notin> set (stream_addrs (regs_of m p))"
    and "x \<notin> simbacore_csr m ` set simba_dim_regs"
  shows "simba_configured m en a dims (f(x := v))"
proof -
  have "port_set m en a (f(x := v)) p = port_set m en a f p" if "p \<in> set simba_ports" for p
  proof -
    have "port_cfg (regs_of m p) (f(x := v)) = port_cfg (regs_of m p) f"
      using assms(2) [OF that] by (intro port_cfg_cong) auto
    then show ?thesis by (simp add: port_set_def)
  qed
  then show ?thesis
    using assms(1) dims_update [OF assms(3), of f v] unfolding simba_configured_def by simp
qed

lemma configured_control:
  assumes "simba_layout m" and "x \<in> set (control_regs m)" and "simba_configured m en a dims f"
  shows "simba_configured m en a dims (f(x := v))"
proof (rule configured_update [OF assms(3)])
  show "x \<notin> simbacore_csr m ` set simba_dim_regs"
    using assms(1,2) by (auto simp: simba_layout_def)
qed (use layout_port_other [OF assms(1)] assms(2) in blast)

lemma configured_pointer:
  assumes "simba_layout m" and "p \<in> set simba_ports" and "simba_configured m en a dims f"
    and "en p"
  shows "simba_configured m en (a(p := (a p)\<lparr>arg_ptr := v\<rparr>)) dims (f(base_ptr_low (regs_of m p) := v))"
    (is "simba_configured m en ?a dims ?f")
proof -
  let ?x = "base_ptr_low (regs_of m p)"
  have x: "?x \<in> set (stream_addrs (regs_of m p))" by (simp add: stream_addrs_def)
  note d = simba_layout_ports(2) [OF assms(1)]
  have same: "port_cfg (regs_of m p) ?f = (port_cfg (regs_of m p) f)\<lparr>agu_ptr := v\<rparr>"
    using distinct_port [OF d assms(2)]
    by (auto simp: port_cfg_def block_values_def stream_addrs_def intro!: map_cong)
  have other: "port_cfg (regs_of m q) ?f = port_cfg (regs_of m q) f"
    if "q \<in> set simba_ports" "q \<noteq> p" for q
    using ports_addrs_disjoint [OF d that(1) assms(2) that(2)] x by (intro port_cfg_cong) auto
  have "?x \<notin> simbacore_csr m ` set simba_dim_regs"
    using layout_port_other [OF assms(1,2)] x by blast
  note dims = dims_update [OF this, of f v]
  have "port_set m en ?a ?f q" if "q \<in> set simba_ports" for q
    using assms(3,4) same other [OF that] that
    by (cases "q = p") (auto simp: simba_configured_def port_set_def args_cfg_def)
  then show ?thesis using assms(3) dims unfolding simba_configured_def by simp
qed

lemma configured_ptr:
  assumes "simba_configured m en a dims f" and "p \<in> set simba_ports" and "en p"
  shows "f (base_ptr_low (regs_of m p)) = arg_ptr (a p)"
proof -
  have "port_cfg (regs_of m p) f = args_cfg (regs_of m p) (a p)"
    using assms by (simp add: simba_configured_def port_set_def)
  from arg_cong [where f = agu_ptr, OF this] show ?thesis by (simp add: port_cfg_def args_cfg_def)
qed

text \<open>The configuration functions establish it.\<close>

lemma set_simbacore_csr_dims:
  assumes "simba_layout m"
  shows "map (\<lambda>r. csr_file (write_csrs (set_simbacore_csr m md sl dm di dr df) s) (simbacore_csr m r))
    simba_dim_regs = [md, sl, dm, di, dr, df]"
  using assms by (auto simp: simba_layout_def simba_dim_regs_def set_simbacore_csr_def)

lemma set_simbacore_csr_ports:
  assumes "simba_layout m" and "p \<in> set simba_ports"
  shows "port_cfg (regs_of m p) (csr_file (write_csrs (set_simbacore_csr m md sl dm di dr df) s)) =
    port_cfg (regs_of m p) (csr_file s)"
proof (rule port_cfg_cong)
  fix x
  assume "x \<in> set (stream_addrs (regs_of m p))"
  then have "x \<notin> simbacore_csr m ` set simba_dim_regs"
    using layout_port_other [OF assms] by blast
  then have "x \<notin> fst ` set (set_simbacore_csr m md sl dm di dr df)"
    by (auto simp: set_simbacore_csr_def simba_dim_regs_def)
  then show "csr_file (write_csrs (set_simbacore_csr m md sl dm di dr df) s) x = csr_file s x"
    by (rule csr.rd_writes_other)
qed

lemma configured_setup:
  assumes "simba_layout m" and "no_stale_reader m en (csr_file s)"
  shows "simba_configured m en a [md, sl, dm, di, dr, df]
    (csr_file (write_csrs (set_streamer_csr m en a @ set_simbacore_csr m md sl dm di dr df) s))"
proof -
  note lay = simba_layout_ports [OF assms(1)]
  let ?s = "write_csrs (set_streamer_csr m en a) s"
  have set: "port_set m en a (csr_file ?s) p" if p: "p \<in> set simba_ports" for p
  proof (cases "en p")
    case True
    then show ?thesis
      using set_streamer_enabled [where p = p and en = en, OF lay p] by (simp add: port_set_def)
  next
    case False
    then have "\<not> (csr_file s (t_stride_base (regs_of m p)) = 0 \<and>
        (\<forall>i \<in> {1..<4}. csr_file s (t_bound_base (regs_of m p) + word_of_nat i) \<noteq> 0))"
      using assms(2) p unfolding no_stale_reader_def by blast
    then show ?thesis
      using disabled_reader_iff [where p = p and en = en and a = a and s = s, OF lay p False]
        disabled_writer [where p = p and en = en and a = a and s = s, OF lay p False] False
      unfolding port_set_def port_starts_def by (cases p) (simp_all only: if_False port.case simp_thms)
  qed
  have "port_set m en a (csr_file (write_csrs (set_streamer_csr m en a @
      set_simbacore_csr m md sl dm di dr df) s)) p" if "p \<in> set simba_ports" for p
    using set [OF that] set_simbacore_csr_ports [OF assms(1) that] by (simp add: port_set_def)
  then show ?thesis
    using set_simbacore_csr_dims [OF assms(1)] by (simp add: simba_configured_def)
qed


section \<open>Starting and waiting\<close>

definition start_file :: "streamer_map \<Rightarrow> bool \<Rightarrow> bool \<Rightarrow> (u32 \<Rightarrow> u32) \<Rightarrow> u32 \<Rightarrow> u32" where
  "start_file m e10 e11 f =
     (let f1 = f(STREAMER_START_CSR m := 1, simbacore_csr m SIMBACORE_START := 1);
          f2 = (if e10 then f1(DELAYED_START_READER m 10 := 1) else f1)
      in if e11 then f2(DELAYED_START_READER m 11 := 1) else f2)"

definition wait_file :: "streamer_map \<Rightarrow> (u32 \<Rightarrow> u32) \<Rightarrow> u32 \<Rightarrow> u32" where
  "wait_file m f = f(STREAMER_START_CSR m := 0, simbacore_csr m SIMBACORE_START := 0,
     DELAYED_START_READER m 10 := 0, DELAYED_START_READER m 11 := 0)"

lemma start_delayed_file:
  "start_delayed hw m gauge r en cnt s = Some t \<Longrightarrow>
    csr_file t = (if en then (csr_file s)(DELAYED_START_READER m r := 1) else csr_file s)"
  by (auto simp: start_delayed_def csr_poll_frame split: if_splits)

lemma start_simbacore_file:
  assumes "start_simbacore_and_streamers hw m e10 c10 e11 c11 s = Some t"
  shows "csr_file t = start_file m e10 e11 (csr_file s)"
proof -
  obtain u where u: "start_delayed hw m R10_DELAY_GAUGE 10 e10 c10
      (set_simbacore_start m (set_streamer_start m s)) = Some u"
    "start_delayed hw m R11_DELAY_GAUGE 11 e11 c11 u = Some t"
    using assms by (auto simp: start_simbacore_and_streamers_def bind_eq_Some_conv)
  show ?thesis
    using start_delayed_file [OF u(1)] start_delayed_file [OF u(2)]
    by (simp add: start_file_def set_simbacore_start_def set_streamer_start_def Let_def)
qed

lemma wait_simbacore_file:
  assumes "wait_simbacore_and_streamer hw m s = Some t"
  shows "csr_file t = wait_file m (csr_file s)"
  using assms
  by (auto simp: wait_simbacore_and_streamer_def bind_eq_Some_conv csr_poll_frame wait_file_def)

text \<open>A count of 0 is reached at once; the wait returns if the flags are low again and again.\<close>

lemma start_delayed_0: "start_delayed hw m gauge r en 0 s \<noteq> None"
proof -
  let ?P = "\<lambda>v :: u32. \<not> v < 0"
  have "?P (csr_value hw (simbacore_csr m gauge) ((csr_tick ^^ 0) s))" by simp
  from csr_poll_returns [where P = ?P, OF this] show ?thesis by (auto simp: start_delayed_def)
qed

lemma start_simbacore_0: "start_simbacore_and_streamers hw m e10 0 e11 0 s \<noteq> None"
  using start_delayed_0 [of hw m R10_DELAY_GAUGE 10 e10 "set_simbacore_start m (set_streamer_start m s)"]
    start_delayed_0 [of hw m R11_DELAY_GAUGE 11 e11]
  by (auto simp: start_simbacore_and_streamers_def bind_eq_None_conv)

definition idle_again :: "hardware \<Rightarrow> u32 \<Rightarrow> bool" where
  "idle_again hw a \<longleftrightarrow> (\<forall>k. \<exists>j \<ge> k. hw j a = Some 0)"

lemma poll_idle_again:
  assumes "idle_again hw a"
  shows "csr_poll hw a (\<lambda>v. v = 0) s \<noteq> None"
proof -
  obtain j where j: "csr_now s \<le> j" "hw j a = Some 0" using assms by (auto simp: idle_again_def)
  then have "csr_value hw a ((csr_tick ^^ (j - csr_now s)) s) = 0" by (simp add: csr_value_def)
  from csr_poll_returns [where P = "\<lambda>v. v = 0", OF this] show ?thesis by auto
qed

lemma wait_simbacore_idle:
  assumes "idle_again hw (simbacore_csr m SIMBACORE_BUSY)" and "idle_again hw (STREAMER_BUSY_CSR m)"
  shows "wait_simbacore_and_streamer hw m s \<noteq> None"
  using poll_idle_again [OF assms(1)] poll_idle_again [OF assms(2)]
  by (auto simp: wait_simbacore_and_streamer_def bind_eq_None_conv)

lemma configured_start:
  assumes "simba_layout m" and "simba_configured m en a dims f"
  shows "simba_configured m en a dims (start_file m e10 e11 f)"
  using configured_control [OF assms(1)] assms(2)
  by (auto simp: start_file_def Let_def control_regs_def)

lemma configured_wait:
  assumes "simba_layout m" and "simba_configured m en a dims f"
  shows "simba_configured m en a dims (wait_file m f)"
  unfolding wait_file_def
  by (intro configured_control [OF assms(1)] assms(2)) (simp_all add: control_regs_def)

section \<open>Buffers\<close>

definition bytes :: "wmem \<Rightarrow> u64 \<Rightarrow> nat \<Rightarrow> u8 list" where
  "bytes m p n = map (\<lambda>i. m (p + word_of_nat i)) [0..<n]"

lemma length_bytes [simp]: "length (bytes m p n) = n"
  by (simp add: bytes_def)

lemma bytes_cong:
  assumes "n \<le> 2 ^ 64" and "\<And>x. x \<in> wregion p n \<Longrightarrow> m x = m' x"
  shows "bytes m p n = bytes m' p n"
  using assms wregion_mem [of _ n p] by (simp add: bytes_def)

lemma bytes_outside:
  assumes "footprint R W f" and "W \<inter> wregion p n = {}" and "n \<le> 2 ^ 64"
  shows "bytes (f m) p n = bytes m p n"
  by (rule bytes_cong [OF assms(3)]) (use assms(2) in \<open>auto intro!: footprint_outside [OF assms(1)]\<close>)

lemma bytes_run_ops_outside:
  assumes "\<And>f. f \<in> set fs \<Longrightarrow> footprint (R f) W f" and "W \<inter> wregion p n = {}" and "n \<le> 2 ^ 64"
  shows "bytes (run_ops fs m) p n = bytes m p n"
  using assms(1)
proof (induction fs arbitrary: m)
  case (Cons f fs)
  have "bytes (f m) p n = bytes m p n"
    using Cons.prems assms(2,3) by (intro bytes_outside [of "R f" W]) simp_all
  with Cons show ?case by simp
qed simp

lemma bytes_copied:
  assumes "transfer_ok h (dst, src, sz)"
  shows "bytes (copy_op h (dst, src, sz) m) (wideptr h dst) (unat sz) = bytes m (wideptr h src) (unat sz)"
proof -
  have "unat (word_of_nat i :: u64) = i" if "i < unat sz" for i
    using that unat_u32_bound [of sz] by (intro unat_of_nat_small) simp
  then show ?thesis by (simp add: bytes_def copy_op_apply [OF assms])
qed

text \<open>Buffers one after the other in the 32-bit address space do not overlap.\<close>

definition buffer :: "hart \<Rightarrow> u32 \<Rightarrow> u32 \<Rightarrow> u64 set" where
  "buffer h p sz = wregion (wideptr h p) (unat sz)"

lemma wideptr_add:
  assumes "unat p + n < 2 ^ 32"
  shows "wideptr h (p + word_of_nat n) = wideptr h p + word_of_nat n"
proof -
  have n: "unat (word_of_nat n :: u32) = n" by (rule unat_of_nat_small) (use assms in simp)
  then have e: "unat (p + word_of_nat n) = unat p + n"
    using assms by (subst unat_add_small) simp_all
  have "(ucast (p + word_of_nat n) :: u64) = word_of_nat (unat (p + word_of_nat n))" by simp
  also have "\<dots> = ucast p + word_of_nat n" unfolding e by simp
  finally show ?thesis by (simp add: wideptr_def)
qed

lemma buffers_disjoint:
  assumes "unat p + unat n \<le> unat q" and "unat q + unat k \<le> 2 ^ 32"
  shows "buffer h p n \<inter> buffer h q k = {}"
proof (cases "unat k = 0")
  case True
  then show ?thesis by (simp add: buffer_def wregion_def)
next
  case False
  define b where "b = unat q - unat p"
  have b: "unat p + b = unat q" "unat n \<le> b" using assms(1) by (simp_all add: b_def)
  have "word_of_nat b = q - p" using b(1) unfolding b_def by (subst of_nat_diff) simp_all
  then have q: "q = p + word_of_nat b" by simp
  have "unat p + b < 2 ^ 32" using unat_u32_bound [of q] b(1) by simp
  then have w: "wideptr h q = wideptr h p + word_of_nat b" unfolding q by (rule wideptr_add)
  have "unat (x - (wideptr h p + word_of_nat b)) < unat k \<longleftrightarrow>
      b \<le> unat (x - wideptr h p) \<and> unat (x - wideptr h p) < b + unat k" for x
    by (rule addr_shift(1)) (use assms(2) b(1) False in simp_all)
  then show ?thesis using b(2) by (auto simp: buffer_def wregion_def w)
qed


lemma buffers_apart:
  assumes "unat p + unat n \<le> unat q \<or> unat q + unat k \<le> unat p"
    and "unat p + unat n \<le> 2 ^ 32" and "unat q + unat k \<le> 2 ^ 32"
  shows "buffer h p n \<inter> buffer h q k = {}"
  using assms buffers_disjoint [of p n q k h] buffers_disjoint [of q k p n h] by (auto simp: Int_commute)

lemma buffer_footprint:
  "transfer_ok h (dst, src, sz) \<Longrightarrow> footprint (buffer h src sz) (buffer h dst sz) (copy_op h (dst, src, sz))"
  using copy_footprint [of h "(dst, src, sz)"] by (simp add: buffer_def)

lemma transfer_ok_buffers:
  "transfer_ok h (dst, src, sz) \<longleftrightarrow> 0 < sz \<and> buffer h dst sz \<inter> buffer h src sz = {}"
  by (simp add: buffer_def transfer_ok.simps)

definition contents :: "hart \<Rightarrow> wmem \<Rightarrow> u32 \<Rightarrow> u32 \<Rightarrow> u8 list" where
  "contents h m p sz = bytes m (wideptr h p) (unat sz)"

lemma contents_outside:
  assumes "footprint R W f" and "W \<inter> buffer h p sz = {}"
  shows "contents h (f m) p sz = contents h m p sz"
  using bytes_outside [OF assms(1) assms(2) [unfolded buffer_def] unat_u32_le_64]
  by (simp add: contents_def)

lemma contents_run_ops:
  assumes "\<And>f. f \<in> set fs \<Longrightarrow> footprint (R f) W f" and "W \<inter> buffer h p sz = {}"
  shows "contents h (run_ops fs m) p sz = contents h m p sz"
  using bytes_run_ops_outside [OF assms(1) assms(2) [unfolded buffer_def] unat_u32_le_64]
  by (simp add: contents_def)

lemma contents_copied:
  "transfer_ok h (dst, src, sz) \<Longrightarrow> contents h (copy_op h (dst, src, sz) m) dst sz = contents h m src sz"
  unfolding contents_def by (rule bytes_copied)

end
