(* ===== verification/Osgemm_tiled.thy ===== *)
theory Osgemm_tiled
  imports Simba_tiles
begin

text \<open>
  The application osgemm-tiled (sw/apps/osgemm-tiled/src/main.c): a matrix product whose second
  operand is cut into tiles. The first operand stays in L1; the tiles of the second are loaded,
  multiplied and their results stored, double-buffered, in the pipeline of the theory Tiling.
  Sizes, pointers into L3 and stream arguments come from a generated header, the record
  \<open>osgemm_data\<close>.
\<close>

section \<open>The program\<close>

record osgemm_data =
  tcdm_base_ptr :: u32
  M3_A :: u32
  M3_B :: u32
  M3_length_a :: u32
  M3_length_b_tile :: u32
  M3_length_d_tile :: u32
  nb_tiles :: nat
  M3_R0 :: stream_args
  M3_R1 :: stream_args
  M3_W0 :: stream_args
  M3_OSGEMM :: u32
  dim0 :: u32
  dim1 :: u32
  M3_dim2_tile :: u32
  M3_R10_en :: bool
  M3_R11_en :: bool

text \<open>The buffers, one after the other: A, B0, B1, D0, D1, the result.\<close>

definition ptr_a :: "osgemm_data \<Rightarrow> u32" where
  "ptr_a d = tcdm_base_ptr d"

definition ptr_b :: "osgemm_data \<Rightarrow> nat \<Rightarrow> u32" where
  "ptr_b d buf = (if buf = 0 then ptr_a d + M3_length_a d
     else ptr_a d + M3_length_a d + M3_length_b_tile d)"

definition ptr_d :: "osgemm_data \<Rightarrow> nat \<Rightarrow> u32" where
  "ptr_d d buf = (if buf = 0 then ptr_b d 1 + M3_length_b_tile d
     else ptr_b d 1 + M3_length_b_tile d + M3_length_d_tile d)"

definition ptr_d_out :: "osgemm_data \<Rightarrow> u32" where
  "ptr_d_out d = ptr_d d 1 + M3_length_d_tile d"

text \<open>Before the loop: the DM core loads A, core 0 configures the accelerator.\<close>

definition osgemm_preload :: "(nat \<Rightarrow> nat) \<Rightarrow> hart \<Rightarrow> osgemm_data \<Rightarrow> dma \<Rightarrow> dma option" where
  "osgemm_preload prog h d e =
     snrt_dma_wait_all prog (start_transfer h (ptr_a d, M3_A d, M3_length_a d) e)"

definition osgemm_setup :: "streamer_map \<Rightarrow> osgemm_data \<Rightarrow> csr_state \<Rightarrow> csr_state" where
  "osgemm_setup m d = write_csrs
     (set_osgemm_streamer_csr m ((M3_R0 d)\<lparr>arg_ptr := ptr_a d\<rparr>) ((M3_R1 d)\<lparr>arg_ptr := ptr_b d 0\<rparr>)
        ((M3_W0 d)\<lparr>arg_ptr := ptr_d d 0\<rparr>) @
      set_simbacore_csr m (M3_OSGEMM d) (dim0 d) (dim1 d) (M3_dim2_tile d) 1 1)"

text \<open>The stages of the loop.\<close>

definition osgemm_load :: "osgemm_data \<Rightarrow> nat \<Rightarrow> transfer list" where
  "osgemm_load d i = [(ptr_b d (i mod 2), M3_B d + word_of_nat i * M3_length_b_tile d, M3_length_b_tile d)]"

definition osgemm_store :: "osgemm_data \<Rightarrow> nat \<Rightarrow> transfer list" where
  "osgemm_store d tile =
     [(ptr_d_out d + word_of_nat tile * M3_length_d_tile d, ptr_d d (tile mod 2), M3_length_d_tile d)]"

definition osgemm_launch ::
  "hardware \<Rightarrow> streamer_map \<Rightarrow> osgemm_data \<Rightarrow> nat \<Rightarrow> csr_state \<Rightarrow> csr_state option" where
  "osgemm_launch hw m d tile c =
     start_simbacore_and_streamers hw m (M3_R10_en d) 0 (M3_R11_en d) 0
       (write_csrs [(base_ptr_low (regs_of m (Reader 1)), ptr_b d (tile mod 2)),
          (base_ptr_low (regs_of m (Writer 0)), ptr_d d (tile mod 2))] c)"

definition osgemm_wait :: "hardware \<Rightarrow> streamer_map \<Rightarrow> csr_state \<Rightarrow> csr_state option" where
  "osgemm_wait hw m c =
     map_option (\<lambda>c. snd (read_simbacore_perf_counter hw m c)) (wait_simbacore_and_streamer hw m c)"

definition osgemm_app :: "hardware \<Rightarrow> streamer_map \<Rightarrow> osgemm_data \<Rightarrow> tiled_app" where
  "osgemm_app hw m d = \<lparr>app_tiles = nb_tiles d, app_load = osgemm_load d, app_store = osgemm_store d,
     app_launch = osgemm_launch hw m d, app_running = (\<lambda>_ c. c), app_wait = (\<lambda>_. osgemm_wait hw m)\<rparr>"

section \<open>What the program relies on\<close>

text \<open>The buffers fit into the address space and the operands in L3 are apart from them.\<close>

definition osgemm_bytes :: "osgemm_data \<Rightarrow> nat" where
  "osgemm_bytes d = unat (M3_length_a d) + 2 * unat (M3_length_b_tile d) +
     2 * unat (M3_length_d_tile d) + nb_tiles d * unat (M3_length_d_tile d)"

definition outside_block :: "u32 \<Rightarrow> nat \<Rightarrow> u32 \<Rightarrow> nat \<Rightarrow> bool" where
  "outside_block base len p n \<longleftrightarrow> unat p + n \<le> 2 ^ 32 \<and>
     (unat p + n \<le> unat base \<or> unat base + len \<le> unat p)"

definition osgemm_fits :: "osgemm_data \<Rightarrow> bool" where
  "osgemm_fits d \<longleftrightarrow> 0 < M3_length_a d \<and> 0 < M3_length_b_tile d \<and> 0 < M3_length_d_tile d \<and>
     unat (tcdm_base_ptr d) + osgemm_bytes d \<le> 2 ^ 32 \<and>
     outside_block (tcdm_base_ptr d) (osgemm_bytes d) (M3_A d) (unat (M3_length_a d)) \<and>
     outside_block (tcdm_base_ptr d) (osgemm_bytes d) (M3_B d) (nb_tiles d * unat (M3_length_b_tile d))"

definition osgemm_en :: "port \<Rightarrow> bool" where
  "osgemm_en p \<longleftrightarrow> p \<in> {Reader 0, Reader 1, Writer 0}"

definition osgemm_args :: "osgemm_data \<Rightarrow> nat \<Rightarrow> port \<Rightarrow> stream_args" where
  "osgemm_args d buf = (\<lambda>_. (M3_R0 d)\<lparr>arg_ptr := ptr_a d\<rparr>)
     (Reader 1 := (M3_R1 d)\<lparr>arg_ptr := ptr_b d buf\<rparr>, Writer 0 := (M3_W0 d)\<lparr>arg_ptr := ptr_d d buf\<rparr>)"

definition osgemm_dims :: "osgemm_data \<Rightarrow> u32 list" where
  "osgemm_dims d = [M3_OSGEMM d, dim0 d, dim1 d, M3_dim2_tile d, 1, 1]"

text \<open>
  The accelerator, configured for a tile in slot \<open>buf\<close>, reads A and that slot's B, writes that
  slot's D only, and leaves the product there: the function \<open>gemm\<close> of the two operands.
\<close>

definition osgemm_contract ::
  "hart \<Rightarrow> streamer_map \<Rightarrow> osgemm_data \<Rightarrow> ((u32 \<Rightarrow> u32) \<Rightarrow> mem_op list) \<Rightarrow>
   (u8 list \<Rightarrow> u8 list \<Rightarrow> u8 list) \<Rightarrow> bool" where
  "osgemm_contract h m d accel gemm \<longleftrightarrow>
     (\<forall>f. \<forall>buf < 2. simba_configured m osgemm_en (osgemm_args d buf) (osgemm_dims d) f \<longrightarrow>
       (\<forall>op \<in> set (accel f). footprint
          (buffer h (ptr_a d) (M3_length_a d) \<union> buffer h (ptr_b d buf) (M3_length_b_tile d) \<union>
           buffer h (ptr_d d buf) (M3_length_d_tile d)) (buffer h (ptr_d d buf) (M3_length_d_tile d)) op) \<and>
       (\<forall>mem. contents h (run_ops (accel f) mem) (ptr_d d buf) (M3_length_d_tile d) =
          gemm (contents h mem (ptr_a d) (M3_length_a d)) (contents h mem (ptr_b d buf) (M3_length_b_tile d))))"

section \<open>The buffers\<close>

text \<open>Where the buffers begin, as numbers.\<close>

definition osgemm_src :: "osgemm_data \<Rightarrow> nat \<Rightarrow> u32" where
  "osgemm_src d t = M3_B d + word_of_nat t * M3_length_b_tile d"

definition osgemm_out :: "osgemm_data \<Rightarrow> nat \<Rightarrow> u32" where
  "osgemm_out d t = ptr_d_out d + word_of_nat t * M3_length_d_tile d"

lemma unat_add_le: "unat p + unat n < 2 ^ 32 \<Longrightarrow> unat (p + n :: u32) = unat p + unat n"
  by (rule unat_add_small) simp

lemma unat_offset:
  assumes "unat p + t * unat n < 2 ^ 32" and "0 < n"
  shows "unat (p + word_of_nat t * n :: u32) = unat p + t * unat n"
proof -
  have "1 \<le> unat n" using assms(2) by (simp add: unat_gt_0 Suc_le_eq)
  then have "t * 1 \<le> t * unat n" by (rule mult_le_mono2)
  then have "t < 2 ^ 32" using assms(1) by linarith
  then have t: "unat (word_of_nat t :: u32) = t" by (intro unat_of_nat_small) simp
  have "unat (word_of_nat t * n) = t * unat n"
    using assms(1) by (subst unat_mult_small) (simp_all add: t)
  with assms(1) show ?thesis by (subst unat_add_small) simp_all
qed

text \<open>The offset of a tile, kept as one term for the linear arithmetic.\<close>

definition tile_off :: "nat \<Rightarrow> nat \<Rightarrow> nat" where
  "tile_off t k = t * k"

lemma tile_off_le: "t < n \<Longrightarrow> tile_off t k + k \<le> tile_off n k"
  using mult_le_mono1 [of "Suc t" n k] by (simp add: tile_off_def)

lemma tile_off_2: "tile_off 2 k = 2 * k"
  by (simp add: tile_off_def)

text \<open>In the order of the addresses.\<close>

lemma osgemm_positions:
  assumes "osgemm_fits d"
  shows "unat (ptr_a d) = unat (tcdm_base_ptr d)"
    and "buf < 2 \<Longrightarrow> unat (ptr_b d buf) =
      unat (tcdm_base_ptr d) + unat (M3_length_a d) + tile_off buf (unat (M3_length_b_tile d))"
    and "buf < 2 \<Longrightarrow> unat (ptr_d d buf) = unat (tcdm_base_ptr d) + unat (M3_length_a d) +
      2 * unat (M3_length_b_tile d) + tile_off buf (unat (M3_length_d_tile d))"
    and "t < nb_tiles d \<Longrightarrow> unat (osgemm_out d t) = unat (tcdm_base_ptr d) + unat (M3_length_a d) +
      2 * unat (M3_length_b_tile d) + 2 * unat (M3_length_d_tile d) + tile_off t (unat (M3_length_d_tile d))"
    and "t < nb_tiles d \<Longrightarrow> unat (osgemm_src d t) = unat (M3_B d) + tile_off t (unat (M3_length_b_tile d))"
proof -
  let ?base = "unat (tcdm_base_ptr d)" and ?la = "unat (M3_length_a d)"
  let ?lb = "unat (M3_length_b_tile d)" and ?ld = "unat (M3_length_d_tile d)"
  have pos: "0 < ?lb" "0 < ?ld" "0 < M3_length_b_tile d" "0 < M3_length_d_tile d"
    using assms by (auto simp: osgemm_fits_def unat_gt_0)
  have top: "?base + (?la + 2 * ?lb + 2 * ?ld + nb_tiles d * ?ld) \<le> 2 ^ 32"
    "unat (M3_B d) + nb_tiles d * ?lb \<le> 2 ^ 32"
    using assms by (simp_all add: osgemm_fits_def osgemm_bytes_def outside_block_def)
  show a: "unat (ptr_a d) = ?base" by (simp add: ptr_a_def)
  have b0: "unat (ptr_b d 0) = ?base + ?la"
    using top pos a by (simp add: ptr_b_def unat_add_le)
  have b1: "unat (ptr_b d 1) = ?base + ?la + ?lb"
    using top pos a b0 by (simp add: ptr_b_def unat_add_le)
  have d0: "unat (ptr_d d 0) = ?base + ?la + 2 * ?lb"
    using top pos b1 by (simp add: ptr_d_def unat_add_le)
  have d1: "unat (ptr_d d 1) = ?base + ?la + 2 * ?lb + ?ld"
    using top pos b1 d0 by (simp add: ptr_d_def unat_add_le)
  show "buf < 2 \<Longrightarrow> unat (ptr_b d buf) = ?base + ?la + tile_off buf ?lb"
    using b0 b1 by (auto simp: less_2_cases_iff tile_off_def)
  show "buf < 2 \<Longrightarrow> unat (ptr_d d buf) = ?base + ?la + 2 * ?lb + tile_off buf ?ld"
    using d0 d1 by (auto simp: less_2_cases_iff tile_off_def)
  have le: "t * k + k \<le> nb_tiles d * k" if "t < nb_tiles d" for t k
    using tile_off_le [OF that, of k] by (simp add: tile_off_def)
  show "unat (osgemm_out d t) = ?base + ?la + 2 * ?lb + 2 * ?ld + tile_off t ?ld" if "t < nb_tiles d"
  proof -
    have lt: "t * ?ld + ?ld \<le> nb_tiles d * ?ld" by (rule le [OF that])
    then have out: "unat (ptr_d_out d) = ?base + ?la + 2 * ?lb + 2 * ?ld"
      unfolding ptr_d_out_def by (subst unat_add_le) (use top pos d1 in linarith)+
    show ?thesis
      unfolding osgemm_out_def tile_off_def
      by (subst unat_offset) (use top pos(2,4) out lt in \<open>linarith | simp\<close>)+
  qed
  show "unat (osgemm_src d t) = unat (M3_B d) + tile_off t ?lb" if "t < nb_tiles d"
    unfolding osgemm_src_def tile_off_def
    by (subst unat_offset) (use top pos(1,3) le [OF that, of ?lb] in \<open>linarith | simp\<close>)+
qed

abbreviation buf_a :: "hart \<Rightarrow> osgemm_data \<Rightarrow> u64 set" where
  "buf_a h d \<equiv> buffer h (ptr_a d) (M3_length_a d)"

abbreviation buf_b :: "hart \<Rightarrow> osgemm_data \<Rightarrow> nat \<Rightarrow> u64 set" where
  "buf_b h d k \<equiv> buffer h (ptr_b d k) (M3_length_b_tile d)"

abbreviation buf_d :: "hart \<Rightarrow> osgemm_data \<Rightarrow> nat \<Rightarrow> u64 set" where
  "buf_d h d k \<equiv> buffer h (ptr_d d k) (M3_length_d_tile d)"

abbreviation buf_out :: "hart \<Rightarrow> osgemm_data \<Rightarrow> nat \<Rightarrow> u64 set" where
  "buf_out h d t \<equiv> buffer h (osgemm_out d t) (M3_length_d_tile d)"

abbreviation buf_src :: "hart \<Rightarrow> osgemm_data \<Rightarrow> nat \<Rightarrow> u64 set" where
  "buf_src h d t \<equiv> buffer h (osgemm_src d t) (M3_length_b_tile d)"

lemma osgemm_apart:
  assumes "osgemm_fits d"
  shows "buf < 2 \<Longrightarrow> buf_b h d buf \<inter> buf_a h d = {}"
    and "buf < 2 \<Longrightarrow> buf_d h d buf \<inter> buf_a h d = {}"
    and "buf < 2 \<Longrightarrow> buf' < 2 \<Longrightarrow> buf_b h d buf \<inter> buf_d h d buf' = {}"
    and "buf < 2 \<Longrightarrow> buf' < 2 \<Longrightarrow> buf \<noteq> buf' \<Longrightarrow> buf_b h d buf \<inter> buf_b h d buf' = {}"
    and "buf < 2 \<Longrightarrow> buf' < 2 \<Longrightarrow> buf \<noteq> buf' \<Longrightarrow> buf_d h d buf \<inter> buf_d h d buf' = {}"
    and "t < nb_tiles d \<Longrightarrow> buf_out h d t \<inter> buf_a h d = {}"
    and "t < nb_tiles d \<Longrightarrow> buf < 2 \<Longrightarrow> buf_out h d t \<inter> buf_b h d buf = {}"
    and "t < nb_tiles d \<Longrightarrow> buf < 2 \<Longrightarrow> buf_out h d t \<inter> buf_d h d buf = {}"
    and "t < nb_tiles d \<Longrightarrow> t' < nb_tiles d \<Longrightarrow> t \<noteq> t' \<Longrightarrow> buf_out h d t \<inter> buf_out h d t' = {}"
    and "t < nb_tiles d \<Longrightarrow> buf < 2 \<Longrightarrow> buf_b h d buf \<inter> buf_src h d t = {}"
    and "t < nb_tiles d \<Longrightarrow> buf < 2 \<Longrightarrow> buf_d h d buf \<inter> buf_src h d t = {}"
    and "t < nb_tiles d \<Longrightarrow> t' < nb_tiles d \<Longrightarrow> buf_out h d t \<inter> buf_src h d t' = {}"
    and "t < nb_tiles d \<Longrightarrow> buf_a h d \<inter> buf_src h d t = {}"
    and "buf_a h d \<inter> buffer h (M3_A d) (M3_length_a d) = {}"
proof -
  let ?base = "unat (tcdm_base_ptr d)" and ?la = "unat (M3_length_a d)"
  let ?lb = "unat (M3_length_b_tile d)" and ?ld = "unat (M3_length_d_tile d)"
  note pos = osgemm_positions [OF assms]
  let ?nd = "tile_off (nb_tiles d) ?ld" and ?nb = "tile_off (nb_tiles d) ?lb"
  have top: "?base + (?la + 2 * ?lb + 2 * ?ld + ?nd) \<le> 2 ^ 32"
    using assms by (simp add: osgemm_fits_def osgemm_bytes_def tile_off_def)
  have src: "unat (M3_B d) + ?nb \<le> 2 ^ 32"
    "unat (M3_B d) + ?nb \<le> ?base \<or> ?base + (?la + 2 * ?lb + 2 * ?ld + ?nd) \<le> unat (M3_B d)"
    using assms by (simp_all add: osgemm_fits_def osgemm_bytes_def outside_block_def tile_off_def)
  have two: "buf < 2 \<Longrightarrow> tile_off buf k + k \<le> 2 * k" for buf k
    using tile_off_le [of buf 2 k] by (simp add: tile_off_2)
  note len = tile_off_le [of _ "nb_tiles d" ?lb] tile_off_le [of _ "nb_tiles d" ?ld]
  show "buf < 2 \<Longrightarrow> buf_b h d buf \<inter> buf_a h d = {}"
    using top two [of buf ?lb] by (intro buffers_apart) (simp_all add: pos)
  show "buf < 2 \<Longrightarrow> buf_d h d buf \<inter> buf_a h d = {}"
    using top two [of buf ?ld] by (intro buffers_apart) (simp_all add: pos)
  show "buf < 2 \<Longrightarrow> buf' < 2 \<Longrightarrow> buf_b h d buf \<inter> buf_d h d buf' = {}"
    using top two [of buf ?lb] two [of buf' ?ld] by (intro buffers_apart) (simp_all add: pos)
  show "buf < 2 \<Longrightarrow> buf' < 2 \<Longrightarrow> buf \<noteq> buf' \<Longrightarrow> buf_b h d buf \<inter> buf_b h d buf' = {}"
    using top two [of buf ?lb] two [of buf' ?lb] tile_off_le [of buf buf' ?lb] tile_off_le [of buf' buf ?lb]
    by (intro buffers_apart) (auto simp: pos neq_iff)
  show "buf < 2 \<Longrightarrow> buf' < 2 \<Longrightarrow> buf \<noteq> buf' \<Longrightarrow> buf_d h d buf \<inter> buf_d h d buf' = {}"
    using top two [of buf ?ld] two [of buf' ?ld] tile_off_le [of buf buf' ?ld] tile_off_le [of buf' buf ?ld]
    by (intro buffers_apart) (auto simp: pos neq_iff)
  show "t < nb_tiles d \<Longrightarrow> buf_out h d t \<inter> buf_a h d = {}"
    using top len [of t] by (intro buffers_apart) (simp_all add: pos)
  show "t < nb_tiles d \<Longrightarrow> buf < 2 \<Longrightarrow> buf_out h d t \<inter> buf_b h d buf = {}"
    using top len [of t] two [of buf ?lb] by (intro buffers_apart) (simp_all add: pos)
  show "t < nb_tiles d \<Longrightarrow> buf < 2 \<Longrightarrow> buf_out h d t \<inter> buf_d h d buf = {}"
    using top len [of t] two [of buf ?ld] by (intro buffers_apart) (simp_all add: pos)
  show "t < nb_tiles d \<Longrightarrow> t' < nb_tiles d \<Longrightarrow> t \<noteq> t' \<Longrightarrow> buf_out h d t \<inter> buf_out h d t' = {}"
    using top len [of t] len [of t'] tile_off_le [of t t' ?ld] tile_off_le [of t' t ?ld]
    by (intro buffers_apart) (auto simp: pos neq_iff)
  show "t < nb_tiles d \<Longrightarrow> buf < 2 \<Longrightarrow> buf_b h d buf \<inter> buf_src h d t = {}"
    using top src len [of t] two [of buf ?lb] by (intro buffers_apart) (auto simp: pos)
  show "t < nb_tiles d \<Longrightarrow> buf < 2 \<Longrightarrow> buf_d h d buf \<inter> buf_src h d t = {}"
    using top src len [of t] two [of buf ?ld] by (intro buffers_apart) (auto simp: pos)
  show "t < nb_tiles d \<Longrightarrow> t' < nb_tiles d \<Longrightarrow> buf_out h d t \<inter> buf_src h d t' = {}"
    using top src len [of t] len [of t'] by (intro buffers_apart) (auto simp: pos)
  show "t < nb_tiles d \<Longrightarrow> buf_a h d \<inter> buf_src h d t = {}"
    using top src len [of t] by (intro buffers_apart) (auto simp: pos)
  have "unat (M3_A d) + ?la \<le> 2 ^ 32"
    "unat (M3_A d) + ?la \<le> ?base \<or> ?base + (?la + 2 * ?lb + 2 * ?ld + ?nd) \<le> unat (M3_A d)"
    using assms by (simp_all add: osgemm_fits_def osgemm_bytes_def outside_block_def tile_off_def)
  then show "buf_a h d \<inter> buffer h (M3_A d) (M3_length_a d) = {}"
    using top by (intro buffers_apart) (auto simp: pos)
qed

section \<open>The registers over the tiles\<close>

text \<open>The register file that a tile is started with; the waits and starts in between.\<close>

definition launch_file :: "streamer_map \<Rightarrow> osgemm_data \<Rightarrow> nat \<Rightarrow> (u32 \<Rightarrow> u32) \<Rightarrow> u32 \<Rightarrow> u32" where
  "launch_file m d t f = start_file m (M3_R10_en d) (M3_R11_en d)
     (f(base_ptr_low (regs_of m (Reader 1)) := ptr_b d (t mod 2),
        base_ptr_low (regs_of m (Writer 0)) := ptr_d d (t mod 2)))"

primrec tile_file :: "streamer_map \<Rightarrow> osgemm_data \<Rightarrow> (u32 \<Rightarrow> u32) \<Rightarrow> nat \<Rightarrow> u32 \<Rightarrow> u32" where
  "tile_file m d f 0 = f"
| "tile_file m d f (Suc t) = wait_file m (launch_file m d t (tile_file m d f t))"

definition osgemm_ops ::
  "streamer_map \<Rightarrow> osgemm_data \<Rightarrow> ((u32 \<Rightarrow> u32) \<Rightarrow> mem_op list) \<Rightarrow> (u32 \<Rightarrow> u32) \<Rightarrow> nat \<Rightarrow> mem_op list" where
  "osgemm_ops m d accel f t = accel (launch_file m d t (tile_file m d f t))"

definition osgemm_ready ::
  "streamer_map \<Rightarrow> osgemm_data \<Rightarrow> (u32 \<Rightarrow> u32) \<Rightarrow> nat \<Rightarrow> csr_state \<Rightarrow> bool" where
  "osgemm_ready m d f t c \<longleftrightarrow> csr_file c = tile_file m d f t"

lemma osgemm_launch_file:
  "osgemm_launch hw m d t c = Some c' \<Longrightarrow> csr_file c' = launch_file m d t (csr_file c)"
  by (auto simp: osgemm_launch_def launch_file_def dest!: start_simbacore_file)

lemma osgemm_wait_file:
  "osgemm_wait hw m c = Some c' \<Longrightarrow> csr_file c' = wait_file m (csr_file c)"
  by (auto simp: osgemm_wait_def read_simbacore_perf_counter_def read_csr_def dest!: wait_simbacore_file)

lemma osgemm_launches:
  "launches (osgemm_app hw m d) accel (osgemm_ops m d accel f) (osgemm_ready m d f)"
  by (simp add: launches_def osgemm_app_def osgemm_ops_def osgemm_ready_def osgemm_launch_file
    osgemm_wait_file)

lemma osgemm_configured_launch:
  assumes "simba_layout m" and "simba_configured m osgemm_en (osgemm_args d buf) (osgemm_dims d) f"
  shows "simba_configured m osgemm_en (osgemm_args d (t mod 2)) (osgemm_dims d) (launch_file m d t f)"
proof -
  note p = configured_pointer [OF assms(1)]
  have "(osgemm_args d buf)(Reader 1 := (osgemm_args d buf (Reader 1))\<lparr>arg_ptr := ptr_b d (t mod 2)\<rparr>,
      Writer 0 := (osgemm_args d buf (Writer 0))\<lparr>arg_ptr := ptr_d d (t mod 2)\<rparr>) =
      osgemm_args d (t mod 2)"
    by (auto simp: osgemm_args_def)
  then show ?thesis
    using p [OF _ p [OF _ assms(2), of "Reader 1" "ptr_b d (t mod 2)"], of "Writer 0" "ptr_d d (t mod 2)"]
    unfolding launch_file_def
    by (intro configured_start [OF assms(1)]) (simp add: osgemm_en_def)
qed

lemma osgemm_configured_tiles:
  assumes "simba_layout m" and "simba_configured m osgemm_en (osgemm_args d 0) (osgemm_dims d) f"
  shows "simba_configured m osgemm_en (osgemm_args d (t mod 2)) (osgemm_dims d)
    (launch_file m d t (tile_file m d f t))"
proof (induction t)
  case 0
  show ?case using osgemm_configured_launch [OF assms, of 0] by simp
next
  case (Suc t)
  show ?case
    using osgemm_configured_launch [OF assms(1) configured_wait [OF assms(1) Suc], of "Suc t"] by simp
qed

lemma osgemm_setup_configured:
  assumes "simba_layout m" and "no_stale_reader m osgemm_en (csr_file s)"
  shows "simba_configured m osgemm_en (osgemm_args d 0) (osgemm_dims d) (csr_file (osgemm_setup m d s))"
proof -
  let ?dims = "set_simbacore_csr m (M3_OSGEMM d) (dim0 d) (dim1 d) (M3_dim2_tile d) 1 1"
  let ?streams = "set_osgemm_streamer_csr m ((M3_R0 d)\<lparr>arg_ptr := ptr_a d\<rparr>)
    ((M3_R1 d)\<lparr>arg_ptr := ptr_b d 0\<rparr>) ((M3_W0 d)\<lparr>arg_ptr := ptr_d d 0\<rparr>)"
  have en: "osgemm_en = (\<lambda>p. p \<in> {Reader 0, Reader 1, Writer 0})"
    by (rule ext) (simp add: osgemm_en_def)
  have config: "csr_file (write_csrs ?streams s) =
      csr_file (write_csrs (set_streamer_csr m osgemm_en (osgemm_args d 0)) s)"
    unfolding set_osgemm_concat osgemm_args_def en
    by (rule short_form_file [OF simba_layout_ports [OF assms(1)] short_ports(1,2)])
  have "csr_file (write_csrs ?dims u) = csr_file (write_csrs ?dims v)"
    if "csr_file u = csr_file v" for u v
    using that by (simp add: set_simbacore_csr_def)
  from this [OF config] have "csr_file (osgemm_setup m d s) =
      csr_file (write_csrs (set_streamer_csr m osgemm_en (osgemm_args d 0) @ ?dims) s)"
    by (simp add: osgemm_setup_def)
  then show ?thesis
    using configured_setup [OF assms, of "osgemm_args d 0"] by (simp only: osgemm_dims_def)
qed

section \<open>No conflicts\<close>

text \<open>What the contract says of a tile.\<close>

lemma osgemm_tile_ops:
  assumes "osgemm_contract h m d accel gemm" and "simba_layout m"
    and "simba_configured m osgemm_en (osgemm_args d 0) (osgemm_dims d) f"
  shows "op \<in> set (osgemm_ops m d accel f t) \<Longrightarrow>
      footprint (buf_a h d \<union> buf_b h d (t mod 2) \<union> buf_d h d (t mod 2)) (buf_d h d (t mod 2)) op"
    and "contents h (run_ops (osgemm_ops m d accel f t) mem) (ptr_d d (t mod 2)) (M3_length_d_tile d) =
      gemm (contents h mem (ptr_a d) (M3_length_a d)) (contents h mem (ptr_b d (t mod 2)) (M3_length_b_tile d))"
proof -
  have "t mod 2 < 2" by simp
  note c = osgemm_configured_tiles [OF assms(2,3), of t]
  show "op \<in> set (osgemm_ops m d accel f t) \<Longrightarrow>
      footprint (buf_a h d \<union> buf_b h d (t mod 2) \<union> buf_d h d (t mod 2)) (buf_d h d (t mod 2)) op"
    using assms(1) \<open>t mod 2 < 2\<close> c unfolding osgemm_contract_def osgemm_ops_def by blast
  show "contents h (run_ops (osgemm_ops m d accel f t) mem) (ptr_d d (t mod 2)) (M3_length_d_tile d) =
      gemm (contents h mem (ptr_a d) (M3_length_a d)) (contents h mem (ptr_b d (t mod 2)) (M3_length_b_tile d))"
    using assms(1) \<open>t mod 2 < 2\<close> c unfolding osgemm_contract_def osgemm_ops_def by blast
qed

lemma osgemm_load_ok:
  assumes "osgemm_fits d" and "t < nb_tiles d"
  shows "transfer_ok h (ptr_b d (t mod 2), osgemm_src d t, M3_length_b_tile d)"
  using osgemm_apart(10) [OF assms, of "t mod 2" h] assms(1)
  by (auto simp: transfer_ok_buffers osgemm_fits_def)

lemma osgemm_store_ok:
  assumes "osgemm_fits d" and "t < nb_tiles d"
  shows "transfer_ok h (osgemm_out d t, ptr_d d (t mod 2), M3_length_d_tile d)"
  using osgemm_apart(8) [OF assms, of "t mod 2" h] assms(1)
  by (auto simp: transfer_ok_buffers osgemm_fits_def)

lemmas osgemm_load_footprint = buffer_footprint [OF osgemm_load_ok]
lemmas osgemm_store_footprint = buffer_footprint [OF osgemm_store_ok]

lemma osgemm_load_eq: "osgemm_load d t = [(ptr_b d (t mod 2), osgemm_src d t, M3_length_b_tile d)]"
  by (simp add: osgemm_load_def osgemm_src_def)

lemma osgemm_store_eq: "osgemm_store d t = [(osgemm_out d t, ptr_d d (t mod 2), M3_length_d_tile d)]"
  by (simp add: osgemm_store_def osgemm_out_def)

lemma osgemm_transfers_ok:
  assumes "osgemm_fits d"
  shows "transfers_ok h (osgemm_app hw m d)"
proof -
  have "transfer_ok h t" if i: "i < nb_tiles d + 2" "t \<in> set (dm_transfers (osgemm_app hw m d) i)" for i t
  proof -
    consider "i < nb_tiles d" "t \<in> set (osgemm_load d i)" | "2 \<le> i" "t \<in> set (osgemm_store d (i - 2))"
      using i(2) by (auto simp: dm_transfers_def osgemm_app_def split: if_splits)
    then show ?thesis
    proof cases
      case 1
      then show ?thesis using osgemm_load_ok [OF assms, of i h] by (simp add: osgemm_load_eq)
    next
      case 2
      then have "i - 2 < nb_tiles d" using i(1) by linarith
      then show ?thesis using 2 osgemm_store_ok [OF assms, of "i - 2" h] by (simp add: osgemm_store_eq)
    qed
  qed
  then show ?thesis
    by (auto simp: transfers_ok_def list_all_iff app_iterations_def osgemm_app_def dm_transfers_def
      osgemm_load_eq osgemm_store_eq)
qed

text \<open>The slots of neighbouring tiles differ.\<close>

lemma slots_differ: "Suc t mod 2 \<noteq> t mod 2" "(t + 2) mod 2 = t mod 2"
  by presburger+

lemma osgemm_conflict_free:
  assumes "osgemm_fits d"
    and ops: "\<And>t op. op \<in> set (ops t) \<Longrightarrow>
      footprint (buf_a h d \<union> buf_b h d (t mod 2) \<union> buf_d h d (t mod 2)) (buf_d h d (t mod 2)) op"
  shows "conflict_free h (osgemm_app hw m d) ops"
proof -
  note apart = osgemm_apart [OF assms(1), where h = h]
  have "commute f (copy_op h t)" if i: "t \<in> set (dm_transfers (osgemm_app hw m d) (Suc i))"
    "f \<in> set (ops i)" "i < nb_tiles d" for i f t
  proof -
    have l: "i mod 2 < 2" "Suc i mod 2 < 2" "i mod 2 \<noteq> Suc i mod 2" using slots_differ(1) [of i] by auto
    consider "Suc i < nb_tiles d" "t \<in> set (osgemm_load d (Suc i))"
      | j where "i = Suc j" "t \<in> set (osgemm_store d j)"
      using i(1) by (cases i) (auto simp: dm_transfers_def osgemm_app_def split: if_splits)
    then show ?thesis
    proof cases
      case 1
      have e: "t = (ptr_b d (Suc i mod 2), osgemm_src d (Suc i), M3_length_b_tile d)"
        using 1(2) by (simp add: osgemm_load_eq)
      show ?thesis
        unfolding e
        by (rule footprint_commute [OF ops [OF i(2)] osgemm_load_footprint [OF assms(1) 1(1)]])
          (simp_all add: Int_Un_distrib apart(1) [OF l(2)] apart(3) [OF l(2,1)] apart(11) [OF 1(1) l(1)]
            apart(4) [OF l(2,1) l(3) [symmetric]] Int_commute [of "buf_d h d (i mod 2)" "buf_b h d k" for k])
    next
      case 2
      have j: "j < nb_tiles d" "j mod 2 = Suc i mod 2" using 2(1) i(3) slots_differ(2) [of j] by simp_all
      have e: "t = (osgemm_out d j, ptr_d d (j mod 2), M3_length_d_tile d)"
        using 2(2) by (simp add: osgemm_store_eq)
      have l': "j mod 2 < 2" "i mod 2 \<noteq> j mod 2" using l(3) j(2) by simp_all
      show ?thesis
        unfolding e
        by (rule footprint_commute [OF ops [OF i(2)] osgemm_store_footprint [OF assms(1) j(1)]])
          (simp_all add: Int_Un_distrib apart(5) [OF l(1) l'(1,2)] apart(6) [OF j(1)] apart(7) [OF j(1) l(1)]
            apart(8) [OF j(1) l(1)] Int_commute [of "buf_d h d (i mod 2)" "buf_out h d j"])
    qed
  qed
  moreover have "computes (osgemm_app hw m d) i \<Longrightarrow> \<exists>k. i = Suc k \<and> k < nb_tiles d" for i
    by (cases i) (auto simp: computes_def osgemm_app_def)
  ultimately show ?thesis
    by (fastforce simp: conflict_free_def tile_ops_def)
qed

lemma osgemm_tiles [simp]: "app_tiles (osgemm_app hw m d) = nb_tiles d"
  by (simp add: osgemm_app_def)

lemma osgemm_ops_eq:
  "load_op h (osgemm_app hw m d) t = copy_op h (ptr_b d (t mod 2), osgemm_src d t, M3_length_b_tile d)"
  "store_op h (osgemm_app hw m d) t = copy_op h (osgemm_out d t, ptr_d d (t mod 2), M3_length_d_tile d)"
  by (simp_all add: load_op_def store_op_def osgemm_app_def osgemm_load_eq osgemm_store_eq)

lemma osgemm_loads_independent:
  assumes "osgemm_fits d"
  shows "loads_independent h (osgemm_app hw m d)"
proof -
  note apart = osgemm_apart [OF assms, where h = h]
  have "commute (load_op h (osgemm_app hw m d) i) (store_op h (osgemm_app hw m d) k)"
    if "i < nb_tiles d" "k < nb_tiles d" for i k
  proof -
    have l: "i mod 2 < 2" "k mod 2 < 2" by simp_all
    show ?thesis
      unfolding osgemm_ops_eq
      by (rule footprint_commute [OF osgemm_load_footprint [OF assms that(1)]
            osgemm_store_footprint [OF assms that(2)]],
          use apart(3) [OF l] apart(7) [OF that(2) l(1)] apart(12) [OF that(2,1)] in
            \<open>simp_all add: Int_commute\<close>)
  qed
  then show ?thesis by (auto simp: loads_independent_def)
qed

section \<open>What the sequential program computes\<close>

lemma osgemm_seq_keeps:
  assumes fits: "osgemm_fits d" "t < nb_tiles d"
    and ops: "\<And>op. op \<in> set (ops t) \<Longrightarrow>
      footprint (buf_a h d \<union> buf_b h d (t mod 2) \<union> buf_d h d (t mod 2)) (buf_d h d (t mod 2)) op"
    and "buf_b h d (t mod 2) \<inter> buffer h p sz = {}" "buf_d h d (t mod 2) \<inter> buffer h p sz = {}"
      "buf_out h d t \<inter> buffer h p sz = {}"
  shows "contents h (tile_seq h (osgemm_app hw m d) ops t mem) p sz = contents h mem p sz"
  by (simp add: tile_seq_def osgemm_ops_eq
    contents_outside [OF osgemm_load_footprint [OF fits] assms(4)]
    contents_outside [OF osgemm_store_footprint [OF fits] assms(6)]
    contents_run_ops [OF ops assms(5)])

lemma osgemm_seq_result:
  assumes fits: "osgemm_fits d" "t < nb_tiles d"
    and result: "\<And>mem. contents h (run_ops (ops t) mem) (ptr_d d (t mod 2)) (M3_length_d_tile d) =
      gemm (contents h mem (ptr_a d) (M3_length_a d)) (contents h mem (ptr_b d (t mod 2)) (M3_length_b_tile d))"
  shows "contents h (tile_seq h (osgemm_app hw m d) ops t mem) (osgemm_out d t) (M3_length_d_tile d) =
    gemm (contents h mem (ptr_a d) (M3_length_a d)) (contents h mem (osgemm_src d t) (M3_length_b_tile d))"
  by (simp add: tile_seq_def osgemm_ops_eq
    contents_copied [OF osgemm_load_ok [OF fits]] contents_copied [OF osgemm_store_ok [OF fits]] result
    contents_outside [OF osgemm_load_footprint [OF fits] osgemm_apart(1) [OF fits(1)]])

lemma osgemm_sequential:
  assumes "osgemm_fits d" and "n \<le> nb_tiles d"
    and ops: "\<And>t op. op \<in> set (ops t) \<Longrightarrow>
      footprint (buf_a h d \<union> buf_b h d (t mod 2) \<union> buf_d h d (t mod 2)) (buf_d h d (t mod 2)) op"
    and result: "\<And>t mem. contents h (run_ops (ops t) mem) (ptr_d d (t mod 2)) (M3_length_d_tile d) =
      gemm (contents h mem (ptr_a d) (M3_length_a d)) (contents h mem (ptr_b d (t mod 2)) (M3_length_b_tile d))"
  shows "contents h (sequential h (osgemm_app hw m d) ops n mem) (ptr_a d) (M3_length_a d) =
      contents h mem (ptr_a d) (M3_length_a d)"
    and "t < nb_tiles d \<Longrightarrow> contents h (sequential h (osgemm_app hw m d) ops n mem) (osgemm_src d t)
      (M3_length_b_tile d) = contents h mem (osgemm_src d t) (M3_length_b_tile d)"
    and "t < n \<Longrightarrow> contents h (sequential h (osgemm_app hw m d) ops n mem) (osgemm_out d t)
      (M3_length_d_tile d) = gemm (contents h mem (ptr_a d) (M3_length_a d))
        (contents h mem (osgemm_src d t) (M3_length_b_tile d))"
  using assms(2)
proof (induction n arbitrary: t)
  case 0
  { case 1 show ?case by (simp add: sequential_def) next
    case 2 show ?case by (simp add: sequential_def) next
    case 3 then show ?case by simp }
next
  case (Suc n)
  let ?seq = "\<lambda>n. sequential h (osgemm_app hw m d) ops n mem"
  have step: "?seq (Suc n) = tile_seq h (osgemm_app hw m d) ops n (?seq n)"
    by (simp add: sequential_def for_up_Suc)
  have l: "n mod 2 < 2" by simp
  note keeps = osgemm_seq_keeps [where ops = ops and t = n, OF assms(1) _ ops]
  note apart = osgemm_apart [OF assms(1), where h = h]
  { case 1
    then have n: "n < nb_tiles d" by simp
    show ?case
      unfolding step using Suc(1) n
      by (simp add: keeps [OF n _ apart(1) [OF l] apart(2) [OF l] apart(6) [OF n]])
  next
    case 2
    then have n: "n < nb_tiles d" by simp
    show ?case
      unfolding step using Suc(2) [of t] n 2
      by (simp add: keeps [OF n _ apart(10) [OF _ l] apart(11) [OF _ l] apart(12) [OF n]])
  next
    case 3
    then have n: "n < nb_tiles d" by simp
    show ?case
    proof (cases "t = n")
      case True
      show ?thesis
        unfolding step True osgemm_seq_result [where ops = ops and gemm = gemm, OF assms(1) n result]
        using Suc(1) Suc(2) [of n] n by simp
    next
      case False
      then have t: "t < n" "t < nb_tiles d" "n \<noteq> t" using 3 n by simp_all
      have "contents h (?seq (Suc n)) (osgemm_out d t) (M3_length_d_tile d) =
          contents h (?seq n) (osgemm_out d t) (M3_length_d_tile d)"
        unfolding step
        by (rule keeps [OF n]) (use apart(7) [OF t(2) l] apart(8) [OF t(2) l] apart(9) [OF n t(2,3)] in
          \<open>simp_all add: Int_commute\<close>)
      then show ?thesis using Suc(3) [of t] t(1) n by simp
    qed }
qed

section \<open>The whole program\<close>

lemma osgemm_app_ok:
  assumes "osgemm_fits d" "simba_layout m" "osgemm_contract h m d accel gemm"
    and "simba_configured m osgemm_en (osgemm_args d 0) (osgemm_dims d) f"
  shows "app_ok h (osgemm_app hw m d) accel (osgemm_ops m d accel f) (osgemm_ready m d f)"
  unfolding app_ok_def
  using osgemm_transfers_ok [OF assms(1)] osgemm_launches
    osgemm_conflict_free [OF assms(1) osgemm_tile_ops(1) [OF assms(3,2,4)]]
  by blast

text \<open>After the preload the engine is idle, L1 holds A, and the operands in L3 are as before.\<close>

lemma osgemm_preload_done:
  assumes "osgemm_fits d" and "pending e = []" "next_id e = completed_id e" and "makes_progress prog"
  shows "\<exists>e'. osgemm_preload prog h d e = Some e' \<and> pending e' = [] \<and> next_id e' = completed_id e' \<and>
    dma_mem e' = copy_op h (ptr_a d, M3_A d, M3_length_a d) (dma_mem e)"
proof -
  have "transfer_ok h (ptr_a d, M3_A d, M3_length_a d)"
    using osgemm_apart(14) [OF assms(1), of h] assms(1) by (simp add: transfer_ok_buffers osgemm_fits_def)
  from start_transfer_eq [OF this, of e] obtain r where r: "start_transfer h (ptr_a d, M3_A d, M3_length_a d) e =
      e\<lparr>fe_src := rq_src r, fe_dst := rq_dst r, next_id := next_id e + 1, pending := pending e @ [r]\<rparr>"
    "run_request r = copy_op h (ptr_a d, M3_A d, M3_length_a d)"
    by blast
  let ?s = "start_transfer h (ptr_a d, M3_A d, M3_length_a d) e"
  have "dma_inv ?s" using assms(2,3) unfolding r(1) by (simp add: dma_inv_def)
  from dma_wait_all_done [OF this assms(4)] obtain t where t: "snrt_dma_wait_all prog ?s = Some t"
    "pending t = []" "dma_mem t = fold run_request (pending ?s) (dma_mem ?s)"
    by blast
  moreover have "next_id t = completed_id t"
    using poll_until_Some [OF t(1) [unfolded snrt_dma_wait_all_def]] by (simp add: dma_busy_def)
  ultimately show ?thesis
    using assms(2) r by (simp add: osgemm_preload_def del: start_transfer.simps)
qed

lemma osgemm_preloaded:
  assumes "osgemm_fits d"
  shows "contents h (copy_op h (ptr_a d, M3_A d, M3_length_a d) mem) (ptr_a d) (M3_length_a d) =
      contents h mem (M3_A d) (M3_length_a d)"
    and "t < nb_tiles d \<Longrightarrow> contents h (copy_op h (ptr_a d, M3_A d, M3_length_a d) mem) (osgemm_src d t)
      (M3_length_b_tile d) = contents h mem (osgemm_src d t) (M3_length_b_tile d)"
proof -
  have ok: "transfer_ok h (ptr_a d, M3_A d, M3_length_a d)"
    using osgemm_apart(14) [OF assms, of h] assms by (simp add: transfer_ok_buffers osgemm_fits_def)
  show "contents h (copy_op h (ptr_a d, M3_A d, M3_length_a d) mem) (ptr_a d) (M3_length_a d) =
      contents h mem (M3_A d) (M3_length_a d)"
    by (rule contents_copied [OF ok])
  show "t < nb_tiles d \<Longrightarrow> contents h (copy_op h (ptr_a d, M3_A d, M3_length_a d) mem) (osgemm_src d t)
      (M3_length_b_tile d) = contents h mem (osgemm_src d t) (M3_length_b_tile d)"
    by (rule contents_outside [OF buffer_footprint [OF ok] osgemm_apart(13) [OF assms]])
qed

lemma osgemm_idle_start:
  assumes "pending e = []" "next_id e = completed_id e"
  shows "idle_start (osgemm_app hw m d) (osgemm_ready m d (csr_file c)) (dma_mem e)
    (tiled_start (osgemm_app hw m d) e c)"
  using assms by (auto simp: idle_start_def osgemm_ready_def)

lemma osgemm_returns:
  assumes "idle_again hw (simbacore_csr m SIMBACORE_BUSY)" and "idle_again hw (STREAMER_BUSY_CSR m)"
  shows "returns (osgemm_app hw m d)"
  by (simp add: returns_def osgemm_app_def osgemm_launch_def osgemm_wait_def start_simbacore_0
    wait_simbacore_idle [OF assms])

text \<open>The program from its preload on, on an idle DMA engine that makes progress.\<close>

definition osgemm_run ::
  "(nat \<Rightarrow> nat) \<Rightarrow> hart \<Rightarrow> hardware \<Rightarrow> streamer_map \<Rightarrow> osgemm_data \<Rightarrow> ((u32 \<Rightarrow> u32) \<Rightarrow> mem_op list) \<Rightarrow>
   dma \<Rightarrow> csr_state \<Rightarrow> tiled_state \<Rightarrow> bool" where
  "osgemm_run prog h hw m d accel e c s \<longleftrightarrow> (\<exists>e'. osgemm_preload prog h d e = Some e' \<and>
     (tiled_step h (osgemm_app hw m d) accel)\<^sup>*\<^sup>*
       (tiled_start (osgemm_app hw m d) e' (osgemm_setup m d c)) s)"

text \<open>
  C1: when osgemm-tiled has finished, under every interleaving of the two cores, the DMA engine and
  the accelerator, tile \<open>t\<close> of the result in L1 is the accelerator's product of A and tile \<open>t\<close> of B
  as they were in L3 before the program, for every tile: the ping-pong buffers never mix tiles. It
  rests on the layout of the buffers, the register map and the contract of the accelerator.
\<close>

theorem osgemm_tiled_computes:
  assumes "osgemm_fits d" "simba_layout m" "no_stale_reader m osgemm_en (csr_file c)"
    and "osgemm_contract h m d accel gemm" and "makes_progress prog"
    and "pending e = []" "next_id e = completed_id e"
    and "osgemm_run prog h hw m d accel e c s" "tiled_finished s" and "t < nb_tiles d"
  shows "contents h (dma_mem (engine s)) (ptr_d_out d + word_of_nat t * M3_length_d_tile d) (M3_length_d_tile d) =
    gemm (contents h (dma_mem e) (M3_A d) (M3_length_a d))
      (contents h (dma_mem e) (M3_B d + word_of_nat t * M3_length_b_tile d) (M3_length_b_tile d))"
proof -
  let ?A = "osgemm_app hw m d" and ?f = "csr_file (osgemm_setup m d c)"
  note conf = osgemm_setup_configured [OF assms(2,3)]
  note ok = osgemm_app_ok [OF assms(1,2,4) conf, of hw]
  obtain e' where e': "pending e' = []" "next_id e' = completed_id e'"
    "dma_mem e' = copy_op h (ptr_a d, M3_A d, M3_length_a d) (dma_mem e)"
    "(tiled_step h ?A accel)\<^sup>*\<^sup>* (tiled_start ?A e' (osgemm_setup m d c)) s"
    using osgemm_preload_done [OF assms(1,6,7,5), of h] assms(8) by (auto simp: osgemm_run_def)
  have "dma_mem (engine s) = sequential h ?A (osgemm_ops m d accel ?f) (nb_tiles d) (dma_mem e')"
    using finished_memory [OF ok osgemm_loads_independent [OF assms(1)] osgemm_idle_start [OF e'(1,2)] e'(4) assms(9)]
    by simp
  then show ?thesis
    using osgemm_sequential(3) [OF assms(1) order_refl osgemm_tile_ops [OF assms(4,2) conf] assms(10)]
      osgemm_preloaded [OF assms(1)] assms(10)
    by (simp add: e'(3) osgemm_out_def osgemm_src_def)
qed

lemma osgemm_runs_finish:
  assumes "osgemm_fits d" "simba_layout m" "no_stale_reader m osgemm_en (csr_file c)"
    and "osgemm_contract h m d accel gemm" and "makes_progress prog"
    and "pending e = []" "next_id e = completed_id e"
    and "idle_again hw (simbacore_csr m SIMBACORE_BUSY)" "idle_again hw (STREAMER_BUSY_CSR m)"
  shows "\<exists>s. osgemm_run prog h hw m d accel e c s"
    and "osgemm_run prog h hw m d accel e c s \<Longrightarrow>
      \<exists>t. (tiled_step h (osgemm_app hw m d) accel)\<^sup>*\<^sup>* s t \<and> tiled_finished t"
proof -
  note conf = osgemm_setup_configured [OF assms(2,3)]
  note ok = osgemm_app_ok [OF assms(1,2,4) conf, of hw]
  note e' = osgemm_preload_done [OF assms(1,6,7,5), of h]
  show "\<exists>s. osgemm_run prog h hw m d accel e c s" using e' by (auto simp: osgemm_run_def)
  show "\<exists>t. (tiled_step h (osgemm_app hw m d) accel)\<^sup>*\<^sup>* s t \<and> tiled_finished t"
    if "osgemm_run prog h hw m d accel e c s"
    using that e' runs_finish [OF ok osgemm_returns [OF assms(8,9)] osgemm_idle_start]
    by (auto simp: osgemm_run_def)
qed

lemma osgemm_run_steps:
  "osgemm_run prog h hw m d accel e c s \<Longrightarrow> (tiled_step h (osgemm_app hw m d) accel)\<^sup>*\<^sup>* s t \<Longrightarrow>
    osgemm_run prog h hw m d accel e c t"
  by (auto simp: osgemm_run_def intro: rtranclp_trans)

text \<open>
  C2: osgemm-tiled finishes: on an idle DMA engine that makes progress the preload returns, and if
  the busy flags of the accelerator and of its streamers are low again and again, every run, however
  far it has got, can be continued to the end: no order of the steps leads into a deadlock.
\<close>

theorem osgemm_tiled_finishes:
  assumes "osgemm_fits d" "simba_layout m" "no_stale_reader m osgemm_en (csr_file c)"
    and "osgemm_contract h m d accel gemm" and "makes_progress prog"
    and "pending e = []" "next_id e = completed_id e"
    and "idle_again hw (simbacore_csr m SIMBACORE_BUSY)" "idle_again hw (STREAMER_BUSY_CSR m)"
  shows "(\<exists>s. osgemm_run prog h hw m d accel e c s) \<and>
    (osgemm_run prog h hw m d accel e c s \<longrightarrow>
      (\<exists>t. (tiled_step h (osgemm_app hw m d) accel)\<^sup>*\<^sup>* s t \<and> tiled_finished t))"
  using osgemm_runs_finish [OF assms] by blast

section \<open>An instance\<close>

text \<open>Two tiles of one byte; the accelerator multiplies the bytes.\<close>

definition demo_osgemm :: osgemm_data where
  "demo_osgemm = \<lparr>tcdm_base_ptr = 4096, M3_A = 3, M3_B = 16, M3_length_a = 1, M3_length_b_tile = 1,
     M3_length_d_tile = 1, nb_tiles = 2, M3_R0 = example_args 1, M3_R1 = example_args 2,
     M3_W0 = example_args 3, M3_OSGEMM = 3, dim0 = 1, dim1 = 1, M3_dim2_tile = 1, M3_R10_en = False,
     M3_R11_en = True\<rparr>"

definition demo_accel :: "(u32 \<Rightarrow> u32) \<Rightarrow> mem_op list" where
  "demo_accel f = (let ptr = \<lambda>p. wideptr demo_dma_hart (f (base_ptr_low (regs_of example_map p)))
     in [\<lambda>mem. mem(ptr (Writer 0) := mem (ptr (Reader 0)) * mem (ptr (Reader 1)))])"

definition demo_gemm :: "u8 list \<Rightarrow> u8 list \<Rightarrow> u8 list" where
  "demo_gemm xs ys = [hd xs * hd ys]"

lemma example_layout: "simba_layout example_map"
proof -
  let ?cs = "control_regs example_map @ map (simbacore_csr example_map) simba_dim_regs"
  note defs = control_regs_def simba_dim_regs_def example_map_def simbacore_csr_def SIMBACORE_CSR_ADDR_BASE_def
  have "distinct ?cs" by (simp add: defs)
  moreover have "list_all (\<lambda>x. 82 \<le> unat x div 16) ?cs" by (simp add: defs)
  moreover have "unat x div 16 < 82" if x: "x \<in> set (ports_addrs example_map simba_ports)" for x
  proof -
    obtain p where p: "p \<in> set simba_ports" "x \<in> set (stream_addrs (example_regs p))"
      using x by (auto simp: ports_addrs_def example_map_def simp del: simba_ports_simps)
    then have "unat x div 16 = example_key p"
      using example_port_addrs unfolding list_all_iff by blast
    then show ?thesis using p(1) by (auto simp: example_key_def)
  qed
  ultimately show ?thesis
    using example_static_asserts example_distinct unfolding simba_layout_def distinct_append list_all_iff
    by (meson disjoint_iff not_le)
qed

lemma demo_fits: "osgemm_fits demo_osgemm"
  by (simp add: osgemm_fits_def osgemm_bytes_def outside_block_def demo_osgemm_def)

lemma wregion_1: "wregion p (Suc 0) = {p}"
  by (auto simp: wregion_def unat_eq_zero)

lemma demo_contract: "osgemm_contract demo_dma_hart example_map demo_osgemm demo_accel demo_gemm"
proof -
  have lens: "M3_length_a demo_osgemm = 1" "M3_length_b_tile demo_osgemm = 1" "M3_length_d_tile demo_osgemm = 1"
    by (simp_all add: demo_osgemm_def)
  have "footprint (buf_a demo_dma_hart demo_osgemm \<union> buf_b demo_dma_hart demo_osgemm buf \<union>
        buf_d demo_dma_hart demo_osgemm buf) (buf_d demo_dma_hart demo_osgemm buf) op \<and>
      contents demo_dma_hart (run_ops (demo_accel f) mem) (ptr_d demo_osgemm buf) 1 = demo_gemm
        (contents demo_dma_hart mem (ptr_a demo_osgemm) 1) (contents demo_dma_hart mem (ptr_b demo_osgemm buf) 1)"
    if "simba_configured example_map osgemm_en (osgemm_args demo_osgemm buf) (osgemm_dims demo_osgemm) f"
      "op \<in> set (demo_accel f)" for f buf op mem
  proof -
    note p = configured_ptr [OF that(1)]
    have "f (base_ptr_low (regs_of example_map (Reader 0))) = ptr_a demo_osgemm"
      "f (base_ptr_low (regs_of example_map (Reader 1))) = ptr_b demo_osgemm buf"
      "f (base_ptr_low (regs_of example_map (Writer 0))) = ptr_d demo_osgemm buf"
      by (simp_all add: p osgemm_en_def osgemm_args_def)
    then show ?thesis
      using that(2)
      by (auto simp: demo_accel_def lens buffer_def wregion_1 footprint_def contents_def bytes_def demo_gemm_def)
  qed
  moreover have "demo_accel f = [hd (demo_accel f)]" for f by (simp add: demo_accel_def)
  ultimately show ?thesis
    unfolding osgemm_contract_def lens by (metis list.set_intros(1))
qed

lemma demo_start:
  "no_stale_reader example_map osgemm_en (csr_file csr_reset)"
  "pending demo_dma = []" "next_id demo_dma = completed_id demo_dma"
  "idle_again (\<lambda>_ _. Some 0) a"
  by (auto simp: no_stale_reader_def csr_reset_def demo_dma_def idle_again_def)

text \<open>The instance of the run.\<close>

abbreviation demo_run :: "tiled_state \<Rightarrow> bool" where
  "demo_run \<equiv> osgemm_run (\<lambda>_. Suc 0) demo_dma_hart (\<lambda>_ _. Some 0) example_map demo_osgemm demo_accel
     demo_dma csr_reset"

lemmas demo_osgemm_ok =
  demo_fits example_layout demo_start(1) demo_contract makes_progress_const [of 0] demo_start(2,3)

lemma demo_finishes: "\<exists>s. demo_run s \<and> tiled_finished s"
  using osgemm_runs_finish [OF demo_osgemm_ok demo_start(4,4)] osgemm_run_steps by blast

lemma demo_wideptr: "wideptr demo_dma_hart p = ucast p"
  by (simp add: wideptr_def demo_dma_hart_def snrt_cluster_base_addrh_def)

theorem osgemm_tiled_computes_witness:
  "\<exists>s. demo_run s \<and> tiled_finished s \<and>
     contents demo_dma_hart (dma_mem (engine s)) 4101 1 = [48] \<and>
     contents demo_dma_hart (dma_mem (engine s)) 4102 1 = [51]"
proof -
  obtain s where s: "demo_run s" "tiled_finished s" using demo_finishes by blast
  have n: "0 < nb_tiles demo_osgemm" "1 < nb_tiles demo_osgemm" by (simp_all add: demo_osgemm_def)
  note r = osgemm_tiled_computes [OF demo_osgemm_ok s]
  have "ptr_d_out demo_osgemm = 4101"
    by (simp add: ptr_d_out_def ptr_d_def ptr_b_def ptr_a_def demo_osgemm_def)
  then have "contents demo_dma_hart (dma_mem (engine s)) 4101 1 = [48] \<and>
      contents demo_dma_hart (dma_mem (engine s)) 4102 1 = [51]"
    using r [OF n(1)] r [OF n(2)]
    by (simp add: contents_def bytes_def demo_wideptr demo_gemm_def demo_osgemm_def demo_dma_def)
  with s show ?thesis by blast
qed

theorem osgemm_tiled_finishes_witness:
  "\<exists>s t. demo_run s \<and>
     (tiled_step demo_dma_hart (osgemm_app (\<lambda>_ _. Some 0) example_map demo_osgemm) demo_accel)\<^sup>*\<^sup>* s t \<and>
     tiled_finished t"
  using osgemm_tiled_finishes [OF demo_osgemm_ok demo_start(4,4)] by blast

end
