(* ===== verification/Sim_mem.thy ===== *)
theory Sim_mem
  imports Prelude
begin

text \<open>
  The memory of the simulator memsim (target/snitch_cluster/sim/src/mem.hpp): a 32-bit address
  space whose 4 KiB pages are created on the first write, with reads and writes that go from page
  to page, and little-endian access to words. The reference is a memory of single bytes.
\<close>

section \<open>Pages\<close>

type_synonym pages = "u32 \<Rightarrow> u8 list option"

definition PAGE_BITS :: nat where
  "PAGE_BITS = 12"

definition PAGE_SIZE :: nat where
  "PAGE_SIZE = 2 ^ PAGE_BITS"

definition PAGE_MASK :: u32 where
  "PAGE_MASK = mask PAGE_BITS"

definition page_no :: "u32 \<Rightarrow> u32" where
  "page_no a = drop_bit PAGE_BITS a"

definition page_off :: "u32 \<Rightarrow> nat" where
  "page_off a = unat (a AND PAGE_MASK)"

definition page_for :: "u32 \<Rightarrow> bool \<Rightarrow> pages \<Rightarrow> u8 list option \<times> pages" where
  "page_for a create m = (case m (page_no a) of
       Some p \<Rightarrow> (Some p, m)
     | None \<Rightarrow> if create then (Some (replicate PAGE_SIZE 0), m(page_no a \<mapsto> replicate PAGE_SIZE 0))
         else (None, m))"

lemma PAGE_SIZE_eq: "PAGE_SIZE = 4096"
  by (simp add: PAGE_SIZE_def PAGE_BITS_def)

lemma page_off_mod: "page_off a = unat a mod PAGE_SIZE"
proof -
  have "a AND PAGE_MASK = a mod 4096"
    by (simp only: PAGE_MASK_def PAGE_BITS_def flip: take_bit_eq_mask) (simp add: take_bit_eq_mod)
  then show ?thesis by (simp add: page_off_def PAGE_SIZE_eq unat_mod)
qed

lemma page_no_div: "unat (page_no a) = unat a div PAGE_SIZE"
  by (simp add: page_no_def PAGE_SIZE_eq PAGE_BITS_def drop_bit_eq_div unat_div)

lemma page_off_less: "page_off a < PAGE_SIZE"
  by (simp add: page_off_mod PAGE_SIZE_eq)

text \<open>\<open>memcpy\<close> into a page.\<close>

definition splice :: "nat \<Rightarrow> 'a list \<Rightarrow> 'a list \<Rightarrow> 'a list" where
  "splice off bs p = take off p @ bs @ drop (off + length bs) p"

text \<open>The loops: one page after the other; \<open>s\<close> and the result are the caller's buffer.\<close>

function mem_write :: "u32 \<Rightarrow> u8 list \<Rightarrow> pages \<Rightarrow> pages" where
  "mem_write a s m =
     (if s = [] then m
      else let off = page_off a;
               chunk = (if PAGE_SIZE - off > length s then length s else PAGE_SIZE - off);
               (p, m') = page_for a True m
           in mem_write (a + word_of_nat chunk) (drop chunk s)
                (m'(page_no a \<mapsto> splice off (take chunk s) (the p))))"
  by auto
termination
  by (relation "measure (\<lambda>(a, s, m). length s)") (auto simp: page_off_less)

function mem_read :: "u32 \<Rightarrow> nat \<Rightarrow> pages \<Rightarrow> u8 list" where
  "mem_read a n m =
     (if n = 0 then []
      else let off = page_off a;
               chunk = (if PAGE_SIZE - off > n then n else PAGE_SIZE - off)
           in (case fst (page_for a False m) of
                 Some p \<Rightarrow> take chunk (drop off p)
               | None \<Rightarrow> replicate chunk 0) @
              mem_read (a + word_of_nat chunk) (n - chunk) m)"
  by auto
termination
  by (relation "measure (\<lambda>(a, n, m). n)") (auto simp: page_off_less)

declare mem_write.simps [simp del] mem_read.simps [simp del]

section \<open>Words in memory\<close>

primrec le_word :: "u8 list \<Rightarrow> 'a::len word" where
  "le_word [] = 0"
| "le_word (b # bs) = ucast b OR push_bit 8 (le_word bs)"

definition le_bytes :: "nat \<Rightarrow> 'a::len word \<Rightarrow> u8 list" where
  "le_bytes n w = map (\<lambda>i. ucast (drop_bit (8 * i) w)) [0..<n]"

definition ld8 :: "u32 \<Rightarrow> pages \<Rightarrow> u8" where
  "ld8 a m = le_word (mem_read a 1 m)"

definition ld16 :: "u32 \<Rightarrow> pages \<Rightarrow> u16" where
  "ld16 a m = le_word (mem_read a 2 m)"

definition ld32 :: "u32 \<Rightarrow> pages \<Rightarrow> u32" where
  "ld32 a m = le_word (mem_read a 4 m)"

definition ld64 :: "u32 \<Rightarrow> pages \<Rightarrow> u64" where
  "ld64 a m = le_word (mem_read a 8 m)"

definition st8 :: "u32 \<Rightarrow> u8 \<Rightarrow> pages \<Rightarrow> pages" where
  "st8 a v = mem_write a (le_bytes 1 v)"

definition st16 :: "u32 \<Rightarrow> u16 \<Rightarrow> pages \<Rightarrow> pages" where
  "st16 a v = mem_write a (le_bytes 2 v)"

definition st32 :: "u32 \<Rightarrow> u32 \<Rightarrow> pages \<Rightarrow> pages" where
  "st32 a v = mem_write a (le_bytes 4 v)"

definition st64 :: "u32 \<Rightarrow> u64 \<Rightarrow> pages \<Rightarrow> pages" where
  "st64 a v = mem_write a (le_bytes 8 v)"

section \<open>The reference: single bytes\<close>

definition byte_at :: "pages \<Rightarrow> u32 \<Rightarrow> u8" where
  "byte_at m a = (case m (page_no a) of Some p \<Rightarrow> p ! page_off a | None \<Rightarrow> 0)"

definition pages_wf :: "pages \<Rightarrow> bool" where
  "pages_wf m \<longleftrightarrow> (\<forall>n p. m n = Some p \<longrightarrow> length p = PAGE_SIZE)"

lemma pages_wf_empty: "pages_wf (\<lambda>_. None)"
  by (simp add: pages_wf_def)

text \<open>Within a page.\<close>

lemma same_page:
  assumes "page_off a + i < PAGE_SIZE"
  shows "page_no (a + word_of_nat i) = page_no a" and "page_off (a + word_of_nat i) = page_off a + i"
proof -
  have split: "unat a = PAGE_SIZE * (unat a div PAGE_SIZE) + page_off a"
    using mult_div_mod_eq [of PAGE_SIZE "unat a"] by (simp add: page_off_mod)
  have top: "unat a div PAGE_SIZE < 2 ^ 20"
    using unat_u32_bound [of a] by (simp add: PAGE_SIZE_eq)
  have "unat a + i < PAGE_SIZE * Suc (unat a div PAGE_SIZE)" using split assms by simp
  also have "\<dots> \<le> PAGE_SIZE * 2 ^ 20" using top by (intro mult_le_mono2) simp
  finally have lt: "unat a + i < 2 ^ 32" by (simp add: PAGE_SIZE_eq)
  then have i: "unat (word_of_nat i :: u32) = i" by (intro unat_of_nat_small) simp
  then have e: "unat (a + word_of_nat i) = unat a + i" using lt by (subst unat_add_small) simp_all
  have split': "unat a + i = PAGE_SIZE * (unat a div PAGE_SIZE) + (page_off a + i)" using split by simp
  have "(unat a + i) div PAGE_SIZE = unat a div PAGE_SIZE" and "(unat a + i) mod PAGE_SIZE = page_off a + i"
    using assms by (subst split', simp)+
  then show "page_no (a + word_of_nat i) = page_no a" "page_off (a + word_of_nat i) = page_off a + i"
    unfolding word_unat_eq_iff by (simp_all only: page_off_mod page_no_div e)
qed

definition put_bytes :: "u32 \<Rightarrow> u8 list \<Rightarrow> pages \<Rightarrow> pages" where
  "put_bytes a bs m = (snd (page_for a True m))
     (page_no a \<mapsto> splice (page_off a) bs (the (fst (page_for a True m))))"

lemma put_bytes_page:
  assumes "pages_wf m" and "page_off a + length bs \<le> PAGE_SIZE"
  shows "byte_at (put_bytes a bs m) x = (if unat (x - a) < length bs then bs ! unat (x - a) else byte_at m x)"
    and "pages_wf (put_bytes a bs m)"
proof -
  obtain p where p: "fst (page_for a True m) = Some p" "length p = PAGE_SIZE"
    "snd (page_for a True m) = m(page_no a \<mapsto> p)" "\<And>x. page_no x = page_no a \<Longrightarrow> p ! page_off x = byte_at m x"
  proof (cases "m (page_no a)")
    case None
    then show ?thesis
      using that [of "replicate PAGE_SIZE 0"] by (simp add: page_for_def byte_at_def page_off_less)
  next
    case (Some q)
    then have "m(page_no a \<mapsto> q) = m" by auto
    with Some show ?thesis
      using that [of q] assms(1) by (simp add: page_for_def byte_at_def pages_wf_def)
  qed
  have len: "length (splice (page_off a) bs p) = PAGE_SIZE"
    using assms(2) p(2) by (simp add: splice_def)
  note p = p put_bytes_def
  show "pages_wf (put_bytes a bs m)" using assms(1) len p by (auto simp: pages_wf_def split: if_splits)
  show "byte_at (put_bytes a bs m) x = (if unat (x - a) < length bs then bs ! unat (x - a) else byte_at m x)"
  proof (cases "unat (x - a) < length bs")
    case True
    define i where "i = unat (x - a)"
    have x: "x = a + word_of_nat i" by (simp add: i_def)
    have "page_off a + i < PAGE_SIZE" using True assms(2) by (simp add: i_def)
    note same = same_page [OF this]
    have "splice (page_off a) bs p ! (page_off a + i) = bs ! i"
      using True assms(2) p(2) by (simp add: splice_def nth_append i_def)
    then show ?thesis using True same by (simp add: byte_at_def p x) (simp add: i_def)
  next
    case False
    show ?thesis
    proof (cases "page_no x = page_no a")
      case True
      have out: "\<not> (page_off a \<le> page_off x \<and> page_off x < page_off a + length bs)"
      proof
        assume b: "page_off a \<le> page_off x \<and> page_off x < page_off a + length bs"
        define i where "i = page_off x - page_off a"
        have "page_off a + i < PAGE_SIZE" using page_off_less [of x] b by (simp add: i_def)
        note same = same_page [OF this]
        have "unat x = unat (a + word_of_nat i)"
          using same True b page_no_div page_off_mod mult_div_mod_eq by (metis i_def le_add_diff_inverse)
        then have "x = a + word_of_nat i" by (simp only: word_unat_eq_iff)
        then have "x - a = word_of_nat i" by simp
        moreover have "unat (word_of_nat i :: u32) = i"
          using page_off_less [of x] by (intro unat_of_nat_small) (simp add: i_def PAGE_SIZE_eq)
        ultimately have "unat (x - a) = i" by (simp only:)
        then show False using False b unfolding i_def by linarith
      qed
      have "splice (page_off a) bs p ! page_off x = p ! page_off x"
        using out assms(2) p(2) page_off_less [of x] by (auto simp: splice_def nth_append min_def)
      then show ?thesis using False True p(4) [OF True] by (simp add: byte_at_def p)
    next
      case False
      then show ?thesis using \<open>\<not> unat (x - a) < length bs\<close> by (simp add: byte_at_def p)
    qed
  qed
qed

text \<open>One step of the loops.\<close>

lemma mem_write_Nil [simp]: "mem_write a [] m = m"
  by (simp add: mem_write.simps)

lemma mem_read_0 [simp]: "mem_read a 0 m = []"
  by (simp add: mem_read.simps)

definition chunk_of :: "u32 \<Rightarrow> nat \<Rightarrow> nat" where
  "chunk_of a n = min n (PAGE_SIZE - page_off a)"

lemma chunk_of: "chunk_of a n \<le> n" "page_off a + chunk_of a n \<le> PAGE_SIZE" "0 < n \<Longrightarrow> 0 < chunk_of a n"
  using page_off_less [of a] by (auto simp: chunk_of_def)

lemma chunk_lengths:
  assumes "s \<noteq> []"
  shows "length (drop (chunk_of a (length s)) s) < length s"
    and "page_off a + length (take (chunk_of a (length s)) s) \<le> PAGE_SIZE"
    and "chunk_of a (length s) \<le> length s"
  using assms chunk_of [where a = a and n = "length s"] by (simp_all add: min_absorb2 diff_less)

lemma mem_write_step:
  assumes "s \<noteq> []"
  shows "mem_write a s m = mem_write (a + word_of_nat (chunk_of a (length s))) (drop (chunk_of a (length s)) s)
    (put_bytes a (take (chunk_of a (length s)) s) m)"
proof -
  have c: "chunk_of a (length s) =
      (if PAGE_SIZE - page_off a > length s then length s else PAGE_SIZE - page_off a)"
    by (auto simp: chunk_of_def)
  show ?thesis
    using assms unfolding mem_write.simps [of a s m] c
    by (simp only: if_False Let_def put_bytes_def case_prod_beta)
qed

lemma mem_read_step:
  assumes "0 < n" and "pages_wf m"
  shows "mem_read a n m = map (\<lambda>i. byte_at m (a + word_of_nat i)) [0..<chunk_of a n] @
    mem_read (a + word_of_nat (chunk_of a n)) (n - chunk_of a n) m"
proof -
  let ?c = "chunk_of a n"
  have c: "?c = (if PAGE_SIZE - page_off a > n then n else PAGE_SIZE - page_off a)"
    by (auto simp: chunk_of_def)
  have same: "page_no (a + word_of_nat i) = page_no a" "page_off (a + word_of_nat i) = page_off a + i"
    if "i < ?c" for i
    using same_page [of a i] that chunk_of(2) [of a n] by simp_all
  have "(case fst (page_for a False m) of Some p \<Rightarrow> take ?c (drop (page_off a) p) | None \<Rightarrow> replicate ?c 0) =
      map (\<lambda>i. byte_at m (a + word_of_nat i)) [0..<?c]"
  proof (cases "m (page_no a)")
    case None
    then show ?thesis
      by (intro nth_equalityI) (simp_all add: page_for_def byte_at_def same)
  next
    case (Some p)
    then have "length p = PAGE_SIZE" using assms(2) by (simp add: pages_wf_def)
    then show ?thesis
      using Some chunk_of(2) [of a n]
      by (intro nth_equalityI) (simp_all add: page_for_def byte_at_def same)
  qed
  then show ?thesis
    using assms(1) unfolding mem_read.simps [of a n m] c [symmetric] Let_def by simp
qed

text \<open>The loops are the reference.\<close>

lemma mem_write_bytes_aux:
  assumes "pages_wf m" and "length s \<le> 2 ^ 32"
  shows "pages_wf (mem_write a s m) \<and> byte_at (mem_write a s m) x =
    (if unat (x - a) < length s then s ! unat (x - a) else byte_at m x)"
  using assms
proof (induction "length s" arbitrary: a s m rule: less_induct)
  case less
  show ?case
  proof (cases "s = []")
    case False
    let ?c = "chunk_of a (length s)"
    note c = chunk_lengths [OF False, of a]
    note put = put_bytes_page [OF less.prems(1) c(2)]
    have IH: "pages_wf (mem_write a s m)"
      "byte_at (mem_write a s m) x = (if unat (x - (a + word_of_nat ?c)) < length s - ?c
        then s ! (?c + unat (x - (a + word_of_nat ?c))) else byte_at (put_bytes a (take ?c s) m) x)"
      unfolding mem_write_step [OF False] using less.hyps [OF c(1) put(2)] less.prems(2) c(3) by simp_all
    show ?thesis
    proof (cases "?c < length s")
      case True
      then have "unat (x - (a + word_of_nat ?c)) < length s - ?c \<longleftrightarrow>
          ?c \<le> unat (x - a) \<and> unat (x - a) < length s"
        "?c \<le> unat (x - a) \<Longrightarrow> ?c + unat (x - (a + word_of_nat ?c)) = unat (x - a)"
        using addr_shift [of ?c "length s - ?c" x a] less.prems(2) by simp_all
      then show ?thesis using IH put(1) [of x] c(3) by auto
    next
      case False
      then have "?c = length s" using c(3) by simp
      then show ?thesis using IH put(1) [of x] by simp
    qed
  qed (simp add: less.prems)
qed

lemma mem_write_bytes:
  assumes "pages_wf m" and "length s \<le> 2 ^ 32"
  shows "pages_wf (mem_write a s m)"
    and "byte_at (mem_write a s m) x = (if unat (x - a) < length s then s ! unat (x - a) else byte_at m x)"
  using mem_write_bytes_aux [OF assms] by blast+

lemma mem_read_bytes:
  assumes "pages_wf m"
  shows "mem_read a n m = map (\<lambda>i. byte_at m (a + word_of_nat i)) [0..<n]"
proof (induction n arbitrary: a rule: less_induct)
  case (less n)
  show ?case
  proof (cases "n = 0")
    case False
    let ?c = "chunk_of a n"
    have c: "n - ?c < n" "?c \<le> n" using False chunk_of [where a = a and n = n] by simp_all
    have "map (\<lambda>i. byte_at m (a + word_of_nat i)) [0..<n] = map (\<lambda>i. byte_at m (a + word_of_nat i)) [0..<?c] @
        map (\<lambda>i. byte_at m (a + word_of_nat ?c + word_of_nat i)) [0..<n - ?c]"
      using c(2) by (intro nth_equalityI) (auto simp: nth_append add.assoc simp flip: of_nat_add)
    then show ?thesis
      using False less [OF c(1)] by (simp add: mem_read_step [OF _ assms])
  qed simp
qed

section \<open>Little-endian words\<close>

lemma bit_le_word:
  "bit (le_word bs :: 'a::len word) n \<longleftrightarrow> n < LENGTH('a) \<and> n div 8 < length bs \<and> bit (bs ! (n div 8)) (n mod 8)"
proof (induction bs arbitrary: n)
  case (Cons b bs)
  show ?case
  proof (cases "n < 8")
    case True
    then show ?thesis by (auto simp: bit_simps)
  next
    case False
    then have n: "n div 8 = Suc ((n - 8) div 8)" "n mod 8 = (n - 8) mod 8"
      by (simp_all add: le_div_geq le_mod_geq)
    have "\<not> bit (ucast b :: 'a word) n" using False by (auto simp: bit_simps bit_imp_le_length dest!: bit_imp_le_length)
    then show ?thesis using False Cons.IH [of "n - 8"] n by (auto simp: bit_simps)
  qed
qed simp

lemma le_word_bytes:
  assumes "LENGTH('a) = 8 * n"
  shows "le_word (le_bytes n w) = (w :: 'a::len word)"
proof (rule bit_word_eqI)
  fix i
  assume i: "i < LENGTH('a)"
  then have "i div 8 < n" using assms by (simp add: less_mult_imp_div_less mult.commute)
  then show "bit (le_word (le_bytes n w) :: 'a word) i = bit w i"
    using i by (simp add: bit_le_word le_bytes_def bit_simps)
qed

lemma length_le_bytes [simp]: "length (le_bytes n w) = n"
  by (simp add: le_bytes_def)

text \<open>What is written is read back; bytes outside are not changed.\<close>

lemma mem_read_written:
  assumes "pages_wf m" and "length s \<le> 2 ^ 32"
  shows "mem_read a (length s) (mem_write a s m) = s"
proof (rule nth_equalityI)
  fix i
  assume "i < length (mem_read a (length s) (mem_write a s m))"
  then have i: "i < length s" using mem_write_bytes(1) [OF assms] by (simp add: mem_read_bytes)
  then have "unat (word_of_nat i :: u32) = i" using assms(2) by (intro unat_of_nat_small) simp
  with i show "mem_read a (length s) (mem_write a s m) ! i = s ! i"
    using mem_write_bytes [OF assms] by (simp add: mem_read_bytes)
qed (simp add: mem_read_bytes mem_write_bytes(1) [OF assms])

lemma mem_read_other:
  assumes "pages_wf m" and "length s \<le> 2 ^ 32"
    and "\<And>i. i < n \<Longrightarrow> length s \<le> unat (b + word_of_nat i - a)"
  shows "mem_read b n (mem_write a s m) = mem_read b n m"
proof -
  have "byte_at (mem_write a s m) (b + word_of_nat i) = byte_at m (b + word_of_nat i)" if "i < n" for i
    using assms(3) [OF that] by (simp add: mem_write_bytes [OF assms(1,2)])
  then show ?thesis using mem_write_bytes(1) [OF assms(1,2)] assms(1) by (simp add: mem_read_bytes)
qed

section \<open>Blocks of bytes\<close>

definition block :: "u32 \<Rightarrow> nat \<Rightarrow> u32 set" where
  "block a n = (\<lambda>i. a + word_of_nat i) ` {..<n}"

lemma block_iff: "n \<le> 2 ^ 32 \<Longrightarrow> x \<in> block a n \<longleftrightarrow> unat (x - a) < n"
proof
  assume n: "n \<le> 2 ^ 32"
  show "unat (x - a) < n" if "x \<in> block a n"
    using that n by (auto simp: block_def unat_of_nat take_bit_nat_eq_self)
  show "x \<in> block a n" if "unat (x - a) < n"
    unfolding block_def using that by (intro image_eqI [of _ _ "unat (x - a)"]) simp_all
qed

lemma mem_read_cong: "pages_wf m \<Longrightarrow> pages_wf m' \<Longrightarrow> (\<And>x. x \<in> block a n \<Longrightarrow> byte_at m x = byte_at m' x) \<Longrightarrow> mem_read a n m = mem_read a n m'"
  by (simp add: mem_read_bytes block_def)

lemma length_mem_read: "pages_wf m \<Longrightarrow> length (mem_read a n m) = n"
  by (simp add: mem_read_bytes)

lemma mem_write_block:
  assumes "pages_wf m" "length bs \<le> 2 ^ 32"
  shows "x \<notin> block a (length bs) \<Longrightarrow> byte_at (mem_write a bs m) x = byte_at m x"
    "block a (length bs) \<inter> block c n = {} \<Longrightarrow> mem_read c n (mem_write a bs m) = mem_read c n m"
proof -
  show o: "byte_at (mem_write a bs m) x = byte_at m x" if "x \<notin> block a (length bs)" for x
    using that mem_write_bytes(2) [OF assms] block_iff [OF assms(2)] by simp
  show "mem_read c n (mem_write a bs m) = mem_read c n m" if "block a (length bs) \<inter> block c n = {}"
    using that by (intro mem_read_cong mem_write_bytes(1) assms o) blast
qed

text \<open>Writes of blocks that do not meet.\<close>

definition write_all :: "(u32 \<times> u8 list) list \<Rightarrow> pages \<Rightarrow> pages" where
  "write_all ws m = fold (\<lambda>(a, bs). mem_write a bs) ws m"

definition apart :: "u32 \<times> u8 list \<Rightarrow> u32 \<times> u8 list \<Rightarrow> bool" where
  "apart v w \<longleftrightarrow> block (fst v) (length (snd v)) \<inter> block (fst w) (length (snd w)) = {}"

lemma write_all_apart:
  assumes "pages_wf m" "\<forall>w \<in> set ws. length (snd w) \<le> 2 ^ 32" "sorted_wrt apart ws"
  shows "pages_wf (write_all ws m) \<and>
    (\<forall>x. (\<forall>w \<in> set ws. x \<notin> block (fst w) (length (snd w))) \<longrightarrow> byte_at (write_all ws m) x = byte_at m x) \<and>
    (\<forall>c n. (\<forall>w \<in> set ws. block c n \<inter> block (fst w) (length (snd w)) = {}) \<longrightarrow> mem_read c n (write_all ws m) = mem_read c n m) \<and>
    (\<forall>w \<in> set ws. mem_read (fst w) (length (snd w)) (write_all ws m) = snd w)"
  using assms
proof (induction ws arbitrary: m)
  case (Cons v ws)
  obtain a bs where v: "v = (a, bs)" by (cases v)
  have l: "length bs \<le> 2 ^ 32" using Cons.prems(2) v by simp
  note b = mem_write_block [OF Cons.prems(1) l] and wf = mem_write_bytes(1) [OF Cons.prems(1) l, of a]
  have r: "write_all (v # ws) m = write_all ws (mem_write a bs m)" by (simp add: write_all_def v)
  have IH: "pages_wf (write_all ws (mem_write a bs m))"
    "\<And>x. \<forall>w \<in> set ws. x \<notin> block (fst w) (length (snd w)) \<Longrightarrow> byte_at (write_all ws (mem_write a bs m)) x = byte_at (mem_write a bs m) x"
    "\<And>c n. \<forall>w \<in> set ws. block c n \<inter> block (fst w) (length (snd w)) = {} \<Longrightarrow>
      mem_read c n (write_all ws (mem_write a bs m)) = mem_read c n (mem_write a bs m)"
    "\<forall>w \<in> set ws. mem_read (fst w) (length (snd w)) (write_all ws (mem_write a bs m)) = snd w"
    using Cons.IH [OF wf] Cons.prems(2,3) by simp_all
  have "mem_read a (length bs) (write_all ws (mem_write a bs m)) = bs"
    using IH(3) [of a "length bs"] mem_read_written [OF Cons.prems(1) l, of a] Cons.prems(3) v by (simp add: apart_def)
  moreover have "mem_read c n (write_all ws (mem_write a bs m)) = mem_read c n m"
    if "\<forall>w \<in> set (v # ws). block c n \<inter> block (fst w) (length (snd w)) = {}" for c n
    using IH(3) [of c n] b(2) [of a c n] that v by (simp add: Int_commute)
  moreover have "byte_at (write_all ws (mem_write a bs m)) x = byte_at m x"
    if "\<forall>w \<in> set (v # ws). x \<notin> block (fst w) (length (snd w))" for x
    using IH(2) [of x] b(1) [of x a] that v by simp
  ultimately show ?case using IH(1,4) unfolding r by (simp add: v)
qed (simp add: write_all_def)

lemmas sim_mem_defs = ld8_def ld16_def ld32_def ld64_def st8_def st16_def st32_def st64_def

lemma st_wf:
  assumes "pages_wf m"
  shows "pages_wf (st8 a b m)" "pages_wf (st16 a h m)" "pages_wf (st32 a w m)" "pages_wf (st64 a d m)"
  using assms by (simp_all add: sim_mem_defs mem_write_bytes)

lemma ld_st_same:
  assumes "pages_wf m"
  shows "ld8 a (st8 a b m) = b" "ld16 a (st16 a h m) = h" "ld32 a (st32 a w m) = w" "ld64 a (st64 a d m) = d"
  using mem_read_written [OF assms, of "le_bytes 1 b" a] mem_read_written [OF assms, of "le_bytes 2 h" a]
    mem_read_written [OF assms, of "le_bytes 4 w" a] mem_read_written [OF assms, of "le_bytes 8 d" a]
  by (simp_all add: sim_mem_defs le_word_bytes)

text \<open>
  C7: the paged memory is a memory of single bytes that starts with zeros: a write of any block of at
  most 4 GiB, within a page, across pages or around the end of the address space, changes exactly
  the bytes of the block and keeps the pages well-formed, a read returns the bytes at the addresses
  it covers, and a word that was stored is loaded back.
\<close>

theorem sim_memory_refines:
  assumes "pages_wf m" and "length s \<le> 2 ^ 32"
  shows "pages_wf (mem_write a s m) \<and>
    byte_at (mem_write a s m) = (\<lambda>x. if unat (x - a) < length s then s ! unat (x - a) else byte_at m x) \<and>
    mem_read b n m = map (\<lambda>i. byte_at m (b + word_of_nat i)) [0..<n] \<and>
    ld32 b (st32 b w m) = w \<and> ld64 b (st64 b d m) = d"
  using mem_write_bytes [OF assms] mem_read_bytes [OF assms(1)] ld_st_same [OF assms(1)]
  by (auto intro!: ext)

theorem sim_memory_refines_witness:
  "mem_read 0xFFFFFFFE 4 (mem_write 0xFFFFFFFE [1, 2, 3, 4] (\<lambda>_. None)) = [1, 2, 3, 4] \<and>
   byte_at (mem_write 0xFFFFFFFE [1, 2, 3, 4] (\<lambda>_. None)) 1 = 4 \<and>
   ld32 0xFFE (st32 0xFFE 0x01020304 (\<lambda>_. None)) = 0x01020304"
proof -
  have "length [1, 2, 3, 4 :: u8] \<le> 2 ^ 32" by simp
  note r = sim_memory_refines [OF pages_wf_empty this, of "0xFFFFFFFE"]
  have wf: "pages_wf (mem_write 0xFFFFFFFE [1, 2, 3, 4] (\<lambda>_. None))" using r by simp
  have b: "byte_at (mem_write 0xFFFFFFFE [1, 2, 3, 4] (\<lambda>_. None)) =
      (\<lambda>x. if unat (x - 0xFFFFFFFE) < length [1, 2, 3, 4 :: u8] then [1, 2, 3, 4] ! unat (x - 0xFFFFFFFE) else byte_at (\<lambda>_. None) x)"
    using r by blast
  have "mem_read 0xFFFFFFFE 4 (mem_write 0xFFFFFFFE [1, 2, 3, 4] (\<lambda>_. None)) = [1, 2, 3, 4]"
    using sim_memory_refines [OF wf, of "[]" 0 "0xFFFFFFFE" 4] by (simp add: b upt_rec)
  then show ?thesis using r by (simp add: b)
qed

end
