(* ===== verification/Interp.thy ===== *)
theory Interp
  imports Sim_mem "HOL-Library.Signed_Division"
begin

text \<open>
  The instruction interpreter of memsim (target/snitch_cluster/sim/src): the state of a hart
  (hart.hpp), the machine and the interface of the timing world (machine.hpp, interp.hpp) and one
  instruction step (interp.cpp). The world, an abstract class there, is a record of operations on
  its state and the memory; printing through the host interface is left out.
\<close>

section \<open>Harts\<close>

datatype hart_state = Run | AtBarrier | BlockedPoll | Halted | Parked

datatype step = Normal | Barrier | Halt | Wfi | PollRead

definition CSR_MISA :: u32 where "CSR_MISA = 0x301"
definition CSR_MCYCLE :: u32 where "CSR_MCYCLE = 0xB00"
definition CSR_MCYCLEH :: u32 where "CSR_MCYCLEH = 0xB80"
definition CSR_CYCLE :: u32 where "CSR_CYCLE = 0xC00"
definition CSR_TIME :: u32 where "CSR_TIME = 0xC01"
definition CSR_CLUSTER_BASE_L :: u32 where "CSR_CLUSTER_BASE_L = 0xBC1"
definition CSR_CLUSTER_BASE_H :: u32 where "CSR_CLUSTER_BASE_H = 0xBC2"
definition CSR_CORE_INFO :: u32 where "CSR_CORE_INFO = 0xBC3"
definition CSR_HW_BARRIER :: u32 where "CSR_HW_BARRIER = 0x7C2"
definition CSR_MHARTID :: u32 where "CSR_MHARTID = 0xF14"

definition SNAX_STREAMER_CFG_LO :: u32 where "SNAX_STREAMER_CFG_LO = 960"
definition SNAX_ISCORE_TILE_CNT :: u32 where "SNAX_ISCORE_TILE_CNT = 1194"

definition SNAX_CSR_WRITE_COST :: u64 where "SNAX_CSR_WRITE_COST = 1"
definition LOAD_USE_STALL :: u64 where "LOAD_USE_STALL = 3"
definition MUL_STALL :: u64 where "MUL_STALL = 3"
definition DIV_STALL :: u64 where "DIV_STALL = 32"
definition HW_BARRIER_RELEASE_COST :: u64 where "HW_BARRIER_RELEASE_COST = 2"

record sim_hart =
  hid :: nat
  xr :: "u32 \<Rightarrow> u32"
  fr :: "u32 \<Rightarrow> u64"
  pc :: u32
  cycle :: u64
  hstate :: hart_state
  hcsr :: "u32 \<Rightarrow> u32 option"
  poll_spins :: u32
  last_backjump_pc :: u32
  pend_reg :: u32
  pend_ready :: u64

definition hset :: "u32 \<Rightarrow> u32 \<Rightarrow> sim_hart \<Rightarrow> sim_hart" where
  "hset r v h = (if r \<noteq> 0 then h\<lparr>xr := (xr h)(r := v)\<rparr> else h)"

section \<open>The machine\<close>

record dma_stage =
  sg_src :: u64
  sg_dst :: u64
  sg_dst_stride :: u32
  sg_src_stride :: u32
  sg_repeat :: u32

record dma_desc =
  ds_src :: u64
  ds_dst :: u64
  ds_size :: u32
  ds_dst_stride :: u32
  ds_src_stride :: u32
  ds_repeat :: u32
  ds_is_2d :: bool
  ds_src_is_l3 :: bool
  ds_dst_is_l3 :: bool
  ds_hart :: nat

text \<open>The operations of the world; it has access to the memory.\<close>

type_synonym 'w env = "'w \<times> pages"

record 'w world_ops =
  advance_to :: "u64 \<Rightarrow> 'w env \<Rightarrow> 'w env"
  next_event_cycle :: "'w env \<Rightarrow> u64"
  dma_submit :: "dma_desc \<Rightarrow> u64 \<Rightarrow> 'w env \<Rightarrow> u32 \<times> 'w env"
  dma_busy :: "u64 \<Rightarrow> 'w env \<Rightarrow> u32 \<times> 'w env"
  dma_completed_id :: "u64 \<Rightarrow> 'w env \<Rightarrow> u32 \<times> 'w env"
  snax_write :: "u32 \<Rightarrow> u32 \<Rightarrow> u64 \<Rightarrow> 'w env \<Rightarrow> 'w env"
  snax_write_serializes :: "u32 \<Rightarrow> u64 \<Rightarrow> 'w env \<Rightarrow> bool"
  snax_read :: "u32 \<Rightarrow> u64 \<Rightarrow> 'w env \<Rightarrow> (u32 \<times> bool) \<times> 'w env"
  fence :: "nat \<Rightarrow> u64 \<Rightarrow> 'w env \<Rightarrow> 'w env"

text \<open>The base class: it does nothing.\<close>

definition base_world :: "unit world_ops" where
  "base_world = \<lparr>advance_to = (\<lambda>_ e. e), next_event_cycle = (\<lambda>_. - 1),
     dma_submit = (\<lambda>_ _ e. (0, e)), dma_busy = (\<lambda>_ e. (0, e)), dma_completed_id = (\<lambda>_ e. (0, e)),
     snax_write = (\<lambda>_ _ _ e. e), snax_write_serializes = (\<lambda>_ _ _. True),
     snax_read = (\<lambda>_ _ e. ((0, False), e)), fence = (\<lambda>_ _ e. e)\<rparr>"

record 'w machine =
  env :: "'w env"
  harts :: "sim_hart list"
  tohost :: u32
  fromhost :: u32
  exited :: bool
  exit_code :: i32
  cluster_base_l :: u32
  cluster_base_h :: u32
  core_num :: u32

abbreviation memory :: "'w machine \<Rightarrow> pages" where
  "memory m \<equiv> snd (env m)"

definition upd_mem :: "(pages \<Rightarrow> pages) \<Rightarrow> 'w machine \<Rightarrow> 'w machine" where
  "upd_mem f m = m\<lparr>env := (fst (env m), f (memory m))\<rparr>"

definition upd_env :: "('w env \<Rightarrow> 'w env) \<Rightarrow> 'w machine \<Rightarrow> 'w machine" where
  "upd_env f m = m\<lparr>env := f (env m)\<rparr>"

definition ask_env :: "('w env \<Rightarrow> 'r \<times> 'w env) \<Rightarrow> 'w machine \<Rightarrow> 'r \<times> 'w machine" where
  "ask_env f m = (let (r, e) = f (env m) in (r, m\<lparr>env := e\<rparr>))"

text \<open>A store to \<open>tohost\<close>: an exit halts all harts; otherwise a call, which is acknowledged.\<close>

definition htif_tohost :: "u32 \<Rightarrow> 'w machine \<Rightarrow> 'w machine" where
  "htif_tohost value m =
     (if value AND 1 \<noteq> 0
      then m\<lparr>exit_code := drop_bit 1 value, exited := True,
        harts := map (\<lambda>h. h\<lparr>hstate := Halted\<rparr>) (harts m)\<rparr>
      else upd_mem (\<lambda>p. st32 (tohost m) 0 (st32 (fromhost m) 1 p)) m)"

section \<open>Control and status registers\<close>

definition snax_window :: "u32 \<Rightarrow> bool" where
  "snax_window csr \<longleftrightarrow> SNAX_STREAMER_CFG_LO \<le> csr \<and> csr \<le> SNAX_ISCORE_TILE_CNT"

definition csr_read :: "'w world_ops \<Rightarrow> sim_hart \<Rightarrow> u32 \<Rightarrow> 'w machine \<Rightarrow> (u32 \<times> bool) \<times> 'w machine" where
  "csr_read W h csr m =
     (if csr = CSR_MHARTID then ((word_of_nat (hid h), False), m)
      else if csr = CSR_MISA then ((0x40001129, False), m)
      else if csr = CSR_MCYCLE \<or> csr = CSR_CYCLE then ((ucast (cycle h), False), m)
      else if csr = CSR_MCYCLEH then ((ucast (drop_bit 32 (cycle h)), False), m)
      else if csr = CSR_TIME then ((ucast (cycle h), False), m)
      else if csr = CSR_CLUSTER_BASE_L then ((cluster_base_l m, False), m)
      else if csr = CSR_CLUSTER_BASE_H then ((cluster_base_h m, False), m)
      else if csr = CSR_CORE_INFO then ((push_bit 16 (core_num m) OR word_of_nat (hid h), False), m)
      else if snax_window csr then
        ask_env (snax_read W csr (cycle h)) (upd_env (advance_to W (cycle h)) m)
      else ((case hcsr h csr of Some v \<Rightarrow> v | None \<Rightarrow> 0, False), m))"

definition csr_write ::
  "'w world_ops \<Rightarrow> u32 \<Rightarrow> u32 \<Rightarrow> 'w machine \<times> sim_hart \<Rightarrow> 'w machine \<times> sim_hart" where
  "csr_write W csr val = (\<lambda>(m, h).
     if snax_window csr then (upd_env (snax_write W csr val (cycle h)) m, h)
     else (m, h\<lparr>hcsr := (hcsr h)(csr \<mapsto> val)\<rparr>))"

definition reads_reg :: "u32 \<Rightarrow> u32 \<Rightarrow> u32 \<Rightarrow> u32 \<Rightarrow> u32 \<Rightarrow> bool" where
  "reads_reg op f3 reg rs1 rs2 =
     (if reg = 0 then False
      else let (r1, r2) =
          (if op \<in> {0x37, 0x17, 0x6f, 0x0f} then (False, False)
           else if op \<in> {0x67, 0x03, 0x07, 0x13} then (True, False)
           else if op \<in> {0x63, 0x23, 0x27, 0x33, 0x2f} then (True, True)
           else if op = 0x73 then (f3 = 1 \<or> f3 = 2 \<or> f3 = 3, False)
           else (True, True))
        in (r1 \<and> rs1 = reg) \<or> (r2 \<and> rs2 = reg))"

section \<open>Decoding\<close>

definition sext :: "u32 \<Rightarrow> nat \<Rightarrow> u32" where
  "sext v bits = (let m = push_bit (bits - 1) 1 in (v XOR m) - m)"

definition f_op :: "u32 \<Rightarrow> u32" where "f_op insn = insn AND 0x7f"
definition f_rd :: "u32 \<Rightarrow> u32" where "f_rd insn = drop_bit 7 insn AND 0x1f"
definition f_f3 :: "u32 \<Rightarrow> u32" where "f_f3 insn = drop_bit 12 insn AND 7"
definition f_rs1 :: "u32 \<Rightarrow> u32" where "f_rs1 insn = drop_bit 15 insn AND 0x1f"
definition f_rs2 :: "u32 \<Rightarrow> u32" where "f_rs2 insn = drop_bit 20 insn AND 0x1f"
definition f_f7 :: "u32 \<Rightarrow> u32" where "f_f7 insn = drop_bit 25 insn AND 0x7f"

definition imm_u :: "u32 \<Rightarrow> u32" where
  "imm_u insn = insn AND 0xfffff000"

definition imm_j :: "u32 \<Rightarrow> u32" where
  "imm_j insn = sext (push_bit 20 (drop_bit 31 insn AND 1) OR push_bit 12 (drop_bit 12 insn AND 0xff) OR
     push_bit 11 (drop_bit 20 insn AND 1) OR push_bit 1 (drop_bit 21 insn AND 0x3ff)) 21"

definition imm_i :: "u32 \<Rightarrow> u32" where
  "imm_i insn = sext (drop_bit 20 insn) 12"

definition imm_b :: "u32 \<Rightarrow> u32" where
  "imm_b insn = sext (push_bit 12 (drop_bit 31 insn AND 1) OR push_bit 11 (drop_bit 7 insn AND 1) OR
     push_bit 5 (drop_bit 25 insn AND 0x3f) OR push_bit 1 (drop_bit 8 insn AND 0xf)) 13"

definition imm_s :: "u32 \<Rightarrow> u32" where
  "imm_s insn = sext (push_bit 5 (drop_bit 25 insn) OR (drop_bit 7 insn AND 0x1f)) 12"

section \<open>Executing\<close>

definition branch_taken :: "u32 \<Rightarrow> u32 \<Rightarrow> u32 \<Rightarrow> bool" where
  "branch_taken f3 a b =
     (if f3 = 0 then a = b
      else if f3 = 1 then a \<noteq> b
      else if f3 = 4 then a <s b
      else if f3 = 5 then b \<le>s a
      else if f3 = 6 then a < b
      else if f3 = 7 then b \<le> a
      else False)"

definition load_value :: "u32 \<Rightarrow> u32 \<Rightarrow> pages \<Rightarrow> u32" where
  "load_value f3 addr m =
     (if f3 = 0 then scast (ld8 addr m)
      else if f3 = 1 then scast (ld16 addr m)
      else if f3 = 2 then ld32 addr m
      else if f3 = 4 then ucast (ld8 addr m)
      else if f3 = 5 then ucast (ld16 addr m)
      else 0)"

definition store_value :: "u32 \<Rightarrow> u32 \<Rightarrow> u32 \<Rightarrow> pages \<Rightarrow> pages" where
  "store_value f3 addr b m =
     (if f3 = 0 then st8 addr (ucast b) m
      else if f3 = 1 then st16 addr (ucast b) m
      else if f3 = 2 then st32 addr b m
      else m)"

definition op_imm :: "u32 \<Rightarrow> u32 \<Rightarrow> u32 \<Rightarrow> u32 \<Rightarrow> u32 \<Rightarrow> u32" where
  "op_imm f3 f7 sh a imm =
     (if f3 = 0 then a + imm
      else if f3 = 2 then of_bool (a <s imm)
      else if f3 = 3 then of_bool (a < imm)
      else if f3 = 4 then a XOR imm
      else if f3 = 6 then a OR imm
      else if f3 = 7 then a AND imm
      else if f3 = 1 then push_bit (unat sh) a
      else if f7 AND 0x20 \<noteq> 0 then signed_drop_bit (unat sh) a
      else drop_bit (unat sh) a)"

text \<open>Products in 64 bits; signed division by the rules of C, with its two special cases.\<close>

definition INT32_MIN :: u32 where
  "INT32_MIN = 0x80000000"

definition op_muldiv :: "u32 \<Rightarrow> u32 \<Rightarrow> u32 \<Rightarrow> u32" where
  "op_muldiv f3 a b =
     (if f3 = 0 then a * b
      else if f3 = 1 then ucast (signed_drop_bit 32 ((scast a :: u64) * scast b))
      else if f3 = 2 then ucast (signed_drop_bit 32 ((scast a :: u64) * ucast b))
      else if f3 = 3 then ucast (drop_bit 32 ((ucast a :: u64) * ucast b))
      else if f3 = 4 then (if b = 0 then 0xffffffff else if a = INT32_MIN \<and> b = - 1 then a
        else word_of_int (sint a sdiv sint b))
      else if f3 = 5 then (if b = 0 then 0xffffffff else a div b)
      else if f3 = 6 then (if b = 0 then a else if a = INT32_MIN \<and> b = - 1 then 0
        else word_of_int (sint a smod sint b))
      else (if b = 0 then a else a mod b))"

definition op_alu :: "u32 \<Rightarrow> u32 \<Rightarrow> u32 \<Rightarrow> u32 \<Rightarrow> u32" where
  "op_alu f3 f7 a b =
     (let sh = unat (b AND 0x1f) in
      if f3 = 0 then (if f7 AND 0x20 \<noteq> 0 then a - b else a + b)
      else if f3 = 1 then push_bit sh a
      else if f3 = 2 then of_bool (a <s b)
      else if f3 = 3 then of_bool (a < b)
      else if f3 = 4 then a XOR b
      else if f3 = 5 then (if f7 AND 0x20 \<noteq> 0 then signed_drop_bit sh a else drop_bit sh a)
      else if f3 = 6 then a OR b
      else a AND b)"

definition amo_result :: "u32 \<Rightarrow> u32 \<Rightarrow> u32 \<Rightarrow> u32" where
  "amo_result f5 old b =
     (if f5 = 0x00 then old + b
      else if f5 = 0x01 then b
      else if f5 = 0x04 then old XOR b
      else if f5 = 0x08 then old OR b
      else if f5 = 0x0c then old AND b
      else if f5 = 0x10 then (if old <s b then b else old)
      else if f5 = 0x14 then (if b <s old then b else old)
      else if f5 = 0x18 then (if old < b then b else old)
      else if f5 = 0x1c then (if b < old then b else old)
      else old)"

text \<open>
  An instruction takes the machine, the hart, the staging registers, the next program counter and
  the signal for the scheduler, and returns them. The hart is one of the machine's: when an exit
  halts all harts it is halted with them.
\<close>

type_synonym 'w exec = "'w machine \<times> sim_hart \<times> dma_stage \<times> u32 \<times> step"

definition pend_result :: "u32 \<Rightarrow> u64 \<Rightarrow> sim_hart \<Rightarrow> sim_hart" where
  "pend_result rd stall h = (if rd \<noteq> 0 then h\<lparr>pend_reg := rd, pend_ready := cycle h + stall\<rparr> else h)"

definition exec_jal :: "u32 \<Rightarrow> 'w exec \<Rightarrow> 'w exec" where
  "exec_jal insn = (\<lambda>(m, h, dma, next, res).
     (m, hset (f_rd insn) next h, dma, pc h + imm_j insn, res))"

definition exec_jalr :: "u32 \<Rightarrow> u32 \<Rightarrow> 'w exec \<Rightarrow> 'w exec" where
  "exec_jalr insn a = (\<lambda>(m, h, dma, next, res).
     (m, hset (f_rd insn) next h, dma, (a + imm_i insn) AND NOT 1, res))"

definition exec_branch :: "u32 \<Rightarrow> u32 \<Rightarrow> u32 \<Rightarrow> 'w exec \<Rightarrow> 'w exec" where
  "exec_branch insn a b = (\<lambda>(m, h, dma, next, res).
     (m, h, dma, if branch_taken (f_f3 insn) a b then pc h + imm_b insn else next, res))"

definition exec_load :: "u32 \<Rightarrow> u32 \<Rightarrow> 'w exec \<Rightarrow> 'w exec" where
  "exec_load insn a = (\<lambda>(m, h, dma, next, res).
     (m, pend_result (f_rd insn) LOAD_USE_STALL
        (hset (f_rd insn) (load_value (f_f3 insn) (a + imm_i insn) (memory m)) h), dma, next, res))"

definition exec_store :: "u32 \<Rightarrow> u32 \<Rightarrow> u32 \<Rightarrow> 'w exec \<Rightarrow> 'w exec" where
  "exec_store insn a b = (\<lambda>(m, h, dma, next, res).
     let addr = a + imm_s insn;
         m1 = upd_mem (store_value (f_f3 insn) addr b) m
     in if addr = tohost m
        then let m2 = htif_tohost b m1;
                 h2 = (if b AND 1 \<noteq> 0 then h\<lparr>hstate := Halted\<rparr> else h)
             in (m2, h2, dma, next, if exited m2 then Halt else res)
        else (m1, h, dma, next, res))"

definition exec_op_imm :: "u32 \<Rightarrow> u32 \<Rightarrow> 'w exec \<Rightarrow> 'w exec" where
  "exec_op_imm insn a = (\<lambda>(m, h, dma, next, res).
     (m, hset (f_rd insn) (op_imm (f_f3 insn) (f_f7 insn) (f_rs2 insn) a (imm_i insn)) h, dma, next, res))"

definition exec_op :: "u32 \<Rightarrow> u32 \<Rightarrow> u32 \<Rightarrow> 'w exec \<Rightarrow> 'w exec" where
  "exec_op insn a b = (\<lambda>(m, h, dma, next, res).
     if f_f7 insn = 1
     then (m, pend_result (f_rd insn) (if f_f3 insn < 4 then MUL_STALL else DIV_STALL)
       (hset (f_rd insn) (op_muldiv (f_f3 insn) a b) h), dma, next, res)
     else (m, hset (f_rd insn) (op_alu (f_f3 insn) (f_f7 insn) a b) h, dma, next, res))"

definition exec_amo :: "u32 \<Rightarrow> u32 \<Rightarrow> u32 \<Rightarrow> 'w exec \<Rightarrow> 'w exec" where
  "exec_amo insn a b = (\<lambda>(m, h, dma, next, res).
     let f5 = drop_bit 2 (f_f7 insn);
         old = ld32 a (memory m)
     in if f5 = 0x02 then (m, hset (f_rd insn) old h, dma, next, res)
        else if f5 = 0x03 then (upd_mem (st32 a b) m, hset (f_rd insn) 0 h, dma, next, res)
        else (upd_mem (st32 a (amo_result f5 old b)) m, hset (f_rd insn) old h, dma, next, res))"

text \<open>CSR instructions: a barrier, or read, combine and write back.\<close>

definition exec_csr :: "'w world_ops \<Rightarrow> u32 \<Rightarrow> u32 \<Rightarrow> 'w exec \<Rightarrow> 'w exec" where
  "exec_csr W insn a = (\<lambda>(m, h, dma, next, res).
     let csr = drop_bit 20 insn; f3 = f_f3 insn in
     if csr = CSR_HW_BARRIER then (m, h\<lparr>hstate := AtBarrier\<rparr>, dma, next, Barrier)
     else
       let ((old, isPoll), m1) = csr_read W h csr m;
           src = (if f3 AND 4 \<noteq> 0 then f_rs1 insn else a);
           neu = (if f3 AND 3 = 1 then src
                  else if f3 AND 3 = 2 then old OR src
                  else if f3 AND 3 = 3 then old AND NOT src
                  else old);
           (m2, h2) =
             (if \<not> (f3 AND 3 \<noteq> 1 \<and> f_rs1 insn = 0)
              then let (m', h') = csr_write W csr neu (m1, h)
                in if snax_window csr \<and> snax_write_serializes W csr (cycle h') (env m')
                   then (m', h'\<lparr>cycle := cycle h' + SNAX_CSR_WRITE_COST\<rparr>)
                   else (m', h')
              else (m1, h))
       in (m2, hset (f_rd insn) old h2, dma, next, if isPoll then PollRead else res))"

definition exec_system :: "'w world_ops \<Rightarrow> u32 \<Rightarrow> u32 \<Rightarrow> 'w exec \<Rightarrow> 'w exec" where
  "exec_system W insn a e =
     (if f_f3 insn = 0
      then let fn = drop_bit 20 insn; (m, h, dma, next, res) = e
        in if fn = 0x105 then (m, h, dma, next, Wfi) else e
      else exec_csr W insn a e)"

text \<open>Floating-point registers hold raw bits; arithmetic is not modelled there either.\<close>

definition exec_load_fp :: "u32 \<Rightarrow> u32 \<Rightarrow> 'w exec \<Rightarrow> 'w exec" where
  "exec_load_fp insn a = (\<lambda>(m, h, dma, next, res).
     let addr = a + imm_i insn; rd = f_rd insn
     in (m, if f_f3 insn = 2 then h\<lparr>fr := (fr h)(rd := ucast (ld32 addr (memory m)))\<rparr>
            else if f_f3 insn = 3 then h\<lparr>fr := (fr h)(rd := ld64 addr (memory m))\<rparr>
            else h, dma, next, res))"

definition exec_store_fp :: "u32 \<Rightarrow> u32 \<Rightarrow> 'w exec \<Rightarrow> 'w exec" where
  "exec_store_fp insn a = (\<lambda>(m, h, dma, next, res).
     let addr = a + imm_s insn; v = fr h (f_rs2 insn)
     in (if f_f3 insn = 2 then upd_mem (st32 addr (ucast v)) m
         else if f_f3 insn = 3 then upd_mem (st64 addr v) m
         else m, h, dma, next, res))"

definition exec_op_fp :: "u32 \<Rightarrow> u32 \<Rightarrow> 'w exec \<Rightarrow> 'w exec" where
  "exec_op_fp insn a = (\<lambda>(m, h, dma, next, res).
     (m, h\<lparr>fr := (fr h)(f_rd insn :=
        if f_f7 insn = 0x69 \<or> f_f7 insn = 0x68 then scast a else 0)\<rparr>, dma, next, res))"

definition exec_xdma :: "'w world_ops \<Rightarrow> u32 \<Rightarrow> u32 \<Rightarrow> u32 \<Rightarrow> 'w exec \<Rightarrow> 'w exec" where
  "exec_xdma W insn a b = (\<lambda>(m, h, dma, next, res).
     let f7 = f_f7 insn; rd = f_rd insn; rs2 = f_rs2 insn in
     if f7 = 0x00 then (m, h, dma\<lparr>sg_src := push_bit 32 (ucast b) OR ucast a\<rparr>, next, res)
     else if f7 = 0x01 then (m, h, dma\<lparr>sg_dst := push_bit 32 (ucast b) OR ucast a\<rparr>, next, res)
     else if f7 = 0x06 then (m, h, dma\<lparr>sg_dst_stride := b, sg_src_stride := a\<rparr>, next, res)
     else if f7 = 0x07 then (m, h, dma\<lparr>sg_repeat := a\<rparr>, next, res)
     else if f7 = 0x02 then
       let d = \<lparr>ds_src = sg_src dma, ds_dst = sg_dst dma, ds_size = a, ds_dst_stride = sg_dst_stride dma,
             ds_src_stride = sg_src_stride dma, ds_repeat = sg_repeat dma,
             ds_is_2d = (drop_bit 1 rs2 AND 1 \<noteq> 0), ds_src_is_l3 = (drop_bit 31 (sg_src dma) AND 1 \<noteq> 0),
             ds_dst_is_l3 = (drop_bit 31 (sg_dst dma) AND 1 \<noteq> 0), ds_hart = hid h\<rparr>;
           (txid, m') = ask_env (dma_submit W d (cycle h)) m
       in (m', hset rd txid h, dma\<lparr>sg_repeat := 1\<rparr>, next, res)
     else if f7 = 0x04 then
       let (v, m') = (if rs2 = 0 then ask_env (dma_completed_id W (cycle h)) m
             else if rs2 = 2 then ask_env (dma_busy W (cycle h)) m
             else (0, m))
       in (m', hset rd v h, dma, next, if rd \<noteq> 0 then PollRead else res)
     else (m, h, dma, next, res))"

section \<open>One step\<close>

text \<open>An illegal instruction ends the simulation: \<open>None\<close>.\<close>

definition execute :: "'w world_ops \<Rightarrow> u32 \<Rightarrow> u32 \<Rightarrow> u32 \<Rightarrow> 'w exec \<Rightarrow> 'w exec option" where
  "execute W insn a b e =
     (let op = f_op insn in
      if op = 0x37 then (case e of (m, h, dma, next, res) \<Rightarrow>
        Some (m, hset (f_rd insn) (imm_u insn) h, dma, next, res))
      else if op = 0x17 then (case e of (m, h, dma, next, res) \<Rightarrow>
        Some (m, hset (f_rd insn) (pc h + imm_u insn) h, dma, next, res))
      else if op = 0x6f then Some (exec_jal insn e)
      else if op = 0x67 then Some (exec_jalr insn a e)
      else if op = 0x63 then Some (exec_branch insn a b e)
      else if op = 0x03 then Some (exec_load insn a e)
      else if op = 0x23 then Some (exec_store insn a b e)
      else if op = 0x13 then Some (exec_op_imm insn a e)
      else if op = 0x33 then Some (exec_op insn a b e)
      else if op = 0x0f then (case e of (m, h, dma, next, res) \<Rightarrow>
        Some (upd_env (fence W (hid h) (cycle h)) m, h, dma, next, res))
      else if op = 0x2f then Some (exec_amo insn a b e)
      else if op = 0x73 then Some (exec_system W insn a e)
      else if op = 0x07 then Some (exec_load_fp insn a e)
      else if op = 0x27 then Some (exec_store_fp insn a e)
      else if op = 0x53 then Some (exec_op_fp insn a e)
      else if op = 0x2b then Some (exec_xdma W insn a b e)
      else None)"

definition charge_stall :: "u32 \<Rightarrow> sim_hart \<Rightarrow> sim_hart" where
  "charge_stall insn h =
     (if pend_reg h \<noteq> 0 \<and> reads_reg (f_op insn) (f_f3 insn) (pend_reg h) (f_rs1 insn) (f_rs2 insn)
      then h\<lparr>cycle := if pend_ready h > cycle h then pend_ready h else cycle h, pend_reg := 0\<rparr>
      else h)"

definition retire :: "u32 \<Rightarrow> u32 \<Rightarrow> step \<Rightarrow> sim_hart \<Rightarrow> sim_hart" where
  "retire pc0 next res h =
     (let h' = h\<lparr>pc := next\<rparr> in
      if res = PollRead \<and> next \<le> pc0
      then if last_backjump_pc h' = next then h'\<lparr>poll_spins := poll_spins h' + 1\<rparr>
           else h'\<lparr>last_backjump_pc := next, poll_spins := 1\<rparr>
      else h')"

definition interp_step ::
  "'w world_ops \<Rightarrow> 'w machine \<Rightarrow> sim_hart \<Rightarrow> dma_stage \<Rightarrow>
   ('w machine \<times> sim_hart \<times> dma_stage \<times> step) option" where
  "interp_step W m h dma =
     (let pc0 = pc h;
          insn = ld32 pc0 (memory m);
          a = xr h (f_rs1 insn);
          b = xr h (f_rs2 insn);
          h1 = charge_stall insn (h\<lparr>cycle := cycle h + 1\<rparr>)
      in case execute W insn a b (m, h1, dma, pc0 + 4, Normal) of
           None \<Rightarrow> None
         | Some (m', h', dma', next, res) \<Rightarrow> Some (m', retire pc0 next res h', dma', res))"

end
