(* ===== verification/Rv32.thy ===== *)
theory Rv32
  imports Interp
begin

text \<open>
  A reference for the instructions that memsim interprets: the instructions of RV32IMA as a
  datatype with their operands, their encoding, and their meaning on registers, program counter
  and a memory of bytes, stated with integers as the architecture states it.
\<close>

section \<open>Instructions\<close>

type_synonym reg = "5 word"

datatype branch_op = Beq | Bne | Blt | Bge | Bltu | Bgeu
datatype load_op = Lb | Lh | Lw | Lbu | Lhu
datatype store_op = Sb | Sh | Sw
datatype imm_op = Addi | Slti | Sltiu | Xori | Ori | Andi
datatype shift_op = Slli | Srli | Srai
datatype alu_op = Add | Sub | Sll | Slt | Sltu | Xor | Srl | Sra | Or | And
datatype mul_op = Mul | Mulh | Mulhsu | Mulhu | Div | Divu | Rem | Remu
datatype amo_op = Amoadd | Amoswap | Amoxor | Amoor | Amoand | Amomin | Amomax | Amominu | Amomaxu

text \<open>Branch and jump offsets are in units of two bytes.\<close>

datatype rv =
    LUI reg "20 word"
  | AUIPC reg "20 word"
  | JAL reg "20 word"
  | JALR reg reg "12 word"
  | BRANCH branch_op reg reg "12 word"
  | LOAD load_op reg reg "12 word"
  | STORE store_op reg reg "12 word"
  | OPI imm_op reg reg "12 word"
  | SHI shift_op reg reg "5 word"
  | OP alu_op reg reg reg
  | MULDIV mul_op reg reg reg
  | AMO amo_op reg reg reg "2 word"
  | LR reg reg "2 word"
  | SC reg reg reg "2 word"

section \<open>Encoding\<close>

definition r_type :: "7 word \<Rightarrow> reg \<Rightarrow> reg \<Rightarrow> 3 word \<Rightarrow> reg \<Rightarrow> 7 word \<Rightarrow> u32" where
  "r_type f7 rs2 rs1 f3 rd op = push_bit 25 (ucast f7) OR push_bit 20 (ucast rs2) OR push_bit 15 (ucast rs1) OR
     push_bit 12 (ucast f3) OR push_bit 7 (ucast rd) OR ucast op"

definition i_type :: "12 word \<Rightarrow> reg \<Rightarrow> 3 word \<Rightarrow> reg \<Rightarrow> 7 word \<Rightarrow> u32" where
  "i_type imm rs1 f3 rd op = push_bit 20 (ucast imm) OR push_bit 15 (ucast rs1) OR
     push_bit 12 (ucast f3) OR push_bit 7 (ucast rd) OR ucast op"

definition s_type :: "12 word \<Rightarrow> reg \<Rightarrow> reg \<Rightarrow> 3 word \<Rightarrow> 7 word \<Rightarrow> u32" where
  "s_type imm rs2 rs1 f3 op = push_bit 25 (ucast (drop_bit 5 imm)) OR push_bit 20 (ucast rs2) OR
     push_bit 15 (ucast rs1) OR push_bit 12 (ucast f3) OR push_bit 7 (take_bit 5 (ucast imm)) OR ucast op"

definition b_type :: "12 word \<Rightarrow> reg \<Rightarrow> reg \<Rightarrow> 3 word \<Rightarrow> 7 word \<Rightarrow> u32" where
  "b_type off rs2 rs1 f3 op = push_bit 31 (ucast (drop_bit 11 off)) OR
     push_bit 25 (take_bit 6 (ucast (drop_bit 4 off))) OR push_bit 20 (ucast rs2) OR
     push_bit 15 (ucast rs1) OR push_bit 12 (ucast f3) OR push_bit 8 (take_bit 4 (ucast off)) OR
     push_bit 7 (take_bit 1 (ucast (drop_bit 10 off))) OR ucast op"

definition u_type :: "20 word \<Rightarrow> reg \<Rightarrow> 7 word \<Rightarrow> u32" where
  "u_type imm rd op = push_bit 12 (ucast imm) OR push_bit 7 (ucast rd) OR ucast op"

definition j_type :: "20 word \<Rightarrow> reg \<Rightarrow> 7 word \<Rightarrow> u32" where
  "j_type off rd op = push_bit 31 (ucast (drop_bit 19 off)) OR push_bit 21 (take_bit 10 (ucast off)) OR
     push_bit 20 (take_bit 1 (ucast (drop_bit 10 off))) OR push_bit 12 (take_bit 8 (ucast (drop_bit 11 off))) OR
     push_bit 7 (ucast rd) OR ucast op"

primrec branch_f3 :: "branch_op \<Rightarrow> 3 word" where
  "branch_f3 Beq = 0" | "branch_f3 Bne = 1" | "branch_f3 Blt = 4" | "branch_f3 Bge = 5"
| "branch_f3 Bltu = 6" | "branch_f3 Bgeu = 7"

primrec load_f3 :: "load_op \<Rightarrow> 3 word" where
  "load_f3 Lb = 0" | "load_f3 Lh = 1" | "load_f3 Lw = 2" | "load_f3 Lbu = 4" | "load_f3 Lhu = 5"

primrec store_f3 :: "store_op \<Rightarrow> 3 word" where
  "store_f3 Sb = 0" | "store_f3 Sh = 1" | "store_f3 Sw = 2"

primrec imm_f3 :: "imm_op \<Rightarrow> 3 word" where
  "imm_f3 Addi = 0" | "imm_f3 Slti = 2" | "imm_f3 Sltiu = 3" | "imm_f3 Xori = 4" | "imm_f3 Ori = 6"
| "imm_f3 Andi = 7"

primrec shift_f3 :: "shift_op \<Rightarrow> 3 word" where
  "shift_f3 Slli = 1" | "shift_f3 Srli = 5" | "shift_f3 Srai = 5"

primrec shift_f7 :: "shift_op \<Rightarrow> 7 word" where
  "shift_f7 Slli = 0" | "shift_f7 Srli = 0" | "shift_f7 Srai = 0x20"

primrec alu_f3 :: "alu_op \<Rightarrow> 3 word" where
  "alu_f3 Add = 0" | "alu_f3 Sub = 0" | "alu_f3 Sll = 1" | "alu_f3 Slt = 2" | "alu_f3 Sltu = 3"
| "alu_f3 Xor = 4" | "alu_f3 Srl = 5" | "alu_f3 Sra = 5" | "alu_f3 Or = 6" | "alu_f3 And = 7"

definition alu_f7 :: "alu_op \<Rightarrow> 7 word" where
  "alu_f7 op = (if op = Sub \<or> op = Sra then 0x20 else 0)"

primrec mul_f3 :: "mul_op \<Rightarrow> 3 word" where
  "mul_f3 Mul = 0" | "mul_f3 Mulh = 1" | "mul_f3 Mulhsu = 2" | "mul_f3 Mulhu = 3" | "mul_f3 Div = 4"
| "mul_f3 Divu = 5" | "mul_f3 Rem = 6" | "mul_f3 Remu = 7"

primrec amo_f5 :: "amo_op \<Rightarrow> 5 word" where
  "amo_f5 Amoadd = 0x00" | "amo_f5 Amoswap = 0x01" | "amo_f5 Amoxor = 0x04" | "amo_f5 Amoor = 0x08"
| "amo_f5 Amoand = 0x0c" | "amo_f5 Amomin = 0x10" | "amo_f5 Amomax = 0x14" | "amo_f5 Amominu = 0x18"
| "amo_f5 Amomaxu = 0x1c"

text \<open>The two ordering bits of an atomic instruction follow its code.\<close>

definition amo_f7 :: "5 word \<Rightarrow> 2 word \<Rightarrow> 7 word" where
  "amo_f7 f5 aqrl = push_bit 2 (ucast f5) OR ucast aqrl"

definition shift_imm :: "shift_op \<Rightarrow> 5 word \<Rightarrow> 12 word" where
  "shift_imm op sh = push_bit 5 (ucast (shift_f7 op)) OR ucast sh"

primrec encode :: "rv \<Rightarrow> u32" where
  "encode (LUI rd imm) = u_type imm rd 0x37"
| "encode (AUIPC rd imm) = u_type imm rd 0x17"
| "encode (JAL rd off) = j_type off rd 0x6f"
| "encode (JALR rd rs1 imm) = i_type imm rs1 0 rd 0x67"
| "encode (BRANCH c rs1 rs2 off) = b_type off rs2 rs1 (branch_f3 c) 0x63"
| "encode (LOAD w rd rs1 imm) = i_type imm rs1 (load_f3 w) rd 0x03"
| "encode (STORE w rs1 rs2 imm) = s_type imm rs2 rs1 (store_f3 w) 0x23"
| "encode (OPI op rd rs1 imm) = i_type imm rs1 (imm_f3 op) rd 0x13"
| "encode (SHI op rd rs1 sh) = i_type (shift_imm op sh) rs1 (shift_f3 op) rd 0x13"
| "encode (OP op rd rs1 rs2) = r_type (alu_f7 op) rs2 rs1 (alu_f3 op) rd 0x33"
| "encode (MULDIV op rd rs1 rs2) = r_type 1 rs2 rs1 (mul_f3 op) rd 0x33"
| "encode (AMO op rd rs1 rs2 aqrl) = r_type (amo_f7 (amo_f5 op) aqrl) rs2 rs1 2 rd 0x2f"
| "encode (LR rd rs1 aqrl) = r_type (amo_f7 0x02 aqrl) 0 rs1 2 rd 0x2f"
| "encode (SC rd rs1 rs2 aqrl) = r_type (amo_f7 0x03 aqrl) rs2 rs1 2 rd 0x2f"

section \<open>Decoding an encoded instruction\<close>

lemma field_masks: "0x7f = (mask 7 :: u32)" "0x1f = (mask 5 :: u32)" "7 = (mask 3 :: u32)"
  "0x20 = (push_bit 5 1 :: u32)" "0x3f = (mask 6 :: u32)" "0xf = (mask 4 :: u32)" "0x3ff = (mask 10 :: u32)"
  "0xff = (mask 8 :: u32)" "0xfffff000 = (NOT (mask 12) :: u32)"
  by (simp_all add: mask_eq_exp_minus_1)

lemma u32_eqI: "list_all (\<lambda>n. bit a n = bit b n) [0..<32] \<Longrightarrow> a = (b :: u32)"
  by (rule bit_word_eqI) (simp add: list_all_iff)

lemma bit_beyond: "LENGTH('a) \<le> n \<Longrightarrow> bit (w :: 'a::len word) n = False"
  by (auto dest: bit_imp_le_length)

lemma upt_32: "[0..<32] = [0, 1, 2, 3, 4, 5, 6, 7, 8, 9, 10, 11, 12, 13, 14, 15, 16, 17, 18, 19, 20, 21, 22, 23,
    24, 25, 26, 27, 28, 29, 30, 31]"
  by (simp add: upt_rec)

lemmas field_defs = f_op_def f_rd_def f_f3_def f_rs1_def f_rs2_def f_f7_def
lemmas type_defs = r_type_def i_type_def s_type_def b_type_def u_type_def j_type_def

lemma r_fields [simp]:
  "f_op (r_type f7 rs2 rs1 f3 rd op) = ucast op"
  "f_rd (r_type f7 rs2 rs1 f3 rd op) = ucast rd"
  "f_f3 (r_type f7 rs2 rs1 f3 rd op) = ucast f3"
  "f_rs1 (r_type f7 rs2 rs1 f3 rd op) = ucast rs1"
  "f_rs2 (r_type f7 rs2 rs1 f3 rd op) = ucast rs2"
  "f_f7 (r_type f7 rs2 rs1 f3 rd op) = ucast f7"
  unfolding r_type_def field_defs field_masks
  by (rule u32_eqI, simp add: upt_32 bit_simps bit_beyond)+

lemma i_fields [simp]:
  "f_op (i_type imm rs1 f3 rd op) = ucast op"
  "f_rd (i_type imm rs1 f3 rd op) = ucast rd"
  "f_f3 (i_type imm rs1 f3 rd op) = ucast f3"
  "f_rs1 (i_type imm rs1 f3 rd op) = ucast rs1"
  "drop_bit 20 (i_type imm rs1 f3 rd op) = ucast imm"
  unfolding i_type_def field_defs field_masks
  by (rule u32_eqI, simp add: upt_32 bit_simps bit_beyond)+

lemma s_fields [simp]:
  "f_op (s_type imm rs2 rs1 f3 op) = ucast op"
  "f_f3 (s_type imm rs2 rs1 f3 op) = ucast f3"
  "f_rs1 (s_type imm rs2 rs1 f3 op) = ucast rs1"
  "f_rs2 (s_type imm rs2 rs1 f3 op) = ucast rs2"
  "drop_bit 25 (s_type imm rs2 rs1 f3 op) = ucast (drop_bit 5 imm)"
  "drop_bit 7 (s_type imm rs2 rs1 f3 op) AND 0x1f = take_bit 5 (ucast imm)"
  unfolding s_type_def field_defs field_masks
  by (rule u32_eqI, simp add: upt_32 bit_simps bit_beyond)+

lemma b_fields [simp]:
  "f_op (b_type off rs2 rs1 f3 op) = ucast op"
  "f_f3 (b_type off rs2 rs1 f3 op) = ucast f3"
  "f_rs1 (b_type off rs2 rs1 f3 op) = ucast rs1"
  "f_rs2 (b_type off rs2 rs1 f3 op) = ucast rs2"
  "drop_bit 31 (b_type off rs2 rs1 f3 op) = ucast (drop_bit 11 off)"
  "drop_bit 25 (b_type off rs2 rs1 f3 op) AND 0x3f = take_bit 6 (ucast (drop_bit 4 off))"
  "drop_bit 8 (b_type off rs2 rs1 f3 op) AND 0xf = take_bit 4 (ucast off)"
  "drop_bit 7 (b_type off rs2 rs1 f3 op) AND 1 = take_bit 1 (ucast (drop_bit 10 off))"
  unfolding b_type_def field_defs field_masks
  by (rule u32_eqI, simp add: upt_32 bit_simps bit_beyond)+

lemma u_fields [simp]:
  "f_op (u_type imm rd op) = ucast op"
  "f_rd (u_type imm rd op) = ucast rd"
  "imm_u (u_type imm rd op) = push_bit 12 (ucast imm)"
  unfolding u_type_def field_defs field_masks imm_u_def
  by (rule u32_eqI, simp add: upt_32 bit_simps bit_beyond)+

lemma j_fields [simp]:
  "f_op (j_type off rd op) = ucast op"
  "f_rd (j_type off rd op) = ucast rd"
  "drop_bit 31 (j_type off rd op) = ucast (drop_bit 19 off)"
  "drop_bit 21 (j_type off rd op) AND 0x3ff = take_bit 10 (ucast off)"
  "drop_bit 20 (j_type off rd op) AND 1 = take_bit 1 (ucast (drop_bit 10 off))"
  "drop_bit 12 (j_type off rd op) AND 0xff = take_bit 8 (ucast (drop_bit 11 off))"
  unfolding j_type_def field_defs field_masks
  by (rule u32_eqI, simp add: upt_32 bit_simps bit_beyond)+

text \<open>Sign extension by exclusive or and subtraction.\<close>

lemma xor_flip:
  "bit v n \<Longrightarrow> v XOR push_bit n 1 = v - 2 ^ n" "\<not> bit v n \<Longrightarrow> v XOR push_bit n 1 = v + 2 ^ n"
  for v :: "'a::len word"
  using flip_bit_eq_xor [of n v] by (simp_all add: flip_bit_eq_if unset_bit_eq set_bit_eq)

lemma sext_scast:
  assumes "LENGTH('a) \<le> 32"
  shows "sext (ucast x) LENGTH('a) = scast (x :: 'a::len word)"
proof -
  let ?n = "LENGTH('a) - 1"
  have n: "Suc ?n = LENGTH('a)" by simp
  have top: "bit (ucast x :: u32) ?n \<longleftrightarrow> bit x ?n" using assms by (simp add: bit_simps)
  have "sint x = signed_take_bit ?n (uint x)" by (simp add: sint_uint)
  also have "\<dots> = take_bit LENGTH('a) (uint x) - 2 ^ LENGTH('a) * of_bool (bit (uint x) ?n)"
    using signed_take_bit_eq_take_bit_minus [of ?n "uint x"] by simp
  also have "\<dots> = uint x - 2 ^ LENGTH('a) * of_bool (bit x ?n)" by (simp add: bit_uint_iff bintr_uint)
  finally have i: "sint x = uint x - 2 ^ LENGTH('a) * of_bool (bit x ?n)" .
  have s: "(scast x :: u32) = ucast x - 2 ^ LENGTH('a) * of_bool (bit x ?n)"
    unfolding scast_eq i ucast_eq by (simp only: wi_hom_syms wi_hom_sub [symmetric]) (cases "bit x ?n", simp_all)
  have p: "(2 :: u32) ^ LENGTH('a) = 2 ^ ?n + 2 ^ ?n" by (metis n mult_2 power_Suc)
  show ?thesis
    using top xor_flip [of "ucast x :: u32" ?n] unfolding sext_def Let_def s p
    by (cases "bit x ?n") simp_all
qed

lemmas sext_field = sext_scast [where 'a = 12, simplified] sext_scast [where 'a = 13, simplified]
  sext_scast [where 'a = 21, simplified]

lemma imm_i_type [simp]: "imm_i (i_type imm rs1 f3 rd op) = scast imm"
  by (simp add: imm_i_def sext_field)

lemma imm_s_type [simp]: "imm_s (s_type imm rs2 rs1 f3 op) = scast imm"
proof -
  have "push_bit 5 (ucast (drop_bit 5 imm)) OR take_bit 5 (ucast imm) = (ucast imm :: u32)"
    by (rule u32_eqI, simp add: upt_32 bit_simps bit_beyond)
  then show ?thesis by (simp add: imm_s_def sext_field)
qed

lemma imm_b_type [simp]: "imm_b (b_type off rs2 rs1 f3 op) = push_bit 1 (scast off)"
proof -
  have "push_bit 12 (ucast (drop_bit 11 off) AND 1) OR push_bit 11 (take_bit 1 (ucast (drop_bit 10 off))) OR
      push_bit 5 (take_bit 6 (ucast (drop_bit 4 off))) OR push_bit 1 (take_bit 4 (ucast off)) =
      (ucast (push_bit 1 (ucast off) :: 13 word) :: u32)"
    by (rule u32_eqI, simp add: upt_32 bit_simps bit_beyond del: One_nat_def push_bit_Suc)
  then have "imm_b (b_type off rs2 rs1 f3 op) = scast (push_bit 1 (ucast off) :: 13 word)"
    by (simp add: imm_b_def sext_field)
  also have "\<dots> = push_bit 1 (scast off)"
    by (rule u32_eqI, simp add: upt_32 bit_simps bit_beyond del: One_nat_def push_bit_Suc)
  finally show ?thesis .
qed

lemma imm_j_type [simp]: "imm_j (j_type off rd op) = push_bit 1 (scast off)"
proof -
  have "push_bit 20 (ucast (drop_bit 19 off) AND 1) OR push_bit 12 (take_bit 8 (ucast (drop_bit 11 off))) OR
      push_bit 11 (take_bit 1 (ucast (drop_bit 10 off))) OR push_bit 1 (take_bit 10 (ucast off)) =
      (ucast (push_bit 1 (ucast off) :: 21 word) :: u32)"
    by (rule u32_eqI, simp add: upt_32 bit_simps bit_beyond del: One_nat_def push_bit_Suc)
  then have "imm_j (j_type off rd op) = scast (push_bit 1 (ucast off) :: 21 word)"
    by (simp add: imm_j_def sext_field)
  also have "\<dots> = push_bit 1 (scast off)"
    by (rule u32_eqI, simp add: upt_32 bit_simps bit_beyond del: One_nat_def push_bit_Suc)
  finally show ?thesis .
qed

end
