(* ===== verification/Rv32_exec.thy ===== *)
theory Rv32_exec
  imports Rv32
begin

text \<open>
  The meaning of the instructions of Rv32, and that the interpreter of memsim computes it.
\<close>

section \<open>Meaning\<close>

text \<open>Registers, program counter, bytes of memory. Register 0 is never written.\<close>

record rv_state =
  gpr :: "reg \<Rightarrow> u32"
  ppc :: u32
  bytes_of :: "u32 \<Rightarrow> u8"

definition put :: "reg \<Rightarrow> u32 \<Rightarrow> rv_state \<Rightarrow> rv_state" where
  "put r v s = (if r = 0 then s else s\<lparr>gpr := (gpr s)(r := v)\<rparr>)"

definition fetch_bytes :: "u32 \<Rightarrow> nat \<Rightarrow> rv_state \<Rightarrow> u8 list" where
  "fetch_bytes a n s = map (\<lambda>i. bytes_of s (a + word_of_nat i)) [0..<n]"

definition put_word :: "u32 \<Rightarrow> nat \<Rightarrow> u32 \<Rightarrow> rv_state \<Rightarrow> rv_state" where
  "put_word a n v s = s\<lparr>bytes_of := \<lambda>x. if unat (x - a) < n then le_bytes n v ! unat (x - a) else bytes_of s x\<rparr>"

primrec branch_sem :: "branch_op \<Rightarrow> u32 \<Rightarrow> u32 \<Rightarrow> bool" where
  "branch_sem Beq a b = (a = b)"
| "branch_sem Bne a b = (a \<noteq> b)"
| "branch_sem Blt a b = (sint a < sint b)"
| "branch_sem Bge a b = (sint b \<le> sint a)"
| "branch_sem Bltu a b = (uint a < uint b)"
| "branch_sem Bgeu a b = (uint b \<le> uint a)"

primrec load_sem :: "load_op \<Rightarrow> u32 \<Rightarrow> rv_state \<Rightarrow> u32" where
  "load_sem Lb a s = word_of_int (sint (bytes_of s a))"
| "load_sem Lh a s = word_of_int (sint (le_word (fetch_bytes a 2 s) :: u16))"
| "load_sem Lw a s = le_word (fetch_bytes a 4 s)"
| "load_sem Lbu a s = word_of_int (uint (bytes_of s a))"
| "load_sem Lhu a s = word_of_int (uint (le_word (fetch_bytes a 2 s) :: u16))"

primrec store_width :: "store_op \<Rightarrow> nat" where
  "store_width Sb = 1" | "store_width Sh = 2" | "store_width Sw = 4"

primrec imm_sem :: "imm_op \<Rightarrow> u32 \<Rightarrow> 12 word \<Rightarrow> u32" where
  "imm_sem Addi a i = word_of_int (uint a + sint i)"
| "imm_sem Slti a i = of_bool (sint a < sint i)"
| "imm_sem Sltiu a i = of_bool (a < scast i)"
| "imm_sem Xori a i = a XOR scast i"
| "imm_sem Ori a i = a OR scast i"
| "imm_sem Andi a i = a AND scast i"

primrec shift_sem :: "shift_op \<Rightarrow> u32 \<Rightarrow> nat \<Rightarrow> u32" where
  "shift_sem Slli a n = a * 2 ^ n"
| "shift_sem Srli a n = word_of_int (uint a div 2 ^ n)"
| "shift_sem Srai a n = word_of_int (sint a div 2 ^ n)"

primrec alu_sem :: "alu_op \<Rightarrow> u32 \<Rightarrow> u32 \<Rightarrow> u32" where
  "alu_sem Add a b = a + b"
| "alu_sem Sub a b = a - b"
| "alu_sem Sll a b = shift_sem Slli a (unat b mod 32)"
| "alu_sem Slt a b = of_bool (sint a < sint b)"
| "alu_sem Sltu a b = of_bool (uint a < uint b)"
| "alu_sem Xor a b = a XOR b"
| "alu_sem Srl a b = shift_sem Srli a (unat b mod 32)"
| "alu_sem Sra a b = shift_sem Srai a (unat b mod 32)"
| "alu_sem Or a b = a OR b"
| "alu_sem And a b = a AND b"

text \<open>Division rounds towards zero; dividing by zero does not trap.\<close>

primrec mul_sem :: "mul_op \<Rightarrow> u32 \<Rightarrow> u32 \<Rightarrow> u32" where
  "mul_sem Mul a b = a * b"
| "mul_sem Mulh a b = word_of_int ((sint a * sint b) div 2 ^ 32)"
| "mul_sem Mulhsu a b = word_of_int ((sint a * uint b) div 2 ^ 32)"
| "mul_sem Mulhu a b = word_of_int ((uint a * uint b) div 2 ^ 32)"
| "mul_sem Div a b = (if b = 0 then - 1 else word_of_int (sint a sdiv sint b))"
| "mul_sem Divu a b = (if b = 0 then - 1 else word_of_int (uint a div uint b))"
| "mul_sem Rem a b = (if b = 0 then a else word_of_int (sint a smod sint b))"
| "mul_sem Remu a b = (if b = 0 then a else word_of_int (uint a mod uint b))"

primrec amo_sem :: "amo_op \<Rightarrow> u32 \<Rightarrow> u32 \<Rightarrow> u32" where
  "amo_sem Amoadd old b = old + b"
| "amo_sem Amoswap old b = b"
| "amo_sem Amoxor old b = old XOR b"
| "amo_sem Amoor old b = old OR b"
| "amo_sem Amoand old b = old AND b"
| "amo_sem Amomin old b = (if sint b < sint old then b else old)"
| "amo_sem Amomax old b = (if sint old < sint b then b else old)"
| "amo_sem Amominu old b = (if b < old then b else old)"
| "amo_sem Amomaxu old b = (if old < b then b else old)"

text \<open>A store-conditional succeeds, as nothing else can reserve the word in between.\<close>

fun rv_exec :: "rv \<Rightarrow> rv_state \<Rightarrow> rv_state" where
  "rv_exec (LUI rd imm) s = put rd (push_bit 12 (ucast imm)) (s\<lparr>ppc := ppc s + 4\<rparr>)"
| "rv_exec (AUIPC rd imm) s = put rd (ppc s + push_bit 12 (ucast imm)) (s\<lparr>ppc := ppc s + 4\<rparr>)"
| "rv_exec (JAL rd off) s = put rd (ppc s + 4) (s\<lparr>ppc := ppc s + 2 * scast off\<rparr>)"
| "rv_exec (JALR rd rs1 imm) s =
     put rd (ppc s + 4) (s\<lparr>ppc := (gpr s rs1 + scast imm) AND NOT 1\<rparr>)"
| "rv_exec (BRANCH c rs1 rs2 off) s =
     s\<lparr>ppc := if branch_sem c (gpr s rs1) (gpr s rs2) then ppc s + 2 * scast off else ppc s + 4\<rparr>"
| "rv_exec (LOAD w rd rs1 imm) s = put rd (load_sem w (gpr s rs1 + scast imm) s) (s\<lparr>ppc := ppc s + 4\<rparr>)"
| "rv_exec (STORE w rs1 rs2 imm) s =
     put_word (gpr s rs1 + scast imm) (store_width w) (gpr s rs2) (s\<lparr>ppc := ppc s + 4\<rparr>)"
| "rv_exec (OPI op rd rs1 imm) s = put rd (imm_sem op (gpr s rs1) imm) (s\<lparr>ppc := ppc s + 4\<rparr>)"
| "rv_exec (SHI op rd rs1 sh) s = put rd (shift_sem op (gpr s rs1) (unat sh)) (s\<lparr>ppc := ppc s + 4\<rparr>)"
| "rv_exec (OP op rd rs1 rs2) s = put rd (alu_sem op (gpr s rs1) (gpr s rs2)) (s\<lparr>ppc := ppc s + 4\<rparr>)"
| "rv_exec (MULDIV op rd rs1 rs2) s = put rd (mul_sem op (gpr s rs1) (gpr s rs2)) (s\<lparr>ppc := ppc s + 4\<rparr>)"
| "rv_exec (AMO op rd rs1 rs2 aqrl) s =
     (let old = load_sem Lw (gpr s rs1) s
      in put rd old (put_word (gpr s rs1) 4 (amo_sem op old (gpr s rs2)) (s\<lparr>ppc := ppc s + 4\<rparr>)))"
| "rv_exec (LR rd rs1 aqrl) s = put rd (load_sem Lw (gpr s rs1) s) (s\<lparr>ppc := ppc s + 4\<rparr>)"
| "rv_exec (SC rd rs1 rs2 aqrl) s = put rd 0 (put_word (gpr s rs1) 4 (gpr s rs2) (s\<lparr>ppc := ppc s + 4\<rparr>))"

section \<open>The computations of the interpreter\<close>

lemma branch_taken_sem: "branch_taken (ucast (branch_f3 c)) a b = branch_sem c a b"
  by (cases c) (simp_all add: branch_taken_def word_sless_alt word_sle_eq word_less_def word_le_def)

lemma unat_and_31: "unat (b AND 0x1f :: u32) = unat b mod 32"
proof -
  have "b AND 0x1f = b mod 32" by (simp add: field_masks(2) flip: take_bit_eq_mask) (simp add: take_bit_eq_mod)
  then show ?thesis by (simp add: unat_mod)
qed

lemma shift_values:
  "push_bit n a = shift_sem Slli a n" "drop_bit n a = shift_sem Srli a n" "signed_drop_bit n a = shift_sem Srai a n"
proof -
  show "push_bit n a = shift_sem Slli a n" by (simp add: push_bit_eq_mult)
  have "uint (drop_bit n a) = uint a div 2 ^ n" by (simp add: unsigned_drop_bit_eq bintr_uint drop_bit_eq_div [where 'a = int])
  from arg_cong [where f = "word_of_int :: int \<Rightarrow> u32", OF this] show "drop_bit n a = shift_sem Srli a n" by simp
  have "sint (signed_drop_bit n a) = sint a div 2 ^ n" by (simp add: sint_signed_drop_bit_eq drop_bit_eq_div)
  from arg_cong [where f = "word_of_int :: int \<Rightarrow> u32", OF this] show "signed_drop_bit n a = shift_sem Srai a n" by simp
qed

lemma op_alu_sem: "op_alu (ucast (alu_f3 op)) (ucast (alu_f7 op)) a b = alu_sem op a b"
  by (cases op) (simp_all add: op_alu_def alu_f7_def unat_and_31 shift_values word_sless_alt word_less_def
    del: shift_sem.simps)

lemma sint_scast_imm: "sint (scast i :: u32) = sint (i :: 12 word)"
  by (simp add: signed_scast_eq signed_take_bit_int_eq_self_iff) (use sint_greater_eq [of i] sint_less [of i] in simp)

lemma op_imm_sem: "op_imm (ucast (imm_f3 op)) f7 sh a (scast i) = imm_sem op a i"
  by (cases op) (simp_all add: op_imm_def word_sless_alt sint_scast_imm)

lemma op_shift_sem:
  "op_imm (ucast (shift_f3 op)) (ucast (shift_f7 op)) (ucast sh) a imm = shift_sem op a (unat (sh :: 5 word))"
  by (cases op) (simp_all add: op_imm_def shift_values unsigned_ucast_eq take_bit_nat_eq_self order.strict_trans [OF unat_bound] del: shift_sem.simps)

text \<open>Products: the signed product of two 32-bit words fits into 64 bits.\<close>

lemma sint_of_int_64: "- (2 ^ 63) \<le> k \<Longrightarrow> k < 2 ^ 63 \<Longrightarrow> sint (word_of_int k :: u64) = k"
  using signed_take_bit_int_eq_self [of 63 k] by (simp add: sint_sbintrunc')

lemma ucast_of_int: "(ucast (word_of_int k :: u64) :: u32) = word_of_int k"
  by (simp add: ucast_eq uint_word_of_int_eq take_bit_eq_mod mod_mod_cancel word_of_int_eq_iff)

lemma high_half:
  assumes "- (2 ^ 63) \<le> k" "k < 2 ^ 63"
  shows "ucast (signed_drop_bit 32 (word_of_int k :: u64)) = (word_of_int (k div 2 ^ 32) :: u32)"
proof -
  have "sint (signed_drop_bit 32 (word_of_int k :: u64)) = k div 2 ^ 32"
    using sint_of_int_64 [OF assms] by (simp add: sint_signed_drop_bit_eq drop_bit_eq_div)
  from arg_cong [where f = "word_of_int :: int \<Rightarrow> u64", OF this]
  have "signed_drop_bit 32 (word_of_int k :: u64) = word_of_int (k div 2 ^ 32)" by simp
  then show ?thesis by (simp only: ucast_of_int)
qed

lemma product_bound:
  assumes "\<bar>x\<bar> \<le> 2 ^ 31" "\<bar>y\<bar> < 2 ^ 32"
  shows "- (2 ^ 63) \<le> x * y" "x * y < (2 ^ 63 :: int)"
proof -
  have "\<bar>x * y\<bar> \<le> 2 ^ 31 * (2 ^ 32 - 1)"
    unfolding abs_mult using assms by (intro mult_mono) simp_all
  then show "- (2 ^ 63) \<le> x * y" "x * y < (2 ^ 63 :: int)" by (simp_all add: abs_le_iff)
qed

lemma sint_bound_32: "\<bar>sint (a :: u32)\<bar> \<le> 2 ^ 31"
  using sint_greater_eq [of a] sint_less [of a] by (simp add: abs_le_iff)

lemma uint_drop_bit_64: "uint (drop_bit 32 w) = uint w div 2 ^ 32" for w :: u64
  by (simp add: unsigned_drop_bit_eq bintr_uint drop_bit_eq_div [where 'a = int])

lemma op_muldiv_sem: "op_muldiv (ucast (mul_f3 op)) a b = mul_sem op a b"
proof (cases op)
  case Mulh
  have "\<bar>sint b\<bar> < 2 ^ 32" using sint_bound_32 [of b] by simp
  note h = high_half [OF product_bound [OF sint_bound_32 [of a] this]]
  have "(scast a :: u64) * scast b = word_of_int (sint a * sint b)" by simp
  then show ?thesis using Mulh h by (simp add: op_muldiv_def)
next
  case Mulhsu
  have "\<bar>uint b\<bar> < 2 ^ 32" using uint_ge_0 [of b] uint_lt2p [of b] by simp
  note h = high_half [OF product_bound [OF sint_bound_32 [of a] this]]
  have "(scast a :: u64) * ucast b = word_of_int (sint a * uint b)" by simp
  then show ?thesis using Mulhsu h by (simp add: op_muldiv_def)
next
  case Mulhu
  have "uint a * uint b < 2 ^ 64"
    using mult_strict_mono [of "uint a" "2 ^ 32" "uint b" "2 ^ 32"] uint_lt2p [of a] uint_lt2p [of b] by simp
  then have "uint ((ucast a :: u64) * ucast b) = uint a * uint b"
    by (simp add: uint_word_ariths unsigned_ucast_eq bintr_uint mod_pos_pos_trivial)
  then have "uint (drop_bit 32 ((ucast a :: u64) * ucast b)) = (uint a * uint b) div 2 ^ 32"
    by (simp only: uint_drop_bit_64)
  from arg_cong [where f = "word_of_int :: int \<Rightarrow> u64", OF this]
  have "drop_bit 32 ((ucast a :: u64) * ucast b) = word_of_int ((uint a * uint b) div 2 ^ 32)" by simp
  then show ?thesis using Mulhu by (simp only: op_muldiv_def) (simp add: ucast_of_int)
qed (simp_all add: op_muldiv_def INT32_MIN_def word_div_def word_mod_def signed_modulo_int_def)

text \<open>Memory.\<close>

lemma load_value_sem:
  assumes "pages_wf m"
  shows "load_value (ucast (load_f3 w)) a m = load_sem w a \<lparr>gpr = g, ppc = p, bytes_of = byte_at m\<rparr>"
proof -
  have r: "mem_read a n m = fetch_bytes a n \<lparr>gpr = g, ppc = p, bytes_of = byte_at m\<rparr>" for n
    using mem_read_bytes [OF assms] by (simp add: fetch_bytes_def)
  have l: "ld8 a m = byte_at m a" using mem_read_bytes [OF assms] by (simp add: ld8_def)
  show ?thesis
    by (cases w) (simp_all add: load_value_def ld16_def ld32_def r [symmetric] l)
qed

lemma store_value_sem:
  assumes "pages_wf m"
  shows "byte_at (store_value (ucast (store_f3 w)) a v m) =
      bytes_of (put_word a (store_width w) v \<lparr>gpr = g, ppc = p, bytes_of = byte_at m\<rparr>)"
    and "pages_wf (store_value f3 a v m)"
proof -
  have b: "le_bytes 1 (ucast v :: u8) = le_bytes 1 v" "le_bytes 2 (ucast v :: u16) = le_bytes 2 v"
    by (auto simp: le_bytes_def upt_rec intro!: bit_word_eqI simp: bit_simps)
  show "byte_at (store_value (ucast (store_f3 w)) a v m) =
      bytes_of (put_word a (store_width w) v \<lparr>gpr = g, ppc = p, bytes_of = byte_at m\<rparr>)"
    by (cases w) (simp_all add: fun_eq_iff store_value_def st8_def st16_def st32_def b put_word_def
        mem_write_bytes [OF assms] del: One_nat_def)
  show "pages_wf (store_value f3 a v m)" using assms by (auto simp: store_value_def st_wf)
qed

section \<open>The interpreter and the architecture\<close>

definition rv_state_of :: "'w machine \<Rightarrow> sim_hart \<Rightarrow> rv_state" where
  "rv_state_of m h = \<lparr>gpr = (\<lambda>r. xr h (ucast r)), ppc = pc h, bytes_of = byte_at (memory m)\<rparr>"

lemma ucast_reg [simp]: "(ucast r :: u32) = ucast s \<longleftrightarrow> r = s" "(ucast r :: u32) = 0 \<longleftrightarrow> r = 0" for r s :: reg
proof -
  have i: "(ucast (ucast r :: u32) :: reg) = r" for r by (rule bit_word_eqI) (simp add: bit_simps)
  show "(ucast r :: u32) = ucast s \<longleftrightarrow> r = s" by (metis i)
  show "(ucast r :: u32) = 0 \<longleftrightarrow> r = 0" by (metis i unsigned_0)
qed

lemma rv_state_simps [simp]:
  "gpr (rv_state_of m h) r = xr h (ucast r)" "ppc (rv_state_of m h) = pc h"
  "bytes_of (rv_state_of m h) = byte_at (memory m)"
  by (simp_all add: rv_state_of_def)

lemma rv_state_of_hset: "rv_state_of m (hset (ucast r) v h) = put r v (rv_state_of m h)"
  by (auto simp: rv_state_of_def hset_def put_def)

lemma charge_stall_fields [simp]:
  "xr (charge_stall i h) = xr h" "pc (charge_stall i h) = pc h" "hid (charge_stall i h) = hid h"
  by (simp_all add: charge_stall_def)

lemma pend_result_fields [simp]: "xr (pend_result r n h) = xr h" "pc (pend_result r n h) = pc h"
  by (simp_all add: pend_result_def)

lemma hset_pc [simp]: "pc (hset r v h) = pc h"
  by (simp add: hset_def)

text \<open>Minimum and maximum are exchanged in the code.\<close>

primrec coded_amo :: "amo_op \<Rightarrow> amo_op" where
  "coded_amo Amoadd = Amoadd" | "coded_amo Amoswap = Amoswap" | "coded_amo Amoxor = Amoxor"
| "coded_amo Amoor = Amoor" | "coded_amo Amoand = Amoand" | "coded_amo Amomin = Amomax"
| "coded_amo Amomax = Amomin" | "coded_amo Amominu = Amomaxu" | "coded_amo Amomaxu = Amominu"

definition as_coded :: "rv \<Rightarrow> rv" where
  "as_coded i = (case i of AMO op rd rs1 rs2 q \<Rightarrow> AMO (coded_amo op) rd rs1 rs2 q | _ \<Rightarrow> i)"

definition min_max :: "rv \<Rightarrow> bool" where
  "min_max i = (case i of AMO op _ _ _ _ \<Rightarrow> op \<in> {Amomin, Amomax, Amominu, Amomaxu} | _ \<Rightarrow> False)"

lemma as_coded_id: "\<not> min_max i \<Longrightarrow> as_coded i = i"
proof (cases i)
  case (AMO op rd rs1 rs2 q)
  then show "\<not> min_max i \<Longrightarrow> as_coded i = i" by (cases op) (simp_all add: min_max_def as_coded_def)
qed (simp_all add: min_max_def as_coded_def)

definition stores_to :: "u32 \<Rightarrow> rv_state \<Rightarrow> rv \<Rightarrow> bool" where
  "stores_to x s i = (case i of STORE _ rs1 _ imm \<Rightarrow> gpr s rs1 + scast imm = x | _ \<Rightarrow> False)"

lemma shift_imm_fields [simp]:
  "f_f7 (i_type (shift_imm op sh) rs1 f3 rd opc) = ucast (shift_f7 op)"
  "f_rs2 (i_type (shift_imm op sh) rs1 f3 rd opc) = ucast sh"
  unfolding i_type_def shift_imm_def field_defs field_masks
  by (rule u32_eqI, simp add: upt_32 bit_simps bit_beyond)+

lemma amo_code [simp]: "drop_bit 2 (ucast (amo_f7 f5 aqrl) :: u32) = ucast f5"
  unfolding amo_f7_def by (rule u32_eqI, simp add: upt_32 bit_simps bit_beyond)

lemma amo_result_sem: "amo_result (ucast (amo_f5 op)) old b = amo_sem (coded_amo op) old b"
  by (cases op) (simp_all add: amo_result_def word_sless_alt)

lemma amo_not_lr_sc [simp]: "(ucast (amo_f5 op) :: u32) \<noteq> 2" "(ucast (amo_f5 op) :: u32) \<noteq> 3"
  by (cases op, simp_all)+

lemma mul_f3_less [simp]: "f7 = (ucast (1 :: 7 word) :: u32) \<longleftrightarrow> f7 = 1"
  by simp

lemma alu_f7_not_1 [simp]: "(ucast (alu_f7 op) :: u32) \<noteq> 1"
  by (simp add: alu_f7_def)

lemma twice_scast: "push_bit 1 (scast off) = (2 * scast off :: u32)"
  by (simp add: push_bit_eq_mult)

lemma upd_mem_memory [simp]: "memory (upd_mem f m) = f (memory m)"
  by (simp add: upd_mem_def)

lemma rv_state_of_updates [simp]:
  "rv_state_of m (h\<lparr>pc := n\<rparr>) = (rv_state_of m h)\<lparr>ppc := n\<rparr>"
  "rv_state_of m (h\<lparr>cycle := t\<rparr>) = rv_state_of m h"
  "rv_state_of m (charge_stall i h) = rv_state_of m h"
  "rv_state_of m (pend_result r k h) = rv_state_of m h"
  "rv_state_of (upd_mem f m) h = (rv_state_of m h)\<lparr>bytes_of := byte_at (f (memory m))\<rparr>"
  by (simp_all add: rv_state_of_def)

lemma put_ppc [simp]: "(put r v s)\<lparr>ppc := n\<rparr> = put r v (s\<lparr>ppc := n\<rparr>)"
  by (simp add: put_def)

lemma put_word_ppc: "put_word a n v (s\<lparr>ppc := x\<rparr>) = (s\<lparr>bytes_of := bytes_of (put_word a n v s), ppc := x\<rparr>)"
  by (cases s) (simp add: put_word_def cong: if_cong)

lemma load_value_rv:
  assumes "pages_wf (memory m)"
  shows "load_value (ucast (load_f3 w)) a (memory m) = load_sem w a (rv_state_of m h)"
    and "ld32 a (memory m) = le_word (fetch_bytes a 4 (rv_state_of m h))"
  using load_value_sem [OF assms, of w] load_value_sem [OF assms, of Lw]
  by (simp_all add: rv_state_of_def load_value_def)

lemma store_value_rv:
  assumes "pages_wf (memory m)"
  shows "(rv_state_of m h)\<lparr>bytes_of := byte_at (store_value (ucast (store_f3 w)) a v (memory m)), ppc := n\<rparr> =
      put_word a (store_width w) v ((rv_state_of m h)\<lparr>ppc := n\<rparr>)"
    and "(rv_state_of m h)\<lparr>bytes_of := byte_at (st32 a v (memory m)), ppc := n\<rparr> =
      put_word a 4 v ((rv_state_of m h)\<lparr>ppc := n\<rparr>)"
  using store_value_sem(1) [OF assms, of w a v] store_value_sem(1) [OF assms, of Sw a v]
  by (simp_all add: rv_state_of_def store_value_def put_word_ppc) (simp_all add: put_word_def)

lemma interp_step_executes:
  assumes "ld32 (pc h) (memory m) = insn"
    and "execute W insn (xr h (f_rs1 insn)) (xr h (f_rs2 insn))
      (m, charge_stall insn (h\<lparr>cycle := cycle h + 1\<rparr>), dma, pc h + 4, Normal) = Some (m', h', dma', next, Normal)"
  shows "interp_step W m h dma = Some (m', h'\<lparr>pc := next\<rparr>, dma', Normal)"
  using assms by (simp add: interp_step_def Let_def retire_def)

lemmas exec_defs = exec_jal_def exec_jalr_def exec_branch_def exec_load_def exec_store_def exec_op_imm_def
  exec_op_def exec_amo_def

lemma interp_step_rv:
  assumes "ld32 (pc h) (memory m) = encode i" and wf: "pages_wf (memory m)"
    and "\<not> stores_to (tohost m) (rv_state_of m h) i"
  shows "\<exists>m' h'. interp_step W m h dma = Some (m', h', dma, Normal) \<and>
    rv_state_of m' h' = rv_exec (as_coded i) (rv_state_of m h)"
proof -
  let ?h = "charge_stall (encode i) (h\<lparr>cycle := cycle h + 1\<rparr>)"
  have "\<exists>m' h' next. execute W (encode i) (xr h (f_rs1 (encode i))) (xr h (f_rs2 (encode i)))
      (m, ?h, dma, pc h + 4, Normal) = Some (m', h', dma, next, Normal) \<and>
      (rv_state_of m' h')\<lparr>ppc := next\<rparr> = rv_exec (as_coded i) (rv_state_of m h)"
    using assms
    by (cases i) (simp_all add: execute_def exec_defs Let_def rv_state_of_hset branch_taken_sem op_alu_sem
      op_imm_sem op_shift_sem op_muldiv_sem twice_scast load_value_rv [where h = h] store_value_rv stores_to_def
      amo_result_sem as_coded_def mult.commute)
  then obtain m' h' n where e: "execute W (encode i) (xr h (f_rs1 (encode i))) (xr h (f_rs2 (encode i)))
      (m, ?h, dma, pc h + 4, Normal) = Some (m', h', dma, n, Normal)"
    "(rv_state_of m' h')\<lparr>ppc := n\<rparr> = rv_exec (as_coded i) (rv_state_of m h)" by blast
  show ?thesis using interp_step_executes [OF assms(1) e(1)] e(2) by auto
qed


text \<open>A machine with one instruction in its memory, for the witnesses.\<close>

definition one_word :: "u32 \<Rightarrow> pages \<Rightarrow> unit machine" where
  "one_word w p = \<lparr>env = ((), st32 0x80000000 w p), harts = [], tohost = 0, fromhost = 0,
     exited = False, exit_code = 0, cluster_base_l = 0x10000000, cluster_base_h = 0, core_num = 1\<rparr>"

abbreviation one_insn :: "rv \<Rightarrow> pages \<Rightarrow> unit machine" where
  "one_insn i \<equiv> one_word (encode i)"

definition a_hart :: "(u32 \<Rightarrow> u32) \<Rightarrow> sim_hart" where
  "a_hart x = \<lparr>hid = 0, xr = x, fr = (\<lambda>_. 0), pc = 0x80000000, cycle = 0, hstate = Run, hcsr = (\<lambda>_. None),
     poll_spins = 0, last_backjump_pc = 0, pend_reg = 0, pend_ready = 0\<rparr>"

definition no_dma :: dma_stage where
  "no_dma = \<lparr>sg_src = 0, sg_dst = 0, sg_dst_stride = 0, sg_src_stride = 0, sg_repeat = 1\<rparr>"

lemma one_insn_fetch:
  "pages_wf p \<Longrightarrow> ld32 (pc (a_hart x)) (memory (one_word w p)) = w"
  "pages_wf p \<Longrightarrow> pages_wf (memory (one_word w p))"
  by (simp_all add: one_word_def a_hart_def ld_st_same st_wf)

lemma byte_at_one_word: "byte_at (memory (one_word w (\<lambda>_. None))) x =
    (if unat (x - 0x80000000) < 4 then le_bytes 4 w ! unat (x - 0x80000000) else 0)"
  by (simp add: one_word_def st32_def mem_write_bytes [OF pages_wf_empty]) (simp add: byte_at_def)


text \<open>
  C10: the code exchanges minimum and maximum: an \<open>amomin\<close> leaves the larger of the two values in memory,
  an \<open>amomax\<close> the smaller, signed and unsigned; the old value is returned as it should.
\<close>

theorem amo_min_max_swapped:
  assumes "ld32 (pc h) (memory m) = encode (AMO op rd rs1 rs2 aqrl)" and "pages_wf (memory m)"
  shows "\<exists>m' h'. interp_step W m h dma = Some (m', h', dma, Normal) \<and>
    rv_state_of m' h' = rv_exec (AMO (coded_amo op) rd rs1 rs2 aqrl) (rv_state_of m h) \<and>
    coded_amo Amomin = Amomax \<and> coded_amo Amomax = Amomin \<and>
    coded_amo Amominu = Amomaxu \<and> coded_amo Amomaxu = Amominu"
  using interp_step_rv [OF assms] by (simp add: stores_to_def as_coded_def)

theorem amo_min_max_swapped_witness:
  "\<exists>m' h'. interp_step base_world (one_insn (AMO Amomin 3 1 2 0) (\<lambda>_. None)) (a_hart ((\<lambda>_. 0)(1 := 0x1000, 2 := 5))) no_dma =
      Some (m', h', no_dma, Normal) \<and> byte_at (memory m') 0x1000 = 5 \<and> xr h' 3 = 0"
proof -
  let ?i = "AMO Amomin 3 1 2 0" and ?h = "a_hart ((\<lambda>_. 0)(1 := 0x1000, 2 := 5))"
  obtain m' h' where s: "interp_step base_world (one_insn ?i (\<lambda>_. None)) ?h no_dma = Some (m', h', no_dma, Normal)"
    "rv_state_of m' h' = rv_exec (AMO Amomax 3 1 2 0) (rv_state_of (one_insn ?i (\<lambda>_. None)) ?h)"
    using amo_min_max_swapped [OF one_insn_fetch [OF pages_wf_empty], of base_world Amomin 3 1 2 0 "(\<lambda>_. 0)(1 := 0x1000, 2 := 5)" no_dma]
    by auto
  have "gpr (rv_state_of m' h') 3 = 0 \<and> bytes_of (rv_state_of m' h') 0x1000 = 5"
    unfolding s(2)
    by (simp add: put_def put_word_def a_hart_def fetch_bytes_def upt_rec byte_at_one_word Let_def le_bytes_def del: coded_amo.simps)
  with s(1) show ?thesis by auto
qed

end
