(* ===== verification/Interp_wf.thy ===== *)
theory Interp_wf
  imports Rv32_exec
begin

text \<open>
  Well-formedness of what the interpreter of memsim works on: register 0 of a hart holds 0, its pending register is one of the
  32, and the pages of the memory are complete. The interface to the timing world as a contract: the world has an
  invariant of its own, which its operations keep together with the pages. Every instruction then keeps all of it.
\<close>

section \<open>Well-formed harts\<close>

definition hart_ok :: "sim_hart \<Rightarrow> bool" where
  "hart_ok h \<longleftrightarrow> xr h 0 = 0 \<and> pend_reg h < 32"

definition env_ok :: "('w \<Rightarrow> bool) \<Rightarrow> 'w env \<Rightarrow> bool" where
  "env_ok good e \<longleftrightarrow> good (fst e) \<and> pages_wf (snd e)"

definition exec_ok :: "('w \<Rightarrow> bool) \<Rightarrow> 'w exec \<Rightarrow> bool" where
  "exec_ok good e = (case e of (m, h, dma, next, res) \<Rightarrow> env_ok good (env m) \<and> hart_ok h)"

lemma f_rd_less: "f_rd insn < 32"
  unfolding f_rd_def by (rule order.strict_trans1 [OF word_and_le1]) simp

lemma hart_ok_simps [simp]:
  "hart_ok h \<Longrightarrow> hart_ok (hset r v h)" "hart_ok h \<Longrightarrow> hart_ok (pend_result (f_rd insn) k h)"
  "hart_ok h \<Longrightarrow> hart_ok (charge_stall insn h)" "hart_ok h \<Longrightarrow> hart_ok (retire pc0 next res h)"
  "hart_ok (h\<lparr>hstate := st\<rparr>) = hart_ok h" "hart_ok (h\<lparr>cycle := t\<rparr>) = hart_ok h"
  "hart_ok (h\<lparr>hcsr := c\<rparr>) = hart_ok h" "hart_ok (h\<lparr>fr := f\<rparr>) = hart_ok h" "hart_ok (h\<lparr>pc := n\<rparr>) = hart_ok h"
  "hart_ok (h\<lparr>poll_spins := spins\<rparr>) = hart_ok h"
  by (auto simp: hart_ok_def hset_def pend_result_def charge_stall_def retire_def Let_def f_rd_less)

lemma pages_wf_stores [simp]:
  "pages_wf p \<Longrightarrow> pages_wf (store_value f3 a v p)" "pages_wf p \<Longrightarrow> pages_wf (st32 a w p)"
  "pages_wf p \<Longrightarrow> pages_wf (st64 a d p)"
  by (simp_all add: st_wf store_value_sem(2))

lemma env_upd [simp]: "env (upd_env f m) = f (env m)" "env (snd (ask_env g m)) = snd (g (env m))"
  "env (upd_mem k m) = (fst (env m), k (memory m))"
  by (simp_all add: upd_env_def ask_env_def upd_mem_def split: prod.splits)

lemma env_ok_upd_mem: "(pages_wf (memory m) \<Longrightarrow> pages_wf (k (memory m))) \<Longrightarrow> env_ok good (env m) \<Longrightarrow> env_ok good (env (upd_mem k m))"
  by (simp add: env_ok_def)

lemma exec_simple_ok:
  assumes "exec_ok good e"
  shows "exec_ok good (exec_jal insn e)" "exec_ok good (exec_jalr insn a e)" "exec_ok good (exec_branch insn a b e)"
    "exec_ok good (exec_load insn a e)" "exec_ok good (exec_store insn a b e)" "exec_ok good (exec_op_imm insn a e)"
    "exec_ok good (exec_op insn a b e)" "exec_ok good (exec_amo insn a b e)" "exec_ok good (exec_load_fp insn a e)"
    "exec_ok good (exec_store_fp insn a e)" "exec_ok good (exec_op_fp insn a e)"
  using assms unfolding exec_ok_def env_ok_def
  by (auto simp: exec_defs exec_load_fp_def exec_store_fp_def exec_op_fp_def htif_tohost_def Let_def split: prod.splits)

section \<open>The contract of the world\<close>

locale world_laws =
  fixes W :: "'w world_ops" and good :: "'w \<Rightarrow> bool"
  assumes advance: "env_ok good e \<Longrightarrow> env_ok good (advance_to W t e)"
    and submit: "env_ok good e \<Longrightarrow> env_ok good (snd (dma_submit W d t e))"
    and busy_id: "env_ok good e \<Longrightarrow> env_ok good (snd (dma_busy W t e))" "env_ok good e \<Longrightarrow> env_ok good (snd (dma_completed_id W t e))"
    and snax: "env_ok good e \<Longrightarrow> env_ok good (snax_write W c v t e)" "env_ok good e \<Longrightarrow> env_ok good (snd (snax_read W c t e))"
    and fenced: "env_ok good e \<Longrightarrow> env_ok good (fence W i t e)"
begin

lemmas laws = advance submit busy_id snax fenced

lemma csr_read_ok: "env_ok good (env m) \<Longrightarrow> env_ok good (env (snd (csr_read W h c m)))"
  by (simp add: csr_read_def laws)

lemma exec_csr_ok:
  assumes "exec_ok good e"
  shows "exec_ok good (exec_csr W insn a e)"
proof -
  obtain m h dma nx res where e: "e = (m, h, dma, nx, res)" by (metis prod_cases5)
  obtain old poll m1 where r: "csr_read W h (drop_bit 20 insn) m = ((old, poll), m1)" by (metis prod.exhaust)
  have ok: "env_ok good (env m)" "env_ok good (env m1)" "hart_ok h"
    using csr_read_ok [of m h "drop_bit 20 insn"] assms r by (simp_all add: exec_ok_def e)
  show ?thesis
    using ok
    by (cases "snax_window (drop_bit 20 insn)") (simp_all add: exec_csr_def e r Let_def exec_ok_def csr_write_def laws)
qed

lemma exec_xdma_ok:
  assumes "exec_ok good e"
  shows "exec_ok good (exec_xdma W insn a b e)"
proof -
  obtain m h dma nx res where e: "e = (m, h, dma, nx, res)" by (metis prod_cases5)
  have ask: "env_ok good (env m')" if "ask_env f m = (v, m')" "env_ok good (snd (f (env m)))" for f :: "_ \<Rightarrow> u32 \<times> _" and v m'
    using env_upd(2) [of f m] that by simp
  show ?thesis
    using assms laws [of "env m"]
    by (simp add: exec_xdma_def e Let_def exec_ok_def split: prod.split) (blast intro: ask)
qed

lemma exec_system_ok: "exec_ok good e \<Longrightarrow> exec_ok good (exec_system W insn a e)"
  using exec_csr_ok [of e insn a] by (auto simp: exec_system_def exec_ok_def Let_def split: prod.splits)

lemma exec_ok_updates:
  "exec_ok good (m, h, dma, nx, res) \<Longrightarrow> exec_ok good (m, hset r v h, dma, nx, res)"
  "exec_ok good (m, h, dma, nx, res) \<Longrightarrow> exec_ok good (upd_env (fence W i t) m, h, dma, nx, res)"
  by (auto simp: exec_ok_def laws)

lemma execute_ok:
  assumes "exec_ok good e" "execute W insn a b e = Some e'"
  shows "exec_ok good e'"
  using assms exec_simple_ok [OF assms(1)] exec_system_ok [OF assms(1)] exec_xdma_ok [OF assms(1)]
  unfolding execute_def Let_def
  by (auto intro: exec_ok_updates split: if_splits prod.splits)

lemma step_keeps:
  assumes "env_ok good (env m)" "hart_ok h" "interp_step W m h dma = Some (m', h', dma', res)"
  shows "env_ok good (env m')" "hart_ok h'"
  using assms execute_ok [of "(m, charge_stall (ld32 (pc h) (memory m)) (h\<lparr>cycle := cycle h + 1\<rparr>), dma, pc h + 4, Normal)"]
  by (auto simp: interp_step_def Let_def exec_ok_def split: option.splits)

end

text \<open>The trivial world of machine.hpp.\<close>

interpretation base: world_laws base_world "\<lambda>_. True"
  by unfold_locales (simp_all add: base_world_def)

end
