(* ===== verification/Sched.thy ===== *)
theory Sched
  imports Interp_wf
begin

text \<open>
  The scheduler of memsim (target/snitch_cluster/sim/src/sched.cpp): it interleaves the two harts by
  their cycle counts, releases the hardware barrier, lets the world go on when no hart can run and
  stops at an exit, a deadlock or the cap on instructions.
\<close>

section \<open>State and turns\<close>

record 'w sched =
  mach :: "'w machine"
  dma_regs :: "dma_stage list"
  deadlocked :: bool
  steps :: u64

definition runnable :: "sim_hart \<Rightarrow> bool" where
  "runnable h \<longleftrightarrow> hstate h = Run"

abbreviation the_hart :: "'w sched \<Rightarrow> nat \<Rightarrow> sim_hart" where
  "the_hart s i \<equiv> harts (mach s) ! i"

definition upd_hart :: "nat \<Rightarrow> (sim_hart \<Rightarrow> sim_hart) \<Rightarrow> 'w sched \<Rightarrow> 'w sched" where
  "upd_hart i f s = s\<lparr>mach := (mach s)\<lparr>harts := (harts (mach s))[i := f (the_hart s i)]\<rparr>\<rparr>"

definition all_done :: "'w sched \<Rightarrow> bool" where
  "all_done s \<longleftrightarrow> hstate (the_hart s 0) \<in> {Halted, Parked} \<and> hstate (the_hart s 1) \<in> {Halted, Parked}"

definition both_at_barrier :: "'w sched \<Rightarrow> bool" where
  "both_at_barrier s \<longleftrightarrow> hstate (the_hart s 0) = AtBarrier \<and> hstate (the_hart s 1) = AtBarrier"

definition release_barrier :: "'w sched \<Rightarrow> 'w sched" where
  "release_barrier s =
     (let t = (if cycle (the_hart s 0) > cycle (the_hart s 1) then cycle (the_hart s 0)
               else cycle (the_hart s 1)) + HW_BARRIER_RELEASE_COST;
          go = (\<lambda>h. h\<lparr>cycle := t, hstate := Run\<rparr>)
      in upd_hart 1 go (upd_hart 0 go s))"

definition choose_hart :: "'w sched \<Rightarrow> nat option" where
  "choose_hart s =
     (let h0 = the_hart s 0; h1 = the_hart s 1 in
      if runnable h0 \<and> runnable h1 then Some (if cycle h0 \<le> cycle h1 then 0 else 1)
      else if runnable h0 then Some 0
      else if runnable h1 then Some 1
      else None)"

text \<open>A hart that waits for the world runs again, at the time of the event.\<close>

definition unblock_poll :: "u64 \<Rightarrow> sim_hart \<Rightarrow> sim_hart" where
  "unblock_poll t h =
     (if hstate h = BlockedPoll then h\<lparr>hstate := Run, cycle := if t > cycle h then t else cycle h\<rparr> else h)"

text \<open>What follows an instruction of hart \<open>i\<close>.\<close>

definition after_step :: "nat \<Rightarrow> step \<Rightarrow> 'w sched \<Rightarrow> 'w sched" where
  "after_step i res s =
     (case res of
        Barrier \<Rightarrow> if both_at_barrier s then release_barrier s else s
      | Halt \<Rightarrow> s\<lparr>mach := (mach s)\<lparr>exited := True\<rparr>\<rparr>
      | Wfi \<Rightarrow> upd_hart i (\<lambda>h. h\<lparr>hstate := Parked\<rparr>) s
      | PollRead \<Rightarrow> if poll_spins (the_hart s i) > 64
          then upd_hart i (\<lambda>h. h\<lparr>hstate := BlockedPoll, poll_spins := 0\<rparr>) s else s
      | Normal \<Rightarrow> s)"

text \<open>One turn of the loop: go on, leave the loop, or the illegal instruction that ends the process.\<close>

datatype 'w turn = Continue "'w sched" | Break "'w sched" | Illegal

definition run_hart :: "'w world_ops \<Rightarrow> nat \<Rightarrow> 'w sched \<Rightarrow> 'w turn" where
  "run_hart W i s =
     (let k = hid (the_hart s i) in
      case interp_step W (mach s) (the_hart s i) (dma_regs s ! k) of
        None \<Rightarrow> Illegal
      | Some (m', h', dma', res) \<Rightarrow>
          Continue (after_step i res
            (s\<lparr>mach := m'\<lparr>harts := (harts m')[i := h']\<rparr>, dma_regs := (dma_regs s)[k := dma'],
               steps := steps s + 1\<rparr>)))"

definition idle_turn :: "'w world_ops \<Rightarrow> 'w sched \<Rightarrow> 'w turn" where
  "idle_turn W s =
     (if both_at_barrier s then Continue (release_barrier s)
      else if all_done s then Break s
      else let t = next_event_cycle W (env (mach s)) in
        if t = - 1 then Break (s\<lparr>deadlocked := True\<rparr>)
        else Continue (upd_hart 1 (unblock_poll t) (upd_hart 0 (unblock_poll t)
               (s\<lparr>mach := upd_env (advance_to W t) (mach s)\<rparr>))))"

definition sched_turn :: "'w world_ops \<Rightarrow> 'w sched \<Rightarrow> 'w turn" where
  "sched_turn W s = (case choose_hart s of Some i \<Rightarrow> run_hart W i s | None \<Rightarrow> idle_turn W s)"

text \<open>
  The loop: \<open>None\<close> when it does not end, \<open>Some None\<close> when an illegal instruction ends the process.
\<close>

partial_function (option) sched_run :: "'w world_ops \<Rightarrow> u64 \<Rightarrow> 'w sched \<Rightarrow> 'w sched option option" where
  "sched_run W max_insns s =
     (if exited (mach s) \<or> \<not> steps s < max_insns then Some (Some s)
      else case sched_turn W s of
        Continue s' \<Rightarrow> sched_run W max_insns s'
      | Break s' \<Rightarrow> Some (Some s')
      | Illegal \<Rightarrow> Some None)"

section \<open>Invariant\<close>

definition sched_ok :: "'w sched \<Rightarrow> bool" where
  "sched_ok s \<longleftrightarrow> length (harts (mach s)) = 2 \<and> length (dma_regs s) = 2 \<and>
     hid (the_hart s 0) = 0 \<and> hid (the_hart s 1) = 1"

definition turn_ok :: "('w sched \<Rightarrow> bool) \<Rightarrow> 'w turn \<Rightarrow> bool" where
  "turn_ok P t = (case t of Continue s \<Rightarrow> P s | Break s \<Rightarrow> P s | Illegal \<Rightarrow> True)"

section \<open>What an instruction does to the other parts of the machine\<close>

definition halt_all :: "'w machine \<Rightarrow> sim_hart list" where
  "halt_all m = map (\<lambda>h. h\<lparr>hstate := Halted\<rparr>) (harts m)"

text \<open>
  From hart \<open>h\<close> on a machine \<open>m\<close> that has not exited: the harts and the exit flag are only changed by an
  exit, which signals \<open>Halt\<close>; the hart changes its state only at a barrier or an exit; a poll goes on with
  the next instruction.
\<close>

definition frames :: "'w machine \<Rightarrow> sim_hart \<Rightarrow> u32 \<Rightarrow> 'w exec \<Rightarrow> bool" where
  "frames m h n e = (case e of (m', h', dma', nx, res) \<Rightarrow>
     hid h' = hid h \<and> poll_spins h' = poll_spins h \<and> (res = PollRead \<longrightarrow> nx = n) \<and>
     (if res = Halt then exited m' \<and> harts m' = halt_all m \<and> hstate h' = Halted
      else \<not> exited m' \<and> harts m' = harts m \<and> hstate h' = (if res = Barrier then AtBarrier else hstate h)))"

lemma hset_fields [simp]:
  "hid (hset r v h) = hid h" "poll_spins (hset r v h) = poll_spins h" "hstate (hset r v h) = hstate h"
  "cycle (hset r v h) = cycle h" "hid (pend_result r k h) = hid h" "poll_spins (pend_result r k h) = poll_spins h"
  "hstate (pend_result r k h) = hstate h" "poll_spins (charge_stall i h) = poll_spins h"
  "hstate (charge_stall i h) = hstate h"
  by (simp_all add: hset_def pend_result_def charge_stall_def)

lemma env_frame [simp]:
  "harts (upd_env f m) = harts m" "exited (upd_env f m) = exited m" "harts (upd_mem f' m) = harts m"
  "exited (upd_mem f' m) = exited m" "tohost (upd_mem f' m) = tohost m" "harts (snd (ask_env g m)) = harts m" "exited (snd (ask_env g m)) = exited m"
  by (simp_all add: upd_env_def upd_mem_def ask_env_def split: prod.split)

lemma ask_env_frame:
  assumes "ask_env g m = (v, m')"
  shows "harts m' = harts m \<and> exited m' = exited m"
  using env_frame(6,7) [of g m] assms by simp_all

lemma csr_read_frame:
  assumes "csr_read W h c m = (r, m')"
  shows "harts m' = harts m \<and> exited m' = exited m"
  using assms by (auto simp: csr_read_def split: if_splits dest!: ask_env_frame)

lemma exec_simple_frames:
  assumes "\<not> exited m" and "poll_spins g = poll_spins h" and "hid g = hid h" and "hstate g = hstate h"
  shows "frames m h n (exec_jal insn (m, g, dma, n, Normal))" "frames m h n (exec_jalr insn a (m, g, dma, n, Normal))"
    "frames m h n (exec_branch insn a b (m, g, dma, n, Normal))" "frames m h n (exec_load insn a (m, g, dma, n, Normal))"
    "frames m h n (exec_store insn a b (m, g, dma, n, Normal))" "frames m h n (exec_op_imm insn a (m, g, dma, n, Normal))"
    "frames m h n (exec_op insn a b (m, g, dma, n, Normal))" "frames m h n (exec_amo insn a b (m, g, dma, n, Normal))"
    "frames m h n (exec_load_fp insn a (m, g, dma, n, Normal))" "frames m h n (exec_store_fp insn a (m, g, dma, n, Normal))"
    "frames m h n (exec_op_fp insn a (m, g, dma, n, Normal))"
  using assms
  by (simp_all add: exec_defs exec_load_fp_def exec_store_fp_def exec_op_fp_def htif_tohost_def Let_def frames_def
      halt_all_def)

lemma exec_csr_frames:
  assumes "\<not> exited m" and "poll_spins g = poll_spins h" and "hid g = hid h" and "hstate g = hstate h"
  shows "frames m h n (exec_csr W insn a (m, g, dma, n, Normal))"
proof -
  obtain old poll m1 where r: "csr_read W g (drop_bit 20 insn) m = ((old, poll), m1)" by (metis prod.exhaust)
  show ?thesis
    using assms csr_read_frame [OF r]
    by (cases "snax_window (drop_bit 20 insn)") (simp_all add: exec_csr_def r Let_def frames_def csr_write_def)
qed

lemma exec_xdma_frames:
  assumes "\<not> exited m" and "poll_spins g = poll_spins h" and "hid g = hid h" and "hstate g = hstate h"
  shows "frames m h n (exec_xdma W insn a b (m, g, dma, n, Normal))"
  using assms by (simp add: exec_xdma_def Let_def frames_def split: prod.split) (auto dest!: ask_env_frame)

lemma execute_frames:
  assumes "\<not> exited m" and "poll_spins g = poll_spins h" and "hid g = hid h" and "hstate g = hstate h"
    and "execute W insn a b (m, g, dma, n, Normal) = Some e"
  shows "frames m h n e"
  using assms(5) exec_simple_frames [OF assms(1-4)] exec_csr_frames [OF assms(1-4)] exec_xdma_frames [OF assms(1-4)]
  by (auto simp: execute_def Let_def exec_system_def split: if_splits) (use assms(1-4) in \<open>simp_all add: frames_def\<close>)

lemma interp_step_frames:
  assumes "\<not> exited m" and "interp_step W m h dma = Some (m', h', dma', res)"
  shows "hid h' = hid h" "pc h < 0xFFFFFFFC \<Longrightarrow> poll_spins h' = poll_spins h"
    "if res = Halt then exited m' \<and> harts m' = halt_all m \<and> hstate h' = Halted
     else \<not> exited m' \<and> harts m' = harts m \<and> hstate h' = (if res = Barrier then AtBarrier else hstate h)"
proof -
  let ?insn = "ld32 (pc h) (memory m)"
  let ?g = "charge_stall ?insn (h\<lparr>cycle := cycle h + 1\<rparr>)"
  obtain h1 nx where e: "execute W ?insn (xr h (f_rs1 ?insn)) (xr h (f_rs2 ?insn)) (m, ?g, dma, pc h + 4, Normal) =
      Some (m', h1, dma', nx, res)" and h': "h' = retire (pc h) nx res h1"
    using assms(2) by (auto simp: interp_step_def Let_def split: option.splits)
  have f: "frames m h (pc h + 4) (m', h1, dma', nx, res)"
    by (rule execute_frames [OF assms(1) _ _ _ e]) (simp_all add: charge_stall_def)
  then show "hid h' = hid h" by (simp add: h' frames_def retire_def Let_def)
  have "pc h < pc h + 4" if "pc h < 0xFFFFFFFC"
  proof -
    have "unat (pc h) < 4294967292" using that by (simp add: word_less_nat_alt)
    then show ?thesis by (simp add: word_less_nat_alt unat_word_ariths)
  qed
  then show "pc h < 0xFFFFFFFC \<Longrightarrow> poll_spins h' = poll_spins h"
    using f by (auto simp: h' frames_def retire_def Let_def)
  show "if res = Halt then exited m' \<and> harts m' = halt_all m \<and> hstate h' = Halted
     else \<not> exited m' \<and> harts m' = harts m \<and> hstate h' = (if res = Barrier then AtBarrier else hstate h)"
    using f by (simp add: h' frames_def retire_def Let_def)
qed

lemma upd_hart_simps [simp]:
  "length (harts (mach (upd_hart i f s))) = length (harts (mach s))" "dma_regs (upd_hart i f s) = dma_regs s"
  "steps (upd_hart i f s) = steps s" "exited (mach (upd_hart i f s)) = exited (mach s)"
  "env (mach (upd_hart i f s)) = env (mach s)" "deadlocked (upd_hart i f s) = deadlocked s"
  "j < length (harts (mach s)) \<Longrightarrow> the_hart (upd_hart i f s) j = (if i = j then f (the_hart s j) else the_hart s j)"
  by (simp_all add: upd_hart_def nth_list_update)

lemma release_barrier_fields [simp]:
  assumes "length (harts (mach s)) = 2"
  shows "length (harts (mach (release_barrier s))) = 2" "dma_regs (release_barrier s) = dma_regs s"
    "steps (release_barrier s) = steps s" "exited (mach (release_barrier s)) = exited (mach s)"
    "env (mach (release_barrier s)) = env (mach s)" "deadlocked (release_barrier s) = deadlocked s"
  using assms by (simp_all add: release_barrier_def Let_def)

lemma less_2_cases: "i < 2 \<Longrightarrow> (i = 0 \<Longrightarrow> P) \<Longrightarrow> (i = 1 \<Longrightarrow> P) \<Longrightarrow> P" for i :: nat
  by linarith

lemma release_barrier_hart:
  assumes "length (harts (mach s)) = 2" "i < 2"
  shows "the_hart (release_barrier s) i =
     (the_hart s i)\<lparr>cycle := (if cycle (the_hart s 0) > cycle (the_hart s 1) then cycle (the_hart s 0)
               else cycle (the_hart s 1)) + HW_BARRIER_RELEASE_COST, hstate := Run\<rparr>"
  using assms(2) by (rule less_2_cases) (simp_all add: release_barrier_def Let_def assms(1))

text \<open>The state after the instruction of hart \<open>i\<close>, before the scheduler reacts.\<close>

definition stepped :: "nat \<Rightarrow> 'w machine \<Rightarrow> sim_hart \<Rightarrow> dma_stage \<Rightarrow> 'w sched \<Rightarrow> 'w sched" where
  "stepped i m' h' dma' s = s\<lparr>mach := m'\<lparr>harts := (harts m')[i := h']\<rparr>,
     dma_regs := (dma_regs s)[hid (the_hart s i) := dma'], steps := steps s + 1\<rparr>"

lemma run_hart_Continue:
  assumes "run_hart W i s = Continue s'"
  obtains m' h' dma' res where
    "interp_step W (mach s) (the_hart s i) (dma_regs s ! hid (the_hart s i)) = Some (m', h', dma', res)"
    "s' = after_step i res (stepped i m' h' dma' s)"
  using assms by (auto simp: run_hart_def Let_def stepped_def split: option.splits)

lemma stepped_facts:
  assumes "sched_ok s" "i < 2" "\<not> exited (mach s)"
    and "interp_step W (mach s) (the_hart s i) d = Some (m', h', dma', res)"
  shows "sched_ok (stepped i m' h' dma' s)" "the_hart (stepped i m' h' dma' s) i = h'"
    "res \<noteq> Halt \<Longrightarrow> j < 2 \<Longrightarrow> j \<noteq> i \<Longrightarrow> the_hart (stepped i m' h' dma' s) j = the_hart s j"
    "exited (mach (stepped i m' h' dma' s)) \<longleftrightarrow> res = Halt" "steps (stepped i m' h' dma' s) = steps s + 1"
proof -
  note f = interp_step_frames [OF assms(3,4)]
  have i: "i = 0 \<or> i = 1" using assms(2) by linarith
  have l: "length (harts m') = 2" using f(3) assms(1) by (auto simp: sched_ok_def halt_all_def split: if_splits)
  have o: "hid (harts m' ! j) = hid (the_hart s j)" if "j < 2" for j
    using f(3) assms(1) that by (auto simp: sched_ok_def halt_all_def split: if_splits)
  show "sched_ok (stepped i m' h' dma' s)"
    using assms(1) f(1) l o i by (auto simp: sched_ok_def stepped_def)
  show "the_hart (stepped i m' h' dma' s) i = h'" using l assms(2) by (simp add: stepped_def)
  show "res \<noteq> Halt \<Longrightarrow> j < 2 \<Longrightarrow> j \<noteq> i \<Longrightarrow> the_hart (stepped i m' h' dma' s) j = the_hart s j"
    using f(3) by (simp add: stepped_def)
  show "exited (mach (stepped i m' h' dma' s)) \<longleftrightarrow> res = Halt" using f(3) by (auto simp: stepped_def split: if_splits)
  show "steps (stepped i m' h' dma' s) = steps s + 1" by (simp add: stepped_def)
qed

lemma sched_ok_upd_hart: "sched_ok s \<Longrightarrow> (\<And>h. hid (f h) = hid h) \<Longrightarrow> sched_ok (upd_hart i f s)"
  by (simp add: sched_ok_def)

lemma sched_ok_release: "sched_ok s \<Longrightarrow> sched_ok (release_barrier s)"
  unfolding release_barrier_def Let_def by (intro sched_ok_upd_hart) simp_all

lemma after_step_facts:
  assumes "sched_ok s"
  shows "sched_ok (after_step i res s)" "steps (after_step i res s) = steps s"
    "exited (mach (after_step i res s)) \<longleftrightarrow> exited (mach s) \<or> res = Halt"
    "env (mach (after_step i res s)) = env (mach s)"
proof -
  have l: "length (harts (mach s)) = 2" using assms by (simp add: sched_ok_def)
  show "sched_ok (after_step i res s)"
  proof (cases res)
    case Halt
    then show ?thesis using assms by (simp add: after_step_def sched_ok_def)
  qed (use assms in \<open>simp_all add: after_step_def sched_ok_release sched_ok_upd_hart\<close>)
  show "steps (after_step i res s) = steps s" "env (mach (after_step i res s)) = env (mach s)"
    "exited (mach (after_step i res s)) \<longleftrightarrow> exited (mach s) \<or> res = Halt"
    using l by (simp_all add: after_step_def split: step.split)
qed

lemma choose_hart_Some:
  assumes "choose_hart s = Some i"
  shows "i < 2" "runnable (the_hart s i)"
    "j < 2 \<Longrightarrow> runnable (the_hart s j) \<Longrightarrow> cycle (the_hart s i) \<le> cycle (the_hart s j)"
proof -
  show "i < 2" "runnable (the_hart s i)" using assms by (auto simp: choose_hart_def Let_def split: if_splits)
  show "j < 2 \<Longrightarrow> runnable (the_hart s j) \<Longrightarrow> cycle (the_hart s i) \<le> cycle (the_hart s j)"
    using assms by (auto simp: choose_hart_def Let_def less_Suc_eq numeral_2_eq_2 split: if_splits)
qed

lemma choose_hart_None: "choose_hart s = None \<longleftrightarrow> \<not> runnable (the_hart s 0) \<and> \<not> runnable (the_hart s 1)"
  by (auto simp: choose_hart_def Let_def)

lemma idle_turn_ok: "sched_ok s \<Longrightarrow> turn_ok sched_ok (idle_turn W s)"
  by (auto simp: idle_turn_def turn_ok_def Let_def sched_ok_release intro!: sched_ok_upd_hart)
    (simp_all add: sched_ok_def unblock_poll_def)

lemma sched_turn_ok:
  assumes "sched_ok s" "\<not> exited (mach s)"
  shows "turn_ok sched_ok (sched_turn W s)"
proof (cases "choose_hart s")
  case None
  then show ?thesis using idle_turn_ok [OF assms(1)] by (simp add: sched_turn_def)
next
  case (Some i)
  note i = choose_hart_Some(1) [OF Some]
  show ?thesis
  proof (cases "run_hart W i s")
    case (Continue s')
    then obtain m' h' dma' res where
      x: "interp_step W (mach s) (the_hart s i) (dma_regs s ! hid (the_hart s i)) = Some (m', h', dma', res)"
        "s' = after_step i res (stepped i m' h' dma' s)" by (rule run_hart_Continue)
    have "sched_ok s'" using after_step_facts(1) [OF stepped_facts(1) [OF assms(1) i assms(2) x(1)]] x(2) by simp
    then show ?thesis using Some Continue by (simp add: sched_turn_def turn_ok_def)
  qed (use Some in \<open>auto simp: sched_turn_def turn_ok_def run_hart_def Let_def split: option.splits\<close>)
qed

lemma both_at_barrier_stepped: "length (harts (mach s)) = 2 \<Longrightarrow> i < 2 \<Longrightarrow> j < 2 \<Longrightarrow> i \<noteq> j \<Longrightarrow>
    both_at_barrier s \<longleftrightarrow> hstate (the_hart s i) = AtBarrier \<and> hstate (the_hart s j) = AtBarrier"
  unfolding both_at_barrier_def by (metis less_2_cases One_nat_def)

text \<open>The other hart, if its next instruction brings it to the barrier.\<close>

definition arrival :: "'w world_ops \<Rightarrow> 'w sched \<Rightarrow> nat \<Rightarrow> sim_hart option" where
  "arrival W s j =
     (if runnable (the_hart s j)
      then case interp_step W (mach s) (the_hart s j) (dma_regs s ! hid (the_hart s j)) of
          Some (m', h', dma', res) \<Rightarrow> if res = Barrier then Some h' else None
        | None \<Rightarrow> None
      else None)"

text \<open>
  C11: the hardware barrier: a hart that waits at it does not move until the other hart arrives by an
  instruction of its own; then both run on from the same cycle, two after the later arrival. Only an
  exit ends the waiting otherwise.
\<close>

theorem sched_barrier_safe:
  assumes "sched_ok s" and "i < 2" and "j < 2" and "i \<noteq> j" and "\<not> exited (mach s)"
    and "hstate (the_hart s i) = AtBarrier" and "hstate (the_hart s j) \<noteq> AtBarrier"
    and "sched_turn W s = Continue s'" and "\<not> exited (mach s')"
  shows "case arrival W s j of
      None \<Rightarrow> the_hart s' i = the_hart s i
    | Some h' \<Rightarrow> let t = max (cycle (the_hart s i)) (cycle h') + HW_BARRIER_RELEASE_COST in
        the_hart s' i = (the_hart s i)\<lparr>cycle := t, hstate := Run\<rparr> \<and> the_hart s' j = h'\<lparr>cycle := t, hstate := Run\<rparr>"
proof (cases "choose_hart s")
  case None
  then have s': "idle_turn W s = Continue s'" using assms(8) by (simp add: sched_turn_def)
  have l: "length (harts (mach s)) = 2" using assms(1) by (simp add: sched_ok_def)
  have b: "\<not> both_at_barrier s" using both_at_barrier_stepped [OF l assms(2-4)] assms(6,7) by simp
  show ?thesis
    using s' b l assms(2,3,6) choose_hart_None [of s] None
    by (auto simp: idle_turn_def Let_def unblock_poll_def upd_env_def arrival_def less_2_cases_iff split: if_splits)
next
  case (Some k)
  note k = choose_hart_Some [OF Some]
  have kj: "k = j" using k(1,2) assms(2-4,6) by (auto simp: runnable_def less_2_cases_iff)
  have r: "run_hart W j s = Continue s'" using assms(8) Some kj by (simp add: sched_turn_def)
  then obtain m' h' dma' res where
      x: "interp_step W (mach s) (the_hart s j) (dma_regs s ! hid (the_hart s j)) = Some (m', h', dma', res)"
        "s' = after_step j res (stepped j m' h' dma' s)" by (rule run_hart_Continue)
  let ?s = "stepped j m' h' dma' s"
  note f = stepped_facts [OF assms(1,3,5) x(1)]
  note h = interp_step_frames [OF assms(5) x(1)]
  have res: "res \<noteq> Halt" using after_step_facts(3) [OF f(1), of j res] x(2) assms(9) by simp
  have i: "the_hart ?s i = the_hart s i" using f(3) [OF res assms(2)] assms(4) by simp
  have l: "length (harts (mach ?s)) = 2" using f(1) by (simp add: sched_ok_def)
  have a: "arrival W s j = (if res = Barrier then Some h' else None)" using k(2) kj x(1) by (simp add: arrival_def)
  show ?thesis
  proof (cases "res = Barrier")
    case True
    have "both_at_barrier ?s"
      using both_at_barrier_stepped [OF l assms(2-4)] i f(2) h(3) True assms(6) by simp
    then have s': "s' = release_barrier ?s" using x(2) True by (simp add: after_step_def)
    have m: "(if cycle (the_hart ?s 0) > cycle (the_hart ?s 1) then cycle (the_hart ?s 0) else cycle (the_hart ?s 1)) =
        max (cycle (the_hart s i)) (cycle h')"
      using assms(2-4) i f(2) by (auto simp: less_2_cases_iff max_def)
    show ?thesis
      using a True release_barrier_hart [OF l assms(2), unfolded m i]
        release_barrier_hart [OF l assms(3), unfolded m f(2)] by (simp add: s' Let_def)
  next
    case False
    then have "the_hart s' i = the_hart s i"
      using x(2) i res l assms(2-4) by (auto simp: after_step_def split: step.splits)
    then show ?thesis using False a by simp
  qed
qed


section \<open>The loop ends\<close>

text \<open>The turns of the loop, and the turns in which it only lets the world go on to its next event.\<close>

definition turns :: "'w world_ops \<Rightarrow> 'w sched \<Rightarrow> 'w sched \<Rightarrow> bool" where
  "turns W s s' \<longleftrightarrow> \<not> exited (mach s) \<and> sched_turn W s = Continue s'"

definition waits :: "'w world_ops \<Rightarrow> 'w sched \<Rightarrow> bool" where
  "waits W s \<longleftrightarrow> choose_hart s = None \<and> \<not> both_at_barrier s \<and> \<not> all_done s \<and> next_event_cycle W (env (mach s)) \<noteq> - 1"

definition after_event :: "'w world_ops \<Rightarrow> 'w env \<Rightarrow> 'w env" where
  "after_event W e = advance_to W (next_event_cycle W e) e"

definition run_measure :: "('w env \<Rightarrow> nat) \<Rightarrow> u64 \<Rightarrow> 'w sched \<Rightarrow> nat \<times> nat \<times> nat" where
  "run_measure mu max_insns s =
     (unat max_insns - unat (steps s), mu (env (mach s)), of_bool (both_at_barrier s))"

lemma idle_turn_measure:
  assumes "sched_ok s" "choose_hart s = None" "waits W s \<Longrightarrow> mu (after_event W (env (mach s))) < mu (env (mach s))"
    and "idle_turn W s = Continue s'"
  shows "(run_measure mu n s', run_measure mu n s) \<in> less_than <*lex*> less_than <*lex*> less_than"
proof (cases "both_at_barrier s")
  case True
  have l: "length (harts (mach s)) = 2" using assms(1) by (simp add: sched_ok_def)
  have "s' = release_barrier s" using assms(4) True by (simp add: idle_turn_def)
  then show ?thesis using True l by (simp add: run_measure_def both_at_barrier_def release_barrier_hart)
next
  case False
  then have "waits W s" "steps s' = steps s" "env (mach s') = after_event W (env (mach s))"
    using assms(2,4) by (auto simp: waits_def after_event_def idle_turn_def Let_def upd_env_def split: if_splits)
  then show ?thesis using assms(3) by (simp add: run_measure_def)
qed

lemma run_hart_steps:
  assumes "sched_ok s" "i < 2" "\<not> exited (mach s)" "run_hart W i s = Continue s'"
  shows "steps s' = steps s + 1"
proof -
  obtain m' h' dma' res where
    x: "interp_step W (mach s) (the_hart s i) (dma_regs s ! hid (the_hart s i)) = Some (m', h', dma', res)"
      "s' = after_step i res (stepped i m' h' dma' s)" using assms(4) by (rule run_hart_Continue)
  note f = stepped_facts [OF assms(1-3) x(1)]
  show ?thesis using after_step_facts(2) [OF f(1)] f(5) x(2) by simp
qed

lemma steps_measure:
  assumes "steps s < n" shows "unat n - unat (steps s + 1) < unat n - unat (steps s)"
proof -
  have "unat (steps s) < unat n" using assms by (simp add: word_less_nat_alt)
  moreover have "unat n < 2 ^ 64" using unsigned_less [of n, where ?'a = nat] by simp
  ultimately show ?thesis by (simp add: unat_word_ariths)
qed

lemma wf_run_measure: "wf (inv_image (less_than <*lex*> less_than <*lex*> less_than) (run_measure mu n))"
  by (intro wf_inv_image wf_lex_prod wf_less_than)



section \<open>What every turn keeps\<close>

definition machine_ok :: "('w \<Rightarrow> bool) \<Rightarrow> 'w machine \<Rightarrow> bool" where
  "machine_ok good m \<longleftrightarrow> env_ok good (env m) \<and> (\<forall>h \<in> set (harts m). hart_ok h)"

lemma machine_ok_upd_hart:
  assumes "machine_ok good (mach s)" "i < length (harts (mach s))" "\<And>h. hart_ok h \<Longrightarrow> hart_ok (f h)"
  shows "machine_ok good (mach (upd_hart i f s))"
proof -
  have "hart_ok (f (the_hart s i))" using assms by (simp add: machine_ok_def)
  then show ?thesis
    using assms(1) by (auto simp: machine_ok_def upd_hart_def dest: set_update_subset_insert [THEN subsetD])
qed

lemma machine_ok_release:
  "machine_ok good (mach s) \<Longrightarrow> length (harts (mach s)) = 2 \<Longrightarrow> machine_ok good (mach (release_barrier s))"
  by (simp add: release_barrier_def Let_def machine_ok_upd_hart)

lemma machine_ok_after_step:
  "machine_ok good (mach s) \<Longrightarrow> length (harts (mach s)) = 2 \<Longrightarrow> i < 2 \<Longrightarrow> machine_ok good (mach (after_step i res s))"
  by (cases res) (simp_all add: after_step_def machine_ok_release machine_ok_upd_hart, simp add: machine_ok_def)

context world_laws
begin

lemma stepped_keeps:
  assumes "machine_ok good (mach s)" "\<not> exited (mach s)" "length (harts (mach s)) = 2" "i < 2"
    and x: "interp_step W (mach s) (the_hart s i) d = Some (m', h', dma', res)"
  shows "machine_ok good (mach (stepped i m' h' dma' s))"
proof -
  have h: "hart_ok (the_hart s i)" using assms(1,3,4) by (simp add: machine_ok_def)
  have "set (harts m') \<subseteq> set (harts (mach s)) \<union> set (halt_all (mach s))"
    using interp_step_frames(3) [OF assms(2) x] by (auto split: if_splits)
  then have "\<forall>k \<in> set (harts m'). hart_ok k" using assms(1) by (auto simp: machine_ok_def halt_all_def)
  moreover have "env_ok good (env m')" "hart_ok h'"
    using step_keeps [OF _ h x] assms(1) by (simp_all add: machine_ok_def)
  ultimately show ?thesis
    by (auto simp: machine_ok_def stepped_def dest: set_update_subset_insert [THEN subsetD])
qed

lemma turn_keeps:
  assumes "sched_ok s" "machine_ok good (mach s)" "turns W s s'"
  shows "sched_ok s' \<and> machine_ok good (mach s')"
proof
  have t: "\<not> exited (mach s)" "sched_turn W s = Continue s'" using assms(3) by (simp_all add: turns_def)
  have l: "length (harts (mach s)) = 2" using assms(1) by (simp add: sched_ok_def)
  show ok: "sched_ok s'" using sched_turn_ok [OF assms(1) t(1), of W] t(2) by (simp add: turn_ok_def)
  show "machine_ok good (mach s')"
  proof (cases "choose_hart s")
    case None
    then have "idle_turn W s = Continue s'" using t(2) by (simp add: sched_turn_def)
    moreover have "machine_ok good (upd_env (advance_to W c) (mach s))" for c
      using assms(2) by (simp add: machine_ok_def advance upd_env_def)
    moreover have "hart_ok (unblock_poll c h)" if "hart_ok h" for c h using that by (simp add: unblock_poll_def)
    ultimately show ?thesis
      using machine_ok_release [OF assms(2) l] l
      by (auto simp: idle_turn_def Let_def upd_env_def intro!: machine_ok_upd_hart split: if_splits)
  next
    case (Some i)
    note i = choose_hart_Some(1) [OF Some]
    obtain m' h' dma' res where
      x: "interp_step W (mach s) (the_hart s i) (dma_regs s ! hid (the_hart s i)) = Some (m', h', dma', res)"
        "s' = after_step i res (stepped i m' h' dma' s)"
      using t(2) Some by (auto simp: sched_turn_def elim: run_hart_Continue)
    have "length (harts (mach (stepped i m' h' dma' s))) = 2"
      using stepped_facts(1) [OF assms(1) i t(1) x(1)] by (simp add: sched_ok_def)
    then show ?thesis
      using machine_ok_after_step [OF stepped_keeps [OF assms(2) t(1) l i x(1)]] i x(2) by simp
  qed
qed

lemma turns_keep:
  assumes "(turns W)\<^sup>*\<^sup>* s s'" "sched_ok s" "machine_ok good (mach s)"
  shows "sched_ok s' \<and> machine_ok good (mach s')"
  using assms by (induction rule: rtranclp_induct) (auto dest: turn_keeps)

end

section \<open>Polling\<close>

definition never_polled :: "'w sched \<Rightarrow> bool" where
  "never_polled s \<longleftrightarrow> (\<forall>i < 2. hstate (the_hart s i) \<noteq> BlockedPoll \<and> poll_spins (the_hart s i) = 0)"

lemma never_polled_release:
  "length (harts (mach s)) = 2 \<Longrightarrow> never_polled s \<Longrightarrow> never_polled (release_barrier s)"
  by (simp add: never_polled_def release_barrier_hart)

text \<open>
  No hart is ever blocked on a poll, although the scheduler has code for it: the count of
  fruitless polls is only raised by a poll that jumps back, and the instructions that poll (CSR reads and
  DMA status reads) go on with the next instruction; the only exception is a poll in the last word of
  the address space. A waiting loop costs its instructions, cycle by cycle.
\<close>

theorem sched_poll_never_blocks:
  assumes "sched_ok s" and "never_polled s" and "\<not> exited (mach s)"
    and "pc (the_hart s 0) < 0xFFFFFFFC" and "pc (the_hart s 1) < 0xFFFFFFFC"
    and "sched_turn W s = Continue s'"
  shows "never_polled s'"
proof (cases "choose_hart s")
  case None
  then have t: "idle_turn W s = Continue s'" using assms(6) by (simp add: sched_turn_def)
  have l: "length (harts (mach s)) = 2" using assms(1) by (simp add: sched_ok_def)
  have "never_polled (upd_hart 1 (unblock_poll t) (upd_hart 0 (unblock_poll t) (s\<lparr>mach := upd_env f (mach s)\<rparr>)))" for t f
    using assms(2) l by (simp add: never_polled_def unblock_poll_def upd_env_def)
  then show ?thesis
    using t never_polled_release [OF l assms(2)] by (auto simp: idle_turn_def Let_def split: if_splits)
next
  case (Some i)
  note i = choose_hart_Some [OF Some]
  have "run_hart W i s = Continue s'" using assms(6) Some by (simp add: sched_turn_def)
  then obtain m' h' dma' res where
      x: "interp_step W (mach s) (the_hart s i) (dma_regs s ! hid (the_hart s i)) = Some (m', h', dma', res)"
        "s' = after_step i res (stepped i m' h' dma' s)" by (rule run_hart_Continue)
  let ?s = "stepped i m' h' dma' s"
  note f = stepped_facts [OF assms(1) i(1) assms(3) x(1)]
  note h = interp_step_frames [OF assms(3) x(1)]
  have p: "poll_spins h' = 0" using h(2) assms(2,4,5) i(1) by (auto simp: never_polled_def less_2_cases_iff)
  have l: "length (harts (mach ?s)) = 2" using f(1) by (simp add: sched_ok_def)
  have o: "hstate (the_hart ?s j) \<noteq> BlockedPoll \<and> poll_spins (the_hart ?s j) = 0" if "j < 2" for j
  proof (cases "j = i")
    case True
    then show ?thesis using f(2) p h(3) i(2) by (auto simp: runnable_def split: if_splits)
  next
    case False
    show ?thesis
    proof (cases "res = Halt")
      case True
      then have "the_hart ?s j = (the_hart s j)\<lparr>hstate := Halted\<rparr>"
        using h(3) False that assms(1) by (simp add: stepped_def halt_all_def sched_ok_def)
      then show ?thesis using assms(2) that by (simp add: never_polled_def)
    qed (use f(3) [OF _ that False] assms(2) that in \<open>simp add: never_polled_def\<close>)
  qed
  then have n: "never_polled ?s" by (simp add: never_polled_def)
  show ?thesis
    unfolding x(2) using n l never_polled_release [OF l n] i(1)
    by (auto simp: after_step_def never_polled_def split: step.splits)
qed


section \<open>Exit\<close>

lemma interp_step_exit:
  assumes "ld32 (pc h) (memory m) = encode (STORE w rs1 rs2 imm)"
    and "xr h (ucast rs1) + scast imm = tohost m" and "xr h (ucast rs2) AND 1 \<noteq> 0"
  obtains m' h' where "interp_step W m h dma = Some (m', h', dma, Halt)"
    "exit_code m' = drop_bit 1 (xr h (ucast rs2))" "fst (env m') = fst (env m)"
proof -
  let ?i = "s_type imm rs2 rs1 (store_f3 w) 0x23" and ?v = "xr h (ucast rs2)"
  let ?m = "upd_mem (store_value (ucast (store_f3 w)) (tohost m) ?v) m"
  let ?g = "charge_stall ?i (h\<lparr>cycle := cycle h + 1\<rparr>)"
  have "execute W ?i (xr h (f_rs1 ?i)) (xr h (f_rs2 ?i)) (m, ?g, dma, pc h + 4, Normal) =
      Some (htif_tohost ?v ?m, ?g\<lparr>hstate := Halted\<rparr>, dma, pc h + 4, Halt)"
    using assms(2,3) by (simp add: execute_def exec_store_def Let_def htif_tohost_def)
  then have "interp_step W m h dma =
      Some (htif_tohost ?v ?m, retire (pc h) (pc h + 4) Halt (?g\<lparr>hstate := Halted\<rparr>), dma, Halt)"
    using assms(1) by (simp add: interp_step_def Let_def)
  with that show ?thesis using assms(3) by (simp add: htif_tohost_def upd_mem_def)
qed

text \<open>
  A program ends the simulation: when the hart whose turn it is stores an odd value at \<open>tohost\<close>, by a
  store of any width, the run ends with that instruction, both harts are halted, and the exit code is the
  value shifted right by one.
\<close>

theorem sched_exit:
  assumes "sched_ok s" and "\<not> exited (mach s)" and "steps s < max_insns" and "choose_hart s = Some i"
    and "ld32 (pc (the_hart s i)) (memory (mach s)) = encode (STORE w rs1 rs2 imm)"
    and "xr (the_hart s i) (ucast rs1) + scast imm = tohost (mach s)"
    and "xr (the_hart s i) (ucast rs2) AND 1 \<noteq> 0"
  shows "\<exists>s'. sched_run W max_insns s = Some (Some s') \<and> exited (mach s') \<and> steps s' = steps s + 1 \<and> all_done s' \<and>
    exit_code (mach s') = drop_bit 1 (xr (the_hart s i) (ucast rs2)) \<and> fst (env (mach s')) = fst (env (mach s))"
proof -
  note i = choose_hart_Some(1) [OF assms(4)]
  let ?d = "dma_regs s ! hid (the_hart s i)"
  obtain m' h' where x: "interp_step W (mach s) (the_hart s i) ?d = Some (m', h', ?d, Halt)"
    "exit_code m' = drop_bit 1 (xr (the_hart s i) (ucast rs2))" "fst (env m') = fst (env (mach s))"
    by (rule interp_step_exit [OF assms(5-7)])
  let ?s = "stepped i m' h' ?d s"
  let ?r = "after_step i Halt ?s"
  note f = stepped_facts [OF assms(1) i assms(2) x(1)]
  note h = interp_step_frames(3) [OF assms(2) x(1)]
  have "hstate (the_hart ?s j) = Halted" if "j < 2" for j
    using f(2) h that assms(1) by (cases "j = i") (simp_all add: stepped_def halt_all_def sched_ok_def)
  then have "all_done ?s" by (simp add: all_done_def)
  then have d: "all_done ?r" by (simp add: after_step_def all_done_def)
  have "sched_turn W s = Continue ?r" using x(1) assms(4) by (simp add: sched_turn_def run_hart_def Let_def stepped_def)
  moreover have e: "exited (mach ?r)" "steps ?r = steps s + 1" "exit_code (mach ?r) = exit_code m'" "env (mach ?r) = env m'"
    using f(5) by (simp_all add: after_step_def) (simp_all add: stepped_def)
  ultimately have "sched_run W max_insns s = Some (Some ?r)" using assms(2,3) by (simp add: sched_run.simps)
  then show ?thesis using d e x(2,3) by auto
qed

section \<open>Witnesses\<close>

text \<open>Two harts at the same program counter, the given word in memory there.\<close>

definition two_harts :: "u32 \<Rightarrow> hart_state \<Rightarrow> u64 \<Rightarrow> (u32 \<Rightarrow> u32) \<Rightarrow> unit sched" where
  "two_harts w st c x = \<lparr>mach = (one_word w (\<lambda>_. None))\<lparr>tohost := 0x1000, harts :=
     [(a_hart x)\<lparr>hstate := st, cycle := c\<rparr>, (a_hart x)\<lparr>hid := 1\<rparr>]\<rparr>, dma_regs = [no_dma, no_dma], deadlocked = False, steps = 0\<rparr>"

lemma two_harts_ok: "sched_ok (two_harts w st c x)"
  by (simp add: sched_ok_def two_harts_def a_hart_def)

lemma two_harts_simps [simp]:
  "exited (mach (two_harts w st c x)) = False" "steps (two_harts w st c x) = 0"
  "the_hart (two_harts w st c x) 0 = (a_hart x)\<lparr>hstate := st, cycle := c\<rparr>"
  "the_hart (two_harts w st c x) (Suc 0) = (a_hart x)\<lparr>hid := 1\<rparr>"
  "memory (mach (two_harts w st c x)) = memory (one_word w (\<lambda>_. None))"
  "tohost (mach (two_harts w st c x)) = 0x1000"
  by (simp_all add: two_harts_def one_word_def)

lemma two_harts_fetch: "ld32 0x80000000 (memory (mach (two_harts w st c x))) = w"
  using one_insn_fetch(1) [OF pages_wf_empty, of x w] by (simp add: a_hart_def)

lemma two_harts_choice: "choose_hart (two_harts w AtBarrier c x) = Some 1"
  by (simp add: choose_hart_def Let_def runnable_def a_hart_def)

theorem sched_exit_witness:
  "\<exists>s'. sched_run base_world 10 (two_harts (encode (STORE Sw 2 1 0x100)) AtBarrier 5 ((\<lambda>_. 0)(1 := 7, 2 := 0xF00))) =
      Some (Some s') \<and> all_done s' \<and> exit_code (mach s') = 3"
proof -
  let ?s = "two_harts (encode (STORE Sw 2 1 0x100)) AtBarrier 5 ((\<lambda>_. 0)(1 := 7, 2 := 0xF00))"
  have f: "ld32 (pc (the_hart ?s 1)) (memory (mach ?s)) = encode (STORE Sw 2 1 0x100)"
    using two_harts_fetch [of "encode (STORE Sw 2 1 0x100)"] by (simp add: a_hart_def)
  have "\<exists>s'. sched_run base_world 10 ?s = Some (Some s') \<and> exited (mach s') \<and> steps s' = steps ?s + 1 \<and> all_done s' \<and>
      exit_code (mach s') = drop_bit 1 (xr (the_hart ?s 1) (ucast (1 :: reg))) \<and> fst (env (mach s')) = fst (env (mach ?s))"
    by (rule sched_exit [OF two_harts_ok _ _ two_harts_choice f]) (simp_all add: a_hart_def)
  then show ?thesis by (auto simp: a_hart_def)
qed


text \<open>The word \<open>0x7C202073\<close> reads the barrier register.\<close>

theorem sched_barrier_safe_witness:
  "\<exists>s'. sched_turn base_world (two_harts 0x7C202073 AtBarrier 5 (\<lambda>_. 0)) = Continue s' \<and>
    hstate (the_hart s' 0) = Run \<and> hstate (the_hart s' 1) = Run \<and> cycle (the_hart s' 0) = 7 \<and> cycle (the_hart s' 1) = 7"
proof -
  let ?s = "two_harts 0x7C202073 AtBarrier 5 (\<lambda>_. 0)" and ?h = "(a_hart (\<lambda>_. 0))\<lparr>hid := 1\<rparr>"
  have i: "interp_step base_world (mach ?s) ?h d = Some (mach ?s, ?h\<lparr>cycle := 1, hstate := AtBarrier, pc := 0x80000004\<rparr>, d, Barrier)" for d
    using two_harts_fetch [of "0x7C202073" AtBarrier 5 "\<lambda>_. 0"]
    by (simp add: interp_step_def a_hart_def execute_def field_defs exec_system_def exec_csr_def CSR_HW_BARRIER_def Let_def
        charge_stall_def retire_def)
  obtain s' where t: "sched_turn base_world ?s = Continue s'" "s' = after_step 1 Barrier (stepped 1 (mach ?s) (?h\<lparr>cycle := 1, hstate := AtBarrier, pc := 0x80000004\<rparr>) no_dma ?s)"
    using i by (simp add: sched_turn_def two_harts_choice run_hart_def Let_def stepped_def) (simp add: a_hart_def two_harts_def)
  have e: "\<not> exited (mach s')" by (simp add: t(2) after_step_def release_barrier_def Let_def stepped_def)
  show ?thesis
    using sched_barrier_safe [OF two_harts_ok, of 0 1 "0x7C202073" AtBarrier 5 "\<lambda>_. 0" base_world s'] t(1) e i
    by (simp add: Let_def HW_BARRIER_RELEASE_COST_def arrival_def runnable_def)
      (simp add: a_hart_def Let_def HW_BARRIER_RELEASE_COST_def)
qed

text \<open>A read of the DMA status into register 5.\<close>

theorem sched_poll_never_blocks_witness:
  "\<exists>s'. sched_turn base_world (two_harts (r_type 4 2 0 0 5 0x2b) Run 0 (\<lambda>_. 0)) = Continue s' \<and> never_polled s' \<and>
    cycle (the_hart s' 0) = 1"
proof -
  let ?s = "two_harts (r_type 4 2 0 0 5 0x2b) Run 0 (\<lambda>_. 0)" and ?h = "a_hart (\<lambda>_. 0)"
  let ?h' = "(hset 5 0 ?h)\<lparr>cycle := 1, pc := 0x80000004\<rparr>"
  have i: "interp_step base_world (mach ?s) ?h d = Some (mach ?s, ?h', d, PollRead)" for d
    using two_harts_fetch [of "r_type 4 2 0 0 5 0x2b" Run 0 "\<lambda>_. 0"]
    by (simp add: interp_step_def a_hart_def execute_def exec_xdma_def Let_def charge_stall_def retire_def ask_env_def
        base_world_def hset_def)
  have h: "the_hart ?s 0 = ?h" by (simp add: a_hart_def)
  have c: "choose_hart ?s = Some 0" by (simp add: choose_hart_def Let_def runnable_def a_hart_def)
  have n: "never_polled ?s" by (auto simp: never_polled_def less_2_cases_iff a_hart_def)
  let ?t = "stepped 0 (mach ?s) ?h' no_dma ?s"
  have t: "sched_turn base_world ?s = Continue (after_step 0 PollRead ?t)"
    using i by (simp add: sched_turn_def c run_hart_def h Let_def stepped_def) (simp add: a_hart_def two_harts_def)
  have "never_polled (after_step 0 PollRead ?t)"
    by (rule sched_poll_never_blocks [OF two_harts_ok n _ _ _ t]) (simp_all add: a_hart_def)
  moreover have "cycle (the_hart (after_step 0 PollRead ?t) 0) = 1"
    by (simp add: after_step_def stepped_def two_harts_def a_hart_def hset_def)
  ultimately show ?thesis using t by blast
qed

end
