(* ===== verification/Fabric.thy ===== *)
theory Fabric
  imports Prelude
begin

text \<open>
  The memory fabric of memsim's cycle model (target/snitch_cluster/sim/src/cyc.hpp): 32 banks, one
  access of each per cycle, granted by priority and then round robin, and the DMA engine that takes a
  group of 8 banks from them. The contention counters, for diagnosis only, are left out.
\<close>

section \<open>Arbitration\<close>

definition NB :: nat where "NB = 32"

record bank_req =
  req_bank :: int
  req_tok :: int
  req_prio :: int

text \<open>The arrays of the code up to \<open>n_req\<close> are a list.\<close>

record fabric =
  dma_owned :: u32
  rr :: "u8 list"
  reqs :: "bank_req list"

definition fabric0 :: fabric where
  "fabric0 = \<lparr>dma_owned = 0, rr = replicate NB 0, reqs = []\<rparr>"

definition begin_cycle :: "u32 \<Rightarrow> fabric \<Rightarrow> fabric" where
  "begin_cycle dma_mask f = f\<lparr>dma_owned := dma_mask, reqs := []\<rparr>"

definition post :: "int \<Rightarrow> int \<Rightarrow> int \<Rightarrow> fabric \<Rightarrow> fabric" where
  "post bank tok prio f =
     (if length (reqs f) < 64
      then f\<lparr>reqs := reqs f @ [\<lparr>req_bank = bank AND (int NB - 1), req_tok = tok, req_prio = prio\<rparr>]\<rparr>
      else f)"

definition rr_rank :: "u8 \<Rightarrow> int \<Rightarrow> int" where
  "rr_rank r tok = (tok - uint r + 256) AND 0xff"

text \<open>The search for the winner of a bank: the best index so far, its rank and its priority.\<close>

type_synonym best = "nat option \<times> int \<times> int"

definition try_req :: "fabric \<Rightarrow> nat \<Rightarrow> nat \<Rightarrow> best \<Rightarrow> best" where
  "try_req f b i = (\<lambda>(best, best_rank, best_prio).
     let q = reqs f ! i; rank = rr_rank (rr f ! b) (req_tok q) in
     if req_bank q \<noteq> int b then (best, best_rank, best_prio)
     else if req_prio q > best_prio \<or> (req_prio q = best_prio \<and> rank < best_rank)
     then (Some i, rank, req_prio q)
     else (best, best_rank, best_prio))"

definition bank_winner :: "fabric \<Rightarrow> nat \<Rightarrow> nat option" where
  "bank_winner f b = fst (fold (try_req f b) [0..<length (reqs f)] (None, 2 ^ 30, - 1))"

definition arbitrate_bank :: "nat \<Rightarrow> fabric \<times> bool list \<Rightarrow> fabric \<times> bool list" where
  "arbitrate_bank b = (\<lambda>(f, granted).
     if bit (dma_owned f) b then (f, granted)
     else case bank_winner f b of
       None \<Rightarrow> (f, granted)
     | Some i \<Rightarrow> (f\<lparr>rr := (rr f)[b := word_of_int (req_tok (reqs f ! i) + 1)]\<rparr>, granted[i := True]))"

definition arbitrate :: "fabric \<Rightarrow> fabric \<times> bool list" where
  "arbitrate f = fold arbitrate_bank [0..<NB] (f, replicate (length (reqs f)) False)"

section \<open>The winner of a bank\<close>

text \<open>Request \<open>i\<close> is better than \<open>j\<close>: higher priority, then nearer in the round, then posted earlier.\<close>

definition better :: "fabric \<Rightarrow> nat \<Rightarrow> nat \<Rightarrow> nat \<Rightarrow> bool" where
  "better f b i j \<longleftrightarrow>
     (let q = reqs f ! i; p = reqs f ! j; k = rr_rank (rr f ! b) (req_tok q); l = rr_rank (rr f ! b) (req_tok p) in
      req_prio p < req_prio q \<or> req_prio p = req_prio q \<and> (k < l \<or> k = l \<and> i \<le> j))"

definition wins :: "fabric \<Rightarrow> nat \<Rightarrow> nat \<Rightarrow> bool" where
  "wins f n i \<longleftrightarrow> i < n \<and> (\<forall>j < n. req_bank (reqs f ! j) = req_bank (reqs f ! i) \<longrightarrow>
     better f (nat (req_bank (reqs f ! i))) i j)"

lemma rr_rank_mod: "rr_rank r t = (t - uint r) mod 256"
proof -
  have m: "(0xff :: int) = mask 8" by (simp add: mask_eq_exp_minus_1)
  show ?thesis by (simp only: rr_rank_def m take_bit_eq_mask [symmetric] take_bit_eq_mod) simp
qed

lemma rr_rank_bounds: "0 \<le> rr_rank r t" "rr_rank r t < 256"
  by (simp_all add: rr_rank_mod)

text \<open>The state of the search after the first \<open>n\<close> requests.\<close>

definition search_inv :: "fabric \<Rightarrow> nat \<Rightarrow> nat \<Rightarrow> best \<Rightarrow> bool" where
  "search_inv f b n = (\<lambda>(best, rank, prio). case best of
     None \<Rightarrow> rank = 2 ^ 30 \<and> prio = - 1 \<and> (\<forall>j < n. req_bank (reqs f ! j) \<noteq> int b)
   | Some i \<Rightarrow> i < n \<and> req_bank (reqs f ! i) = int b \<and> prio = req_prio (reqs f ! i) \<and>
       rank = rr_rank (rr f ! b) (req_tok (reqs f ! i)) \<and>
       (\<forall>j < n. req_bank (reqs f ! j) = int b \<longrightarrow> better f b i j))"

lemma search_step:
  assumes "search_inv f b n s" and "0 \<le> req_prio (reqs f ! n)"
  shows "search_inv f b (Suc n) (try_req f b n s)"
proof -
  obtain best rank prio where s: "s = (best, rank, prio)" by (metis prod_cases3)
  show ?thesis
    using assms rr_rank_bounds [of "rr f ! b" "req_tok (reqs f ! n)"]
    by (cases best) (auto simp: s search_inv_def try_req_def Let_def better_def less_Suc_eq)
qed

lemma search_done:
  assumes "\<And>i. i < n \<Longrightarrow> 0 \<le> req_prio (reqs f ! i)"
  shows "search_inv f b n (fold (try_req f b) [0..<n] (None, 2 ^ 30, - 1))"
  using assms by (induction n) (simp_all add: search_step, simp add: search_inv_def)

lemma better_antisym: "better f b i j \<Longrightarrow> better f b j i \<Longrightarrow> i = j"
  by (auto simp: better_def Let_def)

lemma better_trans: "better f b i j \<Longrightarrow> better f b j k \<Longrightarrow> better f b i k"
  by (auto simp: better_def Let_def)

definition fabric_ok :: "fabric \<Rightarrow> bool" where
  "fabric_ok f \<longleftrightarrow> length (rr f) = NB \<and> length (reqs f) \<le> 64 \<and>
     (\<forall>q \<in> set (reqs f). 0 \<le> req_bank q \<and> req_bank q < int NB \<and> 0 \<le> req_prio q)"

lemma fabric_ok_nth:
  assumes "fabric_ok f" "i < length (reqs f)"
  shows "0 \<le> req_bank (reqs f ! i)" "req_bank (reqs f ! i) < int NB" "0 \<le> req_prio (reqs f ! i)"
  using assms by (auto simp: fabric_ok_def)

lemma bank_winner_iff:
  assumes "fabric_ok f"
  shows "bank_winner f b = Some i \<longleftrightarrow> wins f (length (reqs f)) i \<and> req_bank (reqs f ! i) = int b"
proof -
  let ?s = "fold (try_req f b) [0..<length (reqs f)] (None, 2 ^ 30, - 1)"
  have inv: "search_inv f b (length (reqs f)) ?s" by (rule search_done) (rule fabric_ok_nth [OF assms])
  show ?thesis
  proof (cases "fst ?s")
    case None
    then show ?thesis using inv by (auto simp: bank_winner_def search_inv_def wins_def split: prod.splits)
  next
    case (Some j)
    then have j: "wins f (length (reqs f)) j" "req_bank (reqs f ! j) = int b"
      using inv by (auto simp: search_inv_def wins_def split: prod.splits)
    have "i = j" if "wins f (length (reqs f)) i" "req_bank (reqs f ! i) = int b"
      using that j better_antisym [of f b i j] by (auto simp: wins_def)
    then show ?thesis using j Some by (auto simp: bank_winner_def)
  qed
qed

lemma bank_winner_cong: "reqs g = reqs f \<Longrightarrow> rr g ! b = rr f ! b \<Longrightarrow> bank_winner g b = bank_winner f b"
  unfolding bank_winner_def try_req_def by simp

lemma arbitrate_fold:
  assumes "n \<le> NB" "length (rr f) = NB"
  shows "case fold arbitrate_bank [0..<n] (f, replicate k False) of (g, granted) \<Rightarrow>
    reqs g = reqs f \<and> dma_owned g = dma_owned f \<and> length (rr g) = NB \<and> length granted = k \<and>
    (\<forall>b < NB. rr g ! b = (case bank_winner f b of
       Some i \<Rightarrow> if b < n \<and> \<not> bit (dma_owned f) b then word_of_int (req_tok (reqs f ! i) + 1) else rr f ! b
     | None \<Rightarrow> rr f ! b)) \<and>
    (\<forall>i < k. granted ! i \<longleftrightarrow> (\<exists>b < n. \<not> bit (dma_owned f) b \<and> bank_winner f b = Some i))"
  using assms(1)
proof (induction n)
  case (Suc n)
  obtain g granted where g: "fold arbitrate_bank [0..<n] (f, replicate k False) = (g, granted)" by (metis prod.exhaust)
  note IH = Suc.IH [OF Suc_leD [OF Suc.prems], unfolded g prod.case]
  have n: "n < NB" using Suc.prems by simp
  then have w: "bank_winner g n = bank_winner f n"
    using IH by (intro bank_winner_cong) (auto split: option.split)
  have step: "fold arbitrate_bank [0..<Suc n] (f, replicate k False) = arbitrate_bank n (g, granted)"
    by (simp add: g)
  show ?case
  proof (cases "bit (dma_owned f) n \<or> bank_winner f n = None")
    case True
    then have "arbitrate_bank n (g, granted) = (g, granted)" using IH w by (auto simp: arbitrate_bank_def)
    then show ?thesis unfolding step using IH True by (auto simp: less_Suc_eq split: option.splits)
  next
    case False
    then obtain i where i: "bank_winner f n = Some i" "\<not> bit (dma_owned f) n" by auto
    then have "arbitrate_bank n (g, granted) =
        (g\<lparr>rr := (rr g)[n := word_of_int (req_tok (reqs f ! i) + 1)]\<rparr>, granted[i := True])"
      using IH w by (simp add: arbitrate_bank_def)
    moreover have "granted[i := True] ! j \<longleftrightarrow> j = i \<or> granted ! j" if "j < length granted" for j
      using that by (cases "j = i") simp_all
    ultimately show ?thesis
      unfolding step using IH i n by (auto simp: nth_list_update less_Suc_eq split: option.splits)
  qed
qed (simp add: assms(2) split: option.split)


lemma arbitrate_result:
  assumes "fabric_ok f" and "arbitrate f = (g, granted)"
  shows "reqs g = reqs f" "length (rr g) = NB" "length granted = length (reqs f)"
    and "i < length (reqs f) \<Longrightarrow> granted ! i \<longleftrightarrow> \<not> bit (dma_owned f) (nat (req_bank (reqs f ! i))) \<and> wins f (length (reqs f)) i"
    and "b < NB \<Longrightarrow> rr g ! b = (case bank_winner f b of
       Some i \<Rightarrow> if \<not> bit (dma_owned f) b then word_of_int (req_tok (reqs f ! i) + 1) else rr f ! b
     | None \<Rightarrow> rr f ! b)"
proof -
  have l: "length (rr f) = NB" using assms(1) by (simp add: fabric_ok_def)
  note r = arbitrate_fold [OF order_refl l, of "length (reqs f)", folded arbitrate_def, unfolded assms(2) prod.case]
  show "reqs g = reqs f" "length (rr g) = NB" "length granted = length (reqs f)" using r by simp_all
  show "b < NB \<Longrightarrow> rr g ! b = (case bank_winner f b of
       Some i \<Rightarrow> if \<not> bit (dma_owned f) b then word_of_int (req_tok (reqs f ! i) + 1) else rr f ! b
     | None \<Rightarrow> rr f ! b)" using r by (auto split: option.split)
  assume i: "i < length (reqs f)"
  obtain b where "req_bank (reqs f ! i) = int b" "b < NB"
    using fabric_ok_nth(1,2) [OF assms(1) i] by (metis nonneg_int_cases of_nat_less_iff)
  then show "granted ! i \<longleftrightarrow> \<not> bit (dma_owned f) (nat (req_bank (reqs f ! i))) \<and> wins f (length (reqs f)) i"
    using r i bank_winner_iff [OF assms(1)] by auto
qed

lemma bank_has_winner:
  assumes "fabric_ok f" "i < length (reqs f)"
  obtains k where "bank_winner f (nat (req_bank (reqs f ! i))) = Some k"
proof (cases "bank_winner f (nat (req_bank (reqs f ! i)))")
  case None
  let ?b = "nat (req_bank (reqs f ! i))" and ?n = "length (reqs f)"
  have "fst (fold (try_req f ?b) [0..<?n] (None, 2 ^ 30, - 1)) = None" using None by (simp add: bank_winner_def)
  moreover have "search_inv f ?b ?n (fold (try_req f ?b) [0..<?n] (None, 2 ^ 30, - 1))"
    by (rule search_done) (rule fabric_ok_nth [OF assms(1)])
  ultimately have False using assms(2) fabric_ok_nth(1) [OF assms] by (auto simp: search_inv_def split: prod.splits)
  then show ?thesis ..
qed (rule that)

text \<open>
  C24: arbitration: exactly the best request of each bank is granted, that is one request per bank, the one of
  the highest priority and among these the next in the round, and none of a bank that the DMA engine owns.
\<close>

theorem arbitrate_one_winner:
  assumes "fabric_ok f" and "arbitrate f = (g, granted)" and "i < length (reqs f)" and "j < length (reqs f)"
    and "req_bank (reqs f ! i) = req_bank (reqs f ! j)"
  shows "(granted ! i \<longrightarrow> \<not> bit (dma_owned f) (nat (req_bank (reqs f ! i))) \<and> better f (nat (req_bank (reqs f ! i))) i j) \<and>
    (granted ! i \<longrightarrow> granted ! j \<longrightarrow> i = j) \<and>
    (\<not> bit (dma_owned f) (nat (req_bank (reqs f ! i))) \<longrightarrow>
      (\<exists>k < length (reqs f). req_bank (reqs f ! k) = req_bank (reqs f ! i) \<and> granted ! k))"
proof -
  let ?b = "nat (req_bank (reqs f ! i))" and ?n = "length (reqs f)"
  note r = arbitrate_result [OF assms(1,2)]
  have b: "int ?b = req_bank (reqs f ! i)" using fabric_ok_nth(1) [OF assms(1,3)] by simp
  obtain k where "bank_winner f ?b = Some k" by (rule bank_has_winner [OF assms(1,3)])
  then have k: "wins f ?n k" "req_bank (reqs f ! k) = req_bank (reqs f ! i)"
    using bank_winner_iff [OF assms(1)] b by auto
  then have "k < ?n" by (simp add: wins_def)
  then have "\<not> bit (dma_owned f) ?b \<longrightarrow> (\<exists>k < ?n. req_bank (reqs f ! k) = req_bank (reqs f ! i) \<and> granted ! k)"
    using r(4) k by auto
  moreover have "granted ! i \<longrightarrow> granted ! j \<longrightarrow> i = j"
    using r(4) assms(3-5) better_antisym [of f ?b i j] by (auto simp: wins_def)
  ultimately show ?thesis using r(4) assms(3-5) by (auto simp: wins_def)
qed

theorem arbitrate_one_winner_witness:
  "snd (arbitrate (post 1 3 0 (post 1 2 0 fabric0))) ! 0 \<noteq> snd (arbitrate (post 1 3 0 (post 1 2 0 fabric0))) ! 1"
proof -
  let ?q = "\<lambda>t. \<lparr>req_bank = 1, req_tok = t, req_prio = 0\<rparr>"
  have f: "post 1 3 0 (post 1 2 0 fabric0) = fabric0\<lparr>reqs := [?q 2, ?q 3]\<rparr>"
    by (simp add: post_def fabric0_def NB_def)
  let ?f = "fabric0\<lparr>reqs := [?q 2, ?q 3]\<rparr>"
  have ok: "fabric_ok ?f" by (simp add: fabric_ok_def fabric0_def NB_def)
  obtain g granted where a: "arbitrate ?f = (g, granted)" by (metis prod.exhaust)
  have "\<not> bit (dma_owned ?f) b" for b by (simp add: fabric0_def)
  with arbitrate_one_winner [OF ok a, of 0 1] have "granted ! 0 \<noteq> granted ! 1"
    by (auto simp: less_Suc_eq)
  then show ?thesis by (simp add: f a)
qed

section \<open>Fairness\<close>

text \<open>One cycle: the mask of the DMA engine, then the posts of the streamers.\<close>

type_synonym cycle_posts = "u32 \<times> (int \<times> int \<times> int) list"

definition post_all :: "cycle_posts \<Rightarrow> fabric \<Rightarrow> fabric" where
  "post_all c f = fold (\<lambda>(b, t, p). post b t p) (snd c) (begin_cycle (fst c) f)"

fun granted_toks :: "cycle_posts list \<Rightarrow> fabric \<Rightarrow> int set list" where
  "granted_toks [] f = []"
| "granted_toks (c # cs) f =
     (let f1 = post_all c f; (g, granted) = arbitrate f1
      in {req_tok (reqs f1 ! i) | i. i < length (reqs f1) \<and> granted ! i} # granted_toks cs g)"

text \<open>
  Token \<open>t\<close> asks for bank \<open>b\<close> with the highest priority, and can be told from the other tokens that ask for it.
\<close>

definition contends :: "int \<Rightarrow> int \<Rightarrow> cycle_posts \<Rightarrow> bool" where
  "contends b t c \<longleftrightarrow> length (snd c) \<le> 64 \<and> \<not> bit (fst c) (nat b) \<and>
     (\<exists>p. (b, t, p) \<in> set (snd c) \<and>
       (\<forall>(b', t', p') \<in> set (snd c). 0 \<le> b' \<and> b' < int NB \<and> 0 \<le> p' \<and>
          (b' = b \<longrightarrow> p' \<le> p \<and> (t' mod 256 = t mod 256 \<longrightarrow> t' = t))))"

lemma fold_post:
  "length (reqs f) + length ps \<le> 64 \<Longrightarrow> fold (\<lambda>(b, t, p). post b t p) ps f =
    f\<lparr>reqs := reqs f @ map (\<lambda>(b, t, p). \<lparr>req_bank = b AND (int NB - 1), req_tok = t, req_prio = p\<rparr>) ps\<rparr>"
proof (induction ps arbitrary: f)
  case (Cons x ps)
  then show ?case by (cases x) (simp add: post_def)
qed simp

lemma bank_mask: "0 \<le> b \<Longrightarrow> b < int NB \<Longrightarrow> b AND (int NB - 1) = b"
proof -
  have m: "int NB - 1 = mask 5" by (simp add: NB_def mask_eq_exp_minus_1)
  show "0 \<le> b \<Longrightarrow> b < int NB \<Longrightarrow> b AND (int NB - 1) = b"
    unfolding m by (simp add: NB_def flip: take_bit_eq_mask) (simp add: take_bit_int_eq_self)
qed

lemma post_all_contends:
  assumes "contends b t c" "length (rr f) = NB"
  shows "reqs (post_all c f) = map (\<lambda>(b, t, p). \<lparr>req_bank = b, req_tok = t, req_prio = p\<rparr>) (snd c)"
    "rr (post_all c f) = rr f" "dma_owned (post_all c f) = fst c" "fabric_ok (post_all c f)"
proof -
  have f: "post_all c f = (begin_cycle (fst c) f)\<lparr>reqs :=
      map (\<lambda>(b, t, p). \<lparr>req_bank = b AND (int NB - 1), req_tok = t, req_prio = p\<rparr>) (snd c)\<rparr>"
    using assms(1) by (simp add: post_all_def fold_post begin_cycle_def contends_def)
  show r: "reqs (post_all c f) = map (\<lambda>(b, t, p). \<lparr>req_bank = b, req_tok = t, req_prio = p\<rparr>) (snd c)"
    using assms(1) by (auto simp: f contends_def bank_mask)
  show "rr (post_all c f) = rr f" "dma_owned (post_all c f) = fst c" by (simp_all add: f begin_cycle_def)
  then show "fabric_ok (post_all c f)"
    using assms unfolding fabric_ok_def r by (fastforce simp: contends_def)
qed

lemma next_rank:
  assumes "rr_rank r w < rr_rank r t"
  shows "rr_rank (word_of_int (w + 1)) t = rr_rank r t - rr_rank r w - 1"
proof -
  have u: "uint (word_of_int (w + 1) :: u8) = (w + 1) mod 256" by (simp only: uint_word_of_int) simp
  have "rr_rank (word_of_int (w + 1)) t = (t - (w + 1)) mod 256"
    unfolding rr_rank_mod u by (simp add: mod_simps)
  also have "\<dots> = ((t - uint r) - (w - uint r) - 1) mod 256" by (simp add: algebra_simps)
  also have "\<dots> = (((t - uint r) - (w - uint r)) mod 256 - 1) mod 256" by (simp only: mod_diff_left_eq)
  also have "\<dots> = ((rr_rank r t - rr_rank r w) mod 256 - 1) mod 256" by (simp only: rr_rank_mod mod_diff_eq)
  also have "\<dots> = (rr_rank r t - rr_rank r w - 1) mod 256" by (simp only: mod_diff_left_eq)
  also have "\<dots> = rr_rank r t - rr_rank r w - 1"
    using assms rr_rank_bounds(2) [of r t] rr_rank_bounds(1) [of r w] by simp
  finally show ?thesis .
qed

lemma arbiter_fair_aux:
  assumes "length (rr f) = NB" "0 \<le> b" "b < int NB" "\<forall>c \<in> set cs. contends b t c" "rr_rank (rr f ! nat b) t < int (length cs)"
  shows "\<exists>k < length cs. t \<in> granted_toks cs f ! k"
  using assms(1,4,5)
proof (induction cs arbitrary: f)
  case Nil
  then show ?case using rr_rank_bounds(1) [of "rr f ! nat b" t] by simp
next
  case (Cons c cs)
  let ?f = "post_all c f"
  obtain g granted where a: "arbitrate ?f = (g, granted)" by (metis prod.exhaust)
  have c: "contends b t c" using Cons.prems by simp
  note p = post_all_contends [OF c Cons.prems(1)]
  note r = arbitrate_result [OF p(4) a]
  obtain q where q: "(b, t, q) \<in> set (snd c)"
    and best: "\<forall>(b', t', p') \<in> set (snd c). 0 \<le> b' \<and> b' < int NB \<and> 0 \<le> p' \<and>
      (b' = b \<longrightarrow> p' \<le> q \<and> (t' mod 256 = t mod 256 \<longrightarrow> t' = t))"
    using c by (auto simp: contends_def)
  from q obtain i where i: "i < length (snd c)" "snd c ! i = (b, t, q)" by (metis in_set_conv_nth)
  have n: "length (reqs ?f) = length (snd c)" "req_bank (reqs ?f ! i) = b" "req_tok (reqs ?f ! i) = t"
    "req_prio (reqs ?f ! i) = q" using i p(1) by simp_all
  have g0: "granted_toks (c # cs) f ! 0 = {req_tok (reqs ?f ! i) | i. i < length (snd c) \<and> granted ! i}"
    using a n(1) by (simp add: Let_def)
  show ?case
  proof (cases "granted ! i")
    case True
    then have "t \<in> granted_toks (c # cs) f ! 0" unfolding g0 using n i(1) by blast
    then show ?thesis by auto
  next
    case False
    obtain k where k: "bank_winner ?f (nat b) = Some k" using bank_has_winner [OF p(4), of i] i(1) n by auto
    then have w: "wins ?f (length (snd c)) k" "req_bank (reqs ?f ! k) = b"
      using bank_winner_iff [OF p(4), of "nat b" k] assms(2) n(1) by simp_all
    then have kl: "k < length (snd c)" by (simp add: wins_def)
    obtain tw pw where tw: "snd c ! k = (b, tw, pw)" using w(2) kl p(1) by (cases "snd c ! k") auto
    have tk: "req_tok (reqs ?f ! k) = tw" "req_prio (reqs ?f ! k) = pw" using kl p(1) tw by simp_all
    have own: "\<not> bit (dma_owned ?f) (nat b)" using c p(3) by (simp add: contends_def)
    have "granted ! k" using r(4) [of k] kl n(1) w own by simp
    then have gk: "tw \<in> granted_toks (c # cs) f ! 0" unfolding g0 using kl tk by blast
    show ?thesis
    proof (cases "tw = t")
      case True
      then show ?thesis using gk by auto
    next
      case False
      have "(b, tw, pw) \<in> set (snd c)" using tw kl by (metis nth_mem)
      then have c': "pw \<le> q \<and> tw mod 256 \<noteq> t mod 256"
        using best False by auto
      let ?r = "rr f ! nat b"
      have "better ?f (nat b) k i" using w i(1) n(2) unfolding wins_def by simp
      then have le: "rr_rank ?r tw \<le> rr_rank ?r t" using c' tk n(3,4) p(2) by (auto simp: better_def Let_def)
      have "rr_rank ?r tw \<noteq> rr_rank ?r t"
      proof
        assume "rr_rank ?r tw = rr_rank ?r t"
        then have "(tw - uint ?r + uint ?r) mod 256 = (t - uint ?r + uint ?r) mod 256"
          unfolding rr_rank_mod by (rule mod_add_cong) simp
        then show False using c' by simp
      qed
      then have nr: "rr_rank (word_of_int (tw + 1)) t = rr_rank ?r t - rr_rank ?r tw - 1" using le by (intro next_rank) simp
      have "rr g ! nat b = word_of_int (tw + 1)" using r(5) [of "nat b"] k own tk assms(2,3) by (simp add: nat_less_iff)
      then have "rr_rank (rr g ! nat b) t < int (length cs)"
        using nr Cons.prems(3) rr_rank_bounds(1) [of ?r tw] by simp
      then obtain k' where "k' < length cs" "t \<in> granted_toks cs g ! k'"
        using Cons.IH [OF r(2)] Cons.prems(2) by auto
      then show ?thesis using a by (intro exI [of _ "Suc k'"]) (simp add: Let_def)
    qed
  qed
qed

text \<open>
  C25: the arbiter is fair: a requester that asks for the same bank in 256 consecutive cycles, each time with
  the highest priority asked for there, is granted it in one of them, whoever else asks and however the others change,
  as long as the DMA engine does not own the bank and no two tokens agree in their low 8 bits.
\<close>

theorem arbiter_fair:
  assumes "length (rr f) = NB" and "0 \<le> b" and "b < int NB" and "length cs = 256" and "\<forall>c \<in> set cs. contends b t c"
  shows "\<exists>k < 256. t \<in> granted_toks cs f ! k"
  using arbiter_fair_aux [OF assms(1-3,5)] assms(4) rr_rank_bounds(2) [of "rr f ! nat b" t] by simp

theorem arbiter_fair_witness:
  "\<exists>k. k < 256 \<and> 3 \<in> granted_toks (replicate 256 (0, [(1, 2, 0), (1, 3, 0)])) fabric0 ! k"
  by (rule arbiter_fair [where b = 1]) (auto simp: fabric0_def contends_def NB_def)



section \<open>The DMA engine\<close>

record xfer =
  tcdm_addr :: u32
  beats :: u32
  period :: int
  at_rel :: u64

record dma_engine =
  xfers :: "xfer list"
  head :: nat
  done_cnt :: u32
  dma_active :: bool
  dma_addr :: u32
  beats_left :: u32
  dma_period :: int
  dma_timer :: int
  beat_period_l3 :: int
  beat_period_tcdm :: int

definition dma_clear :: "dma_engine \<Rightarrow> dma_engine" where
  "dma_clear d = d\<lparr>xfers := [], head := 0, done_cnt := 0, dma_active := False\<rparr>"

definition dma_rewind :: "dma_engine \<Rightarrow> dma_engine" where
  "dma_rewind d = d\<lparr>head := 0, done_cnt := 0, dma_active := False\<rparr>"

definition dma_enqueue :: "u32 \<Rightarrow> u32 \<Rightarrow> bool \<Rightarrow> u64 \<Rightarrow> dma_engine \<Rightarrow> dma_engine" where
  "dma_enqueue addr bytes l3 at d =
     (let n = (bytes + 63) div 64 in
      if n = 0 then d
      else d\<lparr>xfers := xfers d @ [\<lparr>tcdm_addr = addr, beats = n,
        period = (if l3 then beat_period_l3 d else beat_period_tcdm d), at_rel = at\<rparr>]\<rparr>)"

definition dma_engine_busy :: "dma_engine \<Rightarrow> bool" where
  "dma_engine_busy d \<longleftrightarrow> dma_active d \<or> head d < length (xfers d)"

text \<open>One superbank is 8 banks.\<close>

definition superbank :: "u32 \<Rightarrow> u32" where
  "superbank addr = push_bit (unat (drop_bit 6 addr AND 3) * 8) 0xFF"

definition dma_launch :: "dma_engine \<Rightarrow> dma_engine" where
  "dma_launch d = (let x = xfers d ! head d in
     d\<lparr>head := head d + 1, dma_active := True, dma_addr := tcdm_addr x, beats_left := beats x,
       dma_period := period x, dma_timer := period x\<rparr>)"

definition dma_beat :: "dma_engine \<Rightarrow> u32 \<times> dma_engine" where
  "dma_beat d =
     (let mask = (if dma_period d > 0 \<and> dma_timer d = dma_period d then superbank (dma_addr d) else 0);
          d1 = d\<lparr>dma_timer := dma_timer d - 1\<rparr>
      in (mask,
          if dma_timer d1 \<le> 0
          then let d2 = d1\<lparr>dma_addr := dma_addr d1 + 64, beats_left := beats_left d1 - 1, dma_timer := dma_period d1\<rparr>
               in if beats_left d2 = 0 then d2\<lparr>dma_active := False, done_cnt := done_cnt d2 + 1\<rparr> else d2
          else d1))"

definition dma_step :: "u64 \<Rightarrow> dma_engine \<Rightarrow> u32 \<times> dma_engine" where
  "dma_step cyc d =
     (if \<not> dma_active d
      then if head d \<ge> length (xfers d) \<or> at_rel (xfers d ! head d) > cyc then (0, d)
           else dma_beat (dma_launch d)
      else dma_beat d)"

text \<open>\<open>n\<close> cycles from cycle \<open>c\<close>: the masks, and the engine after them.\<close>

primrec dma_cycles :: "nat \<Rightarrow> u64 \<Rightarrow> dma_engine \<Rightarrow> u32 list \<times> dma_engine" where
  "dma_cycles 0 c d = ([], d)"
| "dma_cycles (Suc n) c d =
     (let (m, d1) = dma_step c d; (ms, d2) = dma_cycles n (c + 1) d1 in (m # ms, d2))"

lemma dma_cycles_add:
  assumes "dma_cycles n c d = (ms, d1)" and "dma_cycles k (c + word_of_nat n) d1 = (ms', d2)"
  shows "dma_cycles (n + k) c d = (ms @ ms', d2)"
  using assms by (induction n arbitrary: c d ms) (auto simp: add.assoc split: prod.splits)

text \<open>The rest of a beat: nothing is shown to the banks.\<close>

lemma beat_rest:
  assumes "dma_active d" "0 < k" "dma_timer d = int k" "dma_timer d < dma_period d"
  shows "dma_cycles k c d = (replicate k 0, snd (dma_beat (d\<lparr>dma_timer := 1\<rparr>)))"
  using assms
proof (induction k arbitrary: c d)
  case (Suc k)
  show ?case
  proof (cases "k = 0")
    case True
    then have "d\<lparr>dma_timer := 1\<rparr> = d" using Suc.prems by simp
    then show ?thesis using Suc.prems True by (simp add: dma_step_def dma_beat_def Let_def)
  next
    case False
    then have "dma_step c d = (0, d\<lparr>dma_timer := int k\<rparr>)"
      using Suc.prems by (simp add: dma_step_def dma_beat_def Let_def)
    then show ?thesis using Suc.IH [of "d\<lparr>dma_timer := int k\<rparr>" "c + 1"] Suc.prems False by simp
  qed
qed simp

definition beat_masks :: "u32 \<Rightarrow> nat \<Rightarrow> u32 list" where
  "beat_masks addr n = superbank addr # replicate (n - 1) 0"

definition next_beat :: "dma_engine \<Rightarrow> dma_engine" where
  "next_beat d = d\<lparr>dma_addr := dma_addr d + 64, beats_left := beats_left d - 1, dma_timer := dma_period d,
     dma_active := (beats_left d \<noteq> 1), done_cnt := done_cnt d + of_bool (beats_left d = 1)\<rparr>"

lemma whole_beat:
  assumes "dma_active d" "0 < n" "dma_timer d = int n" "dma_period d = int n"
  shows "dma_cycles n c d = (beat_masks (dma_addr d) n, next_beat d)"
proof -
  obtain k where k: "n = Suc k" using assms(2) by (cases n) simp_all
  have b: "beats_left d - 1 = 0 \<longleftrightarrow> beats_left d = 1" by (rule right_minus_eq)
  show ?thesis
  proof (cases "k = 0")
    case True
    then show ?thesis
      using assms b by (cases d) (simp add: k dma_step_def dma_beat_def Let_def beat_masks_def next_beat_def)
  next
    case False
    then have "dma_step c d = (superbank (dma_addr d), d\<lparr>dma_timer := int k\<rparr>)"
      using assms by (simp add: k dma_step_def dma_beat_def Let_def)
    moreover have "dma_cycles k (c + 1) (d\<lparr>dma_timer := int k\<rparr>) = (replicate k 0, next_beat d)"
      using beat_rest [of "d\<lparr>dma_timer := int k\<rparr>" k "c + 1"] False assms b
      by (cases d) (simp add: k dma_beat_def Let_def next_beat_def)
    ultimately show ?thesis by (simp add: k beat_masks_def)
  qed
qed

primrec xfer_masks :: "u32 \<Rightarrow> nat \<Rightarrow> nat \<Rightarrow> u32 list" where
  "xfer_masks addr n 0 = []"
| "xfer_masks addr n (Suc k) = beat_masks addr n @ xfer_masks (addr + 64) n k"

definition after_xfer :: "nat \<Rightarrow> dma_engine \<Rightarrow> dma_engine" where
  "after_xfer k d = d\<lparr>dma_addr := dma_addr d + 64 * word_of_nat k, beats_left := 0, dma_timer := dma_period d,
     dma_active := False, done_cnt := done_cnt d + 1\<rparr>"

lemma whole_xfer:
  assumes "dma_active d" "0 < n" "dma_timer d = int n" "dma_period d = int n"
    and "0 < k" "k < 2 ^ 32" "beats_left d = word_of_nat k"
  shows "dma_cycles (k * n) c d = (xfer_masks (dma_addr d) n k, after_xfer k d)"
  using assms(1,3-)
proof (induction k arbitrary: c d)
  case (Suc k)
  note first = whole_beat [OF Suc.prems(1) assms(2) Suc.prems(2,3)]
  show ?case
  proof (cases "k = 0")
    case True
    then show ?thesis
      using first Suc.prems by (simp add: next_beat_def after_xfer_def)
  next
    case False
    have "unat (word_of_nat (Suc k) :: u32) = Suc k" by (rule unat_of_nat_small) (use Suc.prems(5) in simp)
    then have "unat (beats_left d) = Suc k" by (simp only: Suc.prems(6))
    then have b: "beats_left d \<noteq> 1" using False by auto
    have "dma_cycles (k * n) (c + word_of_nat n) (next_beat d) =
        (xfer_masks (dma_addr (next_beat d)) n k, after_xfer k (next_beat d))"
      by (rule Suc.IH) (use Suc.prems False b in \<open>simp_all add: next_beat_def\<close>)
    from dma_cycles_add [OF first this] show ?thesis
      using b by (cases d) (simp add: next_beat_def after_xfer_def algebra_simps)
  qed
qed simp

definition xfer_ok :: "u64 \<Rightarrow> xfer \<Rightarrow> bool" where
  "xfer_ok c x \<longleftrightarrow> 0 < period x \<and> beats x \<noteq> 0 \<and> at_rel x \<le> c"

definition xfer_cycles :: "xfer \<Rightarrow> nat" where
  "xfer_cycles x = unat (beats x) * nat (period x)"

lemma launched_xfer:
  assumes "\<not> dma_active d" "head d < length (xfers d)" "xfer_ok c (xfers d ! head d)"
  shows "dma_cycles (xfer_cycles (xfers d ! head d)) c d =
    (xfer_masks (tcdm_addr (xfers d ! head d)) (nat (period (xfers d ! head d))) (unat (beats (xfers d ! head d))),
     after_xfer (unat (beats (xfers d ! head d))) (dma_launch d))"
proof -
  let ?x = "xfers d ! head d"
  have x: "0 < nat (period ?x)" "0 < unat (beats ?x)" using assms(3) by (simp_all add: xfer_ok_def unat_gt_0)
  then obtain n where n: "xfer_cycles ?x = Suc n" unfolding xfer_cycles_def by (metis nat_0_less_mult_iff gr0_implies_Suc)
  have "(c < at_rel ?x) = False" using assms(3) by (auto simp: xfer_ok_def)
  then have "dma_step c d = dma_step c (dma_launch d)"
    using assms(1,2) by (simp add: dma_step_def dma_launch_def Let_def)
  then have "dma_cycles (Suc n) c d = dma_cycles (Suc n) c (dma_launch d)" by simp
  moreover have "dma_cycles (unat (beats ?x) * nat (period ?x)) c (dma_launch d) =
      (xfer_masks (dma_addr (dma_launch d)) (nat (period ?x)) (unat (beats ?x)), after_xfer (unat (beats ?x)) (dma_launch d))"
    by (rule whole_xfer) (use x in \<open>simp_all add: dma_launch_def Let_def unat_u32_bound\<close>)
  ultimately show ?thesis using n by (simp add: xfer_cycles_def dma_launch_def Let_def)
qed

lemma xfer_ok_later:
  assumes "xfer_ok c x" "unat c + n < 2 ^ 64"
  shows "xfer_ok (c + word_of_nat n) x"
proof -
  have "unat (word_of_nat n :: u64) = n" using assms(2) by (intro unat_of_nat_small) simp
  then have "unat (c + word_of_nat n) = unat c + n" using assms(2) by (simp add: unat_add_small)
  then have "c \<le> c + word_of_nat n" by (simp add: word_le_nat_alt)
  then show ?thesis using assms(1) by (auto simp: xfer_ok_def)
qed

text \<open>
  The DMA engine drains its queue: transfers that are due are moved one after the other, each 64-byte
  beat of them takes the period of its transfer, shows its superbank to the banks in its first cycle and
  nothing in the others, and after exactly these cycles the engine is idle and has counted every transfer.
\<close>

theorem dma_engine_drains:
  assumes "\<not> dma_active d" and "\<forall>x \<in> set (drop (head d) (xfers d)). xfer_ok c x"
    and "unat c + sum_list (map xfer_cycles (drop (head d) (xfers d))) < 2 ^ 64"
  shows "\<exists>d'. dma_cycles (sum_list (map xfer_cycles (drop (head d) (xfers d)))) c d =
      (concat (map (\<lambda>x. xfer_masks (tcdm_addr x) (nat (period x)) (unat (beats x))) (drop (head d) (xfers d))), d') \<and>
    \<not> dma_engine_busy d' \<and> done_cnt d' = done_cnt d + word_of_nat (length (drop (head d) (xfers d)))"
  using assms
proof (induction "drop (head d) (xfers d)" arbitrary: c d)
  case Nil
  then show ?case by (simp add: dma_engine_busy_def)
next
  case (Cons x xs)
  have h: "head d < length (xfers d)" "xfers d ! head d = x" "drop (Suc (head d)) (xfers d) = xs"
    using Cons.hyps(2) by (metis drop_eq_Nil linorder_not_less list.distinct(1))
      (metis Cons.hyps(2) nth_via_drop, metis Cons.hyps(2) drop_Suc tl_drop list.sel(3))
  let ?d = "after_xfer (unat (beats x)) (dma_launch d)" and ?c = "c + word_of_nat (xfer_cycles x)"
  have x: "xfer_ok c x" using Cons.prems(2) Cons.hyps(2) by (metis list.set_intros(1))
  note first = launched_xfer [OF Cons.prems(1) h(1), unfolded h(2), OF x]
  have d: "head ?d = Suc (head d)" "xfers ?d = xfers d" "\<not> dma_active ?d" "done_cnt ?d = done_cnt d + 1"
    by (simp_all add: after_xfer_def dma_launch_def Let_def)
  have n: "unat c + xfer_cycles x + sum_list (map xfer_cycles xs) < 2 ^ 64"
    using Cons.prems(3) unfolding Cons.hyps(2) [symmetric] by (simp add: add.assoc)
  have "unat (word_of_nat (xfer_cycles x) :: u64) = xfer_cycles x" using n by (intro unat_of_nat_small) simp
  then have c: "unat ?c = unat c + xfer_cycles x" using n by (simp add: unat_add_small)
  have ok: "\<forall>x \<in> set (drop (head ?d) (xfers ?d)). xfer_ok ?c x"
    using Cons.prems(2) n unfolding Cons.hyps(2) [symmetric] d h(3) by (auto intro!: xfer_ok_later)
  obtain d' where d': "dma_cycles (sum_list (map xfer_cycles xs)) ?c ?d =
      (concat (map (\<lambda>x. xfer_masks (tcdm_addr x) (nat (period x)) (unat (beats x))) xs), d')"
    "\<not> dma_engine_busy d'" "done_cnt d' = done_cnt ?d + word_of_nat (length xs)"
    using Cons.hyps(1) [of ?d ?c] d(3) ok n c unfolding d h(3) by auto
  show ?case
    unfolding Cons.hyps(2) [symmetric] using dma_cycles_add [OF first d'(1)] d'(2,3) d(4) by simp
qed

definition idle_engine :: dma_engine where
  "idle_engine = \<lparr>xfers = [], head = 0, done_cnt = 0, dma_active = False, dma_addr = 0, beats_left = 0, dma_period = 1,
     dma_timer = 0, beat_period_l3 = 4, beat_period_tcdm = 1\<rparr>"

theorem dma_engine_drains_witness:
  "\<exists>d'. dma_cycles 9 0 (dma_enqueue 0 128 True 0 (dma_enqueue 64 64 False 0 idle_engine)) =
      ([0xFF00, 0xFF, 0, 0, 0, 0xFF00, 0, 0, 0], d') \<and> \<not> dma_engine_busy d' \<and> done_cnt d' = 2"
proof -
  let ?d = "dma_enqueue 0 128 True 0 (dma_enqueue 64 64 False 0 idle_engine)"
  have d: "drop (head ?d) (xfers ?d) = [\<lparr>tcdm_addr = 64, beats = 1, period = 1, at_rel = 0\<rparr>,
      \<lparr>tcdm_addr = 0, beats = 2, period = 4, at_rel = 0\<rparr>]" "\<not> dma_active ?d" "done_cnt ?d = 0"
    by (simp_all add: dma_enqueue_def idle_engine_def Let_def)
  have m: "superbank 0 = 0xFF" "superbank 64 = 0xFF00" by (simp_all add: superbank_def)
  have two: "xfer_masks a n 2 = beat_masks a n @ beat_masks (a + 64) n" for a n by (simp add: numeral_2_eq_2)
  have four: "beat_masks a 4 = [superbank a, 0, 0, 0]" for a by (simp add: beat_masks_def numeral_3_eq_3)
  have n: "xfer_masks 0 4 2 = [0xFF, 0, 0, 0, 0xFF00, 0, 0, 0]" "xfer_masks 64 1 1 = [0xFF00]"
    unfolding two four by (simp_all add: beat_masks_def m)
  show ?thesis
    using dma_engine_drains [OF d(2), of 0] n unfolding d(1,3) by (simp add: xfer_ok_def xfer_cycles_def)
qed

end
