(* ===== verification/Cyc.thy ===== *)
theory Cyc
  imports Fabric Streamer "HOL-Library.Signed_Division"
begin

text \<open>
  The streamers of memsim's cycle model (target/snitch_cluster/sim/src/cyc.hpp and cyc.cpp): readers, whose
  lanes issue the addresses of a loop nest to the fabric and deliver groups of words to a core in order, and
  writers, which drain the groups that a core produced.
\<close>

section \<open>Port descriptors\<close>

text \<open>\<open>int\<close> and \<open>long\<close> values are integers; division is that of C.\<close>

record agu =
  a_base :: u64
  a_s_stride :: "int list"
  a_n_s :: nat
  a_t_bound :: "int list"
  a_t_stride :: "int list"
  a_remap :: int
  a_enabled :: bool

definition agu_swz :: "u32 \<Rightarrow> int \<Rightarrow> u32" where
  "agu_swz a remap =
     (if remap = 1 then a XOR (drop_bit 3 a AND 0xE0)
      else if remap = 2 then a XOR (drop_bit 3 a AND 0x60)
      else a)"

definition streamer_depths :: "int list" where
  "streamer_depths = [8, 3, 8, 1, 6, 3, 2, 4, 1, 6, 7, 2, 6, 4, 4, 8, 3, 4]"

definition snax_streamer_depth :: "nat \<Rightarrow> int" where
  "snax_streamer_depth p = (if p < 18 then streamer_depths ! p else 4)"

section \<open>Readers\<close>

record cyc_reader =
  r_base :: u64
  r_ts :: "int list"
  r_eb :: "int list"
  r_channels :: nat
  r_spatial :: nat
  r_sstride :: "int list"
  r_sbound :: "int list"
  data_depth :: int
  addr_depth :: int
  reuse :: int
  r_port :: int
  r_remap :: int
  lane_issued :: "int list"
  lane_landed :: "int list"
  r_pend :: "int list"
  consumed :: int
  reuse_left :: int
  r_active :: bool
  r_done :: bool
  r_occ :: int
  r_ti :: "int list"
  pending_push :: int
  track_idx :: bool
  prod_delivered :: int
  idx_ring :: "int list"
  ir_head :: nat
  ir_tail :: nat
  ir_cnt :: nat

definition or_one :: "int \<Rightarrow> int" where
  "or_one n = (if n \<noteq> 0 then n else 1)"

definition digits :: "int list \<Rightarrow> int \<Rightarrow> int list" where
  "digits eb g =
     (let t0 = g smod eb ! 0; g0 = g sdiv eb ! 0;
          t1 = g0 smod eb ! 1; g1 = g0 sdiv eb ! 1;
          t2 = g1 smod eb ! 2; g2 = g1 sdiv eb ! 2;
          t3 = g2 smod eb ! 3
      in [t0, t1, t2, t3])"

definition r_total :: "cyc_reader \<Rightarrow> int" where
  "r_total r = r_eb r ! 0 * r_eb r ! 1 * r_eb r ! 2 * r_eb r ! 3"

definition min_landed :: "cyc_reader \<Rightarrow> int" where
  "min_landed r = fold (\<lambda>l m. if lane_landed r ! l < m then lane_landed r ! l else m)
     [1..<r_channels r] (lane_landed r ! 0)"

definition set_ti :: "int \<Rightarrow> cyc_reader \<Rightarrow> cyc_reader" where
  "set_ti g r = r\<lparr>r_ti := digits (r_eb r) (g smod or_one (r_total r))\<rparr>"

definition r_reset :: "cyc_reader \<Rightarrow> cyc_reader" where
  "r_reset r = r\<lparr>lane_issued := replicate 8 0, lane_landed := replicate 8 0, r_pend := replicate 8 0,
     consumed := 0, reuse_left := 0, r_occ := 0, pending_push := 0, prod_delivered := 0,
     ir_head := 0, ir_tail := 0, ir_cnt := 0, r_done := False, r_active := True\<rparr>"

definition r_configure :: "agu \<Rightarrow> nat \<Rightarrow> nat \<Rightarrow> int \<Rightarrow> int \<Rightarrow> cyc_reader \<Rightarrow> cyc_reader" where
  "r_configure a nch nsp fd prt r =
     (let ru = (if a_t_stride a ! 0 = 0 \<and> a_t_bound a ! 0 > 1 then a_t_bound a ! 0 else 1) in
      r_reset (r\<lparr>r_base := a_base a, r_ts := a_t_stride a, r_channels := nch, r_spatial := nsp,
        data_depth := fd, addr_depth := fd, r_port := prt, r_remap := a_remap a,
        r_sstride := a_s_stride a, r_sbound := (if nsp = 2 then [2, 2] else [int nch, 1]),
        reuse := ru,
        r_eb := (if ru > 1 then 1 else or_one (a_t_bound a ! 0)) # map or_one (take 3 (drop 1 (a_t_bound a)))\<rparr>))"

definition temporal_off :: "int list \<Rightarrow> int list \<Rightarrow> int" where
  "temporal_off ti ts = ti ! 0 * ts ! 0 + ti ! 1 * ts ! 1 + ti ! 2 * ts ! 2 + ti ! 3 * ts ! 3"

definition spatial_off :: "nat \<Rightarrow> int list \<Rightarrow> int list \<Rightarrow> nat \<Rightarrow> int" where
  "spatial_off nsp sstride sbound lane =
     (if nsp = 2
      then (int lane smod sbound ! 0) * sstride ! 0 + (int lane sdiv sbound ! 0) * sstride ! 1
      else int lane * sstride ! 0)"

definition r_lane_addr :: "cyc_reader \<Rightarrow> int \<Rightarrow> nat \<Rightarrow> u64" where
  "r_lane_addr r g lane = r_base r +
     word_of_int (temporal_off (digits (r_eb r) (g smod or_one (r_total r))) (r_ts r)) +
     word_of_int (spatial_off (r_spatial r) (r_sstride r) (r_sbound r) lane)"

text \<open>A lane may issue its next group when both of its FIFOs have room.\<close>

definition may_issue :: "cyc_reader \<Rightarrow> nat \<Rightarrow> bool" where
  "may_issue r l \<longleftrightarrow> \<not> lane_issued r ! l - consumed r \<ge> data_depth r \<and>
     \<not> lane_issued r ! l - lane_landed r ! l \<ge> addr_depth r"

definition bank_of :: "u64 \<Rightarrow> int \<Rightarrow> int" where
  "bank_of addr remap = uint (drop_bit 3 (agu_swz (ucast addr) remap) AND 31)"

definition lane_tok :: "int \<Rightarrow> nat \<Rightarrow> int" where
  "lane_tok port l = push_bit 4 port OR int l"

definition r_propose :: "cyc_reader \<Rightarrow> fabric \<Rightarrow> fabric" where
  "r_propose r f =
     (if \<not> r_active r then f
      else let prio = (if min_landed r - consumed r \<le> 1 then 1 else 0)
        in fold (\<lambda>l f. if may_issue r l
              then post (bank_of (r_lane_addr r (lane_issued r ! l) l) (r_remap r)) (lane_tok (r_port r) l) prio f
              else f) [0..<r_channels r] f)"

definition commit_lane :: "bool list \<Rightarrow> nat \<Rightarrow> cyc_reader \<times> nat \<Rightarrow> cyc_reader \<times> nat" where
  "commit_lane granted l = (\<lambda>(r, gi).
     if \<not> may_issue r l then (r, gi)
     else let g = lane_issued r ! l in
       (if granted ! gi
        then (let r1 = (if l = 0 then set_ti g r else r) in
          r1\<lparr>lane_issued := (lane_issued r1)[l := g + 1], r_pend := (r_pend r1)[l := r_pend r1 ! l + 1],
             pending_push := pending_push r1 + 1\<rparr>)
        else r, gi + 1))"

definition r_commit :: "bool list \<Rightarrow> cyc_reader \<times> nat \<Rightarrow> cyc_reader \<times> nat" where
  "r_commit granted = (\<lambda>(r, gi).
     let r1 = r\<lparr>pending_push := 0\<rparr> in
     if \<not> r_active r1 then (r1, gi)
     else fold (commit_lane granted) [0..<r_channels r1] (r1, gi))"

definition occ_of :: "cyc_reader \<Rightarrow> int" where
  "occ_of r = (if reuse r > 1 then of_bool (min_landed r > consumed r) else min_landed r - consumed r)"

definition r_pop :: "cyc_reader \<Rightarrow> bool \<times> cyc_reader" where
  "r_pop r =
     (if reuse_left r > 0 then (True, r\<lparr>reuse_left := reuse_left r - 1\<rparr>)
      else if min_landed r > consumed r
      then let r1 = r\<lparr>consumed := consumed r + 1\<rparr>;
               r2 = (if reuse r1 > 1 then r1\<lparr>reuse_left := reuse r1 - 1\<rparr> else r1)
           in (True, r2\<lparr>r_occ := occ_of r2\<rparr>)
      else (False, r))"

text \<open>The ring of group numbers that the self-test follows.\<close>

function deliver_idx :: "int \<Rightarrow> cyc_reader \<Rightarrow> cyc_reader" where
  "deliver_idx m r =
     (if ir_cnt r < 64 \<and> prod_delivered r < m
      then deliver_idx m (r\<lparr>idx_ring := (idx_ring r)[ir_tail r := signed_take_bit 31 (prod_delivered r)],
        prod_delivered := prod_delivered r + 1, ir_tail := (ir_tail r + 1) AND 63, ir_cnt := ir_cnt r + 1\<rparr>)
      else r)"
  by auto
termination
  by (relation "measure (\<lambda>(m, r). 64 - ir_cnt r)") auto

declare deliver_idx.simps [simp del]

definition pop_idx :: "cyc_reader \<Rightarrow> int option \<times> cyc_reader" where
  "pop_idx r =
     (if ir_cnt r = 0 then (None, r)
      else (Some (idx_ring r ! ir_head r), r\<lparr>ir_head := (ir_head r + 1) AND 63, ir_cnt := ir_cnt r - 1\<rparr>))"

definition land_lane :: "nat \<Rightarrow> cyc_reader \<Rightarrow> cyc_reader" where
  "land_lane l r = r\<lparr>lane_landed := (lane_landed r)[l := lane_landed r ! l + r_pend r ! l], r_pend := (r_pend r)[l := 0]\<rparr>"

definition land_reads :: "cyc_reader \<Rightarrow> cyc_reader" where
  "land_reads r =
     (let r1 = fold land_lane [0..<r_channels r] r;
          r2 = (if track_idx r1 then deliver_idx (min_landed r1) r1 else r1)
      in r2\<lparr>r_occ := occ_of r2\<rparr>)"

section \<open>Writers\<close>

record cyc_writer =
  w_base :: u64
  w_ts :: "int list"
  w_eb :: "int list"
  w_channels :: nat
  w_spatial :: nat
  w_sstride :: "int list"
  w_sbound :: "int list"
  w_port :: int
  w_remap :: int
  w_depth :: int
  w_ti :: "int list"
  lane_done :: "bool list"
  w_occ :: int
  written :: int
  w_done :: bool

definition w_configure :: "agu \<Rightarrow> nat \<Rightarrow> nat \<Rightarrow> int \<Rightarrow> cyc_writer \<Rightarrow> cyc_writer" where
  "w_configure a nch nsp prt w =
     w\<lparr>w_base := a_base a, w_ts := a_t_stride a, w_eb := map or_one (take 4 (a_t_bound a)), w_channels := nch,
       w_spatial := nsp, w_port := prt, w_remap := a_remap a, w_sstride := a_s_stride a,
       w_sbound := (if nsp = 2 then [2, 2] else [int nch, 1]), w_ti := [0, 0, 0, 0],
       lane_done := replicate 8 False, w_occ := 0, written := 0, w_done := False\<rparr>"

definition w_lane_addr :: "cyc_writer \<Rightarrow> nat \<Rightarrow> u64" where
  "w_lane_addr w lane = w_base w + word_of_int (temporal_off (w_ti w) (w_ts w)) +
     word_of_int (spatial_off (w_spatial w) (w_sstride w) (w_sbound w) lane)"

definition w_push :: "int \<Rightarrow> cyc_writer \<Rightarrow> cyc_writer" where
  "w_push n w = w\<lparr>w_occ := w_occ w + n\<rparr>"

definition w_propose :: "cyc_writer \<Rightarrow> fabric \<Rightarrow> fabric" where
  "w_propose w f =
     (if w_done w \<or> w_occ w \<le> 0 then f
      else let prio = (if w_occ w \<ge> w_depth w - 1 then 1 else 0)
        in fold (\<lambda>l f. if \<not> lane_done w ! l
              then post (bank_of (w_lane_addr w l) (w_remap w)) (lane_tok (w_port w) l) prio f
              else f) [0..<w_channels w] f)"

text \<open>The counters of the loop nest: the first that does not reach its bound ends the carry.\<close>

fun next_ti :: "int list \<Rightarrow> int list \<Rightarrow> int list" where
  "next_ti (b # bs) (t # ts) = (if t + 1 < b then (t + 1) # ts else 0 # next_ti bs ts)"
| "next_ti _ ts = ts"

definition commit_w_lane :: "bool list \<Rightarrow> nat \<Rightarrow> cyc_writer \<times> nat \<times> bool \<Rightarrow> cyc_writer \<times> nat \<times> bool" where
  "commit_w_lane granted l = (\<lambda>(w, gi, every).
     if lane_done w ! l then (w, gi, every)
     else if granted ! gi then (w\<lparr>lane_done := (lane_done w)[l := True]\<rparr>, gi + 1, every)
     else (w, gi + 1, False))"

definition w_commit :: "bool list \<Rightarrow> cyc_writer \<times> nat \<Rightarrow> cyc_writer \<times> nat" where
  "w_commit granted = (\<lambda>(w, gi).
     if w_done w \<or> w_occ w \<le> 0 then (w, gi)
     else let (w1, gi1, every) = fold (commit_w_lane granted) [0..<w_channels w] (w, gi, True)
       in (if every
           then w1\<lparr>written := written w1 + 1, w_occ := w_occ w1 - 1, lane_done := replicate 8 False,
             w_ti := next_ti (w_eb w1) (w_ti w1)\<rparr>
           else w1, gi1))"

definition total_beats :: "cyc_writer \<Rightarrow> int" where
  "total_beats w = w_eb w ! 0 * w_eb w ! 1 * w_eb w ! 2 * w_eb w ! 3"

section \<open>Flow control of a reader\<close>

definition lane_ok :: "cyc_reader \<Rightarrow> nat \<Rightarrow> bool" where
  "lane_ok r l \<longleftrightarrow> consumed r \<le> lane_landed r ! l \<and> lane_issued r ! l = lane_landed r ! l + r_pend r ! l \<and>
     0 \<le> r_pend r ! l \<and> lane_issued r ! l - consumed r \<le> data_depth r \<and> r_pend r ! l \<le> addr_depth r"

definition reader_ok :: "cyc_reader \<Rightarrow> bool" where
  "reader_ok r \<longleftrightarrow> 1 \<le> r_channels r \<and> r_channels r \<le> 8 \<and> 0 \<le> data_depth r \<and> 0 \<le> addr_depth r \<and> 0 \<le> consumed r \<and>
     length (lane_issued r) = 8 \<and> length (lane_landed r) = 8 \<and> length (r_pend r) = 8 \<and>
     (\<forall>l < r_channels r. lane_ok r l)"

text \<open>A reader of four lanes over two blocks of four groups.\<close>

definition agu_example :: agu where
  "agu_example = \<lparr>a_base = 0x10000000, a_s_stride = [8, 64], a_n_s = 2, a_t_bound = [4, 2, 1, 1],
     a_t_stride = [16, 256, 0, 0], a_remap = 0, a_enabled = True\<rparr>"

definition reader_zero :: cyc_reader where
  "reader_zero = \<lparr>r_base = 0, r_ts = [0, 0, 0, 0], r_eb = [1, 1, 1, 1], r_channels = 1, r_spatial = 1, r_sstride = [8, 0],
     r_sbound = [1, 1], data_depth = 8, addr_depth = 4, reuse = 1, r_port = 0, r_remap = 0, lane_issued = replicate 8 0,
     lane_landed = replicate 8 0, r_pend = replicate 8 0, consumed = 0, reuse_left = 0, r_active = False, r_done = False,
     r_occ = 0, r_ti = [0, 0, 0, 0], pending_push = 0, track_idx = False, prod_delivered = 0, idx_ring = replicate 64 0,
     ir_head = 0, ir_tail = 0, ir_cnt = 0\<rparr>"

definition writer_zero :: cyc_writer where
  "writer_zero = \<lparr>w_base = 0, w_ts = [0, 0, 0, 0], w_eb = [1, 1, 1, 1], w_channels = 1, w_spatial = 1, w_sstride = [8, 0],
     w_sbound = [1, 1], w_port = 0, w_remap = 0, w_depth = 8, w_ti = [0, 0, 0, 0], lane_done = replicate 8 False,
     w_occ = 0, written = 0, w_done = False\<rparr>"

lemma min_landed_spec:
  assumes "1 \<le> r_channels r"
  shows "(\<forall>l < r_channels r. min_landed r \<le> lane_landed r ! l) \<and> (\<exists>l < r_channels r. min_landed r = lane_landed r ! l)"
proof -
  have "1 \<le> n \<Longrightarrow> (\<forall>l < n. fold (\<lambda>l m. if lane_landed r ! l < m then lane_landed r ! l else m) [1..<n] (lane_landed r ! 0) \<le> lane_landed r ! l) \<and>
      (\<exists>l < n. fold (\<lambda>l m. if lane_landed r ! l < m then lane_landed r ! l else m) [1..<n] (lane_landed r ! 0) = lane_landed r ! l)" for n
  proof (induction n rule: nat_induct_at_least [of 1])
    case base
    then show ?case by simp
  next
    case (Suc n)
    then show ?case by (auto simp: less_Suc_eq)
  qed
  then show ?thesis using assms by (simp add: min_landed_def)
qed

lemma min_landed_gt: "1 \<le> r_channels r \<Longrightarrow> x < min_landed r \<longleftrightarrow> (\<forall>l < r_channels r. x < lane_landed r ! l)"
  using min_landed_spec [of r] by force

lemma reader_ok_reset:
  assumes "1 \<le> r_channels r" "r_channels r \<le> 8" "0 \<le> data_depth r" "0 \<le> addr_depth r"
  shows "reader_ok (r_reset r)"
  using assms by (simp add: reader_ok_def r_reset_def lane_ok_def)

lemma reader_ok_configure: "1 \<le> nch \<Longrightarrow> nch \<le> 8 \<Longrightarrow> 0 \<le> fd \<Longrightarrow> reader_ok (r_configure a nch nsp fd prt r)"
  unfolding r_configure_def Let_def by (rule reader_ok_reset) simp_all

lemma land_lanes:
  assumes "length (lane_landed r) = 8" "length (r_pend r) = 8" "n \<le> 8"
  shows "fold land_lane [0..<n] r =
    r\<lparr>lane_landed := map (\<lambda>l. if l < n then lane_landed r ! l + r_pend r ! l else lane_landed r ! l) [0..<8],
      r_pend := map (\<lambda>l. if l < n then 0 else r_pend r ! l) [0..<8]\<rparr>"
  using assms(3)
proof (induction n)
  case 0
  have "map ((!) (lane_landed r)) [0..<8] = lane_landed r" "map ((!) (r_pend r)) [0..<8] = r_pend r"
    using map_nth [of "lane_landed r"] map_nth [of "r_pend r"] assms by simp_all
  then show ?case by simp
next
  case (Suc n)
  then show ?case by (simp add: land_lane_def) (auto simp: list_eq_iff_nth_eq nth_list_update less_Suc_eq)
qed

lemma deliver_idx_fields [simp]:
  "lane_issued (deliver_idx m r) = lane_issued r" "lane_landed (deliver_idx m r) = lane_landed r"
  "r_pend (deliver_idx m r) = r_pend r" "consumed (deliver_idx m r) = consumed r" "r_channels (deliver_idx m r) = r_channels r"
  "data_depth (deliver_idx m r) = data_depth r" "addr_depth (deliver_idx m r) = addr_depth r"
  "reuse (deliver_idx m r) = reuse r" "reuse_left (deliver_idx m r) = reuse_left r" "track_idx (deliver_idx m r) = track_idx r"
  "r_active (deliver_idx m r) = r_active r"
  by (induction m r rule: deliver_idx.induct; subst deliver_idx.simps; simp)+

lemma land_reads_fields:
  assumes "reader_ok r" "l < r_channels r"
  shows "lane_landed (land_reads r) ! l = lane_issued r ! l" "r_pend (land_reads r) ! l = 0"
    "lane_issued (land_reads r) = lane_issued r" "consumed (land_reads r) = consumed r"
    "r_channels (land_reads r) = r_channels r"
  using assms by (simp_all add: land_reads_def Let_def reader_ok_def lane_ok_def land_lanes)

lemma reader_ok_land: "reader_ok r \<Longrightarrow> reader_ok (land_reads r)"
  by (auto simp: reader_ok_def lane_ok_def land_reads_def Let_def land_lanes)

lemma reader_ok_pop:
  assumes "reader_ok r"
  shows "reader_ok (snd (r_pop r))"
proof (cases "0 < reuse_left r \<or> min_landed r \<le> consumed r")
  case True
  then show ?thesis using assms by (auto simp: r_pop_def reader_ok_def lane_ok_def)
next
  case False
  then have "\<forall>l < r_channels r. consumed r + 1 \<le> lane_landed r ! l"
    using assms min_landed_gt [of r "consumed r"] by (auto simp: reader_ok_def)
  then have "\<forall>l < r_channels r. lane_ok (r\<lparr>consumed := consumed r + 1\<rparr>) l"
    using assms by (fastforce simp: reader_ok_def lane_ok_def)
  then show ?thesis using assms False by (auto simp: r_pop_def Let_def reader_ok_def lane_ok_def)
qed

lemma set_ti_fields [simp]:
  "lane_issued (set_ti g r) = lane_issued r" "lane_landed (set_ti g r) = lane_landed r" "r_pend (set_ti g r) = r_pend r"
  "consumed (set_ti g r) = consumed r" "r_channels (set_ti g r) = r_channels r" "data_depth (set_ti g r) = data_depth r"
  "addr_depth (set_ti g r) = addr_depth r" "pending_push (set_ti g r) = pending_push r"
  by (simp_all add: set_ti_def)

lemma commit_lane_ok:
  assumes "reader_ok r" "l < r_channels r"
  shows "reader_ok (fst (commit_lane granted l (r, gi)))" "r_channels (fst (commit_lane granted l (r, gi))) = r_channels r"
  using assms by (auto simp: commit_lane_def may_issue_def Let_def reader_ok_def lane_ok_def nth_list_update)

lemma reader_ok_commit:
  assumes "reader_ok r"
  shows "reader_ok (fst (r_commit granted (r, gi)))"
proof -
  have "reader_ok (fst (fold (commit_lane granted) [0..<n] (r1, gi))) \<and>
      r_channels (fst (fold (commit_lane granted) [0..<n] (r1, gi))) = r_channels r1"
    if "reader_ok r1" "n \<le> r_channels r1" for r1 n
    using that(2)
  proof (induction n)
    case (Suc n)
    obtain r2 gi2 where f: "fold (commit_lane granted) [0..<n] (r1, gi) = (r2, gi2)" by (metis prod.exhaust)
    show ?case using Suc commit_lane_ok [of r2 n granted gi2] by (simp add: f)
  qed (simp add: that(1))
  moreover have "reader_ok (r\<lparr>pending_push := 0\<rparr>) = reader_ok r" by (simp add: reader_ok_def lane_ok_def)
  ultimately show ?thesis using assms by (simp add: r_commit_def Let_def)
qed

lemma lane_bounds:
  "reader_ok r \<Longrightarrow> l < r_channels r \<Longrightarrow> lane_issued r ! l - lane_landed r ! l \<le> addr_depth r \<and>
    lane_issued r ! l - consumed r \<le> data_depth r \<and> consumed r \<le> lane_landed r ! l"
proof -
  assume "reader_ok r" "l < r_channels r"
  then have "lane_ok r l" by (simp add: reader_ok_def)
  then show ?thesis by (simp add: lane_ok_def)
qed

lemma min_landed_cong:
  "lane_landed r = lane_landed r' \<Longrightarrow> r_channels r = r_channels r' \<Longrightarrow> min_landed r = min_landed r'"
  by (simp add: min_landed_def cong: if_cong)

lemma occ_of_occ [simp]: "occ_of (r\<lparr>r_occ := x\<rparr>) = occ_of r"
  using min_landed_cong [of "r\<lparr>r_occ := x\<rparr>" r] by (simp add: occ_of_def)

lemma land_reads_occ: "r_occ (land_reads r) = occ_of (land_reads r)"
  by (simp add: land_reads_def Let_def)

text \<open>
  C28: flow control: whatever the fabric grants, every lane of a reader has at most its address FIFO of
  requests outstanding and is at most its data FIFO ahead of the consumer, and the consumer only takes a
  group that has landed on every lane, also when the lanes run apart.
\<close>

theorem reader_flow_control:
  assumes "reader_ok r"
  shows "reader_ok (land_reads r) \<and> reader_ok (fst (r_commit granted (r, gi))) \<and> reader_ok (snd (r_pop r)) \<and>
    (fst (r_pop r) \<longrightarrow> reuse_left r > 0 \<or> (\<forall>l < r_channels r. consumed r < lane_landed r ! l)) \<and>
    (l < r_channels r \<longrightarrow> lane_issued r ! l - lane_landed r ! l \<le> addr_depth r \<and>
       lane_issued r ! l - consumed r \<le> data_depth r \<and> consumed r \<le> lane_landed r ! l) \<and>
    r_occ (land_reads r) \<le> max 1 (data_depth r)"
proof -
  have c: "1 \<le> r_channels r" using assms by (simp add: reader_ok_def)
  then have "fst (r_pop r) \<longrightarrow> reuse_left r > 0 \<or> (\<forall>l < r_channels r. consumed r < lane_landed r ! l)"
    using min_landed_gt [OF c, of "consumed r"] by (simp add: r_pop_def Let_def)
  moreover have "r_occ (land_reads r) \<le> max 1 (data_depth r)"
  proof -
    let ?r = "land_reads r"
    have ok: "reader_ok ?r" by (rule reader_ok_land [OF assms])
    obtain k where k: "k < r_channels ?r" "min_landed ?r = lane_landed ?r ! k"
      using min_landed_spec [of ?r] ok by (auto simp: reader_ok_def)
    have d: "data_depth ?r = data_depth r"
      using assms by (simp add: land_reads_def Let_def land_lanes reader_ok_def)
    have "lane_landed ?r ! k - consumed ?r \<le> data_depth ?r" using ok k(1) by (auto simp: reader_ok_def lane_ok_def)
    then show ?thesis unfolding land_reads_occ using k(2) d by (auto simp: occ_of_def max_def)
  qed
  ultimately show ?thesis
    using reader_ok_land [OF assms] reader_ok_commit [OF assms] reader_ok_pop [OF assms] lane_bounds [OF assms]
    by simp
qed

theorem reader_flow_control_witness:
  "reader_ok (fst (r_commit [True, True, False, True] (r_configure agu_example 4 2 4 7 reader_zero, 0))) \<and>
   r_occ (land_reads (r_configure agu_example 4 2 4 7 reader_zero)) \<le> max 1 (data_depth (r_configure agu_example 4 2 4 7 reader_zero))"
  using reader_flow_control [OF reader_ok_configure, of 4 4 agu_example 2 7 reader_zero "[True, True, False, True]" 0 0] by simp

section \<open>Addresses\<close>

lemma sdivmod_nonneg: "0 \<le> k \<Longrightarrow> 0 < l \<Longrightarrow> k sdiv l = k div l" "0 \<le> k \<Longrightarrow> 0 < l \<Longrightarrow> k smod l = k mod l" for k l :: int
  by (auto simp: signed_divide_int_def signed_modulo_int_def sgn_if minus_div_mult_eq_mod [symmetric])

lemma digits_nonneg:
  assumes "length eb = 4" "\<forall>b \<in> set eb. 0 < b" "0 \<le> g"
  shows "digits eb g = [g mod eb ! 0, g div eb ! 0 mod eb ! 1, g div eb ! 0 div eb ! 1 mod eb ! 2,
    g div eb ! 0 div eb ! 1 div eb ! 2 mod eb ! 3]"
proof -
  have "0 < eb ! i" if "i < 4" for i using assms(1,2) that by simp
  then show ?thesis
    using assms(3) by (simp add: digits_def Let_def sdivmod_nonneg pos_imp_zdiv_nonneg_iff)
qed

text \<open>The hardware's nest of counters, entry by entry.\<close>

lemma nth_concat_blocks:
  assumes "k < n * length xs"
  shows "concat (map (\<lambda>t. map (f t) [0..<n]) xs) ! k = f (xs ! (k div n)) (k mod n)"
  using assms
proof (induction xs arbitrary: k)
  case (Cons x xs)
  then have n: "0 < n" by (cases n) simp_all
  show ?case
  proof (cases "k < n")
    case False
    then have k: "k div n = Suc ((k - n) div n)" "k mod n = (k - n) mod n"
      using n by (simp_all add: le_div_geq le_mod_geq)
    have "k - n < n * length xs" using Cons.prems False by simp
    then show ?thesis using Cons.IH False k by (simp add: nth_append)
  qed (simp add: nth_append)
qed simp

lemma temporal_offsets_nth:
  assumes "k < unat b * length (temporal_offsets ds)"
  shows "temporal_offsets ((b, st) # ds) ! k = temporal_offsets ds ! (k div unat b) + word_of_nat (k mod unat b) * st"
  using nth_concat_blocks [OF assms] by simp

text \<open>The configuration that the same registers give the hardware unit.\<close>

definition hw_cfg :: "agu \<Rightarrow> agu_cfg" where
  "hw_cfg a = \<lparr>agu_ptr = ucast (a_base a), agu_spatial = map word_of_int (a_s_stride a),
     agu_bounds = map word_of_int (a_t_bound a), agu_strides = map word_of_int (a_t_stride a)\<rparr>"

definition hw_spatial :: "nat \<Rightarrow> nat \<Rightarrow> nat list" where
  "hw_spatial nsp nch = (if nsp = 2 then [2, 2] else [nch])"

text \<open>A descriptor with positive bounds that the code's \<open>int\<close> can hold.\<close>

definition agu_ok :: "agu \<Rightarrow> bool" where
  "agu_ok a \<longleftrightarrow> length (a_t_bound a) = 4 \<and> length (a_t_stride a) = 4 \<and> length (a_s_stride a) = 2 \<and>
     (\<forall>b \<in> set (a_t_bound a). 0 < b \<and> b < 2 ^ 31) \<and> (\<forall>s \<in> set (a_t_stride a). - (2 ^ 31) \<le> s \<and> s < 2 ^ 31)"

definition r_bounds :: "agu \<Rightarrow> int list" where
  "r_bounds a = (if a_t_stride a ! 0 = 0 then 1 else a_t_bound a ! 0) # drop 1 (a_t_bound a)"

lemma list4: "length xs = 4 \<Longrightarrow> \<exists>a b c d. xs = [a, b, c, d]"
  by (auto simp: eval_nat_numeral length_Suc_conv)

lemma r_configure_bounds:
  assumes "agu_ok a"
  shows "r_eb (r_configure a nch nsp fd prt r) = r_bounds a" "r_ts (r_configure a nch nsp fd prt r) = a_t_stride a"
    "r_base (r_configure a nch nsp fd prt r) = a_base a"
proof -
  obtain b0 b1 b2 b3 where b: "a_t_bound a = [b0, b1, b2, b3]" using assms list4 unfolding agu_ok_def by blast
  show "r_eb (r_configure a nch nsp fd prt r) = r_bounds a"
    using assms by (auto simp: r_configure_def r_reset_def Let_def r_bounds_def or_one_def b agu_ok_def)
  show "r_ts (r_configure a nch nsp fd prt r) = a_t_stride a" "r_base (r_configure a nch nsp fd prt r) = a_base a"
    by (simp_all add: r_configure_def r_reset_def Let_def)
qed

lemma hw_reader_bounds:
  assumes "agu_ok a"
  shows "reader_bounds (hw_cfg a) = map word_of_int (r_bounds a)"
proof -
  obtain b0 b1 b2 b3 s0 s1 s2 s3 where b: "a_t_bound a = [b0, b1, b2, b3]" "a_t_stride a = [s0, s1, s2, s3]"
    using assms list4 unfolding agu_ok_def by meson
  have "(word_of_int s0 :: u32) = 0 \<longleftrightarrow> s0 = 0"
  proof
    assume "(word_of_int s0 :: u32) = 0"
    then have "sint (word_of_int s0 :: u32) = 0" by simp
    moreover have "sint (word_of_int s0 :: u32) = s0"
      using assms by (simp add: agu_ok_def b sint_sbintrunc' signed_take_bit_int_eq_self)
    ultimately show "s0 = 0" by simp
  qed simp
  then show ?thesis by (simp add: reader_bounds_def hw_cfg_def r_bounds_def b)
qed

lemma ucast_down_of_int: "(ucast (word_of_int k :: u64) :: u32) = word_of_int k"
  by (simp add: ucast_eq uint_word_of_int_eq take_bit_eq_mod mod_mod_cancel word_of_int_eq_iff)

lemma ucast_down_plus: "(ucast (x + y :: u64) :: u32) = ucast x + ucast y"
proof -
  have "x + y = word_of_int (uint x + uint y)" by simp
  then have "(ucast (x + y) :: u32) = word_of_int (uint x + uint y)" by (simp only: ucast_down_of_int)
  then show ?thesis by (simp only: ucast_eq of_int_add)
qed

lemma spatial_off_hw:
  assumes "length ss = 2" "nsp = 2 \<Longrightarrow> l < 4" "nsp \<noteq> 2 \<Longrightarrow> l < nch"
  shows "word_of_int (spatial_off nsp ss (if nsp = 2 then [2, 2] else [int nch, 1]) l) =
    (spatial_offset (hw_spatial nsp nch) (map word_of_int ss) l :: u32)"
proof -
  obtain s0 s1 where s: "ss = [s0, s1]" using assms(1) by (auto simp: eval_nat_numeral length_Suc_conv)
  show ?thesis
  proof (cases "nsp = 2")
    case True
    have "int l smod 2 = int (l mod 2)" "int l sdiv 2 = int (l div 2 mod 2)"
      using assms(2) True by (simp_all add: sdivmod_nonneg zmod_int zdiv_int)
    then show ?thesis using True by (simp add: spatial_off_def hw_spatial_def s)
  next
    case False
    then show ?thesis using assms(3) by (simp add: spatial_off_def hw_spatial_def s)
  qed
qed

lemma four_offsets:
  assumes "g < unat b0 * (unat b1 * (unat b2 * unat b3))"
  shows "temporal_offsets [(b0, s0), (b1, s1), (b2, s2), (b3, s3)] ! g =
    word_of_nat (g div unat b0 div unat b1 div unat b2 mod unat b3) * s3 + word_of_nat (g div unat b0 div unat b1 mod unat b2) * s2 +
    word_of_nat (g div unat b0 mod unat b1) * s1 + word_of_nat (g mod unat b0) * s0"
proof -
  note [simp del] = temporal_offsets.simps(2)
  note l = length_temporal_offsets
  have 1: "g div unat b0 < unat b1 * (unat b2 * unat b3)" using assms by (simp add: less_mult_imp_div_less mult.commute)
  then have 2: "g div unat b0 div unat b1 < unat b2 * unat b3" by (simp add: less_mult_imp_div_less mult.commute)
  then have 3: "g div unat b0 div unat b1 div unat b2 < unat b3" by (simp add: less_mult_imp_div_less mult.commute)
  show ?thesis
    using assms 1 2 3 by (simp add: temporal_offsets_nth l)
qed

lemma r_bounds_list:
  assumes "agu_ok a"
  obtains b0 b1 b2 b3 :: nat where "r_bounds a = [int b0, int b1, int b2, int b3]"
    "0 < b0" "0 < b1" "0 < b2" "0 < b3" "b0 < 2 ^ 31" "b1 < 2 ^ 31" "b2 < 2 ^ 31" "b3 < 2 ^ 31"
proof -
  obtain c0 c1 c2 c3 where c: "a_t_bound a = [c0, c1, c2, c3]" using assms list4 unfolding agu_ok_def by blast
  have p: "0 < c0" "0 < c1" "0 < c2" "0 < c3" "c0 < 2 ^ 31" "c1 < 2 ^ 31" "c2 < 2 ^ 31" "c3 < 2 ^ 31"
    using assms by (simp_all add: agu_ok_def c)
  show ?thesis
  proof (cases "a_t_stride a ! 0 = 0")
    case True
    show ?thesis by (rule that [of 1 "nat c1" "nat c2" "nat c3"]) (use True p c in \<open>simp_all add: r_bounds_def nat_less_iff\<close>)
  next
    case False
    show ?thesis by (rule that [of "nat c0" "nat c1" "nat c2" "nat c3"]) (use False p c in \<open>simp_all add: r_bounds_def nat_less_iff\<close>)
  qed
qed

lemma digits_of_nat:
  assumes "0 < b0" "0 < b1" "0 < b2" "0 < b3"
  shows "digits [int b0, int b1, int b2, int b3] (int g) =
    [int (g mod b0), int (g div b0 mod b1), int (g div b0 div b1 mod b2), int (g div b0 div b1 div b2 mod b3)]"
  using digits_nonneg [of "[int b0, int b1, int b2, int b3]" "int g"] assms by (simp add: zdiv_int zmod_int)

lemma unat_small_u32: "b < 2 ^ 31 \<Longrightarrow> unat (word_of_nat b :: u32) = b"
  by (rule unat_of_nat_small) simp

lemma agu_addresses_nth:
  assumes "g < length (temporal_offsets (zip (agu_bounds c) (agu_strides c)))" "l < prod_list sb"
  shows "agu_addresses sb c ! g ! l =
    agu_ptr c + (temporal_offsets (zip (agu_bounds c) (agu_strides c)) ! g + spatial_offset sb (agu_spatial c) l)"
  using assms by (simp add: agu_addresses_def)

lemma r_lane_addr_hw:
  assumes ok: "agu_ok a" and l: "l < nch" "nsp = 2 \<Longrightarrow> nch = 4"
    and g: "g < length (agu_addresses (hw_spatial nsp nch) ((hw_cfg a)\<lparr>agu_bounds := map word_of_int (r_bounds a)\<rparr>))"
  shows "ucast (a_base a + word_of_int (temporal_off (digits (r_bounds a) (int g)) (a_t_stride a)) +
      word_of_int (spatial_off nsp (a_s_stride a) (if nsp = 2 then [2, 2] else [int nch, 1]) l)) =
    agu_addresses (hw_spatial nsp nch) ((hw_cfg a)\<lparr>agu_bounds := map word_of_int (r_bounds a)\<rparr>) ! g ! l"
proof -
  obtain b0 b1 b2 b3 where b: "r_bounds a = [int b0, int b1, int b2, int b3]" "0 < b0" "0 < b1" "0 < b2" "0 < b3"
    "b0 < 2 ^ 31" "b1 < 2 ^ 31" "b2 < 2 ^ 31" "b3 < 2 ^ 31" by (rule r_bounds_list [OF ok]) 
  obtain s0 s1 s2 s3 where s: "a_t_stride a = [s0, s1, s2, s3]" using ok list4 unfolding agu_ok_def by blast
  have ss: "length (a_s_stride a) = 2" using ok by (simp add: agu_ok_def)
  let ?c = "(hw_cfg a)\<lparr>agu_bounds := map word_of_int (r_bounds a)\<rparr>"
  have z: "zip (agu_bounds ?c) (agu_strides ?c) = [(word_of_nat b0, word_of_int s0), (word_of_nat b1, word_of_int s1),
      (word_of_nat b2, word_of_int s2), (word_of_nat b3, word_of_int s3)]" by (simp add: hw_cfg_def b(1) s)
  note u = b(6-9) [THEN unat_small_u32]
  have gl: "g < length (temporal_offsets (zip (agu_bounds ?c) (agu_strides ?c)))" using g by (simp add: agu_addresses_def)
  then have g4: "g < b0 * (b1 * (b2 * b3))" unfolding z length_temporal_offsets by (simp add: u)
  have lp: "l < prod_list (hw_spatial nsp nch)" using l by (auto simp: hw_spatial_def)
  have t: "temporal_offsets (zip (agu_bounds ?c) (agu_strides ?c)) ! g =
      word_of_int (temporal_off (digits (r_bounds a) (int g)) (a_t_stride a))"
  proof -
    have "g < unat (word_of_nat b0 :: u32) * (unat (word_of_nat b1 :: u32) * (unat (word_of_nat b2 :: u32) * unat (word_of_nat b3 :: u32)))"
      using g4 by (simp add: u)
    note f = four_offsets [OF this, unfolded u]
    show ?thesis unfolding z f by (simp add: b(1) digits_of_nat [OF b(2-5)] s temporal_off_def)
  qed
  have sp: "spatial_offset (hw_spatial nsp nch) (agu_spatial ?c) l =
      word_of_int (spatial_off nsp (a_s_stride a) (if nsp = 2 then [2, 2] else [int nch, 1]) l)"
  proof -
    have "agu_spatial ?c = map word_of_int (a_s_stride a)" by (simp add: hw_cfg_def)
    then show ?thesis using spatial_off_hw [OF ss, of nsp l nch] l by metis
  qed
  show ?thesis
    unfolding agu_addresses_nth [OF gl lp] t sp by (simp add: ucast_down_plus ucast_down_of_int hw_cfg_def)
qed

lemma r_total_bounds:
  assumes "agu_ok a"
  shows "r_total (r_configure a nch nsp fd prt r) =
    int (length (agu_addresses (hw_spatial nsp nch) ((hw_cfg a)\<lparr>agu_bounds := map word_of_int (r_bounds a)\<rparr>)))"
    "0 < r_total (r_configure a nch nsp fd prt r)"
proof -
  obtain b0 b1 b2 b3 where b: "r_bounds a = [int b0, int b1, int b2, int b3]" "0 < b0" "0 < b1" "0 < b2" "0 < b3"
    "b0 < 2 ^ 31" "b1 < 2 ^ 31" "b2 < 2 ^ 31" "b3 < 2 ^ 31" by (rule r_bounds_list [OF assms])
  obtain s0 s1 s2 s3 where s: "a_t_stride a = [s0, s1, s2, s3]" using assms list4 unfolding agu_ok_def by blast
  note u = b(6-9) [THEN unat_small_u32]
  show "r_total (r_configure a nch nsp fd prt r) =
    int (length (agu_addresses (hw_spatial nsp nch) ((hw_cfg a)\<lparr>agu_bounds := map word_of_int (r_bounds a)\<rparr>)))"
    by (simp add: r_total_def r_configure_bounds [OF assms] agu_addresses_def length_temporal_offsets b(1) hw_cfg_def s u del: temporal_offsets.simps)
  show "0 < r_total (r_configure a nch nsp fd prt r)"
    using b(2-5) by (simp add: r_total_def r_configure_bounds [OF assms] b(1))
qed



section \<open>Writers\<close>

primrec radix :: "int list \<Rightarrow> int \<Rightarrow> int list" where
  "radix [] g = []"
| "radix (b # bs) g = g mod b # radix bs (g div b)"

lemma next_ti_radix:
  "\<forall>b \<in> set bs. 0 < b \<Longrightarrow> next_ti bs (radix bs g) = radix bs (g + 1)"
proof (induction bs arbitrary: g)
  case (Cons b bs)
  then have b: "0 < b" by simp
  have g: "g = b * (g div b) + g mod b" by simp
  show ?case
  proof (cases "g mod b + 1 < b")
    case True
    have "(g + 1) mod b = g mod b + 1" "(g + 1) div b = g div b"
      using True b pos_mod_sign [OF b, of g] by (simp_all add: int_mod_pos_eq [of _ _ "g div b"] int_div_pos_eq [of _ _ _ "g mod b + 1"] g [symmetric])
    then show ?thesis using True by simp
  next
    case False
    then have "g mod b = b - 1" using b pos_mod_bound [of b g] by linarith
    then have "g + 1 = b * (g div b) + b" using mult_div_mod_eq [of b g] by linarith
    then have "g + 1 = b * (g div b + 1)" by (simp add: distrib_left)
    then have "(g + 1) mod b = 0" "(g + 1) div b = g div b + 1" using b by simp_all
    then show ?thesis using False Cons by simp
  qed
qed simp

lemma prod_list_positive: "\<forall>b \<in> set bs. 0 < b \<Longrightarrow> 0 < (prod_list bs :: int)"
  by (induction bs) simp_all

lemma radix_wrap:
  "\<forall>b \<in> set bs. 0 < b \<Longrightarrow> radix bs (g mod prod_list bs) = radix bs g"
proof (induction bs arbitrary: g)
  case (Cons b bs)
  then have p: "0 < b" "0 < prod_list bs" by (simp_all add: prod_list_positive)
  have m: "g mod (b * prod_list bs) = b * (g div b mod prod_list bs) + g mod b"
    using p by (simp add: zmod_zmult2_eq)
  have "g mod (b * prod_list bs) mod b = g mod b" by (simp add: mod_mod_cancel)
  moreover have "g mod (b * prod_list bs) div b = g div b mod prod_list bs"
    unfolding m using p by (simp add: div_add_self1)
  ultimately show ?case using Cons by simp
qed simp

lemma digits_radix:
  "length eb = 4 \<Longrightarrow> \<forall>b \<in> set eb. 0 < b \<Longrightarrow> 0 \<le> g \<Longrightarrow> digits eb g = radix eb g"
  using digits_nonneg [of eb g] list4 [of eb] by auto

text \<open>A writer that follows the nest of a descriptor: its counters are the digits of the groups written.\<close>

definition follows :: "agu \<Rightarrow> nat \<Rightarrow> nat \<Rightarrow> cyc_writer \<Rightarrow> bool" where
  "follows a nch nsp w \<longleftrightarrow> w_base w = a_base a \<and> w_ts w = a_t_stride a \<and> w_eb w = a_t_bound a \<and> w_spatial w = nsp \<and>
     w_sstride w = a_s_stride a \<and> w_sbound w = (if nsp = 2 then [2, 2] else [int nch, 1]) \<and>
     0 \<le> written w \<and> w_ti w = radix (a_t_bound a) (written w)"

datatype w_op = Push int | Commit "bool list" nat

definition w_do :: "w_op \<Rightarrow> cyc_writer \<Rightarrow> cyc_writer" where
  "w_do x w = (case x of Push n \<Rightarrow> w_push n w | Commit granted gi \<Rightarrow> fst (w_commit granted (w, gi)))"

lemma commit_w_lanes: "(fst (fold (commit_w_lane granted) ls (w, gi, every)))\<lparr>lane_done := x\<rparr> = w\<lparr>lane_done := x\<rparr>"
proof (induction ls arbitrary: w gi every)
  case (Cons l ls)
  obtain w' gi' every' where s: "commit_w_lane granted l (w, gi, every) = (w', gi', every')" by (metis prod_cases3)
  have "w'\<lparr>lane_done := x\<rparr> = w\<lparr>lane_done := x\<rparr>" using s by (auto simp: commit_w_lane_def split: if_splits)
  then show ?case using Cons.IH [of w' gi' every'] by (simp add: s)
qed simp

lemma follows_lane_done: "follows a nch nsp (w\<lparr>lane_done := x\<rparr>) = follows a nch nsp w"
  by (simp add: follows_def)

lemma follows_do:
  assumes "follows a nch nsp w" "agu_ok a"
  shows "follows a nch nsp (w_do x w)"
proof (cases x)
  case (Push n)
  then show ?thesis using assms by (simp add: w_do_def w_push_def follows_def)
next
  case (Commit granted gi)
  obtain w1 gi1 every where s: "fold (commit_w_lane granted) [0..<w_channels w] (w, gi, True) = (w1, gi1, every)"
    by (metis prod_cases3)
  have u: "w1\<lparr>lane_done := y\<rparr> = w\<lparr>lane_done := y\<rparr>" for y
    using commit_w_lanes [where granted = granted and ls = "[0..<w_channels w]" and w = w and gi = gi and every = True and x = y] by (simp add: s)
  have f: "follows a nch nsp w1" using assms(1) u follows_lane_done by metis
  have "\<forall>b \<in> set (a_t_bound a). 0 < b" using assms(2) by (simp add: agu_ok_def)
  note n = next_ti_radix [OF this]
  have "follows a nch nsp (w1\<lparr>written := written w1 + 1, w_occ := w_occ w1 - 1, lane_done := replicate 8 False, w_ti := next_ti (w_eb w1) (w_ti w1)\<rparr>)"
    using f n by (simp add: follows_def)
  then show ?thesis using f assms(1) by (simp add: Commit w_do_def w_commit_def s)
qed

lemma follows_configure:
  assumes "agu_ok a"
  shows "follows a nch nsp (w_configure a nch nsp prt w)"
proof -
  obtain b0 b1 b2 b3 where b: "a_t_bound a = [b0, b1, b2, b3]" using assms list4 unfolding agu_ok_def by blast
  have p: "0 < b0" "0 < b1" "0 < b2" "0 < b3" using assms by (simp_all add: agu_ok_def b)
  then show ?thesis by (simp add: follows_def w_configure_def b or_one_def)
qed

lemma follows_run: "agu_ok a \<Longrightarrow> follows a nch nsp w \<Longrightarrow> follows a nch nsp (fold w_do xs w)"
  by (induction xs arbitrary: w) (simp_all add: follows_do)

text \<open>
  A writer puts its groups where a reader with the same descriptor looks for them, in the same order:
  after any pushes and any grants, the addresses it proposes for its lanes are those of the group of
  a reader whose number is the count of groups written so far. A descriptor whose innermost
  stride is 0 is excluded, since readers then repeat a group without reading it again.
\<close>

theorem writer_reader_same_addresses:
  assumes "agu_ok a" and "a_t_stride a ! 0 \<noteq> 0"
  shows "w_lane_addr (fold w_do xs (w_configure a nch nsp prt w)) l =
    r_lane_addr (r_configure a nch nsp fd prt' r) (written (fold w_do xs (w_configure a nch nsp prt w))) l"
proof -
  let ?w = "fold w_do xs (w_configure a nch nsp prt w)" and ?r = "r_configure a nch nsp fd prt' r"
  have f: "follows a nch nsp ?w" by (intro follows_run follows_configure assms(1))
  obtain b0 b1 b2 b3 where b: "a_t_bound a = [b0, b1, b2, b3]" using assms list4 unfolding agu_ok_def by blast
  have p: "\<forall>b \<in> set (a_t_bound a). 0 < b" "length (a_t_bound a) = 4" using assms(1) by (simp_all add: agu_ok_def)
  have eb: "r_eb ?r = a_t_bound a" using assms by (simp add: r_configure_bounds r_bounds_def b)
  have t: "r_total ?r = prod_list (a_t_bound a)" by (simp add: r_total_def eb b)
  have pos: "0 < prod_list (a_t_bound a)" by (rule prod_list_positive [OF p(1)])
  have "digits (r_eb ?r) (written ?w smod or_one (r_total ?r)) = radix (a_t_bound a) (written ?w)"
    using f pos p by (simp add: t eb or_one_def sdivmod_nonneg digits_radix radix_wrap follows_def)
  moreover have "r_spatial ?r = nsp" "r_sstride ?r = a_s_stride a" "r_sbound ?r = (if nsp = 2 then [2, 2] else [int nch, 1])"
    by (simp_all add: r_configure_def r_reset_def Let_def)
  ultimately show ?thesis
    using f unfolding w_lane_addr_def r_lane_addr_def follows_def by (simp only: r_configure_bounds [OF assms(1)])
qed

theorem writer_reader_same_addresses_witness:
  "w_lane_addr (fold w_do [Push 2, Commit [True, True, True, True] 0] (w_configure agu_example 4 2 16 writer_zero)) 3 =
   r_lane_addr (r_configure agu_example 4 2 4 7 reader_zero)
     (written (fold w_do [Push 2, Commit [True, True, True, True] 0] (w_configure agu_example 4 2 16 writer_zero))) 3"
  by (rule writer_reader_same_addresses) (simp_all add: agu_ok_def agu_example_def)

end
