(* ===== verification/Engine.thy ===== *)
theory Engine
  imports Cyc
begin

text \<open>
  The accelerator engine of memsim (target/snitch_cluster/sim/src/cyc_engine.cpp and cyc_engine.hpp): one
  machine that steps the streamers, the cores between them and the DMA engine cycle by cycle on one fabric. The mode
  selects the cores: phase 2 (osCore, state update core, isCore), phase 1 (osCore, convolution, isCore), the
  osCore or the isCore alone, or a SIMD pass. The members of the class are grouped by core, as its comments
  group them. \<open>long\<close> and \<open>int\<close> are integers, the cycle counters 64-bit words, and the comparisons
  in \<open>long double\<close> those of integers. Debug output is left out.
\<close>

section \<open>State\<close>

record sim_cfg =
  cfg_mode :: u32
  cfg_seqLen :: u32
  cfg_dModel :: u32
  cfg_dtRank :: u32
  cfg_dInner :: u32
  cfg_dFinal :: u32

record engine_result =
  busy :: u64
  osc_end :: u64
  suc_start :: u64
  suc_end :: u64
  isc_start :: u64
  isc_end :: u64
  sw_start :: u64
  sw_end :: u64
  stale_z :: int
  stale_y :: int
  r10_fire :: "u32 list"
  r11_fire :: "u32 list"
  fifo_rows :: "int list list"

definition result0 :: engine_result where
  "result0 = \<lparr>busy = 0, osc_end = 0, suc_start = 0, suc_end = 0, isc_start = 0, isc_end = 0, sw_start = 0, sw_end = 0,
     stale_z = 0, stale_y = 0, r10_fire = [], r11_fire = [], fifo_rows = []\<rparr>"

text \<open>The osCore: R0 and R1 into the array, W0 out of it.\<close>

record os_core =
  K_os :: int
  n_tiles_os :: int
  wbpt_os :: int
  Wz :: int
  R0 :: cyc_reader
  R1 :: cyc_reader
  W0 :: cyc_writer
  as_os :: int
  tiles_os :: int
  os_owed :: int
  zwr :: "bool list"

text \<open>What only phase 1 has: the convolution (R3, R4), W1 and the cursors of the streams on chip.\<close>

record p1_core =
  R3c :: cyc_reader
  R4c :: cyc_reader
  W1 :: cyc_writer
  w1_en :: bool
  p1sw_en :: bool
  w0p1_en :: bool
  r11p1_en :: bool
  osc_elem :: int
  sw_elem :: int

text \<open>The state update core: R7 lane by lane, R10 in, W2 out, and the hidden state it can carry.\<close>

record su_core =
  r7_fifo_d :: int
  r7_data_d :: int
  r7ts :: "int list"
  r7eb :: "int list"
  issued7 :: "int list"
  landed7 :: "int list"
  pend7 :: "int list"
  agu7 :: int
  consumed7 :: int
  k7 :: int
  have_bc :: bool
  R10 :: cyc_reader
  W2 :: cyc_writer
  out_su :: int
  y_in_word :: int
  ywr :: "bool list"
  Wy :: int
  suc_state_ld :: bool
  suc_state_sv :: bool
  r13_pop :: int
  w3_push :: int
  r13_tot :: int
  w3st_tot :: int

record sw_core =
  R2sw :: cyc_reader
  R3sw :: cyc_reader
  R5sw :: cyc_reader
  sw_en :: bool
  sw_cyc :: int
  sw_dt :: int
  sw_acc :: int
  sw_first :: int
  sw_last :: int

record is_core =
  K_is :: int
  n_tiles_is :: int
  wbpt_is :: int
  R11 :: cyc_reader
  R12 :: cyc_reader
  R13 :: cyc_reader
  r13_en :: bool
  W3 :: cyc_writer
  as_is :: int
  tiles_is :: int
  is_owed :: int
  serDesA :: int
  isc_aload :: int
  isc_since_a :: int

record simd_core =
  rd :: "cyc_reader list"
  wr :: "cyc_writer list"
  simd_r_en :: "bool list"
  simd_w_en :: "bool list"
  simd_r_beats :: "int list"
  simd_r_pops :: "int list"
  is_simd :: bool

record engine =
  e_ports :: "agu list"
  e_seqLen :: int
  e_dInner :: int
  e_dModel :: int
  e_dFinal :: int
  en_os :: bool
  en_suc :: bool
  en_isc :: bool
  sw_mode :: int
  r10_cnt :: int
  r11_cnt :: int
  M_i :: int
  osN :: int
  iters :: int
  kind :: nat
  has_conv :: bool
  e_os :: os_core
  e_p1 :: p1_core
  e_su :: su_core
  e_sw :: sw_core
  e_is :: is_core
  e_simd :: simd_core
  running :: bool
  suc_started :: bool
  isc_started :: bool
  cyc :: u64
  cap :: u64
  g_r10 :: int
  g_r11 :: int
  g_iscore :: int
  rel_r10 :: bool
  rel_r11 :: bool
  e_dma :: dma_engine
  e_fabric :: fabric
  res :: engine_result
  rec_fires :: bool
  rec_fifo :: bool

text \<open>The members' initial values, for configured ports.\<close>

definition engine0 :: "agu list \<Rightarrow> engine" where
  "engine0 ps = \<lparr>e_ports = ps, e_seqLen = 0, e_dInner = 0, e_dModel = 0, e_dFinal = 0, en_os = False, en_suc = False,
     en_isc = False, sw_mode = 0, r10_cnt = 0, r11_cnt = 0, M_i = 0, osN = 0, iters = 0, kind = 0, has_conv = False,
     e_os = \<lparr>K_os = 0, n_tiles_os = 0, wbpt_os = 1, Wz = 0, R0 = reader_zero, R1 = reader_zero, W0 = writer_zero,
       as_os = 0, tiles_os = 0, os_owed = 0, zwr = []\<rparr>,
     e_p1 = \<lparr>R3c = reader_zero, R4c = reader_zero, W1 = writer_zero, w1_en = False, p1sw_en = False, w0p1_en = False,
       r11p1_en = False, osc_elem = 0, sw_elem = 0\<rparr>,
     e_su = \<lparr>r7_fifo_d = 4, r7_data_d = 8, r7ts = [0, 0, 0, 0], r7eb = [1, 1, 1, 1], issued7 = [0, 0, 0, 0],
       landed7 = [0, 0, 0, 0], pend7 = [0, 0, 0, 0], agu7 = 0, consumed7 = 0, k7 = 0, have_bc = False, R10 = reader_zero,
       W2 = writer_zero, out_su = 0, y_in_word = 0, ywr = [], Wy = 0, suc_state_ld = False, suc_state_sv = False,
       r13_pop = 0, w3_push = 0, r13_tot = 0, w3st_tot = 0\<rparr>,
     e_sw = \<lparr>R2sw = reader_zero, R3sw = reader_zero, R5sw = reader_zero, sw_en = False, sw_cyc = 0, sw_dt = 0, sw_acc = 0,
       sw_first = 0, sw_last = 0\<rparr>,
     e_is = \<lparr>K_is = 0, n_tiles_is = 0, wbpt_is = 1, R11 = reader_zero, R12 = reader_zero, R13 = reader_zero, r13_en = False,
       W3 = writer_zero, as_is = 0, tiles_is = 0, is_owed = 0, serDesA = 0, isc_aload = 0, isc_since_a = 0\<rparr>,
     e_simd = \<lparr>rd = replicate 14 reader_zero, wr = replicate 4 writer_zero, simd_r_en = replicate 14 False,
       simd_w_en = replicate 4 False, simd_r_beats = replicate 14 0, simd_r_pops = replicate 14 0, is_simd = False\<rparr>,
     running = False, suc_started = False, isc_started = False, cyc = 0, cap = 0, g_r10 = 0, g_r11 = 0, g_iscore = 0,
     rel_r10 = False, rel_r11 = False,
     e_dma = \<lparr>xfers = [], head = 0, done_cnt = 0, dma_active = False, dma_addr = 0, beats_left = 0, dma_period = 0,
       dma_timer = 0, beat_period_l3 = 1, beat_period_tcdm = 1\<rparr>,
     e_fabric = fabric0, res = result0, rec_fires = False, rec_fifo = False\<rparr>"

text \<open>Tokens of the arbiter and ports.\<close>

definition T_R0 :: int where "T_R0 = 0"
definition T_R1 :: int where "T_R1 = 1"
definition T_W0 :: int where "T_W0 = 2"
definition T_R7 :: int where "T_R7 = 3"
definition T_R10 :: int where "T_R10 = 4"
definition T_W2 :: int where "T_W2 = 5"
definition T_R11 :: int where "T_R11 = 6"
definition T_R12 :: int where "T_R12 = 7"
definition T_W3 :: int where "T_W3 = 8"
definition T_R2 :: int where "T_R2 = 9"
definition T_R3 :: int where "T_R3 = 10"
definition T_R5 :: int where "T_R5 = 11"
definition T_R13 :: int where "T_R13 = 12"

definition P_W0 :: nat where "P_W0 = 14"
definition P_W1 :: nat where "P_W1 = 15"
definition P_W2 :: nat where "P_W2 = 16"
definition P_W3 :: nat where "P_W3 = 17"

definition word_off :: "int list \<Rightarrow> int list \<Rightarrow> int" where
  "word_off ts ti = temporal_off ti ts sdiv 8"

definition mode_bit :: "u32 \<Rightarrow> nat \<Rightarrow> bool" where
  "mode_bit m k \<longleftrightarrow> drop_bit k m AND 1 \<noteq> 0"

definition PORT_NCH_SIMD :: "nat list" where
  "PORT_NCH_SIMD = [2, 4, 1, 1, 1, 1, 1, 4, 1, 1, 1, 1, 4, 4, 1, 1, 1, 4]"

definition conf_reader :: "agu list \<Rightarrow> nat \<Rightarrow> nat \<Rightarrow> int \<Rightarrow> cyc_reader \<Rightarrow> cyc_reader" where
  "conf_reader ps p nch tok r = r_configure (ps ! p) nch 1 (snax_streamer_depth p) tok r"

definition conf_writer :: "agu list \<Rightarrow> nat \<Rightarrow> nat \<Rightarrow> nat \<Rightarrow> int \<Rightarrow> cyc_writer \<Rightarrow> cyc_writer" where
  "conf_writer ps p nch nsp tok w = (w_configure (ps ! p) nch nsp tok w)\<lparr>w_depth := snax_streamer_depth p\<rparr>"

text \<open>The output groups of a tile, at least 1.\<close>

definition beats_per_tile :: "int \<Rightarrow> int \<Rightarrow> int" where
  "beats_per_tile bts tiles = max 1 (bts sdiv max 1 tiles)"

text \<open>A run starts from cycle 0, without fires, releases, DMA transfers or grants.\<close>

definition start_run :: "u64 \<Rightarrow> engine \<Rightarrow> engine" where
  "start_run c e = e\<lparr>cap := c, cyc := 0, g_r10 := 0, g_r11 := 0, g_iscore := 0, res := result0,
     e_dma := dma_clear (e_dma e), e_fabric := fabric0\<rparr>"

section \<open>Configuration\<close>

definition nested_bounds :: "agu \<Rightarrow> int" where
  "nested_bounds a = or_one (a_t_bound a ! 0) * or_one (a_t_bound a ! 1) * or_one (a_t_bound a ! 2) * or_one (a_t_bound a ! 3)"

definition configure_p1 :: "engine \<Rightarrow> engine" where
  "configure_p1 e =
     (let ps = e_ports e;
          e1 = e\<lparr>kind := 2, has_conv := (sw_mode e = 1), iters := e_seqLen e * e_dInner e,
            e_os := (e_os e)\<lparr>K_os := e_dModel e, n_tiles_os := M_i e * osN e\<rparr>,
            e_is := (e_is e)\<lparr>K_is := osN e, n_tiles_is := M_i e * e_dFinal e\<rparr>\<rparr>
      in if e_dFinal e1 \<le> 0 then e1\<lparr>running := False\<rparr>
         else let o1 = e_os e1; q = e_p1 e1; i = e_is e1;
                  w0en = a_enabled (ps ! P_W0); w1en = a_enabled (ps ! P_W1);
                  p1sw = (has_conv e1 \<and> a_enabled (ps ! 3)); r11en = a_enabled (ps ! 11); r13en = a_enabled (ps ! 13);
                  w0 = (if w0en then conf_writer ps P_W0 1 1 T_W0 (W0 o1) else W0 o1);
                  w1 = (if w1en then conf_writer ps P_W1 1 1 T_W0 (W1 q) else W1 q);
                  bts = (if w0en then total_beats w0 else if w1en then total_beats w1 else 0);
                  w3 = conf_writer ps P_W3 4 1 T_W3 (W3 i);
                  e2 = e1\<lparr>
                    e_os := o1\<lparr>R0 := conf_reader ps 0 2 T_R0 (R0 o1), R1 := conf_reader ps 1 4 T_R1 (R1 o1), W0 := w0,
                      wbpt_os := (if w0en \<or> w1en then bts sdiv max 1 (n_tiles_os o1) else 0),
                      as_os := 0, tiles_os := 0, os_owed := 0\<rparr>,
                    e_p1 := q\<lparr>w0p1_en := w0en, w1_en := w1en, W1 := w1, p1sw_en := p1sw, r11p1_en := r11en,
                      R3c := (if p1sw then conf_reader ps 3 1 T_R3 (R3c q) else R3c q),
                      R4c := (if p1sw then conf_reader ps 4 1 T_R5 (R4c q) else R4c q), osc_elem := 0, sw_elem := 0\<rparr>,
                    e_is := i\<lparr>R12 := conf_reader ps 12 4 T_R12 (R12 i),
                      R11 := (if r11en then conf_reader ps 11 1 T_R11 (R11 i) else R11 i), r13_en := r13en,
                      R13 := (if r13en then conf_reader ps 13 4 T_R13 (R13 i) else R13 i), W3 := w3,
                      wbpt_is := beats_per_tile (total_beats w3) (n_tiles_is i), as_is := 0, tiles_is := 0, is_owed := 0\<rparr>\<rparr>
              in (start_run (word_of_int (n_tiles_os o1 * K_os o1 + iters e1 + n_tiles_is i * K_is i) * 8 + 500000) e2)
                   \<lparr>rel_r10 := False, rel_r11 := False, running := True\<rparr>)"

definition configure_os :: "engine \<Rightarrow> engine" where
  "configure_os e =
     (let ps = e_ports e; o1 = (e_os e)\<lparr>K_os := e_dModel e, n_tiles_os := M_i e * osN e\<rparr>;
          w0 = conf_writer ps P_W0 1 1 T_W0 (W0 o1);
          o2 = o1\<lparr>R0 := conf_reader ps 0 2 T_R0 (R0 o1), R1 := conf_reader ps 1 4 T_R1 (R1 o1), W0 := w0,
            Wz := total_beats w0, wbpt_os := beats_per_tile (total_beats w0) (n_tiles_os o1),
            as_os := 0, tiles_os := 0, os_owed := 0\<rparr>
      in (start_run (word_of_int (n_tiles_os o2) * word_of_int (K_os o2) * 8 + 500000) (e\<lparr>kind := 3, e_os := o2\<rparr>))
           \<lparr>suc_started := False, isc_started := False, rel_r10 := False, rel_r11 := False, running := True\<rparr>)"

definition configure_is :: "engine \<Rightarrow> engine" where
  "configure_is e =
     (let ps = e_ports e; i1 = (e_is e)\<lparr>K_is := osN e, n_tiles_is := M_i e * e_dFinal e\<rparr>;
          w3 = conf_writer ps P_W3 4 1 T_W3 (W3 i1);
          i2 = i1\<lparr>W3 := w3, wbpt_is := beats_per_tile (total_beats w3) (n_tiles_is i1), as_is := 0, tiles_is := 0, is_owed := 0\<rparr>
      in (start_run (word_of_int (n_tiles_is i2) * word_of_int (max 1 (K_is i2)) * 8 + 500000) (e\<lparr>kind := 4, e_is := i2\<rparr>))
           \<lparr>suc_started := False, isc_started := False, rel_r10 := False, rel_r11 := False,
             running := (n_tiles_is i2 > 0 \<and> K_is i2 > 0)\<rparr>)"

definition configure_simd :: "engine \<Rightarrow> engine" where
  "configure_simd e =
     (let ps = e_ports e; s = e_simd e; ren = map (\<lambda>p. a_enabled (ps ! p)) [0..<14];
          wen = map (\<lambda>p. a_enabled (ps ! (14 + p))) [0..<4];
          rds = map (\<lambda>p. if a_enabled (ps ! p) then conf_reader ps p (PORT_NCH_SIMD ! p) (int p) (rd s ! p) else rd s ! p) [0..<14];
          wrs = map (\<lambda>p. if a_enabled (ps ! (14 + p))
                  then conf_writer ps (14 + p) (PORT_NCH_SIMD ! (14 + p)) 1 (14 + int p) (wr s ! p) else wr s ! p) [0..<4];
          bts = map (\<lambda>p. if a_enabled (ps ! p) then nested_bounds (ps ! p) else 0) [0..<14];
          maxbts = fold (\<lambda>p m. if a_enabled (ps ! (14 + p)) then max (total_beats (wrs ! p)) m else m) [0..<4]
                       (fold (\<lambda>p m. if a_enabled (ps ! p) then max (bts ! p) m else m) [0..<14] 0)
      in (start_run (word_of_int maxbts * 8 + 500000)
           (e\<lparr>kind := 5, e_simd := s\<lparr>is_simd := True, rd := rds, wr := wrs, simd_r_en := ren, simd_w_en := wen,
             simd_r_beats := bts, simd_r_pops := replicate 14 0\<rparr>\<rparr>))
           \<lparr>running := (list_ex id ren \<or> list_ex id wen)\<rparr>)"

text \<open>Phase 2.\<close>

definition r7_bounds :: "agu \<Rightarrow> int list" where
  "r7_bounds a = (if a_t_stride a ! 0 = 0 \<and> a_t_bound a ! 0 > 1 then 1 else or_one (a_t_bound a ! 0))
     # map or_one (take 3 (drop 1 (a_t_bound a)))"

definition configure_p2 :: "u32 \<Rightarrow> int \<Rightarrow> engine \<Rightarrow> engine" where
  "configure_p2 mode swc e =
     (let ps = e_ports e; o1 = e_os e; u = e_su e; s = e_sw e; i = e_is e;
          nos = M_i e * osN e; nis = M_i e * e_dFinal e; its = e_seqLen e * e_dInner e;
          w0 = conf_writer ps P_W0 1 1 T_W0 (W0 o1); w2 = conf_writer ps P_W2 1 1 T_W2 (W2 u);
          swen = (swc > 0 \<and> a_enabled (ps ! 2)); r13en = a_enabled (ps ! 13);
          r13 = (if r13en then conf_reader ps 13 4 T_R13 (R13 i) else R13 i);
          ld = (\<not> en_isc e \<and> mode_bit mode 1 \<and> r13en); sv = (\<not> en_isc e \<and> mode_bit mode 0 \<and> a_enabled (ps ! P_W3));
          w3 = conf_writer ps P_W3 4 (if sv then 2 else 1) T_W3 (W3 i);
          sd = 16 * 24 sdiv 8;
          e1 = e\<lparr>kind := 1, iters := its,
            e_os := o1\<lparr>K_os := e_dModel e, n_tiles_os := nos, R0 := conf_reader ps 0 2 T_R0 (R0 o1),
              R1 := conf_reader ps 1 4 T_R1 (R1 o1), W0 := w0, wbpt_os := beats_per_tile (total_beats w0) nos,
              Wz := total_beats w0, zwr := replicate (nat (total_beats w0 + 1)) (\<not> en_os e),
              as_os := 0, tiles_os := 0, os_owed := 0\<rparr>,
            e_su := u\<lparr>r7_fifo_d := snax_streamer_depth 7, r7_data_d := snax_streamer_depth 7, r7ts := a_t_stride (ps ! 7),
              r7eb := r7_bounds (ps ! 7), issued7 := [0, 0, 0, 0], landed7 := [0, 0, 0, 0], pend7 := [0, 0, 0, 0],
              agu7 := 0, consumed7 := 0, k7 := 0, have_bc := False, R10 := conf_reader ps 10 1 T_R10 (R10 u), W2 := w2,
              out_su := 0, y_in_word := 0, Wy := total_beats w2, ywr := replicate (nat (total_beats w2 + 1)) False,
              suc_state_ld := ld, suc_state_sv := sv, r13_pop := 0, w3_push := 0,
              r13_tot := (if r13en then r_total r13 else 0), w3st_tot := total_beats w3\<rparr>,
            e_sw := s\<lparr>sw_cyc := swc, sw_en := swen, R2sw := (if swen then conf_reader ps 2 1 T_R2 (R2sw s) else R2sw s),
              R3sw := (if swen then conf_reader ps 3 1 T_R3 (R3sw s) else R3sw s),
              R5sw := (if swen \<and> a_enabled (ps ! 5) then conf_reader ps 5 1 T_R5 (R5sw s) else R5sw s),
              sw_dt := 0, sw_acc := 0, sw_first := 0, sw_last := 0\<rparr>,
            e_is := i\<lparr>K_is := osN e, n_tiles_is := nis, R11 := conf_reader ps 11 1 T_R11 (R11 i),
              R12 := conf_reader ps 12 4 T_R12 (R12 i), r13_en := r13en, R13 := r13, W3 := w3,
              wbpt_is := beats_per_tile (total_beats w3) nis, as_is := 0, tiles_is := 0, is_owed := 0,
              serDesA := sd, isc_aload := sd, isc_since_a := 0\<rparr>\<rparr>
      in (start_run (word_of_int (nos * e_dModel e + its + nis * osN e) * 8 + 500000) e1)
           \<lparr>suc_started := False, isc_started := False, rel_r10 := False, rel_r11 := False, running := True\<rparr>)"

definition load_shape :: "agu list \<Rightarrow> sim_cfg \<Rightarrow> int \<Rightarrow> int \<Rightarrow> engine \<Rightarrow> engine" where
  "load_shape ps cfg r10c r11c e =
     (let m = cfg_mode cfg; seqLen = sint (cfg_seqLen cfg); dInner = sint (cfg_dInner cfg)
      in e\<lparr>e_ports := ps, e_seqLen := seqLen, e_dInner := dInner, e_dModel := sint (cfg_dModel cfg),
           e_dFinal := sint (cfg_dFinal cfg), en_os := mode_bit m 21, en_suc := mode_bit m 20, en_isc := mode_bit m 19,
           sw_mode := uint (drop_bit 10 m AND 3), r10_cnt := r10c, r11_cnt := r11c, M_i := seqLen sdiv 16,
           osN := (if dInner \<ge> 24 then dInner sdiv 24 else 0), running := False, kind := 0,
           e_simd := (e_simd e)\<lparr>is_simd := False\<rparr>\<rparr>)"

definition configure :: "agu list \<Rightarrow> sim_cfg \<Rightarrow> int \<Rightarrow> int \<Rightarrow> int \<Rightarrow> engine \<Rightarrow> engine" where
  "configure ps cfg r10c r11c swc e =
     (let e1 = load_shape ps cfg r10c r11c e in
      if \<not> en_os e1 \<and> \<not> en_suc e1 \<and> \<not> en_isc e1 then configure_simd e1
      else if M_i e1 \<le> 0 \<or> osN e1 \<le> 0 then e1
      else if \<not> en_suc e1
      then (if en_os e1 \<and> en_isc e1 then configure_p1 e1
            else if en_os e1 then configure_os e1
            else if en_isc e1 then configure_is e1 else e1)
      else configure_p2 (cfg_mode cfg) swc e1)"

section \<open>Occupancy samples\<close>

definition set_row :: "bool \<Rightarrow> nat \<Rightarrow> int \<Rightarrow> int list \<Rightarrow> int list" where
  "set_row c port n row = (if c then row[port := signed_take_bit 15 n] else row)"

definition min_list4 :: "int list \<Rightarrow> int" where
  "min_list4 xs = fold (\<lambda>l m. if xs ! l < m then xs ! l else m) [1..<4] (xs ! 0)"

definition fifo_row :: "engine \<Rightarrow> int list" where
  "fifo_row e =
     (let row = replicate 18 (-1); o1 = e_os e; q = e_p1 e; u = e_su e; s = e_sw e; i = e_is e; d = e_simd e in
      if kind e = 1
      then (set_row (en_isc e) P_W3 (w_occ (W3 i)) \<circ> set_row (en_isc e \<and> r13_en i) 13 (r_occ (R13 i)) \<circ>
            set_row (en_isc e) 12 (r_occ (R12 i)) \<circ> set_row (en_isc e) 11 (r_occ (R11 i)) \<circ>
            set_row (sw_en s \<and> a_enabled (e_ports e ! 5)) 5 (r_occ (R5sw s)) \<circ> set_row (sw_en s) 3 (r_occ (R3sw s)) \<circ>
            set_row (sw_en s) 2 (r_occ (R2sw s)) \<circ> set_row True P_W2 (w_occ (W2 u)) \<circ> set_row True 10 (r_occ (R10 u)) \<circ>
            set_row (have_bc u \<or> consumed7 u > 0 \<or> landed7 u ! 0 > 0) 7 (min_list4 (landed7 u) - consumed7 u) \<circ>
            set_row (en_os e) P_W0 (w_occ (W0 o1)) \<circ> set_row (en_os e) 1 (r_occ (R1 o1)) \<circ>
            set_row (en_os e) 0 (r_occ (R0 o1))) row
      else if kind e = 3
      then (set_row True P_W0 (w_occ (W0 o1)) \<circ> set_row True 1 (r_occ (R1 o1)) \<circ> set_row True 0 (r_occ (R0 o1))) row
      else if kind e = 4 then set_row True P_W3 (w_occ (W3 i)) row
      else if kind e = 5
      then fold (\<lambda>p. set_row (simd_w_en d ! p) (14 + p) (w_occ (wr d ! p))) [0..<4]
             (fold (\<lambda>p. set_row (simd_r_en d ! p) p (r_occ (rd d ! p))) [0..<14] row)
      else if kind e = 2
      then (set_row True P_W3 (w_occ (W3 i)) \<circ> set_row (r13_en i) 13 (r_occ (R13 i)) \<circ>
            set_row (r11p1_en q) 11 (r_occ (R11 i)) \<circ> set_row True 12 (r_occ (R12 i)) \<circ>
            set_row (p1sw_en q) 4 (r_occ (R4c q)) \<circ> set_row (p1sw_en q) 3 (r_occ (R3c q)) \<circ>
            set_row (w1_en q) P_W1 (w_occ (W1 q)) \<circ> set_row (w0p1_en q) P_W0 (w_occ (W0 o1)) \<circ>
            set_row True 1 (r_occ (R1 o1)) \<circ> set_row True 0 (r_occ (R0 o1))) row
      else row)"

definition sample_fifo :: "engine \<Rightarrow> engine" where
  "sample_fifo e =
     (if \<not> rec_fifo e then e else e\<lparr>res := (res e)\<lparr>fifo_rows := fifo_rows (res e) @ [fifo_row e]\<rparr>\<rparr>)"

section \<open>Parts of a cycle\<close>

text \<open>Landing, and the restart of a reader that is done.\<close>

definition land_done :: "cyc_reader \<Rightarrow> cyc_reader" where
  "land_done r = (let r1 = land_reads r in if r_done r1 then r_reset r1 else r1)"

definition pop :: "cyc_reader \<Rightarrow> cyc_reader" where
  "pop r = snd (r_pop r)"

text \<open>One output group per cycle moves from the core to the FIFO of its writer while it has room.\<close>

definition drip :: "int \<Rightarrow> cyc_writer \<Rightarrow> int \<times> cyc_writer" where
  "drip owed w = (if owed > 0 \<and> w_occ w < w_depth w then (owed - 1, w_push 1 w) else (owed, w))"

text \<open>The propose and commit phases thread the fabric, and the index of the next grant.\<close>

definition propose_if :: "bool \<Rightarrow> cyc_reader \<Rightarrow> fabric \<Rightarrow> fabric" where
  "propose_if c r f = (if c then r_propose r f else f)"

definition commit_if :: "bool \<Rightarrow> bool list \<Rightarrow> cyc_reader \<times> nat \<Rightarrow> cyc_reader \<times> nat" where
  "commit_if c g rg = (if c then r_commit g rg else rg)"

definition w_propose_if :: "bool \<Rightarrow> cyc_writer \<Rightarrow> fabric \<Rightarrow> fabric" where
  "w_propose_if c w f = (if c then w_propose w f else f)"

definition w_commit_if :: "bool \<Rightarrow> bool list \<Rightarrow> cyc_writer \<times> nat \<Rightarrow> cyc_writer \<times> nat" where
  "w_commit_if c g wg = (if c then w_commit g wg else wg)"

definition stop :: "engine \<Rightarrow> engine" where
  "stop e = e\<lparr>running := False, res := (res e)\<lparr>busy := cyc e\<rparr>\<rparr>"

definition next_cycle :: "engine \<Rightarrow> engine" where
  "next_cycle e = e\<lparr>cyc := cyc e + 1\<rparr>"

text \<open>The grants of this cycle for what \<open>post_all\<close> posts, after the DMA engine took its banks.\<close>

definition fabric_cycle :: "(fabric \<Rightarrow> fabric) \<Rightarrow> engine \<Rightarrow> engine \<times> bool list" where
  "fabric_cycle posts e =
     (let (mask, d) = dma_step (cyc e) (e_dma e); (f, g) = arbitrate (posts (begin_cycle mask (e_fabric e)))
      in (e\<lparr>e_dma := d, e_fabric := f\<rparr>, g))"

text \<open>A step of the osCore's array: \<open>hold\<close> says that the tile before has not left the array yet.\<close>

definition os_ready :: "bool \<Rightarrow> os_core \<Rightarrow> bool" where
  "os_ready hold o1 \<longleftrightarrow> tiles_os o1 < n_tiles_os o1 \<and> r_occ (R0 o1) > 0 \<and> r_occ (R1 o1) > 0 \<and>
     ((as_os o1 + 1) smod K_os o1 \<noteq> 0 \<or> \<not> hold)"

definition os_fire :: "bool \<Rightarrow> os_core \<Rightarrow> bool \<times> os_core" where
  "os_fire owes o1 =
     (let o2 = o1\<lparr>R0 := pop (R0 o1), R1 := pop (R1 o1), as_os := as_os o1 + 1\<rparr> in
      if as_os o2 smod K_os o2 = 0
      then (True, o2\<lparr>tiles_os := tiles_os o2 + 1, os_owed := (if owes then os_owed o2 + wbpt_os o2 else os_owed o2)\<rparr>)
      else (False, o2))"

definition os_drip :: "os_core \<Rightarrow> os_core" where
  "os_drip o1 = (let (owed, w) = drip (os_owed o1) (W0 o1) in o1\<lparr>os_owed := owed, W0 := w\<rparr>)"

text \<open>The osCore in phase 2 and alone: a finished tile counts in the gauge.\<close>

definition os_stage :: "engine \<Rightarrow> engine" where
  "os_stage e =
     (let o1 = os_drip (e_os e) in
      if os_ready (os_owed o1 \<noteq> 0) o1
      then let (tile, o2) = os_fire True o1; e1 = e\<lparr>e_os := o2\<rparr> in
        (if tile
         then (let e2 = e1\<lparr>g_r10 := g_r10 e1 + 1\<rparr> in
           if rec_fires e2 then e2\<lparr>res := (res e2)\<lparr>r10_fire := r10_fire (res e2) @ [ucast (cyc e2)]\<rparr>\<rparr> else e2)
         else e1)
      else e\<lparr>e_os := o1\<rparr>)"

definition is_drip :: "is_core \<Rightarrow> is_core" where
  "is_drip i = (let (owed, w) = drip (is_owed i) (W3 i) in i\<lparr>is_owed := owed, W3 := w\<rparr>)"

definition is_count :: "is_core \<Rightarrow> bool \<times> is_core" where
  "is_count i =
     (let i1 = i\<lparr>as_is := as_is i + 1\<rparr> in
      if as_is i1 smod K_is i1 = 0 then (True, i1\<lparr>tiles_is := tiles_is i1 + 1, is_owed := is_owed i1 + wbpt_is i1\<rparr>)
      else (False, i1))"

definition is_room :: "is_core \<Rightarrow> bool" where
  "is_room i \<longleftrightarrow> (as_is i + 1) smod K_is i \<noteq> 0 \<or> is_owed i = 0"

definition is_counted :: "engine \<Rightarrow> bool \<times> is_core \<Rightarrow> engine" where
  "is_counted e = (\<lambda>(tile, i). e\<lparr>e_is := i, g_iscore := (if tile then g_iscore e + 1 else g_iscore e)\<rparr>)"

section \<open>The osCore alone, the isCore alone\<close>

definition os_commit :: "bool list \<Rightarrow> os_core \<times> nat \<Rightarrow> os_core \<times> nat" where
  "os_commit g = (\<lambda>(o1, gi).
     let (r0, gi) = r_commit g (R0 o1, gi); (r1, gi) = r_commit g (R1 o1, gi); (w0, gi) = w_commit g (W0 o1, gi)
     in (o1\<lparr>R0 := r0, R1 := r1, W0 := w0\<rparr>, gi))"

definition os_propose :: "os_core \<Rightarrow> fabric \<Rightarrow> fabric" where
  "os_propose o1 f = w_propose (W0 o1) (r_propose (R1 o1) (r_propose (R0 o1) f))"

definition os_land :: "os_core \<Rightarrow> os_core" where
  "os_land o1 = o1\<lparr>R0 := land_done (R0 o1), R1 := land_done (R1 o1)\<rparr>"

definition step_os :: "engine \<Rightarrow> engine" where
  "step_os e =
     (if \<not> running e then e else if cyc e \<ge> cap e then stop e
      else let e1 = next_cycle e; e2 = os_stage (e1\<lparr>e_os := os_land (e_os e1)\<rparr>); o1 = e_os e2 in
        if tiles_os o1 = n_tiles_os o1 \<and> written (W0 o1) \<ge> Wz o1
        then sample_fifo (e2\<lparr>res := (res e2)\<lparr>busy := cyc e2, osc_end := cyc e2\<rparr>, running := False\<rparr>)
        else let (e3, g) = fabric_cycle (os_propose o1) e2 in
          sample_fifo (e3\<lparr>e_os := fst (os_commit g (o1, 0))\<rparr>))"

definition is_stage :: "engine \<Rightarrow> engine" where
  "is_stage e =
     (let i = is_drip (e_is e) in
      if tiles_is i < n_tiles_is i \<and> is_room i then is_counted e (is_count i) else e\<lparr>e_is := i\<rparr>)"

definition step_is :: "engine \<Rightarrow> engine" where
  "step_is e =
     (if \<not> running e then e else if cyc e \<ge> cap e then stop e
      else let e1 = is_stage (next_cycle e); i = e_is e1 in
        if tiles_is i = n_tiles_is i \<and> written (W3 i) \<ge> total_beats (W3 i)
        then sample_fifo (e1\<lparr>res := (res e1)\<lparr>busy := cyc e1, isc_end := cyc e1\<rparr>, running := False\<rparr>)
        else let (e2, g) = fabric_cycle (w_propose (W3 i)) e1 in
          sample_fifo (e2\<lparr>e_is := i\<lparr>W3 := fst (w_commit g (W3 i, 0))\<rparr>\<rparr>))"

section \<open>A SIMD pass\<close>

definition r_wanted :: "simd_core \<Rightarrow> nat \<Rightarrow> bool" where
  "r_wanted d p \<longleftrightarrow> simd_r_en d ! p \<and> simd_r_pops d ! p < simd_r_beats d ! p"

definition w_wanted :: "simd_core \<Rightarrow> nat \<Rightarrow> bool" where
  "w_wanted d p \<longleftrightarrow> simd_w_en d ! p \<and> written (wr d ! p) < total_beats (wr d ! p)"

definition simd_consume :: "nat \<Rightarrow> simd_core \<Rightarrow> simd_core" where
  "simd_consume p d =
     (if \<not> simd_r_en d ! p then d
      else let r = land_reads (rd d ! p) in
        if simd_r_pops d ! p < simd_r_beats d ! p \<and> r_occ r > 0
        then d\<lparr>rd := (rd d)[p := pop r], simd_r_pops := (simd_r_pops d)[p := simd_r_pops d ! p + 1]\<rparr>
        else d\<lparr>rd := (rd d)[p := r]\<rparr>)"

definition simd_produce :: "nat \<Rightarrow> simd_core \<Rightarrow> simd_core" where
  "simd_produce p d =
     (if \<not> simd_w_en d ! p then d
      else let w = wr d ! p in
        if written w + w_occ w < total_beats w \<and> w_occ w < w_depth w then d\<lparr>wr := (wr d)[p := w_push 1 w]\<rparr> else d)"

definition simd_propose :: "simd_core \<Rightarrow> fabric \<Rightarrow> fabric" where
  "simd_propose d f = fold (\<lambda>p. w_propose_if (w_wanted d p) (wr d ! p)) [0..<4]
     (fold (\<lambda>p. propose_if (r_wanted d p) (rd d ! p)) [0..<14] f)"

definition simd_commit_r :: "bool list \<Rightarrow> nat \<Rightarrow> simd_core \<times> nat \<Rightarrow> simd_core \<times> nat" where
  "simd_commit_r g p = (\<lambda>(d, gi). let (r, gi') = commit_if (r_wanted d p) g (rd d ! p, gi) in (d\<lparr>rd := (rd d)[p := r]\<rparr>, gi'))"

definition simd_commit_w :: "bool list \<Rightarrow> nat \<Rightarrow> simd_core \<times> nat \<Rightarrow> simd_core \<times> nat" where
  "simd_commit_w g p = (\<lambda>(d, gi). let (w, gi') = w_commit_if (w_wanted d p) g (wr d ! p, gi) in (d\<lparr>wr := (wr d)[p := w]\<rparr>, gi'))"

definition simd_commit :: "bool list \<Rightarrow> simd_core \<times> nat \<Rightarrow> simd_core \<times> nat" where
  "simd_commit g dg = fold (simd_commit_w g) [0..<4] (fold (simd_commit_r g) [0..<14] dg)"

definition step_simd :: "engine \<Rightarrow> engine" where
  "step_simd e =
     (if \<not> running e then e else if cyc e \<ge> cap e then stop e
      else let e1 = next_cycle e;
               d = fold simd_produce [0..<4] (fold simd_consume [0..<14] (e_simd e1));
               e2 = sample_fifo (e1\<lparr>e_simd := d\<rparr>)
           in if list_all (\<lambda>p. \<not> r_wanted d p) [0..<14] \<and> list_all (\<lambda>p. \<not> w_wanted d p) [0..<4] then stop e2
              else let (e3, g) = fabric_cycle (simd_propose d) e2 in e3\<lparr>e_simd := fst (simd_commit g (d, 0))\<rparr>)"

section \<open>Phase 1\<close>

definition land_if :: "bool \<Rightarrow> cyc_reader \<Rightarrow> cyc_reader" where
  "land_if c r = (if c then land_done r else r)"

definition p1_land :: "engine \<Rightarrow> engine" where
  "p1_land e =
     (let q = e_p1 e; i = e_is e in
      e\<lparr>e_os := os_land (e_os e), e_p1 := q\<lparr>R3c := land_if (p1sw_en q) (R3c q), R4c := land_if (p1sw_en q) (R4c q)\<rparr>,
        e_is := i\<lparr>R12 := land_done (R12 i), R11 := land_if (r11p1_en q) (R11 i), R13 := land_if (r13_en i) (R13 i)\<rparr>\<rparr>)"

text \<open>The osCore's output goes to W0, else to W1, else on chip only.\<close>

definition p1_os_stage :: "engine \<Rightarrow> engine" where
  "p1_os_stage e =
     (let o1 = e_os e; q = e_p1 e; osw = (w0p1_en q \<or> w1_en q);
          (owed, w) = drip (os_owed o1) (if w0p1_en q then W0 o1 else W1 q);
          o2 = (if w0p1_en q then o1\<lparr>os_owed := owed, W0 := w\<rparr> else if w1_en q then o1\<lparr>os_owed := owed\<rparr> else o1);
          q2 = (if \<not> w0p1_en q \<and> w1_en q then q\<lparr>W1 := w\<rparr> else q)
      in if os_ready (osw \<and> os_owed o2 \<noteq> 0) o2
         then let (tile, o3) = os_fire osw o2 in
           (if tile then e\<lparr>e_os := o3, e_p1 := q2\<lparr>osc_elem := osc_elem q2 + 16 * 24\<rparr>, g_r10 := g_r10 e + 1\<rparr>
            else e\<lparr>e_os := o3, e_p1 := q2\<rparr>)
         else e\<lparr>e_os := o2, e_p1 := q2\<rparr>)"

definition conv_stage :: "int \<Rightarrow> p1_core \<Rightarrow> p1_core" where
  "conv_stage its q =
     (if p1sw_en q
      then if sw_elem q < osc_elem q \<and> sw_elem q < its \<and> r_occ (R3c q) > 0 \<and> r_occ (R4c q) > 0
           then q\<lparr>R3c := pop (R3c q), R4c := (if sw_elem q smod 24 = 0 \<and> r_occ (R4c q) > 0 then pop (R4c q) else R4c q),
             sw_elem := sw_elem q + 4\<rparr>
           else q
      else q\<lparr>sw_elem := osc_elem q\<rparr>)"

definition p1_is_stage :: "engine \<Rightarrow> engine" where
  "p1_is_stage e =
     (let i = is_drip (e_is e); q = e_p1 e;
          ahead = (r11p1_en q \<or> as_is i * iters e \<le> sw_elem q * n_tiles_is i * K_is i)
      in if tiles_is i < n_tiles_is i \<and> ahead \<and> r_occ (R12 i) > 0 \<and> (\<not> r13_en i \<or> r_occ (R13 i) > 0) \<and>
            (\<not> r11p1_en q \<or> r_occ (R11 i) > 0) \<and> is_room i
         then is_counted e (is_count (i\<lparr>R12 := pop (R12 i), R11 := (if r11p1_en q then pop (R11 i) else R11 i),
                R13 := (if r13_en i then pop (R13 i) else R13 i)\<rparr>))
         else e\<lparr>e_is := i\<rparr>)"

definition p1_propose :: "engine \<Rightarrow> fabric \<Rightarrow> fabric" where
  "p1_propose e f =
     (let o1 = e_os e; q = e_p1 e; i = e_is e;
          f = r_propose (R1 o1) (r_propose (R0 o1) f);
          f = (if w0p1_en q then w_propose (W0 o1) f else w_propose_if (w1_en q) (W1 q) f);
          f = propose_if (p1sw_en q) (R4c q) (propose_if (p1sw_en q) (R3c q) f)
      in w_propose (W3 i) (propose_if (r13_en i) (R13 i) (propose_if (r11p1_en q) (R11 i) (r_propose (R12 i) f))))"

definition p1_commit :: "bool list \<Rightarrow> engine \<times> nat \<Rightarrow> engine \<times> nat" where
  "p1_commit g = (\<lambda>(e, gi).
     let o1 = e_os e; q = e_p1 e; i = e_is e;
         (r0, gi) = r_commit g (R0 o1, gi); (r1, gi) = r_commit g (R1 o1, gi);
         (w0, gi) = w_commit_if (w0p1_en q) g (W0 o1, gi);
         (w1, gi) = w_commit_if (\<not> w0p1_en q \<and> w1_en q) g (W1 q, gi);
         (r3, gi) = commit_if (p1sw_en q) g (R3c q, gi); (r4, gi) = commit_if (p1sw_en q) g (R4c q, gi);
         (r12, gi) = r_commit g (R12 i, gi); (r11, gi) = commit_if (r11p1_en q) g (R11 i, gi);
         (r13, gi) = commit_if (r13_en i) g (R13 i, gi); (w3, gi) = w_commit g (W3 i, gi)
     in (e\<lparr>e_os := o1\<lparr>R0 := r0, R1 := r1, W0 := w0\<rparr>, e_p1 := q\<lparr>W1 := w1, R3c := r3, R4c := r4\<rparr>,
           e_is := i\<lparr>R12 := r12, R11 := r11, R13 := r13, W3 := w3\<rparr>\<rparr>, gi))"

definition step_p1 :: "engine \<Rightarrow> engine" where
  "step_p1 e =
     (if \<not> running e then e else if cyc e \<ge> cap e then stop e
      else let e1 = p1_os_stage (p1_land (next_cycle e));
               e2 = p1_is_stage (e1\<lparr>e_p1 := conv_stage (iters e1) (e_p1 e1)\<rparr>); i = e_is e2
           in if tiles_is i = n_tiles_is i \<and> written (W3 i) \<ge> total_beats (W3 i) then stop e2
              else let (e3, g) = fabric_cycle (p1_propose e2) e2 in sample_fifo (fst (p1_commit g (e3, 0))))"

section \<open>Phase 2\<close>

definition r7bank :: "engine \<Rightarrow> int \<Rightarrow> nat \<Rightarrow> int" where
  "r7bank e st lane =
     (let a = e_ports e ! 7;
          toff = temporal_off (digits (r7eb (e_su e)) st) (r7ts (e_su e));
          soff = int (lane mod 2) * a_s_stride a ! 0 + int (lane div 2) * a_s_stride a ! 1
      in uint (drop_bit 3 (agu_swz (ucast (a_base a + word_of_int toff + word_of_int soff)) (a_remap a)) AND 31))"

text \<open>Last cycle's reads land.\<close>

definition p2_land :: "engine \<Rightarrow> engine" where
  "p2_land e =
     (let u = e_su e; s = e_sw e; i = e_is e;
          r13 = (if en_isc e \<and> r13_en i then land_reads (R13 i) else R13 i)
      in e\<lparr>e_os := (if en_os e then os_land (e_os e) else e_os e),
           e_su := u\<lparr>landed7 := map2 (+) (landed7 u) (pend7 u), pend7 := [0, 0, 0, 0], R10 := land_reads (R10 u)\<rparr>,
           e_sw := s\<lparr>R2sw := land_if (sw_en s) (R2sw s), R3sw := land_if (sw_en s) (R3sw s),
             R5sw := land_if (sw_en s \<and> (r_active (R5sw s) \<or> r_done (R5sw s))) (R5sw s)\<rparr>,
           e_is := i\<lparr>R11 := land_if (en_isc e) (R11 i), R12 := land_if (en_isc e) (R12 i),
             R13 := (if suc_state_ld u then land_reads r13 else r13)\<rparr>\<rparr>)"

definition suc_released :: "engine \<Rightarrow> bool" where
  "suc_released e \<longleftrightarrow> \<not> en_os e \<or> rel_r10 e \<or> g_r10 e \<ge> r10_cnt e"

definition isc_released :: "engine \<Rightarrow> bool" where
  "isc_released e \<longleftrightarrow> en_isc e \<and> (rel_r11 e \<or> g_r11 e \<ge> r11_cnt e)"

definition mark_starts :: "bool \<Rightarrow> bool \<Rightarrow> engine \<Rightarrow> engine" where
  "mark_starts suc isc e =
     (let e1 = (if suc \<and> \<not> suc_started e then e\<lparr>res := (res e)\<lparr>suc_start := cyc e\<rparr>, suc_started := True\<rparr> else e)
      in if isc \<and> \<not> isc_started e1 then e1\<lparr>res := (res e1)\<lparr>isc_start := cyc e1\<rparr>, isc_started := True\<rparr> else e1)"

text \<open>R7: room in the address FIFO of every lane, and a refresh of four groups for the scan.\<close>

definition r7_feed :: "su_core \<Rightarrow> su_core" where
  "r7_feed u =
     (let u1 = (if list_ex (\<lambda>l. agu7 u - issued7 u ! l \<ge> r7_fifo_d u) [0..<4] then u else u\<lparr>agu7 := agu7 u + 1\<rparr>)
      in if k7 u1 = 0 \<and> \<not> have_bc u1 \<and> min_list4 (landed7 u1) - consumed7 u1 \<ge> 4
         then u1\<lparr>consumed7 := consumed7 u1 + 4, have_bc := True\<rparr> else u1)"

definition sw_stage :: "u64 \<Rightarrow> int \<Rightarrow> int \<Rightarrow> sw_core \<Rightarrow> sw_core" where
  "sw_stage c its out s =
     (let need = (sw_dt s smod 8 = 0) in
      if sw_en s \<and> sw_dt s < its \<and> sw_dt s - out < 8 \<and> (\<not> need \<or> r_occ (R2sw s) > 0 \<and> r_occ (R3sw s) > 0)
      then let s1 = s\<lparr>sw_acc := sw_acc s + its\<rparr> in
        if sw_acc s1 \<ge> sw_cyc s1
        then s1\<lparr>sw_acc := sw_acc s1 - sw_cyc s1, R2sw := (if need then pop (R2sw s1) else R2sw s1),
          R3sw := (if need then pop (R3sw s1) else R3sw s1),
          sw_first := (if sw_dt s1 = 0 then uint c else sw_first s1), sw_dt := sw_dt s1 + 1, sw_last := uint c\<rparr>
        else s1
      else s)"

text \<open>One element of the scan: eight make a word of W2.\<close>

definition suc_fire :: "su_core \<Rightarrow> su_core" where
  "suc_fire u =
     (let u1 = u\<lparr>out_su := out_su u + 1, y_in_word := y_in_word u + 1\<rparr>;
          u2 = (if y_in_word u1 = 8 then u1\<lparr>y_in_word := 0, W2 := w_push 1 (W2 u1)\<rparr> else u1);
          u3 = (if out_su u2 smod 8 = 0 then u2\<lparr>R10 := pop (R10 u2)\<rparr> else u2);
          u4 = u3\<lparr>k7 := k7 u3 + 1\<rparr>
      in if k7 u4 = 4 then u4\<lparr>k7 := 0, have_bc := False\<rparr> else u4)"

definition suc_stage :: "bool \<Rightarrow> engine \<Rightarrow> engine" where
  "suc_stage rel e =
     (let u = e_su e in
      if rel \<and> out_su u < iters e \<and> have_bc u \<and> r_occ (R10 u) > 0 \<and> (\<not> sw_en (e_sw e) \<or> sw_dt (e_sw e) > out_su u)
      then let e1 = e\<lparr>g_r11 := g_r11 e + 1, e_su := suc_fire u\<rparr> in
        (if rec_fires e1 then e1\<lparr>res := (res e1)\<lparr>r11_fire := r11_fire (res e1) @ [ucast (cyc e1)]\<rparr>\<rparr> else e1)
      else e)"

text \<open>The hidden state streams in over R13 and out over W3 in proportion to the scan.\<close>

definition state_carry :: "engine \<Rightarrow> engine" where
  "state_carry e =
     (let u = e_su e; i = e_is e;
          ld = (suc_state_ld u \<and> r_occ (R13 i) > 0 \<and> iters e > 0 \<and> r13_pop u * iters e \<le> out_su u * r13_tot u + iters e);
          u1 = (if ld then u\<lparr>r13_pop := r13_pop u + 1\<rparr> else u); i1 = (if ld then i\<lparr>R13 := pop (R13 i)\<rparr> else i);
          sv = (suc_state_sv u1 \<and> w3_push u1 < w3st_tot u1 \<and> iters e > 0 \<and> (w3_push u1 + 1) * iters e \<le> out_su u1 * w3st_tot u1)
      in e\<lparr>e_su := (if sv then u1\<lparr>w3_push := w3_push u1 + 1\<rparr> else u1),
           e_is := (if sv then i1\<lparr>W3 := w_push 1 (W3 i1)\<rparr> else i1)\<rparr>)"

text \<open>The isCore: the operand that stays is loaded for \<open>serDesA\<close> cycles, then used for \<open>dFinal\<close> steps.\<close>

definition p2_is_stage :: "bool \<Rightarrow> engine \<Rightarrow> engine" where
  "p2_is_stage rel e =
     (let i = is_drip (e_is e) in
      if rel \<and> tiles_is i < n_tiles_is i
      then if isc_aload i > 0 then e\<lparr>e_is := i\<lparr>isc_aload := isc_aload i - 1\<rparr>\<rparr>
           else if r_occ (R11 i) > 0 \<and> r_occ (R12 i) > 0 \<and> is_room i
           then let (tile, i1) = is_count (i\<lparr>R11 := pop (R11 i), R12 := pop (R12 i),
                      R13 := (if r13_en i \<and> r_occ (R13 i) > 0 then pop (R13 i) else R13 i)\<rparr>);
                    i2 = i1\<lparr>isc_since_a := isc_since_a i1 + 1\<rparr>
                in is_counted e (tile, if isc_since_a i2 = e_dFinal e
                     then i2\<lparr>isc_since_a := 0, isc_aload := serDesA i2\<rparr> else i2)
           else e\<lparr>e_is := i\<rparr>
      else e\<lparr>e_is := i\<rparr>)"

definition mark_ends :: "engine \<Rightarrow> engine" where
  "mark_ends e =
     (let o1 = e_os e; u = e_su e;
          e1 = (if osc_end (res e) = 0 \<and> tiles_os o1 = n_tiles_os o1 \<and> written (W0 o1) \<ge> Wz o1
                then e\<lparr>res := (res e)\<lparr>osc_end := cyc e\<rparr>\<rparr> else e)
      in if suc_end (res e1) = 0 \<and> out_su u \<ge> iters e then e1\<lparr>res := (res e1)\<lparr>suc_end := cyc e1\<rparr>\<rparr> else e1)"

definition p2_finished :: "engine \<Rightarrow> bool" where
  "p2_finished e =
     (let u = e_su e; i = e_is e in
      if en_isc e then tiles_is i = n_tiles_is i \<and> written (W3 i) \<ge> total_beats (W3 i)
      else out_su u \<ge> iters e \<and> written (W2 u) \<ge> total_beats (W2 u) \<and> (\<not> suc_state_sv u \<or> written (W3 i) \<ge> w3st_tot u))"

definition p2_finish :: "engine \<Rightarrow> engine" where
  "p2_finish e =
     (let c = cyc e; r = (res e)\<lparr>busy := c, isc_end := c, sw_start := word_of_int (sw_first (e_sw e)), sw_end := word_of_int (sw_last (e_sw e))\<rparr>;
          r1 = (if osc_end r = 0 then r\<lparr>osc_end := c\<rparr> else r); r2 = (if suc_end r1 = 0 then r1\<lparr>suc_end := c\<rparr> else r1)
      in e\<lparr>res := r2, running := False\<rparr>)"

definition r7_wants :: "su_core \<Rightarrow> nat \<Rightarrow> bool" where
  "r7_wants u l \<longleftrightarrow> issued7 u ! l < agu7 u \<and> issued7 u ! l - consumed7 u < r7_data_d u"

definition r7_propose :: "engine \<Rightarrow> fabric \<Rightarrow> fabric" where
  "r7_propose e f = (let u = e_su e in
     fold (\<lambda>l f. if r7_wants u l
         then post (r7bank e (issued7 u ! l) l) (lane_tok T_R7 l) (if landed7 u ! l - consumed7 u \<le> 1 then 1 else 0) f
         else f) [0..<4] f)"

definition r7_commit_lane :: "bool list \<Rightarrow> nat \<Rightarrow> su_core \<times> nat \<Rightarrow> su_core \<times> nat" where
  "r7_commit_lane g l = (\<lambda>(u, gi).
     if \<not> r7_wants u l then (u, gi)
     else (if g ! gi then u\<lparr>issued7 := (issued7 u)[l := issued7 u ! l + 1], pend7 := (pend7 u)[l := 1]\<rparr> else u, gi + 1))"

definition r7_commit :: "bool list \<Rightarrow> su_core \<times> nat \<Rightarrow> su_core \<times> nat" where
  "r7_commit g = fold (r7_commit_lane g) [0..<4]"

text \<open>
  A write that a writer finished this cycle marks its word; a read that a reader was granted this cycle counts as stale
  when the word is not marked. Both take the position and the counts from before the commit.
\<close>

definition mark_written :: "int \<Rightarrow> cyc_writer \<Rightarrow> cyc_writer \<Rightarrow> bool list \<Rightarrow> bool list" where
  "mark_written words w w' marks =
     (let off = word_off (w_ts w) (w_ti w) in
      if written w' > written w \<and> off \<ge> 0 \<and> off < words then marks[nat off := True] else marks)"

definition stale_read :: "int \<Rightarrow> bool list \<Rightarrow> cyc_reader \<Rightarrow> cyc_reader \<Rightarrow> int" where
  "stale_read words marks r r' =
     (let off = word_off (r_ts r) (r_ti r) in
      if pending_push r' > pending_push r \<and> off \<ge> 0 \<and> off < words \<and> \<not> marks ! nat off then 1 else 0)"

definition p2_propose :: "bool \<Rightarrow> bool \<Rightarrow> engine \<Rightarrow> fabric \<Rightarrow> fabric" where
  "p2_propose suc isc e f =
     (let u = e_su e; s = e_sw e; i = e_is e;
          f = (if en_os e then os_propose (e_os e) f else f);
          f = w_propose (W2 u) (propose_if suc (R10 u) (r7_propose e f));
          f = propose_if (sw_en s \<and> r_active (R5sw s)) (R5sw s) (propose_if (sw_en s) (R3sw s) (propose_if (sw_en s) (R2sw s) f));
          f = propose_if (isc \<and> r13_en i) (R13 i) (propose_if isc (R12 i) (propose_if isc (R11 i) f))
      in w_propose_if (en_isc e \<or> suc_state_sv u) (W3 i) (propose_if (suc_state_ld u) (R13 i) f))"

definition p2_commit_os :: "bool list \<Rightarrow> os_core \<times> nat \<Rightarrow> os_core \<times> nat" where
  "p2_commit_os g = (\<lambda>(o1, gi).
     let (o2, gi) = os_commit g (o1, gi) in (o2\<lparr>zwr := mark_written (Wz o1) (W0 o1) (W0 o2) (zwr o2)\<rparr>, gi))"

definition p2_commit_su :: "bool \<Rightarrow> os_core \<Rightarrow> bool list \<Rightarrow> su_core \<times> nat \<Rightarrow> su_core \<times> nat \<times> int" where
  "p2_commit_su suc o1 g = (\<lambda>(u, gi).
     let (u, gi) = r7_commit g (u, gi);
         (r10, gi) = commit_if suc g (R10 u, gi);
         z = (if suc then stale_read (Wz o1) (zwr o1) (R10 u) r10 else 0);
         (w2, gi) = w_commit g (W2 u, gi)
     in (u\<lparr>R10 := r10, W2 := w2, ywr := mark_written (Wy u) (W2 u) w2 (ywr u)\<rparr>, gi, z))"

definition p2_commit_sw :: "bool list \<Rightarrow> sw_core \<times> nat \<Rightarrow> sw_core \<times> nat" where
  "p2_commit_sw g = (\<lambda>(s, gi).
     let (r2, gi) = commit_if (sw_en s) g (R2sw s, gi); (r3, gi) = commit_if (sw_en s) g (R3sw s, gi);
         (r5, gi) = commit_if (sw_en s \<and> r_active (R5sw s)) g (R5sw s, gi)
     in (s\<lparr>R2sw := r2, R3sw := r3, R5sw := r5\<rparr>, gi))"

definition p2_commit_is :: "bool \<Rightarrow> bool \<Rightarrow> su_core \<Rightarrow> bool list \<Rightarrow> is_core \<times> nat \<Rightarrow> is_core \<times> nat \<times> int" where
  "p2_commit_is enabled isc u g = (\<lambda>(i, gi).
     let (r11, gi) = commit_if isc g (R11 i, gi);
         y = (if isc then stale_read (Wy u) (ywr u) (R11 i) r11 else 0);
         (r12, gi) = commit_if isc g (R12 i, gi); (r13, gi) = commit_if (isc \<and> r13_en i) g (R13 i, gi);
         (r13, gi) = commit_if (suc_state_ld u) g (r13, gi);
         (w3, gi) = w_commit_if (enabled \<or> suc_state_sv u) g (W3 i, gi)
     in (i\<lparr>R11 := r11, R12 := r12, R13 := r13, W3 := w3\<rparr>, gi, y))"

definition p2_commit :: "bool \<Rightarrow> bool \<Rightarrow> bool list \<Rightarrow> engine \<times> nat \<Rightarrow> engine \<times> nat" where
  "p2_commit suc isc g = (\<lambda>(e, gi).
     let (o1, gi) = (if en_os e then p2_commit_os g (e_os e, gi) else (e_os e, gi));
         (u, gi, z) = p2_commit_su suc o1 g (e_su e, gi);
         (s, gi) = p2_commit_sw g (e_sw e, gi);
         (i, gi, y) = p2_commit_is (en_isc e) isc u g (e_is e, gi)
     in (e\<lparr>e_os := o1, e_su := u, e_sw := s, e_is := i,
           res := (res e)\<lparr>stale_z := stale_z (res e) + z, stale_y := stale_y (res e) + y\<rparr>\<rparr>, gi))"

definition p2_compute :: "bool \<Rightarrow> bool \<Rightarrow> engine \<Rightarrow> engine" where
  "p2_compute suc isc e =
     (let e1 = (if en_os e then os_stage e else e);
          e2 = e1\<lparr>e_su := r7_feed (e_su e1)\<rparr>;
          e3 = e2\<lparr>e_sw := sw_stage (cyc e2) (iters e2) (out_su (e_su e2)) (e_sw e2)\<rparr>
      in p2_is_stage isc (state_carry (suc_stage suc e3)))"

definition step_p2 :: "engine \<Rightarrow> engine" where
  "step_p2 e =
     (if \<not> running e then e else if cyc e \<ge> cap e then stop e
      else let e1 = p2_land (next_cycle e); suc = suc_released e1; isc = isc_released e1;
               e2 = mark_ends (p2_compute suc isc (mark_starts suc isc e1))
           in if p2_finished e2 then p2_finish e2
              else let (e3, g) = fabric_cycle (p2_propose suc isc e2) e2 in sample_fifo (fst (p2_commit suc isc g (e3, 0))))"

section \<open>One cycle\<close>

definition engine_step :: "engine \<Rightarrow> engine" where
  "engine_step e =
     (if kind e = 2 then step_p1 e else if kind e = 3 then step_os e else if kind e = 4 then step_is e
      else if kind e = 5 then step_simd e else step_p2 e)"

primrec engine_run :: "nat \<Rightarrow> engine \<Rightarrow> engine" where
  "engine_run 0 e = e"
| "engine_run (Suc n) e = engine_run n (engine_step e)"

definition engine_enqueue :: "u32 \<Rightarrow> u32 \<Rightarrow> bool \<Rightarrow> u64 \<Rightarrow> engine \<Rightarrow> engine" where
  "engine_enqueue addr bytes l3 at e = e\<lparr>e_dma := dma_enqueue addr bytes l3 at (e_dma e)\<rparr>"

end
