(* ===== verification/Engine_flow.thy ===== *)
theory Engine_flow
  imports Engine
begin

text \<open>
  Back-pressure in the engine: which operations keep the output FIFOs of the cores within their depth, through the stages,
  the commits and the configuration of every mode.
\<close>

section \<open>Back-pressure\<close>

definition w_ok :: "cyc_writer \<Rightarrow> bool" where
  "w_ok w \<longleftrightarrow> 0 \<le> w_occ w \<and> w_occ w \<le> w_depth w"

lemma w_commit_count:
  "w_occ (fst (w_commit g (w, gi))) = w_occ w \<and> written (fst (w_commit g (w, gi))) = written w \<or>
   0 < w_occ w \<and> w_occ (fst (w_commit g (w, gi))) = w_occ w - 1 \<and> written (fst (w_commit g (w, gi))) = written w + 1"
  "w_depth (fst (w_commit g (w, gi))) = w_depth w" "w_eb (fst (w_commit g (w, gi))) = w_eb w"
  "total_beats (fst (w_commit g (w, gi))) = total_beats w"
proof -
  obtain w1 gi1 every where s: "fold (commit_w_lane g) [0..<w_channels w] (w, gi, True) = (w1, gi1, every)"
    by (metis prod_cases3)
  have u: "w1\<lparr>lane_done := y\<rparr> = w\<lparr>lane_done := y\<rparr>" for y
    using commit_w_lanes [where granted = g and ls = "[0..<w_channels w]" and w = w and gi = gi and every = True and x = y] by (simp add: s)
  from arg_cong [where f = w_occ, OF u] arg_cong [where f = written, OF u] arg_cong [where f = w_depth, OF u]
    arg_cong [where f = w_eb, OF u]
  have f: "w_occ w1 = w_occ w" "written w1 = written w" "w_depth w1 = w_depth w" "w_eb w1 = w_eb w" by simp_all
  show "w_occ (fst (w_commit g (w, gi))) = w_occ w \<and> written (fst (w_commit g (w, gi))) = written w \<or>
   0 < w_occ w \<and> w_occ (fst (w_commit g (w, gi))) = w_occ w - 1 \<and> written (fst (w_commit g (w, gi))) = written w + 1"
    "w_depth (fst (w_commit g (w, gi))) = w_depth w" "w_eb (fst (w_commit g (w, gi))) = w_eb w"
    by (auto simp: w_commit_def s f)
  then show "total_beats (fst (w_commit g (w, gi))) = total_beats w" by (simp add: total_beats_def)
qed

lemma w_ok_commit: "w_ok w \<Longrightarrow> w_ok (fst (w_commit g (w, gi)))"
  using w_commit_count(1,2) [of g w gi] by (auto simp: w_ok_def)

lemma w_ok_commit_if: "w_ok w \<Longrightarrow> w_ok (fst (w_commit_if c g (w, gi)))"
  by (simp add: w_commit_if_def w_ok_commit)

lemma w_ok_drip: "w_ok w \<Longrightarrow> w_ok (snd (drip owed w))"
  by (simp add: drip_def w_ok_def w_push_def)

text \<open>Every writer but those of the scan.\<close>

definition bounded :: "engine \<Rightarrow> bool" where
  "bounded e \<longleftrightarrow> w_ok (W0 (e_os e)) \<and> w_ok (W1 (e_p1 e)) \<and> (suc_state_sv (e_su e) \<or> w_ok (W3 (e_is e))) \<and>
     length (wr (e_simd e)) = 4 \<and> (\<forall>p < 4. w_ok (wr (e_simd e) ! p))"

lemma W0_os_fire [simp]: "W0 (snd (os_fire x o1)) = W0 o1"
  by (simp add: os_fire_def Let_def)

lemma W3_is_count [simp]: "W3 (snd (is_count i)) = W3 i"
  by (simp add: is_count_def Let_def)

lemma bounded_same:
  "bounded e \<Longrightarrow> W0 (e_os e') = W0 (e_os e) \<Longrightarrow> W1 (e_p1 e') = W1 (e_p1 e) \<Longrightarrow> W3 (e_is e') = W3 (e_is e) \<Longrightarrow>
    suc_state_sv (e_su e') = suc_state_sv (e_su e) \<Longrightarrow> wr (e_simd e') = wr (e_simd e) \<Longrightarrow> bounded e'"
  by (simp add: bounded_def)

lemma bounded_update [simp]:
  "bounded (e\<lparr>res := x0\<rparr>) = bounded e"
  "bounded (e\<lparr>running := x1\<rparr>) = bounded e"
  "bounded (e\<lparr>cyc := x2\<rparr>) = bounded e"
  "bounded (e\<lparr>suc_started := x3\<rparr>) = bounded e"
  "bounded (e\<lparr>isc_started := x4\<rparr>) = bounded e"
  "bounded (e\<lparr>g_r10 := x5\<rparr>) = bounded e"
  "bounded (e\<lparr>g_r11 := x6\<rparr>) = bounded e"
  "bounded (e\<lparr>g_iscore := x7\<rparr>) = bounded e"
  "bounded (e\<lparr>e_sw := x8\<rparr>) = bounded e"
  "bounded (e\<lparr>e_dma := x9\<rparr>) = bounded e"
  "bounded (e\<lparr>e_fabric := x10\<rparr>) = bounded e"
  by (simp_all add: bounded_def)

lemma bounded_su: "suc_state_sv u = suc_state_sv (e_su e) \<Longrightarrow> bounded (e\<lparr>e_su := u\<rparr>) = bounded e"
  by (simp add: bounded_def)

lemma bounded_sample: "bounded (sample_fifo e) = bounded e"
  by (simp add: sample_fifo_def bounded_def)

lemma bounded_stop: "bounded e \<Longrightarrow> bounded (stop e)" "bounded e \<Longrightarrow> bounded (next_cycle e)"
  by (simp_all add: stop_def next_cycle_def bounded_def)

lemma bounded_fabric: "fabric_cycle posts e = (e', g) \<Longrightarrow> bounded e' = bounded e"
  by (auto simp: fabric_cycle_def bounded_def split: prod.splits)

lemma bounded_fabric_fst: "bounded (fst (fabric_cycle posts e)) = bounded e"
  by (simp add: fabric_cycle_def bounded_def split: prod.splits)

lemma drip_ok: "drip owed w = (owed', w') \<Longrightarrow> w_ok w \<Longrightarrow> w_ok w'"
  using w_ok_drip [of w owed] by simp

lemma os_fire_W0: "os_fire x o1 = (tile, o2) \<Longrightarrow> W0 o2 = W0 o1"
  using W0_os_fire [of x o1] by simp

lemma is_count_W3: "is_count i = (tile, i2) \<Longrightarrow> W3 i2 = W3 i"
  using W3_is_count [of i] by simp

lemma w_commit_ok: "w_commit g (w, gi) = (w', gi') \<Longrightarrow> w_ok w \<Longrightarrow> w_ok w'"
  using w_ok_commit [of w g gi] by simp

lemma w_commit_if_ok: "w_commit_if c g (w, gi) = (w', gi') \<Longrightarrow> w_ok w \<Longrightarrow> w_ok w'"
  using w_ok_commit_if [of w c g gi] by simp

lemmas part_ok = drip_ok os_fire_W0 is_count_W3 w_commit_ok w_commit_if_ok

lemma bounded_os_stage: "bounded e \<Longrightarrow> bounded (os_stage e)"
  by (auto simp: os_stage_def os_drip_def bounded_def Let_def dest!: part_ok split: prod.splits)

lemma bounded_is_counted: "is_count i = ti \<Longrightarrow> bounded (e\<lparr>e_is := i\<rparr>) \<Longrightarrow> bounded (is_counted e ti)"
  by (auto simp: is_counted_def bounded_def dest: is_count_W3 split: prod.splits)

lemma bounded_is_drip: "bounded e \<Longrightarrow> bounded (e\<lparr>e_is := is_drip (e_is e)\<rparr>)"
  by (auto simp: is_drip_def bounded_def dest: part_ok split: prod.splits)

lemma bounded_is_stage: "bounded e \<Longrightarrow> bounded (is_stage e)"
  by (auto simp: is_stage_def Let_def intro!: bounded_is_counted bounded_is_drip)

lemma bounded_p1_land: "bounded e \<Longrightarrow> bounded (p1_land e)"
  by (rule bounded_same) (simp_all add: p1_land_def Let_def os_land_def)

lemma bounded_p1_os_stage: "bounded e \<Longrightarrow> bounded (p1_os_stage e)"
  by (auto simp: p1_os_stage_def bounded_def Let_def dest!: part_ok split: prod.splits)

lemma bounded_conv: "bounded e \<Longrightarrow> bounded (e\<lparr>e_p1 := conv_stage its (e_p1 e)\<rparr>)"
  by (rule bounded_same) (simp_all add: conv_stage_def)

lemma bounded_update_W3_same: "bounded (e\<lparr>e_is := i\<rparr>) \<Longrightarrow> W3 i' = W3 i \<Longrightarrow> bounded (e\<lparr>e_is := i'\<rparr>)"
  by (simp add: bounded_def)

lemma bounded_p1_is_stage: "bounded e \<Longrightarrow> bounded (p1_is_stage e)"
  by (auto simp: p1_is_stage_def Let_def intro!: bounded_is_counted bounded_is_drip bounded_update_W3_same [OF bounded_is_drip])

lemma bounded_p1_commit: "bounded e \<Longrightarrow> bounded (fst (p1_commit g (e, gi)))"
  by (auto simp: p1_commit_def bounded_def Let_def dest: part_ok split: prod.splits)

lemma bounded_p2_land: "bounded e \<Longrightarrow> bounded (p2_land e)"
  by (rule bounded_same) (simp_all add: p2_land_def Let_def os_land_def)

lemma bounded_marks [simp]: "bounded (mark_starts a b e) = bounded e" "bounded (mark_ends e) = bounded e" "bounded (p2_finish e) = bounded e"
  by (simp_all add: mark_starts_def mark_ends_def p2_finish_def Let_def)

lemma suc_fire_sv [simp]: "suc_state_sv (suc_fire u) = suc_state_sv u" "suc_state_sv (r7_feed u) = suc_state_sv u"
  by (simp_all add: suc_fire_def r7_feed_def Let_def)

lemma bounded_suc_stage [simp]: "bounded (suc_stage a e) = bounded e"
  by (simp add: suc_stage_def Let_def bounded_su)

lemma bounded_r7_feed [simp]: "bounded (e\<lparr>e_su := r7_feed (e_su e)\<rparr>) = bounded e"
  by (simp add: bounded_su)

lemma bounded_state_carry: "bounded e \<Longrightarrow> bounded (state_carry e)"
  by (auto simp: state_carry_def bounded_def Let_def)

lemma p2_is_stage_fields:
  "W3 (e_is (p2_is_stage a e)) = W3 (is_drip (e_is e))" "e_os (p2_is_stage a e) = e_os e" "e_p1 (p2_is_stage a e) = e_p1 e"
  "e_su (p2_is_stage a e) = e_su e" "e_simd (p2_is_stage a e) = e_simd e"
  by (simp_all add: p2_is_stage_def is_counted_def Let_def case_prod_beta)

lemma bounded_p2_is_stage: "bounded e \<Longrightarrow> bounded (p2_is_stage a e)"
  by (rule bounded_same [OF bounded_is_drip]) (simp_all add: p2_is_stage_fields)

lemma bounded_p2_compute: "bounded e \<Longrightarrow> bounded (p2_compute a b e)"
  by (simp add: p2_compute_def Let_def bounded_p2_is_stage bounded_state_carry bounded_os_stage)

lemma r7_commit_sv: "suc_state_sv (fst (r7_commit g ug)) = suc_state_sv (fst ug)"
proof -
  have "suc_state_sv (fst (fold (r7_commit_lane g) ls ug)) = suc_state_sv (fst ug)" for ls
    by (induction ls arbitrary: ug) (auto simp: r7_commit_lane_def split: prod.splits)
  then show ?thesis by (simp add: r7_commit_def)
qed

lemma r7_commit_sv_pair: "r7_commit g (u, gi) = (u', gi') \<Longrightarrow> suc_state_sv u' = suc_state_sv u"
  using r7_commit_sv [of g "(u, gi)"] by simp

lemma bounded_p2_commit: "bounded e \<Longrightarrow> bounded (fst (p2_commit a b g (e, gi)))"
  by (auto simp: p2_commit_def p2_commit_os_def os_commit_def p2_commit_su_def p2_commit_is_def bounded_def Let_def
      dest!: part_ok r7_commit_sv_pair split: prod.splits if_splits)

definition writers_ok :: "simd_core \<Rightarrow> bool" where
  "writers_ok d \<longleftrightarrow> length (wr d) = 4 \<and> (\<forall>p < 4. w_ok (wr d ! p))"

lemma bounded_simd: "bounded e \<Longrightarrow> bounded (e\<lparr>e_simd := d\<rparr>) = writers_ok d" "bounded e \<Longrightarrow> writers_ok (e_simd e)"
  by (simp_all add: bounded_def writers_ok_def)

lemma fold_invariant: "(\<And>x s. P s \<Longrightarrow> P (f x s)) \<Longrightarrow> P s \<Longrightarrow> P (fold f xs s)"
  by (induction xs arbitrary: s) simp_all

lemma writers_ok_compute: "writers_ok d \<Longrightarrow> writers_ok (fold simd_produce [0..<4] (fold simd_consume [0..<14] d))"
proof (intro fold_invariant [where P = writers_ok])
  show "writers_ok (simd_consume p d)" if "writers_ok d" for p d
    using that by (simp add: simd_consume_def writers_ok_def Let_def)
  show "writers_ok (simd_produce p d)" if "writers_ok d" for p d
    using that by (cases "p < 4") (auto simp: simd_produce_def writers_ok_def Let_def nth_list_update w_ok_def w_push_def list_update_beyond)
qed

lemma writers_ok_commit: "writers_ok d \<Longrightarrow> writers_ok (fst (simd_commit g (d, gi)))"
  unfolding simd_commit_def
proof (intro fold_invariant [where P = "\<lambda>dg. writers_ok (fst dg)"])
  show "writers_ok (fst (simd_commit_r g p dg))" if "writers_ok (fst dg)" for p dg
    using that by (auto simp: simd_commit_r_def writers_ok_def split: prod.splits)
  show "writers_ok (fst (simd_commit_w g p dg))" if "writers_ok (fst dg)" for p dg
  proof (cases "p < 4")
    case True
    then show ?thesis
      using that by (auto simp: simd_commit_w_def writers_ok_def nth_list_update dest: w_commit_if_ok split: prod.splits)
  next
    case False
    then show ?thesis using that by (auto simp: simd_commit_w_def writers_ok_def list_update_beyond split: prod.splits)
  qed
qed simp

lemma bounded_os_land: "bounded e \<Longrightarrow> bounded (e\<lparr>e_os := os_land (e_os e)\<rparr>)"
  by (rule bounded_same) (simp_all add: os_land_def)

lemma bounded_os_commit: "bounded e \<Longrightarrow> bounded (e\<lparr>e_os := fst (os_commit g (e_os e, gi))\<rparr>)"
  by (auto simp: os_commit_def bounded_def dest: part_ok split: prod.splits)

lemma bounded_W3_commit: "bounded e \<Longrightarrow> bounded (e\<lparr>e_is := (e_is e)\<lparr>W3 := fst (w_commit g (W3 (e_is e), gi))\<rparr>\<rparr>)"
  by (auto simp: bounded_def w_ok_commit)

lemma fabric_cycle_parts: "fabric_cycle posts e = (e', g) \<Longrightarrow> e_os e' = e_os e \<and> e_is e' = e_is e \<and> e_simd e' = e_simd e"
  by (auto simp: fabric_cycle_def split: prod.splits)

lemma bounded_step_os: "bounded e \<Longrightarrow> bounded (step_os e)"
proof -
  assume b: "bounded e"
  let ?e = "os_stage ((next_cycle e)\<lparr>e_os := os_land (e_os (next_cycle e))\<rparr>)"
  have s: "bounded ?e" by (intro bounded_os_stage bounded_os_land bounded_stop b)
  obtain e3 g where f: "fabric_cycle (os_propose (e_os ?e)) ?e = (e3, g)" by (metis prod.exhaust)
  have "bounded (e3\<lparr>e_os := fst (os_commit g (e_os ?e, 0))\<rparr>)"
    using bounded_os_commit [of e3 g 0] s bounded_fabric [OF f] fabric_cycle_parts [OF f] by simp
  then show ?thesis using b s by (simp add: step_os_def Let_def f bounded_sample bounded_stop)
qed

lemma bounded_step_is: "bounded e \<Longrightarrow> bounded (step_is e)"
proof -
  assume b: "bounded e"
  let ?e = "is_stage (next_cycle e)"
  have s: "bounded ?e" by (intro bounded_is_stage bounded_stop b)
  obtain e3 g where f: "fabric_cycle (w_propose (W3 (e_is ?e))) ?e = (e3, g)" by (metis prod.exhaust)
  have "bounded (e3\<lparr>e_is := (e_is ?e)\<lparr>W3 := fst (w_commit g (W3 (e_is ?e), 0))\<rparr>\<rparr>)"
    using bounded_W3_commit [of e3 g 0] s bounded_fabric [OF f] fabric_cycle_parts [OF f] by simp
  then show ?thesis using b s by (simp add: step_is_def Let_def f bounded_sample bounded_stop)
qed

lemma bounded_step_simd: "bounded e \<Longrightarrow> bounded (step_simd e)"
proof -
  assume b: "bounded e"
  let ?d = "fold simd_produce [0..<4] (fold simd_consume [0..<14] (e_simd (next_cycle e)))"
  let ?e = "sample_fifo ((next_cycle e)\<lparr>e_simd := ?d\<rparr>)"
  have d: "writers_ok ?d" by (intro writers_ok_compute bounded_simd bounded_stop b)
  then have s: "bounded ?e" using b by (simp add: bounded_sample bounded_simd bounded_stop)
  obtain e3 g where f: "fabric_cycle (simd_propose ?d) ?e = (e3, g)" by (metis prod.exhaust)
  have "bounded (e3\<lparr>e_simd := fst (simd_commit g (?d, 0))\<rparr>)"
    using s bounded_fabric [OF f] d by (simp add: bounded_simd writers_ok_commit)
  then show ?thesis using b s by (simp add: step_simd_def Let_def f bounded_stop)
qed

lemma bounded_step_p1: "bounded e \<Longrightarrow> bounded (step_p1 e)"
proof -
  assume b: "bounded e"
  let ?e1 = "p1_os_stage (p1_land (next_cycle e))"
  let ?e = "p1_is_stage (?e1\<lparr>e_p1 := conv_stage (iters ?e1) (e_p1 ?e1)\<rparr>)"
  have s: "bounded ?e" by (intro bounded_p1_is_stage bounded_conv bounded_p1_os_stage bounded_p1_land bounded_stop b)
  obtain e3 g where f: "fabric_cycle (p1_propose ?e) ?e = (e3, g)" by (metis prod.exhaust)
  have "bounded (fst (p1_commit g (e3, 0)))" using s bounded_fabric [OF f] by (simp add: bounded_p1_commit)
  then show ?thesis using b s by (simp add: step_p1_def Let_def f bounded_sample bounded_stop)
qed

lemma bounded_step_p2: "bounded e \<Longrightarrow> bounded (step_p2 e)"
proof -
  assume b: "bounded e"
  let ?e1 = "p2_land (next_cycle e)"
  let ?s = "suc_released ?e1" and ?i = "isc_released ?e1"
  let ?e = "mark_ends (p2_compute ?s ?i (mark_starts ?s ?i ?e1))"
  have s: "bounded ?e" using b by (simp add: bounded_p2_compute bounded_p2_land bounded_stop)
  obtain e3 g where f: "fabric_cycle (p2_propose ?s ?i ?e) ?e = (e3, g)" by (metis prod.exhaust)
  have "bounded (fst (p2_commit ?s ?i g (e3, 0)))" using s bounded_fabric [OF f] by (simp add: bounded_p2_commit)
  then show ?thesis using b s by (simp add: step_p2_def Let_def f bounded_sample bounded_stop)
qed

lemma bounded_step: "bounded e \<Longrightarrow> bounded (engine_step e)"
  by (simp add: engine_step_def bounded_step_os bounded_step_is bounded_step_simd bounded_step_p1 bounded_step_p2)

lemma bounded_run: "bounded e \<Longrightarrow> bounded (engine_run n e)"
  by (induction n arbitrary: e) (simp_all add: bounded_step)

lemma w_ok_configure: "w_ok (conf_writer ps p nch nsp tok w)"
  by (auto simp: w_ok_def conf_writer_def w_configure_def snax_streamer_depth_def streamer_depths_def nth_Cons split: nat.splits)

lemma w_ok_configure_if: "w_ok w \<Longrightarrow> w_ok (if c then conf_writer ps p nch nsp tok w' else w)"
  by (simp add: w_ok_configure)

lemma bounded_start_run [simp]: "bounded (start_run c e) = bounded e"
  by (simp add: start_run_def bounded_def)

lemma bounded_control [simp]:
  "bounded (e\<lparr>rel_r10 := a\<rparr>) = bounded e" "bounded (e\<lparr>rel_r11 := b\<rparr>) = bounded e" "bounded (e\<lparr>cap := c\<rparr>) = bounded e"
  "bounded (e\<lparr>kind := k\<rparr>) = bounded e" "bounded (e\<lparr>has_conv := h\<rparr>) = bounded e" "bounded (e\<lparr>iters := n\<rparr>) = bounded e"
  by (simp_all add: bounded_def)

lemma bounded_configure_p1: "bounded e \<Longrightarrow> bounded (configure_p1 e)"
  by (simp add: configure_p1_def Let_def) (simp add: bounded_def w_ok_configure)

lemma bounded_configure_os: "bounded e \<Longrightarrow> bounded (configure_os e)"
  by (simp add: configure_os_def Let_def) (simp add: bounded_def w_ok_configure)

lemma bounded_configure_is: "bounded e \<Longrightarrow> bounded (configure_is e)"
  by (simp add: configure_is_def Let_def) (simp add: bounded_def w_ok_configure)

lemma bounded_configure_simd: "bounded e \<Longrightarrow> bounded (configure_simd e)"
  by (simp add: configure_simd_def Let_def del: upt_Suc upt_rec_numeral) (simp add: bounded_def w_ok_configure del: upt_Suc upt_rec_numeral)

lemma bounded_configure_p2: "bounded e \<Longrightarrow> bounded (configure_p2 mode swc e)"
  by (simp add: configure_p2_def Let_def) (simp add: bounded_def w_ok_configure)

lemma bounded_load_shape: "bounded e \<Longrightarrow> bounded (load_shape ps cfg r10c r11c e)"
  by (simp add: load_shape_def Let_def bounded_def)

lemma bounded_configure: "bounded e \<Longrightarrow> bounded (configure ps cfg r10c r11c swc e)"
  by (simp add: configure_def Let_def bounded_load_shape bounded_configure_p1 bounded_configure_os bounded_configure_is
      bounded_configure_simd bounded_configure_p2)


lemma bounded_engine0: "bounded (engine0 ps)"
  by (simp add: bounded_def engine0_def w_ok_def writer_zero_def nth_Cons split: nat.splits)


end
