(* ===== verification/Engine_ends.thy ===== *)
theory Engine_ends
  imports Engine
begin

text \<open>
  The engine's control: one cycle at a time, a cycle moves the counter by one or stops the run, and the cap ends every run.
\<close>

section \<open>A run ends\<close>

text \<open>What a stage leaves alone: the control of the run.\<close>

definition control :: "engine \<Rightarrow> u64 \<times> u64 \<times> bool \<times> nat" where
  "control e = (cyc e, cap e, running e, kind e)"

lemma control_update [simp]:
  "control (e\<lparr>e_os := x0\<rparr>) = control e"
  "control (e\<lparr>e_p1 := x1\<rparr>) = control e"
  "control (e\<lparr>e_su := x2\<rparr>) = control e"
  "control (e\<lparr>e_sw := x3\<rparr>) = control e"
  "control (e\<lparr>e_is := x4\<rparr>) = control e"
  "control (e\<lparr>e_simd := x5\<rparr>) = control e"
  "control (e\<lparr>res := x6\<rparr>) = control e"
  "control (e\<lparr>g_r10 := x7\<rparr>) = control e"
  "control (e\<lparr>g_r11 := x8\<rparr>) = control e"
  "control (e\<lparr>g_iscore := x9\<rparr>) = control e"
  "control (e\<lparr>suc_started := x10\<rparr>) = control e"
  "control (e\<lparr>isc_started := x11\<rparr>) = control e"
  "control (e\<lparr>e_dma := x12\<rparr>) = control e"
  "control (e\<lparr>e_fabric := x13\<rparr>) = control e"
  by (simp_all add: control_def)

lemma control_fabric: "fabric_cycle posts e = (e', g) \<Longrightarrow> control e' = control e"
  by (auto simp: fabric_cycle_def split: prod.splits)

lemma control_stages [simp]:
  "control (sample_fifo e) = control e"
  "control (is_counted e ti) = control e"
  "control (os_stage e) = control e"
  "control (is_stage e) = control e"
  "control (p1_land e) = control e"
  "control (p1_os_stage e) = control e"
  "control (p1_is_stage e) = control e"
  "control (p2_land e) = control e"
  "control (mark_starts a b e) = control e"
  "control (mark_ends e) = control e"
  "control (suc_stage a e) = control e"
  "control (state_carry e) = control e"
  by (simp_all add: sample_fifo_def is_counted_def os_stage_def is_stage_def p1_land_def p1_os_stage_def p1_is_stage_def
      p2_land_def mark_starts_def mark_ends_def suc_stage_def state_carry_def Let_def split: prod.splits)

lemma control_p2 [simp]:
  "control (p2_is_stage a e) = control e"
  "control (p2_compute a b e) = control e"
  "control (fst (p1_commit g (e, gi))) = control e"
  "control (fst (p2_commit a b g (e, gi))) = control e"
  subgoal by (simp add: p2_is_stage_def Let_def split: prod.splits)
  subgoal by (simp add: p2_compute_def p2_is_stage_def Let_def split: prod.splits)
  subgoal by (simp add: p1_commit_def Let_def split: prod.splits)
  subgoal by (simp add: p2_commit_def Let_def split: prod.splits)
  done

lemma control_next: "running e \<Longrightarrow> control (next_cycle e) = (cyc e + 1, cap e, True, kind e)"
  by (simp add: control_def next_cycle_def)

text \<open>A step either ends the run, or is one cycle of it below the cap.\<close>

definition one_cycle :: "engine \<Rightarrow> engine \<Rightarrow> bool" where
  "one_cycle e e' \<longleftrightarrow> (running e' \<longrightarrow> running e \<and> cyc e < cap e \<and> control e' = (cyc e + 1, cap e, True, kind e))"

lemma one_cycleI:
  "(running e' \<Longrightarrow> running e \<and> cyc e < cap e \<and> control e' = control (next_cycle e)) \<Longrightarrow> one_cycle e e'"
  by (auto simp: one_cycle_def control_next)

lemma running_sample [simp]: "running (sample_fifo e) = running e"
  by (simp add: sample_fifo_def)

lemma running_stop [simp]: "\<not> running (stop e)" "\<not> running (p2_finish e)"
  by (simp_all add: stop_def p2_finish_def Let_def)

lemma step_os_cycle: "one_cycle e (step_os e)"
  by (cases "running e"; cases "cap e \<le> cyc e")
    (auto simp: step_os_def Let_def linorder_not_le intro!: one_cycleI dest: control_fabric split: prod.splits)

lemma step_is_cycle: "one_cycle e (step_is e)"
  by (cases "running e"; cases "cap e \<le> cyc e")
    (auto simp: step_is_def Let_def linorder_not_le intro!: one_cycleI dest: control_fabric split: prod.splits)

lemma step_simd_cycle: "one_cycle e (step_simd e)"
  by (cases "running e"; cases "cap e \<le> cyc e")
    (auto simp: step_simd_def Let_def linorder_not_le intro!: one_cycleI dest: control_fabric split: prod.splits)

lemma step_p1_cycle: "one_cycle e (step_p1 e)"
  by (cases "running e"; cases "cap e \<le> cyc e")
    (auto simp: step_p1_def Let_def linorder_not_le intro!: one_cycleI dest: control_fabric split: prod.splits)

lemma step_p2_cycle: "one_cycle e (step_p2 e)"
  by (cases "running e"; cases "cap e \<le> cyc e")
    (auto simp: step_p2_def Let_def linorder_not_le intro!: one_cycleI dest: control_fabric split: prod.splits)

lemma engine_step_cycle: "one_cycle e (engine_step e)"
  by (simp add: engine_step_def step_os_cycle step_is_cycle step_simd_cycle step_p1_cycle step_p2_cycle)

lemma engine_step_stopped: "\<not> running e \<Longrightarrow> engine_step e = e"
  by (simp add: engine_step_def step_os_def step_is_def step_simd_def step_p1_def step_p2_def)

lemma engine_run_stopped: "\<not> running e \<Longrightarrow> engine_run n e = e"
  by (induction n) (simp_all add: engine_step_stopped)

lemma engine_run_cap: "running (engine_run n e) \<Longrightarrow> unat (cyc e) + n \<le> unat (cap e) \<or> n = 0"
proof (induction n arbitrary: e)
  case (Suc n)
  then have "running (engine_step e)" using engine_run_stopped by fastforce
  then have c: "cyc e < cap e" "cyc (engine_step e) = cyc e + 1" "cap (engine_step e) = cap e"
    using engine_step_cycle [of e] by (simp_all add: one_cycle_def control_def)
  have cap_lt: "unat (cap e) < 2 ^ 64" using unsigned_less [of "cap e"] by simp
  have "unat (cyc e) < unat (cap e)" using c(1) by (simp add: word_less_nat_alt)
  moreover from this have "unat (cyc e + 1) = unat (cyc e) + 1"
    using cap_lt by (simp add: unat_add_small)
  ultimately show ?case using Suc c by fastforce
qed simp

text \<open>
  C16: the engine always comes to an end: in every mode and whatever the streamers, the DMA engine and the fabric do, a
  run stops within as many steps as its cap has cycles left, plus one, and a stopped engine stays as it is.
\<close>

theorem engine_ends:
  "\<not> running (engine_run (unat (cap e) - unat (cyc e) + 1) e) \<and> engine_run n (engine_run (unat (cap e) - unat (cyc e) + 1) e) =
     engine_run (unat (cap e) - unat (cyc e) + 1) e"
proof -
  have "\<not> running (engine_run (unat (cap e) - unat (cyc e) + 1) e)" using engine_run_cap by fastforce
  then show ?thesis using engine_run_stopped by simp
qed

end
