(* ===== verification/Ports.thy ===== *)
theory Ports
  imports Cyc
begin

text \<open>
  What the engine relies on when it steps streamers on the fabric: in a cycle every port first posts its
  requests, and after the arbitration reads the grants in the same order, through a running index. The contract of a
  port, its composition, and the readers and writers as ports.
\<close>

section \<open>The contract\<close>

locale port =
  fixes propose :: "'p \<Rightarrow> fabric \<Rightarrow> fabric"
    and commit :: "bool list \<Rightarrow> 'p \<times> nat \<Rightarrow> 'p \<times> nat"
    and lanes :: "'p \<Rightarrow> bank_req list"
  assumes posts: "length (reqs f) + length (lanes p) \<le> 64 \<Longrightarrow> propose p f = f\<lparr>reqs := reqs f @ lanes p\<rparr>"
    and index: "snd (commit g (p, gi)) = gi + length (lanes p)"
    and own: "(\<And>k. k < length (lanes p) \<Longrightarrow> g ! (gi + k) = g' ! (gi' + k)) \<Longrightarrow>
      fst (commit g (p, gi)) = fst (commit g' (p, gi'))"
begin

text \<open>What a port is given is what the fabric granted to the requests that the port itself posted.\<close>

lemma aligned:
  assumes "length (reqs f) + length (lanes p) \<le> 64" "length (reqs f) \<le> length g"
  shows "snd (commit g (p, length (reqs f))) = length (reqs (propose p f))"
    "fst (commit g (p, length (reqs f))) = fst (commit (take (length (lanes p)) (drop (length (reqs f)) g)) (p, 0))"
    "drop (length (reqs f)) (reqs (propose p f)) = lanes p"
proof -
  show "snd (commit g (p, length (reqs f))) = length (reqs (propose p f))"
    "drop (length (reqs f)) (reqs (propose p f)) = lanes p"
    using assms by (simp_all add: posts index)
  show "fst (commit g (p, length (reqs f))) = fst (commit (take (length (lanes p)) (drop (length (reqs f)) g)) (p, 0))"
    by (rule own) (use assms in simp)
qed

end

locale two_ports = a: port pa ca la + b: port pb cb lb
  for pa :: "'p \<Rightarrow> fabric \<Rightarrow> fabric" and ca and la and pb :: "'q \<Rightarrow> fabric \<Rightarrow> fabric" and cb and lb
begin

definition both_propose :: "'p \<times> 'q \<Rightarrow> fabric \<Rightarrow> fabric" where
  "both_propose pq f = pb (snd pq) (pa (fst pq) f)"

definition both_commit :: "bool list \<Rightarrow> ('p \<times> 'q) \<times> nat \<Rightarrow> ('p \<times> 'q) \<times> nat" where
  "both_commit g pqi = (case pqi of ((p, q), gi) \<Rightarrow>
     (case ca g (p, gi) of (p', gi') \<Rightarrow> (case cb g (q, gi') of (q', gi'') \<Rightarrow> ((p', q'), gi''))))"

definition both_lanes :: "'p \<times> 'q \<Rightarrow> bank_req list" where
  "both_lanes pq = la (fst pq) @ lb (snd pq)"

end

sublocale two_ports \<subseteq> both: port both_propose both_commit both_lanes
proof
  show "both_propose p f = f\<lparr>reqs := reqs f @ both_lanes p\<rparr>" if "length (reqs f) + length (both_lanes p) \<le> 64" for f p
    using that by (simp add: both_propose_def both_lanes_def a.posts b.posts)
  show "snd (both_commit g (p, gi)) = gi + length (both_lanes p)" for g p gi
    using a.index [of g "fst p" gi] b.index [of g "snd p" "gi + length (la (fst p))"]
    by (cases p) (auto simp: both_commit_def both_lanes_def split: prod.splits)
  show "fst (both_commit g (p, gi)) = fst (both_commit g' (p, gi'))"
    if "\<And>k. k < length (both_lanes p) \<Longrightarrow> g ! (gi + k) = g' ! (gi' + k)" for g g' p gi gi'
  proof -
    have 1: "fst (ca g (fst p, gi)) = fst (ca g' (fst p, gi'))"
      by (rule a.own) (use that in \<open>simp add: both_lanes_def\<close>)
    have 2: "fst (cb g (snd p, gi + length (la (fst p)))) = fst (cb g' (snd p, gi' + length (la (fst p))))"
      by (rule b.own) (use that [of "length (la (fst p)) + k" for k] in \<open>simp add: both_lanes_def add.assoc\<close>)
    show ?thesis
      using 1 2 a.index [of g "fst p" gi] a.index [of g' "fst p" gi']
      by (cases p) (auto simp: both_commit_def split: prod.splits)
  qed
qed

section \<open>Readers and writers are ports\<close>

text \<open>What a lane asks for: its address's bank, its token, and the priority of the port.\<close>

definition lane_req :: "int \<Rightarrow> int \<Rightarrow> int \<Rightarrow> bank_req" where
  "lane_req bank tok prio = \<lparr>req_bank = bank AND (int NB - 1), req_tok = tok, req_prio = prio\<rparr>"

definition r_lanes :: "cyc_reader \<Rightarrow> bank_req list" where
  "r_lanes r =
     (if r_active r
      then map (\<lambda>l. lane_req (bank_of (r_lane_addr r (lane_issued r ! l) l) (r_remap r)) (lane_tok (r_port r) l)
          (if min_landed r - consumed r \<le> 1 then 1 else 0)) (filter (may_issue r) [0..<r_channels r])
      else [])"

definition w_lanes :: "cyc_writer \<Rightarrow> bank_req list" where
  "w_lanes w =
     (if w_done w \<or> w_occ w \<le> 0 then []
      else map (\<lambda>l. lane_req (bank_of (w_lane_addr w l) (w_remap w)) (lane_tok (w_port w) l)
          (if w_occ w \<ge> w_depth w - 1 then 1 else 0)) (filter (\<lambda>l. \<not> lane_done w ! l) [0..<w_channels w]))"

lemma fold_post_if:
  "length (reqs f) + length (filter P ls) \<le> 64 \<Longrightarrow>
    fold (\<lambda>l f. if P l then post (b l) (t l) p f else f) ls f =
    f\<lparr>reqs := reqs f @ map (\<lambda>l. lane_req (b l) (t l) p) (filter P ls)\<rparr>"
proof (induction ls arbitrary: f)
  case (Cons l ls)
  then show ?case by (cases "P l") (simp_all add: post_def lane_req_def)
qed simp

lemma commit_lane_may_issue: "l' \<noteq> l \<Longrightarrow> may_issue (fst (commit_lane g l (r, gi))) l' = may_issue r l'"
  by (simp add: commit_lane_def may_issue_def Let_def nth_list_update_neq)

lemma commit_lane_index: "snd (commit_lane g l (r, gi)) = gi + of_bool (may_issue r l)"
  by (simp add: commit_lane_def Let_def)

lemma commit_lane_own:
  "(may_issue r l \<Longrightarrow> g ! gi = g' ! gi') \<Longrightarrow> fst (commit_lane g l (r, gi)) = fst (commit_lane g' l (r, gi'))"
  by (simp add: commit_lane_def Let_def)

lemma commit_lanes_index:
  "distinct ls \<Longrightarrow> snd (fold (commit_lane g) ls (r, gi)) = gi + length (filter (may_issue r) ls)"
proof (induction ls arbitrary: r gi)
  case (Cons l ls)
  obtain r1 gi1 where s: "commit_lane g l (r, gi) = (r1, gi1)" by (metis prod.exhaust)
  have "filter (may_issue r1) ls = filter (may_issue r) ls"
    using Cons.prems commit_lane_may_issue [of _ l g r gi] by (intro filter_cong refl) (metis distinct.simps(2) fst_conv s)
  then show ?case using Cons commit_lane_index [of g l r gi] by (simp add: s)
qed simp

lemma commit_lanes_own:
  assumes "distinct ls" "\<And>k. k < length (filter (may_issue r) ls) \<Longrightarrow> g ! (gi + k) = g' ! (gi' + k)"
  shows "fst (fold (commit_lane g) ls (r, gi)) = fst (fold (commit_lane g') ls (r, gi'))"
  using assms
proof (induction ls arbitrary: r gi gi')
  case (Cons l ls)
  have own: "fst (commit_lane g l (r, gi)) = fst (commit_lane g' l (r, gi'))"
    by (rule commit_lane_own) (use Cons.prems(2) [of 0] in simp)
  obtain r1 where s: "commit_lane g l (r, gi) = (r1, gi + of_bool (may_issue r l))"
    "commit_lane g' l (r, gi') = (r1, gi' + of_bool (may_issue r l))"
    using own commit_lane_index by (metis prod.collapse)
  have f: "filter (may_issue r1) ls = filter (may_issue r) ls"
    using Cons.prems(1) commit_lane_may_issue [of _ l g r gi] by (intro filter_cong refl) (metis distinct.simps(2) fst_conv s(1))
  have "fst (fold (commit_lane g) ls (r1, gi + of_bool (may_issue r l))) =
      fst (fold (commit_lane g') ls (r1, gi' + of_bool (may_issue r l)))"
  proof (rule Cons.IH)
    show "g ! (gi + of_bool (may_issue r l) + k) = g' ! (gi' + of_bool (may_issue r l) + k)"
      if "k < length (filter (may_issue r1) ls)" for k
      using Cons.prems(2) [of "of_bool (may_issue r l) + k"] that unfolding f by (cases "may_issue r l") (simp_all add: add.assoc)
  qed (use Cons.prems(1) in simp)
  then show ?case by (simp add: s)
qed simp

lemma may_issue_pending: "may_issue (r\<lparr>pending_push := x\<rparr>) = may_issue r"
  by (rule ext) (simp add: may_issue_def)

interpretation reader_port: port r_propose r_commit r_lanes
proof
  show "r_propose r f = f\<lparr>reqs := reqs f @ r_lanes r\<rparr>" if "length (reqs f) + length (r_lanes r) \<le> 64" for f r
    using that by (simp add: r_propose_def r_lanes_def fold_post_if Let_def split: if_splits)
  show "snd (r_commit g (r, gi)) = gi + length (r_lanes r)" for g r gi
    by (simp add: r_commit_def r_lanes_def Let_def commit_lanes_index may_issue_pending)
  show "fst (r_commit g (r, gi)) = fst (r_commit g' (r, gi'))"
    if "\<And>k. k < length (r_lanes r) \<Longrightarrow> g ! (gi + k) = g' ! (gi' + k)" for g g' r gi gi'
    using that by (auto simp: r_commit_def r_lanes_def Let_def may_issue_pending intro!: commit_lanes_own)
qed

lemma commit_w_lanes_index:
  "distinct ls \<Longrightarrow> fst (snd (fold (commit_w_lane g) ls (w, gi, every))) = gi + length (filter (\<lambda>l. \<not> lane_done w ! l) ls)"
proof (induction ls arbitrary: w gi every)
  case (Cons l ls)
  obtain w1 gi1 every1 where s: "commit_w_lane g l (w, gi, every) = (w1, gi1, every1)" by (metis prod_cases3)
  have "lane_done w1 ! l' = lane_done w ! l'" if "l' \<noteq> l" for l'
    using s that by (auto simp: commit_w_lane_def nth_list_update_neq split: if_splits)
  then have "filter (\<lambda>l. \<not> lane_done w1 ! l) ls = filter (\<lambda>l. \<not> lane_done w ! l) ls"
    using Cons.prems by (intro filter_cong refl) (metis distinct.simps(2))
  moreover have "gi1 = gi + of_bool (\<not> lane_done w ! l)" using s by (auto simp: commit_w_lane_def split: if_splits)
  ultimately show ?case using Cons by (simp add: s)
qed simp

lemma commit_w_lanes_own:
  assumes "distinct ls" "\<And>k. k < length (filter (\<lambda>l. \<not> lane_done w ! l) ls) \<Longrightarrow> g ! (gi + k) = g' ! (gi' + k)"
  shows "fst (fold (commit_w_lane g) ls (w, gi, every)) = fst (fold (commit_w_lane g') ls (w, gi', every)) \<and>
    snd (snd (fold (commit_w_lane g) ls (w, gi, every))) = snd (snd (fold (commit_w_lane g') ls (w, gi', every)))"
  using assms
proof (induction ls arbitrary: w gi gi' every)
  case (Cons l ls)
  let ?n = "of_bool (\<not> lane_done w ! l) :: nat"
  have "\<not> lane_done w ! l \<Longrightarrow> g ! gi = g' ! gi'" using Cons.prems(2) [of 0] by simp
  then obtain w1 every1 where s: "commit_w_lane g l (w, gi, every) = (w1, gi + ?n, every1)"
    "commit_w_lane g' l (w, gi', every) = (w1, gi' + ?n, every1)"
    by (cases "lane_done w ! l") (auto simp: commit_w_lane_def)
  have "lane_done w1 ! l' = lane_done w ! l'" if "l' \<noteq> l" for l'
    using s(1) that by (auto simp: commit_w_lane_def nth_list_update_neq split: if_splits)
  then have f: "filter (\<lambda>l. \<not> lane_done w1 ! l) ls = filter (\<lambda>l. \<not> lane_done w ! l) ls"
    using Cons.prems(1) by (intro filter_cong refl) (metis distinct.simps(2))
  have "g ! (gi + ?n + k) = g' ! (gi' + ?n + k)" if "k < length (filter (\<lambda>l. \<not> lane_done w1 ! l) ls)" for k
    using Cons.prems(2) [of "?n + k"] that unfolding f by (cases "lane_done w ! l") (simp_all add: add.assoc)
  then show ?case using Cons.IH [of w1 "gi + ?n" "gi' + ?n" every1] Cons.prems(1) by (simp add: s)
qed simp

interpretation writer_port: port w_propose w_commit w_lanes
proof
  show "w_propose w f = f\<lparr>reqs := reqs f @ w_lanes w\<rparr>" if "length (reqs f) + length (w_lanes w) \<le> 64" for f w
    using that by (cases "w_done w \<or> w_occ w \<le> 0") (simp_all add: w_propose_def w_lanes_def fold_post_if Let_def)
  show "snd (w_commit g (w, gi)) = gi + length (w_lanes w)" for g w gi
    using commit_w_lanes_index [of "[0..<w_channels w]" g w gi True]
    by (auto simp: w_commit_def w_lanes_def split: prod.splits)
  show "fst (w_commit g (w, gi)) = fst (w_commit g' (w, gi'))"
    if "\<And>k. k < length (w_lanes w) \<Longrightarrow> g ! (gi + k) = g' ! (gi' + k)" for g g' w gi gi'
  proof (cases "w_done w \<or> w_occ w \<le> 0")
    case False
    then have "\<And>k. k < length (filter (\<lambda>l. \<not> lane_done w ! l) [0..<w_channels w]) \<Longrightarrow> g ! (gi + k) = g' ! (gi' + k)"
      using that by (simp add: w_lanes_def)
    then show ?thesis
      using False commit_w_lanes_own [of "[0..<w_channels w]" w g gi g' gi' True] by (auto simp: w_commit_def split: prod.splits)
  qed (simp add: w_commit_def)
qed

end
