(* ===== verification/Isgemm.thy ===== *)
theory Isgemm
  imports Engine_flow Engine_ends Ports
begin

text \<open>
  The isCore alone (kind 4 of the engine): the invariant of a run, a measure that every cycle lowers while the DMA engine is
  idle, and what follows from it: the run ends by itself with everything written, or only the cap ends it.
\<close>

section \<open>The isCore alone finishes\<close>

definition undone :: "cyc_writer \<Rightarrow> nat list" where
  "undone w = filter (\<lambda>l. \<not> lane_done w ! l) [0..<w_channels w]"

lemma commit_w_lanes_progress:
  assumes "distinct ls" "\<forall>l \<in> set ls. l < length (lane_done w)"
    and "fold (commit_w_lane g) ls (w, gi, every) = (w', gi', every')"
  shows "(\<forall>l. lane_done w ! l \<longrightarrow> lane_done w' ! l) \<and> (every' \<longleftrightarrow> every \<and> (\<forall>l \<in> set ls. lane_done w' ! l)) \<and>
    length (lane_done w') = length (lane_done w) \<and> (\<forall>l. l \<notin> set ls \<longrightarrow> lane_done w' ! l = lane_done w ! l) \<and>
    ((\<exists>k < length (filter (\<lambda>l. \<not> lane_done w ! l) ls). g ! (gi + k)) \<longrightarrow> (\<exists>l \<in> set ls. \<not> lane_done w ! l \<and> lane_done w' ! l))"
  using assms
proof (induction ls arbitrary: w gi every)
  case (Cons l ls)
  obtain w1 gi1 every1 where s: "commit_w_lane g l (w, gi, every) = (w1, gi1, every1)" by (metis prod_cases3)
  have l: "l < length (lane_done w)" "l \<notin> set ls" using Cons.prems by auto
  have w1: "gi1 = gi + of_bool (\<not> lane_done w ! l)" "lane_done w1 ! l \<longleftrightarrow> lane_done w ! l \<or> g ! gi"
    "every1 \<longleftrightarrow> every \<and> lane_done w1 ! l" "\<And>l'. l' \<noteq> l \<Longrightarrow> lane_done w1 ! l' = lane_done w ! l'"
    "length (lane_done w1) = length (lane_done w)"
    using s l(1) by (auto simp: commit_w_lane_def nth_list_update_neq split: if_splits)
  have ls: "\<forall>l \<in> set ls. l < length (lane_done w1)" "distinct ls" using Cons.prems w1(5) by auto
  have f: "filter (\<lambda>l. \<not> lane_done w1 ! l) ls = filter (\<lambda>l. \<not> lane_done w ! l) ls"
    using l(2) w1(4) by (intro filter_cong refl) metis
  have s1: "fold (commit_w_lane g) ls (w1, gi1, every1) = (w', gi', every')" using Cons.prems(3) by (simp add: s)
  note IH = Cons.IH [OF ls(2,1) s1]
  have d: "lane_done w' ! l = lane_done w1 ! l" using IH l(2) by blast
  have 1: "\<forall>l. lane_done w ! l \<longrightarrow> lane_done w' ! l" using IH w1(2,4) by metis
  have 2: "every' \<longleftrightarrow> every \<and> (\<forall>l \<in> set (l # ls). lane_done w' ! l)" using IH w1(3) d by auto
  have 3: "\<forall>l'. l' \<notin> set (l # ls) \<longrightarrow> lane_done w' ! l' = lane_done w ! l'" using IH w1(4) by auto
  have 4: "\<exists>l \<in> set (l # ls). \<not> lane_done w ! l \<and> lane_done w' ! l"
    if "k < length (filter (\<lambda>l. \<not> lane_done w ! l) (l # ls))" "g ! (gi + k)" for k
  proof (cases "\<not> lane_done w ! l \<and> k = 0")
    case True
    then show ?thesis using that w1(2) d by auto
  next
    case False
    let ?k = "k - of_bool (\<not> lane_done w ! l)"
    have k: "gi1 + ?k = gi + k" "?k < length (filter (\<lambda>l. \<not> lane_done w1 ! l) ls)"
      using False that(1) unfolding f w1(1) by (auto split: if_splits)
    then have "\<exists>l \<in> set ls. \<not> lane_done w1 ! l \<and> lane_done w' ! l"
      using IH that(2) by (metis k(1))
    then show ?thesis using w1(4) l(2) by (metis list.set_intros(2))
  qed
  have len: "length (lane_done w') = length (lane_done w)" using IH w1(5) by simp
  show ?case using 4 by (intro conjI 1 2 len 3 impI) blast
qed simp

lemma length_filter_psubset:
  "(\<forall>x. P x \<longrightarrow> Q x) \<Longrightarrow> l \<in> set xs \<Longrightarrow> Q l \<Longrightarrow> \<not> P l \<Longrightarrow> length (filter P xs) < length (filter Q xs)"
proof -
  assume pq: "\<forall>x. P x \<longrightarrow> Q x" and l: "l \<in> set xs" "Q l" "\<not> P l"
  have "filter P xs = filter P (filter Q xs)" using pq by (auto intro: filter_cong)
  moreover have "length (filter P (filter Q xs)) < length (filter Q xs)"
    by (rule length_filter_less [of l]) (use l in auto)
  ultimately show ?thesis by simp
qed

lemma undone_reset: "w_channels w = 4 \<Longrightarrow> lane_done w = replicate 8 False \<Longrightarrow> undone w = [0, 1, 2, 3]"
proof -
  have "filter (\<lambda>l. \<not> replicate 8 False ! l) [0..<4] = [0, 1, 2, 3]" by code_simp
  then show "w_channels w = 4 \<Longrightarrow> lane_done w = replicate 8 False \<Longrightarrow> undone w = [0, 1, 2, 3]" by (simp add: undone_def)
qed

lemma commit_undone:
  assumes w: "0 < w_occ w" "\<not> w_done w" "w_channels w = 4" "length (lane_done w) = 8"
  shows "written (fst (w_commit g (w, gi))) = written w + 1 \<and> undone (fst (w_commit g (w, gi))) = [0, 1, 2, 3] \<or>
    written (fst (w_commit g (w, gi))) = written w \<and> undone (fst (w_commit g (w, gi))) \<noteq> [] \<and>
    length (undone (fst (w_commit g (w, gi)))) \<le> length (undone w) \<and>
    ((\<exists>k < length (undone w). g ! (gi + k)) \<longrightarrow> length (undone (fst (w_commit g (w, gi)))) < length (undone w))"
    "length (lane_done (fst (w_commit g (w, gi)))) = 8" "w_channels (fst (w_commit g (w, gi))) = 4"
    "\<not> w_done (fst (w_commit g (w, gi)))"
proof -
  obtain w1 gi1 every where s: "fold (commit_w_lane g) [0..<w_channels w] (w, gi, True) = (w1, gi1, every)"
    by (metis prod_cases3)
  have "\<forall>l \<in> set [0..<w_channels w]. l < length (lane_done w)" using w by simp
  note p = commit_w_lanes_progress [OF distinct_upt this s]
  have u: "w1\<lparr>lane_done := y\<rparr> = w\<lparr>lane_done := y\<rparr>" for y
    using commit_w_lanes [where granted = g and ls = "[0..<w_channels w]" and w = w and gi = gi and every = True and x = y] by (simp add: s)
  from arg_cong [where f = written, OF u] arg_cong [where f = w_channels, OF u] arg_cong [where f = w_done, OF u]
  have f: "written w1 = written w" "w_channels w1 = w_channels w" "w_done w1 = w_done w" by simp_all
  have c: "fst (w_commit g (w, gi)) = (if every then w1\<lparr>written := written w1 + 1, w_occ := w_occ w1 - 1,
      lane_done := replicate 8 False, w_ti := next_ti (w_eb w1) (w_ti w1)\<rparr> else w1)"
    using w(1,2) by (simp add: w_commit_def s)
  show "length (lane_done (fst (w_commit g (w, gi)))) = 8" "w_channels (fst (w_commit g (w, gi))) = 4"
    "\<not> w_done (fst (w_commit g (w, gi)))"
    unfolding c using p w f by simp_all
  show "written (fst (w_commit g (w, gi))) = written w + 1 \<and> undone (fst (w_commit g (w, gi))) = [0, 1, 2, 3] \<or>
    written (fst (w_commit g (w, gi))) = written w \<and> undone (fst (w_commit g (w, gi))) \<noteq> [] \<and>
    length (undone (fst (w_commit g (w, gi)))) \<le> length (undone w) \<and>
    ((\<exists>k < length (undone w). g ! (gi + k)) \<longrightarrow> length (undone (fst (w_commit g (w, gi)))) < length (undone w))"
  proof (cases every)
    case True
    have "undone (w1\<lparr>written := written w1 + 1, w_occ := w_occ w1 - 1, lane_done := replicate 8 False,
        w_ti := next_ti (w_eb w1) (w_ti w1)\<rparr>) = [0, 1, 2, 3]"
      by (rule undone_reset) (simp_all add: f w(3))
    then show ?thesis using True f(1) by (simp add: c)
  next
    case False
    then have "\<exists>l < 4. \<not> lane_done w1 ! l" using p w(3) by auto
    then have n: "undone w1 \<noteq> []" using f w(3) by (auto simp: undone_def filter_empty_conv)
    have sub: "filter (\<lambda>l. \<not> lane_done w1 ! l) ls = filter (\<lambda>l. \<not> lane_done w1 ! l) (filter (\<lambda>l. \<not> lane_done w ! l) ls)" for ls
      using p by (auto intro: filter_cong)
    have le: "length (undone w1) \<le> length (undone w)"
      unfolding undone_def f using sub length_filter_le by metis
    have lt: "length (undone w1) < length (undone w)" if "k < length (undone w)" "g ! (gi + k)" for k
    proof -
      from p have "(\<exists>k < length (undone w). g ! (gi + k)) \<longrightarrow> (\<exists>l \<in> set [0..<w_channels w]. \<not> lane_done w ! l \<and> lane_done w1 ! l)"
        unfolding undone_def by (elim conjE)
      moreover have "\<exists>k < length (undone w). g ! (gi + k)" using that by blast
      ultimately obtain l where "l \<in> set [0..<w_channels w]" "\<not> lane_done w ! l" "lane_done w1 ! l" by blast
      then show ?thesis unfolding undone_def f by (intro length_filter_psubset [of _ _ l]) (use p in auto)
    qed
    then have "(\<exists>k < length (undone w). g ! (gi + k)) \<longrightarrow> length (undone w1) < length (undone w)" by blast
    then show ?thesis using False n le f(1) by (simp add: c)
  qed
qed

lemma idle_banks_grant:
  assumes "fabric_ok f" "reqs f \<noteq> []" "dma_owned f = 0" "arbitrate f = (f', g)"
  shows "\<exists>k < length (reqs f). g ! k" "length (rr f') = NB"
proof -
  obtain k where k: "bank_winner f (nat (req_bank (reqs f ! 0))) = Some k"
    using bank_has_winner [OF assms(1), of 0] assms(2) by auto
  have b: "int (nat (req_bank (reqs f ! 0))) = req_bank (reqs f ! 0)"
    using fabric_ok_nth(1) [OF assms(1), of 0] assms(2) by simp
  then have w: "wins f (length (reqs f)) k" using k bank_winner_iff [OF assms(1)] by auto
  then have "g ! k" using arbitrate_result(4) [OF assms(1,4)] assms(3) by (simp add: wins_def)
  then show "\<exists>k < length (reqs f). g ! k" using w by (auto simp: wins_def)
  show "length (rr f') = NB" by (rule arbitrate_result(2) [OF assms(1,4)])
qed

lemma w_lanes_undone: "0 < w_occ w \<Longrightarrow> \<not> w_done w \<Longrightarrow> length (w_lanes w) = length (undone w)"
  by (simp add: w_lanes_def undone_def)

lemma fabric_ok_propose:
  assumes "length (rr f) = NB" "reqs f = []" "w_channels w \<le> 8"
  shows "fabric_ok (w_propose w f)" "reqs (w_propose w f) = w_lanes w" "dma_owned (w_propose w f) = dma_owned f"
proof -
  have l: "length (w_lanes w) \<le> 8"
    using assms(3) length_filter_le [of "\<lambda>l. \<not> lane_done w ! l" "[0..<w_channels w]"] by (auto simp: w_lanes_def)
  then have p: "w_propose w f = f\<lparr>reqs := w_lanes w\<rparr>" using writer_port.posts [of f w] assms(2) by simp
  show "reqs (w_propose w f) = w_lanes w" "dma_owned (w_propose w f) = dma_owned f" by (simp_all add: p)
  have "\<forall>q \<in> set (w_lanes w). 0 \<le> req_bank q \<and> req_bank q < int NB \<and> 0 \<le> req_prio q"
    by (auto simp: w_lanes_def lane_req_def NB_def)
  then show "fabric_ok (w_propose w f)" using l assms(1) by (simp add: p fabric_ok_def)
qed

section \<open>The invariant and the measure of a run\<close>

definition is_inv :: "is_core \<Rightarrow> bool" where
  "is_inv i \<longleftrightarrow> 0 < K_is i \<and> 1 \<le> wbpt_is i \<and> 0 \<le> as_is i \<and> tiles_is i = as_is i div K_is i \<and> tiles_is i \<le> n_tiles_is i \<and>
     as_is i \<le> n_tiles_is i * K_is i \<and>
     0 \<le> is_owed i \<and> 0 \<le> written (W3 i) \<and> written (W3 i) + w_occ (W3 i) + is_owed i = tiles_is i * wbpt_is i \<and>
     w_ok (W3 i) \<and> 0 < w_depth (W3 i) \<and> w_channels (W3 i) = 4 \<and> length (lane_done (W3 i)) = 8 \<and> \<not> w_done (W3 i) \<and>
     undone (W3 i) \<noteq> []"

text \<open>Steps of the array, groups to enter the FIFO, and lane writes that are left.\<close>

definition is_left :: "is_core \<Rightarrow> int" where
  "is_left i = n_tiles_is i * K_is i - as_is i + (n_tiles_is i * wbpt_is i - written (W3 i) - w_occ (W3 i)) +
     (4 * (n_tiles_is i * wbpt_is i - written (W3 i)) - 4 + int (length (undone (W3 i))))"

definition is_shape :: "is_core \<Rightarrow> int \<times> int \<times> int \<times> int" where
  "is_shape i = (K_is i, n_tiles_is i, wbpt_is i, total_beats (W3 i))"

lemma drip_inv:
  assumes "is_inv i"
  shows "is_inv (is_drip i)" "is_shape (is_drip i) = is_shape i"
    "is_drip i = i \<and> (is_owed i = 0 \<or> 0 < w_occ (W3 i)) \<or> is_left (is_drip i) = is_left i - 1"
    "as_is (is_drip i) = as_is i"
  using assms by (auto simp: is_drip_def drip_def is_inv_def is_shape_def is_left_def w_push_def w_ok_def undone_def total_beats_def)

lemma div_Suc_cases:
  fixes a k :: int
  assumes "0 < k"
  shows "(a + 1) div k = (if (a + 1) mod k = 0 then a div k + 1 else a div k)"
proof (cases "a mod k + 1 < k")
  case True
  have "(a + 1) mod k = a mod k + 1" "(a + 1) div k = a div k"
    using True assms pos_mod_sign [OF assms, of a] by (simp_all add: int_mod_pos_eq [of _ _ "a div k"] int_div_pos_eq [of _ _ _ "a mod k + 1"])
  then show ?thesis using pos_mod_sign [OF assms, of a] by simp
next
  case False
  then have "a mod k = k - 1" using assms pos_mod_bound [of k a] by linarith
  then have "a + 1 = k * (a div k) + k" using mult_div_mod_eq [of k a] by linarith
  then have "a + 1 = k * (a div k + 1)" by (simp add: distrib_left)
  then have "(a + 1) mod k = 0" "(a + 1) div k = a div k + 1" using assms by simp_all
  then show ?thesis by simp
qed

lemma smod_pos: "0 \<le> a \<Longrightarrow> 0 < k \<Longrightarrow> a smod k = a mod k" for a k :: int
  by (simp add: sdivmod_nonneg)

lemma is_count_inv:
  assumes i: "is_inv i" "tiles_is i < n_tiles_is i" "is_room i" and "is_count i = (tile, i')"
  shows "is_inv i' \<and> is_shape i' = is_shape i \<and> is_left i' = is_left i - 1 \<and> as_is i' = as_is i + 1"
proof -
  let ?a = "as_is i" and ?k = "K_is i"
  have p: "0 < ?k" "0 \<le> ?a" "tiles_is i = ?a div ?k" using i(1) by (simp_all add: is_inv_def)
  have s: "(?a + 1) smod ?k = (?a + 1) mod ?k" using p by (simp add: smod_pos)
  have "?a div ?k < n_tiles_is i" using i(2) p(3) by simp
  then have "?a div ?k + 1 \<le> n_tiles_is i" by simp
  then have "(?a div ?k + 1) * ?k \<le> n_tiles_is i * ?k" using p(1) by (intro mult_right_mono) simp_all
  moreover have "?a < (?a div ?k + 1) * ?k"
    using div_mult_mod_eq [of ?a ?k] pos_mod_bound [OF p(1), of ?a] unfolding distrib_right mult_1 by linarith
  ultimately have le: "?a + 1 \<le> n_tiles_is i * ?k" by linarith
  note d = div_Suc_cases [OF p(1), of ?a]
  show ?thesis
  proof (cases "(?a + 1) mod ?k = 0")
    case True
    then have o: "is_owed i = 0" using i(3) s by (simp add: is_room_def)
    have i': "i' = i\<lparr>as_is := ?a + 1, tiles_is := tiles_is i + 1, is_owed := is_owed i + wbpt_is i\<rparr>"
      using assms(4) True s by (simp add: is_count_def Let_def)
    show ?thesis
      using i(1,2) True d le o by (simp add: i' is_inv_def is_shape_def is_left_def distrib_right)
  next
    case False
    have i': "i' = i\<lparr>as_is := ?a + 1\<rparr>" using assms(4) False s by (auto simp: is_count_def Let_def)
    show ?thesis using i(1,2) False d le by (simp add: i' is_inv_def is_shape_def is_left_def)
  qed
qed

text \<open>What the stage does: a step of the array or of the drip, or the writer has something to write.\<close>

lemma is_stage_inv:
  assumes "is_inv (e_is e)"
  shows "is_inv (e_is (is_stage e)) \<and> is_shape (e_is (is_stage e)) = is_shape (e_is e) \<and>
    as_is (e_is (is_stage e)) \<le> as_is (e_is e) + 1 \<and>
    (is_left (e_is (is_stage e)) < is_left (e_is e) \<or>
     is_stage e = e \<and> (tiles_is (e_is e) = n_tiles_is (e_is e) \<and> is_owed (e_is e) = 0 \<or> 0 < w_occ (W3 (e_is e))))"
proof -
  let ?i = "is_drip (e_is e)"
  note d = drip_inv [OF assms]
  obtain tile i' where c: "is_count ?i = (tile, i')" by (metis prod.exhaust)
  show ?thesis
  proof (cases "tiles_is ?i < n_tiles_is ?i \<and> is_room ?i")
    case True
    then have "e_is (is_stage e) = i'" by (simp add: is_stage_def Let_def c is_counted_def)
    moreover have "is_inv i' \<and> is_shape i' = is_shape ?i \<and> is_left i' = is_left ?i - 1 \<and> as_is i' = as_is ?i + 1"
      using True by (intro is_count_inv [OF d(1) _ _ c]) simp_all
    moreover have "is_left ?i \<le> is_left (e_is e)" using d(3) by (elim disjE) simp_all
    ultimately show ?thesis using d(2,4) by simp
  next
    case False
    then have s: "is_stage e = e\<lparr>e_is := ?i\<rparr>" by (auto simp: is_stage_def Let_def)
    show ?thesis
    proof (cases "is_left ?i = is_left (e_is e) - 1")
      case True
      then show ?thesis using d(1,2,4) s by simp
    next
      case moved: False
      then have i: "?i = e_is e" "is_owed (e_is e) = 0 \<or> 0 < w_occ (W3 (e_is e))" using d(3) by auto
      have all: "tiles_is (e_is e) = n_tiles_is (e_is e)" if "is_owed (e_is e) = 0"
      proof -
        have "is_room (e_is e)" "tiles_is (e_is e) \<le> n_tiles_is (e_is e)" using that assms by (simp_all add: is_room_def is_inv_def)
        then show ?thesis using False by (simp add: i(1))
      qed
      have e: "is_stage e = e" using s i(1) by simp
      have "tiles_is (e_is e) = n_tiles_is (e_is e) \<and> is_owed (e_is e) = 0 \<or> 0 < w_occ (W3 (e_is e))" using i(2) all by blast
      then show ?thesis using e assms by simp
    qed
  qed
qed

lemma commit_inv:
  fixes g :: "bool list" and gi :: nat
  assumes "is_inv i"
  defines "i' \<equiv> i\<lparr>W3 := fst (w_commit g (W3 i, gi))\<rparr>"
  shows "is_inv i' \<and> is_shape i' = is_shape i \<and> is_left i' \<le> is_left i \<and> as_is i' = as_is i \<and> tiles_is i' = tiles_is i \<and>
    (0 < w_occ (W3 i) \<longrightarrow> (\<exists>k < length (undone (W3 i)). g ! (gi + k)) \<longrightarrow> is_left i' < is_left i)"
proof (cases "0 < w_occ (W3 i)")
  case True
  have w: "\<not> w_done (W3 i)" "w_channels (W3 i) = 4" "length (lane_done (W3 i)) = 8" "undone (W3 i) \<noteq> []"
    using assms(1) by (simp_all add: is_inv_def)
  note u = commit_undone [OF True w(1-3), of g gi] and n = w_commit_count [of g "W3 i" gi]
  have l: "1 \<le> length (undone (W3 i))" using w(4) by (cases "undone (W3 i)") simp_all
  have ok: "w_ok (fst (w_commit g (W3 i, gi)))" using assms(1) by (simp add: w_ok_commit is_inv_def)
  from u(1) show ?thesis
  proof
    assume "written (fst (w_commit g (W3 i, gi))) = written (W3 i) + 1 \<and> undone (fst (w_commit g (W3 i, gi))) = [0, 1, 2, 3]"
    then show ?thesis using assms(1) u(2-4) n l ok by (auto simp: i'_def is_inv_def is_shape_def is_left_def)
  next
    assume "written (fst (w_commit g (W3 i, gi))) = written (W3 i) \<and> undone (fst (w_commit g (W3 i, gi))) \<noteq> [] \<and>
      length (undone (fst (w_commit g (W3 i, gi)))) \<le> length (undone (W3 i)) \<and>
      ((\<exists>k < length (undone (W3 i)). g ! (gi + k)) \<longrightarrow> length (undone (fst (w_commit g (W3 i, gi)))) < length (undone (W3 i)))"
    then show ?thesis using assms(1) u(2-4) n ok by (auto simp: i'_def is_inv_def is_shape_def is_left_def)
  qed
next
  case False
  then have "fst (w_commit g (W3 i, gi)) = W3 i" by (simp add: w_commit_def)
  then show ?thesis using assms(1) False by (simp add: i'_def)
qed

lemma is_left_lower:
  assumes "is_inv i"
  shows "- 3 \<le> is_left i"
proof -
  have "tiles_is i * wbpt_is i \<le> n_tiles_is i * wbpt_is i" using assms by (intro mult_right_mono) (simp_all add: is_inv_def)
  moreover have "1 \<le> int (length (undone (W3 i)))" using assms by (cases "undone (W3 i)") (simp_all add: is_inv_def)
  moreover have "as_is i \<le> n_tiles_is i * K_is i" "0 \<le> is_owed i" "0 \<le> w_occ (W3 i)"
    "written (W3 i) + w_occ (W3 i) + is_owed i = tiles_is i * wbpt_is i" using assms by (simp_all add: is_inv_def w_ok_def)
  ultimately have "1 \<le> int (length (undone (W3 i)))" "0 \<le> n_tiles_is i * K_is i - as_is i"
    "0 \<le> n_tiles_is i * wbpt_is i - written (W3 i) - w_occ (W3 i)" "0 \<le> n_tiles_is i * wbpt_is i - written (W3 i)"
    by linarith+
  moreover have "- 3 \<le> a + b + (4 * c - 4 + l)" if "1 \<le> l" "0 \<le> a" "0 \<le> b" "0 \<le> c" for a b c l :: int
    using that by linarith
  ultimately show ?thesis unfolding is_left_def by blast
qed

lemma is_done:
  assumes "is_inv i" "tiles_is i = n_tiles_is i"
  shows "as_is i = n_tiles_is i * K_is i" "written (W3 i) + w_occ (W3 i) + is_owed i = n_tiles_is i * wbpt_is i"
proof -
  have k: "0 < K_is i" "n_tiles_is i = as_is i div K_is i" using assms by (simp_all add: is_inv_def)
  have "as_is i div K_is i * K_is i \<le> as_is i"
    using div_mult_mod_eq [of "as_is i" "K_is i"] pos_mod_sign [OF k(1), of "as_is i"] by linarith
  then have "n_tiles_is i * K_is i \<le> as_is i" by (simp only: k(2))
  moreover have "as_is i \<le> n_tiles_is i * K_is i" using assms(1) unfolding is_inv_def by blast
  ultimately show "as_is i = n_tiles_is i * K_is i" by linarith
  show "written (W3 i) + w_occ (W3 i) + is_owed i = n_tiles_is i * wbpt_is i"
    using assms(1) unfolding is_inv_def assms(2) [symmetric] by blast
qed

definition is_run :: "engine \<Rightarrow> bool" where
  "is_run e \<longleftrightarrow> is_inv (e_is e) \<and> kind e = 4 \<and> length (rr (e_fabric e)) = NB \<and>
     \<not> dma_active (e_dma e) \<and> length (xfers (e_dma e)) \<le> head (e_dma e) \<and> as_is (e_is e) \<le> uint (cyc e)"

text \<open>The output groups of the tiles, and those that the writer is configured for.\<close>

definition is_fits :: "is_core \<Rightarrow> bool" where
  "is_fits i \<longleftrightarrow> n_tiles_is i * wbpt_is i = total_beats (W3 i)"

definition is_short :: "is_core \<Rightarrow> bool" where
  "is_short i \<longleftrightarrow> n_tiles_is i * wbpt_is i < total_beats (W3 i)"

definition is_ended :: "engine \<Rightarrow> bool" where
  "is_ended e \<longleftrightarrow> \<not> running e \<and> tiles_is (e_is e) = n_tiles_is (e_is e) \<and> written (W3 (e_is e)) = total_beats (W3 (e_is e)) \<and>
     busy (res e) = cyc e"

lemma is_stage_rest [simp]:
  "kind (is_stage e) = kind e" "e_fabric (is_stage e) = e_fabric e" "e_dma (is_stage e) = e_dma e" "cyc (is_stage e) = cyc e"
  "cap (is_stage e) = cap e" "running (is_stage e) = running e"
  by (simp_all add: is_stage_def is_counted_def Let_def case_prod_beta)

lemma sample_rest [simp]:
  "kind (sample_fifo e) = kind e" "e_fabric (sample_fifo e) = e_fabric e" "e_dma (sample_fifo e) = e_dma e"
  "cyc (sample_fifo e) = cyc e" "cap (sample_fifo e) = cap e" "running (sample_fifo e) = running e" "e_is (sample_fifo e) = e_is e"
  "busy (res (sample_fifo e)) = busy (res e)"
  by (simp_all add: sample_fifo_def)

lemma step_is_progress:
  assumes r: "is_run e" "running e" "cyc e < cap e"
  shows "is_run (step_is e)" "is_shape (e_is (step_is e)) = is_shape (e_is e)" "cap (step_is e) = cap e"
    "uint (cyc (step_is e)) = uint (cyc e) + 1"
    "is_fits (e_is e) \<longrightarrow> is_ended (step_is e) \<or> running (step_is e) \<and> is_left (e_is (step_is e)) < is_left (e_is e)"
    "is_short (e_is e) \<longrightarrow> running (step_is e)"
proof -
  define e1 where "e1 = is_stage (next_cycle e)"
  have inv: "is_inv (e_is (next_cycle e))" using r(1) by (simp add: is_run_def next_cycle_def)
  note s = is_stage_inv [OF inv, folded e1_def]
  have c: "uint (cyc e + 1) = uint (cyc e) + 1"
    using r(3) unsigned_less [of "cap e", where 'a = int] by (simp add: uint_word_ariths word_less_def)
  have rest: "kind e1 = 4" "length (rr (e_fabric e1)) = NB" "dma_step (cyc e1) (e_dma e1) = (0, e_dma e1)" "e_dma e1 = e_dma e"
    "cyc e1 = cyc e + 1" "cap e1 = cap e" "running e1" "as_is (e_is e1) \<le> uint (cyc e1)"
    using r s c by (simp_all add: e1_def is_run_def next_cycle_def dma_step_def is_shape_def)
  have inv1: "is_inv (e_is e1)" "is_shape (e_is e1) = is_shape (e_is e)" using s by (simp_all add: next_cycle_def)
  have all: "is_run (step_is e) \<and> is_shape (e_is (step_is e)) = is_shape (e_is e) \<and> cap (step_is e) = cap e \<and>
        uint (cyc (step_is e)) = uint (cyc e) + 1 \<and>
        (is_fits (e_is e) \<longrightarrow> is_ended (step_is e) \<or> running (step_is e) \<and> is_left (e_is (step_is e)) < is_left (e_is e)) \<and>
        (is_short (e_is e) \<longrightarrow> running (step_is e))"
  proof (cases "tiles_is (e_is e1) = n_tiles_is (e_is e1) \<and> written (W3 (e_is e1)) \<ge> total_beats (W3 (e_is e1))")
    case True
    then have "step_is e = sample_fifo (e1\<lparr>res := (res e1)\<lparr>busy := cyc e1, isc_end := cyc e1\<rparr>, running := False\<rparr>)"
      using r by (simp add: step_is_def Let_def flip: e1_def)
    moreover have "written (W3 (e_is e1)) \<le> n_tiles_is (e_is e1) * wbpt_is (e_is e1)"
      using is_done(2) [OF inv1(1)] True inv1(1) by (simp add: is_inv_def w_ok_def)
    moreover have "is_fits (e_is e1) = is_fits (e_is e)" "is_short (e_is e1) = is_short (e_is e)"
      using inv1(2) by (simp_all add: is_fits_def is_short_def is_shape_def)
    ultimately show ?thesis
      using True r rest inv1 c by (auto simp: is_run_def is_ended_def is_fits_def is_short_def)
  next
    case False
    obtain f g where a: "arbitrate (w_propose (W3 (e_is e1)) (begin_cycle 0 (e_fabric e1))) = (f, g)" by (metis prod.exhaust)
    let ?j = "(e_is e1)\<lparr>W3 := fst (w_commit g (W3 (e_is e1), 0))\<rparr>"
    have st: "step_is e = sample_fifo (e1\<lparr>e_fabric := f, e_is := ?j\<rparr>)"
      using r by (simp add: step_is_def Let_def fabric_cycle_def rest(3) a False flip: e1_def)
    have "w_channels (W3 (e_is e1)) \<le> 8" using inv1(1) by (simp add: is_inv_def)
    note p = fabric_ok_propose [of "begin_cycle 0 (e_fabric e1)", OF _ _ this]
    have ok: "fabric_ok (w_propose (W3 (e_is e1)) (begin_cycle 0 (e_fabric e1)))" using p(1) rest(2) by (simp add: begin_cycle_def)
    note cm = commit_inv [OF inv1(1), of g 0]
    have rr: "length (rr f) = NB" by (rule arbitrate_result(2) [OF ok a])
    have less: "is_left ?j < is_left (e_is e)" if fits: "is_fits (e_is e)"
    proof (cases "is_left (e_is e1) < is_left (e_is e)")
      case True
      then show ?thesis using cm by linarith
    next
      case still: False
      have occ: "0 < w_occ (W3 (e_is e1))"
      proof (rule ccontr)
        assume n: "\<not> 0 < w_occ (W3 (e_is e1))"
        have e: "e1 = next_cycle e" using still s by (simp add: next_cycle_def)
        then have "tiles_is (e_is e1) = n_tiles_is (e_is e1) \<and> is_owed (e_is e1) = 0" using still s n by (simp add: next_cycle_def)
        moreover have "is_fits (e_is e1)" using fits inv1(2) by (simp add: is_fits_def is_shape_def)
        moreover have "w_occ (W3 (e_is e1)) = 0" using n inv1(1) unfolding is_inv_def w_ok_def by linarith
        ultimately show False using is_done(2) [OF inv1(1)] False unfolding is_fits_def by linarith
      qed
      have q: "reqs (w_propose (W3 (e_is e1)) (begin_cycle 0 (e_fabric e1))) = w_lanes (W3 (e_is e1))"
        "dma_owned (w_propose (W3 (e_is e1)) (begin_cycle 0 (e_fabric e1))) = 0"
        using p(2,3) rest(2) by (simp_all add: begin_cycle_def)
      have l: "length (w_lanes (W3 (e_is e1))) = length (undone (W3 (e_is e1)))" "undone (W3 (e_is e1)) \<noteq> []"
        using occ inv1(1) by (simp_all add: w_lanes_undone is_inv_def)
      then have "w_lanes (W3 (e_is e1)) \<noteq> []" by auto
      from idle_banks_grant(1) [OF ok _ q(2) a, unfolded q(1), OF this]
      have "\<exists>k < length (undone (W3 (e_is e1))). g ! (0 + k)" using l(1) by simp
      then have "is_left ?j < is_left (e_is e1)" using cm occ by blast
      moreover have "e_is e1 = e_is e" using still s by (auto simp: next_cycle_def)
      ultimately show ?thesis by simp
    qed
    have "total_beats (W3 ?j) = total_beats (W3 (e_is e1))" by (simp add: w_commit_count(4))
    then show ?thesis
      using less cm rr rest inv1 r c by (simp add: st is_run_def is_shape_def)
  qed
  from all show "is_run (step_is e)" "is_shape (e_is (step_is e)) = is_shape (e_is e)" "cap (step_is e) = cap e"
    "uint (cyc (step_is e)) = uint (cyc e) + 1"
    "is_fits (e_is e) \<longrightarrow> is_ended (step_is e) \<or> running (step_is e) \<and> is_left (e_is (step_is e)) < is_left (e_is e)"
    "is_short (e_is e) \<longrightarrow> running (step_is e)" by blast+
qed

lemma is_run_ends:
  assumes "is_run e" "is_fits (e_is e)" "running e" "uint (cyc e) + is_left (e_is e) + 3 < uint (cap e)"
  shows "\<exists>k. is_run (engine_run k e) \<and> is_ended (engine_run k e) \<and> is_shape (e_is (engine_run k e)) = is_shape (e_is e) \<and>
    uint (cyc (engine_run k e)) \<le> uint (cyc e) + is_left (e_is e) + 4"
  using assms
proof (induction "nat (is_left (e_is e) + 3)" arbitrary: e rule: less_induct)
  case less
  have inv: "is_inv (e_is e)" and st: "engine_step e = step_is e" using less.prems(1) by (simp_all add: is_run_def engine_step_def)
  have l: "- 3 \<le> is_left (e_is e)" by (rule is_left_lower [OF inv])
  then have "cyc e < cap e" using less.prems(4) unfolding word_less_def by linarith
  note p = step_is_progress [OF less.prems(1,3) this]
  have fits: "is_fits (e_is (step_is e))" using less.prems(2) p(2) by (simp add: is_fits_def is_shape_def)
  have "is_ended (step_is e) \<or> running (step_is e) \<and> is_left (e_is (step_is e)) < is_left (e_is e)" using p(5) less.prems(2) by blast
  then show ?case
  proof
    assume "is_ended (step_is e)"
    then show ?thesis using p l by (intro exI [of _ 1]) (simp add: st)
  next
    assume n: "running (step_is e) \<and> is_left (e_is (step_is e)) < is_left (e_is e)"
    have "nat (is_left (e_is (step_is e)) + 3) < nat (is_left (e_is e) + 3)"
      using n is_left_lower [of "e_is (step_is e)"] p(1) by (simp add: is_run_def)
    from less.hyps [OF this p(1) fits] obtain k where "is_run (engine_run k (step_is e)) \<and> is_ended (engine_run k (step_is e)) \<and>
      is_shape (e_is (engine_run k (step_is e))) = is_shape (e_is (step_is e)) \<and>
      uint (cyc (engine_run k (step_is e))) \<le> uint (cyc (step_is e)) + is_left (e_is (step_is e)) + 4"
      using n p(3,4) less.prems(4) by auto
    then show ?thesis using n p(2,4) by (intro exI [of _ "Suc k"]) (simp add: st)
  qed
qed


lemma is_run_short:
  assumes "is_run e" "is_short (e_is e)" "running e" "cyc e \<le> cap e"
  shows "running (engine_run k e) \<or> busy (res (engine_run k e)) = cap e"
  using assms
proof (induction k arbitrary: e)
  case (Suc k)
  have st: "engine_step e = step_is e" using Suc.prems(1) by (simp add: is_run_def engine_step_def)
  show ?case
  proof (cases "cyc e < cap e")
    case True
    note p = step_is_progress [OF Suc.prems(1,3) True]
    have "is_short (e_is (step_is e))" "running (step_is e)"
      using Suc.prems(2) p(2,6) by (simp_all add: is_short_def is_shape_def)
    moreover have "cyc (step_is e) \<le> cap (step_is e)" using True p(3,4) by (simp add: word_le_def word_less_def)
    ultimately show ?thesis using Suc.IH [OF p(1)] p(3) by (simp add: st)
  next
    case False
    then have "cyc e = cap e" using Suc.prems(4) by simp
    then show ?thesis
      using Suc.prems(3) engine_run_stopped [of "stop e" k] by (simp add: st step_is_def stop_def)
  qed
qed simp

section \<open>The run that the configuration starts\<close>

lemma load_shape_kind [simp]: "kind (load_shape ps cfg r10c r11c e) = 0"
  by (simp add: load_shape_def Let_def)

lemma configure_kind:
  "kind (configure_p1 e) = 2" "kind (configure_p2 mode swc e) = 1" "kind (configure_os e) = 3" "kind (configure_simd e) = 5"
  by (simp_all add: configure_p1_def configure_p2_def configure_os_def configure_simd_def start_run_def Let_def)

lemma configure_is_kind: "kind (configure ps cfg r10c r11c swc e) = 4 \<Longrightarrow>
    configure ps cfg r10c r11c swc e = configure_is (load_shape ps cfg r10c r11c e)"
  by (simp add: configure_def Let_def configure_kind split: if_splits)

lemma conf_W3:
  "undone (conf_writer ps P_W3 4 1 tok w) = [0, 1, 2, 3]" "w_ok (conf_writer ps P_W3 4 1 tok w)"
  "0 < w_depth (conf_writer ps P_W3 4 1 tok w)"
  "w_occ (conf_writer ps P_W3 4 1 tok w) = 0" "written (conf_writer ps P_W3 4 1 tok w) = 0"
  "w_channels (conf_writer ps P_W3 4 1 tok w) = 4" "length (lane_done (conf_writer ps P_W3 4 1 tok w)) = 8"
  "\<not> w_done (conf_writer ps P_W3 4 1 tok w)"
proof -
  show "undone (conf_writer ps P_W3 4 1 tok w) = [0, 1, 2, 3]"
    by (rule undone_reset) (simp_all add: conf_writer_def w_configure_def)
  show "0 < w_depth (conf_writer ps P_W3 4 1 tok w)"
    by (simp add: conf_writer_def snax_streamer_depth_def streamer_depths_def P_W3_def)
qed (simp_all add: w_ok_configure, simp_all add: conf_writer_def w_configure_def)

lemma configure_is_fields:
  "n_tiles_is (e_is (configure_is e)) = M_i e * e_dFinal e" "K_is (e_is (configure_is e)) = osN e"
  "W3 (e_is (configure_is e)) = conf_writer (e_ports e) P_W3 4 1 T_W3 (W3 (e_is e))"
  "wbpt_is (e_is (configure_is e)) = beats_per_tile (total_beats (W3 (e_is (configure_is e)))) (n_tiles_is (e_is (configure_is e)))"
  "as_is (e_is (configure_is e)) = 0" "tiles_is (e_is (configure_is e)) = 0" "is_owed (e_is (configure_is e)) = 0"
  "cyc (configure_is e) = 0" "kind (configure_is e) = 4" "e_fabric (configure_is e) = fabric0"
  "\<not> dma_active (e_dma (configure_is e))" "xfers (e_dma (configure_is e)) = []"
  "running (configure_is e) \<longleftrightarrow> 0 < n_tiles_is (e_is (configure_is e)) \<and> 0 < K_is (e_is (configure_is e))"
  by (simp_all add: configure_is_def start_run_def dma_clear_def Let_def)

lemma configure_is_run:
  assumes "running (configure_is e)"
  shows "is_run (configure_is e)"
    and "is_left (e_is (configure_is e)) = n_tiles_is (e_is (configure_is e)) * K_is (e_is (configure_is e)) +
      5 * (n_tiles_is (e_is (configure_is e)) * wbpt_is (e_is (configure_is e)))"
proof -
  note f = configure_is_fields [where e = e]
  have "0 < n_tiles_is (e_is (configure_is e))" "0 < K_is (e_is (configure_is e))" using assms f(13) by blast+
  moreover have "1 \<le> wbpt_is (e_is (configure_is e))" unfolding f(4) by (simp add: beats_per_tile_def)
  ultimately show "is_run (configure_is e)"
    unfolding is_run_def is_inv_def using f(5-12) by (simp add: f(3) conf_W3 [simplified] fabric0_def)
  show "is_left (e_is (configure_is e)) = n_tiles_is (e_is (configure_is e)) * K_is (e_is (configure_is e)) +
      5 * (n_tiles_is (e_is (configure_is e)) * wbpt_is (e_is (configure_is e)))"
    unfolding is_left_def using f(5) by (simp add: f(3) conf_W3 [simplified])
qed

text \<open>
  C14: the isCore alone finishes: when the output groups that the writer is configured for divide evenly over the
  tiles and the cap is not too small, a run writes all groups of all tiles and stops by itself. It takes at least one
  cycle per step of the array and at most as many as steps, pushes and lane writes one after the other.
\<close>

theorem isgemm_finishes:
  assumes "e = configure ps cfg r10c r11c swc e0" "kind e = 4" "running e" "i = e_is e"
    and "groups = total_beats (W3 i)" "n_tiles_is i * wbpt_is i = groups"
    and "n_tiles_is i * K_is i + 5 * groups + 3 < uint (cap e)"
  shows "\<exists>k. \<not> running (engine_run k e) \<and> tiles_is (e_is (engine_run k e)) = n_tiles_is i \<and>
    written (W3 (e_is (engine_run k e))) = groups \<and> n_tiles_is i * K_is i \<le> uint (busy (res (engine_run k e))) \<and>
    uint (busy (res (engine_run k e))) \<le> n_tiles_is i * K_is i + 5 * groups + 4"
proof -
  have e: "e = configure_is (load_shape ps cfg r10c r11c e0)" using configure_is_kind assms(1,2) by metis
  then have r: "is_run e" "is_left i = n_tiles_is i * K_is i + 5 * groups" "cyc e = 0"
    using configure_is_run assms(3,4,6) configure_is_fields(8) by auto
  have fits: "is_fits i" using assms(5,6) by (simp add: is_fits_def)
  then obtain k where k: "is_run (engine_run k e)" "is_ended (engine_run k e)" "is_shape (e_is (engine_run k e)) = is_shape i"
    "uint (cyc (engine_run k e)) \<le> n_tiles_is i * K_is i + 5 * groups + 4"
    using is_run_ends [OF r(1)] r(2,3) assms(3,4,7) by auto
  have "as_is (e_is (engine_run k e)) = n_tiles_is i * K_is i"
    using is_done(1) k(1-3) by (auto simp: is_run_def is_ended_def is_shape_def)
  then show ?thesis
    using k assms(5) by (intro exI [of _ k]) (auto simp: is_run_def is_ended_def is_shape_def)
qed


text \<open>A concrete run: one tile of one step over one output group, then two tiles over three groups.\<close>

definition isgemm_ports :: "int \<Rightarrow> agu list" where
  "isgemm_ports n = replicate 17 agu_example @ [agu_example\<lparr>a_t_bound := [n, 1, 1, 1]\<rparr>]"

definition isgemm_cfg :: "u32 \<Rightarrow> sim_cfg" where
  "isgemm_cfg n = \<lparr>cfg_mode = 0x80000, cfg_seqLen = 16, cfg_dModel = 1, cfg_dtRank = 0, cfg_dInner = 24, cfg_dFinal = n\<rparr>"

definition isgemm_start :: "int \<Rightarrow> u32 \<Rightarrow> engine" where
  "isgemm_start n d = configure (isgemm_ports n) (isgemm_cfg d) 0 0 0 (engine0 [])"

lemma isgemm_start_run:
  assumes "0 < sint d" "1 < n"
  shows "kind (isgemm_start n d) = 4" "n_tiles_is (e_is (isgemm_start n d)) = sint d" "K_is (e_is (isgemm_start n d)) = 1"
    "running (isgemm_start n d)" "total_beats (W3 (e_is (isgemm_start n d))) = n" "uint (cap (isgemm_start 2 1)) = 500008"
    "wbpt_is (e_is (isgemm_start n d)) = beats_per_tile n (sint d)"
proof -
  have c: "isgemm_start n d = configure_is (load_shape (isgemm_ports n) (isgemm_cfg d) 0 0 (engine0 []))" for n d
    by (simp add: isgemm_start_def configure_def Let_def load_shape_def isgemm_cfg_def mode_bit_def)
  have l: "n_tiles_is (e_is (isgemm_start n d)) = sint d" "K_is (e_is (isgemm_start n d)) = 1" for n d
    by (simp_all add: c configure_is_fields) (simp_all add: load_shape_def isgemm_cfg_def Let_def)
  then show "n_tiles_is (e_is (isgemm_start n d)) = sint d" "K_is (e_is (isgemm_start n d)) = 1" by simp_all
  show "kind (isgemm_start n d) = 4" by (simp add: c configure_is_fields)
  show "running (isgemm_start n d)" using l assms(1) by (simp add: c configure_is_fields(13))
  show b: "total_beats (W3 (e_is (isgemm_start n d))) = n"
    using assms(2) by (simp add: c configure_is_fields(3))
      (simp add: load_shape_def Let_def isgemm_ports_def agu_example_def conf_writer_def w_configure_def P_W3_def total_beats_def or_one_def nth_append)
  show "wbpt_is (e_is (isgemm_start n d)) = beats_per_tile n (sint d)"
    using b l by (simp add: c configure_is_fields(4))
  show "uint (cap (isgemm_start 2 1)) = 500008"
    by (simp add: c configure_is_def start_run_def Let_def) (simp add: load_shape_def isgemm_cfg_def Let_def)
qed

lemma isgemm_finishes_witness:
  "\<exists>k. \<not> running (engine_run k (isgemm_start 2 1)) \<and> tiles_is (e_is (engine_run k (isgemm_start 2 1))) = 1 \<and>
    written (W3 (e_is (engine_run k (isgemm_start 2 1)))) = 2 \<and> 1 \<le> uint (busy (res (engine_run k (isgemm_start 2 1)))) \<and>
    uint (busy (res (engine_run k (isgemm_start 2 1)))) \<le> 15"
  using isgemm_finishes [OF isgemm_start_def [of 2 1], OF _ _ refl refl]
    isgemm_start_run [of 1 2] by (simp add: beats_per_tile_def)


end
