(* ===== verification/Safe_start.thy ===== *)
theory Safe_start
  imports Engine
begin

text \<open>
  The check for reads before their data is written (phase 2): when the readers of the scan (R10) and of the isCore (R11) are
  released early, the engine counts the grants of words that the producer has not marked yet.
\<close>

lemma deliver_idx_pending: "pending_push (deliver_idx m r) = pending_push r" "r_channels (deliver_idx m r) = r_channels r"
  by (induction m r rule: deliver_idx.induct) (subst deliver_idx.simps, simp)+

lemma land_lanes_fields: "pending_push (fold land_lane ls r) = pending_push r" "r_channels (fold land_lane ls r) = r_channels r"
  by (induction ls arbitrary: r) (simp_all add: land_lane_def)

lemma pending_push_land [simp]: "pending_push (land_reads r) = pending_push r" "r_channels (land_reads r) = r_channels r"
  by (simp_all add: land_reads_def Let_def deliver_idx_pending land_lanes_fields)

lemma pending_push_pop [simp]: "pending_push (pop r) = pending_push r" "r_channels (pop r) = r_channels r"
  by (simp_all add: pop_def r_pop_def Let_def)

lemma pending_push_commit:
  assumes "r_channels r = 1"
  shows "pending_push (fst (r_commit g (r, gi))) = (if r_active r \<and> may_issue r 0 \<and> g ! gi then 1 else 0)"
  using assms by (simp add: r_commit_def commit_lane_def may_issue_def Let_def set_ti_def)

text \<open>
  C19: the check misses stale reads of a reader with one channel: after a cycle with a grant, a grant in the next cycle
  is never counted, whatever the marks; and a grant that is counted is judged by the word of the group before it, the position
  that the reader had before this grant.
\<close>

theorem stale_check_skips:
  assumes "r_channels r = 1" "r_active r" "may_issue r 0" "g ! gi" "r1 = fst (r_commit g (r, gi))"
  shows "stale_read words marks (land_reads r1) (fst (r_commit g' (land_reads r1, gi'))) = 0 \<and>
    stale_read words marks (pop (land_reads r1)) (fst (r_commit g' (pop (land_reads r1), gi'))) = 0 \<and>
    r_ti r1 = digits (r_eb r) (lane_issued r ! 0 smod or_one (r_total r)) \<and>
    stale_read words marks r r1 = (if pending_push r < 1 \<and> 0 \<le> word_off (r_ts r) (r_ti r) \<and> word_off (r_ts r) (r_ti r) < words \<and>
      \<not> marks ! nat (word_off (r_ts r) (r_ti r)) then 1 else 0)"
proof -
  have "pending_push r1 = 1" using assms by (simp add: pending_push_commit)
  moreover have "r_channels r1 = 1" using assms(1,5) by (simp add: r_commit_def commit_lane_def Let_def set_ti_def)
  moreover have "r_ti r1 = digits (r_eb r) (lane_issued r ! 0 smod or_one (r_total r))"
    using assms by (simp add: r_commit_def commit_lane_def may_issue_def Let_def set_ti_def r_total_def)
  ultimately show ?thesis by (simp add: stale_read_def Let_def pending_push_commit)
qed

lemma stale_check_skips_witness:
  "stale_read 8 (replicate 8 False) (land_reads (fst (r_commit [True] (r_configure agu_example 1 1 4 4 reader_zero, 0))))
     (fst (r_commit [True] (land_reads (fst (r_commit [True] (r_configure agu_example 1 1 4 4 reader_zero, 0))), 0))) = 0"
proof -
  let ?r = "r_configure agu_example 1 1 4 4 reader_zero"
  have "r_channels ?r = 1" "r_active ?r" "may_issue ?r 0" "[True] ! 0"
    by (simp_all add: r_configure_def may_issue_def agu_example_def reader_zero_def Let_def r_reset_def)
  from stale_check_skips [OF this refl, of 8 "replicate 8 False" "[True]" 0] show ?thesis by blast
qed

end
