(* ===== verification/Engine_ports.thy ===== *)
theory Engine_ports
  imports Engine Ports
begin

text \<open>The osCore's streamers as one port: two readers and a writer, in the order in which the engine steps them.\<close>

interpretation operands: two_ports r_propose r_commit r_lanes r_propose r_commit r_lanes
  by unfold_locales

interpretation os_ports: two_ports operands.both_propose operands.both_commit operands.both_lanes w_propose w_commit w_lanes
  by unfold_locales

lemma os_propose_ports: "os_propose o1 = os_ports.both_propose ((R0 o1, R1 o1), W0 o1)"
  by (rule ext) (simp add: os_propose_def os_ports.both_propose_def operands.both_propose_def)

lemma os_commit_ports:
  "os_commit g (o1, gi) = (case os_ports.both_commit g (((R0 o1, R1 o1), W0 o1), gi) of
     (((r0, r1), w0), gi') \<Rightarrow> (o1\<lparr>R0 := r0, R1 := r1, W0 := w0\<rparr>, gi'))"
  by (simp add: os_commit_def os_ports.both_commit_def operands.both_commit_def split: prod.splits)

lemma os_lanes: "os_ports.both_lanes ((R0 o1, R1 o1), W0 o1) = r_lanes (R0 o1) @ r_lanes (R1 o1) @ w_lanes (W0 o1)"
  by (simp add: os_ports.both_lanes_def operands.both_lanes_def)

lemma commit_slice:
  assumes "length g0 = length (r_lanes r)"
  shows "fst (r_commit (pre @ g0 @ suf) (r, length pre)) = fst (r_commit g0 (r, 0))"
  by (rule reader_port.own) (use assms in \<open>simp add: nth_append\<close>)

lemma w_commit_slice:
  assumes "length g0 = length (w_lanes w)"
  shows "fst (w_commit (pre @ g0) (w, length pre)) = fst (w_commit g0 (w, 0))"
  by (rule writer_port.own) (use assms in \<open>simp add: nth_append\<close>)

text \<open>
  C18: the osCore's streamers are told what they were granted: in a cycle they post the requests of R0, of R1 and
  of W0, in this order, and after the arbitration each of them commits exactly the grants of its own requests.
\<close>

theorem os_grants_own:
  assumes "length (r_lanes (R0 o1)) + length (r_lanes (R1 o1)) + length (w_lanes (W0 o1)) \<le> 64"
    and "length g0 = length (r_lanes (R0 o1))" "length g1 = length (r_lanes (R1 o1))" "length g2 = length (w_lanes (W0 o1))"
  shows "reqs (os_propose o1 (begin_cycle dma f)) = r_lanes (R0 o1) @ r_lanes (R1 o1) @ w_lanes (W0 o1) \<and>
    os_commit (g0 @ g1 @ g2) (o1, 0) =
      (o1\<lparr>R0 := fst (r_commit g0 (R0 o1, 0)), R1 := fst (r_commit g1 (R1 o1, 0)), W0 := fst (w_commit g2 (W0 o1, 0))\<rparr>,
       length (g0 @ g1 @ g2))"
proof -
  let ?p = "((R0 o1, R1 o1), W0 o1)" and ?g = "g0 @ g1 @ g2"
  have "reqs (os_propose o1 (begin_cycle dma f)) = os_ports.both_lanes ?p"
    using os_ports.both.posts [of "begin_cycle dma f" ?p] assms(1) by (simp add: os_propose_ports os_lanes begin_cycle_def)
  moreover have "snd (os_commit ?g (o1, 0)) = length ?g"
    using os_ports.both.index [of ?g ?p 0] assms(2-4) by (simp add: os_commit_ports os_lanes case_prod_beta)
  moreover have "fst (os_commit ?g (o1, 0)) =
      o1\<lparr>R0 := fst (r_commit g0 (R0 o1, 0)), R1 := fst (r_commit g1 (R1 o1, 0)), W0 := fst (w_commit g2 (W0 o1, 0))\<rparr>"
  proof -
    obtain r0 i0 where 0: "r_commit ?g (R0 o1, 0) = (r0, i0)" by (metis prod.exhaust)
    obtain r1 i1 where 1: "r_commit ?g (R1 o1, i0) = (r1, i1)" by (metis prod.exhaust)
    have i0: "i0 = length g0" using reader_port.index [of ?g "R0 o1" 0] assms(2) by (simp add: 0)
    have "i1 = i0 + length (r_lanes (R1 o1))" using reader_port.index [of ?g "R1 o1" i0] unfolding 1 by simp
    with i0 have i: "i0 = length g0" "i1 = length (g0 @ g1)" using assms(3) by simp_all
    have "r0 = fst (r_commit g0 (R0 o1, 0))" using commit_slice [OF assms(2), of "[]" "g1 @ g2"] by (simp add: 0)
    moreover have "r1 = fst (r_commit g1 (R1 o1, 0))" using commit_slice [OF assms(3), of g0 g2] 1 by (simp add: i(1))
    moreover have "fst (w_commit ?g (W0 o1, i1)) = fst (w_commit g2 (W0 o1, 0))"
      using w_commit_slice [OF assms(4), of "g0 @ g1"] by (simp add: i(2))
    ultimately show ?thesis by (simp add: os_commit_def 0 1 case_prod_beta)
  qed
  ultimately show ?thesis by (simp add: os_lanes prod_eq_iff)
qed

lemma os_grants_own_witness:
  "fst (os_commit ([True, False] @ [] @ []) (e_os ((engine0 [])\<lparr>e_os := (e_os (engine0 []))\<lparr>R0 := r_configure agu_example 2 1 8 0 reader_zero\<rparr>\<rparr>), 0)) =
   (e_os (engine0 []))\<lparr>R0 := fst (r_commit [True, False] (r_configure agu_example 2 1 8 0 reader_zero, 0)),
     R1 := fst (r_commit [] (reader_zero, 0)), W0 := fst (w_commit [] (writer_zero, 0))\<rparr>"
proof -
  let ?o = "(e_os (engine0 []))\<lparr>R0 := r_configure agu_example 2 1 8 0 reader_zero\<rparr>"
  have l: "length (r_lanes (R0 ?o)) = 2" "r_lanes (R1 ?o) = []" "w_lanes (W0 ?o) = []" "R1 ?o = reader_zero" "W0 ?o = writer_zero"
    by (simp_all add: r_lanes_def w_lanes_def engine0_def reader_zero_def writer_zero_def r_configure_def r_reset_def Let_def may_issue_def upt_rec)
  show ?thesis using os_grants_own [of ?o "[True, False]" "[]" "[]"] l by simp
qed

end
