(* ===== verification/World.thy ===== *)
theory World
  imports Interp Engine_ends
begin

text \<open>
  The timing world of memsim (target/snitch_cluster/sim/src/world.cpp and world.hpp): the DMA that copies at once and
  answers later, the register window of the streamers and of the accelerator, and the start of an invocation on the engine.
  The checks that follow an invocation are in Layout_check and Datapath, and World_ops puts the world together. The time line and
  the debug output are left out, and with them \<open>csr_to_port_\<close>, which nothing reads.
\<close>

section \<open>State\<close>

definition N_READERS :: nat where "N_READERS = 14"
definition N_PORTS :: nat where "N_PORTS = 18"

definition SNAX_STREAMER_CFG_HI :: u32 where "SNAX_STREAMER_CFG_HI = 1177"
definition SNAX_DELAYED_START_R10 :: u32 where "SNAX_DELAYED_START_R10 = 1178"
definition SNAX_DELAYED_START_R11 :: u32 where "SNAX_DELAYED_START_R11 = 1179"
definition SNAX_STREAMER_BUSY :: u32 where "SNAX_STREAMER_BUSY = 1181"
definition SNAX_STREAMER_PERF :: u32 where "SNAX_STREAMER_PERF = 1182"
definition SNAX_MODE :: u32 where "SNAX_MODE = 1183"
definition SNAX_SEQ_LEN :: u32 where "SNAX_SEQ_LEN = 1184"
definition SNAX_D_MODEL :: u32 where "SNAX_D_MODEL = 1185"
definition SNAX_DT_RANK :: u32 where "SNAX_DT_RANK = 1186"
definition SNAX_D_INNER :: u32 where "SNAX_D_INNER = 1187"
definition SNAX_D_FINAL :: u32 where "SNAX_D_FINAL = 1188"
definition SNAX_SIMBACORE_START :: u32 where "SNAX_SIMBACORE_START = 1189"
definition SNAX_SIMBACORE_BUSY :: u32 where "SNAX_SIMBACORE_BUSY = 1190"
definition SNAX_SIMBACORE_PERF :: u32 where "SNAX_SIMBACORE_PERF = 1191"
definition SNAX_R10_GAUGE :: u32 where "SNAX_R10_GAUGE = 1192"
definition SNAX_R11_GAUGE :: u32 where "SNAX_R11_GAUGE = 1193"

text \<open>The first register of each port and the number of its spatial strides.\<close>

definition port_spatial :: "nat \<Rightarrow> nat" where
  "port_spatial p = (if p = 7 \<or> p = 17 then 2 else 1)"

definition port_layout :: "(u32 \<times> nat) list" where
  "port_layout = fst (fold (\<lambda>p (ls, c). (ls @ [(c, port_spatial p)], c + 2 + word_of_nat (port_spatial p) + 4 + 4 + 1))
     [0..<N_PORTS] ([], SNAX_STREAMER_CFG_LO))"

definition PORT_NCH :: "int list" where
  "PORT_NCH = [2, 4, 1, 1, 1, 1, 1, 4, 1, 1, 1, 1, 4, 4, 1, 1, 1, 4]"

record sim_world =
  raw :: "u32 list"
  ports :: "agu list"
  world_cfg :: sim_cfg
  dma_txid :: u32
  accel_start :: u64
  accel_end :: u64
  t_oscore_done :: u64
  t_suc_start :: u64
  t_suc_done :: u64
  g_r10_total :: u32
  g_r11_total :: u32
  g_iscore_total :: u32
  r10_start_cnt :: u32
  r11_start_cnt :: u32
  g_r10_fire :: "u32 list"
  g_r11_fire :: "u32 list"
  osc_dur :: u64
  suc_dur :: u64
  isc_dur :: u64
  perf :: u32
  phase2 :: bool
  eng :: engine
  engine_active :: bool
  engine_used :: bool
  inv_dma :: dma_engine
  dma_engine_on :: bool
  inv_kind :: int
  inv_finalized :: bool
  conv_present :: bool
  dma_busy_until :: u64
  dma_busy_addr :: u32
  dtRankUnroll :: u32
  trace_on :: bool
  verify :: bool
  verify_ran :: bool
  layout_pass :: bool
  n_layout_errs :: u32
  layout_invs :: i32
  s2s_opt_r10 :: int
  s2s_opt_r11 :: int
  s2s_total_r10 :: int
  s2s_total_r11 :: int

definition sim_world0 :: sim_world where
  "sim_world0 = (let a = \<lparr>a_base = 0, a_s_stride = [0, 0], a_n_s = 0, a_t_bound = [0, 0, 0, 0], a_t_stride = [0, 0, 0, 0],
       a_remap = 0, a_enabled = False\<rparr>; e = engine0 (replicate N_PORTS a)
     in \<lparr>raw = replicate 256 0, ports = replicate N_PORTS a,
       world_cfg = \<lparr>cfg_mode = 0, cfg_seqLen = 0, cfg_dModel = 0, cfg_dtRank = 0, cfg_dInner = 0, cfg_dFinal = 0\<rparr>, dma_txid = 0,
       accel_start = 0, accel_end = 0, t_oscore_done = 0, t_suc_start = 0, t_suc_done = 0, g_r10_total = 0, g_r11_total = 0,
       g_iscore_total = 0, r10_start_cnt = 0, r11_start_cnt = 0, g_r10_fire = [], g_r11_fire = [], osc_dur = 0, suc_dur = 0,
       isc_dur = 0, perf = 0, phase2 = False, eng = e, engine_active = False, engine_used = False, inv_dma = e_dma e,
       dma_engine_on = False, inv_kind = 0, inv_finalized = False, conv_present = False, dma_busy_until = 0, dma_busy_addr = 0,
       dtRankUnroll = 0, trace_on = False, verify = False, verify_ran = False, layout_pass = True, n_layout_errs = 0, layout_invs = 0,
       s2s_opt_r10 = - 1, s2s_opt_r11 = - 1, s2s_total_r10 = 0, s2s_total_r11 = 0\<rparr>)"

definition dma_first_beat :: "bool \<Rightarrow> u64" where
  "dma_first_beat l3 = (if l3 then 19 else 10)"

section \<open>The registers of the streamers\<close>

definition raw_at :: "sim_world \<Rightarrow> nat \<Rightarrow> u32" where
  "raw_at w i = raw w ! i"

definition decode_port :: "sim_world \<Rightarrow> nat \<Rightarrow> agu \<Rightarrow> agu" where
  "decode_port w p a =
     (let i = unat (fst (port_layout ! p) - SNAX_STREAMER_CFG_LO); n_s = snd (port_layout ! p);
          bounds = map (\<lambda>k. sint (raw_at w (i + 2 + n_s + k))) [0..<4]
      in a\<lparr>a_base := push_bit 32 (ucast (raw_at w (i + 1))) OR ucast (raw_at w i), a_n_s := n_s,
           a_s_stride := map (\<lambda>k. sint (raw_at w (i + 2 + k))) [0..<n_s] @ drop n_s (a_s_stride a), a_t_bound := bounds,
           a_t_stride := map (\<lambda>k. sint (raw_at w (i + 2 + n_s + 4 + k))) [0..<4],
           a_remap := sint (raw_at w (i + 2 + n_s + 8)), a_enabled := (bounds ! 0 \<noteq> 0)\<rparr>)"

definition decode_ports :: "sim_world \<Rightarrow> sim_world" where
  "decode_ports w = w\<lparr>ports := map (\<lambda>p. decode_port w p (ports w ! p)) [0..<N_PORTS]\<rparr>"

section \<open>The engine in real time\<close>

text \<open>Steps until the engine stops or has reached a cycle.\<close>

function engine_until :: "u64 \<Rightarrow> engine \<Rightarrow> engine" where
  "engine_until t e = (if running e \<and> cyc e < t then engine_until t (engine_step e) else e)"
  by auto
termination
proof (relation "measure (\<lambda>(t, e). if running e then Suc (unat t - unat (cyc e)) else 0)")
  show "((t, engine_step e), (t, e)) \<in> measure (\<lambda>(t, e). if running e then Suc (unat t - unat (cyc e)) else 0)"
    if a: "running e \<and> cyc e < t" for t e
  proof (cases "running (engine_step e)")
    case True
    then have c: "cyc (engine_step e) = cyc e + 1" using engine_step_cycle [of e] by (simp add: one_cycle_def control_def)
    have "unat (cyc e) < unat t" using a by (simp add: word_less_nat_alt)
    moreover from this have "unat (cyc e + 1) = unat (cyc e) + 1"
      using unsigned_less [of t, where 'a = nat] by (simp add: unat_add_small)
    ultimately show ?thesis using a True c by simp
  qed (use a in simp)
qed simp

declare engine_until.simps [simp del]

definition mode_simd :: "u32 \<Rightarrow> bool" where
  "mode_simd m \<longleftrightarrow> \<not> (mode_bit m 21 \<or> mode_bit m 20 \<or> mode_bit m 19)"

text \<open>When the engine has stopped, its cycles become the end of the invocation; a SIMD pass does not tick the counter.\<close>

definition world_advance_to :: "u64 \<Rightarrow> sim_world \<Rightarrow> sim_world" where
  "world_advance_to t w =
     (if \<not> engine_active w \<or> t \<le> accel_start w then w
      else let e = engine_until (t - accel_start w) (eng w); w1 = w\<lparr>eng := e\<rparr> in
        if running e then w1
        else w1\<lparr>engine_active := False, accel_end := accel_start w1 + busy (res e),
          perf := (if mode_simd (cfg_mode (world_cfg w1)) then 0 else ucast (busy (res e)))\<rparr>)"

definition world_next_event :: "sim_world \<Rightarrow> u64" where
  "world_next_event w =
     (if engine_active w then accel_start w + cyc (eng w) + 1
      else let e = (if accel_end w > accel_start w then accel_end w else - 1)
           in if dma_busy_until w \<noteq> 0 \<and> dma_busy_until w < e then dma_busy_until w else e)"

section \<open>DMA\<close>

definition dma_row :: "dma_desc \<Rightarrow> nat \<Rightarrow> pages \<Rightarrow> pages" where
  "dma_row d r m = mem_write (ucast (ds_dst d) + word_of_nat r * ds_dst_stride d)
     (mem_read (ucast (ds_src d) + word_of_nat r * ds_src_stride d) (unat (ds_size d)) m) m"

definition dma_rows :: "dma_desc \<Rightarrow> u32" where
  "dma_rows d = (if ds_is_2d d then ds_repeat d else 1)"

definition dma_copy :: "dma_desc \<Rightarrow> pages \<Rightarrow> pages" where
  "dma_copy d m = fold (dma_row d) [0..<unat (dma_rows d)] m"

definition dma_beats :: "dma_desc \<Rightarrow> u64" where
  "dma_beats d = (ucast (ds_size d) * ucast (dma_rows d) + 63) div 64"

text \<open>A transfer behind others only adds its beats, an idle engine also needs the first beat.\<close>

definition dma_timing :: "dma_desc \<Rightarrow> u64 \<Rightarrow> sim_world \<Rightarrow> sim_world" where
  "dma_timing d at w =
     (let l3 = (ds_src_is_l3 d \<or> ds_dst_is_l3 d) in
      w\<lparr>dma_busy_until := (if at \<ge> dma_busy_until w then at + dma_first_beat l3 + dma_beats d
         else dma_busy_until w + dma_beats d)\<rparr>)"

text \<open>The side of a copy in the TCDM goes to the engine, live.\<close>

definition dma_contend :: "dma_desc \<Rightarrow> u64 \<Rightarrow> sim_world \<Rightarrow> sim_world" where
  "dma_contend d at w =
     (let l3 = (ds_src_is_l3 d \<or> ds_dst_is_l3 d); tcdm = (\<not> ds_src_is_l3 d \<or> \<not> ds_dst_is_l3 d);
          addr = (if ds_dst_is_l3 d then ucast (ds_src d) else ucast (ds_dst d)); bytes = ds_size d * dma_rows d;
          w1 = (if tcdm then w\<lparr>dma_busy_addr := addr\<rparr> else w);
          w2 = (if dma_engine_on w1 \<and> inv_kind w1 \<noteq> 0 \<and> \<not> inv_finalized w1 \<and> at \<ge> accel_start w1 \<and> tcdm
                then w1\<lparr>inv_dma := dma_enqueue addr bytes l3 (at - accel_start w1) (inv_dma w1)\<rparr> else w1)
      in if engine_active w2 \<and> at \<ge> accel_start w2 \<and> tcdm
         then let w3 = world_advance_to at w2 in w3\<lparr>eng := engine_enqueue addr bytes l3 (at - accel_start w3) (eng w3)\<rparr>
         else w2)"

definition world_dma_submit :: "dma_desc \<Rightarrow> u64 \<Rightarrow> sim_world env \<Rightarrow> u32 \<times> sim_world env" where
  "world_dma_submit d at = (\<lambda>(w, m).
     let m1 = dma_copy d m; w1 = dma_contend d at (dma_timing d at w); w2 = w1\<lparr>dma_txid := dma_txid w1 + 1\<rparr>
     in (dma_txid w2, (w2, m1)))"

definition world_dma_busy :: "u64 \<Rightarrow> sim_world \<Rightarrow> u32" where
  "world_dma_busy at w = (if at < dma_busy_until w then 1 else 0)"

section \<open>How long the scan takes\<close>

record suc_sim =
  ss_issued :: "int list"
  ss_landed :: "int list"
  ss_pend :: "int list"
  ss_agu :: int
  ss_consumed :: int
  ss_fabric :: fabric
  ss_cyc :: u64
  ss_out :: u64
  ss_k :: int
  ss_have_bc :: bool

definition step_bank :: "agu \<Rightarrow> int \<Rightarrow> nat \<Rightarrow> int" where
  "step_bank a s lane =
     (let toff = temporal_off (digits (r7_bounds a) s) (a_t_stride a);
          soff = int (lane mod 2) * a_s_stride a ! 0 + int (lane div 2) * a_s_stride a ! 1
      in uint (drop_bit 3 (agu_swz (ucast (a_base a + word_of_int toff + word_of_int soff)) (a_remap a)) AND 31))"

definition suc_wants :: "suc_sim \<Rightarrow> nat \<Rightarrow> bool" where
  "suc_wants s l \<longleftrightarrow> ss_issued s ! l < ss_agu s \<and> ss_issued s ! l - ss_consumed s < 2 * snax_streamer_depth 7"

definition suc_grant :: "bool list \<Rightarrow> nat \<Rightarrow> suc_sim \<times> nat \<Rightarrow> suc_sim \<times> nat" where
  "suc_grant g l = (\<lambda>(s, gi).
     if \<not> suc_wants s l then (s, gi)
     else (if g ! gi then s\<lparr>ss_issued := (ss_issued s)[l := ss_issued s ! l + 1], ss_pend := (ss_pend s)[l := 1]\<rparr> else s, gi + 1))"

definition suc_refill :: "suc_sim \<Rightarrow> suc_sim" where
  "suc_refill s =
     (let s1 = (if list_ex (\<lambda>l. ss_agu s - ss_issued s ! l \<ge> snax_streamer_depth 7) [0..<4] then s
        else s\<lparr>ss_agu := ss_agu s + 1\<rparr>)
      in if ss_k s1 = 0 \<and> \<not> ss_have_bc s1 \<and> min_list4 (ss_landed s1) - ss_consumed s1 \<ge> 4
         then s1\<lparr>ss_consumed := ss_consumed s1 + 4, ss_have_bc := True\<rparr> else s1)"

definition suc_output :: "suc_sim \<Rightarrow> suc_sim" where
  "suc_output s =
     (if ss_have_bc s
      then let s1 = s\<lparr>ss_out := ss_out s + 1, ss_k := ss_k s + 1\<rparr> in
        if ss_k s1 = 4 then s1\<lparr>ss_k := 0, ss_have_bc := False\<rparr> else s1
      else s)"

definition suc_cycle :: "agu \<Rightarrow> u32 \<Rightarrow> suc_sim \<Rightarrow> suc_sim" where
  "suc_cycle a dma_mask s =
     (let s1 = s\<lparr>ss_cyc := ss_cyc s + 1, ss_landed := map2 (+) (ss_landed s) (ss_pend s), ss_pend := [0, 0, 0, 0]\<rparr>;
          s2 = suc_refill s1;
          f = fold (\<lambda>l f. if suc_wants s2 l then post (step_bank a (ss_issued s2 ! l) l) (int (7 * 16 + l)) 0 f else f) [0..<4]
                (begin_cycle dma_mask (ss_fabric s2));
          (f1, g) = arbitrate f
      in suc_output (fst (fold (suc_grant g) [0..<4] (s2\<lparr>ss_fabric := f1\<rparr>, 0))))"

lemma suc_grants_cyc: "ss_cyc (fst (fold (suc_grant g) ls sg)) = ss_cyc (fst sg)"
  by (induction ls arbitrary: sg) (auto simp: suc_grant_def split: prod.splits)

lemma suc_cycle_cyc: "ss_cyc (suc_cycle a dma_mask s) = ss_cyc s + 1"
  by (simp add: suc_cycle_def suc_output_def suc_refill_def Let_def suc_grants_cyc split: prod.splits)

function suc_loop :: "agu \<Rightarrow> u32 \<Rightarrow> u64 \<Rightarrow> suc_sim \<Rightarrow> suc_sim" where
  "suc_loop a dma_mask its s =
     (if ss_out s < its \<and> ss_cyc s < 1000000000 then suc_loop a dma_mask its (suc_cycle a dma_mask s) else s)"
  by auto
termination
proof (relation "measure (\<lambda>(a, dma_mask, its, s). 1000000000 - unat (ss_cyc s))")
  show "((a, dma_mask, its, suc_cycle a dma_mask s), (a, dma_mask, its, s)) \<in> measure (\<lambda>(a, dma_mask, its, s). 1000000000 - unat (ss_cyc s))"
    if "ss_out s < its \<and> ss_cyc s < 1000000000" for a dma_mask its s
  proof -
    have c: "unat (ss_cyc s) < 1000000000" using that by (simp add: word_less_nat_alt)
    then have "unat (ss_cyc s + 1) = unat (ss_cyc s) + 1" by (simp add: unat_add_small)
    then show ?thesis using c by (simp add: suc_cycle_cyc)
  qed
qed simp

declare suc_loop.simps [simp del]

definition cyc_suc_duration :: "agu \<Rightarrow> u32 \<Rightarrow> u32 \<Rightarrow> u32 \<Rightarrow> u64" where
  "cyc_suc_duration a seqLen dInner_tile dma_mask =
     (let its = scast seqLen * scast dInner_tile in
      if its = 0 then 0
      else ss_cyc (suc_loop a dma_mask its \<lparr>ss_issued = [0, 0, 0, 0], ss_landed = [0, 0, 0, 0], ss_pend = [0, 0, 0, 0],
        ss_agu = 0, ss_consumed = 0, ss_fabric = fabric0, ss_cyc = 0, ss_out = 0, ss_k = 0, ss_have_bc = False\<rparr>))"

section \<open>The start of an invocation\<close>

definition tiles_seq :: "sim_world \<Rightarrow> u32" where
  "tiles_seq w = cfg_seqLen (world_cfg w) div 16"

definition tiles_inner :: "sim_world \<Rightarrow> u32" where
  "tiles_inner w = (if cfg_dInner (world_cfg w) \<ge> 24 then cfg_dInner (world_cfg w) div 24 else 0)"

text \<open>What a transfer in flight still takes at the start occupies its banks in the engine.\<close>

definition ground_tail :: "(int \<Rightarrow> int) \<Rightarrow> sim_world \<Rightarrow> sim_world" where
  "ground_tail f w =
     (if dma_busy_until w > accel_start w \<and> dma_busy_addr w \<noteq> 0
      then w\<lparr>eng := engine_enqueue (dma_busy_addr w) (word_of_int (f (sint (dma_busy_until w - accel_start w)) * 64)) True 0 (eng w)\<rparr>
      else w)"

definition quarter :: "int \<Rightarrow> int" where
  "quarter n = (n + 3) sdiv 4"

definition configure_engine :: "int \<Rightarrow> bool \<Rightarrow> sim_world \<Rightarrow> sim_world" where
  "configure_engine swc fires w =
     (let e = (configure (ports w) (world_cfg w) (uint (r10_start_cnt w)) (uint (r11_start_cnt w)) swc (eng w))
                \<lparr>rec_fires := fires, rec_fifo := trace_on w\<rparr>
      in w\<lparr>eng := e, engine_active := running e, engine_used := running e\<rparr>)"

definition await_engine :: "sim_world \<Rightarrow> sim_world" where
  "await_engine w = w\<lparr>accel_end := accel_start w + 1000000000, t_oscore_done := accel_start w, t_suc_start := accel_start w,
     t_suc_done := accel_start w\<rparr>"

definition begin_invocation :: "u64 \<Rightarrow> sim_world \<Rightarrow> sim_world" where
  "begin_invocation at w0 =
     (let w = decode_ports w0; c = world_cfg w; m = cfg_mode c;
          mi = tiles_seq w; osn = tiles_inner w
      in w\<lparr>inv_dma := (dma_clear (inv_dma w))\<lparr>beat_period_l3 := 1\<rparr>, dma_engine_on := True, inv_kind := 0, inv_finalized := False,
           engine_active := False, engine_used := False,
           osc_dur := (if mode_bit m 21 then ucast mi * ucast osn * ucast (cfg_dModel c) else 0),
           isc_dur := (if mode_bit m 19 then ucast mi * ucast (cfg_dFinal c) * ucast osn else 0),
           phase2 := mode_bit m 20,
           suc_dur := (if mode_bit m 20 then cyc_suc_duration (ports w ! 7) (cfg_seqLen c) (cfg_dInner c) 0 else 0),
           accel_start := at\<rparr>)"

definition invoke_simd :: "u64 \<Rightarrow> sim_world \<Rightarrow> sim_world" where
  "invoke_simd at w =
     (let w1 = configure_engine 0 False w in
      if engine_active w1 then ground_tail quarter (await_engine w1)
      else w1\<lparr>t_oscore_done := at, t_suc_done := at, accel_end := at\<rparr>)"

definition switch_core_cycles :: "sim_world \<Rightarrow> int" where
  "switch_core_cycles w =
     (let c = world_cfg w in
      if drop_bit 10 (cfg_mode c) AND 3 = 2 \<and> dtRankUnroll w \<noteq> 0 \<and> cfg_dtRank c \<noteq> 0
      then sint ((ucast (cfg_seqLen c) * ucast (cfg_dInner c) * ucast (cfg_dtRank c) :: u64) div ucast (4 * dtRankUnroll w)) else 0)"

definition invoke_p2 :: "u64 \<Rightarrow> sim_world \<Rightarrow> sim_world" where
  "invoke_p2 at w =
     (let w1 = configure_engine (switch_core_cycles w) True w in
      if engine_active w1 then ground_tail id (await_engine w1)
      else let oscore = at + osc_dur w1; suc = oscore + suc_dur w1
           in w1\<lparr>t_oscore_done := oscore, t_suc_start := oscore, t_suc_done := suc, accel_end := suc + isc_dur w1\<rparr>)"

definition invoke_one_core :: "(int \<Rightarrow> int) \<Rightarrow> u64 \<Rightarrow> u64 \<Rightarrow> sim_world \<Rightarrow> sim_world" where
  "invoke_one_core f dur at w =
     (let w1 = configure_engine 0 True w in
      if engine_active w1 then ground_tail f (await_engine w1)
      else w1\<lparr>t_oscore_done := at, t_suc_done := at, accel_end := at + dur\<rparr>)"

definition invoke_p1 :: "u64 \<Rightarrow> sim_world \<Rightarrow> sim_world" where
  "invoke_p1 at w =
     (let w1 = configure_engine 0 False w; w2 = (if engine_active w1 then ground_tail quarter w1 else w1);
          w3 = w2\<lparr>accel_end := (if engine_active w2 then accel_start w2 + 1000000000 else at + osc_dur w2 + isc_dur w2)\<rparr>
      in w3\<lparr>conv_present := (drop_bit 10 (cfg_mode (world_cfg w3)) AND 3 = 1), t_oscore_done := at + osc_dur w3,
           t_suc_done := at + osc_dur w3\<rparr>)"

definition end_invocation :: "sim_world \<Rightarrow> sim_world" where
  "end_invocation w =
     (let c = world_cfg w;
          w1 = (if engine_active w then w
            else w\<lparr>perf := (if mode_simd (cfg_mode c) then 0 else ucast (accel_end w - accel_start w))\<rparr>)
      in w1\<lparr>g_r10_total := tiles_seq w1 * tiles_inner w1, g_r11_total := cfg_seqLen c * cfg_dInner c,
           g_iscore_total := tiles_seq w1 * cfg_dFinal c * tiles_inner w1\<rparr>)"

definition run_invocation :: "u64 \<Rightarrow> sim_world \<Rightarrow> sim_world" where
  "run_invocation at w0 =
     (let w = begin_invocation at w0; m = cfg_mode (world_cfg w); os = mode_bit m 21; isc = mode_bit m 19 in
      end_invocation
        (if mode_simd m then invoke_simd at w
         else if mode_bit m 20 then invoke_p2 at w
         else if os \<and> \<not> isc then invoke_one_core id (osc_dur w) at w
         else if isc \<and> \<not> os then invoke_one_core quarter (isc_dur w) at w
         else invoke_p1 at w))"

section \<open>The register window\<close>

definition cfg_window :: "u32 \<Rightarrow> bool" where
  "cfg_window csr \<longleftrightarrow> SNAX_STREAMER_CFG_LO \<le> csr \<and> csr \<le> SNAX_STREAMER_CFG_HI"

definition world_snax_write :: "u32 \<Rightarrow> u32 \<Rightarrow> u64 \<Rightarrow> sim_world \<Rightarrow> sim_world" where
  "world_snax_write csr val at w =
     (let c = world_cfg w in
      if cfg_window csr then w\<lparr>raw := (raw w)[unat (csr - SNAX_STREAMER_CFG_LO) := val]\<rparr>
      else if csr = SNAX_DELAYED_START_R10
      then (if val \<noteq> 0 \<and> engine_active w then (let w1 = world_advance_to at w in w1\<lparr>eng := (eng w1)\<lparr>rel_r10 := True\<rparr>\<rparr>) else w)
      else if csr = SNAX_DELAYED_START_R11
      then (if val \<noteq> 0 \<and> engine_active w then (let w1 = world_advance_to at w in w1\<lparr>eng := (eng w1)\<lparr>rel_r11 := True\<rparr>\<rparr>) else w)
      else if csr = SNAX_MODE then w\<lparr>world_cfg := c\<lparr>cfg_mode := val\<rparr>\<rparr>
      else if csr = SNAX_SEQ_LEN then w\<lparr>world_cfg := c\<lparr>cfg_seqLen := val\<rparr>\<rparr>
      else if csr = SNAX_D_MODEL then w\<lparr>world_cfg := c\<lparr>cfg_dModel := val\<rparr>\<rparr>
      else if csr = SNAX_DT_RANK then w\<lparr>world_cfg := c\<lparr>cfg_dtRank := val\<rparr>\<rparr>
      else if csr = SNAX_D_INNER then w\<lparr>world_cfg := c\<lparr>cfg_dInner := val\<rparr>\<rparr>
      else if csr = SNAX_D_FINAL then w\<lparr>world_cfg := c\<lparr>cfg_dFinal := val\<rparr>\<rparr>
      else if csr = SNAX_SIMBACORE_START then (if val \<noteq> 0 then run_invocation at w else w)
      else w)"

definition write_serializes :: "u32 \<Rightarrow> u64 \<Rightarrow> sim_world \<Rightarrow> bool" where
  "write_serializes csr at w \<longleftrightarrow> \<not> (cfg_window csr \<and> at < accel_end w)"

definition gauge_at :: "u64 \<Rightarrow> u64 \<Rightarrow> u64 \<Rightarrow> u32 \<Rightarrow> u32" where
  "gauge_at now t0 t1 tot =
     (if now \<le> t0 \<or> tot = 0 then 0 else if now \<ge> t1 \<or> t1 \<le> t0 then tot
      else ucast ((now - t0) * ucast tot div (t1 - t0)))"

text \<open>The fires up to now; they are in ascending order.\<close>

definition gauge_stepped :: "u32 list \<Rightarrow> u64 \<Rightarrow> sim_world \<Rightarrow> u32" where
  "gauge_stepped fire now w =
     (if now \<le> accel_start w then 0
      else word_of_nat (length (takeWhile (\<lambda>c. c \<le> ucast (now - accel_start w)) fire)))"

definition world_busy :: "u64 \<Rightarrow> sim_world \<Rightarrow> u32" where
  "world_busy at w = (if engine_active w \<or> at < accel_end w then 1 else 0)"

definition read_gauge :: "u32 list \<Rightarrow> int \<Rightarrow> u64 \<Rightarrow> u64 \<Rightarrow> u64 \<Rightarrow> u32 \<Rightarrow> sim_world \<Rightarrow> u32" where
  "read_gauge fire live at t0 t1 tot w =
     (if engine_used w then word_of_int live else if fire \<noteq> [] then gauge_stepped fire at w else gauge_at at t0 t1 tot)"

definition world_snax_read :: "u32 \<Rightarrow> u64 \<Rightarrow> sim_world \<Rightarrow> (u32 \<times> bool) \<times> sim_world" where
  "world_snax_read csr at w0 =
     (let w = (if inv_kind w0 \<noteq> 0 \<and> \<not> inv_finalized w0 \<and> (csr = SNAX_SIMBACORE_BUSY \<or> csr = SNAX_STREAMER_BUSY)
               then w0\<lparr>inv_finalized := True\<rparr> else w0)
      in (if csr = SNAX_STREAMER_BUSY \<or> csr = SNAX_SIMBACORE_BUSY then (world_busy at w, True)
          else if csr = SNAX_STREAMER_PERF then (0, False)
          else if csr = SNAX_SIMBACORE_PERF then (perf w, False)
          else if csr = SNAX_R10_GAUGE
          then (read_gauge (g_r10_fire w) (g_r10 (eng w)) at (accel_start w) (t_oscore_done w) (g_r10_total w) w, True)
          else if csr = SNAX_R11_GAUGE
          then (read_gauge (g_r11_fire w) (g_r11 (eng w)) at (t_suc_start w) (t_suc_done w) (g_r11_total w) w, True)
          else if csr = SNAX_ISCORE_TILE_CNT
          then (read_gauge [] (g_iscore (eng w)) at (if phase2 w then t_suc_done w else accel_start w) (accel_end w)
                  (g_iscore_total w) w, True)
          else if cfg_window csr then (raw_at w (unat (csr - SNAX_STREAMER_CFG_LO)), False)
          else (0, False), w))"

end
