(* ===== verification/World_driver.thy ===== *)
theory World_driver
  imports World Simbacore
begin

text \<open>
  The driver of the accelerator on the simulator: what the library's \<open>set_streamer_csr\<close> writes, and
  what the simulated world decodes from its registers at the start of an invocation.
\<close>

section \<open>The register map of the simulator\<close>

definition sim_regs :: "nat \<Rightarrow> port_regs" where
  "sim_regs p =
     (let (c, n) = port_layout ! p; b = c + 2 + word_of_nat n
      in \<lparr>base_ptr_low = c, base_ptr_high = c + 1, s_stride_base = c + 2, s_stride_num = n, t_bound_base = b, t_bound_num = 4,
          t_stride_base = b + 4, t_stride_num = 4, addr_remap_index = Some (b + 8), enabled_channel = None\<rparr>)"

definition sim_index :: "port \<Rightarrow> nat" where
  "sim_index p = (case p of Reader r \<Rightarrow> r | Writer v \<Rightarrow> N_READERS + v | Reader_Writer _ \<Rightarrow> 0)"

definition sim_map :: streamer_map where
  "sim_map = \<lparr>regs_of = (\<lambda>p. sim_regs (sim_index p)), ext_csr_base = (\<lambda>_. None),
     DELAYED_START_READER = (\<lambda>r. if r = 10 then SNAX_DELAYED_START_R10 else SNAX_DELAYED_START_R11),
     STREAMER_START_CSR = 1180, STREAMER_BUSY_CSR = SNAX_STREAMER_BUSY, STREAMER_PERFORMANCE_COUNTER_CSR = SNAX_STREAMER_PERF\<rparr>"

lemma port_layout_eq: "port_layout =
  [(960, 1), (972, 1), (984, 1), (996, 1), (1008, 1), (1020, 1), (1032, 1), (1044, 2), (1057, 1), (1069, 1), (1081, 1),
   (1093, 1), (1105, 1), (1117, 1), (1129, 1), (1141, 1), (1153, 1), (1165, 2)]"
  by code_simp

definition layout_base :: "nat \<Rightarrow> nat" where
  "layout_base p = 960 + 12 * p + (if 7 < p then 1 else 0)"

lemma port_layout_nth:
  assumes "p < N_PORTS"
  shows "port_layout ! p = (word_of_nat (layout_base p), port_spatial p)" "layout_base p + 11 + port_spatial p \<le> 1178"
proof -
  have "list_all (\<lambda>p. port_layout ! p = (word_of_nat (layout_base p), port_spatial p)) [0..<18]"
    unfolding port_layout_eq by code_simp
  then show "port_layout ! p = (word_of_nat (layout_base p), port_spatial p)"
    using assms by (simp add: list_all_iff N_PORTS_def del: upt_rec_numeral)
  show "layout_base p + 11 + port_spatial p \<le> 1178" using assms by (simp add: layout_base_def port_spatial_def N_PORTS_def)
qed

lemma layout_base_ge: "960 \<le> layout_base p"
  by (simp add: layout_base_def)

section \<open>The registers as a file\<close>

definition raw_file :: "sim_world \<Rightarrow> u32 \<Rightarrow> u32" where
  "raw_file w c = raw w ! unat (c - SNAX_STREAMER_CFG_LO)"

lemma raw_file_nat: "960 \<le> n \<Longrightarrow> n < 1178 \<Longrightarrow> raw_file w (word_of_nat n) = raw_at w (n - 960)"
proof -
  assume n: "960 \<le> n" "n < 1178"
  have u: "unat (word_of_nat n :: u32) = n" using n by (simp add: unat_of_nat take_bit_nat_eq_self)
  have "unat (word_of_nat n - 960 :: u32) = unat (word_of_nat n :: u32) - unat (960 :: u32)"
    by (rule unat_sub) (use u n in \<open>simp add: word_le_nat_alt\<close>)
  then show ?thesis by (simp add: raw_file_def raw_at_def SNAX_STREAMER_CFG_LO_def u)
qed

lemma cfg_window_nat: "n < 2 ^ 32 \<Longrightarrow> cfg_window (word_of_nat n) \<longleftrightarrow> 960 \<le> n \<and> n \<le> 1177"
  by (simp add: cfg_window_def SNAX_STREAMER_CFG_LO_def SNAX_STREAMER_CFG_HI_def word_le_nat_alt unat_of_nat take_bit_nat_eq_self)

lemma write_raw:
  assumes "cfg_window c"
  shows "world_snax_write c v t w = w\<lparr>raw := (raw w)[unat (c - SNAX_STREAMER_CFG_LO) := v]\<rparr>"
  using assms by (simp add: world_snax_write_def Let_def)

lemma cfg_window_index: "cfg_window c \<Longrightarrow> unat (c - SNAX_STREAMER_CFG_LO) < 218 \<and> unat (c - SNAX_STREAMER_CFG_LO) + 960 = unat c"
  unfolding cfg_window_def SNAX_STREAMER_CFG_LO_def SNAX_STREAMER_CFG_HI_def
  by (auto simp: word_le_nat_alt unat_sub)

definition do_writes :: "u64 \<Rightarrow> (u32 \<times> u32) list \<Rightarrow> sim_world \<Rightarrow> sim_world" where
  "do_writes t ws w = fold (\<lambda>(c, v). world_snax_write c v t) ws w"

lemma writes_file:
  assumes "\<forall>c \<in> set (map fst ws). cfg_window c" "length (raw w) = 256" "\<forall>c. cfg_window c \<longrightarrow> csr_file s c = raw_file w c"
  shows "length (raw (do_writes t ws w)) = 256 \<and> (\<forall>c. cfg_window c \<longrightarrow> raw_file (do_writes t ws w) c = csr_file (write_csrs ws s) c)"
  using assms
proof (induction ws arbitrary: w s)
  case (Cons a ws)
  obtain c v where a: "a = (c, v)" by (metis prod.exhaust)
  have c: "cfg_window c" using Cons.prems(1) a by simp
  let ?w = "world_snax_write c v t w" and ?s = "write_csr c v s"
  have l: "length (raw ?w) = 256" using Cons.prems(2) by (simp add: write_raw [OF c])
  have "csr_file ?s b = raw_file ?w b" if b: "cfg_window b" for b
  proof -
    have "unat (b - SNAX_STREAMER_CFG_LO) = unat (c - SNAX_STREAMER_CFG_LO) \<longleftrightarrow> b = c"
      using cfg_window_index [OF b] cfg_window_index [OF c] by (metis unsigned_word_eqI)
    then show ?thesis
      using cfg_window_index [OF c] Cons.prems(2,3) b by (auto simp: write_raw [OF c] raw_file_def nth_list_update)
  qed
  then show ?case using Cons.IH [of ?w ?s] Cons.prems(1) l by (simp add: a do_writes_def)
qed (simp add: do_writes_def)

section \<open>What is decoded\<close>

lemma raw_reg:
  assumes "p < N_PORTS" "k < 11 + port_spatial p"
  shows "raw_at w (layout_base p - 960 + k) = raw_file w (word_of_nat (layout_base p) + word_of_nat k)"
  using raw_file_nat [of "layout_base p + k" w] port_layout_nth(2) [OF assms(1)] assms(2) layout_base_ge [of p] by simp

lemma layout_unat: "p < N_PORTS \<Longrightarrow> k < 2000 \<Longrightarrow> unat (word_of_nat (layout_base p + k) :: u32) = layout_base p + k"
proof -
  assume "p < N_PORTS" "k < 2000"
  then have "layout_base p + k < 2 ^ 32" by (simp add: layout_base_def N_PORTS_def)
  then show ?thesis by (simp only: unat_of_nat take_bit_nat_eq_self len_num1 len_bit0 len_num0) simp
qed

lemma layout_index: "p < N_PORTS \<Longrightarrow> unat (word_of_nat (layout_base p) - SNAX_STREAMER_CFG_LO) = layout_base p - 960"
proof -
  assume p: "p < N_PORTS"
  have u: "unat (word_of_nat (layout_base p) :: u32) = layout_base p" using layout_unat [OF p, of 0] by simp
  have "unat (word_of_nat (layout_base p) - 960 :: u32) = unat (word_of_nat (layout_base p) :: u32) - unat (960 :: u32)"
    by (rule unat_sub) (use u layout_base_ge in \<open>simp add: word_le_nat_alt\<close>)
  then show ?thesis by (simp add: SNAX_STREAMER_CFG_LO_def u)
qed

lemma decode_port_hw:
  fixes w :: sim_world and a0 :: agu
  assumes "p < N_PORTS"
  defines "a \<equiv> decode_port w p a0"
  shows "hw_cfg (a\<lparr>a_s_stride := take (port_spatial p) (a_s_stride a)\<rparr>) = port_cfg (sim_regs p) (raw_file w)"
    "a_enabled a \<longleftrightarrow> raw_file w (t_bound_base (sim_regs p)) \<noteq> 0"
proof -
  let ?b = "layout_base p - 960" and ?c = "word_of_nat (layout_base p) :: u32"
  have n: "0 < port_spatial p" "port_spatial p \<le> 2" by (simp_all add: port_spatial_def)
  note l = port_layout_nth(1) [OF assms(1)]
  have r: "raw_at w (?b + k) = raw_file w (?c + word_of_nat k)" if "k < 11 + port_spatial p" for k
    by (rule raw_reg [OF assms(1) that])
  have a: "a_base a = push_bit 32 (ucast (raw_at w (?b + 1))) OR ucast (raw_at w ?b)"
    "take (port_spatial p) (a_s_stride a) = map (\<lambda>k. sint (raw_at w (?b + (2 + k)))) [0..<port_spatial p]"
    "a_t_bound a = map (\<lambda>k. sint (raw_at w (?b + (2 + port_spatial p + k)))) [0..<4]"
    "a_t_stride a = map (\<lambda>k. sint (raw_at w (?b + (2 + port_spatial p + 4 + k)))) [0..<4]"
    "a_enabled a \<longleftrightarrow> sint (raw_at w (?b + (2 + port_spatial p))) \<noteq> 0"
    by (simp_all add: a_def decode_port_def layout_index [OF assms(1)] l Let_def add.assoc del: upt_rec_numeral)
      (simp_all add: upt_rec ac_simps)
  have base: "ucast (a_base a) = raw_file w ?c"
  proof -
    have "ucast (push_bit 32 (ucast h :: u64) OR ucast (v :: u32)) = v" for h v :: u32
      by (rule bit_word_eqI) (auto simp: bit_simps)
    then show ?thesis using r [of 0] by (simp add: a(1))
  qed
  have blocks: "map (\<lambda>k. word_of_int (sint (raw_at w (?b + (m + k))))) [0..<j] = block_values (raw_file w) (?c + word_of_nat m) j"
    if "m + j \<le> 11 + port_spatial p" for m j
    unfolding block_values_def block_addrs_def map_map o_def
    by (intro map_cong refl) (use that r in \<open>simp add: add.assoc\<close>)
  show "hw_cfg (a\<lparr>a_s_stride := take (port_spatial p) (a_s_stride a)\<rparr>) = port_cfg (sim_regs p) (raw_file w)"
    using blocks [of 2 "port_spatial p"] blocks [of "2 + port_spatial p" 4] blocks [of "2 + port_spatial p + 4" 4]
    by (simp add: hw_cfg_def port_cfg_def sim_regs_def l Let_def base a(2-4) o_def add.assoc del: upt_rec_numeral)
  show "a_enabled a \<longleftrightarrow> raw_file w (t_bound_base (sim_regs p)) \<noteq> 0"
    unfolding a(5) using r [of "2 + port_spatial p"] by (simp add: sim_regs_def l Let_def add.assoc signed_eq_0_iff)
qed

lemma sim_static_asserts: "static_asserts sim_map"
proof -
  have "s_stride_num (sim_regs (sim_index p)) = spatial_num p" if "p \<in> set simba_ports" for p
  proof -
    have "sim_index p < N_PORTS" using that by (auto simp: sim_index_def N_READERS_def N_PORTS_def)
    then show ?thesis
      using that port_layout_nth(1) [of "sim_index p"]
      by (auto simp: sim_regs_def Let_def sim_index_def spatial_num_def port_spatial_def N_READERS_def)
  qed
  then show ?thesis by (simp add: static_asserts_def sim_map_def list_all_iff sim_regs_def Let_def split: prod.splits del: simba_ports_simps)
qed

lemma sim_stream_addrs:
  assumes "p < N_PORTS"
  shows "stream_addrs (sim_regs p) = map (\<lambda>k. word_of_nat (layout_base p + k)) (0 # [2..<10 + port_spatial p])"
proof -
  have b: "block_addrs (word_of_nat (m + k)) j = map (\<lambda>k. word_of_nat (m + k)) [k..<k + j]" for m k j
    unfolding block_addrs_def by (rule nth_equalityI) (simp_all add: add.assoc)
  have "[2..<10 + port_spatial p] = [2..<2 + port_spatial p] @ [2 + port_spatial p..<6 + port_spatial p] @ [6 + port_spatial p..<10 + port_spatial p]"
    using upt_add_eq_append [of 2 "2 + port_spatial p" 4] upt_add_eq_append [of 2 "6 + port_spatial p" 4] by simp
  then show ?thesis
    using b [of "layout_base p" 2 "port_spatial p"] b [of "layout_base p" "2 + port_spatial p" 4] b [of "layout_base p" "6 + port_spatial p" 4]
    by (simp add: stream_addrs_def sim_regs_def port_layout_nth(1) [OF assms] Let_def add.assoc ac_simps del: upt_rec_numeral)
qed

lemma sim_index_less: "p \<in> set simba_ports \<Longrightarrow> sim_index p < N_PORTS"
  by (auto simp: sim_index_def N_READERS_def N_PORTS_def)

lemma in_block: "x \<in> set (map f (0 # [2..<n])) \<Longrightarrow> 0 < n \<Longrightarrow> \<exists>k < n. x = f k"
  by auto

lemma sim_addr:
  assumes "p \<in> set simba_ports" "c \<in> set (stream_addrs (regs_of sim_map p))"
  shows "\<exists>k < 10 + port_spatial (sim_index p). unat c = layout_base (sim_index p) + k"
proof -
  have s: "port_spatial (sim_index p) \<le> 2" by (simp add: port_spatial_def)
  have "c \<in> set (map (\<lambda>k. word_of_nat (layout_base (sim_index p) + k)) (0 # [2..<10 + port_spatial (sim_index p)]))"
    using assms by (simp only: sim_stream_addrs [OF sim_index_less [OF assms(1)], symmetric]) (simp add: sim_map_def)
  from in_block [OF this] obtain k where "k < 10 + port_spatial (sim_index p)" "c = word_of_nat (layout_base (sim_index p) + k)"
    by auto
  then show ?thesis using layout_unat [OF sim_index_less [OF assms(1)], of k] s by auto
qed

lemma sim_distinct: "distinct (ports_addrs sim_map simba_ports)"
  unfolding ports_addrs_def
proof (rule distinct_concat_map)
  show "distinct (stream_addrs (regs_of sim_map p))" if "p \<in> set simba_ports" for p
  proof -
    let ?p = "sim_index p"
    have "inj_on (\<lambda>k. word_of_nat (layout_base ?p + k) :: u32) {k. k < 2000}"
      using layout_unat [OF sim_index_less [OF that]] by (intro inj_onI) (metis add_left_cancel mem_Collect_eq)
    then have "inj_on (\<lambda>k. word_of_nat (layout_base ?p + k) :: u32) (set (0 # [2..<10 + port_spatial ?p]))"
      by (rule inj_on_subset) (auto simp: port_spatial_def)
    then have "distinct (map (\<lambda>k. word_of_nat (layout_base ?p + k) :: u32) (0 # [2..<10 + port_spatial ?p]))"
      by (subst distinct_map) simp
    then show ?thesis by (simp only: sim_stream_addrs [OF sim_index_less [OF that], symmetric]) (simp add: sim_map_def)
  qed
  show "set (stream_addrs (regs_of sim_map p)) \<inter> set (stream_addrs (regs_of sim_map q)) = {}"
    if "p \<in> set simba_ports" "q \<in> set simba_ports" "p \<noteq> q" for p q
  proof -
    have i: "sim_index p \<noteq> sim_index q" using that by (auto simp: sim_index_def N_READERS_def)
    have l: "a \<noteq> b \<Longrightarrow> layout_base a + j \<noteq> layout_base b + k"
      if "j < 10 + port_spatial a" "k < 10 + port_spatial b" for a b j k
      using that by (auto simp: layout_base_def port_spatial_def split: if_splits)
    show ?thesis using sim_addr that l i by (metis disjoint_iff)
  qed
qed (simp add: distinct_simba_ports)


lemma port_cfg_window:
  assumes "p < N_PORTS" "\<forall>c. cfg_window c \<longrightarrow> f c = g c"
  shows "port_cfg (sim_regs p) f = port_cfg (sim_regs p) g"
proof (rule port_cfg_cong)
  fix c
  assume "c \<in> set (stream_addrs (sim_regs p))"
  from in_block [OF this [unfolded sim_stream_addrs [OF assms(1)]]]
  obtain k where k: "k < 10 + port_spatial p" "c = word_of_nat (layout_base p + k)" by auto
  have "layout_base p + k < 2 ^ 32" "960 \<le> layout_base p + k \<and> layout_base p + k \<le> 1177"
    using port_layout_nth(2) [OF assms(1)] k(1) layout_base_ge [of p] by simp_all
  then have "cfg_window c" unfolding k(2) cfg_window_nat [OF \<open>layout_base p + k < 2 ^ 32\<close>] by blast
  then show "f c = g c" using assms(2) by blast
qed

lemma sim_writes_window: "\<forall>c \<in> set (map fst (set_streamer_csr sim_map en args)). cfg_window c"
proof
  fix c
  assume "c \<in> set (map fst (set_streamer_csr sim_map en args))"
  then obtain p where p: "p \<in> set simba_ports" "c \<in> set (map fst (set_or_disable sim_map en args p))"
    unfolding set_streamer_csr_concat by (auto simp: map_concat simp del: simba_ports_simps)
  then have "c \<in> set (stream_addrs (regs_of sim_map p))"
    using set_or_disable_addrs [OF sim_static_asserts sim_distinct p(1)] by blast
  from sim_addr [OF p(1) this] obtain k where k: "k < 10 + port_spatial (sim_index p)" "unat c = layout_base (sim_index p) + k" by blast
  then have "960 \<le> unat c" "unat c \<le> 1177"
    using port_layout_nth(2) [OF sim_index_less [OF p(1)]] layout_base_ge [of "sim_index p"] by auto
  then show "cfg_window c" using cfg_window_nat [of "unat c"] by simp
qed

text \<open>
  C20: the simulator understands the driver: when \<open>set_streamer_csr\<close> writes its registers into the simulated
  window, whatever the registers held, the world decodes for every enabled port the pointer, the strides and the bounds that the
  caller gave, in the form in which the hardware reads them, and it sees a port as enabled exactly when the driver enabled it
  and the innermost bound is not zero.
\<close>

theorem sim_decodes_driver:
  assumes "p \<in> set simba_ports" and "length (raw w) = 256"
    and "a = ports (decode_ports (do_writes t (set_streamer_csr sim_map en args) w)) ! sim_index p"
  shows "(en p \<longrightarrow> hw_cfg (a\<lparr>a_s_stride := take (spatial_num p) (a_s_stride a)\<rparr>) = args_cfg (regs_of sim_map p) (args p)) \<and>
    (a_enabled a \<longleftrightarrow> en p \<and> arg_tb (args p) 0 \<noteq> 0)"
proof -
  let ?ws = "set_streamer_csr sim_map en args" and ?p = "sim_index p"
  let ?w = "do_writes t ?ws w" and ?s = "csr_reset\<lparr>csr_file := raw_file w\<rparr>"
  have p: "?p < N_PORTS" by (rule sim_index_less [OF assms(1)])
  have f: "\<forall>c. cfg_window c \<longrightarrow> raw_file ?w c = csr_file (write_csrs ?ws ?s) c"
    using writes_file [OF sim_writes_window assms(2), of ?s] by simp
  note eq = port_cfg_window [OF p f]
  have a: "a = decode_port ?w ?p (ports ?w ! ?p)" using p assms(3) by (simp add: decode_ports_def del: upt_rec_numeral)
  note d = decode_port_hw [OF p, of ?w "ports ?w ! ?p", folded a]
  have r: "regs_of sim_map p = sim_regs ?p" by (simp add: sim_map_def)
  have sp: "port_spatial ?p = spatial_num p" using assms(1) by (auto simp: port_spatial_def spatial_num_def sim_index_def N_READERS_def)
  have b: "agu_bounds (port_cfg (sim_regs ?p) g) ! 0 = g (t_bound_base (sim_regs ?p))" for g
    by (simp add: port_cfg_def block_values_def block_addrs_def sim_regs_def split: prod.splits)
  have t: "raw_file ?w (t_bound_base (sim_regs ?p)) = csr_file (write_csrs ?ws ?s) (t_bound_base (sim_regs ?p))"
    using arg_cong [where f = "\<lambda>c. agu_bounds c ! 0", OF eq] by (simp add: b)
  show ?thesis
  proof (cases "en p")
    case True
    have e: "port_cfg (sim_regs ?p) (csr_file (write_csrs ?ws ?s)) = args_cfg (regs_of sim_map p) (args p)"
      using set_streamer_enabled [where p = p and en = en and a = args and s = ?s, OF sim_static_asserts sim_distinct assms(1) True] by (simp add: r)
    have "csr_file (write_csrs ?ws ?s) (t_bound_base (sim_regs ?p)) = arg_tb (args p) 0"
      using arg_cong [where f = "\<lambda>c. agu_bounds c ! 0", OF e]
      by (simp add: b args_cfg_def r) (simp add: sim_regs_def split: prod.splits)
    then show ?thesis using d e True t eq by (simp add: sp)
  next
    case False
    have "t_bound_base (sim_regs ?p) \<in> set (stream_addrs (sim_regs ?p))"
      by (rule t_bound_base_mem) (simp add: sim_regs_def split: prod.splits)
    then have "csr_file (write_csrs ?ws ?s) (t_bound_base (sim_regs ?p)) = 0"
      using set_streamer_disabled [where p = p and en = en and a = args and s = ?s, OF sim_static_asserts sim_distinct assms(1) False, of "t_bound_base (sim_regs ?p)"]
      by (simp add: r)
    then show ?thesis using d(2) t False by simp
  qed
qed

lemma sim_decodes_driver_witness:
  "hw_cfg ((ports (decode_ports (do_writes 5 (set_streamer_csr sim_map (\<lambda>p. p = Reader 7) (\<lambda>_. example_args 64)) sim_world0)) ! 7)
     \<lparr>a_s_stride := take 2 (a_s_stride (ports (decode_ports (do_writes 5 (set_streamer_csr sim_map (\<lambda>p. p = Reader 7)
        (\<lambda>_. example_args 64)) sim_world0)) ! 7))\<rparr>) =
   \<lparr>agu_ptr = 4096, agu_spatial = [8, 8], agu_bounds = [3, 3, 3, 3], agu_strides = [64, 64, 64, 64]\<rparr>"
proof -
  have "Reader 7 \<in> set simba_ports" "length (raw sim_world0) = 256" by (simp_all add: sim_world0_def Let_def)
  from sim_decodes_driver [OF this refl, of "\<lambda>p. p = Reader 7" 5 "\<lambda>_. example_args 64"] show ?thesis
    by (simp add: sim_index_def spatial_num_def args_cfg_def sim_map_def sim_regs_def port_layout_eq example_args_def upt_rec)
qed

end
