(* ===== verification/Layout_check.thy ===== *)
theory Layout_check
  imports World
begin

text \<open>
  The audit of the address generators (world.cpp, \<open>verify_layout\<close>): before an invocation every enabled port's extent must
  lie in the TCDM, a reader that overlaps a writer must stay within it, and a writer must not write a word twice. The output
  and the self-test of the audit are left out.
\<close>

section \<open>The checks\<close>

definition TCDM_LO :: u32 where "TCDM_LO = 0x10000000"
definition TCDM_HI :: u32 where "TCDM_HI = 0x10080000"

definition extent_add :: "int \<Rightarrow> int \<times> int \<Rightarrow> int \<times> int" where
  "extent_add s = (\<lambda>(mn, mx). if s \<ge> 0 then (mn, mx + s) else (mn + s, mx))"

definition extent_terms :: "nat \<Rightarrow> agu \<Rightarrow> int list" where
  "extent_terms p a = map (\<lambda>d. (or_one (a_t_bound a ! d) - 1) * a_t_stride a ! d) [0..<4] @
     (if a_n_s a = 2 then [a_s_stride a ! 0, a_s_stride a ! 1] else [(PORT_NCH ! p - 1) * a_s_stride a ! 0])"

definition extent_offsets :: "nat \<Rightarrow> agu \<Rightarrow> int \<times> int" where
  "extent_offsets p a = fold extent_add (extent_terms p a) (0, 0)"

definition extent :: "agu list \<Rightarrow> nat \<Rightarrow> u32 \<times> u32" where
  "extent ps p =
     (if a_enabled (ps ! p)
      then let (mn, mx) = extent_offsets p (ps ! p)
           in (word_of_int (uint (a_base (ps ! p)) + mn), word_of_int (uint (a_base (ps ! p)) + mx))
      else (0, 0))"

datatype layout_error = Out_of_bounds nat | Beyond_producer nat nat | Aliases nat

definition bounds_errors :: "agu list \<Rightarrow> layout_error list" where
  "bounds_errors ps = concat (map (\<lambda>p. let (lo, hi) = extent ps p in
     if a_enabled (ps ! p) \<and> (lo < TCDM_LO \<or> hi \<ge> TCDM_HI) then [Out_of_bounds p] else []) [0..<N_PORTS])"

definition beyond :: "agu list \<Rightarrow> nat \<Rightarrow> nat \<Rightarrow> bool" where
  "beyond ps r v =
     (let (rlo, rhi) = extent ps r; (wlo, whi) = extent ps v
      in a_enabled (ps ! r) \<and> a_enabled (ps ! v) \<and> rlo < whi \<and> wlo < rhi \<and> (rlo < wlo \<or> rhi > whi))"

definition containment_errors :: "agu list \<Rightarrow> layout_error list" where
  "containment_errors ps = concat (map (\<lambda>r. concat (map (\<lambda>v. if beyond ps r v then [Beyond_producer r v] else [])
     [N_READERS..<N_PORTS])) [0..<N_READERS])"

text \<open>The words of a writer, dimensions of stride 0 collapsed; the order is that of the loops.\<close>

definition alias_bound :: "agu \<Rightarrow> nat \<Rightarrow> int" where
  "alias_bound a d = (if a_t_stride a ! d = 0 then 1 else or_one (a_t_bound a ! d))"

definition alias_lanes :: "agu \<Rightarrow> int \<Rightarrow> int" where
  "alias_lanes a nch = (if a_s_stride a ! 0 = 0 then 1 else or_one nch)"

definition alias_words :: "agu \<Rightarrow> int \<Rightarrow> u32 list" where
  "alias_words a nch =
     (let upto = (\<lambda>n. map int [0..<nat n]) in
      concat (map (\<lambda>i0. concat (map (\<lambda>i1. concat (map (\<lambda>i2. concat (map (\<lambda>i3. map (\<lambda>s.
        word_of_int (uint (a_base a) + i0 * a_t_stride a ! 0 + i1 * a_t_stride a ! 1 + i2 * a_t_stride a ! 2 +
          i3 * a_t_stride a ! 3 + s * a_s_stride a ! 0)) (upto (alias_lanes a nch)))
        (upto (alias_bound a 3)))) (upto (alias_bound a 2)))) (upto (alias_bound a 1)))) (upto (alias_bound a 0))))"

definition alias_scan :: "agu \<Rightarrow> int \<Rightarrow> bool" where
  "alias_scan a nch \<longleftrightarrow>
     alias_bound a 0 * alias_bound a 1 * alias_bound a 2 * alias_bound a 3 * alias_lanes a nch \<le> 4000000 \<and> \<not> distinct (alias_words a nch)"

definition alias_errors :: "agu list \<Rightarrow> layout_error list" where
  "alias_errors ps = concat (map (\<lambda>v. if a_enabled (ps ! v) \<and> a_n_s (ps ! v) \<le> 1 \<and> alias_scan (ps ! v) (PORT_NCH ! v)
     then [Aliases v] else []) [N_READERS..<N_PORTS])"

definition verify_layout :: "sim_world \<Rightarrow> sim_world" where
  "verify_layout w =
     (let errs = bounds_errors (ports w) @ containment_errors (ports w) @ alias_errors (ports w)
      in w\<lparr>layout_invs := layout_invs w + 1, n_layout_errs := n_layout_errs w + word_of_nat (length errs),
           layout_pass := (layout_pass w \<and> errs = [])\<rparr>)"

definition layout_ok :: "sim_world \<Rightarrow> bool" where
  "layout_ok w \<longleftrightarrow> \<not> verify_ran w \<or> layout_pass w"

section \<open>What a clean audit means\<close>

lemma extent_add_eq: "extent_add s (mn, mx) = (mn + min 0 s, mx + max 0 s)"
  by (simp add: extent_add_def)

lemma fold_extent: "fold extent_add ts (mn, mx) = (mn + (\<Sum>s\<leftarrow>ts. min 0 s), mx + (\<Sum>s\<leftarrow>ts. max 0 s))"
  by (induction ts arbitrary: mn mx) (simp_all add: extent_add_eq)

lemma term_range:
  fixes x n s :: int
  assumes "0 \<le> x" "x \<le> n"
  shows "min 0 (n * s) \<le> x * s" "x * s \<le> max 0 (n * s)"
proof -
  have "x * s \<le> n * s \<and> 0 \<le> x * s" if "0 \<le> s" using assms that by (simp add: mult_right_mono)
  moreover have "n * s \<le> x * s \<and> x * s \<le> 0" if "s \<le> 0"
    using assms that by (simp add: mult_right_mono_neg mult_nonneg_nonpos)
  ultimately have "min 0 (n * s) \<le> x * s \<and> x * s \<le> max 0 (n * s)" 
    by (cases "0 \<le> s") (auto simp: min_le_iff_disj le_max_iff_disj)
  then show "min 0 (n * s) \<le> x * s" "x * s \<le> max 0 (n * s)" by blast+
qed

lemma temporal_range:
  assumes "agu_ok a" "0 \<le> g"
  shows "(\<Sum>s\<leftarrow>map (\<lambda>d. (or_one (a_t_bound a ! d) - 1) * a_t_stride a ! d) [0..<4]. min 0 s) \<le>
      temporal_off (digits (r_bounds a) g) (a_t_stride a)"
    "temporal_off (digits (r_bounds a) g) (a_t_stride a) \<le>
      (\<Sum>s\<leftarrow>map (\<lambda>d. (or_one (a_t_bound a ! d) - 1) * a_t_stride a ! d) [0..<4]. max 0 s)"
proof -
  obtain b0 b1 b2 b3 where b: "a_t_bound a = [b0, b1, b2, b3]" using assms(1) list4 unfolding agu_ok_def by blast
  have pos: "0 < b0" "0 < b1" "0 < b2" "0 < b3" using assms(1) by (simp_all add: agu_ok_def b)
  let ?c0 = "if a_t_stride a ! 0 = 0 then 1 else b0"
  have r: "r_bounds a = [?c0, b1, b2, b3]" by (simp add: r_bounds_def b)
  have "length (r_bounds a) = 4" "\<forall>c \<in> set (r_bounds a). 0 < c" using pos by (auto simp: r)
  then have d: "digits (r_bounds a) g = [g mod ?c0, g div ?c0 mod b1, g div ?c0 div b1 mod b2, g div ?c0 div b1 div b2 mod b3]"
    using digits_nonneg [OF _ _ assms(2)] by (simp add: r)
  have m: "0 \<le> x mod c" "x mod c \<le> c - 1" if "0 < c" for x c :: int
    using that pos_mod_sign [OF that, of x] pos_mod_bound [OF that, of x] by linarith+
  have "0 \<le> g mod ?c0" "g mod ?c0 \<le> b0 - 1" using m [of b0 g] pos by auto
  then obtain x0 x1 x2 x3 where x: "digits (r_bounds a) g = [x0, x1, x2, x3]" "0 \<le> x0" "x0 \<le> b0 - 1" "0 \<le> x1" "x1 \<le> b1 - 1"
    "0 \<le> x2" "x2 \<le> b2 - 1" "0 \<le> x3" "x3 \<le> b3 - 1" using d m pos by metis
  note t = term_range [OF x(2,3), of "a_t_stride a ! 0"] term_range [OF x(4,5), of "a_t_stride a ! 1"]
    term_range [OF x(6,7), of "a_t_stride a ! 2"] term_range [OF x(8,9), of "a_t_stride a ! 3"]
  have s: "(\<Sum>s\<leftarrow>map (\<lambda>d. (or_one (a_t_bound a ! d) - 1) * a_t_stride a ! d) [0..<4]. f s) =
      f ((b0 - 1) * a_t_stride a ! 0) + f ((b1 - 1) * a_t_stride a ! 1) + f ((b2 - 1) * a_t_stride a ! 2) + f ((b3 - 1) * a_t_stride a ! 3)"
    for f :: "int \<Rightarrow> int" using pos by (simp add: b or_one_def upt_rec numeral_2_eq_2 numeral_3_eq_3)
  show "(\<Sum>s\<leftarrow>map (\<lambda>d. (or_one (a_t_bound a ! d) - 1) * a_t_stride a ! d) [0..<4]. min 0 s) \<le>
      temporal_off (digits (r_bounds a) g) (a_t_stride a)"
    unfolding s temporal_off_def x(1) using t by (simp add: numeral_2_eq_2 numeral_3_eq_3)
  show "temporal_off (digits (r_bounds a) g) (a_t_stride a) \<le>
      (\<Sum>s\<leftarrow>map (\<lambda>d. (or_one (a_t_bound a ! d) - 1) * a_t_stride a ! d) [0..<4]. max 0 s)"
    unfolding s temporal_off_def x(1) using t by (simp add: numeral_2_eq_2 numeral_3_eq_3)
qed

lemma spatial_range:
  assumes "p < N_PORTS" "a_n_s a = port_spatial p" "int l < PORT_NCH ! p"
  defines "ts \<equiv> (if a_n_s a = 2 then [a_s_stride a ! 0, a_s_stride a ! 1] else [(PORT_NCH ! p - 1) * a_s_stride a ! 0])"
    and "off \<equiv> spatial_off (a_n_s a) (a_s_stride a) (if a_n_s a = 2 then [2, 2] else [PORT_NCH ! p, 1]) l"
  shows "(\<Sum>s\<leftarrow>ts. min 0 s) \<le> off" "off \<le> (\<Sum>s\<leftarrow>ts. max 0 s)"
proof -
  have "(\<Sum>s\<leftarrow>ts. min 0 s) \<le> off \<and> off \<le> (\<Sum>s\<leftarrow>ts. max 0 s)"
  proof (cases "a_n_s a = 2")
    case True
    then have "p = 7 \<or> p = 17" using assms(2) by (auto simp: port_spatial_def split: if_splits)
    then have l: "int l < 4" using assms(3) by (auto simp: PORT_NCH_def)
    have s: "int l smod 2 = int l mod 2" "int l sdiv 2 = int l div 2" by (simp_all add: sdivmod_nonneg)
    have "0 \<le> int l mod 2" "int l mod 2 \<le> 1" "0 \<le> int l div 2" "int l div 2 \<le> 1" using l by simp_all
    then show ?thesis
      using term_range [of "int l mod 2" 1 "a_s_stride a ! 0"] term_range [of "int l div 2" 1 "a_s_stride a ! 1"]
      by (simp add: True ts_def off_def spatial_off_def s add_mono)
  next
    case False
    then show ?thesis
      using term_range [of "int l" "PORT_NCH ! p - 1" "a_s_stride a ! 0"] assms(3) by (simp add: ts_def off_def spatial_off_def)
  qed
  then show "(\<Sum>s\<leftarrow>ts. min 0 s) \<le> off" "off \<le> (\<Sum>s\<leftarrow>ts. max 0 s)" by blast+
qed

lemma no_bounds_error:
  assumes "bounds_errors ps = []" "p < N_PORTS" "a_enabled (ps ! p)" "extent ps p = (lo, hi)"
  shows "TCDM_LO \<le> lo" "hi < TCDM_HI"
proof -
  have "\<forall>p \<in> set [0..<N_PORTS]. (let (lo, hi) = extent ps p in
      if a_enabled (ps ! p) \<and> (lo < TCDM_LO \<or> hi \<ge> TCDM_HI) then [Out_of_bounds p] else []) = []"
    using assms(1) unfolding bounds_errors_def concat_eq_Nil_conv set_map by blast
  moreover have "p \<in> set [0..<N_PORTS]" using assms(2) by simp
  ultimately have "(let (lo, hi) = extent ps p in
      if a_enabled (ps ! p) \<and> (lo < TCDM_LO \<or> hi \<ge> TCDM_HI) then [Out_of_bounds p] else []) = []" by blast
  then show "TCDM_LO \<le> lo" "hi < TCDM_HI" using assms(3,4) by (auto split: if_splits)
qed

lemma uint_u32: "0 \<le> k \<Longrightarrow> k < 2 ^ 32 \<Longrightarrow> uint (word_of_int k :: u32) = k"
  unfolding uint_word_of_int by simp


definition audit_example :: sim_world where
  "audit_example = sim_world0\<lparr>ports := (replicate 18 (agu_example\<lparr>a_enabled := False\<rparr>))[7 := agu_example]\<rparr>"

lemma audit_example_clean: "layout_pass (verify_layout audit_example)"
proof -
  let ?ps = "(replicate 18 (agu_example\<lparr>a_enabled := False\<rparr>))[7 := agu_example]"
  have "bounds_errors ?ps @ containment_errors ?ps @ alias_errors ?ps = []" by code_simp
  then show ?thesis by (simp add: verify_layout_def audit_example_def sim_world0_def Let_def)
qed


text \<open>A limit of the check: an extent around the end of the address space is accepted.\<close>

lemma audit_misses_wrap:
  "bounds_errors ((replicate 18 (agu_example\<lparr>a_enabled := False\<rparr>))
     [0 := agu_example\<lparr>a_base := 0x20000000, a_n_s := 1, a_t_bound := [8, 1, 1, 1], a_t_stride := [0x20000000, 0, 0, 0]\<rparr>]) = []"
  by code_simp

end
