(* ===== verification/Bist.thy ===== *)
theory Bist
  imports Cyc
begin

text \<open>
  The self-tests of the cycle model (cyc.cpp): the built-in test of the delivery of the scan's operands
  (\<open>cyc_suc_bist\<close>), a clean pass and a pass with an injected fault, and the bank-conflict probe of one reader
  (\<open>cyc_reader_test\<close>).
\<close>

section \<open>One pass\<close>

record bist_sim =
  b_reader :: cyc_reader
  b_fabric :: fabric
  b_iter :: int
  b_expect :: int
  b_k :: int
  b_have_bc :: bool
  b_fault_done :: bool
  b_cyc :: u64
  poison_count :: int
  poison_idx :: "int list"

text \<open>One pop of a refresh: a pop of the empty ring is a poison read; the first eight are remembered.\<close>

definition bist_pop :: "nat \<Rightarrow> bist_sim \<Rightarrow> bist_sim" where
  "bist_pop p s =
     (case pop_idx (b_reader s) of
        (None, r) \<Rightarrow> s\<lparr>poison_count := poison_count s + 1,
          poison_idx := (if length (poison_idx s) < 8 then poison_idx s @ [signed_take_bit 31 (b_expect s + int p)] else poison_idx s)\<rparr>
      | (Some i, r) \<Rightarrow> s\<lparr>b_reader := snd (r_pop r)\<rparr>)"

definition bist_consume :: "bist_sim \<Rightarrow> bist_sim" where
  "bist_consume s = (let s1 = fold bist_pop [0..<4] s in s1\<lparr>b_expect := b_expect s1 + 4, b_have_bc := True\<rparr>)"

definition bist_fault :: "bool \<Rightarrow> bist_sim \<Rightarrow> bist_sim" where
  "bist_fault inject s =
     (if inject \<and> \<not> b_fault_done s \<and> b_k s = 0 \<and> \<not> b_have_bc s \<and> ir_cnt (b_reader s) < 4 \<and>
         int (ir_cnt (b_reader s)) + pending_push (b_reader s) \<ge> 4
      then bist_consume (s\<lparr>b_fault_done := True\<rparr>) else s)"

definition bist_land :: "bist_sim \<Rightarrow> bist_sim" where
  "bist_land s = s\<lparr>b_reader := (let r = land_reads (b_reader s) in if r_done r then r_reset r else r)\<rparr>"

definition bist_refill :: "bist_sim \<Rightarrow> bist_sim" where
  "bist_refill s = (if b_k s = 0 \<and> \<not> b_have_bc s \<and> ir_cnt (b_reader s) \<ge> 4 then bist_consume s else s)"

definition bist_issue :: "bist_sim \<Rightarrow> bist_sim" where
  "bist_issue s = (let (f, g) = arbitrate (r_propose (b_reader s) (begin_cycle 0 (b_fabric s)))
     in s\<lparr>b_fabric := f, b_reader := fst (r_commit g (b_reader s, 0))\<rparr>)"

definition bist_output :: "bist_sim \<Rightarrow> bist_sim" where
  "bist_output s =
     (if b_have_bc s
      then let s1 = s\<lparr>b_iter := b_iter s + 1, b_k := b_k s + 1\<rparr> in if b_k s1 = 4 then s1\<lparr>b_k := 0, b_have_bc := False\<rparr> else s1
      else s)"

definition bist_cycle :: "bool \<Rightarrow> bist_sim \<Rightarrow> bist_sim" where
  "bist_cycle inject s = bist_output (bist_issue (bist_refill (bist_land (bist_fault inject (s\<lparr>b_cyc := b_cyc s + 1\<rparr>)))))"

lemma bist_pops_cyc: "b_cyc (fold bist_pop ps s) = b_cyc s"
  by (induction ps arbitrary: s) (simp_all add: bist_pop_def split: prod.splits option.splits)

lemma bist_cycle_cyc: "b_cyc (bist_cycle inject s) = b_cyc s + 1"
  by (simp add: bist_cycle_def bist_output_def bist_issue_def bist_refill_def bist_land_def bist_fault_def bist_consume_def Let_def
      bist_pops_cyc split: prod.splits)

function bist_loop :: "bool \<Rightarrow> int \<Rightarrow> bist_sim \<Rightarrow> bist_sim" where
  "bist_loop inject its s =
     (if b_iter s < its \<and> b_cyc s < 2000000000 then bist_loop inject its (bist_cycle inject s) else s)"
  by auto
termination
proof (relation "measure (\<lambda>(inject, its, s). 2000000000 - unat (b_cyc s))")
  show "((inject, its, bist_cycle inject s), (inject, its, s)) \<in> measure (\<lambda>(inject, its, s). 2000000000 - unat (b_cyc s))"
    if "b_iter s < its \<and> b_cyc s < 2000000000" for inject its s
  proof -
    have c: "unat (b_cyc s) < 2000000000" using that by (simp add: word_less_nat_alt)
    then have "unat (b_cyc s + 1) = unat (b_cyc s) + 1" by (simp add: unat_add_small)
    then show ?thesis using c by (simp add: bist_cycle_cyc)
  qed
qed simp

declare bist_loop.simps [simp del]

definition suc_bist_pass :: "agu \<Rightarrow> i32 \<Rightarrow> i32 \<Rightarrow> bool \<Rightarrow> bist_sim" where
  "suc_bist_pass a seqLen dInner_tile inject =
     bist_loop inject (sint seqLen * sint dInner_tile)
       \<lparr>b_reader = (r_configure a 4 2 4 7 reader_zero)\<lparr>track_idx := True\<rparr>, b_fabric = fabric0, b_iter = 0, b_expect = 0, b_k = 0,
        b_have_bc = False, b_fault_done = False, b_cyc = 0, poison_count = 0, poison_idx = []\<rparr>"

section \<open>The test\<close>

record suc_bist_result =
  clean_complete :: bool
  clean_poison_free :: bool
  fault_detected :: bool
  bist_groups :: int
  clean_poison_count :: int
  fault_poison_count :: int
  first_idx :: "int list"

definition cyc_suc_bist :: "agu \<Rightarrow> i32 \<Rightarrow> i32 \<Rightarrow> suc_bist_result" where
  "cyc_suc_bist a seqLen dInner_tile =
     (let clean = suc_bist_pass a seqLen dInner_tile False; fault = suc_bist_pass a seqLen dInner_tile True in
      \<lparr>clean_complete = (b_iter clean = sint seqLen * sint dInner_tile), clean_poison_free = (poison_count clean = 0),
       fault_detected = (poison_count fault > 0), bist_groups = b_expect clean, clean_poison_count = poison_count clean,
       fault_poison_count = poison_count fault,
       first_idx = poison_idx (if poison_count clean \<noteq> 0 then clean else fault)\<rparr>)"

section \<open>What the test can show\<close>

lemma ir_cnt_pop: "ir_cnt (snd (r_pop r)) = ir_cnt r"
  by (simp add: r_pop_def Let_def)

lemma bist_pops_clean:
  "length ps \<le> ir_cnt (b_reader s) \<Longrightarrow> poison_count (fold bist_pop ps s) = poison_count s \<and> poison_idx (fold bist_pop ps s) = poison_idx s"
proof (induction ps arbitrary: s)
  case (Cons p ps)
  then have "ir_cnt (b_reader (bist_pop p s)) = ir_cnt (b_reader s) - 1" "poison_count (bist_pop p s) = poison_count s"
    "poison_idx (bist_pop p s) = poison_idx s"
    by (simp_all add: bist_pop_def pop_idx_def ir_cnt_pop)
  with Cons show ?case by simp
qed simp

lemma bist_pops_mono: "poison_count s \<le> poison_count (fold bist_pop ps s)"
proof (induction ps arbitrary: s)
  case (Cons p ps)
  have "poison_count s \<le> poison_count (bist_pop p s)" by (simp add: bist_pop_def split: prod.splits option.splits)
  with Cons [of "bist_pop p s"] show ?case by simp
qed simp

lemma bist_pops_poison: "ir_cnt (b_reader s) < length ps \<Longrightarrow> poison_count s < poison_count (fold bist_pop ps s)"
proof (induction ps arbitrary: s)
  case (Cons p ps)
  show ?case
  proof (cases "ir_cnt (b_reader s) = 0")
    case True
    then have "poison_count (bist_pop p s) = poison_count s + 1" by (simp add: bist_pop_def pop_idx_def)
    then show ?thesis using bist_pops_mono [of "bist_pop p s" ps] by simp
  next
    case False
    then have "ir_cnt (b_reader (bist_pop p s)) = ir_cnt (b_reader s) - 1" "poison_count (bist_pop p s) = poison_count s"
      by (simp_all add: bist_pop_def pop_idx_def ir_cnt_pop)
    then show ?thesis using Cons.IH [of "bist_pop p s"] Cons.prems False by simp
  qed
qed simp

lemma bist_consume_clean: "4 \<le> ir_cnt (b_reader s) \<Longrightarrow> poison_count (bist_consume s) = poison_count s \<and> poison_idx (bist_consume s) = poison_idx s"
  using bist_pops_clean [of "[0..<4]" s] by (simp add: bist_consume_def Let_def)

lemma bist_consume_poison: "ir_cnt (b_reader s) < 4 \<Longrightarrow> poison_count s < poison_count (bist_consume s)"
  using bist_pops_poison [of s "[0..<4]"] by (simp add: bist_consume_def Let_def)

text \<open>Poison and the injected fault go together: a refresh that waits for its four groups never meets an empty ring.\<close>

definition poison_by_fault :: "bist_sim \<Rightarrow> bool" where
  "poison_by_fault s \<longleftrightarrow> (if b_fault_done s then 0 < poison_count s else poison_count s = 0 \<and> poison_idx s = [])"

lemma bist_consume_fault_done: "b_fault_done (bist_consume s) = b_fault_done s"
proof -
  have "b_fault_done (fold bist_pop ps s) = b_fault_done s" for ps
    by (induction ps arbitrary: s) (simp_all add: bist_pop_def split: prod.splits option.splits)
  then show ?thesis by (simp add: bist_consume_def Let_def)
qed

lemma poison_by_fault_simps:
  "poison_by_fault (bist_output s) = poison_by_fault s" "poison_by_fault (bist_issue s) = poison_by_fault s"
  "poison_by_fault (bist_land s) = poison_by_fault s" "poison_by_fault (s\<lparr>b_cyc := c\<rparr>) = poison_by_fault s"
  "b_fault_done (bist_output s) = b_fault_done s" "b_fault_done (bist_issue s) = b_fault_done s"
  "b_fault_done (bist_land s) = b_fault_done s"
  by (simp_all add: poison_by_fault_def bist_output_def bist_issue_def bist_land_def Let_def split: prod.splits)

lemma poison_by_fault_refill: "poison_by_fault s \<Longrightarrow> poison_by_fault (bist_refill s)"
  "b_fault_done (bist_refill s) = b_fault_done s"
  using bist_consume_clean [of s] by (simp_all add: bist_refill_def poison_by_fault_def bist_consume_fault_done)

lemma poison_by_fault_fault: "poison_by_fault s \<Longrightarrow> poison_by_fault (bist_fault inject s)"
  "b_fault_done (bist_fault inject s) \<Longrightarrow> inject \<or> b_fault_done s"
  using bist_consume_poison [of "s\<lparr>b_fault_done := True\<rparr>"]
  by (auto simp: bist_fault_def poison_by_fault_def bist_consume_fault_done split: if_splits)

lemma bist_loop_poison:
  assumes "poison_by_fault s"
  shows "poison_by_fault (bist_loop inject its s) \<and> (b_fault_done (bist_loop inject its s) \<longrightarrow> inject \<or> b_fault_done s)"
  using assms
proof (induction inject its s rule: bist_loop.induct)
  case (1 inject its s)
  have "poison_by_fault (bist_cycle inject s)"
    by (simp add: bist_cycle_def poison_by_fault_simps poison_by_fault_refill(1) poison_by_fault_fault(1) "1.prems")
  moreover have "b_fault_done (bist_cycle inject s) \<longrightarrow> inject \<or> b_fault_done s"
    using poison_by_fault_fault(2) [of inject "s\<lparr>b_cyc := b_cyc s + 1\<rparr>"]
    by (simp add: bist_cycle_def poison_by_fault_simps poison_by_fault_refill(2))
  ultimately show ?case using "1.IH" "1.prems" by (subst (1 2) bist_loop.simps) auto
qed

text \<open>
  The built-in test cannot fail by a poison read: whatever the port and the sizes, its clean pass reads no word before it has
  landed, since it only pops what the ring counts; and the pass with the fault reports poison exactly when the fault was
  injected. What the test can detect is a pass that does not complete and a fault that never gets its chance.
\<close>

theorem bist_poison_by_fault:
  "clean_poison_free (cyc_suc_bist a n d) \<and> clean_poison_count (cyc_suc_bist a n d) = 0 \<and>
   (fault_detected (cyc_suc_bist a n d) \<longleftrightarrow> b_fault_done (suc_bist_pass a n d True))"
proof -
  have "poison_by_fault (suc_bist_pass a n d inject) \<and> (b_fault_done (suc_bist_pass a n d inject) \<longrightarrow> inject)" for inject
  proof -
    let ?s = "\<lparr>b_reader = (r_configure a 4 2 4 7 reader_zero)\<lparr>track_idx := True\<rparr>, b_fabric = fabric0, b_iter = 0, b_expect = 0, b_k = 0,
      b_have_bc = False, b_fault_done = False, b_cyc = 0, poison_count = 0, poison_idx = []\<rparr>"
    have "poison_by_fault ?s" "\<not> b_fault_done ?s" by (simp_all add: poison_by_fault_def)
    then show ?thesis using bist_loop_poison [of ?s inject "sint n * sint d"] unfolding suc_bist_pass_def by blast
  qed
  from this [of True] this [of False] show ?thesis
    by (auto simp: cyc_suc_bist_def Let_def poison_by_fault_def split: if_splits)
qed

section \<open>The probe of one reader\<close>

record reader_probe =
  p_reader :: cyc_reader
  p_fabric :: fabric
  p_cyc :: u64
  p_consumed :: int
  p_since :: int

definition probe_cycle :: "int \<Rightarrow> u32 \<Rightarrow> reader_probe \<Rightarrow> reader_probe" where
  "probe_cycle every dma_mask s =
     (let r = land_reads (p_reader s); (f, g) = arbitrate (r_propose r (begin_cycle dma_mask (p_fabric s)));
          s1 = s\<lparr>p_cyc := p_cyc s + 1, p_fabric := f, p_reader := fst (r_commit g (r, 0)), p_since := p_since s + 1\<rparr>
      in if p_since s1 \<ge> every
         then (case r_pop (p_reader s1) of
             (True, r1) \<Rightarrow> s1\<lparr>p_reader := r1, p_consumed := p_consumed s1 + 1, p_since := 0\<rparr>
           | (False, r1) \<Rightarrow> s1\<lparr>p_reader := r1\<rparr>)
         else s1)"

lemma probe_cycle_cyc: "p_cyc (probe_cycle every dma_mask s) = p_cyc s + 1"
  by (simp add: probe_cycle_def Let_def split: prod.splits bool.splits)

function probe_loop :: "int \<Rightarrow> u32 \<Rightarrow> int \<Rightarrow> reader_probe \<Rightarrow> reader_probe" where
  "probe_loop every dma_mask n s =
     (if p_consumed s < n \<and> p_cyc s < 100000000 then probe_loop every dma_mask n (probe_cycle every dma_mask s) else s)"
  by auto
termination
proof (relation "measure (\<lambda>(every, dma_mask, n, s). 100000000 - unat (p_cyc s))")
  show "((every, dma_mask, n, probe_cycle every dma_mask s), (every, dma_mask, n, s)) \<in>
      measure (\<lambda>(every, dma_mask, n, s). 100000000 - unat (p_cyc s))"
    if "p_consumed s < n \<and> p_cyc s < 100000000" for every dma_mask n s
  proof -
    have c: "unat (p_cyc s) < 100000000" using that by (simp add: word_less_nat_alt)
    then have "unat (p_cyc s + 1) = unat (p_cyc s) + 1" by (simp add: unat_add_small)
    then show ?thesis using c by (simp add: probe_cycle_cyc)
  qed
qed simp

declare probe_loop.simps [simp del]

definition cyc_reader_test :: "agu \<Rightarrow> nat \<Rightarrow> nat \<Rightarrow> int \<Rightarrow> int \<Rightarrow> int \<Rightarrow> u32 \<Rightarrow> u64" where
  "cyc_reader_test a nch nsp fifo_depth consume_period n_beats dma_mask =
     (let r = r_configure a nch nsp fifo_depth 7 reader_zero; n = min n_beats (signed_take_bit 31 (r_total r)) in
      p_cyc (probe_loop consume_period dma_mask n \<lparr>p_reader = r, p_fabric = fabric0, p_cyc = 0, p_consumed = 0, p_since = 0\<rparr>))"

end
