(* ===== verification/Datapath.thy ===== *)
theory Datapath
  imports Layout_check Bist
begin

text \<open>
  The check of the data path that runs once, on the first invocation of phase 2 (world.cpp, \<open>verify_datapath\<close>): an integer
  matrix product through the layouts that the library documents, the search for the smallest safe start counts on copies of
  the engine, and the built-in test of the operand delivery. The comparisons with golden floating-point data, which only
  an environment variable switches on, the output and the curves for plots are left out.
\<close>

section \<open>The matrix product\<close>

record gemm_shape =
  g_M :: int
  g_K :: int
  g_N :: int
  g_A :: u32
  g_B :: u32
  g_Z :: u32

text \<open>The documented layouts of the operand A and of the result, in bytes.\<close>

definition flatA :: "gemm_shape \<Rightarrow> int \<Rightarrow> int \<Rightarrow> u32" where
  "flatA g m k = word_of_int (m sdiv 16 * (g_K g * 16) + k * 16 + m smod 16)"

definition convfmt :: "gemm_shape \<Rightarrow> int \<Rightarrow> int \<Rightarrow> u32" where
  "convfmt g m n =
     (let l2 = m sdiv 16; l1 = m smod 16; d3 = n sdiv 24; rem = n smod 24; d2 = rem sdiv 4; c = rem smod 4
      in word_of_int ((((d3 * (g_M g sdiv 16) + l2) * 6 + d2) * 16 + l1) * 4 + c))"

definition rd8 :: "pages \<Rightarrow> u32 \<Rightarrow> int" where
  "rd8 p a = sint (ld8 a p)"

text \<open>One element, by the right gather of A or by a permuted one.\<close>

definition gemm_elem :: "gemm_shape \<Rightarrow> pages \<Rightarrow> bool \<Rightarrow> int \<Rightarrow> int \<Rightarrow> int" where
  "gemm_elem g p scramble m n =
     (\<Sum>k\<leftarrow>map int [0..<nat (g_K g)].
        rd8 p (g_A g + (if scramble then flatA g (k smod g_M g) ((m * 7 + k) smod g_K g) else flatA g m k)) *
        rd8 p (g_B g + word_of_int (k * g_N g + n))) AND 0xff"

definition check_elem :: "gemm_shape \<Rightarrow> int \<times> int \<Rightarrow> pages \<times> nat \<times> nat \<Rightarrow> pages \<times> nat \<times> nat" where
  "check_elem g = (\<lambda>(m, n) (p, rt_bad, fault_bad).
     let ref = gemm_elem g p False m n; p1 = st8 (g_Z g + convfmt g m n) (word_of_int ref) p;
         got = rd8 p1 (g_Z g + convfmt g m n) AND 0xff
     in (p1, if got \<noteq> ref then rt_bad + 1 else rt_bad,
         if gemm_elem g p1 True m n \<noteq> ref then fault_bad + 1 else fault_bad))"

definition check_gemm :: "gemm_shape \<Rightarrow> pages \<Rightarrow> pages \<times> nat \<times> nat" where
  "check_gemm g p = fold (check_elem g)
     (concat (map (\<lambda>m. map (\<lambda>n. (int m, int n)) [0..<nat (g_N g)]) [0..<nat (g_M g)])) (p, 0, 0)"

definition os_layout_ok :: "int \<Rightarrow> agu list \<Rightarrow> bool" where
  "os_layout_ok K ps \<longleftrightarrow>
     a_t_stride (ps ! 0) ! 0 = 16 \<and> a_t_stride (ps ! 0) ! 1 = K * 16 \<and>
     (a_s_stride (ps ! 0) ! 0 = 0 \<or> a_s_stride (ps ! 0) ! 0 * 2 = 16) \<and> a_t_stride (ps ! 14) ! 0 = 8"

text \<open>The reader of the result reads where the writer writes.\<close>

definition pc_ok :: "agu list \<Rightarrow> bool" where
  "pc_ok ps \<longleftrightarrow> \<not> a_enabled (ps ! 10) \<or> a_base (ps ! 10) = a_base (ps ! 14)"

definition verify_gemm :: "gemm_shape \<Rightarrow> sim_world env \<Rightarrow> sim_world env" where
  "verify_gemm g = (\<lambda>(w, p).
     let (p1, rt_bad, fault_bad) = check_gemm g p
     in (w\<lparr>layout_pass := (os_layout_ok (g_K g) (ports w) \<and> rt_bad = 0 \<and> fault_bad > 0 \<and> pc_ok (ports w))\<rparr>, p1))"

section \<open>Safe start counts\<close>

text \<open>A run of a fresh engine with fixed start counts: its stale reads.\<close>

definition s2s_run :: "sim_world \<Rightarrow> int \<Rightarrow> int \<Rightarrow> int \<times> int" where
  "s2s_run w r10c r11c =
     (let e = configure (ports w) (world_cfg w) r10c r11c (switch_core_cycles w) (engine0 (ports w)) in
      if \<not> running e then (- 1, - 1)
      else let r = res (engine_run 500000000 e) in (stale_z r, stale_y r))"

function gate_search :: "(int \<Rightarrow> bool) \<Rightarrow> int \<Rightarrow> int \<Rightarrow> int \<Rightarrow> int" where
  "gate_search safe lo hi best =
     (if lo \<le> hi
      then let mid = lo + (hi - lo) sdiv 2 in
        if safe mid then gate_search safe lo (mid - 1) mid else gate_search safe (mid + 1) hi best
      else best)"
  by auto
termination
  by (relation "measure (\<lambda>(safe, lo, hi, best). nat (hi - lo + 1))") (auto simp: sdivmod_nonneg)

declare gate_search.simps [simp del]

definition s2s_totals :: "sim_world \<Rightarrow> int \<times> int" where
  "s2s_totals w =
     (let c = world_cfg w
      in (uint (cfg_seqLen c div 16) * uint (if cfg_dInner c \<ge> 24 then cfg_dInner c div 24 else 0),
          uint (cfg_seqLen c) * uint (cfg_dInner c)))"

definition app_gate :: "u32 \<Rightarrow> int \<Rightarrow> int" where
  "app_gate cnt tot = (if cnt \<noteq> 0 then uint cnt else tot)"

definition verify_s2s :: "sim_world \<Rightarrow> sim_world" where
  "verify_s2s w =
     (let (t10, t11) = s2s_totals w; m = cfg_mode (world_cfg w) in
      if mode_bit m 21 \<and> t10 > 0 \<and> t11 > 0
      then let r10 = gate_search (\<lambda>g. fst (s2s_run w g t11) = 0) 1 t10 t10;
               r11 = (if mode_bit m 19 then gate_search (\<lambda>g. snd (s2s_run w r10 g) = 0) 1 t11 t11 else t11);
               (z, y) = s2s_run w (app_gate (r10_start_cnt w) t10) (app_gate (r11_start_cnt w) t11)
           in w\<lparr>s2s_total_r10 := t10, s2s_total_r11 := t11, s2s_opt_r10 := r10, s2s_opt_r11 := r11,
                layout_pass := (layout_pass w \<and> \<not> (z > 0 \<or> y > 0))\<rparr>
      else w)"

section \<open>The whole check\<close>

definition verify_bist :: "sim_world \<Rightarrow> sim_world" where
  "verify_bist w =
     (if a_enabled (ports w ! 7)
      then let b = cyc_suc_bist (ports w ! 7) (cfg_seqLen (world_cfg w)) (cfg_dInner (world_cfg w))
           in w\<lparr>layout_pass := (layout_pass w \<and> clean_complete b \<and> clean_poison_free b \<and> fault_detected b)\<rparr>
      else w)"

definition os_shape :: "sim_world \<Rightarrow> gemm_shape" where
  "os_shape w = (let c = world_cfg w in
     \<lparr>g_M = sint (cfg_seqLen c), g_K = sint (cfg_dModel c), g_N = sint (cfg_dInner c), g_A = ucast (a_base (ports w ! 0)),
      g_B = ucast (a_base (ports w ! 1)), g_Z = ucast (a_base (ports w ! 14))\<rparr>)"

definition datapath_applies :: "sim_world \<Rightarrow> bool" where
  "datapath_applies w \<longleftrightarrow> \<not> (g_M (os_shape w) smod 16 \<noteq> 0 \<or> g_N (os_shape w) smod 24 \<noteq> 0 \<or>
     \<not> a_enabled (ports w ! 0) \<or> \<not> a_enabled (ports w ! 14))"

definition verify_datapath :: "sim_world env \<Rightarrow> sim_world env" where
  "verify_datapath = (\<lambda>(w, p).
     if \<not> datapath_applies w then (w, p)
     else let (w1, p1) = verify_gemm (os_shape w) (w, p); w2 = (if phase2 w1 then verify_s2s w1 else w1)
       in (verify_bist w2, p1))"

section \<open>What the checks can show\<close>

text \<open>The round trip through memory cannot fail: what is compared is the byte that was just written.\<close>

lemma check_elem_round_trip:
  assumes "pages_wf p"
  shows "fst (snd (check_elem g mn (p, b, f))) = b" "pages_wf (fst (check_elem g mn (p, b, f)))"
proof -
  obtain m n where mn: "mn = (m, n)" by (cases mn)
  let ?ref = "gemm_elem g p False m n" and ?a = "g_Z g + convfmt g m n"
  have "rd8 (st8 ?a (word_of_int ?ref) p) ?a AND 0xff = ?ref"
  proof -
    have "sint (word_of_int ?ref :: u8) AND 0xff = take_bit 8 (signed_take_bit 7 ?ref)"
      by (simp add: take_bit_eq_mask mask_eq_exp_minus_1 sint_sbintrunc')
    also have "\<dots> = take_bit 8 ?ref" by (simp add: take_bit_signed_take_bit)
    also have "\<dots> = ?ref" by (simp add: gemm_elem_def take_bit_eq_mask mask_eq_exp_minus_1 and.assoc)
    finally show ?thesis using assms by (simp add: rd8_def ld_st_same)
  qed
  then show "fst (snd (check_elem g mn (p, b, f))) = b" by (simp add: mn check_elem_def Let_def)
  show "pages_wf (fst (check_elem g mn (p, b, f)))" using assms by (simp add: mn check_elem_def Let_def st_wf)
qed

theorem gemm_round_trip_vacuous:
  assumes "pages_wf p"
  shows "fst (snd (check_gemm g p)) = 0" "pages_wf (fst (check_gemm g p))"
proof -
  have "fst (snd (fold (check_elem g) ls (p, b, f))) = b \<and> pages_wf (fst (fold (check_elem g) ls (p, b, f)))" for ls b f
    using assms
  proof (induction ls arbitrary: p b f)
    case (Cons mn ls)
    obtain p1 f1 where "check_elem g mn (p, b, f) = (p1, b, f1)" "pages_wf p1"
      using check_elem_round_trip [OF Cons.prems, of g mn b f] by (metis prod.collapse fst_conv snd_conv)
    with Cons.IH show ?case by simp
  qed simp
  then show "fst (snd (check_gemm g p)) = 0" "pages_wf (fst (check_gemm g p))" by (simp_all add: check_gemm_def)
qed

text \<open>
  The search finds the least safe start count when safety is monotone: nothing below it is safe, and it is safe unless no
  count up to the total is.
\<close>

definition least_gate :: "(int \<Rightarrow> bool) \<Rightarrow> int \<Rightarrow> int \<Rightarrow> int \<Rightarrow> int \<Rightarrow> bool" where
  "least_gate safe lo hi best g \<longleftrightarrow> g = best \<and> (\<forall>r. lo \<le> r \<and> r \<le> hi \<longrightarrow> \<not> safe r) \<or>
     lo \<le> g \<and> g \<le> hi \<and> safe g \<and> (\<forall>r. lo \<le> r \<and> r < g \<longrightarrow> \<not> safe r)"

definition safe_upwards :: "(int \<Rightarrow> bool) \<Rightarrow> int \<Rightarrow> int \<Rightarrow> bool" where
  "safe_upwards safe lo hi \<longleftrightarrow> (\<forall>r r'. lo \<le> r \<and> r \<le> r' \<and> r' \<le> hi \<and> safe r \<longrightarrow> safe r')"

lemma least_gate_below:
  "lo \<le> mid \<Longrightarrow> mid \<le> hi \<Longrightarrow> safe mid \<Longrightarrow> least_gate safe lo (mid - 1) mid g \<Longrightarrow> least_gate safe lo hi best g"
  by (auto simp: least_gate_def)

lemma least_gate_above:
  assumes "lo \<le> mid" "mid \<le> hi" "\<not> safe mid" "safe_upwards safe lo hi" "least_gate safe (mid + 1) hi best g"
  shows "least_gate safe lo hi best g"
proof -
  have "\<not> safe r" if "lo \<le> r" "r \<le> mid" for r using assms(2-4) that unfolding safe_upwards_def by blast
  moreover have "r \<le> mid \<or> mid + 1 \<le> r" for r by linarith
  ultimately show ?thesis using assms(1,5) unfolding least_gate_def by (smt (verit))
qed

lemma gate_search_least: "safe_upwards safe lo hi \<Longrightarrow> least_gate safe lo hi best (gate_search safe lo hi best)"
proof (induction safe lo hi best rule: gate_search.induct)
  case (1 safe lo hi best)
  show ?case
  proof (cases "lo \<le> hi")
    case True
    define mid where "mid = lo + (hi - lo) sdiv 2"
    have m: "lo \<le> mid" "mid \<le> hi" using True by (simp_all add: mid_def sdivmod_nonneg)
    have sub: "safe_upwards safe lo (mid - 1)" "safe_upwards safe (mid + 1) hi"
      using "1.prems" m unfolding safe_upwards_def by (meson order_trans zle_diff1_eq less_imp_le add_increasing2 zle_add1_eq_le, smt (verit))
    show ?thesis
    proof (cases "safe mid")
      case safe: True
      then have g: "gate_search safe lo hi best = gate_search safe lo (mid - 1) mid"
        using True by (subst gate_search.simps) (simp add: Let_def mid_def)
      show ?thesis unfolding g by (rule least_gate_below [OF m safe "1.IH"(1) [OF True mid_def safe sub(1)]])
    next
      case unsafe: False
      then have g: "gate_search safe lo hi best = gate_search safe (mid + 1) hi best"
        using True by (subst gate_search.simps) (simp add: Let_def mid_def)
      show ?thesis unfolding g by (rule least_gate_above [OF m unsafe "1.prems" "1.IH"(2) [OF True mid_def unsafe sub(2)]])
    qed
  qed (use order_trans in \<open>auto simp: gate_search.simps least_gate_def\<close>)
qed

text \<open>What the verdict depends on.\<close>

definition same_inputs :: "sim_world \<Rightarrow> sim_world \<Rightarrow> bool" where
  "same_inputs w v \<longleftrightarrow> ports v = ports w \<and> world_cfg v = world_cfg w \<and> dtRankUnroll v = dtRankUnroll w \<and>
     r10_start_cnt v = r10_start_cnt w \<and> r11_start_cnt v = r11_start_cnt w \<and> phase2 v = phase2 w"

definition same_verdict :: "sim_world \<Rightarrow> sim_world \<Rightarrow> bool" where
  "same_verdict w v \<longleftrightarrow> same_inputs w v \<and> layout_pass v = layout_pass w"

lemma same_inputsD:
  assumes "same_inputs w v"
  shows "os_shape v = os_shape w" "s2s_totals v = s2s_totals w" "datapath_applies v = datapath_applies w" "s2s_run v = s2s_run w"
proof -
  show "os_shape v = os_shape w" "s2s_totals v = s2s_totals w" using assms by (simp_all add: same_inputs_def os_shape_def s2s_totals_def)
  then show "datapath_applies v = datapath_applies w" using assms by (simp add: same_inputs_def datapath_applies_def)
  have "switch_core_cycles v = switch_core_cycles w"
    using assms by (simp add: same_inputs_def switch_core_cycles_def Let_def cong: if_cong)
  then show "s2s_run v = s2s_run w" using assms by (intro ext) (simp add: same_inputs_def s2s_run_def)
qed

lemma same_verify_gemm:
  assumes "same_inputs w v"
  shows "same_verdict (fst (verify_gemm g (w, p))) (fst (verify_gemm g (v, p)))" "snd (verify_gemm g (w, p)) = snd (verify_gemm g (v, p))"
  using assms by (simp_all add: verify_gemm_def same_verdict_def same_inputs_def split: prod.splits)

lemma same_verify_s2s: "same_verdict w v \<Longrightarrow> same_verdict (verify_s2s w) (verify_s2s v)"
  using same_inputsD(2,4) [of w v]
  by (simp add: verify_s2s_def same_verdict_def Let_def split: prod.splits) (simp add: same_inputs_def)

lemma same_verify_bist: "same_verdict w v \<Longrightarrow> same_verdict (verify_bist w) (verify_bist v)"
  by (simp add: verify_bist_def same_verdict_def Let_def) (simp add: same_inputs_def)

lemma verify_datapath_verdict:
  assumes "same_inputs w v" "datapath_applies w"
  shows "layout_pass (fst (verify_datapath (v, p))) = layout_pass (fst (verify_datapath (w, p)))"
proof -
  let ?g = "os_shape w" and ?A = "fst (verify_gemm (os_shape w) (w, p))" and ?B = "fst (verify_gemm (os_shape w) (v, p))"
  have AB: "same_verdict ?A ?B" by (rule same_verify_gemm(1) [OF assms(1)])
  then have "phase2 ?B = phase2 ?A" unfolding same_verdict_def same_inputs_def by blast
  then have "same_verdict (if phase2 ?A then verify_s2s ?A else ?A) (if phase2 ?B then verify_s2s ?B else ?B)"
    using AB same_verify_s2s [OF AB] by (cases "phase2 ?A") simp_all
  from same_verify_bist [OF this] show ?thesis
    using assms(2) unfolding verify_datapath_def same_verdict_def case_prod_beta Let_def
    by (simp add: same_inputsD(1,3) [OF assms(1)] cong: if_cong split del: if_split)
qed

end
