(* ===== verification/World_ops.thy ===== *)
theory World_ops
  imports Datapath
begin

text \<open>
  The simulated world as the interpreter sees it (world.hpp, class \<open>SimWorld\<close>): its operations as an instance of the record of
  Interp. A write to the start register runs an invocation and then the checks of world.cpp on it.
\<close>

section \<open>The checks after an invocation\<close>

definition verify_invocation :: "sim_world env \<Rightarrow> sim_world env" where
  "verify_invocation = (\<lambda>(w, p).
     if verify w
     then let w1 = verify_layout w in
       if phase2 w1 \<and> \<not> verify_ran w1 then verify_datapath (w1\<lparr>verify_ran := True\<rparr>, p) else (w1, p)
     else (w, p))"

definition env_snax_write :: "u32 \<Rightarrow> u32 \<Rightarrow> u64 \<Rightarrow> sim_world env \<Rightarrow> sim_world env" where
  "env_snax_write csr val at = (\<lambda>(w, p).
     let w1 = world_snax_write csr val at w
     in if csr = SNAX_SIMBACORE_START \<and> val \<noteq> 0 then verify_invocation (w1, p) else (w1, p))"

section \<open>The world of the interpreter\<close>

definition sim_world_ops :: "sim_world world_ops" where
  "sim_world_ops = \<lparr>advance_to = (\<lambda>t (w, m). (world_advance_to t w, m)), next_event_cycle = (\<lambda>(w, m). world_next_event w),
     dma_submit = world_dma_submit, dma_busy = (\<lambda>at (w, m). (world_dma_busy at w, (w, m))),
     dma_completed_id = (\<lambda>at (w, m). (dma_txid w, (w, m))), snax_write = env_snax_write,
     snax_write_serializes = (\<lambda>csr at (w, m). write_serializes csr at w),
     snax_read = (\<lambda>csr at (w, m). (let (r, w') = world_snax_read csr at w in (r, (w', m)))), fence = (\<lambda>_ _ e. e)\<rparr>"

section \<open>The verdict\<close>

text \<open>
  C27: the verdict on a program forgets what the audit found: on the first invocation of phase 2 to which the data path check
  applies, the layout flag afterwards is that of the data path alone, the same as if the audit had found nothing in
  this and in all earlier invocations, although the errors are counted.
\<close>

theorem audit_verdict_lost:
  assumes "verify w" "phase2 w" "\<not> verify_ran w" "datapath_applies w" "v = fst (verify_invocation (w, p))"
  shows "layout_pass v = layout_pass (fst (verify_datapath (w\<lparr>layout_pass := True\<rparr>, p))) \<and> layout_ok v = layout_pass v"
proof -
  let ?w = "(verify_layout w)\<lparr>verify_ran := True\<rparr>"
  have s: "same_inputs (w\<lparr>layout_pass := True\<rparr>) ?w" by (simp add: same_inputs_def verify_layout_def Let_def)
  have a: "datapath_applies (w\<lparr>layout_pass := True\<rparr>)" using assms(4) by (simp add: datapath_applies_def os_shape_def)
  have "v = fst (verify_datapath (?w, p))" using assms(1-3,5) by (simp add: verify_invocation_def verify_layout_def Let_def)
  moreover from this have "verify_ran v"
    by (auto simp: verify_datapath_def verify_bist_def verify_s2s_def verify_gemm_def Let_def split: prod.splits)
  ultimately show ?thesis using verify_datapath_verdict [OF s a, of p] by (simp add: layout_ok_def)
qed

text \<open>Two ports at address 0, outside the TCDM.\<close>

definition lost_example :: sim_world where
  "lost_example = sim_world0\<lparr>verify := True, phase2 := True,
     world_cfg := \<lparr>cfg_mode = 0, cfg_seqLen = 16, cfg_dModel = 16, cfg_dtRank = 0, cfg_dInner = 24, cfg_dFinal = 0\<rparr>,
     ports := replicate N_PORTS (agu_example\<lparr>a_base := 0\<rparr>)\<rparr>"

lemma lost_example_simps [simp]:
  "verify lost_example" "phase2 lost_example" "\<not> verify_ran lost_example" "ports lost_example = replicate N_PORTS (agu_example\<lparr>a_base := 0\<rparr>)"
  "cfg_seqLen (world_cfg lost_example) = 16" "cfg_dInner (world_cfg lost_example) = 24"
  by (simp_all add: lost_example_def sim_world0_def Let_def)

theorem audit_verdict_lost_witness:
  "\<not> layout_pass (verify_layout lost_example) \<and>
   layout_pass (fst (verify_invocation (lost_example, \<lambda>_. None))) =
     layout_pass (fst (verify_datapath (lost_example\<lparr>layout_pass := True\<rparr>, \<lambda>_. None)))"
proof
  have u: "[0..<4] = [0, 1, 2, 3 :: nat]" by code_simp
  have "Out_of_bounds 0 \<in> set (bounds_errors (ports lost_example))"
    by (auto intro!: bexI [of _ 0] simp add: bounds_errors_def N_PORTS_def extent_def  agu_example_def extent_offsets_def extent_terms_def extent_add_def
        or_one_def TCDM_LO_def u)
  then show "\<not> layout_pass (verify_layout lost_example)" by (auto simp: verify_layout_def Let_def)
  have "datapath_applies lost_example"
    by (simp add: datapath_applies_def os_shape_def N_PORTS_def agu_example_def)
  then show "layout_pass (fst (verify_invocation (lost_example, \<lambda>_. None))) =
     layout_pass (fst (verify_datapath (lost_example\<lparr>layout_pass := True\<rparr>, \<lambda>_. None)))"
    using audit_verdict_lost [OF _ _ _ _ refl, of lost_example "\<lambda>_. None"] by simp
qed

end
