(* ===== verification/Deadlock.thy ===== *)
theory Deadlock
  imports Sched World_ops
begin

text \<open>
  The scheduler over the simulated world: what becomes of a program in which no hart can run any more.
\<close>

lemma sched_run_spins:
  assumes "sched_turn W s = Continue s" "\<not> exited (mach s)" "steps s < max_insns"
  shows "sched_run W max_insns s = None"
proof -
  have "\<not> (W' = W \<and> n = max_insns \<and> s' = s)" if "sched_run W' n s' = Some r" for W' n s' r
  proof (rule sched_run.raw_induct [where P = "\<lambda>W' n s' _. \<not> (W' = W \<and> n = max_insns \<and> s' = s)", OF _ that])
    fix f W' n s' r
    assume IH: "\<And>W' n s' r. f W' n s' = Some r \<Longrightarrow> \<not> (W' = W \<and> n = max_insns \<and> s' = s)"
      and "(if exited (mach s') \<or> \<not> steps s' < n then Some (Some s')
        else case sched_turn W' s' of Continue s'' \<Rightarrow> f W' n s'' | Break s'' \<Rightarrow> Some (Some s'') | Illegal \<Rightarrow> Some None) = Some r"
    then show "\<not> (W' = W \<and> n = max_insns \<and> s' = s)" using assms IH [of W max_insns s r] by auto
  qed
  then show ?thesis by fastforce
qed

lemma idle_advance:
  "length (harts (mach s)) = 2 \<Longrightarrow> hstate (the_hart s 0) \<noteq> BlockedPoll \<Longrightarrow> hstate (the_hart s 1) \<noteq> BlockedPoll \<Longrightarrow>
    upd_hart 1 (unblock_poll t) (upd_hart 0 (unblock_poll t) s) = s"
  by (simp add: upd_hart_def unblock_poll_def list_eq_iff_nth_eq nth_list_update)

text \<open>
  C13: a deadlock goes unreported once the accelerator or the DMA has been used: when one hart waits at the barrier and the other
  one sleeps, no hart can ever run again. The scheduler reports this as a deadlock if nothing was ever started; but after an
  invocation that took time, or after any DMA transfer, the world keeps naming the past end as its next event, and the run
  never ends, whatever the cap on instructions.
\<close>

theorem deadlock_unreported:
  assumes "\<not> exited (mach s)" and "steps s < max_insns" and "length (harts (mach s)) = 2"
    and "{hstate (the_hart s 0), hstate (the_hart s 1)} = {AtBarrier, Parked}"
    and "env (mach s) = (w, m)" and "\<not> engine_active w" and "accel_end w < - 1" and "dma_busy_until w < - 1"
  shows "sched_run sim_world_ops max_insns s =
    (if accel_end w \<le> accel_start w \<and> dma_busy_until w = 0 then Some (Some (s\<lparr>deadlocked := True\<rparr>)) else None)"
proof -
  let ?t = "world_next_event w" and ?idle = "accel_end w \<le> accel_start w \<and> dma_busy_until w = 0"
  have h: "hstate (the_hart s 0) = AtBarrier \<and> hstate (the_hart s 1) = Parked \<or>
      hstate (the_hart s 0) = Parked \<and> hstate (the_hart s 1) = AtBarrier" using assms(4) by (auto simp: doubleton_eq_iff)
  then have turn: "sched_turn sim_world_ops s = idle_turn sim_world_ops s" and b: "\<not> both_at_barrier s" "\<not> all_done s"
    by (auto simp: sched_turn_def choose_hart_def Let_def runnable_def both_at_barrier_def all_done_def)
  have e: "?t = - 1 \<longleftrightarrow> ?idle"
    using assms(6-8) by (auto simp: world_next_event_def Let_def)
  have a: "world_advance_to ?t w = w" using assms(6) by (simp add: world_advance_to_def)
  have "s\<lparr>mach := upd_env (advance_to sim_world_ops ?t) (mach s)\<rparr> = s"
    using assms(5) a by (simp add: upd_env_def sim_world_ops_def)
  then have i: "idle_turn sim_world_ops s = (if ?idle then Break (s\<lparr>deadlocked := True\<rparr>) else Continue s)"
    using b e h assms(3,5) idle_advance [of s ?t] by (auto simp: idle_turn_def Let_def sim_world_ops_def)
  show ?thesis
  proof (cases ?idle)
    case True
    then show ?thesis using assms(1,2) turn i by (simp add: sched_run.simps)
  next
    case False
    then have "sched_turn sim_world_ops s = Continue s" using turn i by simp
    from sched_run_spins [OF this assms(1,2)] False show ?thesis by simp
  qed
qed

text \<open>Hart 0 sleeps, hart 1 waits at the barrier; one transfer was done before.\<close>

definition stuck_pair :: "sim_world \<Rightarrow> sim_world sched" where
  "stuck_pair w = \<lparr>mach = \<lparr>env = (w, \<lambda>_. None), harts = [(a_hart (\<lambda>_. 0))\<lparr>hstate := Parked\<rparr>, (a_hart (\<lambda>_. 0))\<lparr>hid := 1, hstate := AtBarrier\<rparr>],
     tohost = 0x1000, fromhost = 0, exited = False, exit_code = 0, cluster_base_l = 0x10000000, cluster_base_h = 0, core_num = 2\<rparr>,
     dma_regs = [no_dma, no_dma], deadlocked = False, steps = 0\<rparr>"

theorem deadlock_unreported_witness:
  "sched_run sim_world_ops 1000000 (stuck_pair (sim_world0\<lparr>dma_busy_until := 120\<rparr>)) = None \<and>
   (\<exists>s'. sched_run sim_world_ops 1000000 (stuck_pair sim_world0) = Some (Some s') \<and> deadlocked s')"
proof -
  have w: "\<not> engine_active sim_world0" "accel_end sim_world0 = 0" "accel_start sim_world0 = 0" "dma_busy_until sim_world0 = 0"
    by (simp_all add: sim_world0_def Let_def)
  have z: "0 < (- 1 :: u64)" by (simp add: word_gt_0)
  note d = deadlock_unreported [of "stuck_pair v" 1000000 v "\<lambda>_. None" for v]
  from d [of "sim_world0\<lparr>dma_busy_until := 120\<rparr>"] d [of sim_world0] show ?thesis
    using w z by (simp add: stuck_pair_def insert_commute)
qed

end
