(* ===== verification/World_props.thy ===== *)
theory World_props
  imports World_ops Interp_wf
begin

text \<open>
  What the interpreter relies on in the world: it keeps the memory well-formed, a DMA copies, and the accelerator is
  busy for a bounded time.
\<close>

section \<open>DMA copies\<close>

definition src_row :: "dma_desc \<Rightarrow> nat \<Rightarrow> u32" where
  "src_row d r = ucast (ds_src d) + word_of_nat r * ds_src_stride d"

definition dst_row :: "dma_desc \<Rightarrow> nat \<Rightarrow> u32" where
  "dst_row d r = ucast (ds_dst d) + word_of_nat r * ds_dst_stride d"

lemma dma_row_eq: "dma_row d r m = mem_write (dst_row d r) (mem_read (src_row d r) (unat (ds_size d)) m) m"
  by (simp add: dma_row_def src_row_def dst_row_def)

lemma size_small: "unat (ds_size d) \<le> 2 ^ 32"
  using unsigned_less [of "ds_size d", where 'a = nat] by simp

lemma dma_row_bytes:
  assumes "pages_wf m"
  shows "pages_wf (dma_row d r m)"
    "x \<notin> block (dst_row d r) (unat (ds_size d)) \<Longrightarrow> byte_at (dma_row d r m) x = byte_at m x"
    "mem_read (dst_row d r) (unat (ds_size d)) (dma_row d r m) = mem_read (src_row d r) (unat (ds_size d)) m"
proof -
  let ?s = "mem_read (src_row d r) (unat (ds_size d)) m"
  have l: "length ?s = unat (ds_size d)" by (rule length_mem_read [OF assms])
  then have s: "length ?s \<le> 2 ^ 32" using size_small by simp
  show "pages_wf (dma_row d r m)" using mem_write_bytes(1) [OF assms s] by (simp add: dma_row_eq)
  show "x \<notin> block (dst_row d r) (unat (ds_size d)) \<Longrightarrow> byte_at (dma_row d r m) x = byte_at m x"
    using mem_write_bytes(2) [OF assms s] block_iff [OF size_small, of x "dst_row d r" d] by (simp add: dma_row_eq l)
  show "mem_read (dst_row d r) (unat (ds_size d)) (dma_row d r m) = ?s"
    using mem_read_written [OF assms s, of "dst_row d r"] by (simp add: dma_row_eq l)
qed

definition rows_apart :: "dma_desc \<Rightarrow> bool" where
  "rows_apart d \<longleftrightarrow>
     (\<forall>r < unat (dma_rows d). \<forall>r' < unat (dma_rows d).
        block (src_row d r) (unat (ds_size d)) \<inter> block (dst_row d r') (unat (ds_size d)) = {} \<and>
        (r \<noteq> r' \<longrightarrow> block (dst_row d r) (unat (ds_size d)) \<inter> block (dst_row d r') (unat (ds_size d)) = {}))"

lemma dma_copy_rows:
  assumes "pages_wf m" "rows_apart d" "k \<le> unat (dma_rows d)"
  shows "pages_wf (fold (dma_row d) [0..<k] m) \<and>
    (\<forall>x. (\<forall>r < k. x \<notin> block (dst_row d r) (unat (ds_size d))) \<longrightarrow> byte_at (fold (dma_row d) [0..<k] m) x = byte_at m x) \<and>
    (\<forall>r < k. mem_read (dst_row d r) (unat (ds_size d)) (fold (dma_row d) [0..<k] m) = mem_read (src_row d r) (unat (ds_size d)) m)"
  using assms(3)
proof (induction k)
  case 0
  then show ?case by (simp add: assms)
next
  case (Suc k)
  let ?n = "unat (ds_size d)" and ?m = "fold (dma_row d) [0..<k] m"
  have IH: "pages_wf ?m" "\<And>x. (\<forall>r < k. x \<notin> block (dst_row d r) ?n) \<Longrightarrow> byte_at ?m x = byte_at m x"
    "\<And>r. r < k \<Longrightarrow> mem_read (dst_row d r) ?n ?m = mem_read (src_row d r) ?n m" using Suc by simp_all
  note b = dma_row_bytes [OF IH(1), where d = d and r = k]
  have apart: "block (src_row d k) ?n \<inter> block (dst_row d r) ?n = {}" "r \<noteq> k \<Longrightarrow> block (dst_row d r) ?n \<inter> block (dst_row d k) ?n = {}"
    if "r < Suc k" for r using assms(2) Suc.prems that unfolding rows_apart_def by auto
  have 3: "mem_read (dst_row d r) ?n (dma_row d k ?m) = mem_read (src_row d r) ?n m" if r: "r < Suc k" for r
  proof (cases "r = k")
    case True
    have "mem_read (src_row d k) ?n ?m = mem_read (src_row d k) ?n m"
      using apart(1) by (intro mem_read_cong IH assms(1)) (metis disjoint_iff less_SucI)
    then show ?thesis using b(3) True by simp
  next
    case False
    have "mem_read (dst_row d r) ?n (dma_row d k ?m) = mem_read (dst_row d r) ?n ?m"
      using apart(2) [OF r False] by (intro mem_read_cong IH b) blast
    then show ?thesis using IH(3) r False by simp
  qed
  have 2: "byte_at (dma_row d k ?m) x = byte_at m x" if "\<forall>r < Suc k. x \<notin> block (dst_row d r) ?n" for x
    using b(2) [of x] IH(2) [of x] that by simp
  show ?case using b(1) 2 3 by simp
qed

lemma dma_copy_wf: "pages_wf m \<Longrightarrow> pages_wf (dma_copy d m)"
proof -
  have "pages_wf m \<Longrightarrow> pages_wf (fold (dma_row d) ls m)" for ls
    by (induction ls arbitrary: m) (simp_all add: dma_row_bytes(1))
  then show "pages_wf m \<Longrightarrow> pages_wf (dma_copy d m)" by (simp add: dma_copy_def)
qed

section \<open>Busy\<close>

lemma advance_dma [simp]: "dma_busy_until (world_advance_to t w) = dma_busy_until w" "dma_txid (world_advance_to t w) = dma_txid w"
  by (simp_all add: world_advance_to_def Let_def)

lemma contend_dma [simp]: "dma_busy_until (dma_contend d at w) = dma_busy_until w" "dma_txid (dma_contend d at w) = dma_txid w"
  by (simp_all add: dma_contend_def Let_def)

text \<open>
  C21: a DMA of the simulated machine, 1D or 2D, copies at once: when no source row meets a destination row and the
  destination rows do not meet, every destination row reads as its source row did before, every byte outside the destination
  keeps its value, the pages stay well-formed and the new number is the last one plus 1. When the DMA was idle,
  it reads as busy exactly until the first beat and all beats of 64 bytes have passed.
\<close>

theorem dma_submit_copies:
  assumes "pages_wf m" and "rows_apart d" and "world_dma_submit d at (w, m) = (n, (w', m'))"
  shows "(\<forall>r < unat (dma_rows d). mem_read (dst_row d r) (unat (ds_size d)) m' = mem_read (src_row d r) (unat (ds_size d)) m) \<and>
    (\<forall>x. (\<forall>r < unat (dma_rows d). x \<notin> block (dst_row d r) (unat (ds_size d))) \<longrightarrow> byte_at m' x = byte_at m x) \<and>
    pages_wf m' \<and> n = dma_txid w + 1 \<and> dma_txid w' = n \<and>
    (dma_busy_until w \<le> at \<longrightarrow> world_dma_busy t w' =
      (if t < at + dma_first_beat (ds_src_is_l3 d \<or> ds_dst_is_l3 d) + dma_beats d then 1 else 0))"
proof -
  have m': "m' = fold (dma_row d) [0..<unat (dma_rows d)] m" "n = dma_txid w + 1" "dma_txid w' = n"
    "dma_busy_until w' = dma_busy_until (dma_timing d at w)"
    using assms(3) by (auto simp: world_dma_submit_def dma_copy_def dma_timing_def Let_def)
  then have "dma_busy_until w \<le> at \<longrightarrow> world_dma_busy t w' =
      (if t < at + dma_first_beat (ds_src_is_l3 d \<or> ds_dst_is_l3 d) + dma_beats d then 1 else 0)"
    by (simp add: world_dma_busy_def dma_timing_def Let_def)
  then show ?thesis using dma_copy_rows [OF assms(1,2) order_refl] m' by simp
qed

definition example_dma :: dma_desc where
  "example_dma = \<lparr>ds_src = 0x80000000, ds_dst = 0x10000000, ds_size = 4, ds_dst_stride = 8, ds_src_stride = 4, ds_repeat = 2,
     ds_is_2d = True, ds_src_is_l3 = True, ds_dst_is_l3 = False, ds_hart = 1\<rparr>"

lemma dma_submit_copies_witness:
  "mem_read 0x10000008 4 (snd (snd (world_dma_submit example_dma 7 (sim_world0, mem_write 0x80000004 [1, 2, 3, 4] (\<lambda>_. None))))) =
   [1, 2, 3, 4]"
proof -
  let ?m = "mem_write 0x80000004 [1, 2, 3, 4] (\<lambda>_. None)"
  have l: "length [1, 2, 3, 4 :: u8] \<le> 2 ^ 32" by simp
  have m: "pages_wf ?m" by (rule mem_write_bytes(1) [OF pages_wf_empty l])
  have d: "unat (dma_rows example_dma) = 2" "unat (ds_size example_dma) = 4" by (simp_all add: dma_rows_def example_dma_def)
  have rows: "src_row example_dma r = 0x80000000 + word_of_nat r * 4" "dst_row example_dma r = 0x10000000 + word_of_nat r * 8" for r
    by (simp_all add: src_row_def dst_row_def example_dma_def)
  have b: "block a 4 = {a, a + 1, a + 2, a + 3}" for a
    by (simp add: block_def lessThan_nat_numeral lessThan_Suc insert_commute)
  have two: "r < 2 \<longleftrightarrow> r = 0 \<or> r = 1" for r :: nat by auto
  have "rows_apart example_dma"
    unfolding rows_apart_def d rows two by (auto simp: b)
  note c = dma_submit_copies [OF m this, where w = sim_world0 and at = 7, OF surjective_pairing [THEN trans, OF arg_cong2 [where f = Pair, OF refl surjective_pairing]]]
  have "mem_read 0x80000004 4 ?m = [1, 2, 3, 4]" using mem_read_written [OF pages_wf_empty l, of "0x80000004"] by (simp add: eval_nat_numeral)
  moreover have "mem_read 0x10000008 4 (snd (snd (world_dma_submit example_dma 7 (sim_world0, ?m)))) = mem_read 0x80000004 4 ?m"
    using conjunct1 [OF c, THEN spec, of 1] unfolding d rows by simp
  ultimately show ?thesis by simp
qed

section \<open>The accelerator is busy for a bounded time\<close>

lemma cycle_after:
  assumes "running e" "control x = control (next_cycle e)"
  shows "cyc x = cyc e + 1" "running x"
  using assms(2) unfolding control_next [OF assms(1)] by (simp_all add: control_def)

lemma stop_busy: "busy (res (stop x)) = cyc x" "busy (res (p2_finish x)) = cyc x" "busy (res (sample_fifo x)) = busy (res x)"
  by (simp_all add: stop_def p2_finish_def sample_fifo_def Let_def)

lemmas step_defs = step_os_def step_is_def step_simd_def step_p1_def step_p2_def

lemma running_fabric: "running (fst (fabric_cycle posts e)) = running e" "control (fst (fabric_cycle posts e)) = control e"
  using control_fabric [of posts e] by (auto simp: control_def prod_eq_iff)

lemma running_of_control: "control x = control y \<Longrightarrow> running x = running y"
  by (simp add: control_def)

lemma step_stops_os:
  assumes "running e" "\<not> running (step_os e)" "cyc e < cap e"
  shows "busy (res (step_os e)) = cyc e + 1"
proof -
  let ?x = "os_stage ((next_cycle e)\<lparr>e_os := os_land (e_os (next_cycle e))\<rparr>)"
  have x: "cyc ?x = cyc e + 1" "running ?x" by (rule cycle_after [OF assms(1)], simp)+
  then show ?thesis using assms by (auto simp: step_os_def Let_def stop_busy running_fabric case_prod_beta split: if_splits)
qed

lemma step_stops_is:
  assumes "running e" "\<not> running (step_is e)" "cyc e < cap e"
  shows "busy (res (step_is e)) = cyc e + 1"
proof -
  let ?x = "is_stage (next_cycle e)"
  have x: "cyc ?x = cyc e + 1" "running ?x" by (rule cycle_after [OF assms(1)], simp)+
  then show ?thesis using assms by (auto simp: step_is_def Let_def stop_busy running_fabric case_prod_beta split: if_splits)
qed

lemma step_stops_simd:
  assumes "running e" "\<not> running (step_simd e)" "cyc e < cap e"
  shows "busy (res (step_simd e)) = cyc e + 1"
proof -
  let ?x = "sample_fifo ((next_cycle e)\<lparr>e_simd := fold simd_produce [0..<4] (fold simd_consume [0..<14] (e_simd (next_cycle e)))\<rparr>)"
  have x: "cyc ?x = cyc e + 1" "running ?x" by (rule cycle_after [OF assms(1)], simp)+
  then show ?thesis
    using assms by (auto simp: step_simd_def Let_def stop_busy running_fabric case_prod_beta split: if_splits simp del: upt_rec_numeral)
qed

lemma step_stops_p1:
  assumes "running e" "\<not> running (step_p1 e)" "cyc e < cap e"
  shows "busy (res (step_p1 e)) = cyc e + 1"
proof -
  let ?y = "p1_os_stage (p1_land (next_cycle e))"
  let ?x = "p1_is_stage (?y\<lparr>e_p1 := conv_stage (iters ?y) (e_p1 ?y)\<rparr>)"
  have x: "cyc ?x = cyc e + 1" "running ?x" by (rule cycle_after [OF assms(1)], simp)+
  have "running (fst (p1_commit g (fst (fabric_cycle posts ?x), 0)))" for g posts
    using x(2) running_of_control [of "fst (p1_commit g (fst (fabric_cycle posts ?x), 0))" ?x] by (simp add: running_fabric)
  then show ?thesis using x assms by (auto simp: step_p1_def Let_def stop_busy running_fabric case_prod_beta split: if_splits)
qed

lemma step_stops_p2:
  assumes "running e" "\<not> running (step_p2 e)" "cyc e < cap e"
  shows "busy (res (step_p2 e)) = cyc e + 1"
proof -
  let ?y = "p2_land (next_cycle e)"
  let ?s = "suc_released ?y" and ?i = "isc_released ?y"
  let ?x = "mark_ends (p2_compute ?s ?i (mark_starts ?s ?i ?y))"
  have x: "cyc ?x = cyc e + 1" "running ?x" by (rule cycle_after [OF assms(1)], simp)+
  have "running (fst (p2_commit ?s ?i g (fst (fabric_cycle posts ?x), 0)))" for g posts
    using x(2) running_of_control [of "fst (p2_commit ?s ?i g (fst (fabric_cycle posts ?x), 0))" ?x] by (simp add: running_fabric)
  then show ?thesis using x assms by (auto simp: step_p2_def Let_def stop_busy running_fabric case_prod_beta split: if_splits)
qed

lemma step_stops:
  assumes "running e" "\<not> running (engine_step e)" "cyc e \<le> cap e"
  shows "busy (res (engine_step e)) \<le> cap e"
proof (cases "cyc e < cap e")
  case True
  have "busy (res (engine_step e)) = cyc e + 1"
    using assms(1,2) True unfolding engine_step_def
    by (auto simp: step_stops_os step_stops_is step_stops_simd step_stops_p1 step_stops_p2 split: if_splits)
  then show ?thesis using True by (simp add: inc_le)
next
  case False
  then have "engine_step e = stop e" using assms(1) by (simp add: engine_step_def step_defs)
  then show ?thesis using assms(3) by (simp add: stop_busy)
qed

lemma engine_until_stops:
  assumes "running e" "cyc e \<le> cap e" "cap e < t"
  shows "\<not> running (engine_until t e) \<and> busy (res (engine_until t e)) \<le> cap e"
  using assms
proof (induction t e rule: engine_until.induct)
  case (1 t e)
  have t: "cyc e < t" using "1.prems" by simp
  then have u: "engine_until t e = engine_until t (engine_step e)" using "1.prems"(1) by (subst engine_until.simps) simp
  show ?case
  proof (cases "running (engine_step e)")
    case True
    then have "cyc (engine_step e) = cyc e + 1" "cap (engine_step e) = cap e" "cyc e < cap e"
      using engine_step_cycle [of e] by (simp_all add: one_cycle_def control_def)
    then show ?thesis using "1.IH" "1.prems" t True u by (simp add: inc_le)
  next
    case False
    then have "engine_until t (engine_step e) = engine_step e" by (subst engine_until.simps) simp
    then show ?thesis using step_stops [OF "1.prems"(1) False "1.prems"(2)] False u by simp
  qed
qed

lemma configure_cyc: "running (configure ps cfg r10c r11c swc e) \<Longrightarrow> cyc (configure ps cfg r10c r11c swc e) = 0"
  by (simp add: configure_def Let_def configure_p1_def configure_p2_def configure_os_def configure_is_def configure_simd_def start_run_def
      load_shape_def split: if_splits)

text \<open>The world is consistent with its engine during an invocation.\<close>

definition invoked :: "u64 \<Rightarrow> sim_world \<Rightarrow> bool" where
  "invoked at w \<longleftrightarrow> accel_start w = at \<and> (engine_active w \<longleftrightarrow> running (eng w)) \<and> (running (eng w) \<longrightarrow> cyc (eng w) = 0)"

lemma invoked_configure: "accel_start w = at \<Longrightarrow> invoked at (configure_engine swc fires w)"
  by (simp add: invoked_def configure_engine_def Let_def configure_cyc)

lemma invoked_steps:
  "invoked at w \<Longrightarrow> invoked at (ground_tail f w)" "invoked at w \<Longrightarrow> invoked at (await_engine w)" "invoked at w \<Longrightarrow> invoked at (end_invocation w)"
  by (simp_all add: invoked_def ground_tail_def await_engine_def end_invocation_def engine_enqueue_def Let_def)

lemma invoked_ends:
  "invoked at (w\<lparr>t_oscore_done := a, t_suc_done := b, accel_end := c\<rparr>) = invoked at w"
  "invoked at (w\<lparr>t_oscore_done := a, t_suc_start := d, t_suc_done := b, accel_end := c\<rparr>) = invoked at w"
  "invoked at (w\<lparr>accel_end := c, conv_present := k, t_oscore_done := a, t_suc_done := b\<rparr>) = invoked at w"
  by (simp_all add: invoked_def)

lemma invoked_start: "invoked at (run_invocation at w)"
proof -
  have b: "accel_start (begin_invocation at w) = at" by (simp add: begin_invocation_def Let_def)
  note i = invoked_configure [OF b] invoked_steps
  show ?thesis
    using i by (simp add: run_invocation_def invoke_simd_def invoke_p2_def invoke_one_core_def invoke_p1_def Let_def invoked_ends)
qed

lemma snax_start: "v \<noteq> 0 \<Longrightarrow> world_snax_write SNAX_SIMBACORE_START v at w = run_invocation at w"
  by (simp add: world_snax_write_def Let_def cfg_window_def SNAX_SIMBACORE_START_def SNAX_STREAMER_CFG_HI_def
      SNAX_DELAYED_START_R10_def SNAX_DELAYED_START_R11_def SNAX_MODE_def SNAX_SEQ_LEN_def SNAX_D_MODEL_def SNAX_DT_RANK_def
      SNAX_D_INNER_def SNAX_D_FINAL_def)

text \<open>
  C22: polling the accelerator ends: after a write to the start register that put the engine to work, the busy
  register reads 0 from the cycle that lies the engine's cap after the write, in every mode and whatever the streamers do, and
  the cycle counter of a run that is no SIMD pass then holds the run's cycles.
\<close>

theorem busy_poll_ends:
  assumes "v \<noteq> 0" "w = world_snax_write SNAX_SIMBACORE_START v at w0" "engine_active w"
    and "uint at + uint (cap (eng w)) < uint t" "w' = world_advance_to t w"
  shows "fst (world_snax_read SNAX_SIMBACORE_BUSY t w') = (0, True) \<and> \<not> engine_active w' \<and>
    uint (accel_end w') \<le> uint at + uint (cap (eng w)) \<and>
    (\<not> mode_simd (cfg_mode (world_cfg w)) \<longrightarrow> perf w' = ucast (accel_end w' - at))"
proof -
  have "w = run_invocation at w0" using assms(1,2) by (simp add: snax_start)
  then have i: "accel_start w = at" "running (eng w)" "cyc (eng w) = 0"
    using invoked_start [of at w0] assms(3) by (simp_all add: invoked_def)
  have "uint at < uint t" using assms(4) uint_ge_0 [of "cap (eng w)"] by linarith
  then have at: "at < t" "uint (t - at) = uint t - uint at" by (simp_all add: word_less_def uint_sub_lem [THEN iffD1])
  have c: "cap (eng w) < t - at" using assms(4) at(2) by (simp add: word_less_def)
  let ?e = "engine_until (t - at) (eng w)"
  note u = engine_until_stops [OF i(2) _ c]
  have w': "w' = w\<lparr>eng := ?e, engine_active := False, accel_end := at + busy (res ?e),
      perf := (if mode_simd (cfg_mode (world_cfg w)) then 0 else ucast (busy (res ?e)))\<rparr>"
    using u i assms(3) at(1) by (simp add: assms(5) world_advance_to_def Let_def)
  have b: "uint (busy (res ?e)) \<le> uint (cap (eng w))" using u i(3) by (simp add: word_le_def)
  then have "uint (at + busy (res ?e)) = uint at + uint (busy (res ?e))"
    using assms(4) unsigned_less [of t, where 'a = int] by (simp add: uint_add_lem [THEN iffD1])
  then have e: "uint (accel_end w') \<le> uint at + uint (cap (eng w))" using b by (simp add: w')
  then have "\<not> t < accel_end w'" using assms(4) by (simp add: word_less_def)
  then show ?thesis
    using e by (simp add: w' world_snax_read_def world_busy_def SNAX_STREAMER_BUSY_def SNAX_SIMBACORE_BUSY_def Let_def)
qed

definition example_world :: sim_world where
  "example_world = sim_world0\<lparr>world_cfg :=
     \<lparr>cfg_mode = 0x80000, cfg_seqLen = 16, cfg_dModel = 1, cfg_dtRank = 0, cfg_dInner = 24, cfg_dFinal = 1\<rparr>\<rparr>"

lemma example_world_start:
  "engine_active (world_snax_write SNAX_SIMBACORE_START 1 100 example_world)"
  "cap (eng (world_snax_write SNAX_SIMBACORE_START 1 100 example_world)) = 500008"
proof -
  let ?w = "begin_invocation 100 example_world"
  have c: "world_cfg ?w = \<lparr>cfg_mode = 0x80000, cfg_seqLen = 16, cfg_dModel = 1, cfg_dtRank = 0, cfg_dInner = 24, cfg_dFinal = 1\<rparr>"
    by (simp add: begin_invocation_def Let_def example_world_def decode_ports_def)
  have e: "running (configure ps (world_cfg ?w) r10c r11c 0 en)" "cap (configure ps (world_cfg ?w) r10c r11c 0 en) = 500008" for ps r10c r11c en
    by (simp_all add: c configure_def Let_def load_shape_def mode_bit_def configure_is_def start_run_def)
  have m: "world_snax_write SNAX_SIMBACORE_START 1 100 example_world =
      end_invocation (invoke_one_core quarter (isc_dur ?w) 100 ?w)"
    by (simp add: snax_start run_invocation_def Let_def c mode_simd_def mode_bit_def)
  show "engine_active (world_snax_write SNAX_SIMBACORE_START 1 100 example_world)"
    "cap (eng (world_snax_write SNAX_SIMBACORE_START 1 100 example_world)) = 500008"
    by (simp_all add: m invoke_one_core_def configure_engine_def e Let_def ground_tail_def await_engine_def end_invocation_def engine_enqueue_def)
qed

lemma busy_poll_ends_witness:
  "fst (world_snax_read SNAX_SIMBACORE_BUSY 500109 (world_advance_to 500109
     (world_snax_write SNAX_SIMBACORE_START 1 100 example_world))) = (0, True)"
  using busy_poll_ends [of 1 _ 100 example_world 500109, OF _ refl example_world_start(1) _ refl] example_world_start(2) by simp

end
