(* ===== verification/World_wf.thy ===== *)
theory World_wf
  imports World_props Engine_flow Sched
begin

text \<open>
  The simulated world fulfils the contract that the interpreter and the scheduler rely on: its invariant, and that every
  operation keeps it together with the pages of the memory.
\<close>

definition world_good :: "sim_world \<Rightarrow> bool" where
  "world_good w \<longleftrightarrow> length (raw w) = 256 \<and> length (ports w) = N_PORTS \<and> bounded (eng w) \<and> (engine_active w \<longleftrightarrow> running (eng w))"

lemma bounded_until: "bounded e \<Longrightarrow> bounded (engine_until t e)"
proof (induction t e rule: engine_until.induct)
  case (1 t e)
  then show ?case by (subst engine_until.simps) (simp add: bounded_step)
qed

lemma world_good_advance: "world_good w \<Longrightarrow> world_good (world_advance_to t w)"
  by (simp add: world_good_def world_advance_to_def Let_def bounded_until)

lemma bounded_latches: "bounded (e\<lparr>rel_r10 := b\<rparr>) = bounded e" "bounded (e\<lparr>rel_r11 := b\<rparr>) = bounded e"
  "bounded (e\<lparr>rec_fires := b, rec_fifo := c\<rparr>) = bounded e" "bounded (engine_enqueue a n l t e) = bounded e"
  by (simp_all add: bounded_def engine_enqueue_def)

lemma world_good_contend: "world_good w \<Longrightarrow> world_good (dma_contend d at w)"
  using world_good_advance [of _ at]
  by (simp add: dma_contend_def Let_def world_good_def bounded_latches) (simp add: engine_enqueue_def)

text \<open>During an invocation only the engine, the ports and the times change.\<close>

definition wf_but_active :: "sim_world \<Rightarrow> bool" where
  "wf_but_active w \<longleftrightarrow> length (raw w) = 256 \<and> length (ports w) = N_PORTS \<and> bounded (eng w)"

lemma wf_but_active_begin: "wf_but_active w \<Longrightarrow> wf_but_active (begin_invocation at w)"
  by (simp add: wf_but_active_def begin_invocation_def decode_ports_def Let_def)

lemma wf_but_active_configure: "wf_but_active w \<Longrightarrow> wf_but_active (configure_engine swc fires w)"
  by (simp add: wf_but_active_def configure_engine_def Let_def bounded_latches bounded_configure)

lemma wf_but_active_steps:
  "wf_but_active w \<Longrightarrow> wf_but_active (ground_tail f w)" "wf_but_active w \<Longrightarrow> wf_but_active (await_engine w)"
  "wf_but_active w \<Longrightarrow> wf_but_active (end_invocation w)"
  by (simp_all add: wf_but_active_def ground_tail_def await_engine_def end_invocation_def bounded_latches Let_def)

lemma wf_but_active_ends:
  "wf_but_active (w\<lparr>t_oscore_done := a, t_suc_done := b, accel_end := c\<rparr>) = wf_but_active w"
  "wf_but_active (w\<lparr>t_oscore_done := a, t_suc_start := d, t_suc_done := b, accel_end := c\<rparr>) = wf_but_active w"
  "wf_but_active (w\<lparr>accel_end := c, conv_present := k, t_oscore_done := a, t_suc_done := b\<rparr>) = wf_but_active w"
  by (simp_all add: wf_but_active_def)

lemma world_good_run: "world_good w \<Longrightarrow> world_good (run_invocation at w)"
proof -
  assume "world_good w"
  then have b: "wf_but_active (begin_invocation at w)" using wf_but_active_begin by (simp add: world_good_def wf_but_active_def)
  note i = wf_but_active_configure [OF b] wf_but_active_steps
  have "wf_but_active (run_invocation at w)"
    using i by (simp add: run_invocation_def invoke_simd_def invoke_p2_def invoke_one_core_def invoke_p1_def Let_def wf_but_active_ends)
  with invoked_start [of at w] show ?thesis by (simp add: world_good_def wf_but_active_def invoked_def)
qed

lemma world_good_write: "world_good w \<Longrightarrow> world_good (world_snax_write c v at w)"
  using world_good_run [of w at] world_good_advance [of w at]
  by (simp add: world_snax_write_def Let_def) (simp add: world_good_def bounded_latches)

lemma world_good_read: "world_snax_read c at w = (r, w') \<Longrightarrow> world_good w \<Longrightarrow> world_good w'"
proof -
  have "world_good w \<Longrightarrow> world_good (snd (world_snax_read c at w))"
    by (simp add: world_snax_read_def Let_def) (simp add: world_good_def)
  then show "world_snax_read c at w = (r, w') \<Longrightarrow> world_good w \<Longrightarrow> world_good w'" by simp
qed

lemma world_good_submit:
  assumes "world_good w" "pages_wf m" "world_dma_submit d at (w, m) = (n, (w', m'))"
  shows "world_good w' \<and> pages_wf m'"
  using assms world_good_contend [of "dma_timing d at w" d at] dma_copy_wf [of m d]
  by (auto simp: world_dma_submit_def Let_def world_good_def dma_timing_def)

text \<open>The checks after an invocation change the verdict and the memory of the result.\<close>

lemma world_good_checks:
  "world_good (verify_s2s w) = world_good w" "world_good (verify_bist w) = world_good w"
  "world_good (fst (verify_gemm g (w, p))) = world_good w"
  by (simp add: verify_s2s_def Let_def case_prod_beta, simp add: world_good_def)
    (simp_all add: verify_bist_def verify_gemm_def world_good_def Let_def case_prod_beta)

lemma env_ok_datapath: "env_ok world_good (w, p) \<Longrightarrow> env_ok world_good (verify_datapath (w, p))"
  using gemm_round_trip_vacuous(2) [of p "os_shape w"]
  by (simp add: verify_datapath_def env_ok_def case_prod_beta Let_def world_good_checks) (simp add: verify_gemm_def case_prod_beta)

lemma env_ok_verify: "env_ok world_good e \<Longrightarrow> env_ok world_good (verify_invocation e)"
proof -
  assume e: "env_ok world_good e"
  have "env_ok world_good ((verify_layout (fst e))\<lparr>verify_ran := b\<rparr>, snd e)" for b
    using e by (simp add: env_ok_def world_good_def verify_layout_def Let_def)
  moreover have "env_ok world_good (verify_layout (fst e), snd e)"
    using e by (simp add: env_ok_def world_good_def verify_layout_def Let_def)
  ultimately show ?thesis using e env_ok_datapath by (simp add: verify_invocation_def case_prod_beta Let_def)
qed

lemma env_ok_write: "env_ok world_good e \<Longrightarrow> env_ok world_good (env_snax_write c v at e)"
proof -
  assume "env_ok world_good e"
  then have "env_ok world_good (world_snax_write c v at (fst e), snd e)" by (simp add: env_ok_def world_good_write)
  with env_ok_verify [OF this] show ?thesis by (auto simp: env_snax_write_def case_prod_beta Let_def)
qed

interpretation simulated: world_laws sim_world_ops world_good
proof unfold_locales
  show "env_ok world_good e \<Longrightarrow> env_ok world_good (snd (dma_submit sim_world_ops d t e))" for e d t
    using world_good_submit [of "fst e" "snd e" d t] by (cases "world_dma_submit d t e") (auto simp: env_ok_def sim_world_ops_def)
  show "env_ok world_good e \<Longrightarrow> env_ok world_good (snax_write sim_world_ops c v t e)" for e c v t
    using env_ok_write by (simp add: sim_world_ops_def)
qed (auto simp: env_ok_def sim_world_ops_def world_good_advance split: prod.splits dest: world_good_read)

lemma world_good_start: "world_good sim_world0"
  by (simp add: world_good_def sim_world0_def Let_def bounded_engine0) (simp add: engine0_def)

end
