(* ===== verification/Elf.thy ===== *)
theory Elf
  imports Sim_mem "HOL-Library.Monad_Syntax"
begin

text \<open>
  The program loader of memsim (target/snitch_cluster/sim/src/elf.hpp): headers, loadable segments and symbols of a 32-bit
  little-endian ELF file, given as its bytes. The code checks nothing beyond the first 52 bytes; a read outside of the file,
  undefined in C++, makes the model's result \<open>None\<close>, as does a symbol loop that never ends.
\<close>

section \<open>Reading the file\<close>

definition elf_bytes :: "u8 list \<Rightarrow> nat \<Rightarrow> nat \<Rightarrow> u8 list option" where
  "elf_bytes e off n = (if off + n \<le> length e then Some (take n (drop off e)) else None)"

definition rd16 :: "u8 list \<Rightarrow> nat \<Rightarrow> u16 option" where
  "rd16 e off = map_option le_word (elf_bytes e off 2)"

definition rd32 :: "u8 list \<Rightarrow> nat \<Rightarrow> u32 option" where
  "rd32 e off = map_option le_word (elf_bytes e off 4)"

text \<open>A string up to its zero byte.\<close>

definition elf_string :: "u8 list \<Rightarrow> nat \<Rightarrow> u8 list option" where
  "elf_string e off = (if 0 \<in> set (drop off e) then Some (takeWhile (\<lambda>b. b \<noteq> 0) (drop off e)) else None)"

section \<open>The image\<close>

datatype elf_error = Not_an_elf | Not_elf32 | Not_little_endian

record elf_image =
  entry :: u32
  symbols :: "u8 list \<Rightarrow> u32 option"

definition elf_sym :: "elf_image \<Rightarrow> u8 list \<Rightarrow> u32 \<Rightarrow> u32" where
  "elf_sym img name fallback = (case symbols img name of Some v \<Rightarrow> v | None \<Rightarrow> fallback)"

section \<open>Segments\<close>

text \<open>The offset of a table's entry; the product is a 32-bit product.\<close>

definition table_entry :: "u32 \<Rightarrow> u16 \<Rightarrow> u32 \<Rightarrow> nat" where
  "table_entry off entsize i = unat off + unat (i * ucast entsize)"

definition load_segment :: "u8 list \<Rightarrow> nat \<Rightarrow> pages \<Rightarrow> pages option" where
  "load_segment e ph m = do {
     p_type \<leftarrow> rd32 e ph;
     if p_type \<noteq> 1 then Some m
     else do {
       p_offset \<leftarrow> rd32 e (ph + 4);
       p_vaddr \<leftarrow> rd32 e (ph + 8);
       p_filesz \<leftarrow> rd32 e (ph + 16);
       p_memsz \<leftarrow> rd32 e (ph + 20);
       if p_filesz \<noteq> 0
       then map_option (\<lambda>bs. mem_write p_vaddr bs m) (elf_bytes e (unat p_offset) (unat p_filesz))
       else Some m
     }
   }"

fun load_segments :: "u8 list \<Rightarrow> u32 \<Rightarrow> u16 \<Rightarrow> nat list \<Rightarrow> pages \<Rightarrow> pages option" where
  "load_segments e phoff phentsize [] m = Some m"
| "load_segments e phoff phentsize (i # is) m =
     Option.bind (load_segment e (table_entry phoff phentsize (word_of_nat i)) m) (load_segments e phoff phentsize is)"

section \<open>Symbols\<close>

definition add_symbol :: "u8 list \<Rightarrow> u32 \<Rightarrow> u32 \<Rightarrow> u32 \<Rightarrow> (u8 list \<Rightarrow> u32 option) \<Rightarrow> (u8 list \<Rightarrow> u32 option) option" where
  "add_symbol e sh_offset str_off off syms = do {
     st_name \<leftarrow> rd32 e (unat sh_offset + unat off);
     st_value \<leftarrow> rd32 e (unat sh_offset + unat off + 4);
     nm \<leftarrow> elf_string e (unat str_off + unat st_name);
     Some (if nm \<noteq> [] then syms(nm \<mapsto> st_value) else syms)
   }"

partial_function (option) symbol_loop ::
  "u8 list \<Rightarrow> u32 \<Rightarrow> u32 \<Rightarrow> u32 \<Rightarrow> u32 \<Rightarrow> u32 \<Rightarrow> (u8 list \<Rightarrow> u32 option) \<Rightarrow> (u8 list \<Rightarrow> u32 option) option" where
  "symbol_loop e sh_offset sh_size entsize str_off off syms =
     (if off + entsize \<le> sh_size
      then (case add_symbol e sh_offset str_off off syms of
          None \<Rightarrow> None
        | Some syms' \<Rightarrow> symbol_loop e sh_offset sh_size entsize str_off (off + entsize) syms')
      else Some syms)"

declare symbol_loop.simps [code]

definition load_section :: "u8 list \<Rightarrow> u32 \<Rightarrow> u16 \<Rightarrow> nat \<Rightarrow> (u8 list \<Rightarrow> u32 option) \<Rightarrow> (u8 list \<Rightarrow> u32 option) option" where
  "load_section e shoff shentsize i syms =
     (let sh = table_entry shoff shentsize (word_of_nat i) in do {
       sh_type \<leftarrow> rd32 e (sh + 4);
       if sh_type \<noteq> 2 then Some syms
       else do {
         sh_offset \<leftarrow> rd32 e (sh + 16);
         sh_size \<leftarrow> rd32 e (sh + 20);
         sh_link \<leftarrow> rd32 e (sh + 24);
         sh_entsize \<leftarrow> rd32 e (sh + 36);
         str_off \<leftarrow> rd32 e (table_entry shoff shentsize sh_link + 16);
         symbol_loop e sh_offset sh_size (if sh_entsize = 0 then 16 else sh_entsize) str_off 0 syms
       }
     })"

fun load_sections :: "u8 list \<Rightarrow> u32 \<Rightarrow> u16 \<Rightarrow> nat list \<Rightarrow> (u8 list \<Rightarrow> u32 option) \<Rightarrow> (u8 list \<Rightarrow> u32 option) option" where
  "load_sections e shoff shentsize [] syms = Some syms"
| "load_sections e shoff shentsize (i # is) syms =
     Option.bind (load_section e shoff shentsize i syms) (load_sections e shoff shentsize is)"

section \<open>The loader\<close>

definition load_elf :: "u8 list \<Rightarrow> pages \<Rightarrow> (elf_error + elf_image \<times> pages) option" where
  "load_elf e m =
     (if length e < 52 \<or> take 4 e \<noteq> [0x7f, 0x45, 0x4c, 0x46] then Some (Inl Not_an_elf)
      else if e ! 4 \<noteq> 1 then Some (Inl Not_elf32)
      else if e ! 5 \<noteq> 1 then Some (Inl Not_little_endian)
      else do {
        ent \<leftarrow> rd32 e 24;
        phoff \<leftarrow> rd32 e 28;
        shoff \<leftarrow> rd32 e 32;
        phentsize \<leftarrow> rd16 e 42;
        phnum \<leftarrow> rd16 e 44;
        shentsize \<leftarrow> rd16 e 46;
        shnum \<leftarrow> rd16 e 48;
        m' \<leftarrow> load_segments e phoff phentsize [0..<unat phnum] m;
        syms \<leftarrow> load_sections e shoff shentsize [0..<unat shnum] (\<lambda>_. None);
        Some (Inr (\<lparr>entry = ent, symbols = syms\<rparr>, m'))
      })"

section \<open>Memory\<close>

lemma length_elf_bytes: "elf_bytes e off n = Some bs \<Longrightarrow> length bs = n"
  by (auto simp: elf_bytes_def split: if_splits)

text \<open>What the headers say about memory: the loadable segments with their addresses and bytes.\<close>

definition segment_of :: "u8 list \<Rightarrow> nat \<Rightarrow> (u32 \<times> u8 list) option" where
  "segment_of e ph =
     (case (rd32 e ph, rd32 e (ph + 4), rd32 e (ph + 8), rd32 e (ph + 16)) of
        (Some t, Some off, Some a, Some n) \<Rightarrow> if t = 1 then map_option (Pair a) (elf_bytes e (unat off) (unat n)) else None
      | _ \<Rightarrow> None)"

definition elf_segments :: "u8 list \<Rightarrow> (u32 \<times> u8 list) list" where
  "elf_segments e = (case (rd32 e 28, rd16 e 42, rd16 e 44) of
       (Some phoff, Some entsize, Some n) \<Rightarrow> List.map_filter (\<lambda>i. segment_of e (table_entry phoff entsize (word_of_nat i))) [0..<unat n]
     | _ \<Rightarrow> [])"

lemma load_segment_eq: "load_segment e ph m = Some m' \<Longrightarrow> m' = (case segment_of e ph of None \<Rightarrow> m | Some (a, bs) \<Rightarrow> mem_write a bs m)"
  by (auto simp: load_segment_def segment_of_def elf_bytes_def mem_write.simps split: bind_splits if_splits option.splits)

lemma load_segments_eq:
  "load_segments e off n is m = Some m' \<Longrightarrow> m' = write_all (List.map_filter (\<lambda>i. segment_of e (table_entry off n (word_of_nat i))) is) m"
proof (induction e off n "is" m rule: load_segments.induct)
  case (2 e off n i "is" m)
  then obtain m1 where m1: "load_segment e (table_entry off n (word_of_nat i)) m = Some m1" "load_segments e off n is m1 = Some m'"
    by (auto split: bind_splits)
  show ?case using "2.IH" [OF m1] load_segment_eq [OF m1(1)]
    by (auto simp: map_filter_simps write_all_def split: option.splits)
qed (simp add: map_filter_simps write_all_def)

lemma segment_size: "segment_of e ph = Some (a, bs) \<Longrightarrow> length bs \<le> 2 ^ 32"
  by (auto simp: segment_of_def intro: less_imp_le [OF unat_u32_bound] dest!: length_elf_bytes split: option.splits if_splits)

lemma elf_segments_from: "w \<in> set (elf_segments e) \<Longrightarrow> \<exists>ph. segment_of e ph = Some w"
  by (auto simp: elf_segments_def map_filter_def split: option.splits)

lemma elf_segments_size: "\<forall>w \<in> set (elf_segments e). length (snd w) \<le> 2 ^ 32"
  using segment_size elf_segments_from by (metis prod.collapse)

lemma load_elf_memory:
  assumes "load_elf e m = Some (Inr (img, m'))"
  shows "rd32 e 24 = Some (entry img)" "m' = write_all (elf_segments e) m"
  using assms by (auto simp: load_elf_def elf_segments_def dest: load_segments_eq split: bind_splits if_splits)

lemma load_elf_wf: "load_elf e m = Some (Inr (img, m')) \<Longrightarrow> pages_wf m \<Longrightarrow> pages_wf m'"
proof -
  have "pages_wf (write_all ws m)" if "\<forall>w \<in> set ws. length (snd w) \<le> 2 ^ 32" "pages_wf m" for ws
    using that by (induction ws arbitrary: m) (auto simp: write_all_def mem_write_bytes)
  then show "load_elf e m = Some (Inr (img, m')) \<Longrightarrow> pages_wf m \<Longrightarrow> pages_wf m'"
    using load_elf_memory(2) elf_segments_size by metis
qed

text \<open>
  C35: the loader puts the program into memory: when the file loads and its loadable segments do not meet in memory, every
  segment can be read back at its address, every other byte keeps its value (so the zero-initialised rest of a segment is
  zero in a fresh memory), the pages are well-formed, and the entry point is the one of the header.
\<close>

theorem elf_segments_loaded:
  assumes "load_elf e m = Some (Inr (img, m'))" and "pages_wf m" and "sorted_wrt apart (elf_segments e)"
  shows "rd32 e 24 = Some (entry img) \<and> pages_wf m' \<and> (\<forall>(a, bs) \<in> set (elf_segments e). mem_read a (length bs) m' = bs) \<and>
    (\<forall>x. (\<forall>(a, bs) \<in> set (elf_segments e). x \<notin> block a (length bs)) \<longrightarrow> byte_at m' x = byte_at m x)"
  using write_all_apart [OF assms(2) elf_segments_size assms(3)] load_elf_memory [OF assms(1)] by (simp add: case_prod_beta)

text \<open>A file without sections and with one segment, two instructions at the address \<open>0x80000000\<close> that store 1 at the null address.\<close>

definition tiny_program :: "u8 list" where
  "tiny_program = [0x93, 0x00, 0x10, 0x00, 0x23, 0x20, 0x10, 0x00]"

definition tiny_elf :: "u8 list" where
  "tiny_elf = [0x7f, 0x45, 0x4c, 0x46, 1, 1, 1, 0] @ replicate 16 0 @ [0, 0, 0, 0x80, 52, 0, 0, 0, 0, 0, 0, 0] @ replicate 6 0 @
     [32, 0, 1, 0, 40, 0, 0, 0, 0, 0] @ [1, 0, 0, 0, 84, 0, 0, 0, 0, 0, 0, 0x80, 0, 0, 0, 0, 8, 0, 0, 0, 12, 0, 0, 0] @ replicate 8 0 @
     tiny_program"

lemma tiny_elf_segments: "elf_segments tiny_elf = [(0x80000000, tiny_program)]"
  by code_simp

lemma tiny_elf_loads: "\<exists>m. load_elf tiny_elf (\<lambda>_. None) = Some (Inr (\<lparr>entry = 0x80000000, symbols = \<lambda>_. None\<rparr>, m))"
proof -
  have h: "length tiny_elf = 92" "take 4 tiny_elf = [0x7f, 0x45, 0x4c, 0x46]" "tiny_elf ! 4 = 1" "tiny_elf ! 5 = 1"
    "rd32 tiny_elf 24 = Some 0x80000000" "rd32 tiny_elf 28 = Some 52" "rd32 tiny_elf 32 = Some 0" "rd16 tiny_elf 42 = Some 32"
    "rd16 tiny_elf 44 = Some 1" "rd16 tiny_elf 46 = Some 40" "rd16 tiny_elf 48 = Some 0" by code_simp+
  have s: "rd32 tiny_elf 52 = Some 1" "rd32 tiny_elf 56 = Some 84" "rd32 tiny_elf 60 = Some 0x80000000" "rd32 tiny_elf 68 = Some 8"
    "rd32 tiny_elf 72 = Some 12" "elf_bytes tiny_elf 84 8 = Some tiny_program" by code_simp+
  show ?thesis by (simp add: load_elf_def h load_segment_def table_entry_def s)
qed

theorem elf_segments_loaded_witness:
  "\<exists>img m. load_elf tiny_elf (\<lambda>_. None) = Some (Inr (img, m)) \<and> entry img = 0x80000000 \<and>
     mem_read 0x80000000 8 m = tiny_program \<and> byte_at m 0x80000008 = 0"
proof -
  obtain img m where l: "load_elf tiny_elf (\<lambda>_. None) = Some (Inr (img, m))" using tiny_elf_loads by blast
  have e: "rd32 tiny_elf 24 = Some 0x80000000" by code_simp
  have n: "length tiny_program = 8" by (simp add: tiny_program_def)
  have z: "byte_at (\<lambda>_. None) x = 0" for x by (simp add: byte_at_def)
  have b: "0x80000008 \<notin> block 0x80000000 8" by (simp add: block_iff)
  note h = elf_segments_loaded [OF l pages_wf_empty, unfolded tiny_elf_segments e]
  from h have "entry img = 0x80000000" "mem_read 0x80000000 8 m = tiny_program" "byte_at m 0x80000008 = 0"
    using b by (simp_all only: n z list.set case_prod_conv ball_simps sorted_wrt1 option.inject) (simp_all add: z)
  with l show ?thesis by blast
qed

end
