(* ===== verification/Memsim.thy ===== *)
theory Memsim
  imports World_wf Elf
begin

text \<open>
  The program memsim (target/snitch_cluster/sim/src/main.cpp): its command line, the two harts and the world it starts from
  an ELF file, the run and the verdict. Messages and the files it writes are left out.
\<close>

section \<open>The command line\<close>

record options =
  elf_path :: "string option"
  timeline_path :: string
  quiet :: bool
  check_layout :: bool

definition options0 :: options where
  "options0 = \<lparr>elf_path = None, timeline_path = [], quiet = False, check_layout = True\<rparr>"

fun parse_args :: "string list \<Rightarrow> options \<Rightarrow> options" where
  "parse_args [] o1 = o1"
| "parse_args (a # as) o1 =
     (if a = ''--quiet'' then parse_args as (o1\<lparr>quiet := True\<rparr>)
      else if a = ''--params'' \<and> as \<noteq> [] then parse_args (tl as) o1
      else if a = ''--verify'' then parse_args as o1
      else if a = ''--timing-only'' then parse_args as (o1\<lparr>check_layout := False\<rparr>)
      else if a = ''--timeline'' \<and> as \<noteq> [] then parse_args (tl as) (o1\<lparr>timeline_path := hd as\<rparr>)
      else if a = [] \<or> hd a \<noteq> CHR ''-'' then parse_args as (o1\<lparr>elf_path := Some a\<rparr>)
      else parse_args as o1)"

section \<open>The start\<close>

definition c_name :: "string \<Rightarrow> u8 list" where
  "c_name s = map of_char s"

text \<open>The value of a global variable of the program, 0 if it has none.\<close>

definition symval :: "elf_image \<Rightarrow> pages \<Rightarrow> string \<Rightarrow> u32" where
  "symval img m n = (let a = elf_sym img (c_name n) 0 in if a \<noteq> 0 then ld32 a m else 0)"

definition boot_world :: "options \<Rightarrow> elf_image \<Rightarrow> pages \<Rightarrow> sim_world" where
  "boot_world opts img m = sim_world0\<lparr>verify := check_layout opts, trace_on := (timeline_path opts \<noteq> []),
     dtRankUnroll := symval img m ''dtRankUnroll'', r10_start_cnt := symval img m ''M2_R10_start_cnt'',
     r11_start_cnt := symval img m ''M2_R11_start_cnt''\<rparr>"

definition boot_hart :: "u32 \<Rightarrow> nat \<Rightarrow> sim_hart" where
  "boot_hart start i = \<lparr>hid = i, xr = (\<lambda>_. 0), fr = (\<lambda>_. 0), pc = start, cycle = 0, hstate = Run, hcsr = (\<lambda>_. None),
     poll_spins = 0, last_backjump_pc = 0xffffffff, pend_reg = 0, pend_ready = 0\<rparr>"

definition boot :: "options \<Rightarrow> elf_image \<Rightarrow> pages \<Rightarrow> sim_world sched" where
  "boot opts img m = \<lparr>mach = \<lparr>env = (boot_world opts img m, m), harts = map (boot_hart (entry img)) [0..<2],
       tohost = elf_sym img (c_name ''tohost'') 0, fromhost = elf_sym img (c_name ''fromhost'') 0,
       exited = False, exit_code = 0, cluster_base_l = 0x10000000, cluster_base_h = 0, core_num = 2\<rparr>,
     dma_regs = replicate 2 \<lparr>sg_src = 0, sg_dst = 0, sg_dst_stride = 0, sg_src_stride = 0, sg_repeat = 1\<rparr>,
     deadlocked = False, steps = 0\<rparr>"

section \<open>The program\<close>

definition max_insns :: u64 where
  "max_insns = 2000000000"

text \<open>The verdict is the one of the checks; the exit code of the simulated program has no part in it.\<close>

definition verdict :: "options \<Rightarrow> sim_world sched \<Rightarrow> int" where
  "verdict opts s =
     (if \<not> exited (mach s) then 1
      else if (if check_layout opts then layout_ok (fst (env (mach s))) else True) then 0 else 1)"

text \<open>
  The exit status; \<open>None\<close> when the program does not return or reads outside of the file. The files are a parameter;
  an illegal instruction ends the process with status 2.
\<close>

definition memsim :: "(string \<Rightarrow> u8 list option) \<Rightarrow> string list \<Rightarrow> int option" where
  "memsim files args =
     (let opts = parse_args args options0 in
      case elf_path opts of
        None \<Rightarrow> Some 64
      | Some path \<Rightarrow> (case files path of
            None \<Rightarrow> Some 65
          | Some e \<Rightarrow> (case load_elf e (\<lambda>_. None) of
                None \<Rightarrow> None
              | Some (Inl err) \<Rightarrow> Some 65
              | Some (Inr (img, m)) \<Rightarrow> (case sched_run sim_world_ops max_insns (boot opts img m) of
                    None \<Rightarrow> None
                  | Some None \<Rightarrow> Some 2
                  | Some (Some s) \<Rightarrow> Some (verdict opts s)))))"

section \<open>Every state of a run\<close>

lemma two_ranks: "[0..<2] = [0, Suc 0]"
  by (simp add: upt_rec numeral_2_eq_2)

lemma boot_fields [simp]:
  "exited (mach (boot opts img m)) = False" "steps (boot opts img m) = 0" "env (mach (boot opts img m)) = (boot_world opts img m, m)"
  "harts (mach (boot opts img m)) = [boot_hart (entry img) 0, boot_hart (entry img) 1]"
  "tohost (mach (boot opts img m)) = elf_sym img (c_name ''tohost'') 0" "length (dma_regs (boot opts img m)) = 2"
  by (simp_all add: boot_def two_ranks)

lemma boot_hart_fields [simp]:
  "hid (boot_hart e i) = i" "pc (boot_hart e i) = e" "cycle (boot_hart e i) = 0" "hstate (boot_hart e i) = Run"
  "xr (boot_hart e i) = (\<lambda>_. 0)" "pend_reg (boot_hart e i) = 0"
  by (simp_all add: boot_hart_def)

lemma boot_world_good: "world_good (boot_world opts img m)"
  using world_good_start by (simp add: boot_world_def world_good_def)

lemma boot_ok: "sched_ok (boot opts img m)" "pages_wf m \<Longrightarrow> machine_ok world_good (mach (boot opts img m))"
  by (simp_all add: sched_ok_def machine_ok_def env_ok_def hart_ok_def boot_world_good)


section \<open>The shortest program\<close>

lemma stepped_fields:
  "env (mach (stepped i m' h' d s)) = env m'" "harts (mach (stepped i m' h' d s)) = (harts m')[i := h']"
  "steps (stepped i m' h' d s) = steps s + 1" "tohost (mach (stepped i m' h' d s)) = tohost m'"
  "exited (mach (stepped i m' h' d s)) = exited m'" "length (dma_regs (stepped i m' h' d s)) = length (dma_regs s)"
  by (simp_all add: stepped_def)

lemma interp_step_addi:
  assumes "ld32 (pc h) (memory m) = encode (OPI Addi r r1 imm)" "pend_reg h = 0"
  shows "interp_step W m h dma = Some (m, (hset (ucast r) (xr h (ucast r1) + scast imm) (h\<lparr>cycle := cycle h + 1\<rparr>))\<lparr>pc := pc h + 4\<rparr>, dma, Normal)"
proof -
  let ?i = "encode (OPI Addi r r1 imm)"
  have c: "charge_stall ?i (h\<lparr>cycle := cycle h + 1\<rparr>) = h\<lparr>cycle := cycle h + 1\<rparr>" using assms(2) by (simp add: charge_stall_def)
  have "execute W ?i (xr h (f_rs1 ?i)) (xr h (f_rs2 ?i)) (m, h\<lparr>cycle := cycle h + 1\<rparr>, dma, pc h + 4, Normal) =
      Some (m, hset (ucast r) (xr h (ucast r1) + scast imm) (h\<lparr>cycle := cycle h + 1\<rparr>), dma, pc h + 4, Normal)"
    by (simp add: execute_def exec_op_imm_def op_imm_def)
  from interp_step_executes [OF assms(1), where W = W and dma = dma] this c show ?thesis by simp
qed


text \<open>Both harts run the first instruction, hart 0 first; then it is the turn of hart 0 again.\<close>

lemma boot_first_turns:
  assumes "ld32 (entry img) m = encode (OPI Addi r 0 imm)" and "r \<noteq> 0"
  obtains s where "sched_run sim_world_ops max_insns (boot opts img m) = sched_run sim_world_ops max_insns s"
    "sched_ok s" "\<not> exited (mach s)" "steps s < max_insns" "choose_hart s = Some 0" "env (mach s) = (boot_world opts img m, m)"
    "tohost (mach s) = elf_sym img (c_name ''tohost'') 0" "pc (the_hart s 0) = entry img + 4"
    "xr (the_hart s 0) = (\<lambda>_. 0)(ucast r := scast imm)"
proof -
  let ?b = "boot opts img m"
  let ?h = "\<lambda>i. (boot_hart (entry img) i)\<lparr>xr := (\<lambda>_. 0)(ucast r := scast imm), cycle := 1, pc := entry img + 4\<rparr>"
  have r: "(ucast r :: u32) \<noteq> 0" using assms(2) by simp
  have i: "interp_step sim_world_ops (mach s) (boot_hart (entry img) k) d = Some (mach s, ?h k, d, Normal)"
    if "env (mach s) = (boot_world opts img m, m)" for s k d
    using interp_step_addi [of "boot_hart (entry img) k" "mach s" r 0 imm sim_world_ops d] assms(1) that r by (simp add: hset_def)
  define s1 where "s1 = stepped 0 (mach ?b) (?h 0) (dma_regs ?b ! 0) ?b"
  define s2 where "s2 = stepped 1 (mach s1) (?h 1) (dma_regs s1 ! 1) s1"
  have e: "env (mach s1) = (boot_world opts img m, m)" "harts (mach s1) = [?h 0, boot_hart (entry img) 1]" "steps s1 = 1"
    "tohost (mach s1) = elf_sym img (c_name ''tohost'') 0" "\<not> exited (mach s1)" "length (dma_regs s1) = 2"
    by (simp_all add: s1_def stepped_fields)
  have f: "env (mach s2) = (boot_world opts img m, m)" "harts (mach s2) = [?h 0, ?h 1]" "steps s2 = 2"
    "tohost (mach s2) = elf_sym img (c_name ''tohost'') 0" "\<not> exited (mach s2)" "length (dma_regs s2) = 2"
    using e by (simp_all add: s2_def stepped_fields)
  have "choose_hart ?b = Some 0" by (simp add: choose_hart_def Let_def runnable_def)
  then have 1: "sched_turn sim_world_ops ?b = Continue s1"
    using i [of ?b 0] by (simp add: sched_turn_def run_hart_def Let_def s1_def stepped_def after_step_def)
  have "choose_hart s1 = Some 1" using e(2) by (simp add: choose_hart_def Let_def runnable_def)
  then have 2: "sched_turn sim_world_ops s1 = Continue s2"
    using i [OF e(1), of 1] e(2) by (simp add: sched_turn_def run_hart_def Let_def s2_def stepped_def after_step_def)
  have "choose_hart s2 = Some 0" using f(2) by (simp add: choose_hart_def Let_def runnable_def)
  moreover have "sched_run sim_world_ops max_insns ?b = sched_run sim_world_ops max_insns s1"
    using 1 by (subst sched_run.simps) (simp add: max_insns_def)
  moreover have "sched_run sim_world_ops max_insns s1 = sched_run sim_world_ops max_insns s2"
    using 2 e(3,5) by (subst sched_run.simps) (simp add: max_insns_def)
  moreover have "sched_ok s2" using f(2,6) by (simp add: sched_ok_def)
  ultimately show ?thesis using f by (intro that [of s2]) (simp_all add: max_insns_def)
qed

text \<open>
  C39: a program without a \<open>tohost\<close> symbol can end the simulation: main warns that its exit is undetectable, but the address
  of a missing symbol is 0, so a store of an odd value to the null address is the exit. A program that puts an odd number into
  a register and stores it there, with a store of any width, is reported as a success with status 0.
\<close>

theorem null_store_exits:
  assumes "elf_path (parse_args args options0) = Some path" and "files path = Some e"
    and "load_elf e (\<lambda>_. None) = Some (Inr (img, m))" and "symbols img (c_name ''tohost'') = None"
    and "ld32 (entry img) m = encode (OPI Addi r 0 imm)" and "r \<noteq> 0" and "(scast imm :: u32) AND 1 \<noteq> 0"
    and "ld32 (entry img + 4) m = encode (STORE w 0 r 0)"
  shows "memsim files args = Some 0"
proof -
  let ?o = "parse_args args options0"
  obtain s where s: "sched_run sim_world_ops max_insns (boot ?o img m) = sched_run sim_world_ops max_insns s"
    "sched_ok s" "\<not> exited (mach s)" "steps s < max_insns" "choose_hart s = Some 0" "env (mach s) = (boot_world ?o img m, m)"
    "tohost (mach s) = elf_sym img (c_name ''tohost'') 0" "pc (the_hart s 0) = entry img + 4"
    "xr (the_hart s 0) = (\<lambda>_. 0)(ucast r := scast imm)"
    by (rule boot_first_turns [OF assms(5,6), of ?o])
  have r: "(ucast r :: u32) \<noteq> 0" using assms(6) by simp
  have t: "tohost (mach s) = 0" using s(7) assms(4) by (simp add: elf_sym_def)
  obtain s' where "sched_run sim_world_ops max_insns s = Some (Some s')" "exited (mach s')" "fst (env (mach s')) = fst (env (mach s))"
    using sched_exit [OF s(2-5), of w 0 r 0 sim_world_ops] assms(7,8) s(6,8,9) t r by auto
  moreover have "layout_ok (boot_world ?o img m)" by (simp add: layout_ok_def boot_world_def sim_world0_def Let_def)
  ultimately show ?thesis using assms(1-3) s(1,6) by (simp add: memsim_def Let_def verdict_def)
qed

lemma tiny_elf_image:
  obtains m where "load_elf tiny_elf (\<lambda>_. None) = Some (Inr (\<lparr>entry = 0x80000000, symbols = \<lambda>_. None\<rparr>, m))"
    "ld32 0x80000000 m = encode (OPI Addi 1 0 1)" "ld32 0x80000004 m = encode (STORE Sw 0 1 0)"
proof -
  obtain m where l: "load_elf tiny_elf (\<lambda>_. None) = Some (Inr (\<lparr>entry = 0x80000000, symbols = \<lambda>_. None\<rparr>, m))"
    using tiny_elf_loads by blast
  have four: "[0..<4] = [0, 1, 2, 3]" by code_simp
  have p: "pages_wf m" using load_elf_wf [OF l pages_wf_empty] .
  have "m = mem_write 0x80000000 tiny_program (\<lambda>_. None)"
    using load_elf_memory(2) [OF l] by (simp add: tiny_elf_segments write_all_def)
  then have "byte_at m x = (if unat (x - 0x80000000) < 8 then tiny_program ! unat (x - 0x80000000) else byte_at (\<lambda>_. None) x)" for x
    using mem_write_bytes(2) [OF pages_wf_empty, of tiny_program] by (simp add: tiny_program_def)
  then have "ld32 0x80000000 m = le_word [0x93, 0, 0x10, 0]" "ld32 0x80000004 m = le_word [0x23, 0x20, 0x10, 0]"
    by (simp_all add: ld32_def mem_read_bytes [OF p] four tiny_program_def)
  moreover have "le_word [0x93, 0, 0x10, 0] = encode (OPI Addi 1 0 1)" "le_word [0x23, 0x20, 0x10, 0] = encode (STORE Sw 0 1 0)"
    by code_simp+
  ultimately show ?thesis using l that by simp
qed


theorem null_store_exits_witness:
  "memsim (\<lambda>path. if path = ''tiny.elf'' then Some tiny_elf else None) [''--quiet'', ''--params'', ''p.hjson'', ''tiny.elf''] = Some 0"
proof -
  let ?files = "\<lambda>path. if path = ''tiny.elf'' then Some tiny_elf else None"
  obtain m where m: "load_elf tiny_elf (\<lambda>_. None) = Some (Inr (\<lparr>entry = 0x80000000, symbols = \<lambda>_. None\<rparr>, m))"
    "ld32 0x80000000 m = encode (OPI Addi 1 0 1)" "ld32 0x80000004 m = encode (STORE Sw 0 1 0)" by (rule tiny_elf_image)
  have a: "elf_path (parse_args [''--quiet'', ''--params'', ''p.hjson'', ''tiny.elf''] options0) = Some ''tiny.elf''"
    by (simp add: options0_def)
  show ?thesis by (rule null_store_exits [OF a _ m(1), where ?r = 1 and ?imm = 1 and ?w = Sw]) (simp_all add: m(2,3))
qed

end
